(* ===== verification/Prelude.thy ===== *)
theory Prelude
  imports Main "HOL-Library.Signed_Division" "HOL-Library.Multiset"
begin

text \<open>
  Shared vocabulary of the cdm-rs development.

  Rust's signed machine integers are modelled by \<^typ>\<open>int\<close> and its unsigned ones by
  \<^typ>\<open>nat\<close>; the width of a value is a predicate (\<open>in_i128\<close>, \<open>in_i64\<close>) or an upper bound
  (\<open>u128_max\<close>, \<open>u64_max\<close>, \<open>u32_max\<close>), and each arithmetic operation of the code that can leave
  the width (\<open>checked_\<close>, \<open>wrapping_\<close> and \<open>saturating_\<close> operations, \<open>as\<close> casts) has a definition
  here with the width written out. \<open>saturating_sub\<close> of an unsigned type is the subtraction of
  \<^typ>\<open>nat\<close>, which stops at zero. Rust's \<open>/\<close> and \<open>%\<close> on signed integers truncate towards zero:
  they are \<open>sdiv\<close> and \<open>smod\<close> of \<open>HOL-Library.Signed_Division\<close>.

  A fallible operation returns a value of a sum type, \<open>Inl\<close> being Rust's \<open>Err\<close>; \<open>bindR\<close> is the
  \<open>?\<close> operator and \<open>collectR\<close> the \<open>collect::<Result<Vec<_>, _>>\<close> of a mapped iterator.
\<close>

named_theorems range_simps
named_theorems width_simps

subsection \<open>Integer widths\<close>

type_synonym i128 = int
type_synonym i64 = int
type_synonym u8 = nat
type_synonym u16 = nat
type_synonym u32 = nat
type_synonym u64 = nat
type_synonym u128 = nat
type_synonym usize = nat

definition i128_min :: i128 where "i128_min = - (2 ^ 127)"
definition i128_max :: i128 where "i128_max = 2 ^ 127 - 1"
definition i64_min :: i64 where "i64_min = - (2 ^ 63)"
definition i64_max :: i64 where "i64_max = 2 ^ 63 - 1"
definition u128_max :: u128 where "u128_max = 2 ^ 128 - 1"
definition u64_max :: u64 where "u64_max = 2 ^ 64 - 1"
definition u32_max :: u32 where "u32_max = 2 ^ 32 - 1"

lemmas width_defs [width_simps] =
  i128_min_def i128_max_def i64_min_def i64_max_def u128_max_def u64_max_def u32_max_def

definition in_i128 :: "int \<Rightarrow> bool" where
  "in_i128 x \<longleftrightarrow> i128_min \<le> x \<and> x \<le> i128_max"

definition in_i64 :: "int \<Rightarrow> bool" where
  "in_i64 x \<longleftrightarrow> i64_min \<le> x \<and> x \<le> i64_max"

definition checked_add_i128 :: "i128 \<Rightarrow> i128 \<Rightarrow> i128 option" where
  "checked_add_i128 a b = (if in_i128 (a + b) then Some (a + b) else None)"

definition checked_sub_i128 :: "i128 \<Rightarrow> i128 \<Rightarrow> i128 option" where
  "checked_sub_i128 a b = (if in_i128 (a - b) then Some (a - b) else None)"

definition checked_add_i64 :: "i64 \<Rightarrow> i64 \<Rightarrow> i64 option" where
  "checked_add_i64 a b = (if in_i64 (a + b) then Some (a + b) else None)"

text \<open>Two's complement wrap-around of a signed value into 128 and 64 bits.\<close>

definition wrap_i128 :: "int \<Rightarrow> i128" where
  "wrap_i128 x = (x + 2 ^ 127) mod 2 ^ 128 - 2 ^ 127"

definition wrap_i64 :: "int \<Rightarrow> i64" where
  "wrap_i64 x = (x + 2 ^ 63) mod 2 ^ 64 - 2 ^ 63"

text \<open>\<open>i128::cast_unsigned\<close> and \<open>u128::cast_signed\<close>: the same bits read with the other sign.\<close>

definition cast_unsigned_i128 :: "i128 \<Rightarrow> u128" where
  "cast_unsigned_i128 x = nat (x mod 2 ^ 128)"

definition cast_signed_u128 :: "u128 \<Rightarrow> i128" where
  "cast_signed_u128 n = wrap_i128 (int n)"

definition sat_add :: "nat \<Rightarrow> nat \<Rightarrow> nat \<Rightarrow> nat" where
  "sat_add hi a b = min hi (a + b)"

definition sat_mul :: "nat \<Rightarrow> nat \<Rightarrow> nat \<Rightarrow> nat" where
  "sat_mul hi a b = min hi (a * b)"

text \<open>\<open>T::try_from(n).unwrap_or(T::MAX)\<close> for an unsigned target type with maximum \<open>hi\<close>.\<close>

definition clamp_to :: "nat \<Rightarrow> nat \<Rightarrow> nat" where
  "clamp_to hi n = (if n \<le> hi then n else hi)"

definition div_ceil :: "nat \<Rightarrow> nat \<Rightarrow> nat" where
  "div_ceil a b = (if a mod b = 0 then a div b else a div b + 1)"

lemma in_i128_numeral_range [width_simps]:
  "in_i128 x \<longleftrightarrow> -170141183460469231731687303715884105728 \<le> x
              \<and> x \<le> 170141183460469231731687303715884105727"
  by (simp add: in_i128_def i128_min_def i128_max_def)

lemma in_i64_numeral_range [width_simps]:
  "in_i64 x \<longleftrightarrow> -9223372036854775808 \<le> x \<and> x \<le> 9223372036854775807"
  by (simp add: in_i64_def i64_min_def i64_max_def)

lemma wrap_i128_id [simp]: "in_i128 x \<Longrightarrow> wrap_i128 x = x"
  by (simp add: wrap_i128_def in_i128_def i128_min_def i128_max_def)

lemma wrap_i128_range [simp]: "in_i128 (wrap_i128 x)"
  unfolding wrap_i128_def in_i128_def i128_min_def i128_max_def
  using pos_mod_bound [of "2 ^ 128 :: int" "x + 2 ^ 127"]
    pos_mod_sign [of "2 ^ 128 :: int" "x + 2 ^ 127"]
  by auto

lemma wrap_i64_id [simp]: "in_i64 x \<Longrightarrow> wrap_i64 x = x"
  by (simp add: wrap_i64_def in_i64_def i64_min_def i64_max_def)

text \<open>Wrap-around forgets any intermediate wrap: sums may be reduced once, at the end.\<close>

lemma wrap_i128_add_wrap [simp]: "wrap_i128 (a + wrap_i128 b) = wrap_i128 (a + b)"
proof -
  have "a + ((b + 2 ^ 127) mod 2 ^ 128 - 2 ^ 127) + 2 ^ 127
      = a + (b + 2 ^ 127) mod (2 ^ 128 :: int)"
    by simp
  then show ?thesis
    unfolding wrap_i128_def by (simp only: mod_add_right_eq) (simp add: add.assoc)
qed

lemma cast_unsigned_wrap [simp]:
  "cast_unsigned_i128 (wrap_i128 x) = nat (x mod 2 ^ 128)"
proof -
  have "((x + 2 ^ 127) mod 2 ^ 128 - 2 ^ 127) mod 2 ^ 128 = (x + 2 ^ 127 - 2 ^ 127) mod (2 ^ 128 :: int)"
    by (simp only: mod_diff_left_eq)
  then show ?thesis
    by (simp add: cast_unsigned_i128_def wrap_i128_def)
qed

lemma sdiv_nonneg [simp]: "0 \<le> a \<Longrightarrow> 0 \<le> b \<Longrightarrow> (a::int) sdiv b = a div b"
  by (cases "a = 0 \<or> b = 0") (auto simp: signed_divide_int_def)

lemma smod_nonneg [simp]: "0 \<le> a \<Longrightarrow> 0 \<le> b \<Longrightarrow> (a::int) smod b = a mod b"
  by (cases "a = 0") (auto simp: signed_modulo_int_def)

lemma less_div_step: "0 < (b :: int) \<Longrightarrow> a < b * (a div b) + b"
  using mult_div_mod_eq [of b a] pos_mod_bound [of b a] by linarith

lemma sat_add_exact [simp]: "a + b \<le> hi \<Longrightarrow> sat_add hi a b = a + b"
  by (simp add: sat_add_def)

lemma sat_add_le [simp]: "sat_add hi a b \<le> hi"
  by (simp add: sat_add_def)

lemma sat_mul_exact [simp]: "a * b \<le> hi \<Longrightarrow> sat_mul hi a b = a * b"
  by (simp add: sat_mul_def)

lemma sat_mul_le [simp]: "sat_mul hi a b \<le> hi"
  by (simp add: sat_mul_def)

lemma clamp_to_le [simp]: "clamp_to hi n \<le> hi"
  by (simp add: clamp_to_def)

lemma clamp_to_exact [simp]: "n \<le> hi \<Longrightarrow> clamp_to hi n = n"
  by (simp add: clamp_to_def)

lemma div_ceil_bounds:
  assumes "0 < b"
  shows "a \<le> div_ceil a b * b" and "div_ceil a b * b < a + b"
proof -
  have eq: "b * (a div b) + a mod b = a" and lt: "a mod b < b" using assms by simp_all
  have "div_ceil a b * b = b * (a div b) \<and> a mod b = 0 \<or>
        div_ceil a b * b = b * (a div b) + b \<and> 0 < a mod b"
    by (auto simp: div_ceil_def algebra_simps)
  then show "a \<le> div_ceil a b * b" and "div_ceil a b * b < a + b"
    using eq lt by linarith+
qed

subsection \<open>Fallible operations\<close>

definition bindR :: "'e + 'a \<Rightarrow> ('a \<Rightarrow> 'e + 'b) \<Rightarrow> 'e + 'b" where
  "bindR m f = (case m of Inl e \<Rightarrow> Inl e | Inr x \<Rightarrow> f x)"

lemma bindR_simps [simp]:
  "bindR (Inl e) f = Inl e"
  "bindR (Inr x) f = f x"
  by (simp_all add: bindR_def)

lemma bindR_Inr_iff: "bindR m f = Inr y \<longleftrightarrow> (\<exists>x. m = Inr x \<and> f x = Inr y)"
  by (cases m) auto

lemma bindR_Inl_iff: "bindR m f = Inl e \<longleftrightarrow> m = Inl e \<or> (\<exists>x. m = Inr x \<and> f x = Inl e)"
  by (cases m) auto

text \<open>\<open>ok_or\<close>: an absent value becomes the given error.\<close>

definition ok_or :: "'a option \<Rightarrow> 'e \<Rightarrow> 'e + 'a" where
  "ok_or x e = (case x of None \<Rightarrow> Inl e | Some v \<Rightarrow> Inr v)"

lemma ok_or_simps [simp]: "ok_or None e = Inl e" "ok_or (Some v) e = Inr v"
  by (simp_all add: ok_or_def)

text \<open>\<open>map_err\<close>.\<close>

definition map_err :: "('e \<Rightarrow> 'f) \<Rightarrow> 'e + 'a \<Rightarrow> 'f + 'a" where
  "map_err f m = (case m of Inl e \<Rightarrow> Inl (f e) | Inr x \<Rightarrow> Inr x)"

lemma map_err_simps [simp]: "map_err f (Inl e) = Inl (f e)" "map_err f (Inr x) = Inr x"
  by (simp_all add: map_err_def)

lemma map_err_Inr_iff [simp]: "map_err f m = Inr y \<longleftrightarrow> m = Inr y"
  by (cases m) auto

fun collectR :: "('a \<Rightarrow> 'e + 'b) \<Rightarrow> 'a list \<Rightarrow> 'e + 'b list" where
  "collectR f [] = Inr []"
| "collectR f (x # xs) = bindR (f x) (\<lambda>y. bindR (collectR f xs) (\<lambda>ys. Inr (y # ys)))"

lemma collectR_cong [fundef_cong]:
  "xs = ys \<Longrightarrow> (\<And>y. y \<in> set ys \<Longrightarrow> f y = g y) \<Longrightarrow> collectR f xs = collectR g ys"
  by (induction xs arbitrary: ys) auto

lemma collectR_Inr_iff:
  "collectR f xs = Inr ys \<longleftrightarrow> list_all2 (\<lambda>x y. f x = Inr y) xs ys"
  by (induction xs arbitrary: ys) (auto simp: bindR_Inr_iff list_all2_Cons1)

lemma collectR_total:
  "(\<And>x. x \<in> set xs \<Longrightarrow> \<exists>y. f x = Inr y) \<Longrightarrow> \<exists>ys. collectR f xs = Inr ys"
proof (induction xs)
  case (Cons x xs)
  then obtain y ys where "f x = Inr y" "collectR f xs = Inr ys" by fastforce
  then show ?case by simp
qed simp

subsection \<open>ASCII strings\<close>

text \<open>\<open>u8::to_ascii_lowercase\<close> and \<open>str::eq_ignore_ascii_case\<close>, on the bytes of a string.\<close>

definition ascii_lower_char :: "char \<Rightarrow> char" where
  "ascii_lower_char c =
     (let n = (of_char c :: nat) in if 65 \<le> n \<and> n \<le> 90 then char_of (n + 32) else c)"

definition to_ascii_lowercase :: "string \<Rightarrow> string" where
  "to_ascii_lowercase s = map ascii_lower_char s"

definition eq_ignore_ascii_case :: "string \<Rightarrow> string \<Rightarrow> bool" where
  "eq_ignore_ascii_case a b \<longleftrightarrow> to_ascii_lowercase a = to_ascii_lowercase b"

lemma ascii_lower_char_Char [simp]:
  "ascii_lower_char (Char b0 b1 b2 b3 b4 b5 b6 b7) =
     Char b0 b1 b2 b3 b4
       (b5 \<or> (b6 \<and> \<not> b7 \<and> (b0 \<or> b1 \<or> b2 \<or> b3 \<or> b4)
              \<and> \<not> (b4 \<and> b3 \<and> (b2 \<or> (b1 \<and> b0))))) b6 b7"
  by (cases b0; cases b1; cases b2; cases b3; cases b4; cases b5; cases b6; cases b7;
      simp add: ascii_lower_char_def char_of_def bit_0)

lemma to_ascii_lowercase_simps [simp]:
  "to_ascii_lowercase [] = []"
  "to_ascii_lowercase (c # s) = ascii_lower_char c # to_ascii_lowercase s"
  by (simp_all add: to_ascii_lowercase_def)

lemma ascii_lower_char_idem [simp]: "ascii_lower_char (ascii_lower_char c) = ascii_lower_char c"
  by (cases c) auto

lemma to_ascii_lowercase_idem [simp]:
  "to_ascii_lowercase (to_ascii_lowercase s) = to_ascii_lowercase s"
  by (induction s) simp_all

lemma length_to_ascii_lowercase [simp]: "length (to_ascii_lowercase s) = length s"
  by (simp add: to_ascii_lowercase_def)

lemma eq_ignore_ascii_case_refl [simp]: "eq_ignore_ascii_case s s"
  by (simp add: eq_ignore_ascii_case_def)

text \<open>Decimal rendering of integers, as \<open>Display\<close> prints them.\<close>

fun show_nat :: "nat \<Rightarrow> string" where
  "show_nat n = (if n < 10 then [char_of (48 + n)] else show_nat (n div 10) @ [char_of (48 + n mod 10)])"

declare show_nat.simps [simp del]

definition show_int :: "int \<Rightarrow> string" where
  "show_int i = (if i < 0 then CHR ''-'' # show_nat (nat (- i)) else show_nat (nat i))"

subsection \<open>Lists\<close>

text \<open>A list is rearranged by replacing it with one of the same multiset.\<close>

lemma mset_eq_set_eq: "mset xs = mset ys \<Longrightarrow> set xs = set ys"
  by (metis set_mset_mset)

text \<open>Swapping two entries of a slice, \<open>slice::swap\<close>, keeps the multiset.\<close>

definition swap_at :: "usize \<Rightarrow> usize \<Rightarrow> 'a list \<Rightarrow> 'a list" where
  "swap_at i j xs = xs[i := xs ! j, j := xs ! i]"

lemma length_swap_at [simp]: "length (swap_at i j xs) = length xs"
  by (simp add: swap_at_def)

lemma mset_swap_at [simp]: "i < length xs \<Longrightarrow> j < length xs \<Longrightarrow> mset (swap_at i j xs) = mset xs"
  by (simp add: swap_at_def mset_swap)

lemma list_all2_memberD2: "list_all2 R xs ys \<Longrightarrow> y \<in> set ys \<Longrightarrow> \<exists>x \<in> set xs. R x y"
  by (induction rule: list_all2_induct) auto

lemma member_le_sum: "x \<in> set xs \<Longrightarrow> (f x :: nat) \<le> sum_list (map f xs)"
  by (induction xs) auto

lemma sorted_wrt_greater_distinct: "sorted_wrt (>) (xs :: 'a :: order list) \<Longrightarrow> distinct xs"
  by (induction xs) auto

lemma find_Some_member: "List.find P xs = Some x \<Longrightarrow> x \<in> set xs \<and> P x"
  by (auto simp: find_Some_iff)

end
