(* ===== verification/Core_Model.thy ===== *)
theory Core_Model
  imports Prelude "HOL-Library.Word"
begin

text \<open>
  The driver-independent data model of \<open>cdm-core\<close>: cells, rows, keys and records
  (\<open>domain/record.rs\<close>), the \<open>TokenRange\<close> structure (\<open>domain/token.rs\<close>; its operations are in
  theory \<open>Core_Token\<close>), the two sides of a migration (\<open>domain/run.rs\<close>), and the error type every
  fallible operation of the program returns (\<open>error/mod.rs\<close>). An error keeps its kind, its
  message, its context and its cause (a boxed error, of which only the rendering is observable, so
  a string). \<open>'a result\<close> is Rust's \<open>Result<'a, CdmError>\<close>.
\<close>

type_synonym byte = "8 word"

subsection \<open>Cells, tables, keys and rows\<close>

datatype raw_cell = RawCell (cell_bytes: "byte list option")

definition NULL_cell :: raw_cell where
  "NULL_cell = RawCell None"

definition new_cell :: "byte list \<Rightarrow> raw_cell" where
  "new_cell bs = RawCell (Some bs)"

definition cell_is_null :: "raw_cell \<Rightarrow> bool" where
  "cell_is_null c \<longleftrightarrow> cell_bytes c = None"

definition cell_len :: "raw_cell \<Rightarrow> usize" where
  "cell_len c = (case cell_bytes c of None \<Rightarrow> 0 | Some bs \<Rightarrow> length bs)"

definition cell_is_empty :: "raw_cell \<Rightarrow> bool" where
  "cell_is_empty c \<longleftrightarrow> cell_len c = 0"

definition hex_digit :: "nat \<Rightarrow> char" where
  "hex_digit n = (if n < 10 then char_of (48 + n) else char_of (87 + n))"

definition hex_byte :: "byte \<Rightarrow> string" where
  "hex_byte b = [hex_digit (unat b div 16), hex_digit (unat b mod 16)]"

definition show_cell :: "raw_cell \<Rightarrow> string" where
  "show_cell c = (case cell_bytes c of
      None \<Rightarrow> ''null''
    | Some bs \<Rightarrow> ''0x'' @ concat (map hex_byte bs))"

datatype table_ref = TableRef (keyspace: string) (table: string)

definition show_table :: "table_ref \<Rightarrow> string" where
  "show_table t = keyspace t @ ''.'' @ table t"

datatype column_ref = ColumnRef (column_name: string) (cql_type: string)

definition show_column :: "column_ref \<Rightarrow> string" where
  "show_column c = column_name c @ '' '' @ cql_type c"

datatype primary_key = PrimaryKey (key_values: "raw_cell list")

fun join_strings :: "string \<Rightarrow> string list \<Rightarrow> string" where
  "join_strings sep [] = []"
| "join_strings sep [s] = s"
| "join_strings sep (s # t # ss) = s @ sep @ join_strings sep (t # ss)"

definition show_key :: "primary_key \<Rightarrow> string" where
  "show_key k = ''('' @ join_strings '', '' (map show_cell (key_values k)) @ '')''"

datatype row = Row (row_cells: "raw_cell list")

definition row_get :: "row \<Rightarrow> usize \<Rightarrow> raw_cell option" where
  "row_get r i = (if i < length (row_cells r) then Some (row_cells r ! i) else None)"

record exploded_entry =
  entry_key :: raw_cell
  entry_value :: raw_cell

record cdm_record =
  rec_key :: primary_key
  rec_origin :: row
  rec_target :: "row option"
  rec_token :: "i128 option"
  rec_exploded :: "exploded_entry option"

definition new_record :: "primary_key \<Rightarrow> row \<Rightarrow> cdm_record" where
  "new_record k r = \<lparr> rec_key = k, rec_origin = r, rec_target = None, rec_token = None,
                      rec_exploded = None \<rparr>"

definition with_target :: "row \<Rightarrow> cdm_record \<Rightarrow> cdm_record" where
  "with_target r c = c\<lparr>rec_target := Some r\<rparr>"

definition with_token :: "i128 \<Rightarrow> cdm_record \<Rightarrow> cdm_record" where
  "with_token t c = c\<lparr>rec_token := Some t\<rparr>"

definition with_origin :: "row \<Rightarrow> cdm_record \<Rightarrow> cdm_record" where
  "with_origin r c = c\<lparr>rec_origin := r\<rparr>"

definition with_key :: "primary_key \<Rightarrow> cdm_record \<Rightarrow> cdm_record" where
  "with_key k c = c\<lparr>rec_key := k\<rparr>"

definition with_exploded :: "exploded_entry \<Rightarrow> cdm_record \<Rightarrow> cdm_record" where
  "with_exploded e c = c\<lparr>rec_exploded := Some e\<rparr>"

subsection \<open>Sides and token ranges\<close>

datatype side = Origin | Target

definition side_as_str :: "side \<Rightarrow> string" where
  "side_as_str s = (case s of Origin \<Rightarrow> ''origin'' | Target \<Rightarrow> ''target'')"

definition opposite :: "side \<Rightarrow> side" where
  "opposite s = (case s of Origin \<Rightarrow> Target | Target \<Rightarrow> Origin)"

datatype token_range = TokenRange (tr_min: i128) (tr_max: i128)

text \<open>The derived \<open>Ord\<close> of \<open>TokenRange\<close>: lexicographic on \<open>(min, max)\<close>.\<close>

instantiation token_range :: linorder
begin

definition less_eq_token_range :: "token_range \<Rightarrow> token_range \<Rightarrow> bool" where
  "less_eq_token_range a b \<longleftrightarrow> tr_min a < tr_min b \<or> tr_min a = tr_min b \<and> tr_max a \<le> tr_max b"

definition less_token_range :: "token_range \<Rightarrow> token_range \<Rightarrow> bool" where
  "less_token_range a b \<longleftrightarrow> tr_min a < tr_min b \<or> tr_min a = tr_min b \<and> tr_max a < tr_max b"

instance
  by standard (auto simp: less_eq_token_range_def less_token_range_def intro: token_range.expand)

end

definition show_range :: "token_range \<Rightarrow> string" where
  "show_range r = ''['' @ show_int (tr_min r) @ '', '' @ show_int (tr_max r) @ '']''"

subsection \<open>Errors\<close>

datatype error_kind =
    Config | Connect | Auth | Tls | SchemaMismatch | SchemaChanged | TypeConversion
  | Read | Write | RateLimited | Tracking | Lease | Cancelled | Internal

definition error_kinds_all :: "error_kind list" where
  "error_kinds_all =
     [Config, Connect, Auth, Tls, SchemaMismatch, SchemaChanged, TypeConversion,
      Read, Write, RateLimited, Tracking, Lease, Cancelled, Internal]"

fun error_kind_as_str :: "error_kind \<Rightarrow> string" where
  "error_kind_as_str Config = ''Config''"
| "error_kind_as_str Connect = ''Connect''"
| "error_kind_as_str Auth = ''Auth''"
| "error_kind_as_str Tls = ''Tls''"
| "error_kind_as_str SchemaMismatch = ''SchemaMismatch''"
| "error_kind_as_str SchemaChanged = ''SchemaChanged''"
| "error_kind_as_str TypeConversion = ''TypeConversion''"
| "error_kind_as_str Read = ''Read''"
| "error_kind_as_str Write = ''Write''"
| "error_kind_as_str RateLimited = ''RateLimited''"
| "error_kind_as_str Tracking = ''Tracking''"
| "error_kind_as_str Lease = ''Lease''"
| "error_kind_as_str Cancelled = ''Cancelled''"
| "error_kind_as_str Internal = ''Internal''"

fun diagnostic_code :: "error_kind \<Rightarrow> string" where
  "diagnostic_code Config = ''CDM-CONFIG''"
| "diagnostic_code Connect = ''CDM-CONNECT''"
| "diagnostic_code Auth = ''CDM-AUTH''"
| "diagnostic_code Tls = ''CDM-TLS''"
| "diagnostic_code SchemaMismatch = ''CDM-SCHEMA-MISMATCH''"
| "diagnostic_code SchemaChanged = ''CDM-SCHEMA-CHANGED''"
| "diagnostic_code TypeConversion = ''CDM-TYPE-CONVERSION''"
| "diagnostic_code Read = ''CDM-READ''"
| "diagnostic_code Write = ''CDM-WRITE''"
| "diagnostic_code RateLimited = ''CDM-RATE-LIMITED''"
| "diagnostic_code Tracking = ''CDM-TRACKING''"
| "diagnostic_code Lease = ''CDM-LEASE''"
| "diagnostic_code Cancelled = ''CDM-CANCELLED''"
| "diagnostic_code Internal = ''CDM-INTERNAL''"

definition kind_is_retryable :: "error_kind \<Rightarrow> bool" where
  "kind_is_retryable k = (case k of Read \<Rightarrow> True | Write \<Rightarrow> True | RateLimited \<Rightarrow> True | _ \<Rightarrow> False)"

definition kind_is_fatal :: "error_kind \<Rightarrow> bool" where
  "kind_is_fatal k = (case k of
      Config \<Rightarrow> True | Connect \<Rightarrow> True | Auth \<Rightarrow> True | Tls \<Rightarrow> True | SchemaMismatch \<Rightarrow> True
    | SchemaChanged \<Rightarrow> True | Internal \<Rightarrow> True | _ \<Rightarrow> False)"

record error_context =
  ctx_side :: "side option"
  ctx_table :: "table_ref option"
  ctx_column :: "string option"
  ctx_range :: "token_range option"
  ctx_primary_key :: "primary_key option"
  ctx_config_key :: "string option"

definition new_context :: error_context where
  "new_context = \<lparr> ctx_side = None, ctx_table = None, ctx_column = None, ctx_range = None,
                   ctx_primary_key = None, ctx_config_key = None \<rparr>"

definition context_is_empty :: "error_context \<Rightarrow> bool" where
  "context_is_empty c \<longleftrightarrow> ctx_side c = None \<and> ctx_table c = None \<and> ctx_column c = None
     \<and> ctx_range c = None \<and> ctx_primary_key c = None \<and> ctx_config_key c = None"

definition with_side :: "side \<Rightarrow> error_context \<Rightarrow> error_context" where
  "with_side s c = c\<lparr>ctx_side := Some s\<rparr>"

definition with_table :: "table_ref \<Rightarrow> error_context \<Rightarrow> error_context" where
  "with_table t c = c\<lparr>ctx_table := Some t\<rparr>"

definition with_column :: "string \<Rightarrow> error_context \<Rightarrow> error_context" where
  "with_column s c = c\<lparr>ctx_column := Some s\<rparr>"

definition with_range :: "token_range \<Rightarrow> error_context \<Rightarrow> error_context" where
  "with_range r c = c\<lparr>ctx_range := Some r\<rparr>"

definition with_primary_key :: "primary_key \<Rightarrow> error_context \<Rightarrow> error_context" where
  "with_primary_key k c = c\<lparr>ctx_primary_key := Some k\<rparr>"

definition with_config_key :: "string \<Rightarrow> error_context \<Rightarrow> error_context" where
  "with_config_key k c = c\<lparr>ctx_config_key := Some k\<rparr>"

definition show_part :: "('a \<Rightarrow> string) \<Rightarrow> 'a option \<Rightarrow> string list" where
  "show_part f x = (case x of None \<Rightarrow> [] | Some v \<Rightarrow> [f v])"

definition show_context :: "error_context \<Rightarrow> string" where
  "show_context c =
     (if context_is_empty c then []
      else let parts =
          show_part side_as_str (ctx_side c)
          @ show_part show_table (ctx_table c)
          @ show_part (\<lambda>s. ''column='' @ s) (ctx_column c)
          @ show_part (\<lambda>r. ''range='' @ show_range r) (ctx_range c)
          @ show_part (\<lambda>k. ''pk='' @ show_key k) (ctx_primary_key c)
          @ show_part (\<lambda>k. ''key='' @ k) (ctx_config_key c)
        in '' ['' @ join_strings '' '' parts @ '']'')"

datatype cdm_error =
    ConfigError string error_context "string option"
  | ConnectError string error_context "string option"
  | AuthError string error_context "string option"
  | TlsError string error_context "string option"
  | SchemaMismatchError string error_context "string option"
  | SchemaChangedError string error_context "string option"
  | TypeConversionError string error_context "string option"
  | ReadError string error_context "string option"
  | WriteError string error_context "string option"
  | RateLimitedError string error_context "string option"
  | TrackingError string error_context "string option"
  | LeaseError string error_context "string option"
  | CancelledError string error_context "string option"
  | InternalError string error_context "string option"

type_synonym 'a result = "cdm_error + 'a"

fun error_variant :: "error_kind \<Rightarrow> string \<Rightarrow> error_context \<Rightarrow> string option \<Rightarrow> cdm_error" where
  "error_variant Config = ConfigError"
| "error_variant Connect = ConnectError"
| "error_variant Auth = AuthError"
| "error_variant Tls = TlsError"
| "error_variant SchemaMismatch = SchemaMismatchError"
| "error_variant SchemaChanged = SchemaChangedError"
| "error_variant TypeConversion = TypeConversionError"
| "error_variant Read = ReadError"
| "error_variant Write = WriteError"
| "error_variant RateLimited = RateLimitedError"
| "error_variant Tracking = TrackingError"
| "error_variant Lease = LeaseError"
| "error_variant Cancelled = CancelledError"
| "error_variant Internal = InternalError"

definition new_error :: "error_kind \<Rightarrow> string \<Rightarrow> cdm_error" where
  "new_error k m = error_variant k m new_context None"

fun error_kind_of :: "cdm_error \<Rightarrow> error_kind" where
  "error_kind_of (ConfigError m c s) = Config"
| "error_kind_of (ConnectError m c s) = Connect"
| "error_kind_of (AuthError m c s) = Auth"
| "error_kind_of (TlsError m c s) = Tls"
| "error_kind_of (SchemaMismatchError m c s) = SchemaMismatch"
| "error_kind_of (SchemaChangedError m c s) = SchemaChanged"
| "error_kind_of (TypeConversionError m c s) = TypeConversion"
| "error_kind_of (ReadError m c s) = Read"
| "error_kind_of (WriteError m c s) = Write"
| "error_kind_of (RateLimitedError m c s) = RateLimited"
| "error_kind_of (TrackingError m c s) = Tracking"
| "error_kind_of (LeaseError m c s) = Lease"
| "error_kind_of (CancelledError m c s) = Cancelled"
| "error_kind_of (InternalError m c s) = Internal"

text \<open>\<open>for_each_variant!\<close>: the three common fields of whichever variant the error is.\<close>

fun error_fields :: "cdm_error \<Rightarrow> string \<times> error_context \<times> string option" where
  "error_fields (ConfigError m c s) = (m, c, s)"
| "error_fields (ConnectError m c s) = (m, c, s)"
| "error_fields (AuthError m c s) = (m, c, s)"
| "error_fields (TlsError m c s) = (m, c, s)"
| "error_fields (SchemaMismatchError m c s) = (m, c, s)"
| "error_fields (SchemaChangedError m c s) = (m, c, s)"
| "error_fields (TypeConversionError m c s) = (m, c, s)"
| "error_fields (ReadError m c s) = (m, c, s)"
| "error_fields (WriteError m c s) = (m, c, s)"
| "error_fields (RateLimitedError m c s) = (m, c, s)"
| "error_fields (TrackingError m c s) = (m, c, s)"
| "error_fields (LeaseError m c s) = (m, c, s)"
| "error_fields (CancelledError m c s) = (m, c, s)"
| "error_fields (InternalError m c s) = (m, c, s)"

definition error_message :: "cdm_error \<Rightarrow> string" where
  "error_message e = fst (error_fields e)"

definition error_context_of :: "cdm_error \<Rightarrow> error_context" where
  "error_context_of e = fst (snd (error_fields e))"

definition error_source :: "cdm_error \<Rightarrow> string option" where
  "error_source e = snd (snd (error_fields e))"

text \<open>The \<open>Display\<close> the variants' \<open>error\<close> attributes derive.\<close>

fun error_label :: "error_kind \<Rightarrow> string" where
  "error_label Config = ''configuration error: ''"
| "error_label Connect = ''connection error: ''"
| "error_label Auth = ''authentication error: ''"
| "error_label Tls = ''TLS error: ''"
| "error_label SchemaMismatch = ''schema mismatch: ''"
| "error_label SchemaChanged = ''schema changed mid-run: ''"
| "error_label TypeConversion = ''type conversion error: ''"
| "error_label Read = ''read error: ''"
| "error_label Write = ''write error: ''"
| "error_label RateLimited = ''rate limited: ''"
| "error_label Tracking = ''run tracking error: ''"
| "error_label Lease = ''lease error: ''"
| "error_label Cancelled = ''cancelled: ''"
| "error_label Internal = ''internal error: ''"

definition show_error :: "cdm_error \<Rightarrow> string" where
  "show_error e = error_label (error_kind_of e) @ error_message e @ show_context (error_context_of e)"

definition with_context :: "(error_context \<Rightarrow> error_context) \<Rightarrow> cdm_error \<Rightarrow> cdm_error" where
  "with_context f e =
     error_variant (error_kind_of e) (error_message e) (f (error_context_of e)) (error_source e)"

definition with_source :: "string \<Rightarrow> cdm_error \<Rightarrow> cdm_error" where
  "with_source cause e =
     error_variant (error_kind_of e) (error_message e) (error_context_of e) (Some cause)"

definition error_is_retryable :: "cdm_error \<Rightarrow> bool" where
  "error_is_retryable e = kind_is_retryable (error_kind_of e)"

definition error_is_fatal :: "cdm_error \<Rightarrow> bool" where
  "error_is_fatal e = kind_is_fatal (error_kind_of e)"

definition origin_cell :: "cdm_record \<Rightarrow> usize \<Rightarrow> raw_cell result" where
  "origin_cell c i = ok_or (row_get (rec_origin c) i)
     (with_context (with_primary_key (rec_key c))
       (new_error Internal
         (''origin projection has '' @ show_nat (length (row_cells (rec_origin c)))
          @ '' columns; column '' @ show_nat i @ '' was requested'')))"

subsection \<open>Lemmas\<close>

lemma error_variant_fields [simp]:
  "error_kind_of (error_variant k m c s) = k"
  "error_fields (error_variant k m c s) = (m, c, s)"
  by (cases k; simp)+

lemma error_variant_eta [simp]:
  "error_variant (error_kind_of e) (fst (error_fields e)) (fst (snd (error_fields e)))
     (snd (snd (error_fields e))) = e"
  by (cases e) simp_all

lemma new_error_kind [simp]: "error_kind_of (new_error k m) = k"
  by (simp add: new_error_def)

lemma with_context_kind [simp]: "error_kind_of (with_context f e) = error_kind_of e"
  by (simp add: with_context_def)

lemma with_source_kind [simp]: "error_kind_of (with_source s e) = error_kind_of e"
  by (simp add: with_source_def)

lemma with_context_context [simp]: "error_context_of (with_context f e) = f (error_context_of e)"
  by (simp add: with_context_def error_context_of_def)

lemma with_context_message [simp]: "error_message (with_context f e) = error_message e"
  by (simp add: with_context_def error_message_def)

lemma new_error_context [simp]: "error_context_of (new_error k m) = new_context"
  by (simp add: new_error_def error_context_of_def)

lemma retryable_not_fatal: "kind_is_retryable k \<Longrightarrow> \<not> kind_is_fatal k"
  by (cases k) (simp_all add: kind_is_retryable_def kind_is_fatal_def)

lemma cell_is_empty_iff: "cell_is_empty c \<longleftrightarrow> cell_is_null c \<or> cell_bytes c = Some []"
  by (auto simp: cell_is_empty_def cell_is_null_def cell_len_def split: option.splits)

end
