(* ===== verification/Core_Token.thy ===== *)
theory Core_Token
  imports Core_Model
begin

text \<open>
  Token-ring geometry: \<open>crates/cdm-core/src/domain/token.rs\<close>. \<open>wf_range\<close> is the invariant of the
  \<open>TokenRange\<close> structure (a closed interval, never inverted, with \<open>i128\<close> bounds). \<open>hits t rs\<close> counts
  the ranges of a list that hold token \<open>t\<close>: a list covers a segment exactly once when \<open>hits\<close> is one
  inside and zero outside, a property of the list's multiset, which every later stage of planning
  (splitting, clipping, shuffling, subdividing) is shown to keep. The locale \<open>range_splitter\<close> is the
  contract of a subdivision routine; \<open>TokenRange::split\<close> implements it here and the ring splitter of
  the planner in theory \<open>Planner_Split\<close>.
\<close>

subsection \<open>The operations of \<open>TokenRange\<close>\<close>

definition MURMUR3_FULL :: token_range where
  "MURMUR3_FULL = TokenRange i64_min i64_max"

definition RANDOM_FULL :: token_range where
  "RANDOM_FULL = TokenRange 0 i128_max"

definition new_range :: "i128 \<Rightarrow> i128 \<Rightarrow> token_range result" where
  "new_range mn mx =
     (if mn > mx
      then Inl (new_error Config (''inverted token range: min '' @ show_int mn
                  @ '' is greater than max '' @ show_int mx))
      else Inr (TokenRange mn mx))"

definition token_count :: "token_range \<Rightarrow> u128" where
  "token_count r = sat_add u128_max (cast_unsigned_i128 (wrap_i128 (tr_max r - tr_min r))) 1"

definition contains :: "token_range \<Rightarrow> i128 \<Rightarrow> bool" where
  "contains r t \<longleftrightarrow> tr_min r \<le> t \<and> t \<le> tr_max r"

definition contains_range :: "token_range \<Rightarrow> token_range \<Rightarrow> bool" where
  "contains_range r other \<longleftrightarrow> tr_min r \<le> tr_min other \<and> tr_max other \<le> tr_max r"

definition intersects :: "token_range \<Rightarrow> token_range \<Rightarrow> bool" where
  "intersects r other \<longleftrightarrow> tr_min r \<le> tr_max other \<and> tr_min other \<le> tr_max r"

text \<open>The \<open>for index in 0..parts\<close> loop of \<open>split\<close>; \<open>k\<close> iterations are left.\<close>

fun split_loop :: "u128 \<Rightarrow> u128 \<Rightarrow> u128 \<Rightarrow> nat \<Rightarrow> i128 \<Rightarrow> token_range list" where
  "split_loop base remainder index 0 cursor = []"
| "split_loop base remainder index (Suc k) cursor =
     (let extra = (if index < remainder then 1 else 0);
          span = base + extra;
          last = wrap_i128 (cursor + cast_signed_u128 (span - 1))
      in TokenRange cursor last
         # split_loop base remainder (index + 1) k (wrap_i128 (last + 1)))"

definition split_range :: "token_range \<Rightarrow> u32 \<Rightarrow> token_range list result" where
  "split_range r parts =
     (if parts = 0
      then Inl (new_error Config ''cannot split a token range into zero parts'')
      else let total = token_count r;
               parts' = min parts total;
               base = total div parts';
               remainder = total mod parts'
           in Inr (split_loop base remainder 0 parts' (tr_min r)))"

subsection \<open>The range invariant and exact coverage\<close>

definition wf_range :: "token_range \<Rightarrow> bool" where
  "wf_range r \<longleftrightarrow> tr_min r \<le> tr_max r \<and> in_i128 (tr_min r) \<and> in_i128 (tr_max r)"

definition hits :: "i128 \<Rightarrow> token_range list \<Rightarrow> nat" where
  "hits t rs = length (filter (\<lambda>r. contains r t) rs)"

definition covers_once :: "token_range \<Rightarrow> token_range list \<Rightarrow> bool" where
  "covers_once b rs \<longleftrightarrow> (\<forall>t. hits t rs = of_bool (contains b t))"

text \<open>\<open>tiles lo hi rs\<close>: the ranges follow one another from \<open>lo\<close> to \<open>hi\<close> with no gap.\<close>

fun tiles :: "i128 \<Rightarrow> i128 \<Rightarrow> token_range list \<Rightarrow> bool" where
  "tiles lo hi [] \<longleftrightarrow> lo = hi + 1"
| "tiles lo hi (r # rs) \<longleftrightarrow>
     tr_min r = lo \<and> lo \<le> tr_max r \<and> tr_max r \<le> hi \<and> tiles (tr_max r + 1) hi rs"

lemmas range_defs [range_simps] = contains_def contains_range_def intersects_def

lemma new_range_Inr_iff [simp]:
  "new_range mn mx = Inr r \<longleftrightarrow> mn \<le> mx \<and> r = TokenRange mn mx"
  by (auto simp: new_range_def)

lemma new_range_ok [simp]: "mn \<le> mx \<Longrightarrow> new_range mn mx = Inr (TokenRange mn mx)"
  by simp

lemma new_range_error_kind: "new_range mn mx = Inl e \<Longrightarrow> mx < mn \<and> error_kind_of e = Config"
  by (auto simp: new_range_def split: if_splits)

lemma full_rings_wf [simp]: "wf_range MURMUR3_FULL" "wf_range RANDOM_FULL"
  by (simp_all add: wf_range_def MURMUR3_FULL_def RANDOM_FULL_def in_i128_def width_defs)

lemma hits_Nil [simp]: "hits t [] = 0"
  by (simp add: hits_def)

lemma hits_Cons [simp]: "hits t (r # rs) = of_bool (contains r t) + hits t rs"
  by (simp add: hits_def)

lemma hits_append [simp]: "hits t (rs @ ss) = hits t rs + hits t ss"
  by (simp add: hits_def)

lemma hits_mset: "mset rs = mset ss \<Longrightarrow> hits t rs = hits t ss"
  unfolding hits_def by (metis mset_filter size_mset)

lemma hits_pos_iff: "0 < hits t rs \<longleftrightarrow> (\<exists>r \<in> set rs. contains r t)"
  by (induction rs) auto

lemma hits_concat: "hits t (concat rss) = sum_list (map (hits t) rss)"
  by (induction rss) auto

text \<open>Replacing each range of a list by a group that covers it exactly once keeps the coverage.\<close>

lemma hits_concat_groups:
  "list_all2 (\<lambda>r g. \<forall>t. hits t g = of_bool (contains r t)) xs gs \<Longrightarrow> hits t (concat gs) = hits t xs"
  by (induction rule: list_all2_induct) simp_all

lemma covers_once_mset: "mset rs = mset ss \<Longrightarrow> covers_once b rs = covers_once b ss"
  by (simp add: covers_once_def hits_mset [of rs ss])

lemma tiles_bounds: "tiles lo hi rs \<Longrightarrow> rs \<noteq> [] \<Longrightarrow> lo \<le> hi"
  by (cases rs) auto

lemma tiles_le: "tiles lo hi rs \<Longrightarrow> lo \<le> hi + 1"
  by (cases rs) auto

lemma tiles_member:
  "tiles lo hi rs \<Longrightarrow> r \<in> set rs \<Longrightarrow> lo \<le> tr_min r \<and> tr_min r \<le> tr_max r \<and> tr_max r \<le> hi"
  by (induction rs arbitrary: lo) fastforce+

lemma tiles_hits: "tiles lo hi rs \<Longrightarrow> hits t rs = of_bool (lo \<le> t \<and> t \<le> hi)"
proof (induction rs arbitrary: lo)
  case (Cons r rs)
  then have "hits t rs = of_bool (tr_max r + 1 \<le> t \<and> t \<le> hi)" by simp
  with Cons.prems show ?case by (auto simp: contains_def)
qed simp

lemma tiles_covers_once: "tiles (tr_min b) (tr_max b) rs \<Longrightarrow> covers_once b rs"
  by (simp add: covers_once_def contains_def tiles_hits)

lemma tiles_sorted: "tiles lo hi rs \<Longrightarrow> sorted rs"
proof (induction rs arbitrary: lo)
  case (Cons r rs)
  then have "tr_min r < tr_min s" if "s \<in> set rs" for s
    using tiles_member [of "tr_max r + 1" hi rs s] that by auto
  with Cons show ?case by (auto simp: less_eq_token_range_def)
qed simp

lemma tiles_wf:
  assumes "tiles (tr_min b) (tr_max b) rs" and "wf_range b" and "r \<in> set rs"
  shows "wf_range r"
  using tiles_member [OF assms(1,3)] assms(2) by (auto simp: wf_range_def in_i128_def)

lemma covers_once_disjoint:
  assumes "covers_once b (xs @ r # ys @ s # zs)" and "contains r t"
  shows "\<not> contains s t"
proof
  assume "contains s t"
  with assms(2) have "2 \<le> hits t (xs @ r # ys @ s # zs)" by simp
  moreover from assms(1) have "hits t (xs @ r # ys @ s # zs) = of_bool (contains b t)"
    unfolding covers_once_def by blast
  then have "hits t (xs @ r # ys @ s # zs) \<le> 1" by (cases "contains b t") simp_all
  ultimately show False by linarith
qed

subsection \<open>The contract of a subdivision routine\<close>

locale range_splitter =
  fixes split_fn :: "token_range \<Rightarrow> nat \<Rightarrow> token_range list result"
    and ok :: "token_range \<Rightarrow> nat \<Rightarrow> bool"
  assumes split_total: "ok r n \<Longrightarrow> \<exists>rs. split_fn r n = Inr rs"
    and split_once: "ok r n \<Longrightarrow> split_fn r n = Inr rs \<Longrightarrow> covers_once r rs"
    and split_wf: "ok r n \<Longrightarrow> split_fn r n = Inr rs \<Longrightarrow> s \<in> set rs \<Longrightarrow> wf_range s"
begin

lemma split_hits: "ok r n \<Longrightarrow> split_fn r n = Inr rs \<Longrightarrow> hits t rs = of_bool (contains r t)"
  using split_once by (simp add: covers_once_def)

text \<open>
  Subdividing every range of a work list, each by its own factor and with the pieces rearranged in
  any way, keeps how often each token is covered.
\<close>

lemma subdivide_hits:
  assumes "list_all2 (\<lambda>r rs. \<exists>n ps. ok r n \<and> split_fn r n = Inr ps \<and> mset rs = mset ps) xs rss"
  shows "hits t (concat rss) = hits t xs"
proof (rule hits_concat_groups, rule list_all2_mono [OF assms])
  fix r rs assume "\<exists>n ps. ok r n \<and> split_fn r n = Inr ps \<and> mset rs = mset ps"
  then obtain n ps where "ok r n" "split_fn r n = Inr ps" "mset rs = mset ps" by blast
  then show "\<forall>t. hits t rs = of_bool (contains r t)" using hits_mset [of rs ps] split_hits by simp
qed

lemma subdivide_wf:
  assumes "list_all2 (\<lambda>r rs. \<exists>n ps. ok r n \<and> split_fn r n = Inr ps \<and> mset rs = mset ps) xs rss"
    and "s \<in> set (concat rss)"
  shows "wf_range s"
  using assms
proof (induction rule: list_all2_induct)
  case (Cons r xs rs rss)
  then obtain n ps where "ok r n" "split_fn r n = Inr ps" "set rs = set ps"
    using mset_eq_set_eq by blast
  with Cons show ?case using split_wf by auto
qed simp

end

subsection \<open>\<open>TokenRange::split\<close>\<close>

text \<open>
  The token count saturates at \<open>u128::MAX\<close>; it is exact for every range but the full \<open>i128\<close> line.
\<close>

definition countable_range :: "token_range \<Rightarrow> bool" where
  "countable_range r \<longleftrightarrow> wf_range r \<and> tr_max r - tr_min r < 2 ^ 128 - 1"

lemma token_count_exact:
  assumes "countable_range r"
  shows "int (token_count r) = tr_max r - tr_min r + 1"
proof -
  let ?w = "tr_max r - tr_min r"
  have w: "0 \<le> ?w" "?w < 2 ^ 128 - 1" using assms by (auto simp: countable_range_def wf_range_def)
  then have m: "?w mod 2 ^ 128 = ?w" by (intro mod_pos_pos_trivial) auto
  have le: "nat ?w + 1 \<le> u128_max" using w by (simp add: u128_max_def nat_less_iff)
  show ?thesis
    using w le by (simp only: token_count_def cast_unsigned_wrap m sat_add_exact)
qed

lemma token_count_full:
  "token_count (TokenRange i128_min i128_max) = u128_max"
  by (simp only: token_count_def token_range.sel cast_unsigned_wrap) (simp add: width_defs sat_add_def)

lemma token_count_pos: "countable_range r \<Longrightarrow> 0 < token_count r"
  using token_count_exact [of r] by (auto simp: countable_range_def wf_range_def)

definition spans :: "u128 \<Rightarrow> u128 \<Rightarrow> nat \<Rightarrow> nat \<Rightarrow> nat" where
  "spans base remainder i k = k * base + (min remainder (i + k) - min remainder i)"

lemma spans_Suc:
  "spans base rm i (Suc k) = (base + (if i < rm then 1 else 0)) + spans base rm (i + 1) k"
  by (auto simp: spans_def min_def)

lemma split_loop_length [simp]: "length (split_loop base rm i k cur) = k"
  by (induction k arbitrary: i cur) (simp_all add: Let_def)

lemma split_loop_tiles:
  assumes "0 < base" "in_i128 cur" "cur + int (spans base rm i k) - 1 \<le> i128_max"
  shows "tiles cur (cur + int (spans base rm i k) - 1) (split_loop base rm i k cur)
       \<and> (\<forall>r \<in> set (split_loop base rm i k cur).
            tr_max r - tr_min r + 1 = int base \<or> tr_max r - tr_min r + 1 = int base + 1)"
  using assms(2,3)
proof (induction k arbitrary: i cur)
  case (Suc k)
  define ex where "ex = (if i < rm then 1 else 0 :: nat)"
  define sp where "sp = base + ex"
  define en where "en = cur + int sp - 1"
  have sp: "0 < sp" using assms(1) by (simp add: sp_def)
  have S: "spans base rm i (Suc k) = sp + spans base rm (i + 1) k"
    by (simp add: spans_Suc sp_def ex_def)
  then have en: "in_i128 en" "en + int (spans base rm (i + 1) k) = cur + int (spans base rm i (Suc k)) - 1"
    using Suc.prems sp by (auto simp: en_def in_i128_def)
  have e: "wrap_i128 (cur + cast_signed_u128 (sp - 1)) = en"
    using en(1) sp by (simp add: cast_signed_u128_def en_def of_nat_diff algebra_simps)
  have step: "split_loop base rm i (Suc k) cur
      = TokenRange cur en # split_loop base rm (i + 1) k (wrap_i128 (en + 1))"
    by (simp only: split_loop.simps Let_def ex_def [symmetric] sp_def [symmetric] e)
  have w: "cur \<le> en" "en - cur + 1 = int base \<or> en - cur + 1 = int base + 1"
    using sp by (auto simp: en_def sp_def ex_def)
  show ?case
  proof (cases "k = 0")
    case True
    then have "cur + int (spans base rm i (Suc k)) - 1 = en" using en(2) by (simp add: spans_def)
    then show ?thesis unfolding step using True w by auto
  next
    case False
    then have "0 < k * base" using assms(1) by simp
    then have pos: "0 < spans base rm (i + 1) k" unfolding spans_def by (rule trans_less_add1)
    have in1: "in_i128 (en + 1)" using en Suc.prems pos by (auto simp: in_i128_def)
    have hi: "en + 1 + int (spans base rm (i + 1) k) - 1 = cur + int (spans base rm i (Suc k)) - 1"
      using en(2) by simp
    from Suc.IH [OF in1, of "i + 1", unfolded hi, OF Suc.prems(2)] show ?thesis
      unfolding step wrap_i128_id [OF in1] using w en(2) by auto
  qed
qed (simp add: spans_def)

lemma spans_total: "0 < n \<Longrightarrow> spans (m div n) (m mod n) 0 n = m"
proof -
  assume "0 < n"
  then have "m mod n < n" by simp
  then show ?thesis by (simp add: spans_def min_def)
qed

lemma split_range_tiles:
  assumes "countable_range r" "0 < parts"
  shows "\<exists>rs. split_range r parts = Inr rs \<and> tiles (tr_min r) (tr_max r) rs
           \<and> length rs = min parts (token_count r)
           \<and> (\<forall>s \<in> set rs. tr_max s - tr_min s + 1 = int (token_count r div length rs)
                \<or> tr_max s - tr_min s + 1 = int (token_count r div length rs) + 1)"
proof -
  let ?n = "min parts (token_count r)"
  let ?b = "token_count r div ?n" and ?m = "token_count r mod ?n"
  have n: "0 < ?n" using assms token_count_pos by simp
  have b: "0 < ?b" using n by (simp add: div_greater_zero_iff)
  have tot: "tr_min r + int (spans ?b ?m 0 ?n) - 1 = tr_max r"
    using spans_total [OF n] token_count_exact [OF assms(1)] by simp
  have "in_i128 (tr_min r)" "tr_max r \<le> i128_max"
    using assms(1) by (auto simp: countable_range_def wf_range_def in_i128_def)
  from split_loop_tiles [OF b this(1), of ?m 0 ?n, unfolded tot, OF this(2)] show ?thesis
    using assms(2) by (simp add: split_range_def Let_def)
qed

interpretation even_split: range_splitter split_range "\<lambda>r n. countable_range r \<and> 0 < n"
proof
  fix r rs s and n :: nat
  assume ok: "countable_range r \<and> 0 < n"
  then obtain ps where ps: "split_range r n = Inr ps" "tiles (tr_min r) (tr_max r) ps"
    using split_range_tiles by blast
  then show "\<exists>rs. split_range r n = Inr rs" by blast
  assume "split_range r n = Inr rs"
  with ps have t: "tiles (tr_min r) (tr_max r) rs" by simp
  then show "covers_once r rs" by (rule tiles_covers_once)
  assume "s \<in> set rs"
  with t ok show "wf_range s" by (auto simp: countable_range_def intro: tiles_wf)
qed

subsection \<open>Properties\<close>

text \<open>
  \<open>TokenRange::split\<close> succeeds for every positive part count and returns exactly
  \<open>min parts token_count\<close> sub-ranges, each a well-formed interval, which hold every token of the
  range in exactly one of them and no other token; their sizes differ by at most one.
\<close>

theorem split_range_exact:
  assumes "countable_range r" and "0 < parts"
  shows "\<exists>rs. split_range r parts = Inr rs \<and> length rs = min parts (token_count r)
           \<and> covers_once r rs \<and> (\<forall>s \<in> set rs. wf_range s)
           \<and> (\<forall>s \<in> set rs. \<forall>s' \<in> set rs. \<bar>(tr_max s - tr_min s) - (tr_max s' - tr_min s')\<bar> \<le> 1)"
proof -
  obtain rs where rs: "split_range r parts = Inr rs" "tiles (tr_min r) (tr_max r) rs"
      "length rs = min parts (token_count r)"
      "\<forall>s \<in> set rs. tr_max s - tr_min s + 1 = int (token_count r div length rs)
                 \<or> tr_max s - tr_min s + 1 = int (token_count r div length rs) + 1"
    using split_range_tiles [OF assms] by blast
  have "\<forall>s \<in> set rs. \<forall>s' \<in> set rs. \<bar>(tr_max s - tr_min s) - (tr_max s' - tr_min s')\<bar> \<le> 1"
  proof (intro ballI)
    fix s s' assume "s \<in> set rs" "s' \<in> set rs"
    with rs(4) have "tr_max s - tr_min s + 1 \<in> {int (token_count r div length rs), int (token_count r div length rs) + 1}"
      "tr_max s' - tr_min s' + 1 \<in> {int (token_count r div length rs), int (token_count r div length rs) + 1}"
      by auto
    then show "\<bar>(tr_max s - tr_min s) - (tr_max s' - tr_min s')\<bar> \<le> 1" by auto
  qed
  moreover have "\<forall>s \<in> set rs. wf_range s" and "covers_once r rs"
    using rs(1) assms even_split.split_wf even_split.split_once by blast+
  ultimately show ?thesis using rs(1,3) by blast
qed

theorem split_range_exact_witness:
  "\<exists>rs. split_range (TokenRange 0 9) 3 = Inr rs \<and> length rs = 3 \<and> covers_once (TokenRange 0 9) rs"
proof -
  have r: "countable_range (TokenRange 0 9)"
    by (simp add: countable_range_def wf_range_def in_i128_def width_defs)
  have "token_count (TokenRange 0 9) = 10"
    using token_count_exact [OF r] by simp
  then show ?thesis
    using split_range_exact [OF r, of 3] by auto
qed

text \<open>
  The one exception to exact coverage: on the range that spans the whole \<open>i128\<close> line the
  saturated token count is one short, so \<open>TokenRange::split\<close> never returns the last token,
  whatever the part count.
\<close>

theorem split_range_full_line_drops_last:
  assumes "0 < parts"
  shows "\<exists>rs. split_range (TokenRange i128_min i128_max) parts = Inr rs \<and> hits i128_max rs = 0"
proof -
  let ?r = "TokenRange i128_min i128_max"
  let ?n = "min parts u128_max" let ?b = "u128_max div ?n" and ?m = "u128_max mod ?n"
  have n: "0 < ?n" and b: "0 < ?b" using assms by (auto simp: u128_max_def div_greater_zero_iff)
  have tot: "i128_min + int (spans ?b ?m 0 ?n) - 1 = i128_max - 1"
    unfolding spans_total [OF n] by (simp add: width_defs)
  have "in_i128 i128_min" "i128_max - 1 \<le> i128_max" by (simp_all add: in_i128_def width_defs)
  from split_loop_tiles [OF b this(1), of ?m 0 ?n, unfolded tot, OF this(2)]
  have "tiles i128_min (i128_max - 1) (split_loop ?b ?m 0 ?n i128_min)" by simp
  then have "hits i128_max (split_loop ?b ?m 0 ?n i128_min) = 0" by (simp add: tiles_hits)
  then show ?thesis using assms by (simp add: split_range_def token_count_full Let_def)
qed

theorem split_range_full_line_drops_last_witness:
  "\<exists>rs. split_range (TokenRange i128_min i128_max) 2 = Inr rs \<and> hits i128_max rs = 0"
  using split_range_full_line_drops_last [of 2] by simp

end
