(* ===== verification/Rust_Strings.thy ===== *)
theory Rust_Strings
  imports Core_Model
begin

text \<open>
  The methods of the standard library's \<open>str\<close> that the program's parsers use. A string is the list of
  its bytes; the white space \<open>str::trim\<close> removes is the ASCII white space, the only kind the strings
  parsed here have.
\<close>

subsection \<open>Splitting, trimming and parsing\<close>

text \<open>\<open>str::split\<close> and \<open>str::rsplit_once\<close> at one character, \<open>str::trim\<close>, and \<open>str::parse\<close> for an unsigned type.\<close>

fun split_char :: "char \<Rightarrow> string \<Rightarrow> string list" where
  "split_char c [] = [[]]"
| "split_char c (x # xs) =
     (if x = c then [] # split_char c xs
      else case split_char c xs of [] \<Rightarrow> [[x]] | p # ps \<Rightarrow> (x # p) # ps)"

definition rsplit_once :: "char \<Rightarrow> string \<Rightarrow> (string \<times> string) option" where
  "rsplit_once c s =
     (if c \<in> set s
      then Some (rev (tl (dropWhile (\<lambda>x. x \<noteq> c) (rev s))), rev (takeWhile (\<lambda>x. x \<noteq> c) (rev s)))
      else None)"

definition is_ascii_space :: "char \<Rightarrow> bool" where
  "is_ascii_space c \<longleftrightarrow> (let n = (of_char c :: nat) in (9 \<le> n \<and> n \<le> 13) \<or> n = 32)"

definition trim :: "string \<Rightarrow> string" where
  "trim s = rev (dropWhile is_ascii_space (rev (dropWhile is_ascii_space s)))"

definition is_digit :: "char \<Rightarrow> bool" where
  "is_digit c \<longleftrightarrow> (let n = (of_char c :: nat) in 48 \<le> n \<and> n \<le> 57)"

definition digits_value :: "string \<Rightarrow> nat" where
  "digits_value s = foldl (\<lambda>a c. 10 * a + (of_char c - 48)) 0 s"

definition parse_unsigned :: "nat \<Rightarrow> string \<Rightarrow> nat option" where
  "parse_unsigned hi s =
     (let ds = (case s of [] \<Rightarrow> [] | c # cs \<Rightarrow> if c = CHR ''+'' then cs else s)
      in if ds \<noteq> [] \<and> list_all is_digit ds \<and> digits_value ds \<le> hi then Some (digits_value ds) else None)"

definition strip_prefix :: "string \<Rightarrow> string \<Rightarrow> string option" where
  "strip_prefix p s = (if take (length p) s = p then Some (drop (length p) s) else None)"

text \<open>\<open>str::parse::<i64>\<close>: an optional sign, at least one digit, and a value of the type.\<close>

definition parse_i64 :: "string \<Rightarrow> i64 option" where
  "parse_i64 s =
     (let (neg, ds) = (case s of [] \<Rightarrow> (False, [])
                       | c # cs \<Rightarrow> if c = CHR ''-'' then (True, cs)
                                  else if c = CHR ''+'' then (False, cs) else (False, s));
          v = (if neg then - int (digits_value ds) else int (digits_value ds))
      in if ds \<noteq> [] \<and> list_all is_digit ds \<and> in_i64 v then Some v else None)"

lemma show_nat_digits: "list_all is_digit (show_nat n) \<and> show_nat n \<noteq> [] \<and> digits_value (show_nat n) = n"
proof (induction n rule: less_induct)
  case (less n)
  have d: "is_digit (char_of (48 + k)) \<and> of_char (char_of (48 + k) :: char) - 48 = k" if "k < 10" for k :: nat
    using that by (simp add: is_digit_def)
  show ?case
  proof (cases "n < 10")
    case True
    then show ?thesis using d [of n] by (subst (1 2 3) show_nat.simps) (simp add: digits_value_def)
  next
    case False
    then show ?thesis using d [of "n mod 10"] less.IH [of "n div 10"]
      by (subst (1 2 3) show_nat.simps) (simp add: digits_value_def)
  qed
qed

lemma digit_not_special:
  "is_digit c \<Longrightarrow> \<not> is_ascii_space c \<and> c \<noteq> CHR ''+'' \<and> c \<noteq> CHR '':'' \<and> c \<noteq> CHR '';''"
  by (auto simp: is_digit_def is_ascii_space_def Let_def)

lemma parse_show_nat: "n \<le> hi \<Longrightarrow> parse_unsigned hi (show_nat n) = Some n"
  using show_nat_digits [of n] digit_not_special
  by (cases "show_nat n") (auto simp: parse_unsigned_def)

lemma trim_inner:
  assumes "s \<noteq> []" "\<not> is_ascii_space (hd s)" "\<not> is_ascii_space (last s)" "list_all is_ascii_space ws"
  shows "trim (ws @ s) = s"
proof -
  have "dropWhile is_ascii_space (ws @ s) = dropWhile is_ascii_space s"
    using assms(4) by (simp add: list_all_iff dropWhile_append2)
  also have "\<dots> = s" using assms by (cases s) auto
  finally have "trim (ws @ s) = rev (dropWhile is_ascii_space (rev s))" by (simp add: trim_def)
  moreover have "dropWhile is_ascii_space (rev s) = rev s"
    using assms by (cases "rev s") (auto simp: last_rev [symmetric] hd_rev)
  ultimately show ?thesis by simp
qed

lemma rsplit_once_at:
  assumes "c \<notin> set v"
  shows "rsplit_once c (n @ c # v) = Some (n, v)"
proof -
  have "takeWhile (\<lambda>x. x \<noteq> c) (rev v @ c # rev n) = rev v"
    and "dropWhile (\<lambda>x. x \<noteq> c) (rev v @ c # rev n) = c # rev n"
    using assms by (auto simp: takeWhile_append dropWhile_append)
  then show ?thesis by (simp add: rsplit_once_def)
qed

lemma split_char_nonempty [simp]: "split_char c s \<noteq> []"
  by (cases s) (auto split: list.splits)

lemma split_char_append: "c \<notin> set p \<Longrightarrow> split_char c (p @ c # s) = p # split_char c s"
  by (induction p) auto

lemma split_char_none: "c \<notin> set p \<Longrightarrow> split_char c p = [p]"
  by (induction p) auto

lemma split_join:
  assumes "\<forall>e \<in> set es. c \<notin> set e" "es \<noteq> []" "c \<notin> set ws" "c \<notin> set w"
  shows "split_char c (w @ join_strings (c # ws) es) = (w @ hd es) # map ((@) ws) (tl es)"
  using assms
proof (induction "c # ws" es arbitrary: w rule: join_strings.induct)
  case (2 s)
  then show ?case by (simp add: split_char_none)
next
  case (3 s t ss)
  have "split_char c ((w @ s) @ c # (ws @ join_strings (c # ws) (t # ss)))
      = (w @ s) # split_char c (ws @ join_strings (c # ws) (t # ss))"
    using "3.prems" by (intro split_char_append) auto
  also have "\<dots> = (w @ s) # (ws @ t) # map ((@) ws) ss"
    using "3.hyps" [of ws] "3.prems" by simp
  finally show ?case by simp
qed simp

lemma strip_prefix_append [simp]: "strip_prefix p (p @ s) = Some s"
  by (simp add: strip_prefix_def)

lemma strip_prefix_iff: "strip_prefix p s = Some r \<longleftrightarrow> s = p @ r"
  by (auto simp: strip_prefix_def) (metis append_take_drop_id)

lemma minus_not_digit [simp]: "\<not> is_digit (CHR ''-'')" "\<not> is_digit (CHR ''+'')"
  by (simp_all add: is_digit_def)

lemma parse_i64_show_nat: "int n \<le> i64_max \<Longrightarrow> parse_i64 (show_nat n) = Some (int n)"
  using show_nat_digits [of n] digit_not_special
  by (cases "show_nat n") (auto simp: parse_i64_def in_i64_def i64_min_def)

lemma parse_i64_show_nat_large: "i64_max < int n \<Longrightarrow> parse_i64 (show_nat n) = None"
  using show_nat_digits [of n] digit_not_special
  by (cases "show_nat n") (auto simp: parse_i64_def in_i64_def)

end
