(* ===== verification/Planner_Split.thy ===== *)
theory Planner_Split
  imports Core_Token Rust_Strings
begin

text \<open>
  Partitioner detection and the default bounds
  (\<open>crates/cdm-engine/src/planner/partitioner.rs\<close>), and the ring splitter
  (\<open>crates/cdm-engine/src/planner/split.rs\<close>): a transcription of the Java algorithm in checked
  \<open>i128\<close> arithmetic. The \<open>while cur_max <= max\<close> loop is \<open>split_ring_loop\<close>; its termination is by
  the distance left to \<open>max\<close>. At full coverage the splitter is shown to satisfy the contract
  \<open>range_splitter\<close>; at partial coverage each range is the leading share of a tile.
\<close>

subsection \<open>Partitioners\<close>

datatype partitioner = Murmur3 | Random | ByteOrdered

definition partitioners_all :: "partitioner list" where
  "partitioners_all = [Murmur3, Random, ByteOrdered]"

fun class_name :: "partitioner \<Rightarrow> string" where
  "class_name Murmur3 = ''org.apache.cassandra.dht.Murmur3Partitioner''"
| "class_name Random = ''org.apache.cassandra.dht.RandomPartitioner''"
| "class_name ByteOrdered = ''org.apache.cassandra.dht.ByteOrderedPartitioner''"

fun short_name :: "partitioner \<Rightarrow> string" where
  "short_name Murmur3 = ''Murmur3Partitioner''"
| "short_name Random = ''RandomPartitioner''"
| "short_name ByteOrdered = ''ByteOrderedPartitioner''"

text \<open>
  The last \<open>.\<close>-separated component, and \<open>trim_end_matches\<close>, which removes a suffix as often as it
  occurs.
\<close>

definition rsplit_last :: "char \<Rightarrow> string \<Rightarrow> string" where
  "rsplit_last c s = rev (takeWhile (\<lambda>d. d \<noteq> c) (rev s))"

function trim_end_matches :: "string \<Rightarrow> string \<Rightarrow> string" where
  "trim_end_matches p s =
     (if p \<noteq> [] \<and> length p \<le> length s \<and> drop (length s - length p) s = p
      then trim_end_matches p (take (length s - length p) s) else s)"
  by pat_completeness auto
termination
  by (relation "measure (\<lambda>(p, s). length s)") (auto simp flip: length_greater_0_conv)

declare trim_end_matches.simps [simp del]

definition detect :: "string \<Rightarrow> partitioner result" where
  "detect reported =
     (let trimmed = trim reported;
          folded = to_ascii_lowercase (rsplit_last (CHR ''.'') trimmed);
          bare = trim_end_matches ''partitioner'' folded
      in ok_or (List.find
           (\<lambda>candidate. bare = trim_end_matches ''partitioner'' (to_ascii_lowercase (short_name candidate)))
           partitioners_all)
         (new_error Config (''unsupported origin partitioner `'' @ trimmed @ ''`; cdm-rs supports ''
            @ join_strings '', '' (map class_name partitioners_all)
            @ ''. Set `filter.token.min` and `filter.token.max` explicitly only if you are certain ''
            @ ''the ring is numeric.'')))"

definition full_ring :: "partitioner \<Rightarrow> token_range option" where
  "full_ring p = (case p of
      Murmur3 \<Rightarrow> Some MURMUR3_FULL
    | Random \<Rightarrow> Some RANDOM_FULL
    | ByteOrdered \<Rightarrow> None)"

definition bounds_error :: "string \<Rightarrow> cdm_error" where
  "bounds_error message = with_context (with_config_key ''filter.token'') (new_error Config message)"

definition resolve_bounds :: "partitioner \<Rightarrow> i128 option \<Rightarrow> i128 option \<Rightarrow> token_range result" where
  "resolve_bounds p mn mx =
     (case full_ring p of
        None \<Rightarrow>
          (case (mn, mx) of
             (Some a, Some b) \<Rightarrow> map_err (\<lambda>e. bounds_error (error_message e)) (new_range a b)
           | _ \<Rightarrow> Inl (new_error Config
               (short_name p @ '' has no numeric token ring, so `filter.token.min` and ''
                @ ''`filter.token.max` must both be set to plan a run'')))
      | Some ring \<Rightarrow>
          (let a = (case mn of Some v \<Rightarrow> v | None \<Rightarrow> tr_min ring);
               b = (case mx of Some v \<Rightarrow> v | None \<Rightarrow> tr_max ring)
           in if \<not> contains ring a \<or> \<not> contains ring b
              then Inl (bounds_error (''token bounds ['' @ show_int a @ '', '' @ show_int b
                     @ ''] fall outside the '' @ short_name p @ '' ring '' @ show_range ring))
              else map_err (\<lambda>e. bounds_error (error_message e)) (new_range a b)))"

subsection \<open>The ring splitter\<close>

definition FALLBACK_PARTITION_SIZE :: i128 where
  "FALLBACK_PARTITION_SIZE = 100000"

definition MAX_PLANNED_RANGES :: u64 where
  "MAX_PLANNED_RANGES = 50000000"

definition effective_coverage :: "u8 \<Rightarrow> u8" where
  "effective_coverage configured = (if 1 \<le> configured \<and> configured \<le> 100 then configured else 100)"

definition scale_by_percent :: "i128 \<Rightarrow> u8 \<Rightarrow> i128" where
  "scale_by_percent width percent =
     (let p = int percent;
          quotient = width sdiv 100;
          remainder = width smod 100
      in quotient * p + (remainder * p) sdiv 100)"

text \<open>
  The \<open>while\<close> loop: \<open>cur\<close> is the loop variable \<open>cur_max\<close> on entry of an iteration (the range's
  \<open>cur_min\<close>), \<open>new_max\<close> the clamped upper end and \<open>exhausted\<close> the flag. A range that
  \<open>TokenRange::new\<close> refuses ends the split with its error. The partition size is a quotient of two
  non-negative numbers, or the fallback; the guard \<open>0 \<le> ps\<close> records that, and the loop ends because
  each iteration moves \<open>cur\<close> up by at least one.
\<close>

function split_ring_loop :: "i128 \<Rightarrow> i128 \<Rightarrow> u8 \<Rightarrow> i128 \<Rightarrow> token_range list result" where
  "split_ring_loop mx ps coverage cur =
     (if cur \<le> mx \<and> 0 \<le> ps then
        let candidate = (case checked_add_i128 cur ps of Some c \<Rightarrow> c | None \<Rightarrow> mx);
            overflowed = (checked_add_i128 cur ps = None);
            new_max = (if candidate > mx then mx else candidate);
            exhausted = (overflowed \<or> candidate > mx);
            covered = scale_by_percent (new_max - cur) coverage
        in bindR (new_range cur (cur + covered)) (\<lambda>r.
             if exhausted then Inr [r]
             else case checked_add_i128 new_max 1 of
                    None \<Rightarrow> Inr [r]
                  | Some nxt \<Rightarrow> bindR (split_ring_loop mx ps coverage nxt) (\<lambda>rs. Inr (r # rs)))
      else Inr [])"
  by pat_completeness auto
termination
  by (relation "measure (\<lambda>(mx, ps, coverage, cur). nat (mx + 1 - cur))")
    (auto simp: checked_add_i128_def split: if_splits)

declare split_ring_loop.simps [simp del]

definition num_parts_error :: "string \<Rightarrow> cdm_error" where
  "num_parts_error message = with_context (with_config_key ''perfops.num_parts'') (new_error Config message)"

definition split_ring :: "token_range \<Rightarrow> u64 \<Rightarrow> u8 \<Rightarrow> token_range list result" where
  "split_ring bounds num_parts coverage_percent =
     (if num_parts = 0
      then Inl (num_parts_error
             ''perfops.num_parts must be at least 1; the ring cannot be split into zero parts'')
      else if num_parts > MAX_PLANNED_RANGES
      then Inl (num_parts_error (''perfops.num_parts is '' @ show_nat num_parts @ '', above the ''
             @ show_nat MAX_PLANNED_RANGES @ '' range ceiling; ''
             @ ''a plan is held in memory for the whole run (NFR-003). Raise ''
             @ ''perfops.batch_size or split the table across runs instead.''))
      else let coverage = effective_coverage coverage_percent;
               mn = tr_min bounds;
               mx = tr_max bounds
           in bindR (ok_or (checked_sub_i128 mx mn)
                 (new_error Internal (''token range '' @ show_range bounds
                    @ '' is wider than the i128 token space''))) (\<lambda>span.
              let q = span sdiv int num_parts;
                  partition_size = (if q = 0 then FALLBACK_PARTITION_SIZE else q)
              in split_ring_loop mx partition_size coverage mn))"

subsection \<open>Coverage of one range\<close>

lemma effective_coverage_range: "1 \<le> effective_coverage c \<and> effective_coverage c \<le> 100"
  by (simp add: effective_coverage_def)

lemma scale_by_percent_eq:
  assumes "0 \<le> w"
  shows "scale_by_percent w p = w * int p div 100"
proof -
  define q r where "q = w div 100" and "r = w mod 100"
  have "w * int p = r * int p + q * int p * 100"
    by (simp add: q_def r_def flip: distrib_right) (simp add: algebra_simps flip: distrib_left)
  then have "w * int p div 100 = q * int p + r * int p div 100" by simp
  then show ?thesis using assms by (simp add: scale_by_percent_def Let_def q_def r_def)
qed

lemma scale_by_percent_bounds:
  assumes "0 \<le> w" "p \<le> 100"
  shows "0 \<le> scale_by_percent w p" and "scale_by_percent w p \<le> w"
proof -
  show "0 \<le> scale_by_percent w p"
    using assms by (simp add: scale_by_percent_eq pos_imp_zdiv_nonneg_iff)
  have "w * int p \<le> w * 100" using assms by (intro mult_left_mono) auto
  then show "scale_by_percent w p \<le> w" using assms by (simp add: scale_by_percent_eq)
qed

lemma scale_by_percent_full [simp]: "0 \<le> w \<Longrightarrow> scale_by_percent w 100 = w"
  by (simp add: scale_by_percent_eq)

text \<open>No intermediate result of \<open>scale_by_percent\<close> leaves the \<open>i128\<close> range.\<close>

lemma scale_by_percent_no_overflow:
  assumes "0 \<le> w" "w \<le> i128_max" "p \<le> 100"
  shows "in_i128 (w div 100 * int p)" and "in_i128 (w mod 100 * int p)"
    and "in_i128 (scale_by_percent w p)"
proof -
  have "w div 100 * int p \<le> w div 100 * 100" using assms by (intro mult_left_mono) auto
  also have "\<dots> \<le> w" by simp
  finally show "in_i128 (w div 100 * int p)"
    using assms by (auto simp: in_i128_def i128_min_def intro: order_trans [of _ 0])
  have "w mod 100 * int p \<le> 99 * 100"
    using assms pos_mod_bound [of 100 w] by (intro mult_mono) auto
  then show "in_i128 (w mod 100 * int p)"
    by (auto simp: in_i128_def width_defs intro: order_trans [of _ 0])
  show "in_i128 (scale_by_percent w p)"
    using scale_by_percent_bounds [OF assms(1,3)] assms(2) by (auto simp: in_i128_def i128_min_def)
qed

subsection \<open>The loop\<close>

definition shrink :: "u8 \<Rightarrow> token_range \<Rightarrow> token_range" where
  "shrink p r = TokenRange (tr_min r) (tr_min r + scale_by_percent (tr_max r - tr_min r) p)"

lemma shrink_full: "tr_min r \<le> tr_max r \<Longrightarrow> shrink 100 r = r"
  by (simp add: shrink_def)

lemma shrink_within:
  assumes "tr_min r \<le> tr_max r" "p \<le> 100"
  shows "tr_min (shrink p r) = tr_min r" "tr_min r \<le> tr_max (shrink p r)"
    "tr_max (shrink p r) \<le> tr_max r"
  using scale_by_percent_bounds [of "tr_max r - tr_min r" p] assms by (simp_all add: shrink_def)

text \<open>
  The splitter is the tiling of the segment by steps of \<open>ps + 1\<close> tokens, each tile shrunk to its
  leading share. The last conjunct counts the tiles.
\<close>

lemma split_ring_loop_tiles:
  assumes "in_i128 cur" "in_i128 mx" "cur \<le> mx" "0 \<le> ps"
  shows "\<exists>ts. tiles cur mx ts \<and> (\<forall>p \<le> 100. split_ring_loop mx ps p cur = Inr (map (shrink p) ts))
           \<and> int (length ts) * (ps + 1) \<le> (mx - cur) + (ps + 1)"
  using assms
proof (induction "nat (mx + 1 - cur)" arbitrary: cur rule: less_induct)
  case less
  show ?case
  proof (cases "cur + ps < mx")
    case True
    then have a: "in_i128 (cur + ps)" "in_i128 (cur + ps + 1)" using less.prems by (auto simp: in_i128_def)
    let ?r = "TokenRange cur (cur + ps)"
    have "nat (mx + 1 - (cur + ps + 1)) < nat (mx + 1 - cur)" using less.prems True by simp
    from less.hyps [OF this] a less.prems True obtain ts where ts: "tiles (cur + ps + 1) mx ts"
      "\<forall>p \<le> 100. split_ring_loop mx ps p (cur + ps + 1) = Inr (map (shrink p) ts)"
      "int (length ts) * (ps + 1) \<le> (mx - (cur + ps + 1)) + (ps + 1)" by auto
    have "split_ring_loop mx ps p cur = Inr (map (shrink p) (?r # ts))" if "p \<le> 100" for p
      using less.prems True a ts(2) that scale_by_percent_bounds [of ps p]
      by (subst split_ring_loop.simps) (simp add: checked_add_i128_def Let_def shrink_def)
    moreover have "tiles cur mx (?r # ts)" using ts(1) less.prems True by simp
    moreover have "int (length (?r # ts)) * (ps + 1) \<le> (mx - cur) + (ps + 1)"
      using ts(3) by (simp add: algebra_simps)
    ultimately show ?thesis by blast
  next
    case False
    let ?r = "TokenRange cur mx"
    have nm: "split_ring_loop mx ps p (mx + 1) = Inr []" for p by (subst split_ring_loop.simps) simp
    have "split_ring_loop mx ps p cur = Inr (map (shrink p) [?r])" if "p \<le> 100" for p
      using less.prems False nm that scale_by_percent_bounds [of "mx - cur" p]
      by (subst split_ring_loop.simps) (auto simp: checked_add_i128_def Let_def shrink_def)
    moreover have "tiles cur mx [?r]" using less.prems by simp
    moreover have "int (length [?r]) * (ps + 1) \<le> (mx - cur) + (ps + 1)" using less.prems by simp
    ultimately show ?thesis by blast
  qed
qed

definition splittable :: "token_range \<Rightarrow> bool" where
  "splittable b \<longleftrightarrow> wf_range b \<and> tr_max b - tr_min b \<le> i128_max"

lemma split_ring_tiles:
  assumes "splittable b" "0 < n" "n \<le> MAX_PLANNED_RANGES"
  shows "\<exists>ts. tiles (tr_min b) (tr_max b) ts
           \<and> (\<forall>c. split_ring b n c = Inr (map (shrink (effective_coverage c)) ts)) \<and> length ts \<le> n"
proof -
  let ?s = "tr_max b - tr_min b"
  let ?q = "?s div int n"
  let ?ps = "if ?q = 0 then FALLBACK_PARTITION_SIZE else ?q"
  have w: "in_i128 (tr_min b)" "in_i128 (tr_max b)" "tr_min b \<le> tr_max b" "?s \<le> i128_max"
    using assms(1) by (auto simp: splittable_def wf_range_def)
  have q: "0 \<le> ?q" using w(3) by (simp add: div_int_pos_iff)
  have ps: "0 \<le> ?ps" using q by (simp add: FALLBACK_PARTITION_SIZE_def)
  obtain ts where ts: "tiles (tr_min b) (tr_max b) ts"
    "\<forall>p \<le> 100. split_ring_loop (tr_max b) ?ps p (tr_min b) = Inr (map (shrink p) ts)"
    "int (length ts) * (?ps + 1) \<le> ?s + (?ps + 1)"
    using split_ring_loop_tiles [OF w(1,2,3) ps] by blast
  have sub: "checked_sub_i128 (tr_max b) (tr_min b) = Some ?s"
    using w by (simp add: checked_sub_i128_def in_i128_def i128_min_def)
  have "split_ring b n c = Inr (map (shrink (effective_coverage c)) ts)" for c
    using assms(2,3) sub ts(2) w(3) effective_coverage_range [of c] by (auto simp: split_ring_def Let_def)
  moreover have "length ts \<le> n"
  proof (rule ccontr)
    assume "\<not> length ts \<le> n"
    then have "(int n + 1) * (?ps + 1) \<le> int (length ts) * (?ps + 1)"
      using ps by (intro mult_right_mono) auto
    with ts(3) have le: "int n * (?ps + 1) \<le> ?s" by (simp add: algebra_simps)
    have "?s < int n * ?q + int n" using assms(2) by (intro less_div_step) simp
    with le show False
      by (cases "?q = 0") (simp_all add: FALLBACK_PARTITION_SIZE_def algebra_simps)
  qed
  ultimately show ?thesis using ts(1) by blast
qed

lemma split_ring_full:
  assumes "splittable b" "0 < n" "n \<le> MAX_PLANNED_RANGES" "effective_coverage c = 100"
  shows "\<exists>rs. split_ring b n c = Inr rs \<and> tiles (tr_min b) (tr_max b) rs \<and> length rs \<le> n"
proof -
  obtain ts where ts: "tiles (tr_min b) (tr_max b) ts"
      "split_ring b n c = Inr (map (shrink (effective_coverage c)) ts)" "length ts \<le> n"
    using split_ring_tiles [OF assms(1-3)] by blast
  have "map (shrink 100) ts = ts"
    using tiles_member [OF ts(1)] by (intro map_idI) (simp add: shrink_full)
  with ts assms(4) show ?thesis by auto
qed

interpretation ring_split: range_splitter "\<lambda>r n. split_ring r n 100"
  "\<lambda>r n. splittable r \<and> 0 < n \<and> n \<le> MAX_PLANNED_RANGES"
proof
  fix r rs s and n :: nat
  assume ok: "splittable r \<and> 0 < n \<and> n \<le> MAX_PLANNED_RANGES"
  then obtain ps where ps: "split_ring r n 100 = Inr ps" "tiles (tr_min r) (tr_max r) ps"
    using split_ring_full [of r n 100] by (auto simp: effective_coverage_def)
  then show "\<exists>rs. split_ring r n 100 = Inr rs" by blast
  assume "split_ring r n 100 = Inr rs"
  with ps have t: "tiles (tr_min r) (tr_max r) rs" by simp
  then show "covers_once r rs" by (rule tiles_covers_once)
  assume "s \<in> set rs"
  with t ok show "wf_range s" by (auto simp: splittable_def intro: tiles_wf)
qed

subsection \<open>Reading a partitioner name\<close>

lemma is_ascii_space_lower [simp]: "is_ascii_space (ascii_lower_char c) = is_ascii_space c"
proof (cases c)
  case (Char b0 b1 b2 b3 b4 b5 b6 b7)
  then show ?thesis
    by (cases b0; cases b1; cases b2; cases b3; cases b4; cases b5; cases b6; cases b7;
        simp add: is_ascii_space_def)
qed

lemma ascii_lower_char_dot [simp]: "ascii_lower_char c = CHR ''.'' \<longleftrightarrow> c = CHR ''.''"
  by (cases c) auto

lemma trim_padded:
  assumes "list_all is_ascii_space l" "list_all is_ascii_space r"
    and "s \<noteq> []" "\<not> is_ascii_space (hd s)" "\<not> is_ascii_space (last s)"
  shows "trim (l @ s @ r) = s"
proof -
  have "dropWhile is_ascii_space (l @ s @ r) = s @ r"
    using assms by (cases s) (auto simp: list_all_iff dropWhile_append)
  moreover have "dropWhile is_ascii_space (rev (s @ r)) = rev s"
    using assms by (cases s rule: rev_cases) (auto simp: list_all_iff dropWhile_append)
  ultimately show ?thesis by (simp add: trim_def)
qed

lemma rsplit_last_lower:
  "to_ascii_lowercase (rsplit_last (CHR ''.'') s) = rsplit_last (CHR ''.'') (to_ascii_lowercase s)"
  by (simp add: rsplit_last_def to_ascii_lowercase_def rev_map takeWhile_map comp_def)

lemma short_names_bare:
  "trim_end_matches ''partitioner'' (to_ascii_lowercase (short_name Murmur3)) = ''murmur3''"
  "trim_end_matches ''partitioner'' (to_ascii_lowercase (short_name Random)) = ''random''"
  "trim_end_matches ''partitioner'' (to_ascii_lowercase (short_name ByteOrdered)) = ''byteordered''"
  by (simp_all add: trim_end_matches.simps)

lemma names_last_component:
  "rsplit_last (CHR ''.'') (to_ascii_lowercase (class_name p)) = to_ascii_lowercase (short_name p)"
  "rsplit_last (CHR ''.'') (to_ascii_lowercase (short_name p)) = to_ascii_lowercase (short_name p)"
  by (cases p; simp add: rsplit_last_def)+

lemma lower_edges:
  assumes "to_ascii_lowercase s = to_ascii_lowercase t" "t \<noteq> []"
  shows "s \<noteq> []" "is_ascii_space (hd s) = is_ascii_space (hd t)"
    "is_ascii_space (last s) = is_ascii_space (last t)"
proof -
  show s: "s \<noteq> []" using assms by (cases s) (auto simp: to_ascii_lowercase_def)
  have "ascii_lower_char (hd s) = ascii_lower_char (hd t)"
    "ascii_lower_char (last s) = ascii_lower_char (last t)"
    using assms s by (metis to_ascii_lowercase_def hd_map, metis to_ascii_lowercase_def last_map)
  then show "is_ascii_space (hd s) = is_ascii_space (hd t)"
    "is_ascii_space (last s) = is_ascii_space (last t)"
    by (metis is_ascii_space_lower)+
qed

lemma name_edges:
  "class_name p \<noteq> []" "\<not> is_ascii_space (hd (class_name p))" "\<not> is_ascii_space (last (class_name p))"
  "short_name p \<noteq> []" "\<not> is_ascii_space (hd (short_name p))" "\<not> is_ascii_space (last (short_name p))"
  by (cases p; simp add: is_ascii_space_def)+

subsection \<open>Properties\<close>

text \<open>
  At full coverage (a percentage of 100, or one outside \<open>1..100\<close>, which means 100) the
  ring splitter succeeds for every part count up to the ceiling; its ranges are in ring order, at
  most \<open>num_parts\<close> of them and at least one, and they hold every token of the segment exactly once
  and no token outside it.
\<close>

theorem split_ring_covers:
  assumes "splittable b" and "0 < n" and "n \<le> MAX_PLANNED_RANGES" and "effective_coverage c = 100"
  shows "\<exists>rs. split_ring b n c = Inr rs \<and> rs \<noteq> [] \<and> length rs \<le> n \<and> sorted rs
            \<and> covers_once b rs \<and> (\<forall>r \<in> set rs. wf_range r)"
proof -
  obtain rs where rs: "split_ring b n c = Inr rs" "tiles (tr_min b) (tr_max b) rs" "length rs \<le> n"
    using split_ring_full [OF assms] by blast
  moreover have "rs \<noteq> []"
    using rs(2) assms(1) by (auto simp: splittable_def wf_range_def)
  moreover have "\<forall>r \<in> set rs. wf_range r"
    using tiles_wf [OF rs(2)] assms(1) by (simp add: splittable_def)
  ultimately show ?thesis using tiles_sorted tiles_covers_once by blast
qed

theorem split_ring_covers_witness:
  "\<exists>rs. split_ring MURMUR3_FULL 5000 100 = Inr rs \<and> length rs \<le> 5000 \<and> covers_once MURMUR3_FULL rs"
proof -
  have "splittable MURMUR3_FULL"
    by (simp add: splittable_def MURMUR3_FULL_def wf_range_def in_i128_def width_defs)
  then show ?thesis
    using split_ring_covers [of MURMUR3_FULL 5000 100]
    by (auto simp: MAX_PLANNED_RANGES_def effective_coverage_def)
qed

text \<open>
  At any coverage percentage the emitted ranges are the leading shares of a tiling of the
  segment: each starts where its tile starts and spans exactly \<open>floor(width * percent / 100)\<close>, the
  number the \<open>i128\<close> code computes without forming the product. No token is read twice, none outside
  the segment, and the number of ranges does not depend on the percentage.
\<close>

theorem split_ring_partial:
  assumes "splittable b" and "0 < n" and "n \<le> MAX_PLANNED_RANGES"
  shows "\<exists>ts rs. split_ring b n 100 = Inr ts \<and> split_ring b n c = Inr rs
      \<and> list_all2 (\<lambda>t r. tr_min r = tr_min t
           \<and> tr_max r - tr_min r = (tr_max t - tr_min t) * int (effective_coverage c) div 100) ts rs
      \<and> (\<forall>t. hits t rs \<le> of_bool (contains b t))"
proof -
  let ?p = "effective_coverage c"
  obtain ts where ts: "tiles (tr_min b) (tr_max b) ts"
      "\<And>c. split_ring b n c = Inr (map (shrink (effective_coverage c)) ts)"
    using split_ring_tiles [OF assms] by blast
  have inv: "tr_min t \<le> tr_max t" if "t \<in> set ts" for t using tiles_member [OF ts(1) that] by simp
  have "map (shrink 100) ts = ts" using inv by (intro map_idI) (simp add: shrink_full)
  then have full: "split_ring b n 100 = Inr ts" using ts(2) [of 100] by (simp add: effective_coverage_def)
  have "list_all2 (\<lambda>t r. tr_min r = tr_min t
           \<and> tr_max r - tr_min r = (tr_max t - tr_min t) * int ?p div 100) ts (map (shrink ?p) ts)"
    using inv by (simp add: list_all2_conv_all_nth shrink_def scale_by_percent_eq)
  moreover have "hits t (map (shrink ?p) ts) \<le> hits t ts" for t
    using inv
  proof (induction ts)
    case (Cons r rs)
    then have "of_bool (contains (shrink ?p r) t) \<le> (of_bool (contains r t) :: nat)"
      using shrink_within [of r ?p] effective_coverage_range [of c] by (auto simp: contains_def)
    with Cons show ?case by (simp add: add_mono)
  qed simp
  then have "hits t (map (shrink ?p) ts) \<le> of_bool (contains b t)" for t
    using tiles_covers_once [OF ts(1)] by (simp add: covers_once_def)
  ultimately show ?thesis using full ts(2) [of c] by blast
qed

theorem split_ring_partial_witness:
  "\<exists>ts rs. split_ring (TokenRange 1 100) 10 100 = Inr ts \<and> split_ring (TokenRange 1 100) 10 25 = Inr rs
      \<and> length ts = length rs \<and> (\<forall>t. hits t rs \<le> of_bool (contains (TokenRange 1 100) t))"
proof -
  have "splittable (TokenRange 1 100)"
    by (simp add: splittable_def wf_range_def in_i128_def width_defs)
  moreover have "0 < (10 :: nat)" "10 \<le> MAX_PLANNED_RANGES" by (simp_all add: MAX_PLANNED_RANGES_def)
  ultimately show ?thesis
    using split_ring_partial [of "TokenRange 1 100" 10 25] by (blast dest: list_all2_lengthD)
qed

text \<open>
  The splitter fails exactly when the part count is zero or above the ceiling (a
  \<open>Config\<close> error that names \<open>perfops.num_parts\<close>) or the segment is wider than an \<open>i128\<close> can
  measure (an \<open>Internal\<close> error).
\<close>

theorem split_ring_errors:
  assumes "wf_range b"
  shows "((\<exists>e. split_ring b n c = Inl e \<and> error_kind_of e = Config
             \<and> ctx_config_key (error_context_of e) = Some ''perfops.num_parts'')
           \<longleftrightarrow> n = 0 \<or> n > MAX_PLANNED_RANGES)
       \<and> ((\<exists>e. split_ring b n c = Inl e \<and> error_kind_of e = Internal)
           \<longleftrightarrow> 0 < n \<and> n \<le> MAX_PLANNED_RANGES \<and> tr_max b - tr_min b > i128_max)
       \<and> ((\<exists>rs. split_ring b n c = Inr rs) \<longleftrightarrow> 0 < n \<and> n \<le> MAX_PLANNED_RANGES \<and> splittable b)"
proof -
  have split_ok: "\<exists>rs. split_ring b n c = Inr rs" if "0 < n" "n \<le> MAX_PLANNED_RANGES" "splittable b"
    using split_ring_tiles [OF that(3,1,2)] by blast
  have wide: "\<exists>e. split_ring b n c = Inl e \<and> error_kind_of e = Internal"
    if "0 < n" "n \<le> MAX_PLANNED_RANGES" "tr_max b - tr_min b > i128_max"
    using that by (simp add: split_ring_def Let_def checked_sub_i128_def in_i128_def)
  have count: "\<exists>e. split_ring b n c = Inl e \<and> error_kind_of e = Config
        \<and> ctx_config_key (error_context_of e) = Some ''perfops.num_parts''"
    if "n = 0 \<or> n > MAX_PLANNED_RANGES"
    using that by (auto simp: split_ring_def num_parts_error_def with_config_key_def)
  have trich: "splittable b \<or> tr_max b - tr_min b > i128_max" using assms by (auto simp: splittable_def)
  note cases = split_ok wide count trich
  have 1: "(\<exists>e. split_ring b n c = Inl e \<and> error_kind_of e = Config
             \<and> ctx_config_key (error_context_of e) = Some ''perfops.num_parts'')
           \<longleftrightarrow> n = 0 \<or> n > MAX_PLANNED_RANGES"
    using cases by (metis error_kind.distinct(25) linorder_not_less not_gr_zero sum.inject(1) sum.simps(4))
  have 2: "(\<exists>e. split_ring b n c = Inl e \<and> error_kind_of e = Internal)
           \<longleftrightarrow> 0 < n \<and> n \<le> MAX_PLANNED_RANGES \<and> tr_max b - tr_min b > i128_max"
    using cases by (metis error_kind.distinct(25) linorder_not_less not_gr_zero sum.inject(1) sum.simps(4))
  have 3: "(\<exists>rs. split_ring b n c = Inr rs) \<longleftrightarrow> 0 < n \<and> n \<le> MAX_PLANNED_RANGES \<and> splittable b"
    using cases by (metis linorder_not_less not_gr_zero sum.simps(4))
  from 1 2 3 show ?thesis by blast
qed

theorem split_ring_errors_witness:
  "(\<exists>e. split_ring (TokenRange 0 9) 0 100 = Inl e \<and> error_kind_of e = Config)
   \<and> (\<exists>e. split_ring (TokenRange i128_min i128_max) 1 100 = Inl e \<and> error_kind_of e = Internal)"
proof -
  have "wf_range (TokenRange 0 9)" "wf_range (TokenRange i128_min i128_max)"
    by (simp_all add: wf_range_def in_i128_def width_defs)
  from split_ring_errors [OF this(1), of 0 100] split_ring_errors [OF this(2), of 1 100]
  show ?thesis by (auto simp: MAX_PLANNED_RANGES_def width_defs)
qed

text \<open>
  The segment to plan honours the operator: with a numeric ring a supplied bound wins over
  the ring's own, the result lies inside the ring, is well formed and can be split; a bound outside
  the ring, an inverted pair, or a missing bound of a partitioner with no ring is refused.
\<close>

theorem resolve_bounds_iff:
  "resolve_bounds p mn mx = Inr b \<longleftrightarrow>
     (case full_ring p of
        Some ring \<Rightarrow> tr_min b = (case mn of None \<Rightarrow> tr_min ring | Some v \<Rightarrow> v)
           \<and> tr_max b = (case mx of None \<Rightarrow> tr_max ring | Some v \<Rightarrow> v)
           \<and> tr_min b \<le> tr_max b \<and> contains_range ring b \<and> splittable b
      | None \<Rightarrow> mn = Some (tr_min b) \<and> mx = Some (tr_max b) \<and> tr_min b \<le> tr_max b)"
proof (cases "full_ring p")
  case None
  then show ?thesis by (cases b; cases mn; cases mx) (auto simp: resolve_bounds_def)
next
  case (Some ring)
  have sp: "splittable b" if "contains_range ring b" "tr_min b \<le> tr_max b"
    using that Some
    by (cases p) (auto simp: full_ring_def splittable_def wf_range_def contains_range_def
        MURMUR3_FULL_def RANDOM_FULL_def in_i128_def width_defs)
  show ?thesis
    using Some sp
    by (cases b; cases mn; cases mx)
      (auto simp: resolve_bounds_def Let_def contains_def contains_range_def split: if_splits)
qed

text \<open>
  Every spelling an operator may paste is recognised: the fully qualified and the bare
  class name, in any letter case and surrounded by any white space.
\<close>

theorem detect_spellings:
  assumes "list_all is_ascii_space l" and "list_all is_ascii_space r"
    and "eq_ignore_ascii_case s (class_name p) \<or> eq_ignore_ascii_case s (short_name p)"
  shows "detect (l @ s @ r) = Inr p"
proof -
  have s: "s \<noteq> []" "\<not> is_ascii_space (hd s)" "\<not> is_ascii_space (last s)"
    using assms(3) lower_edges [of s "class_name p"] lower_edges [of s "short_name p"] name_edges [of p]
    by (auto simp: eq_ignore_ascii_case_def)
  have t: "trim (l @ s @ r) = s" using assms(1,2) s by (rule trim_padded)
  have f: "to_ascii_lowercase (rsplit_last (CHR ''.'') s) = to_ascii_lowercase (short_name p)"
    using assms(3) by (auto simp: rsplit_last_lower eq_ignore_ascii_case_def names_last_component)
  show ?thesis
    unfolding detect_def Let_def t f
    by (cases p) (simp_all only: partitioners_all_def short_names_bare List.find.simps, simp_all)
qed

theorem detect_spellings_witness: "detect '' org.apache.cassandra.dht.MURMUR3Partitioner'' = Inr Murmur3"
  using detect_spellings [of "'' ''" "[]" "''org.apache.cassandra.dht.MURMUR3Partitioner''" Murmur3]
  by (simp add: is_ascii_space_def eq_ignore_ascii_case_def)

end
