(* ===== verification/Core_Run.thy ===== *)
theory Core_Run
  imports Core_Model
begin

text \<open>
  Run identity and lifecycle: \<open>crates/cdm-core/src/domain/run.rs\<close>. The job kinds and statuses with
  their stable spellings and parsers, the \<open>RunId\<close> layout \<open>unix_micros << 12 | counter\<close>, and the
  lock-free \<open>RunIdGenerator\<close>: its compare-and-exchange loop is a step relation over the shared cell
  and any number of threads, so that the uniqueness and order of the issued ids are proved for every
  interleaving, spurious failures of the weak exchange included.
\<close>

unbundle bit_operations_syntax

subsection \<open>Job kinds and statuses\<close>

datatype job_kind = Migrate | Validate | Guardrail

definition job_kinds_all :: "job_kind list" where
  "job_kinds_all = [Migrate, Validate, Guardrail]"

fun job_as_str :: "job_kind \<Rightarrow> string" where
  "job_as_str Migrate = ''migrate''"
| "job_as_str Validate = ''validate''"
| "job_as_str Guardrail = ''guardrail''"

definition job_from_str :: "string \<Rightarrow> job_kind result" where
  "job_from_str s = ok_or (List.find (\<lambda>k. eq_ignore_ascii_case (job_as_str k) s) job_kinds_all)
     (with_context (with_config_key ''job'') (new_error Config (''unknown job type `'' @ s @ ''`'')))"

datatype run_status =
    NotStarted | Started | Pass | Fail | Diff | DiffCorrected | Ended | Interrupted | Aborted

definition run_statuses_all :: "run_status list" where
  "run_statuses_all =
     [NotStarted, Started, Pass, Fail, Diff, DiffCorrected, Ended, Interrupted, Aborted]"

fun status_as_str :: "run_status \<Rightarrow> string" where
  "status_as_str NotStarted = ''NOT_STARTED''"
| "status_as_str Started = ''STARTED''"
| "status_as_str Pass = ''PASS''"
| "status_as_str Fail = ''FAIL''"
| "status_as_str Diff = ''DIFF''"
| "status_as_str DiffCorrected = ''DIFF_CORRECTED''"
| "status_as_str Ended = ''ENDED''"
| "status_as_str Interrupted = ''INTERRUPTED''"
| "status_as_str Aborted = ''ABORTED''"

definition is_java_compatible :: "run_status \<Rightarrow> bool" where
  "is_java_compatible s \<longleftrightarrow> \<not> (s = Interrupted \<or> s = Aborted)"

definition is_pending :: "run_status \<Rightarrow> bool" where
  "is_pending s \<longleftrightarrow> s = NotStarted \<or> s = Started \<or> s = Fail \<or> s = Diff"

definition status_from_str :: "string \<Rightarrow> run_status result" where
  "status_from_str s =
     ok_or (List.find (\<lambda>k. eq_ignore_ascii_case (status_as_str k) s) run_statuses_all)
       (new_error Tracking (''unknown run status `'' @ s @ ''`''))"

subsection \<open>Run ids\<close>

definition RUN_ID_COUNTER_BITS :: nat where
  "RUN_ID_COUNTER_BITS = 12"

definition RUN_ID_COUNTER_MASK :: i64 where
  "RUN_ID_COUNTER_MASK = push_bit RUN_ID_COUNTER_BITS 1 - 1"

datatype run_id = RunId (as_i64: i64)

definition RUN_ID_UNSET :: run_id where
  "RUN_ID_UNSET = RunId 0"

definition run_id_is_unset :: "run_id \<Rightarrow> bool" where
  "run_id_is_unset r \<longleftrightarrow> as_i64 r = 0"

definition unix_micros :: "run_id \<Rightarrow> i64" where
  "unix_micros r = drop_bit RUN_ID_COUNTER_BITS (as_i64 r)"

definition counter :: "run_id \<Rightarrow> u16" where
  "counter r = nat (as_i64 r AND RUN_ID_COUNTER_MASK)"

text \<open>
  \<open>checked_shl\<close> guards the shift amount only, so the shifted value is wrapped to 64 bits; the
  \<open>filter\<close> rejects it when high bits were lost.
\<close>

definition from_parts :: "i64 \<Rightarrow> u16 \<Rightarrow> run_id result" where
  "from_parts micros c =
     (if micros < 0
      then Inl (new_error Tracking (''run id timestamp '' @ show_int micros @ '' is before the unix epoch''))
      else if int c > RUN_ID_COUNTER_MASK
      then Inl (new_error Tracking (''run id counter '' @ show_nat c @ '' exceeds the ''
                 @ show_nat RUN_ID_COUNTER_BITS @ ''-bit field''))
      else let shifted = wrap_i64 (push_bit RUN_ID_COUNTER_BITS micros)
           in if drop_bit RUN_ID_COUNTER_BITS shifted = micros \<and> shifted \<ge> 0
              then Inr (RunId (shifted OR int c))
              else Inl (new_error Tracking (''run id timestamp '' @ show_int micros
                         @ '' does not fit in 51 bits'')))"

text \<open>The candidate one iteration of \<open>RunIdGenerator::next\<close> computes from the value it loaded.\<close>

definition next_candidate :: "i64 \<Rightarrow> i64 \<Rightarrow> i64 result" where
  "next_candidate flr lst =
     (if flr > lst then Inr flr
      else ok_or (checked_add_i64 lst 1) (new_error Tracking ''run id space is exhausted''))"

text \<open>\<open>RunIdGenerator::next\<close> with no contention: the new cell contents and the issued id.\<close>

definition generator_next :: "i64 \<Rightarrow> i64 \<Rightarrow> (i64 \<times> run_id) result" where
  "generator_next lst micros =
     bindR (from_parts micros 0) (\<lambda>r.
     bindR (next_candidate (as_i64 r) lst) (\<lambda>candidate. Inr (candidate, RunId candidate)))"

text \<open>
  The same method under contention. Each thread is idle, about to load, about to exchange, or about
  to return; \<open>gen_issued\<close> is the history of successful exchanges, newest first.
\<close>

datatype gen_pc = GIdle | GLoad i64 | GCas i64 i64 i64 | GReturn "run_id result"

record generator =
  gen_last :: i64
  gen_pcs :: "nat \<Rightarrow> gen_pc"
  gen_issued :: "i64 list"

definition new_generator :: generator where
  "new_generator = \<lparr> gen_last = 0, gen_pcs = (\<lambda>_. GIdle), gen_issued = [] \<rparr>"

inductive gen_step :: "generator \<Rightarrow> generator \<Rightarrow> bool" where
  call: "gen_pcs g i = GIdle \<Longrightarrow> from_parts micros 0 = Inr r \<Longrightarrow>
     gen_step g (g\<lparr>gen_pcs := (gen_pcs g)(i := GLoad (as_i64 r))\<rparr>)"
| call_err: "gen_pcs g i = GIdle \<Longrightarrow> from_parts micros 0 = Inl e \<Longrightarrow>
     gen_step g (g\<lparr>gen_pcs := (gen_pcs g)(i := GReturn (Inl e))\<rparr>)"
| load: "gen_pcs g i = GLoad flr \<Longrightarrow> next_candidate flr (gen_last g) = Inr c \<Longrightarrow>
     gen_step g (g\<lparr>gen_pcs := (gen_pcs g)(i := GCas flr (gen_last g) c)\<rparr>)"
| load_err: "gen_pcs g i = GLoad flr \<Longrightarrow> next_candidate flr (gen_last g) = Inl e \<Longrightarrow>
     gen_step g (g\<lparr>gen_pcs := (gen_pcs g)(i := GReturn (Inl e))\<rparr>)"
| cas_ok: "gen_pcs g i = GCas flr lst c \<Longrightarrow> gen_last g = lst \<Longrightarrow>
     gen_step g (g\<lparr>gen_last := c, gen_pcs := (gen_pcs g)(i := GReturn (Inr (RunId c))),
                   gen_issued := c # gen_issued g\<rparr>)"
| cas_retry: "gen_pcs g i = GCas flr lst c \<Longrightarrow>
     gen_step g (g\<lparr>gen_pcs := (gen_pcs g)(i := GLoad flr)\<rparr>)"
| return: "gen_pcs g i = GReturn res \<Longrightarrow>
     gen_step g (g\<lparr>gen_pcs := (gen_pcs g)(i := GIdle)\<rparr>)"

inductive gen_reachable :: "generator \<Rightarrow> bool" where
  init: "gen_reachable new_generator"
| step: "gen_reachable g \<Longrightarrow> gen_step g g' \<Longrightarrow> gen_reachable g'"

subsection \<open>Parsing\<close>

lemma eq_ignore_case_to_lower:
  "eq_ignore_ascii_case a b \<longleftrightarrow> to_ascii_lowercase b = to_ascii_lowercase a"
  by (auto simp: eq_ignore_ascii_case_def)

lemma job_as_str_lower_inj:
  "to_ascii_lowercase (job_as_str a) = to_ascii_lowercase (job_as_str b) \<longleftrightarrow> a = b"
  by (cases a; cases b) simp_all

lemma status_as_str_lower_inj:
  "to_ascii_lowercase (status_as_str a) = to_ascii_lowercase (status_as_str b) \<longleftrightarrow> a = b"
  by (cases a; cases b) simp_all

text \<open>Searching a list for the one element with a given key finds it.\<close>

lemma find_unique: "x \<in> set xs \<Longrightarrow> (\<And>y. y \<in> set xs \<Longrightarrow> P y \<longleftrightarrow> y = x) \<Longrightarrow> List.find P xs = Some x"
  by (induction xs) auto

lemma run_statuses_all_complete: "s \<in> set run_statuses_all"
  by (cases s) (simp_all add: run_statuses_all_def)

lemma job_kinds_all_complete: "k \<in> set job_kinds_all"
  by (cases k) (simp_all add: job_kinds_all_def)

subsection \<open>The layout of a run id\<close>

lemma mask_value: "RUN_ID_COUNTER_MASK = 4095"
  by (simp add: RUN_ID_COUNTER_MASK_def RUN_ID_COUNTER_BITS_def push_bit_eq_mult)

lemma push_bit_or_low:
  "take_bit n c = (c :: int) \<Longrightarrow> push_bit n m OR c = push_bit n m + c"
proof -
  assume c: "take_bit n c = c"
  have "push_bit n m AND take_bit n c = 0" by (rule bit_eqI) (auto simp: bit_simps)
  with c show ?thesis by (simp add: disjunctive_add_eq_or)
qed

lemma push_bit_12: "push_bit 12 (m :: int) = m * 4096"
  by (simp add: push_bit_eq_mult)

lemma from_parts_Inr_iff:
  "from_parts micros c = Inr r \<longleftrightarrow>
     0 \<le> micros \<and> micros < 2 ^ 51 \<and> c < 4096 \<and> r = RunId (micros * 4096 + int c)"
proof (cases "0 \<le> micros \<and> c < 4096")
  case True
  then have or: "push_bit 12 micros OR int c = micros * 4096 + int c"
    by (subst push_bit_or_low) (simp_all add: push_bit_eq_mult take_bit_eq_mod)
  show ?thesis
  proof (cases "micros < 2 ^ 51")
    case small: True
    then have "in_i64 (push_bit 12 micros)" using True by (simp add: push_bit_12 width_simps)
    then show ?thesis
      using True small or
      by (auto simp: from_parts_def mask_value RUN_ID_COUNTER_BITS_def push_bit_12 drop_bit_eq_div)
  next
    case False
    have "\<not> (wrap_i64 (push_bit 12 micros) div 4096 = micros \<and> 0 \<le> wrap_i64 (push_bit 12 micros))"
    proof
      assume a: "wrap_i64 (push_bit 12 micros) div 4096 = micros \<and> 0 \<le> wrap_i64 (push_bit 12 micros)"
      have "wrap_i64 (push_bit 12 micros) < 2 ^ 63" by (simp add: wrap_i64_def)
      then have "wrap_i64 (push_bit 12 micros) div 4096 < 2 ^ 51" by simp
      with a False show False by simp
    qed
    then show ?thesis
      using False by (auto simp: from_parts_def RUN_ID_COUNTER_BITS_def drop_bit_eq_div Let_def)
  qed
next
  case False
  then show ?thesis by (auto simp: from_parts_def mask_value Let_def)
qed

lemma layout_roundtrip:
  assumes "from_parts micros c = Inr r"
  shows "unix_micros r = micros \<and> counter r = c"
proof -
  have r: "r = RunId (micros * 4096 + int c)" and c: "c < 4096"
    using assms by (simp_all add: from_parts_Inr_iff)
  have "(micros * 4096 + int c) AND 4095 = take_bit 12 (micros * 4096 + int c)"
    by (simp add: take_bit_eq_mask mask_numeral)
  then show ?thesis
    using c by (simp add: r unix_micros_def counter_def mask_value RUN_ID_COUNTER_BITS_def
        drop_bit_eq_div take_bit_eq_mod)
qed

subsection \<open>The generator\<close>

lemma next_candidate_Inr:
  "next_candidate flr lst = Inr c \<Longrightarrow> lst < c \<and> flr \<le> c"
  by (auto simp: next_candidate_def checked_add_i64_def ok_or_def split: if_splits)

definition gen_inv :: "generator \<Rightarrow> bool" where
  "gen_inv g \<longleftrightarrow> sorted_wrt (>) (gen_issued g)
     \<and> (\<forall>x \<in> set (gen_issued g). x \<le> gen_last g)
     \<and> (\<forall>i flr lst c. gen_pcs g i = GCas flr lst c \<longrightarrow> lst < c \<and> flr \<le> c)
     \<and> (\<forall>i r. gen_pcs g i = GReturn (Inr r) \<longrightarrow> as_i64 r \<in> set (gen_issued g))"

lemma gen_inv_init: "gen_inv new_generator"
  by (simp add: gen_inv_def new_generator_def)

lemma gen_step_inv: "gen_step g g' \<Longrightarrow> gen_inv g \<Longrightarrow> gen_inv g'"
proof (induction rule: gen_step.induct)
  case (cas_ok g i flr lst c)
  then have "lst < c" and "\<forall>x \<in> set (gen_issued g). x < c"
    unfolding gen_inv_def by (blast, fastforce)
  with cas_ok show ?case by (auto simp: gen_inv_def)
next
  case (load g i flr c)
  then show ?case by (auto simp: gen_inv_def dest: next_candidate_Inr)
qed (auto simp: gen_inv_def)

lemma gen_reachable_inv: "gen_reachable g \<Longrightarrow> gen_inv g"
  by (induction rule: gen_reachable.induct) (auto intro: gen_inv_init gen_step_inv)

text \<open>A call that runs without interference issues its candidate: the loop exits at its first exchange.\<close>

lemma gen_uncontended:
  assumes "gen_reachable g" "gen_pcs g i = GIdle" "from_parts micros 0 = Inr r"
    and "next_candidate (as_i64 r) (gen_last g) = Inr c"
  shows "\<exists>g'. gen_reachable g' \<and> gen_last g' = c \<and> gen_issued g' = c # gen_issued g
            \<and> gen_pcs g' = (gen_pcs g)(i := GReturn (Inr (RunId c)))"
proof -
  let ?g1 = "g\<lparr>gen_pcs := (gen_pcs g)(i := GLoad (as_i64 r))\<rparr>"
  let ?g2 = "?g1\<lparr>gen_pcs := (gen_pcs ?g1)(i := GCas (as_i64 r) (gen_last ?g1) c)\<rparr>"
  have 1: "gen_reachable ?g1" using assms by (blast intro: gen_reachable.step gen_step.call)
  have 2: "gen_reachable ?g2"
    by (rule gen_reachable.step [OF 1], rule gen_step.load) (use assms in auto)
  have "gen_step ?g2 (?g2\<lparr>gen_last := c, gen_pcs := (gen_pcs ?g2)(i := GReturn (Inr (RunId c))),
                          gen_issued := c # gen_issued ?g2\<rparr>)"
    by (rule gen_step.cas_ok [where flr = "as_i64 r" and lst = "gen_last g"]) simp_all
  with 2 have "gen_reachable (?g2\<lparr>gen_last := c, gen_pcs := (gen_pcs ?g2)(i := GReturn (Inr (RunId c))),
                          gen_issued := c # gen_issued ?g2\<rparr>)"
    by (rule gen_reachable.step)
  then show ?thesis by (intro exI conjI) (assumption, simp_all)
qed

subsection \<open>Properties\<close>

text \<open>
  Parsing a status accepts exactly its stable spelling in any letter case: \<open>from_str s\<close>
  is the status \<open>st\<close> if and only if \<open>s\<close> equals \<open>as_str st\<close> up to ASCII case. In particular every
  status written to the tracking tables is read back as itself.
\<close>

theorem status_parse_iff: "status_from_str s = Inr st \<longleftrightarrow> eq_ignore_ascii_case (status_as_str st) s"
proof
  assume "status_from_str s = Inr st"
  then have "List.find (\<lambda>k. eq_ignore_ascii_case (status_as_str k) s) run_statuses_all = Some st"
    by (cases "List.find (\<lambda>k. eq_ignore_ascii_case (status_as_str k) s) run_statuses_all")
      (simp_all add: status_from_str_def)
  from find_Some_member [OF this] show "eq_ignore_ascii_case (status_as_str st) s" by simp
next
  assume "eq_ignore_ascii_case (status_as_str st) s"
  then have "List.find (\<lambda>k. eq_ignore_ascii_case (status_as_str k) s) run_statuses_all = Some st"
    by (intro find_unique)
      (auto simp: run_statuses_all_complete eq_ignore_ascii_case_def
        dest: status_as_str_lower_inj [THEN iffD1, OF trans [OF _ sym]])
  then show "status_from_str s = Inr st" by (simp add: status_from_str_def)
qed

text \<open>
  A run id built from a timestamp and a counter gives both back, and ids are ordered as
  the pairs are: first by time, then by counter.
\<close>

theorem run_id_layout:
  assumes "from_parts micros c = Inr r" and "from_parts micros' c' = Inr r'"
  shows "unix_micros r = micros \<and> counter r = c
       \<and> (as_i64 r < as_i64 r' \<longleftrightarrow> micros < micros' \<or> micros = micros' \<and> c < c')"
proof -
  have "r = RunId (micros * 4096 + int c)" "r' = RunId (micros' * 4096 + int c')"
    "c < 4096" "c' < 4096"
    using assms by (simp_all add: from_parts_Inr_iff)
  then have "as_i64 r < as_i64 r' \<longleftrightarrow> micros < micros' \<or> micros = micros' \<and> c < c'" by auto
  with layout_roundtrip [OF assms(1)] show ?thesis by simp
qed

theorem run_id_layout_witness:
  "unix_micros (RunId 4099) = 1 \<and> counter (RunId 4099) = 3 \<and> as_i64 (RunId 4099) < as_i64 (RunId 8192)"
proof -
  have "from_parts 1 3 = Inr (RunId 4099)" "from_parts 2 0 = Inr (RunId 8192)"
    by (simp_all add: from_parts_Inr_iff)
  from run_id_layout [OF this] show ?thesis by simp
qed

text \<open>
  Claim C35. Under any interleaving of any number of threads, with spurious exchange failures, the
  generator never issues an id twice: in every reachable state the history of issued ids is strictly
  increasing, none exceeds the shared cell, and each id a thread is about to return was issued.
\<close>

theorem generator_strictly_increasing:
  assumes "gen_reachable g"
  shows "sorted_wrt (>) (gen_issued g) \<and> distinct (gen_issued g)
       \<and> (\<forall>x \<in> set (gen_issued g). x \<le> gen_last g)
       \<and> (\<forall>i r. gen_pcs g i = GReturn (Inr r) \<longrightarrow> as_i64 r \<in> set (gen_issued g))"
proof -
  have inv: "gen_inv g" using assms by (rule gen_reachable_inv)
  then have "sorted_wrt (>) (gen_issued g)" by (simp add: gen_inv_def)
  moreover from this have "distinct (gen_issued g)" by (rule sorted_wrt_greater_distinct)
  ultimately show ?thesis using inv by (simp add: gen_inv_def)
qed

theorem generator_strictly_increasing_witness:
  "\<exists>g. gen_reachable g \<and> gen_issued g = [4097, 4096] \<and> distinct (gen_issued g)"
proof -
  have f: "from_parts 1 0 = Inr (RunId 4096)" by (simp add: from_parts_Inr_iff)
  obtain g1 where g1: "gen_reachable g1" "gen_last g1 = 4096" "gen_issued g1 = [4096]"
      "gen_pcs g1 1 = GIdle"
    using gen_uncontended [OF gen_reachable.init, of 0 1 "RunId 4096" 4096] f
    by (auto simp: new_generator_def next_candidate_def)
  obtain g2 where "gen_reachable g2" "gen_issued g2 = [4097, 4096]"
    using gen_uncontended [OF g1(1,4) f, of 4097] g1
    by (auto simp: next_candidate_def checked_add_i64_def width_simps)
  with generator_strictly_increasing [of g2] show ?thesis by blast
qed

end
