(* ===== verification/Planner_Shuffle.thy ===== *)
theory Planner_Shuffle
  imports Core_Run Core_Token
begin

text \<open>
  The run-reproducible double shuffle: \<open>crates/cdm-engine/src/planner/shuffle.rs\<close>. SplitMix64 is
  modelled on 64-bit words. \<open>next_index\<close> draws until a value below the rejection limit comes up, a
  loop with no bound in the code; it ends because the generator's state walks the residues of
  \<open>2 ^ 64\<close> in steps of an odd constant and so reaches zero, where the output is zero and is always
  accepted. The number of steps left to that point is the termination measure.
\<close>

unbundle bit_operations_syntax

type_synonym u64w = "64 word"

definition GAMMA :: u64w where
  "GAMMA = 0x9E3779B97F4A7C15"

definition splitmix_mix :: "u64w \<Rightarrow> u64w" where
  "splitmix_mix state =
     (let z1 = (state XOR drop_bit 30 state) * 0xBF58476D1CE4E5B9;
          z2 = (z1 XOR drop_bit 27 z1) * 0x94D049BB133111EB
      in z2 XOR drop_bit 31 z2)"

text \<open>\<open>next_u64\<close>: the new state and the output.\<close>

definition next_u64 :: "u64w \<Rightarrow> u64w \<times> u64w" where
  "next_u64 state = (let s = state + GAMMA in (s, splitmix_mix s))"

text \<open>The multiplicative inverse of \<open>GAMMA\<close> modulo \<open>2 ^ 64\<close>, used by the measure only.\<close>

definition GAMMA_INV :: u64w where
  "GAMMA_INV = 0xF1DE83E19937733D"

definition steps_to_zero :: "u64w \<Rightarrow> nat" where
  "steps_to_zero state = unat (- (state + GAMMA) * GAMMA_INV)"

lemma GAMMA_INV: "GAMMA * GAMMA_INV = 1"
  by (simp add: GAMMA_def GAMMA_INV_def)

lemma splitmix_mix_0 [simp]: "splitmix_mix 0 = 0"
  by (simp add: splitmix_mix_def)

lemma steps_to_zero_decreases:
  assumes "state + GAMMA \<noteq> 0"
  shows "steps_to_zero (state + GAMMA) < steps_to_zero state"
proof -
  let ?x = "- (state + GAMMA) * GAMMA_INV"
  have "?x * GAMMA = - (state + GAMMA) * (GAMMA * GAMMA_INV)" by (simp only: ac_simps)
  then have x: "?x * GAMMA = - (state + GAMMA)" by (simp only: GAMMA_INV mult_1_right)
  have nz: "?x \<noteq> 0"
  proof
    assume "?x = 0"
    with x have "- (state + GAMMA) = 0" by (simp only: mult_zero_left)
    with assms show False by (simp only: neg_equal_0_iff_equal)
  qed
  have "- (state + GAMMA + GAMMA) * GAMMA_INV = ?x - GAMMA * GAMMA_INV"
    by (simp only: minus_add_distrib distrib_right mult_minus_left) (simp only: diff_conv_add_uminus)
  then have "steps_to_zero (state + GAMMA) = unat (?x - 1)"
    by (simp only: steps_to_zero_def GAMMA_INV)
  also have "\<dots> < unat ?x" using nz by (rule measure_unat)
  finally show ?thesis by (simp add: steps_to_zero_def)
qed

text \<open>The rejection loop of \<open>next_index\<close>; \<open>limit\<close> is \<open>0.wrapping_sub(overhang)\<close>.\<close>

definition accepts :: "u64w \<Rightarrow> u64w \<Rightarrow> bool" where
  "accepts overhang draw \<longleftrightarrow> overhang = 0 \<or> draw < 0 - overhang"

function draw_index :: "u64w \<Rightarrow> u64w \<Rightarrow> u64w \<Rightarrow> u64w \<times> usize" where
  "draw_index bound overhang state =
     (let (s, draw) = next_u64 state
      in if accepts overhang draw then (s, unat (draw mod bound)) else draw_index bound overhang s)"
  by pat_completeness auto
termination
proof (relation "measure (\<lambda>(bound, overhang, state). steps_to_zero state)", goal_cases)
  case (2 bound overhang state p s draw)
  then have s: "s = state + GAMMA" and draw: "draw = splitmix_mix s" by (auto simp: next_u64_def Let_def)
  have "s \<noteq> 0"
  proof
    assume "s = 0"
    with 2 draw show False by (simp add: accepts_def word_gt_0)
  qed
  then show ?case using steps_to_zero_decreases s by simp
qed simp

declare draw_index.simps [simp del]

definition overhang_of :: "u64w \<Rightarrow> u64w" where
  "overhang_of bound = ((0xFFFFFFFFFFFFFFFF mod bound) + 1) mod bound"

text \<open>\<open>u64::try_from(bound)\<close> fails for a bound above \<open>u64::MAX\<close>, which answers zero.\<close>

definition next_index :: "usize \<Rightarrow> u64w \<Rightarrow> u64w \<times> usize" where
  "next_index bound state =
     (if bound > u64_max then (state, 0)
      else if bound \<le> 1 then (state, 0)
      else draw_index (of_nat bound) (overhang_of (of_nat bound)) state)"

definition seed_for :: "run_id \<Rightarrow> u64w" where
  "seed_for run = snd (next_u64 (word_of_int (as_i64 run)))"

fun shuffle_from :: "nat \<Rightarrow> 'a list \<Rightarrow> u64w \<Rightarrow> 'a list \<times> u64w" where
  "shuffle_from 0 items rng = (items, rng)"
| "shuffle_from (Suc i) items rng =
     (let (rng', target) = next_index (Suc i + 1) rng
      in shuffle_from i (swap_at (Suc i) target items) rng')"

definition shuffle_once :: "'a list \<Rightarrow> u64w \<Rightarrow> 'a list \<times> u64w" where
  "shuffle_once items rng = shuffle_from (length items - 1) items rng"

definition shuffle_for_run :: "'a list \<Rightarrow> run_id \<Rightarrow> 'a list" where
  "shuffle_for_run items run =
     (let rng = seed_for run;
          (items1, rng1) = shuffle_once items rng;
          (items2, rng2) = shuffle_once items1 rng1
      in items2)"

subsection \<open>Indices stay in bounds\<close>

lemma draw_index_lt: "0 < bound \<Longrightarrow> snd (draw_index bound overhang state) < unat bound"
proof (induction bound overhang state rule: draw_index.induct)
  case (1 bound overhang state)
  obtain s draw where n: "next_u64 state = (s, draw)" by fastforce
  have "unat (draw mod bound) < unat bound"
    using "1.prems" by (simp add: unat_mod word_gt_0 unat_gt_0)
  then show ?case
    using "1.IH" [OF n [symmetric] refl] "1.prems" n by (subst draw_index.simps) simp
qed

lemma unat_of_nat_bound: "b \<le> u64_max \<Longrightarrow> unat (of_nat b :: u64w) = b"
  by (simp add: u64_max_def unat_of_nat)

lemma next_index_lt: "0 < bound \<Longrightarrow> snd (next_index bound rng) < bound"
proof (cases "1 < bound \<and> bound \<le> u64_max")
  case True
  then have "snd (draw_index (of_nat bound) (overhang_of (of_nat bound)) rng) < unat (of_nat bound :: u64w)"
    by (intro draw_index_lt) (metis True unat_of_nat_bound unat_gt_0 not_less0 word_gt_0 gr_zeroI less_trans zero_less_one unat_0)
  with True show ?thesis by (simp add: next_index_def unat_of_nat_bound)
qed (auto simp: next_index_def)

lemma shuffle_from_mset:
  "i < length items \<Longrightarrow> mset (fst (shuffle_from i items rng)) = mset items"
proof (induction i arbitrary: items rng)
  case (Suc i)
  obtain rng' t where n: "next_index (Suc i + 1) rng = (rng', t)" by fastforce
  then have t: "t < length items" using next_index_lt [of "Suc i + 1" rng] Suc.prems by simp
  then have "mset (fst (shuffle_from i (swap_at (Suc i) t items) rng')) = mset (swap_at (Suc i) t items)"
    using Suc by simp
  with t Suc.prems n show ?case by simp
qed simp

lemma shuffle_once_mset [simp]: "mset (fst (shuffle_once items rng)) = mset items"
  by (cases items) (simp_all add: shuffle_once_def shuffle_from_mset)

lemma shuffle_for_run_mset [simp]: "mset (shuffle_for_run items run) = mset items"
  by (simp add: shuffle_for_run_def Let_def split: prod.split)
    (metis fst_conv shuffle_once_mset)

lemma set_shuffle_for_run [simp]: "set (shuffle_for_run items run) = set items"
  by (rule mset_eq_set_eq) simp

lemma length_shuffle_for_run [simp]: "length (shuffle_for_run items run) = length items"
  by (metis shuffle_for_run_mset size_mset)

subsection \<open>The draw is unbiased\<close>

lemma overhang_value:
  assumes "1 < b" "b \<le> u64_max"
  shows "unat (overhang_of (of_nat b)) = 2 ^ 64 mod b"
proof -
  let ?b = "of_nat b :: u64w"
  have b: "unat ?b = b" using assms(2) by (rule unat_of_nat_bound)
  have m: "unat (0xFFFFFFFFFFFFFFFF mod ?b) = (2 ^ 64 - 1) mod b"
    by (simp add: unat_mod b)
  have lt: "(2 ^ 64 - 1) mod b < b" using assms by simp
  then have "(2 ^ 64 - 1) mod b + 1 < (2 ^ 64 :: nat)" using assms(2) by (simp add: u64_max_def)
  then have "unat (0xFFFFFFFFFFFFFFFF mod ?b + 1) = (2 ^ 64 - 1) mod b + 1"
    using m by (simp add: unat_add_lem [THEN iffD1])
  then have "unat (overhang_of ?b) = ((2 ^ 64 - 1) mod b + 1) mod b"
    by (simp only: overhang_of_def unat_mod b)
  also have "\<dots> = 2 ^ 64 mod b" by (simp only: mod_add_left_eq) simp
  finally show ?thesis .
qed

lemma unat_neg: "w \<noteq> 0 \<Longrightarrow> unat (0 - w) = 2 ^ 64 - unat (w :: u64w)"
proof -
  assume "w \<noteq> 0"
  then have pos: "0 < unat w" by (simp add: unat_gt_0)
  have "(unat (0 - w) + unat w) mod 2 ^ 64 = unat (0 - w + w)"
    by (simp only: unat_word_ariths) simp
  then have m: "(unat (0 - w) + unat w) mod 2 ^ 64 = 0" by simp
  have lt: "unat (0 - w) < 2 ^ 64" "unat w < 2 ^ 64"
    using unsigned_less [of "0 - w", where 'a = nat] unsigned_less [of w, where 'a = nat] by simp_all
  obtain q where q: "unat (0 - w) + unat w = 2 ^ 64 * q" using m by (metis mod_0_imp_dvd dvdE)
  with pos lt have "q = 1" by (cases q; cases "q - 1") auto
  with q show ?thesis by simp
qed

lemma accepts_value:
  assumes "1 < b" "b \<le> u64_max"
  shows "accepts (overhang_of (of_nat b)) d \<longleftrightarrow> unat d < (2 ^ 64 div b) * b"
proof -
  let ?o = "overhang_of (of_nat b)"
  have o: "unat ?o = 2 ^ 64 mod b" using assms by (rule overhang_value)
  have q: "(2 ^ 64 div b) * b = 2 ^ 64 - 2 ^ 64 mod b" by (simp add: minus_mod_eq_div_mult)
  show ?thesis
  proof (cases "?o = 0")
    case True
    then have "2 ^ 64 mod b = 0" using o by simp
    with True q show ?thesis using unsigned_less [of d, where 'a = nat] by (simp add: accepts_def)
  next
    case False
    then have "unat (0 - ?o) = 2 ^ 64 - unat ?o" by (rule unat_neg)
    with False q o show ?thesis by (simp add: accepts_def word_less_nat_alt)
  qed
qed

lemma card_residue: "k < b \<Longrightarrow> card {n :: nat. n < q * b \<and> n mod b = k} = q"
proof -
  assume k: "k < b"
  have "{n. n < q * b \<and> n mod b = k} = (\<lambda>i. i * b + k) ` {..<q}"
  proof safe
    fix n assume "n < q * b" "k = n mod b"
    then show "n \<in> (\<lambda>i. i * b + n mod b) ` {..<q}"
      by (intro image_eqI [of _ _ "n div b"]) (auto simp: less_mult_imp_div_less)
  next
    fix i assume "i < q"
    then have "(i + 1) * b \<le> q * b" by (intro mult_right_mono) auto
    with k show "i * b + k < q * b" by simp
    show "(i * b + k) mod b = k" using k by simp
  qed
  moreover have "inj_on (\<lambda>i. i * b + k) {..<q}" using k by (auto simp: inj_on_def)
  ultimately show ?thesis by (simp add: card_image)
qed

subsection \<open>Properties\<close>

text \<open>
  The double shuffle terminates for every run id and every list, and permutes the list:
  no range is lost, duplicated or invented, whatever the generator produces.
\<close>

theorem shuffle_permutes: "mset (shuffle_for_run items run) = mset items"
  by (rule shuffle_for_run_mset)

text \<open>
  The rejection step favours no index: of the \<open>2 ^ 64\<close> words the generator can draw,
  each index below the bound is produced by exactly \<open>2 ^ 64 div bound\<close> accepted ones.
\<close>

theorem next_index_unbiased:
  assumes "1 < bound" and "bound \<le> u64_max" and "k < bound"
  shows "card {d. accepts (overhang_of (of_nat bound)) d \<and> unat (d mod of_nat bound) = k} = 2 ^ 64 div bound"
proof -
  have b: "unat (of_nat bound :: u64w) = bound" using assms(2) by (rule unat_of_nat_bound)
  let ?S = "{d. accepts (overhang_of (of_nat bound)) d \<and> unat (d mod of_nat bound) = k}"
  let ?T = "{n :: nat. n < (2 ^ 64 div bound) * bound \<and> n mod bound = k}"
  have le: "(2 ^ 64 div bound) * bound \<le> 2 ^ 64" by (simp add: div_times_less_eq_dividend)
  have "unat ` ?S = ?T"
  proof (intro equalityI subsetI)
    fix n assume n: "n \<in> ?T"
    then have "n < 2 ^ 64" using le by (blast intro: less_le_trans)
    then have "unat (of_nat n :: u64w) = n" by (simp add: unat_of_nat)
    with n show "n \<in> unat ` ?S"
      by (intro image_eqI [of _ _ "of_nat n"]) (auto simp: accepts_value [OF assms(1,2)] unat_mod b)
  qed (auto simp: accepts_value [OF assms(1,2)] unat_mod b)
  moreover have "inj_on unat ?S" by (rule inj_onI) (simp add: word_unat_eq_iff)
  then have "card (unat ` ?S) = card ?S" by (rule card_image)
  ultimately have "card ?S = card ?T" by simp
  then show ?thesis using card_residue [OF assms(3)] by simp
qed

theorem next_index_unbiased_witness:
  "card {d. accepts (overhang_of (of_nat 3)) d \<and> unat (d mod of_nat 3) = 2} = 2 ^ 64 div 3"
  using next_index_unbiased [of 3 2] by (simp add: u64_max_def)

end
