(* ===== verification/Planner_Plan.thy ===== *)
theory Planner_Plan
  imports Planner_Split Planner_Shuffle
begin

text \<open>
  The token-range planner: \<open>crates/cdm-engine/src/planner/mod.rs\<close> with its view of the cluster,
  \<open>topology.rs\<close> and \<open>cluster.rs\<close>. \<open>plan\<close> resolves the bounds, runs one of the three strategies
  and shuffles the result; \<open>from_ranges\<close> admits a resumed work list; \<open>subdivide_for_rerun\<close> breaks
  pending ranges up. A value of a \<open>ClusterTopology\<close> implementation is the record of its three
  answers. The release build does not check \<open>Iterator::sum\<close>, so the token total of the ring-aware
  strategy is reduced modulo \<open>2 ^ 128\<close>.
\<close>

subsection \<open>What the planner knows of the cluster\<close>

record ring_segment =
  seg_range :: token_range
  seg_replicas :: "string list"

record size_estimate =
  est_range :: token_range
  est_partitions_count :: u64
  est_mean_partition_size :: u64

record cluster_topology =
  topo_partitioner :: "partitioner result"
  topo_ring :: "ring_segment list result"
  topo_size_estimates :: "table_ref \<Rightarrow> size_estimate list result"

record in_memory_topology =
  im_partitioner :: partitioner
  im_ring :: "ring_segment list"
  im_estimates :: "(table_ref \<times> size_estimate) list"
  im_ring_failure :: "string option"

definition new_in_memory :: "partitioner \<Rightarrow> in_memory_topology" where
  "new_in_memory p = \<lparr> im_partitioner = p, im_ring = [], im_estimates = [], im_ring_failure = None \<rparr>"

definition with_segment :: "ring_segment \<Rightarrow> in_memory_topology \<Rightarrow> in_memory_topology" where
  "with_segment s t = t\<lparr>im_ring := im_ring t @ [s]\<rparr>"

definition with_estimate :: "table_ref \<Rightarrow> size_estimate \<Rightarrow> in_memory_topology \<Rightarrow> in_memory_topology" where
  "with_estimate tbl e t = t\<lparr>im_estimates := im_estimates t @ [(tbl, e)]\<rparr>"

definition failing_ring :: "string \<Rightarrow> in_memory_topology \<Rightarrow> in_memory_topology" where
  "failing_ring m t = t\<lparr>im_ring_failure := Some m\<rparr>"

definition in_memory_topology_impl :: "in_memory_topology \<Rightarrow> cluster_topology" where
  "in_memory_topology_impl t =
     \<lparr> topo_partitioner = Inr (im_partitioner t),
       topo_ring = (case im_ring_failure t of
          Some m \<Rightarrow> Inl (new_error Read m) | None \<Rightarrow> Inr (im_ring t)),
       topo_size_estimates = (\<lambda>tbl. Inr (map snd (filter (\<lambda>(c, _). c = tbl) (im_estimates t)))) \<rparr>"

record cql_topology =
  cq_partitioner :: partitioner
  cq_ring :: "ring_segment list"
  cq_table :: table_ref
  cq_estimates :: "size_estimate list"

definition cql_topology_impl :: "cql_topology \<Rightarrow> cluster_topology" where
  "cql_topology_impl t =
     \<lparr> topo_partitioner = Inr (cq_partitioner t),
       topo_ring = Inr (cq_ring t),
       topo_size_estimates = (\<lambda>tbl. if tbl = cq_table t then Inr (cq_estimates t) else Inr []) \<rparr>"

subsection \<open>Settings and plans\<close>

datatype plan_strategy = Fixed | RingAware | Adaptive

fun strategy_as_str :: "plan_strategy \<Rightarrow> string" where
  "strategy_as_str Fixed = ''fixed''"
| "strategy_as_str RingAware = ''ring_aware''"
| "strategy_as_str Adaptive = ''adaptive''"

definition needs_topology :: "plan_strategy \<Rightarrow> bool" where
  "needs_topology s \<longleftrightarrow> s \<noteq> Fixed"

record planner_settings =
  ps_partitioner :: partitioner
  ps_num_parts :: u64
  ps_coverage_percent :: u8
  ps_token_min :: "i128 option"
  ps_token_max :: "i128 option"
  ps_strategy :: plan_strategy
  ps_max_rows_per_range :: u64
  ps_rate_limit_rows_per_second :: u32
  ps_max_inflight_reads :: u32
  ps_max_inflight_writes :: u32
  ps_table :: "table_ref option"

definition DEFAULT_MAX_ROWS_PER_RANGE :: u64 where
  "DEFAULT_MAX_ROWS_PER_RANGE = 1000000"

definition new_settings :: "partitioner \<Rightarrow> planner_settings" where
  "new_settings p =
     \<lparr> ps_partitioner = p, ps_num_parts = 5000, ps_coverage_percent = 100, ps_token_min = None,
       ps_token_max = None, ps_strategy = Fixed, ps_max_rows_per_range = DEFAULT_MAX_ROWS_PER_RANGE,
       ps_rate_limit_rows_per_second = 20000, ps_max_inflight_reads = 256,
       ps_max_inflight_writes = 2000, ps_table = None \<rparr>"

record planned_range =
  pr_range :: token_range
  pr_replicas :: "string list"

definition unrouted :: "token_range \<Rightarrow> planned_range" where
  "unrouted r = \<lparr> pr_range = r, pr_replicas = [] \<rparr>"

record token_plan =
  tp_partitioner :: partitioner
  tp_strategy :: plan_strategy
  tp_bounds :: token_range
  tp_coverage_percent :: u8
  tp_run_id :: run_id
  tp_resumed_from :: "run_id option"
  tp_ranges :: "planned_range list"

definition token_ranges :: "token_plan \<Rightarrow> token_range list" where
  "token_ranges p = map pr_range (tp_ranges p)"

definition ring_ordered :: "token_plan \<Rightarrow> token_range list" where
  "ring_ordered p = sort (token_ranges p)"

text \<open>\<open>windows(2)\<close> of the sorted work list: the first neighbouring pair that shares a token.\<close>

fun first_overlap :: "token_range list \<Rightarrow> (token_range \<times> token_range) option" where
  "first_overlap (l # r # rs) = (if intersects l r then Some (l, r) else first_overlap (r # rs))"
| "first_overlap _ = None"

definition from_ranges ::
  "run_id \<Rightarrow> partitioner \<Rightarrow> run_id option \<Rightarrow> token_range list \<Rightarrow> token_plan result" where
  "from_ranges run p resumed ranges =
     (case ranges of
        [] \<Rightarrow> Inl (new_error Config
          (''a token plan needs at least one range; an empty work list would run nothing and ''
           @ ''report success''))
      | first # _ \<Rightarrow>
        (if clamp_to u64_max (length ranges) > MAX_PLANNED_RANGES
         then Inl (new_error Config (''a work list of '' @ show_nat (length ranges)
           @ '' ranges exceeds the '' @ show_nat MAX_PLANNED_RANGES @ ''-range ceiling (NFR-003)''))
         else (case first_overlap (sort ranges) of
            Some (l, r) \<Rightarrow> Inl (new_error Config (''the work list overlaps: '' @ show_range l
              @ '' and '' @ show_range r
              @ '' share tokens, so every row between them would be processed twice''))
          | None \<Rightarrow>
            (let (mn, mx) = foldl (\<lambda>(mn, mx) r. (min mn (tr_min r), max mx (tr_max r)))
                              (tr_min first, tr_max first) ranges
             in bindR (new_range mn mx) (\<lambda>bounds. Inr
                  \<lparr> tp_partitioner = p, tp_strategy = Fixed, tp_bounds = bounds,
                    tp_coverage_percent = 100, tp_run_id = run, tp_resumed_from = resumed,
                    tp_ranges = map unrouted ranges \<rparr>)))))"

subsection \<open>The three strategies\<close>

definition plan_fixed :: "planner_settings \<Rightarrow> token_range \<Rightarrow> planned_range list result" where
  "plan_fixed st bounds =
     bindR (split_ring bounds (ps_num_parts st) (ps_coverage_percent st)) (\<lambda>rs. Inr (map unrouted rs))"

definition clip :: "token_range \<Rightarrow> token_range \<Rightarrow> token_range option" where
  "clip r bounds =
     (if \<not> intersects r bounds then None
      else case new_range (max (tr_min r) (tr_min bounds)) (min (tr_max r) (tr_max bounds)) of
             Inr c \<Rightarrow> Some c | Inl _ \<Rightarrow> None)"

definition clip_segments :: "ring_segment list \<Rightarrow> token_range \<Rightarrow> (token_range \<times> string list) list" where
  "clip_segments segs bounds =
     List.map_filter (\<lambda>s. map_option (\<lambda>r. (r, seg_replicas s)) (clip (seg_range s) bounds)) segs"

definition total_tokens :: "(token_range \<times> string list) list \<Rightarrow> u128" where
  "total_tokens clipped = sum_list (map (\<lambda>(r, _). token_count r) clipped) mod 2 ^ 128"

definition segment_parts :: "u64 \<Rightarrow> u128 \<Rightarrow> u128 \<Rightarrow> u64" where
  "segment_parts num_parts tokens all_tokens =
     (let share = sat_mul u128_max num_parts tokens div max all_tokens 1
      in max (clamp_to u64_max share) 1)"

definition routed :: "string list \<Rightarrow> token_range \<Rightarrow> planned_range" where
  "routed reps r = \<lparr> pr_range = r, pr_replicas = reps \<rparr>"

definition plan_ring_aware ::
  "planner_settings \<Rightarrow> token_range \<Rightarrow> cluster_topology option \<Rightarrow> planned_range list result" where
  "plan_ring_aware st bounds topology =
     (case topology of
        None \<Rightarrow> plan_fixed st bounds
      | Some topo \<Rightarrow>
        bindR (topo_ring topo) (\<lambda>segments.
        if segments = [] then Inl (new_error Config
          ''the origin reported an empty token ring, so `ring_aware` planning is impossible'')
        else let clipped = clip_segments segments bounds in
        if clipped = [] then Inl (new_error Config
          (''no ring segment overlaps the configured token bounds '' @ show_range bounds))
        else let all_tokens = total_tokens clipped in
        bindR (collectR (\<lambda>(r, replicas).
            bindR (split_ring r (segment_parts (ps_num_parts st) (token_count r) all_tokens)
                     (ps_coverage_percent st)) (\<lambda>pieces.
            Inr (map (routed replicas) pieces))) clipped)
          (\<lambda>groups. Inr (concat groups))))"

text \<open>The loop over the estimates; an estimate that does not overlap the range is skipped.\<close>

fun estimated_rows_in :: "token_range \<Rightarrow> size_estimate list \<Rightarrow> u128 \<Rightarrow> u128" where
  "estimated_rows_in r [] acc = acc"
| "estimated_rows_in r (e # es) acc =
     (if \<not> intersects (est_range e) r then estimated_rows_in r es acc
      else let estimate_tokens = token_count (est_range e) in
      if estimate_tokens = 0 then estimated_rows_in r es acc
      else case map_option token_count (clip r (est_range e)) of
        None \<Rightarrow> estimated_rows_in r es acc
      | Some overlap \<Rightarrow> estimated_rows_in r es
          (sat_add u128_max acc
             (sat_mul u128_max (est_partitions_count e) overlap div estimate_tokens)))"

definition adaptive_factor :: "u64 \<Rightarrow> size_estimate list \<Rightarrow> token_range \<Rightarrow> u32" where
  "adaptive_factor max_rows estimates r =
     max (clamp_to u32_max (div_ceil (estimated_rows_in r estimates 0) max_rows)) 1"

definition plan_adaptive ::
  "planner_settings \<Rightarrow> token_range \<Rightarrow> cluster_topology option \<Rightarrow> planned_range list result" where
  "plan_adaptive st bounds topology =
     bindR (plan_fixed st bounds) (\<lambda>base.
       case topology of
         None \<Rightarrow> Inr base
       | Some topo \<Rightarrow>
         (if ps_max_rows_per_range st = 0 then Inr base
          else case ps_table st of
            None \<Rightarrow> Inr base
          | Some tbl \<Rightarrow>
            bindR (topo_size_estimates topo tbl) (\<lambda>estimates.
              if estimates = [] then Inr base
              else bindR (collectR (\<lambda>planned.
                  let factor = adaptive_factor (ps_max_rows_per_range st) estimates (pr_range planned)
                  in if factor = 1 then Inr [planned]
                     else bindR (split_range (pr_range planned) factor) (\<lambda>pieces.
                       Inr (map (routed (pr_replicas planned)) pieces)))
                  base) (\<lambda>groups. Inr (concat groups)))))"

definition plan :: "planner_settings \<Rightarrow> run_id \<Rightarrow> cluster_topology option \<Rightarrow> token_plan result" where
  "plan st run topology =
     bindR (resolve_bounds (ps_partitioner st) (ps_token_min st) (ps_token_max st)) (\<lambda>bounds.
     if needs_topology (ps_strategy st) \<and> topology = None
     then Inl (with_context (with_config_key ''plan.strategy'') (new_error Config
        (''plan strategy `'' @ strategy_as_str (ps_strategy st)
         @ ''` needs origin cluster metadata, which is not available; ''
         @ ''use `fixed` to plan without a cluster'')))
     else bindR (case ps_strategy st of
              Fixed \<Rightarrow> plan_fixed st bounds
            | RingAware \<Rightarrow> plan_ring_aware st bounds topology
            | Adaptive \<Rightarrow> plan_adaptive st bounds topology) (\<lambda>ranges.
          Inr \<lparr> tp_partitioner = ps_partitioner st, tp_strategy = ps_strategy st, tp_bounds = bounds,
                tp_coverage_percent = effective_coverage (ps_coverage_percent st), tp_run_id = run,
                tp_resumed_from = None, tp_ranges = shuffle_for_run ranges run \<rparr>))"

definition subdivide_for_rerun :: "token_range list \<Rightarrow> u32 \<Rightarrow> run_id \<Rightarrow> token_range list result" where
  "subdivide_for_rerun ranges multiplier run =
     (if multiplier \<le> 1 then Inr ranges
      else bindR (collectR (\<lambda>r. bindR (split_ring r multiplier 100)
              (\<lambda>pieces. Inr (shuffle_for_run pieces run))) ranges) (\<lambda>groups. Inr (concat groups)))"

subsection \<open>Work lists of planned ranges\<close>

abbreviation ranges_of :: "planned_range list \<Rightarrow> token_range list" where
  "ranges_of \<equiv> map pr_range"

lemma unrouted_range [simp]: "pr_range (unrouted r) = r" "pr_range \<circ> unrouted = id"
  by (simp_all add: unrouted_def fun_eq_iff)

lemma hits_shuffle [simp]: "hits t (shuffle_for_run rs run) = hits t rs"
  by (rule hits_mset) simp

lemma hits_ranges_shuffle [simp]:
  "hits t (ranges_of (shuffle_for_run ps run)) = hits t (ranges_of ps)"
  by (rule hits_mset) (simp only: mset_map shuffle_for_run_mset)

subsection \<open>Admitting a work list\<close>

lemma first_overlap_None:
  assumes "sorted rs" "\<forall>r \<in> set rs. tr_min r \<le> tr_max r"
  shows "first_overlap rs = None \<longleftrightarrow> (\<forall>t. hits t rs \<le> 1)"
  using assms
proof (induction rs rule: first_overlap.induct)
  case (1 l r rs)
  have ord: "tr_min l \<le> tr_min r" and lr: "tr_min r \<le> tr_max r"
    using "1.prems" by (auto simp: less_eq_token_range_def)
  show ?case
  proof (cases "intersects l r")
    case True
    then have "contains l (tr_min r)" "contains r (tr_min r)"
      using ord lr by (auto simp: range_simps)
    then have "2 \<le> hits (tr_min r) (l # r # rs)" by simp
    then have "\<not> hits (tr_min r) (l # r # rs) \<le> 1" by linarith
    with True show ?thesis by (metis first_overlap.simps(1) option.distinct(1))
  next
    case False
    then have lt: "tr_max l < tr_min r" using ord lr by (auto simp: range_simps)
    have after: "tr_min r \<le> tr_min s" if "s \<in> set (r # rs)" for s
      using "1.prems"(1) that by (auto simp: less_eq_token_range_def)
    have none: "hits t (r # rs) = 0" if "contains l t" for t
    proof (rule ccontr)
      assume "hits t (r # rs) \<noteq> 0"
      then obtain s where "s \<in> set (r # rs)" "contains s t" using hits_pos_iff by blast
      with after [of s] lt that show False by (simp add: contains_def)
    qed
    have "(\<forall>t. hits t (l # r # rs) \<le> 1) \<longleftrightarrow> (\<forall>t. hits t (r # rs) \<le> 1)"
    proof
      assume a: "\<forall>t. hits t (l # r # rs) \<le> 1"
      have "hits t (r # rs) \<le> hits t (l # r # rs)" for t by (subst hits_Cons [of t l]) simp
      with a show "\<forall>t. hits t (r # rs) \<le> 1" using order_trans by blast
    next
      assume a: "\<forall>t. hits t (r # rs) \<le> 1"
      show "\<forall>t. hits t (l # r # rs) \<le> 1"
      proof
        fix t show "hits t (l # r # rs) \<le> 1"
          using a none [of t] hits_Cons [of t l "r # rs"] by (cases "contains l t") simp_all
      qed
    qed
    with False "1.IH" "1.prems" show ?thesis by simp
  qed
qed auto

lemma foldl_bounds:
  "foldl (\<lambda>(mn, mx) r. (min mn (tr_min r), max mx (tr_max r))) (a, b) rs = (mn, mx) \<Longrightarrow>
     mn \<le> a \<and> b \<le> mx \<and> (\<forall>r \<in> set rs. mn \<le> tr_min r \<and> tr_max r \<le> mx)"
  by (induction rs arbitrary: a b) fastforce+

lemma from_ranges_ok:
  assumes "rs \<noteq> []" "length rs \<le> MAX_PLANNED_RANGES" "\<forall>r \<in> set rs. tr_min r \<le> tr_max r"
    "\<forall>t. hits t rs \<le> 1"
  shows "\<exists>pl. from_ranges run p resumed rs = Inr pl \<and> token_ranges pl = rs \<and> tp_run_id pl = run
       \<and> tp_resumed_from pl = resumed \<and> tp_coverage_percent pl = 100
       \<and> (\<forall>r \<in> set rs. contains_range (tp_bounds pl) r)"
proof -
  obtain r rs' where rs: "rs = r # rs'" using assms(1) by (cases rs) auto
  obtain mn mx where f: "foldl (\<lambda>(mn, mx) r. (min mn (tr_min r), max mx (tr_max r)))
                              (tr_min r, tr_max r) rs = (mn, mx)" by fastforce
  from foldl_bounds [OF f] have b: "mn \<le> tr_min r" "tr_max r \<le> mx"
    "\<forall>r \<in> set rs. mn \<le> tr_min r \<and> tr_max r \<le> mx" by auto
  have "mn \<le> mx" using b(1,2) assms(3) rs by force
  moreover have "first_overlap (sort rs) = None"
    using assms(3,4) by (subst first_overlap_None) (simp_all add: hits_mset [of "sort rs" rs])
  moreover have "clamp_to u64_max (length rs) \<le> MAX_PLANNED_RANGES"
    using assms(2) by (simp add: clamp_to_def)
  ultimately show ?thesis
    using f b(3) unfolding from_ranges_def rs
    by (auto simp: token_ranges_def comp_def unrouted_def contains_range_def)
qed

subsection \<open>Clipping\<close>

lemma clip_Some: "clip r b = Some c \<Longrightarrow> contains c t \<longleftrightarrow> contains r t \<and> contains b t"
  by (auto simp: clip_def range_simps split: if_splits sum.splits)

lemma clip_None:
  "clip r b = None \<Longrightarrow> tr_min r \<le> tr_max r \<Longrightarrow> tr_min b \<le> tr_max b \<Longrightarrow> \<not> (contains r t \<and> contains b t)"
  by (auto simp: clip_def range_simps new_range_def split: if_splits sum.splits)

lemma clip_within:
  "clip r b = Some c \<Longrightarrow> contains_range b c \<and> contains_range r c \<and> tr_min c \<le> tr_max c"
  by (auto simp: clip_def range_simps split: if_splits sum.splits)

lemma clip_wf: "clip r b = Some c \<Longrightarrow> wf_range b \<Longrightarrow> wf_range c"
  using clip_within [of r b c] by (auto simp: wf_range_def range_simps in_i128_def)

lemma clip_segments_hits:
  assumes "\<forall>s \<in> set segs. tr_min (seg_range s) \<le> tr_max (seg_range s)" "tr_min b \<le> tr_max b"
  shows "hits t (map fst (clip_segments segs b)) = hits t (map seg_range segs) * of_bool (contains b t)"
  using assms(1)
proof (induction segs)
  case (Cons s segs)
  then show ?case
    using clip_Some [of "seg_range s" b _ t] clip_None [of "seg_range s" b t] assms(2)
    by (cases "clip (seg_range s) b") (auto simp: clip_segments_def map_filter_simps)
qed (simp add: clip_segments_def map_filter_simps)

lemma clip_segments_member:
  "(c, reps) \<in> set (clip_segments segs b) \<Longrightarrow>
     \<exists>s \<in> set segs. seg_replicas s = reps \<and> clip (seg_range s) b = Some c"
  by (auto simp: clip_segments_def List.map_filter_def)

subsection \<open>Counting tokens\<close>

lemma splittable_countable: "splittable r \<Longrightarrow> countable_range r"
  by (auto simp: splittable_def countable_range_def i128_max_def)

lemma covers_once_within:
  assumes "covers_once b rs" "r \<in> set rs" "tr_min r \<le> tr_max r"
  shows "contains_range b r"
proof -
  have "contains b t" if "contains r t" for t
    using assms(1,2) that hits_pos_iff [of t rs]
    by (cases "contains b t") (auto simp: covers_once_def)
  from this [of "tr_min r"] this [of "tr_max r"] assms(3) show ?thesis by (simp add: range_simps)
qed

lemma splittable_within: "splittable b \<Longrightarrow> contains_range b r \<Longrightarrow> tr_min r \<le> tr_max r \<Longrightarrow> splittable r"
  by (auto simp: splittable_def wf_range_def range_simps in_i128_def)

lemma sum_contains:
  assumes "contains_range b r" "tr_min r \<le> tr_max r"
  shows "(\<Sum>t = tr_min b..tr_max b. of_bool (contains r t)) = nat (tr_max r - tr_min r + 1)"
proof -
  have "(\<Sum>t = tr_min b..tr_max b. of_bool (contains r t) :: nat) = card ({tr_min b..tr_max b} \<inter> {t. contains r t})"
    by (simp add: sum.If_cases of_bool_def)
  also have "{tr_min b..tr_max b} \<inter> {t. contains r t} = {tr_min r..tr_max r}"
    using assms by (auto simp: range_simps)
  finally show ?thesis by simp
qed

lemma token_total_hits:
  assumes "splittable b" "\<forall>r \<in> set rs. contains_range b r \<and> tr_min r \<le> tr_max r"
  shows "sum_list (map token_count rs) = (\<Sum>t = tr_min b..tr_max b. hits t rs)"
  using assms(2)
proof (induction rs)
  case (Cons r rs)
  have "splittable r" using assms(1) Cons.prems splittable_within by simp
  then have "int (token_count r) = tr_max r - tr_min r + 1"
    by (intro token_count_exact splittable_countable)
  then have "token_count r = (\<Sum>t = tr_min b..tr_max b. of_bool (contains r t))"
    using sum_contains [of b r] Cons.prems by simp
  with Cons show ?case by (simp add: sum.distrib)
qed simp

lemma token_total:
  assumes "splittable b" "covers_once b rs" "\<forall>r \<in> set rs. tr_min r \<le> tr_max r"
  shows "sum_list (map token_count rs) = token_count b"
proof -
  have "sum_list (map token_count rs) = (\<Sum>t = tr_min b..tr_max b. hits t rs)"
    using assms covers_once_within by (intro token_total_hits) auto
  also have "\<dots> = (\<Sum>t = tr_min b..tr_max b. hits t [b])"
    using assms(2) by (intro sum.cong) (simp_all add: covers_once_def)
  also have "\<dots> = sum_list (map token_count [b])"
    using assms(1) by (intro token_total_hits [symmetric])
      (auto simp: splittable_def wf_range_def range_simps)
  finally show ?thesis by simp
qed

lemma token_count_le: "token_count r \<le> u128_max"
  by (simp add: token_count_def)

subsection \<open>The strategies\<close>

lemma split_ring_coverage: "effective_coverage c = 100 \<Longrightarrow> split_ring r n c = split_ring r n 100"
  by (simp add: split_ring_def effective_coverage_def [of 100])

lemma plan_fixed_ok:
  assumes "splittable b" "0 < ps_num_parts st" "ps_num_parts st \<le> MAX_PLANNED_RANGES"
    "effective_coverage (ps_coverage_percent st) = 100"
  shows "\<exists>ps. plan_fixed st b = Inr ps \<and> covers_once b (ranges_of ps)
           \<and> (\<forall>p \<in> set ps. wf_range (pr_range p) \<and> splittable (pr_range p))"
proof -
  obtain rs where rs: "split_ring b (ps_num_parts st) 100 = Inr rs"
    using ring_split.split_total assms(1-3) by blast
  then have c: "covers_once b rs" and w: "\<forall>r \<in> set rs. wf_range r"
    using ring_split.split_once ring_split.split_wf assms(1-3) by blast+
  have "\<forall>r \<in> set rs. splittable r"
    using w c covers_once_within splittable_within assms(1) by (auto simp: wf_range_def)
  with rs c w show ?thesis
    using split_ring_coverage [OF assms(4)] by (auto simp: plan_fixed_def)
qed

text \<open>
  What \<open>ClusterTopology::ring\<close> promises, restricted to the segment planned: the owned ranges are
  intervals and hold every token of the segment exactly once.
\<close>

definition valid_ring :: "token_range \<Rightarrow> ring_segment list \<Rightarrow> bool" where
  "valid_ring b segs \<longleftrightarrow> (\<forall>s \<in> set segs. tr_min (seg_range s) \<le> tr_max (seg_range s))
     \<and> (\<forall>t. contains b t \<longrightarrow> hits t (map seg_range segs) = 1)"

lemma clip_segments_covers:
  assumes "valid_ring b segs" "tr_min b \<le> tr_max b"
  shows "covers_once b (map fst (clip_segments segs b))"
  using assms clip_segments_hits [of segs b] by (simp add: covers_once_def valid_ring_def)

lemma clip_segments_facts:
  assumes "valid_ring b segs" "splittable b"
  shows "clip_segments segs b \<noteq> []"
    "\<And>c reps. (c, reps) \<in> set (clip_segments segs b) \<Longrightarrow> splittable c"
    "total_tokens (clip_segments segs b) = token_count b"
proof -
  have b: "tr_min b \<le> tr_max b" using assms(2) by (simp add: splittable_def wf_range_def)
  have cov: "covers_once b (map fst (clip_segments segs b))" using assms(1) b by (rule clip_segments_covers)
  have "hits (tr_min b) (map fst (clip_segments segs b)) = 1"
    using cov b by (simp add: covers_once_def contains_def)
  then show "clip_segments segs b \<noteq> []" by auto
  have w: "splittable c \<and> tr_min c \<le> tr_max c" if "(c, reps) \<in> set (clip_segments segs b)" for c reps
    using clip_segments_member [OF that] clip_within splittable_within assms(2) by blast
  then show "\<And>c reps. (c, reps) \<in> set (clip_segments segs b) \<Longrightarrow> splittable c" by blast
  have "sum_list (map token_count (map fst (clip_segments segs b))) = token_count b"
    using assms(2) cov w by (intro token_total) auto
  moreover have "token_count b < 2 ^ 128" using token_count_le [of b] by (simp add: u128_max_def)
  ultimately show "total_tokens (clip_segments segs b) = token_count b"
    by (simp add: total_tokens_def case_prod_unfold comp_def)
qed

lemma segment_parts_le:
  assumes "w \<le> T" "n \<le> MAX_PLANNED_RANGES"
  shows "0 < segment_parts n w T" "segment_parts n w T \<le> MAX_PLANNED_RANGES"
proof -
  have "sat_mul u128_max n w div max T 1 \<le> n * w div max T 1"
    by (intro div_le_mono) (simp add: sat_mul_def)
  also have "\<dots> \<le> n * max T 1 div max T 1"
    using assms(1) by (intro div_le_mono mult_le_mono) auto
  also have "\<dots> = n" by simp
  finally have "sat_mul u128_max n w div max T 1 \<le> n" .
  with assms(2) show "segment_parts n w T \<le> MAX_PLANNED_RANGES"
    by (auto simp: segment_parts_def Let_def clamp_to_def MAX_PLANNED_RANGES_def)
  show "0 < segment_parts n w T" by (simp add: segment_parts_def Let_def)
qed

lemma routed_simps [simp]:
  "pr_range (routed reps r) = r" "pr_replicas (routed reps r) = reps" "pr_range \<circ> routed reps = id"
  by (simp_all add: routed_def fun_eq_iff)

text \<open>One clipped segment: its part count is admissible, and its pieces cover it exactly once.\<close>

definition segment_pieces ::
  "u64 \<Rightarrow> u128 \<Rightarrow> token_range \<times> string list \<Rightarrow> planned_range list result" where
  "segment_pieces n T x = (case x of (r, reps) \<Rightarrow>
     bindR (split_ring r (segment_parts n (token_count r) T) 100) (\<lambda>pieces. Inr (map (routed reps) pieces)))"

lemma clipped_segment_ok:
  assumes "valid_ring b segs" "splittable b" "n \<le> MAX_PLANNED_RANGES"
    "(r, reps) \<in> set (clip_segments segs b)"
  defines "k \<equiv> segment_parts n (token_count r) (token_count b)"
  shows "splittable r \<and> 0 < k \<and> k \<le> MAX_PLANNED_RANGES"
proof -
  let ?cl = "clip_segments segs b"
  have "token_count r \<le> sum_list (map token_count (map fst ?cl))"
    using member_le_sum [OF assms(4), of "\<lambda>x. token_count (fst x)"] by (simp add: comp_def)
  also have "\<dots> = token_count b"
    using assms(1,2) clip_segments_covers clip_segments_member clip_within
    by (intro token_total) (fastforce simp: splittable_def wf_range_def)+
  finally show ?thesis
    using segment_parts_le assms(3) clip_segments_facts(2) [OF assms(1,2,4)] k_def by simp
qed

lemma segment_pieces_ok:
  assumes "splittable r \<and> 0 < k \<and> k \<le> MAX_PLANNED_RANGES" "k = segment_parts n (token_count r) T"
  shows "\<exists>g. segment_pieces n T (r, reps) = Inr g
      \<and> (\<forall>t. hits t (ranges_of g) = of_bool (contains r t))
      \<and> (\<forall>p \<in> set g. pr_replicas p = reps \<and> contains_range r (pr_range p))"
proof -
  obtain ps where ps: "split_ring r k 100 = Inr ps" using ring_split.split_total assms(1) by blast
  then have c: "covers_once r ps" "\<forall>p \<in> set ps. wf_range p"
    using ring_split.split_once ring_split.split_wf assms(1) by blast+
  have "segment_pieces n T (r, reps) = Inr (map (routed reps) ps)"
    using ps assms(2) by (simp add: segment_pieces_def)
  then show ?thesis using c covers_once_within by (auto simp: covers_once_def wf_range_def)
qed

lemma ring_aware_groups:
  assumes "valid_ring b segs" "splittable b" "n \<le> MAX_PLANNED_RANGES"
  shows "\<exists>gs. collectR (segment_pieces n (token_count b)) (clip_segments segs b) = Inr gs
           \<and> list_all2 (\<lambda>r g. \<forall>t. hits t (ranges_of g) = of_bool (contains r t))
               (map fst (clip_segments segs b)) gs
           \<and> (\<forall>p \<in> set (concat gs). \<exists>s \<in> set segs.
                pr_replicas p = seg_replicas s \<and> contains_range (seg_range s) (pr_range p))"
proof -
  let ?cl = "clip_segments segs b" and ?f = "segment_pieces n (token_count b)"
  have piece: "\<exists>g. ?f x = Inr g \<and> (\<forall>t. hits t (ranges_of g) = of_bool (contains (fst x) t))
      \<and> (\<forall>p \<in> set g. pr_replicas p = snd x \<and> contains_range (fst x) (pr_range p))"
    if "x \<in> set ?cl" for x
    using segment_pieces_ok [OF clipped_segment_ok [OF assms, of "fst x" "snd x"] refl, of "snd x"] that
    by simp
  obtain gs where gs: "collectR ?f ?cl = Inr gs" using collectR_total [of ?cl ?f] piece by blast
  then have rel: "list_all2 (\<lambda>x g. ?f x = Inr g) ?cl gs" by (simp add: collectR_Inr_iff)
  have "list_all2 (\<lambda>r g. \<forall>t. hits t (ranges_of g) = of_bool (contains r t)) (map fst ?cl) gs"
    unfolding list_all2_map1 by (rule list.rel_mono_strong [OF rel]) (use piece in fastforce)
  moreover have "\<exists>s \<in> set segs. pr_replicas p = seg_replicas s \<and> contains_range (seg_range s) (pr_range p)"
    if p: "p \<in> set (concat gs)" for p
  proof -
    obtain g where g: "g \<in> set gs" "p \<in> set g" using p by auto
    obtain x where x: "x \<in> set ?cl" "?f x = Inr g" using list_all2_memberD2 [OF rel g(1)] by blast
    have "pr_replicas p = snd x" "contains_range (fst x) (pr_range p)"
      using piece [OF x(1)] x(2) g(2) by auto
    moreover obtain s where "s \<in> set segs" "seg_replicas s = snd x" "contains_range (seg_range s) (fst x)"
      using clip_segments_member [of "fst x" "snd x" segs b] clip_within x(1) by auto
    ultimately show ?thesis by (intro bexI [of _ s]) (auto simp: contains_range_def)
  qed
  ultimately show ?thesis using gs by blast
qed

lemma plan_ring_aware_ok:
  assumes "valid_ring b segs" "splittable b" "ps_num_parts st \<le> MAX_PLANNED_RANGES"
    "effective_coverage (ps_coverage_percent st) = 100" "topo_ring topo = Inr segs"
  shows "\<exists>ps. plan_ring_aware st b (Some topo) = Inr ps \<and> covers_once b (ranges_of ps)
           \<and> (\<forall>p \<in> set ps. \<exists>s \<in> set segs.
                pr_replicas p = seg_replicas s \<and> contains_range (seg_range s) (pr_range p))"
proof -
  have b: "tr_min b \<le> tr_max b" using assms(2) by (simp add: splittable_def wf_range_def)
  have ne: "clip_segments segs b \<noteq> []" using assms(1,2) by (rule clip_segments_facts)
  then have "segs \<noteq> []" by (auto simp: clip_segments_def map_filter_simps)
  obtain gs where gs: "collectR (segment_pieces (ps_num_parts st) (token_count b))
        (clip_segments segs b) = Inr gs"
    and cov: "list_all2 (\<lambda>r g. \<forall>t. hits t (ranges_of g) = of_bool (contains r t))
        (map fst (clip_segments segs b)) gs"
    and within: "\<forall>p \<in> set (concat gs). \<exists>s \<in> set segs.
                pr_replicas p = seg_replicas s \<and> contains_range (seg_range s) (pr_range p)"
    using ring_aware_groups [OF assms(1-3)] by blast
  have "plan_ring_aware st b (Some topo) = Inr (concat gs)"
    using gs ne \<open>segs \<noteq> []\<close> assms(5) split_ring_coverage [OF assms(4)]
      clip_segments_facts(3) [OF assms(1,2)]
    by (simp add: plan_ring_aware_def Let_def segment_pieces_def [abs_def])
  moreover have "hits t (ranges_of (concat gs)) = hits t (map fst (clip_segments segs b))" for t
    using hits_concat_groups [of "map fst (clip_segments segs b)" "map ranges_of gs"] cov
    by (simp add: map_concat list_all2_map2)
  then have "covers_once b (ranges_of (concat gs))"
    using clip_segments_covers [OF assms(1) b] by (simp add: covers_once_def)
  ultimately show ?thesis using within by blast
qed

lemma plan_adaptive_ok:
  assumes "splittable b" "0 < ps_num_parts st" "ps_num_parts st \<le> MAX_PLANNED_RANGES"
    "effective_coverage (ps_coverage_percent st) = 100"
    "\<And>tbl. \<exists>es. topo_size_estimates topo tbl = Inr es"
  shows "\<exists>ps. plan_adaptive st b (Some topo) = Inr ps \<and> covers_once b (ranges_of ps)"
proof -
  obtain base where base: "plan_fixed st b = Inr base" "covers_once b (ranges_of base)"
      "\<forall>p \<in> set base. wf_range (pr_range p) \<and> splittable (pr_range p)"
    using plan_fixed_ok [OF assms(1-4)] by blast
  show ?thesis
  proof (cases "ps_max_rows_per_range st = 0 \<or> ps_table st = None")
    case True
    then show ?thesis using base by (auto simp: plan_adaptive_def split: option.split)
  next
    case False
    then obtain tbl where tbl: "ps_table st = Some tbl" by blast
    obtain es where es: "topo_size_estimates topo tbl = Inr es" using assms(5) by blast
    let ?k = "\<lambda>p. adaptive_factor (ps_max_rows_per_range st) es (pr_range p)"
    let ?f = "\<lambda>p. if ?k p = 1 then Inr [p]
        else bindR (split_range (pr_range p) (?k p)) (\<lambda>pieces. Inr (map (routed (pr_replicas p)) pieces))"
    have piece: "\<exists>g. ?f p = Inr g \<and> (\<forall>t. hits t (ranges_of g) = of_bool (contains (pr_range p) t))"
      if "p \<in> set base" for p
    proof -
      have ok: "countable_range (pr_range p) \<and> 0 < ?k p"
        using base(3) that splittable_countable by (auto simp: adaptive_factor_def)
      then obtain ps where "split_range (pr_range p) (?k p) = Inr ps" "covers_once (pr_range p) ps"
        using even_split.split_total even_split.split_once by blast
      then show ?thesis by (auto simp: covers_once_def)
    qed
    then obtain gs where gs: "collectR ?f base = Inr gs" using collectR_total [of base ?f] by meson
    then have "list_all2 (\<lambda>p g. ?f p = Inr g) base gs" by (simp add: collectR_Inr_iff)
    then have "list_all2 (\<lambda>p g. \<forall>t. hits t (ranges_of g) = of_bool (contains (pr_range p) t)) base gs"
      using piece by (smt (verit, best) list_all2_conv_all_nth nth_mem sum.inject(2))
    then have "hits t (ranges_of (concat gs)) = hits t (ranges_of base)" for t
      using hits_concat_groups [of "ranges_of base" "map ranges_of gs" t]
      by (simp add: map_concat list_all2_map1 list_all2_map2)
    then have "covers_once b (ranges_of (concat gs))" using base(2) by (simp add: covers_once_def)
    moreover have "plan_adaptive st b (Some topo) = Inr (if es = [] then base else concat gs)"
      using False tbl es base(1) gs by (simp add: plan_adaptive_def Let_def)
    ultimately show ?thesis using base(2) by (cases "es = []") auto
  qed
qed

subsection \<open>Properties\<close>

text \<open>
  Claim C1. At full coverage every strategy plans the whole segment and nothing else: whenever the
  bounds resolve, the part count is admissible and the cluster answers as its interface promises,
  \<open>plan\<close> succeeds, and the shuffled work list holds every token of the segment in exactly one range.
\<close>

theorem plan_covers:
  assumes "resolve_bounds (ps_partitioner st) (ps_token_min st) (ps_token_max st) = Inr b"
    and "splittable b" and "0 < ps_num_parts st" and "ps_num_parts st \<le> MAX_PLANNED_RANGES"
    and "effective_coverage (ps_coverage_percent st) = 100"
    and "case ps_strategy st of
           Fixed \<Rightarrow> True
         | RingAware \<Rightarrow> \<exists>t segs. topology = Some t \<and> topo_ring t = Inr segs \<and> valid_ring b segs
         | Adaptive \<Rightarrow> \<exists>t. topology = Some t \<and> (\<forall>tbl. \<exists>es. topo_size_estimates t tbl = Inr es)"
  shows "\<exists>p. plan st run topology = Inr p \<and> tp_bounds p = b \<and> tp_run_id p = run
             \<and> covers_once b (token_ranges p)"
proof -
  have "\<exists>ps. (case ps_strategy st of
              Fixed \<Rightarrow> plan_fixed st b
            | RingAware \<Rightarrow> plan_ring_aware st b topology
            | Adaptive \<Rightarrow> plan_adaptive st b topology) = Inr ps \<and> covers_once b (ranges_of ps)"
    using assms(6) plan_fixed_ok [OF assms(2-5)] plan_ring_aware_ok [OF _ assms(2,4,5)]
      plan_adaptive_ok [OF assms(2-5)]
    by (cases "ps_strategy st") (simp, blast, force, force)
  then obtain ps where ps: "(case ps_strategy st of
              Fixed \<Rightarrow> plan_fixed st b
            | RingAware \<Rightarrow> plan_ring_aware st b topology
            | Adaptive \<Rightarrow> plan_adaptive st b topology) = Inr ps" "covers_once b (ranges_of ps)" by blast
  have "\<not> (needs_topology (ps_strategy st) \<and> topology = None)"
    using assms(6) by (cases "ps_strategy st") (auto simp: needs_topology_def)
  then show ?thesis
    using ps assms(1) by (auto simp: plan_def token_ranges_def covers_once_def)
qed

theorem plan_covers_witness:
  "\<exists>p. plan (new_settings Murmur3) (RunId 4096) None = Inr p \<and> covers_once MURMUR3_FULL (token_ranges p)"
proof -
  have r: "resolve_bounds Murmur3 None None = Inr MURMUR3_FULL"
    by (simp add: resolve_bounds_def full_ring_def MURMUR3_FULL_def contains_def width_defs)
  have s: "splittable MURMUR3_FULL"
    by (simp add: splittable_def MURMUR3_FULL_def wf_range_def in_i128_def width_defs)
  show ?thesis
    using plan_covers [of "new_settings Murmur3" MURMUR3_FULL None "RunId 4096"] r s
    by (auto simp: new_settings_def MAX_PLANNED_RANGES_def effective_coverage_def)
qed

text \<open>
  The ring-aware strategy never lets a range straddle a replica boundary: every planned
  range lies inside one ring segment and carries that segment's replicas.
\<close>

theorem ring_aware_respects_ownership:
  assumes "valid_ring b segs" and "splittable b" and "ps_num_parts st \<le> MAX_PLANNED_RANGES"
    and "effective_coverage (ps_coverage_percent st) = 100" and "topo_ring t = Inr segs"
  shows "\<exists>ps. plan_ring_aware st b (Some t) = Inr ps
      \<and> (\<forall>p \<in> set ps. \<exists>s \<in> set segs. pr_replicas p = seg_replicas s \<and> contains_range (seg_range s) (pr_range p))"
  using plan_ring_aware_ok [OF assms] by blast

definition two_segments :: "ring_segment list" where
  "two_segments = [\<lparr> seg_range = TokenRange 0 49, seg_replicas = [''a''] \<rparr>,
                   \<lparr> seg_range = TokenRange 50 99, seg_replicas = [''b''] \<rparr>]"

lemma two_segments_valid: "valid_ring (TokenRange 0 99) two_segments"
  by (auto simp: valid_ring_def two_segments_def contains_def)

theorem ring_aware_respects_ownership_witness:
  "\<exists>ps. plan_ring_aware (new_settings Murmur3) (TokenRange 0 99)
          (Some (in_memory_topology_impl ((new_in_memory Murmur3)\<lparr>im_ring := two_segments\<rparr>))) = Inr ps
      \<and> (\<forall>p \<in> set ps. \<exists>s \<in> set two_segments.
           pr_replicas p = seg_replicas s \<and> contains_range (seg_range s) (pr_range p))"
proof -
  have "splittable (TokenRange 0 99)"
    by (simp add: splittable_def wf_range_def in_i128_def width_defs)
  moreover have "topo_ring (in_memory_topology_impl ((new_in_memory Murmur3)\<lparr>im_ring := two_segments\<rparr>))
      = Inr two_segments"
    by (simp add: in_memory_topology_impl_def new_in_memory_def)
  moreover have "ps_num_parts (new_settings Murmur3) \<le> MAX_PLANNED_RANGES"
    "effective_coverage (ps_coverage_percent (new_settings Murmur3)) = 100"
    by (simp_all add: new_settings_def MAX_PLANNED_RANGES_def effective_coverage_def)
  ultimately show ?thesis using ring_aware_respects_ownership [OF two_segments_valid] by blast
qed

text \<open>
  A resumed work list of intervals is admitted if and only if it is not empty, within the
  ceiling, and no token lies in two of its ranges: checking neighbours of the sorted list is enough
  to find any overlap. An admitted plan keeps the caller's ranges in the caller's order.
\<close>

theorem from_ranges_admits:
  assumes "\<forall>r \<in> set rs. tr_min r \<le> tr_max r"
  shows "((\<exists>p. from_ranges run pt resumed rs = Inr p)
            \<longleftrightarrow> rs \<noteq> [] \<and> length rs \<le> MAX_PLANNED_RANGES \<and> (\<forall>t. hits t rs \<le> 1))
       \<and> (\<forall>p. from_ranges run pt resumed rs = Inr p \<longrightarrow>
            token_ranges p = rs \<and> tp_resumed_from p = resumed \<and> tp_coverage_percent p = 100)"
proof -
  have "rs \<noteq> [] \<and> length rs \<le> MAX_PLANNED_RANGES \<and> (\<forall>t. hits t rs \<le> 1)"
    if ok: "from_ranges run pt resumed rs = Inr p" for p
  proof -
    have "rs \<noteq> []" using ok by (auto simp: from_ranges_def)
    then obtain r rs' where rs: "rs = r # rs'" by (cases rs) auto
    have len: "\<not> clamp_to u64_max (length rs) > MAX_PLANNED_RANGES"
      and fo: "first_overlap (sort rs) = None"
      using ok rs by (auto simp: from_ranges_def split: if_splits option.splits)
    have "length rs \<le> MAX_PLANNED_RANGES"
      using len by (auto simp: clamp_to_def MAX_PLANNED_RANGES_def u64_max_def split: if_splits)
    moreover have "\<forall>t. hits t rs \<le> 1"
      using fo assms first_overlap_None [of "sort rs"] hits_mset [of "sort rs" rs] by simp
    ultimately show ?thesis using \<open>rs \<noteq> []\<close> by blast
  qed
  then show ?thesis using from_ranges_ok [OF _ _ assms, of run pt resumed] by fastforce
qed

theorem from_ranges_admits_witness:
  "(\<exists>p. from_ranges (RunId 9) Murmur3 None [TokenRange 5 9, TokenRange 0 4] = Inr p
        \<and> token_ranges p = [TokenRange 5 9, TokenRange 0 4])
   \<and> \<not> (\<exists>p. from_ranges (RunId 9) Murmur3 None [TokenRange 0 5, TokenRange 5 9] = Inr p)"
proof -
  have "\<forall>t. hits t [TokenRange 5 9, TokenRange 0 4] \<le> 1" by (auto simp: contains_def)
  moreover have "\<not> (\<forall>t. hits t [TokenRange 0 5, TokenRange 5 9] \<le> 1)"
    by (rule notI, drule spec [of _ 5]) (simp add: contains_def)
  ultimately show ?thesis
    using from_ranges_admits [of "[TokenRange 5 9, TokenRange 0 4]" "RunId 9" Murmur3 None]
      from_ranges_admits [of "[TokenRange 0 5, TokenRange 5 9]" "RunId 9" Murmur3 None]
    by (simp add: MAX_PLANNED_RANGES_def) blast
qed

text \<open>
  Subdividing the pending ranges of a rerun keeps the work: every token is covered exactly
  as often as before. The splitter's ceiling applies to the multiplier too: above it the call fails.
\<close>

theorem subdivide_keeps_tokens:
  assumes "\<forall>r \<in> set rs. splittable r"
  shows "(m \<le> MAX_PLANNED_RANGES \<longrightarrow>
            (\<exists>out. subdivide_for_rerun rs m run = Inr out \<and> (\<forall>t. hits t out = hits t rs)))
       \<and> (rs \<noteq> [] \<and> MAX_PLANNED_RANGES < m \<longrightarrow>
            (\<exists>e. subdivide_for_rerun rs m run = Inl e \<and> error_kind_of e = Config))"
proof (intro conjI impI)
  assume m: "m \<le> MAX_PLANNED_RANGES"
  let ?f = "\<lambda>r. bindR (split_ring r m 100) (\<lambda>pieces. Inr (shuffle_for_run pieces run))"
  show "\<exists>out. subdivide_for_rerun rs m run = Inr out \<and> (\<forall>t. hits t out = hits t rs)"
  proof (cases "m \<le> 1")
    case False
    then have ok: "splittable r \<and> 0 < m \<and> m \<le> MAX_PLANNED_RANGES" if "r \<in> set rs" for r
      using assms m that by auto
    have "\<exists>ps. ?f r = Inr ps" if "r \<in> set rs" for r
      using ring_split.split_total [OF ok [OF that]] by auto
    then obtain gs where gs: "collectR ?f rs = Inr gs" using collectR_total [of rs ?f] by blast
    then have rel: "list_all2 (\<lambda>r g. ?f r = Inr g) rs gs" by (simp add: collectR_Inr_iff)
    have "list_all2 (\<lambda>r g. \<exists>n ps. (splittable r \<and> 0 < n \<and> n \<le> MAX_PLANNED_RANGES)
            \<and> split_ring r n 100 = Inr ps \<and> mset g = mset ps) rs gs"
    proof (rule list.rel_mono_strong [OF rel])
      fix r g assume "r \<in> set rs" "?f r = Inr g"
      then obtain ps where "split_ring r m 100 = Inr ps" "g = shuffle_for_run ps run"
        by (auto simp: bindR_Inr_iff)
      with ok [OF \<open>r \<in> set rs\<close>] show "\<exists>n ps. (splittable r \<and> 0 < n \<and> n \<le> MAX_PLANNED_RANGES)
            \<and> split_ring r n 100 = Inr ps \<and> mset g = mset ps"
        by (intro exI [of _ m] exI [of _ ps]) simp
    qed
    then have "hits t (concat gs) = hits t rs" for t by (rule ring_split.subdivide_hits)
    with gs False show ?thesis by (simp add: subdivide_for_rerun_def)
  qed (simp add: subdivide_for_rerun_def)
next
  assume "rs \<noteq> [] \<and> MAX_PLANNED_RANGES < m"
  then show "\<exists>e. subdivide_for_rerun rs m run = Inl e \<and> error_kind_of e = Config"
    by (cases rs) (auto simp: subdivide_for_rerun_def split_ring_def num_parts_error_def MAX_PLANNED_RANGES_def)
qed

theorem subdivide_keeps_tokens_witness:
  "\<exists>out. subdivide_for_rerun [TokenRange 0 999999, TokenRange 2000000 2999999] 4 (RunId 7) = Inr out
       \<and> (\<forall>t. hits t out = hits t [TokenRange 0 999999, TokenRange 2000000 2999999])"
proof -
  have s: "\<forall>r \<in> set [TokenRange 0 999999, TokenRange 2000000 2999999]. splittable r"
    by (simp add: splittable_def wf_range_def in_i128_def width_defs)
  have "4 \<le> MAX_PLANNED_RANGES" by (simp add: MAX_PLANNED_RANGES_def)
  with subdivide_keeps_tokens [OF s, of 4 "RunId 7"] show ?thesis by blast
qed

lemma segment_parts_random: "segment_parts n w (2 ^ 127) = 1"
proof -
  have "sat_mul u128_max n w div 2 ^ 127 \<le> u128_max div 2 ^ 127" by (intro div_le_mono) simp
  also have "\<dots> \<le> 1" by (simp add: u128_max_def)
  finally show ?thesis
    by (simp add: segment_parts_def Let_def clamp_to_def u64_max_def max_def)
qed

lemma split_ring_one: "splittable r \<Longrightarrow> split_ring r 1 100 = Inr [r]"
proof -
  assume "splittable r"
  then obtain rs where rs: "split_ring r 1 100 = Inr rs" "tiles (tr_min r) (tr_max r) rs" "length rs \<le> 1"
    using split_ring_full [of r 1 100] by (auto simp: effective_coverage_def MAX_PLANNED_RANGES_def)
  moreover have "tr_min r \<le> tr_max r" using \<open>splittable r\<close> by (simp add: splittable_def wf_range_def)
  ultimately have "rs = [r]" by (cases rs) (auto intro: token_range.expand)
  with rs show ?thesis by simp
qed

text \<open>
  On the full \<open>RandomPartitioner\<close> ring the ring-aware strategy ignores
  \<open>perfops.num_parts\<close>: the product of the part count and a segment's width saturates at
  \<open>u128::MAX\<close> before it is divided by the \<open>2 ^ 127\<close> tokens of the ring, so each segment is given a
  single part and the plan has exactly one range per segment, whatever number was configured.
\<close>

theorem ring_aware_random_one_range_per_segment:
  assumes "valid_ring RANDOM_FULL segs" and "ps_num_parts st \<le> MAX_PLANNED_RANGES"
    and "effective_coverage (ps_coverage_percent st) = 100" and "topo_ring t = Inr segs"
  shows "plan_ring_aware st RANDOM_FULL (Some t)
       = Inr (map (\<lambda>(r, reps). routed reps r) (clip_segments segs RANDOM_FULL))"
proof -
  have sp: "splittable RANDOM_FULL"
    by (simp add: splittable_def RANDOM_FULL_def wf_range_def in_i128_def width_defs)
  have cnt: "token_count RANDOM_FULL = 2 ^ 127"
    using token_count_exact [OF splittable_countable [OF sp]] by (simp add: RANDOM_FULL_def i128_max_def)
  let ?cl = "clip_segments segs RANDOM_FULL"
  have ne: "?cl \<noteq> []" and tot: "total_tokens ?cl = 2 ^ 127"
    using clip_segments_facts [OF assms(1) sp] cnt by simp_all
  then have "segs \<noteq> []" by (auto simp: clip_segments_def map_filter_simps)
  have one: "split_ring r 1 (ps_coverage_percent st) = Inr [r]" if "(r, reps) \<in> set ?cl" for r reps
    using split_ring_one clip_segments_facts(2) [OF assms(1) sp that] split_ring_coverage [OF assms(3)] by simp
  let ?f = "\<lambda>(r, reps). bindR (split_ring r (segment_parts (ps_num_parts st) (token_count r) (2 ^ 127))
              (ps_coverage_percent st)) (\<lambda>pieces. Inr (map (routed reps) pieces))"
  have "collectR ?f cl = Inr (map (\<lambda>(r, reps). [routed reps r]) cl)" if "set cl \<subseteq> set ?cl" for cl
    using that by (induction cl) (auto simp: segment_parts_random [simplified] one [simplified])
  then have "collectR ?f ?cl = Inr (map (\<lambda>(r, reps). [routed reps r]) ?cl)" by blast
  moreover have "concat (map (\<lambda>(r, reps). [routed reps r]) xs) = map (\<lambda>(r, reps). routed reps r) xs" for xs
    by (induction xs) auto
  ultimately show ?thesis
    using assms(4) ne \<open>segs \<noteq> []\<close> tot by (simp add: plan_ring_aware_def Let_def)
qed

theorem ring_aware_random_one_range_per_segment_witness:
  "plan_ring_aware ((new_settings Random)\<lparr>ps_num_parts := 5000\<rparr>) RANDOM_FULL
     (Some (in_memory_topology_impl (with_segment \<lparr> seg_range = RANDOM_FULL, seg_replicas = [''n1''] \<rparr>
        (new_in_memory Random)))) = Inr [routed [''n1''] RANDOM_FULL]"
proof -
  let ?s = "\<lparr> seg_range = RANDOM_FULL, seg_replicas = [''n1''] \<rparr>"
  have v: "valid_ring RANDOM_FULL [?s]" by (simp add: valid_ring_def RANDOM_FULL_def i128_max_def)
  have c: "clip_segments [?s] RANDOM_FULL = [(RANDOM_FULL, [''n1''])]"
    by (simp add: clip_segments_def map_filter_simps clip_def RANDOM_FULL_def intersects_def i128_max_def)
  show ?thesis
    using ring_aware_random_one_range_per_segment [OF v, of "(new_settings Random)\<lparr>ps_num_parts := 5000\<rparr>"
        "in_memory_topology_impl (with_segment ?s (new_in_memory Random))"] c
    by (simp add: new_settings_def MAX_PLANNED_RANGES_def effective_coverage_def
        in_memory_topology_impl_def with_segment_def new_in_memory_def)
qed

text \<open>
  The same saturation blinds the adaptive strategy on that ring: an estimate that covers
  the whole \<open>RandomPartitioner\<close> ring is read as at most one row, however many partitions it reports,
  so no range is ever subdivided because of it.
\<close>

theorem adaptive_random_ignores_estimate:
  "estimated_rows_in r [\<lparr> est_range = RANDOM_FULL, est_partitions_count = n, est_mean_partition_size = m \<rparr>] 0 \<le> 1
   \<and> adaptive_factor (Suc k) [\<lparr> est_range = RANDOM_FULL, est_partitions_count = n, est_mean_partition_size = m \<rparr>] r = 1"
proof -
  have sp: "splittable RANDOM_FULL"
    by (simp add: splittable_def RANDOM_FULL_def wf_range_def in_i128_def width_defs)
  have cnt: "token_count RANDOM_FULL = 2 ^ 127"
    using token_count_exact [OF splittable_countable [OF sp]] by (simp add: RANDOM_FULL_def i128_max_def)
  have q: "sat_mul u128_max n w div 2 ^ 127 \<le> 1" for w
  proof -
    have "sat_mul u128_max n w div 2 ^ 127 \<le> u128_max div 2 ^ 127" by (intro div_le_mono) simp
    then show ?thesis by (simp add: u128_max_def)
  qed
  have rows: "estimated_rows_in r [\<lparr> est_range = RANDOM_FULL, est_partitions_count = n, est_mean_partition_size = m \<rparr>] 0 \<le> 1"
    using q by (auto simp: cnt Let_def sat_add_def min_le_iff_disj split: option.split)
  then have "div_ceil (estimated_rows_in r [\<lparr> est_range = RANDOM_FULL, est_partitions_count = n, est_mean_partition_size = m \<rparr>] 0) (Suc k) \<le> 1"
    using div_ceil_bounds(2) [of "Suc k" "estimated_rows_in r [\<lparr> est_range = RANDOM_FULL, est_partitions_count = n, est_mean_partition_size = m \<rparr>] 0"]
    by (auto simp: div_ceil_def le_Suc_eq)
  then show ?thesis using rows by (auto simp: adaptive_factor_def clamp_to_def max_def)
qed

end
