(* ===== verification/Sched_Pacing.thy ===== *)
theory Sched_Pacing
  imports Core_Model
begin

text \<open>
  What bounds a run's throughput: \<open>crates/cdm-engine/src/scheduler/ratelimit.rs\<close> (the GCRA token
  bucket), \<open>adaptive.rs\<close> (the AIMD controller over the target rate), \<open>limits.rs\<close> (the two limiters,
  the controller and the in-flight semaphores of a run) and the settings of \<open>settings.rs\<close> they are
  built from.

  Time is an argument, as it is in the code's pure cores: picoseconds since the limiter was built for
  \<open>reserve\<close>, nanoseconds since the controller was built for \<open>roll\<close>. An object behind a mutex is a
  record that each operation returns updated; a list of calls in lock order stands for any
  interleaving of callers, because each operation runs under its lock from the first read of the
  state to the last write.
\<close>

subsection \<open>Scheduler settings\<close>

record scheduler_settings =
  ss_workers :: u32
  ss_node_id :: string
  ss_origin_rows_per_second :: u32
  ss_target_rows_per_second :: u32
  ss_max_inflight_reads :: u32
  ss_max_inflight_writes :: u32
  ss_fetch_size :: u32
  ss_error_limit :: u64
  ss_shutdown_grace_nanos :: u128
  ss_adaptive_ratelimit :: bool
  ss_adaptive_ratelimit_min_percent :: u8
  ss_ratelimit_is_global :: bool
  ss_java_thread_label :: bool
  ss_handle_signals :: bool

definition default_settings :: scheduler_settings where
  "default_settings = \<lparr>
     ss_workers = 1,
     ss_node_id = ''local'',
     ss_origin_rows_per_second = 20000,
     ss_target_rows_per_second = 20000,
     ss_max_inflight_reads = 256,
     ss_max_inflight_writes = 2000,
     ss_fetch_size = 1000,
     ss_error_limit = 0,
     ss_shutdown_grace_nanos = 60 * 1000000000,
     ss_adaptive_ratelimit = False,
     ss_adaptive_ratelimit_min_percent = 10,
     ss_ratelimit_is_global = False,
     ss_java_thread_label = True,
     ss_handle_signals = False \<rparr>"

definition with_workers :: "u32 \<Rightarrow> scheduler_settings \<Rightarrow> scheduler_settings" where
  "with_workers w s = s\<lparr>ss_workers := (if w = 0 then 1 else w)\<rparr>"

definition divide_limit :: "u32 \<Rightarrow> u32 \<Rightarrow> u32" where
  "divide_limit limit nodes =
     (if limit = 0 then 0
      else let share = limit div nodes in if share = 0 then 1 else share)"

definition divided_across_nodes :: "u32 \<Rightarrow> scheduler_settings \<Rightarrow> scheduler_settings" where
  "divided_across_nodes live_nodes s =
     (let nodes = (if live_nodes = 0 then 1 else live_nodes)
      in s\<lparr>ss_origin_rows_per_second := divide_limit (ss_origin_rows_per_second s) nodes,
            ss_target_rows_per_second := divide_limit (ss_target_rows_per_second s) nodes\<rparr>)"

subsection \<open>The rate limiter\<close>

definition PICOS_PER_SECOND :: u128 where "PICOS_PER_SECOND = 1000000000000"
definition PICOS_PER_NANO :: u128 where "PICOS_PER_NANO = 1000"

record rate_limiter =
  rl_rows_per_second :: u32
  rl_burst_picos :: u128
  rl_tat :: u128

definition new_limiter :: "u32 \<Rightarrow> rate_limiter" where
  "new_limiter rate = \<lparr>rl_rows_per_second = rate, rl_burst_picos = PICOS_PER_SECOND, rl_tat = 0\<rparr>"

definition set_rows_per_second :: "u32 \<Rightarrow> rate_limiter \<Rightarrow> rate_limiter" where
  "set_rows_per_second rate l = l\<lparr>rl_rows_per_second := rate\<rparr>"

definition is_unlimited :: "rate_limiter \<Rightarrow> bool" where
  "is_unlimited l \<longleftrightarrow> rl_rows_per_second l = 0"

definition burst_rows :: "rate_limiter \<Rightarrow> u32" where
  "burst_rows l = rl_rows_per_second l"

definition reserve :: "rate_limiter \<Rightarrow> u32 \<Rightarrow> u128 \<Rightarrow> rate_limiter \<times> u128" where
  "reserve l rows now_picos =
     (let rate = rl_rows_per_second l in
      if rate = 0 \<or> rows = 0 then (l, 0)
      else let picos_per_row = PICOS_PER_SECOND div rate;
               cost = sat_mul u128_max picos_per_row rows;
               due = sat_add u128_max (max (rl_tat l) now_picos) cost
           in (l\<lparr>rl_tat := due\<rparr>, due - rl_burst_picos l - now_picos))"

text \<open>\<open>Duration::from_nanos\<close> of the rounded-up delay; a duration is its number of nanoseconds.\<close>

definition picos_to_duration :: "u128 \<Rightarrow> u64" where
  "picos_to_duration picos = clamp_to u64_max (div_ceil picos PICOS_PER_NANO)"

definition acquire :: "rate_limiter \<Rightarrow> u32 \<Rightarrow> u128 \<Rightarrow> rate_limiter \<times> u64" where
  "acquire l rows elapsed_nanos =
     (let (l', delay) = reserve l rows (elapsed_nanos * PICOS_PER_NANO)
      in (l', if delay = 0 then 0 else picos_to_duration delay))"

subsection \<open>The adaptive controller\<close>

definition CONTROL_WINDOW_NANOS :: u128 where "CONTROL_WINDOW_NANOS = 1000000000"
definition INCREASE_PERCENT_OF_CEILING :: u32 where "INCREASE_PERCENT_OF_CEILING = 5"
definition DECREASE_DIVISOR :: u32 where "DECREASE_DIVISOR = 2"
definition MAX_CATCHUP_WINDOWS :: u128 where "MAX_CATCHUP_WINDOWS = 600"

datatype load_signal = SignalOk | Overload

record aimd_state =
  as_effective :: u32
  as_window_start :: u128
  as_overloaded :: bool

record adaptive_controller =
  ac_ceiling :: u32
  ac_floor :: u32
  ac_step :: u32
  ac_window_nanos :: u128
  ac_state :: aimd_state

definition floor_for :: "u32 \<Rightarrow> u8 \<Rightarrow> u32" where
  "floor_for ceiling min_percent =
     (if ceiling = 0 then 0
      else let percent = min min_percent 100;
               fl = sat_mul u64_max ceiling percent div 100
           in max 1 (min (clamp_to u32_max fl) ceiling))"

definition step_for :: "u32 \<Rightarrow> u32" where
  "step_for ceiling =
     (if ceiling = 0 then 0
      else max (sat_mul u32_max (ceiling div 100) INCREASE_PERCENT_OF_CEILING) 1)"

definition new_controller :: "u32 \<Rightarrow> u8 \<Rightarrow> adaptive_controller" where
  "new_controller ceiling min_percent = \<lparr>
     ac_ceiling = ceiling,
     ac_floor = floor_for ceiling min_percent,
     ac_step = step_for ceiling,
     ac_window_nanos = CONTROL_WINDOW_NANOS,
     ac_state = \<lparr>as_effective = ceiling, as_window_start = 0, as_overloaded = False\<rparr> \<rparr>"

definition is_active :: "adaptive_controller \<Rightarrow> bool" where
  "is_active c \<longleftrightarrow> ac_ceiling c > 0"

definition current_rate :: "adaptive_controller \<Rightarrow> u32" where
  "current_rate c = as_effective (ac_state c)"

definition decrease :: "adaptive_controller \<Rightarrow> u32 \<Rightarrow> u32" where
  "decrease c r = max (r div DECREASE_DIVISOR) (ac_floor c)"

definition increase :: "adaptive_controller \<Rightarrow> u32 \<Rightarrow> u32" where
  "increase c r = min (sat_add u32_max r (ac_step c)) (ac_ceiling c)"

definition increase_by :: "adaptive_controller \<Rightarrow> u32 \<Rightarrow> u32 \<Rightarrow> u32" where
  "increase_by c r n_times =
     min (sat_add u32_max r (sat_mul u32_max (ac_step c) n_times)) (ac_ceiling c)"

definition roll ::
  "adaptive_controller \<Rightarrow> load_signal option \<Rightarrow> u128 \<Rightarrow> adaptive_controller \<times> u32 option" where
  "roll c signal now_nanos =
     (if \<not> is_active c then (c, None)
      else let st = ac_state c;
               elapsed = now_nanos - as_window_start st
           in if elapsed < ac_window_nanos c
              then (c\<lparr>ac_state := st\<lparr>as_overloaded := as_overloaded st \<or> signal = Some Overload\<rparr>\<rparr>, None)
              else let windows = min (elapsed div ac_window_nanos c) MAX_CATCHUP_WINDOWS;
                       before = as_effective st;
                       first = (if as_overloaded st then decrease c before else increase c before);
                       quiet = clamp_to u32_max (windows - 1);
                       new = increase_by c first quiet;
                       start = (if windows \<ge> MAX_CATCHUP_WINDOWS then now_nanos
                                else sat_add u128_max (as_window_start st)
                                       (sat_mul u128_max windows (ac_window_nanos c)))
                   in (c\<lparr>ac_state := \<lparr>as_effective = new, as_window_start = start,
                                       as_overloaded = (signal = Some Overload)\<rparr>\<rparr>,
                       if new \<noteq> before then Some new else None))"

definition observe_at :: "adaptive_controller \<Rightarrow> load_signal \<Rightarrow> u128 \<Rightarrow> adaptive_controller \<times> u32 option" where
  "observe_at c signal now_nanos = roll c (Some signal) now_nanos"

definition tick_at :: "adaptive_controller \<Rightarrow> u128 \<Rightarrow> adaptive_controller \<times> u32 option" where
  "tick_at c now_nanos = roll c None now_nanos"

subsection \<open>The limits of a run\<close>

text \<open>
  \<open>tokio::sync::Semaphore\<close> is outside the repository. A semaphore is the number of permits it has
  left; its largest capacity, \<open>Semaphore::MAX_PERMITS\<close>, is the parameter \<open>max_permits\<close>.
\<close>

record runtime_limits =
  lim_origin_rate :: rate_limiter
  lim_target_rate :: rate_limiter
  lim_adaptive :: "adaptive_controller option"
  lim_reads :: usize
  lim_writes :: usize

definition check_permits :: "usize \<Rightarrow> string \<Rightarrow> usize \<Rightarrow> usize result" where
  "check_permits max_permits setting permits =
     (if permits = 0
      then Inl (with_context (with_config_key setting)
             (new_error Config (setting @ '' must be at least 1; a bound of 0 would stall every worker'')))
      else if permits > max_permits
      then Inl (with_context (with_config_key setting)
             (new_error Config (setting @ '' must not exceed '' @ show_nat max_permits
                @ '', the runtime's maximum'')))
      else Inr permits)"

definition new_limits :: "usize \<Rightarrow> scheduler_settings \<Rightarrow> runtime_limits result" where
  "new_limits max_permits s =
     (let adaptive = (if ss_adaptive_ratelimit s
                      then Some (new_controller (ss_target_rows_per_second s)
                                  (ss_adaptive_ratelimit_min_percent s))
                      else None)
      in bindR (check_permits max_permits ''perfops.max_inflight_reads'' (ss_max_inflight_reads s)) (\<lambda>reads.
         bindR (check_permits max_permits ''perfops.max_inflight_writes'' (ss_max_inflight_writes s)) (\<lambda>writes.
         Inr \<lparr>lim_origin_rate = new_limiter (ss_origin_rows_per_second s),
              lim_target_rate = new_limiter (ss_target_rows_per_second s),
              lim_adaptive = adaptive,
              lim_reads = reads,
              lim_writes = writes\<rparr>)))"

definition record_target_signal :: "runtime_limits \<Rightarrow> load_signal \<Rightarrow> u128 \<Rightarrow> runtime_limits" where
  "record_target_signal lim signal now_nanos =
     (case lim_adaptive lim of
        None \<Rightarrow> lim
      | Some c \<Rightarrow>
          let (c', decided) = observe_at c signal now_nanos;
              lim' = lim\<lparr>lim_adaptive := Some c'\<rparr>
          in case decided of
               None \<Rightarrow> lim'
             | Some r \<Rightarrow> lim'\<lparr>lim_target_rate := set_rows_per_second r (lim_target_rate lim')\<rparr>)"

definition acquire_read_rows :: "runtime_limits \<Rightarrow> u32 \<Rightarrow> u128 \<Rightarrow> runtime_limits \<times> u64" where
  "acquire_read_rows lim rows elapsed =
     (let (l, waited) = acquire (lim_origin_rate lim) rows elapsed
      in (lim\<lparr>lim_origin_rate := l\<rparr>, waited))"

definition acquire_write_rows :: "runtime_limits \<Rightarrow> u32 \<Rightarrow> u128 \<Rightarrow> runtime_limits \<times> u64" where
  "acquire_write_rows lim rows elapsed =
     (let (l, waited) = acquire (lim_target_rate lim) rows elapsed
      in (lim\<lparr>lim_target_rate := l\<rparr>, waited))"

subsection \<open>Pacing: the limiter is a token bucket\<close>

text \<open>
  The virtual time a request costs, and the instant its caller is let through. \<open>admissions\<close> runs a list
  of requests, each a row count and the caller's clock, through the limiter in lock order.
\<close>

definition request_cost :: "u32 \<Rightarrow> u32 \<Rightarrow> u128" where
  "request_cost rps rows = (PICOS_PER_SECOND div rps) * rows"

fun admissions :: "rate_limiter \<Rightarrow> (u32 \<times> u128) list \<Rightarrow> u128 list" where
  "admissions l [] = []"
| "admissions l ((rows, now_picos) # rs) =
     (let (l', delay) = reserve l rows now_picos in (now_picos + delay) # admissions l' rs)"

text \<open>The specification: a bucket that refills with time up to one burst and may go into debt.\<close>

definition bucket_level :: "rate_limiter \<Rightarrow> u128 \<Rightarrow> int" where
  "bucket_level l now_picos = int (rl_burst_picos l) - int (rl_tat l - now_picos)"

lemma reserve_cases:
  assumes "0 < rl_rows_per_second l" "0 < rows"
    and "max (rl_tat l) now_picos + request_cost (rl_rows_per_second l) rows \<le> u128_max"
  shows "reserve l rows now_picos =
    (l\<lparr>rl_tat := max (rl_tat l) now_picos + request_cost (rl_rows_per_second l) rows\<rparr>,
     max (rl_tat l) now_picos + request_cost (rl_rows_per_second l) rows - rl_burst_picos l - now_picos)"
proof -
  have "sat_mul u128_max (PICOS_PER_SECOND div rl_rows_per_second l) rows
      = request_cost (rl_rows_per_second l) rows"
    using assms(3) by (simp add: request_cost_def)
  then show ?thesis using assms by (simp add: reserve_def Let_def)
qed

lemma reserve_unlimited: "is_unlimited l \<Longrightarrow> reserve l rows now_picos = (l, 0)"
  by (simp add: reserve_def is_unlimited_def)

lemma admissions_length [simp]: "length (admissions l rs) = length rs"
  by (induction l rs rule: admissions.induct) (simp_all split: prod.splits)

text \<open>
  Between the instant before a request list and the admission of its last request, the whole list is
  paid for out of the elapsed time and one burst; the theoretical arrival time \<open>rl_tat\<close> is the ledger.
\<close>

abbreviation total_cost :: "u32 \<Rightarrow> (u32 \<times> u128) list \<Rightarrow> u128" where
  "total_cost rps rs \<equiv> sum_list (map (\<lambda>r. request_cost rps (fst r)) rs)"

abbreviation fits :: "rate_limiter \<Rightarrow> (u32 \<times> u128) list \<Rightarrow> bool" where
  "fits l rs \<equiv> \<forall>t \<in> insert (rl_tat l) (snd ` set rs). t + total_cost (rl_rows_per_second l) rs \<le> u128_max"

lemma fits_Cons:
  assumes fits: "fits l ((rows, now_picos) # rs)" and pos: "0 < rl_rows_per_second l" "0 < rows"
  obtains l' where
    "reserve l rows now_picos = (l', rl_tat l' - rl_burst_picos l - now_picos)"
    "rl_tat l' = max (rl_tat l) now_picos + request_cost (rl_rows_per_second l) rows"
    "rl_rows_per_second l' = rl_rows_per_second l" "rl_burst_picos l' = rl_burst_picos l" "fits l' rs"
proof -
  let ?c = "request_cost (rl_rows_per_second l) rows"
  let ?l = "l\<lparr>rl_tat := max (rl_tat l) now_picos + ?c\<rparr>"
  have all: "t + ?c + total_cost (rl_rows_per_second l) rs \<le> u128_max"
    if "t = rl_tat l \<or> t = now_picos \<or> t \<in> snd ` set rs" for t
    using fits that by (auto simp: add.assoc)
  have later: "max (rl_tat l) now_picos + ?c + total_cost (rl_rows_per_second l) rs \<le> u128_max"
    using all [of "rl_tat l"] all [of now_picos] by (simp add: max_def)
  then have "max (rl_tat l) now_picos + ?c \<le> u128_max" by linarith
  then have "reserve l rows now_picos = (?l, rl_tat ?l - rl_burst_picos l - now_picos)"
    using pos by (simp add: reserve_cases)
  moreover have "fits ?l rs"
  proof
    fix t assume "t \<in> insert (rl_tat ?l) (snd ` set rs)"
    then consider "t = rl_tat ?l" | "t \<in> snd ` set rs" by blast
    then show "t + total_cost (rl_rows_per_second ?l) rs \<le> u128_max"
    proof cases
      case 2
      with all [of t] show ?thesis by simp
    qed (use later in simp)
  qed
  ultimately show thesis using that [of ?l] by simp
qed

lemma admissions_paid:
  assumes "fits l rs" "0 < rl_rows_per_second l" "\<forall>r \<in> set rs. 0 < fst r" "j < length rs"
  shows "rl_tat l + total_cost (rl_rows_per_second l) (take (Suc j) rs)
           \<le> admissions l rs ! j + rl_burst_picos l"
  using assms
proof (induction rs arbitrary: l j)
  case (Cons r rs)
  obtain rows now_picos where r: "r = (rows, now_picos)" by force
  obtain l' where l': "reserve l rows now_picos = (l', rl_tat l' - rl_burst_picos l - now_picos)"
    "rl_tat l' = max (rl_tat l) now_picos + request_cost (rl_rows_per_second l) rows"
    "rl_rows_per_second l' = rl_rows_per_second l" "rl_burst_picos l' = rl_burst_picos l" "fits l' rs"
    by (rule fits_Cons [of l rows now_picos rs]) (use Cons.prems r in auto)
  show ?case
  proof (cases j)
    case 0
    then show ?thesis using l' r by simp
  next
    case (Suc k)
    then have "rl_tat l' + total_cost (rl_rows_per_second l') (take (Suc k) rs)
        \<le> admissions l' rs ! k + rl_burst_picos l'"
      using Cons.prems l' by (intro Cons.IH) auto
    then show ?thesis using l' r Suc by simp
  qed
qed simp

lemma admissions_spacing:
  assumes "fits l rs" "0 < rl_rows_per_second l" "\<forall>r \<in> set rs. 0 < fst r" "i < j" "j < length rs"
  shows "admissions l rs ! i + total_cost (rl_rows_per_second l) (take (j - i) (drop (Suc i) rs))
           \<le> admissions l rs ! j + rl_burst_picos l"
  using assms
proof (induction rs arbitrary: l i j)
  case (Cons r rs)
  obtain rows now_picos where r: "r = (rows, now_picos)" by force
  obtain l' where l': "reserve l rows now_picos = (l', rl_tat l' - rl_burst_picos l - now_picos)"
    "rl_tat l' = max (rl_tat l) now_picos + request_cost (rl_rows_per_second l) rows"
    "rl_rows_per_second l' = rl_rows_per_second l" "rl_burst_picos l' = rl_burst_picos l" "fits l' rs"
    by (rule fits_Cons [of l rows now_picos rs]) (use Cons.prems r in auto)
  obtain k where j: "j = Suc k" using Cons.prems(4) by (cases j) auto
  show ?case
  proof (cases i)
    case 0
    have "rl_tat l' + total_cost (rl_rows_per_second l') (take (Suc k) rs)
        \<le> admissions l' rs ! k + rl_burst_picos l'"
      using Cons.prems l' j by (intro admissions_paid) auto
    moreover have "admissions l (r # rs) ! 0 \<le> rl_tat l'" using l' r by simp
    ultimately show ?thesis using l' r 0 j by simp
  next
    case (Suc m)
    then have "admissions l' rs ! m + total_cost (rl_rows_per_second l') (take (k - m) (drop (Suc m) rs))
        \<le> admissions l' rs ! k + rl_burst_picos l'"
      using Cons.prems l' j by (intro Cons.IH) auto
    then show ?thesis using l' r Suc j by simp
  qed
qed simp

lemma bucket_refill:
  "now_picos \<le> later \<Longrightarrow>
   bucket_level l later = min (int (rl_burst_picos l)) (bucket_level l now_picos + int (later - now_picos))"
  by (auto simp: bucket_level_def)

text \<open>
  Claim C36. The limiter is a token bucket: a reservation takes its cost out of the bucket's level,
  however far into debt that goes, and the caller waits exactly for the debt to be repaid; as time
  passes the level refills picosecond by picosecond up to one burst.
\<close>

theorem reserve_refines_bucket:
  assumes "0 < rl_rows_per_second l" "0 < rows"
    and "max (rl_tat l) now_picos + request_cost (rl_rows_per_second l) rows \<le> u128_max"
    and "reserve l rows now_picos = (l', delay)"
  shows "int delay = max 0 (int (request_cost (rl_rows_per_second l) rows) - bucket_level l now_picos)
       \<and> bucket_level l' now_picos = bucket_level l now_picos - int (request_cost (rl_rows_per_second l) rows)
       \<and> (\<forall>later. now_picos \<le> later \<longrightarrow> bucket_level l' later
            = min (int (rl_burst_picos l)) (bucket_level l' now_picos + int (later - now_picos)))"
proof -
  have eq: "l' = l\<lparr>rl_tat := max (rl_tat l) now_picos + request_cost (rl_rows_per_second l) rows\<rparr>"
    and d: "delay = max (rl_tat l) now_picos + request_cost (rl_rows_per_second l) rows
              - rl_burst_picos l - now_picos"
    using assms reserve_cases [OF assms(1-3)] by simp_all
  have burst: "rl_burst_picos l' = rl_burst_picos l" by (simp add: eq)
  have "\<forall>later. now_picos \<le> later \<longrightarrow> bucket_level l' later
      = min (int (rl_burst_picos l)) (bucket_level l' now_picos + int (later - now_picos))"
    using bucket_refill [of now_picos _ l'] unfolding burst by blast
  moreover have "int delay = max 0 (int (request_cost (rl_rows_per_second l) rows) - bucket_level l now_picos)"
    by (simp add: d bucket_level_def max_def of_nat_diff)
  moreover have "bucket_level l' now_picos
      = bucket_level l now_picos - int (request_cost (rl_rows_per_second l) rows)"
    by (simp add: eq bucket_level_def max_def of_nat_diff)
  ultimately show ?thesis by blast
qed

theorem reserve_refines_bucket_witness:
  "max 0 (int (request_cost 4 6) - bucket_level (new_limiter 4) 0) = 500000000000
   \<and> snd (reserve (new_limiter 4) 6 0) = 500000000000"
proof -
  obtain l' d where r: "reserve (new_limiter 4) 6 0 = (l', d)" by force
  have "int d = max 0 (int (request_cost 4 6) - bucket_level (new_limiter 4) 0)"
    using reserve_refines_bucket [of "new_limiter 4" 6 0 l' d] r
    by (simp add: new_limiter_def request_cost_def PICOS_PER_SECOND_def u128_max_def)
  moreover have "max 0 (int (request_cost 4 6) - bucket_level (new_limiter 4) 0) = 500000000000"
    by (simp add: new_limiter_def request_cost_def PICOS_PER_SECOND_def bucket_level_def)
  ultimately show ?thesis using r by simp
qed

text \<open>
  The aggregate rate is the configured rate however callers interleave: take any two
  requests of a run, in the order they took the lock, each with any clock reading; the rows admitted
  after the first one up to the second, at \<open>10^12 / rate\<close> picoseconds each, fit in the time
  between the two admissions plus one second of burst. The run must not have lasted long enough to
  saturate the 128-bit clock.
\<close>

theorem aggregate_rate_bound:
  assumes "0 < rps" "\<forall>r \<in> set rs. 0 < fst r"
    and "\<forall>r \<in> set rs. snd r + (PICOS_PER_SECOND div rps) * sum_list (map fst rs) \<le> u128_max"
    and "(PICOS_PER_SECOND div rps) * sum_list (map fst rs) \<le> u128_max"
    and "i < j" "j < length rs"
  shows "admissions (new_limiter rps) rs ! i
           + (PICOS_PER_SECOND div rps) * sum_list (map fst (take (j - i) (drop (Suc i) rs)))
         \<le> admissions (new_limiter rps) rs ! j + PICOS_PER_SECOND"
proof -
  have cost: "total_cost rps xs = (PICOS_PER_SECOND div rps) * sum_list (map fst xs)" for xs
    by (simp add: request_cost_def sum_list_const_mult)
  have "fits (new_limiter rps) rs"
    using assms(3,4) by (auto simp: new_limiter_def cost)
  from admissions_spacing [OF this _ assms(2,5,6)] assms(1)
  show ?thesis by (simp add: new_limiter_def cost)
qed

theorem aggregate_rate_bound_witness:
  "admissions (new_limiter 4) [(4, 0), (4, 7), (2, 3)] ! 0
     + (PICOS_PER_SECOND div 4) * sum_list (map fst (take (2 - 0) (drop (Suc 0) [(4, 0), (4, 7), (2, 3)])))
   \<le> admissions (new_limiter 4) [(4, 0), (4, 7), (2, 3)] ! 2 + PICOS_PER_SECOND"
  using aggregate_rate_bound [of 4 "[(4, 0), (4, 7), (2, 3)]" 0 2]
  by (simp add: PICOS_PER_SECOND_def u128_max_def)

text \<open>Rounding the debt up to nanoseconds never lets a caller through early.\<close>

lemma acquire_waits_out_delay:
  assumes "acquire l rows elapsed = (l', waited)"
    and "reserve l rows (elapsed * PICOS_PER_NANO) = (l'', delay)"
    and "delay \<le> u64_max * PICOS_PER_NANO"
  shows "l'' = l' \<and> delay \<le> waited * PICOS_PER_NANO \<and> waited * PICOS_PER_NANO < delay + PICOS_PER_NANO"
proof -
  have nano: "0 < PICOS_PER_NANO" by (simp add: PICOS_PER_NANO_def)
  have "div_ceil delay PICOS_PER_NANO * PICOS_PER_NANO < delay + PICOS_PER_NANO"
    using div_ceil_bounds(2) [OF nano] .
  also have "\<dots> \<le> (u64_max + 1) * PICOS_PER_NANO" using assms(3) by simp
  finally have "div_ceil delay PICOS_PER_NANO < u64_max + 1" by (simp only: mult_less_cancel2)
  then have "picos_to_duration delay = div_ceil delay PICOS_PER_NANO"
    by (simp add: picos_to_duration_def)
  then show ?thesis
    using assms div_ceil_bounds [OF nano, of delay] nano
    by (auto simp: acquire_def split: if_splits)
qed

subsection \<open>The control law\<close>

text \<open>The invariant of a controller, and its law applied window by window: the reference for \<open>roll\<close>.\<close>

definition wf_controller :: "adaptive_controller \<Rightarrow> bool" where
  "wf_controller c \<longleftrightarrow>
     ac_ceiling c \<le> u32_max \<and> ac_step c = step_for (ac_ceiling c)
     \<and> ac_window_nanos c = CONTROL_WINDOW_NANOS
     \<and> (is_active c \<longrightarrow> 1 \<le> ac_floor c) \<and> ac_floor c \<le> current_rate c
     \<and> current_rate c \<le> ac_ceiling c"

fun aimd_law :: "adaptive_controller \<Rightarrow> bool \<Rightarrow> nat \<Rightarrow> u32 \<Rightarrow> u32" where
  "aimd_law c overloaded 0 r = r"
| "aimd_law c overloaded (Suc n) r =
     aimd_law c False n (if overloaded then decrease c r else increase c r)"

lemma step_for_pos: "0 < ceiling \<Longrightarrow> 0 < step_for ceiling"
  by (simp add: step_for_def)

lemma floor_for_bounds:
  assumes "0 < ceiling" "ceiling \<le> u32_max"
  shows "1 \<le> floor_for ceiling p" "floor_for ceiling p \<le> ceiling"
  using assms by (simp_all add: floor_for_def Let_def)

lemma new_controller_wf: "ceiling \<le> u32_max \<Longrightarrow> wf_controller (new_controller ceiling p)"
  using floor_for_bounds [of ceiling p]
  by (cases "ceiling = 0")
    (auto simp: wf_controller_def new_controller_def is_active_def current_rate_def floor_for_def)

lemma increase_exact:
  "ac_ceiling c \<le> u32_max \<Longrightarrow> increase c r = min (r + ac_step c) (ac_ceiling c)"
  by (auto simp: increase_def sat_add_def)

lemma increase_by_exact:
  "ac_ceiling c \<le> u32_max \<Longrightarrow> increase_by c r n = min (r + ac_step c * n) (ac_ceiling c)"
  by (auto simp: increase_by_def sat_add_def sat_mul_def)

lemma increase_bounds: "ac_ceiling c \<le> u32_max \<Longrightarrow> r \<le> ac_ceiling c \<Longrightarrow> r \<le> increase c r \<and> increase c r \<le> ac_ceiling c"
  by (simp add: increase_exact)

lemma increase_by_bounds:
  "ac_ceiling c \<le> u32_max \<Longrightarrow> r \<le> ac_ceiling c \<Longrightarrow> r \<le> increase_by c r n \<and> increase_by c r n \<le> ac_ceiling c"
  by (simp add: increase_by_exact)

lemma aimd_law_quiet:
  "ac_ceiling c \<le> u32_max \<Longrightarrow> r \<le> ac_ceiling c \<Longrightarrow> aimd_law c False n r = increase_by c r n"
  by (induction n arbitrary: r) (auto simp: increase_exact increase_by_exact)

text \<open>Six hundred quiet windows always reach the ceiling, so the cap on catching up loses nothing.\<close>

lemma catch_up_saturates:
  assumes "MAX_CATCHUP_WINDOWS - 1 \<le> n" "ceiling \<le> u32_max"
  shows "ceiling \<le> step_for ceiling * n"
proof (cases "ceiling < 100")
  case True
  have "1 * ceiling \<le> step_for ceiling * n" if "0 < ceiling"
    using that True assms by (intro mult_mono) (simp_all add: step_for_def MAX_CATCHUP_WINDOWS_def)
  then show ?thesis by (cases "ceiling = 0") auto
next
  case False
  have "ceiling < 100 * (ceiling div 100) + 100" using mult_div_mod_eq [of 100 ceiling]
    by (metis add_less_cancel_left mod_less_divisor zero_less_numeral)
  moreover have "1 \<le> ceiling div 100" using False by (simp add: Suc_le_eq div_greater_zero_iff)
  ultimately have small: "ceiling \<le> 200 * (ceiling div 100)" by linarith
  have "5 * (ceiling div 100) \<le> step_for ceiling" using False assms(2)
    by (simp add: step_for_def sat_mul_def INCREASE_PERCENT_OF_CEILING_def mult.commute u32_max_def)
  then have "5 * (ceiling div 100) * 599 \<le> step_for ceiling * n"
    using assms by (intro mult_mono) (auto simp: MAX_CATCHUP_WINDOWS_def)
  then show ?thesis using small by linarith
qed

text \<open>The case of \<open>roll\<close> that closes a window, in terms of the reference law.\<close>

lemma roll_inside:
  assumes "is_active c" "now_nanos - as_window_start (ac_state c) < ac_window_nanos c"
  shows "snd (roll c sig now_nanos) = None" "current_rate (fst (roll c sig now_nanos)) = current_rate c"
    "as_window_start (ac_state (fst (roll c sig now_nanos))) = as_window_start (ac_state c)"
    "as_overloaded (ac_state (fst (roll c sig now_nanos)))
       = (as_overloaded (ac_state c) \<or> sig = Some Overload)"
  using assms by (simp_all add: roll_def Let_def current_rate_def)

lemma roll_closes:
  assumes wf: "wf_controller c" and "is_active c"
    and el: "ac_window_nanos c \<le> now_nanos - as_window_start (ac_state c)"
  shows "current_rate (fst (roll c sig now_nanos))
       = aimd_law c (as_overloaded (ac_state c))
           ((now_nanos - as_window_start (ac_state c)) div ac_window_nanos c) (current_rate c)"
    and "as_overloaded (ac_state (fst (roll c sig now_nanos))) = (sig = Some Overload)"
proof -
  let ?w = "(now_nanos - as_window_start (ac_state c)) div ac_window_nanos c"
  let ?f = "if as_overloaded (ac_state c) then decrease c (current_rate c) else increase c (current_rate c)"
  have ceil: "ac_ceiling c \<le> u32_max" and W: "0 < ac_window_nanos c"
    using wf by (auto simp: wf_controller_def CONTROL_WINDOW_NANOS_def)
  have f: "?f \<le> ac_ceiling c"
    using wf increase_bounds [OF ceil, of "current_rate c"]
    by (auto simp: wf_controller_def decrease_def DECREASE_DIVISOR_def)
  have w: "1 \<le> ?w" using el W by (simp add: Suc_le_eq div_greater_zero_iff)
  have "increase_by c ?f (clamp_to u32_max (min ?w MAX_CATCHUP_WINDOWS - 1)) = increase_by c ?f (?w - 1)"
  proof (cases "?w \<le> MAX_CATCHUP_WINDOWS")
    case True
    then show ?thesis by (simp add: MAX_CATCHUP_WINDOWS_def u32_max_def)
  next
    case False
    have "ac_ceiling c \<le> ac_step c * n" if "MAX_CATCHUP_WINDOWS - 1 \<le> n" for n
      using catch_up_saturates [OF that ceil] wf by (simp add: wf_controller_def)
    from this [of "MAX_CATCHUP_WINDOWS - 1"] this [of "?w - 1"] False
    show ?thesis using ceil
      by (simp add: increase_by_exact MAX_CATCHUP_WINDOWS_def u32_max_def trans_le_add2)
  qed
  also have "\<dots> = aimd_law c (as_overloaded (ac_state c)) ?w (current_rate c)"
    using w f ceil by (cases ?w) (auto simp: aimd_law_quiet)
  finally show "current_rate (fst (roll c sig now_nanos))
       = aimd_law c (as_overloaded (ac_state c)) ?w (current_rate c)"
    using assms by (cases "as_overloaded (ac_state c)") (simp_all add: roll_def Let_def current_rate_def)
  show "as_overloaded (ac_state (fst (roll c sig now_nanos))) = (sig = Some Overload)"
    using assms by (simp add: roll_def Let_def)
qed

lemma decrease_bounds:
  "wf_controller c \<Longrightarrow> ac_floor c \<le> decrease c (current_rate c) \<and> decrease c (current_rate c) \<le> current_rate c"
  by (auto simp: wf_controller_def decrease_def DECREASE_DIVISOR_def)

lemma aimd_law_bounds:
  assumes "wf_controller c"
  shows "ac_floor c \<le> aimd_law c b n (current_rate c) \<and> aimd_law c b n (current_rate c) \<le> ac_ceiling c"
proof (cases n)
  case (Suc k)
  let ?f = "if b then decrease c (current_rate c) else increase c (current_rate c)"
  have c: "ac_ceiling c \<le> u32_max" using assms by (simp add: wf_controller_def)
  have f: "ac_floor c \<le> ?f" "?f \<le> ac_ceiling c"
    using assms decrease_bounds [OF assms] increase_bounds [OF c, of "current_rate c"]
    by (auto simp: wf_controller_def)
  then show ?thesis using Suc increase_by_bounds [OF c f(2), of k] aimd_law_quiet [OF c f(2), of k]
    by auto
qed (use assms in \<open>simp add: wf_controller_def\<close>)

lemma roll_keeps_fields [simp]:
  "ac_ceiling (fst (roll c sig t)) = ac_ceiling c" "ac_floor (fst (roll c sig t)) = ac_floor c"
  "ac_step (fst (roll c sig t)) = ac_step c" "ac_window_nanos (fst (roll c sig t)) = ac_window_nanos c"
  "is_active (fst (roll c sig t)) = is_active c"
  by (simp_all add: roll_def Let_def is_active_def)

lemma roll_inactive: "\<not> is_active c \<Longrightarrow> roll c sig t = (c, None)"
  by (simp add: roll_def)

lemma roll_decision:
  "snd (roll c sig t) = (if current_rate (fst (roll c sig t)) = current_rate c then None
                         else Some (current_rate (fst (roll c sig t))))"
  by (simp add: roll_def Let_def current_rate_def)

lemma roll_wf:
  assumes "wf_controller c"
  shows "wf_controller (fst (roll c sig t))"
proof -
  have "ac_floor c \<le> current_rate (fst (roll c sig t)) \<and> current_rate (fst (roll c sig t)) \<le> ac_ceiling c"
  proof (cases "is_active c \<and> ac_window_nanos c \<le> t - as_window_start (ac_state c)")
    case True
    then show ?thesis using roll_closes(1) [OF assms] aimd_law_bounds [OF assms] by simp
  next
    case False
    then have "current_rate (fst (roll c sig t)) = current_rate c"
      using roll_inactive roll_inside(2) by (metis fst_conv not_le)
    then show ?thesis using assms by (simp add: wf_controller_def)
  qed
  then show ?thesis using assms by (simp add: wf_controller_def)
qed

lemma roll_window_start:
  assumes wf: "wf_controller c" and t: "as_window_start (ac_state c) \<le> T" "t \<le> T" "T \<le> u128_max"
  shows "as_window_start (ac_state c) \<le> as_window_start (ac_state (fst (roll c sig t)))"
    and "as_window_start (ac_state (fst (roll c sig t))) \<le> T"
    and "current_rate (fst (roll c sig t)) < current_rate c \<Longrightarrow>
         as_window_start (ac_state c) + CONTROL_WINDOW_NANOS
           \<le> as_window_start (ac_state (fst (roll c sig t)))"
proof -
  let ?s = "as_window_start (ac_state c)" let ?W = "ac_window_nanos c"
  have W: "?W = CONTROL_WINDOW_NANOS" "0 < ?W"
    using wf by (simp_all add: wf_controller_def CONTROL_WINDOW_NANOS_def)
  have "(\<not> current_rate (fst (roll c sig t)) < current_rate c
           \<and> as_window_start (ac_state (fst (roll c sig t))) = ?s)
      \<or> (?s + ?W \<le> as_window_start (ac_state (fst (roll c sig t)))
           \<and> as_window_start (ac_state (fst (roll c sig t))) \<le> T)"
  proof (cases "is_active c \<and> ?W \<le> t - ?s")
    case True
    then have st: "?s + ?W \<le> t" using W by linarith
    let ?w = "(t - ?s) div ?W"
    have w: "1 \<le> ?w" "?w * ?W \<le> t - ?s"
      using True W by (simp_all add: Suc_le_eq div_greater_zero_iff)
    have w1: "?W \<le> ?w * ?W" using w(1) by (cases ?w) auto
    show ?thesis
    proof (cases "MAX_CATCHUP_WINDOWS \<le> ?w")
      case big: True
      then show ?thesis using True st t by (simp add: roll_def Let_def)
    next
      case False
      have "?s + ?w * ?W \<le> u128_max" "?w * ?W \<le> u128_max" using w(2) st t by linarith+
      then have "sat_add u128_max ?s (sat_mul u128_max ?w ?W) = ?s + ?w * ?W"
        by (simp only: sat_mul_exact sat_add_exact)
      then have "as_window_start (ac_state (fst (roll c sig t))) = ?s + ?w * ?W"
        using True False by (auto simp: roll_def Let_def min_def)
      then show ?thesis using w w1 st t by linarith
    qed
  next
    case False
    then show ?thesis using roll_inactive roll_inside(2,3) by (metis fst_conv not_le order_less_irrefl)
  qed
  then show "?s \<le> as_window_start (ac_state (fst (roll c sig t)))"
    and "as_window_start (ac_state (fst (roll c sig t))) \<le> T"
    and "current_rate (fst (roll c sig t)) < current_rate c \<Longrightarrow>
         ?s + CONTROL_WINDOW_NANOS \<le> as_window_start (ac_state (fst (roll c sig t)))"
    using t W by auto
qed

text \<open>A run of observations in lock order, the rate after each, and how often it fell.\<close>

fun observe_all :: "adaptive_controller \<Rightarrow> (load_signal \<times> u128) list \<Rightarrow> adaptive_controller" where
  "observe_all c [] = c"
| "observe_all c ((sig, t) # xs) = observe_all (fst (observe_at c sig t)) xs"

fun rate_falls :: "adaptive_controller \<Rightarrow> (load_signal \<times> u128) list \<Rightarrow> nat" where
  "rate_falls c [] = 0"
| "rate_falls c ((sig, t) # xs) =
     (let c' = fst (observe_at c sig t)
      in (if current_rate c' < current_rate c then 1 else 0) + rate_falls c' xs)"

lemma observe_all_wf:
  "wf_controller c \<Longrightarrow> wf_controller (observe_all c xs)
     \<and> ac_floor (observe_all c xs) = ac_floor c \<and> ac_ceiling (observe_all c xs) = ac_ceiling c"
  by (induction c xs rule: observe_all.induct) (simp_all add: observe_at_def roll_wf)

lemma rate_falls_bound:
  assumes "wf_controller c" "as_window_start (ac_state c) \<le> T" "T \<le> u128_max" "\<forall>x \<in> set xs. snd x \<le> T"
  shows "as_window_start (ac_state c) + CONTROL_WINDOW_NANOS * rate_falls c xs \<le> T"
  using assms
proof (induction c xs rule: rate_falls.induct)
  case (2 c sig t xs)
  let ?c = "fst (roll c (Some sig) t)"
  have t: "t \<le> T" using "2.prems" by simp
  note w = roll_window_start [OF "2.prems"(1,2) t "2.prems"(3), of "Some sig"]
  have "as_window_start (ac_state ?c) + CONTROL_WINDOW_NANOS * rate_falls ?c xs \<le> T"
    using "2.IH" "2.prems" w(2) roll_wf by (simp add: observe_at_def)
  then show ?case using w(1,3) by (auto simp: observe_at_def Let_def)
qed simp

text \<open>
  Whatever the target reports and whenever, the adaptive rate stays between its floor (at
  least one row per second) and the configured ceiling; a controller over an unlimited target never
  changes; and the code reports a new rate exactly when the rate changed.
\<close>

theorem adaptive_rate_bounded:
  assumes "ceiling \<le> u32_max"
  shows "let c = observe_all (new_controller ceiling p) xs in
      (0 < ceiling \<longrightarrow> 1 \<le> floor_for ceiling p \<and> floor_for ceiling p \<le> current_rate c)
    \<and> current_rate c \<le> ceiling
    \<and> (ceiling = 0 \<longrightarrow> c = new_controller 0 p)
    \<and> (\<forall>sig t. snd (observe_at c sig t) =
         (if current_rate (fst (observe_at c sig t)) = current_rate c then None
          else Some (current_rate (fst (observe_at c sig t)))))"
proof -
  let ?c = "observe_all (new_controller ceiling p) xs"
  have inv: "wf_controller ?c \<and> ac_floor ?c = floor_for ceiling p \<and> ac_ceiling ?c = ceiling"
    using observe_all_wf [OF new_controller_wf [OF assms]] by (simp add: new_controller_def)
  have "?c = new_controller 0 p" if "ceiling = 0"
  proof -
    have "observe_all (new_controller 0 p) xs = new_controller 0 p" for xs
      by (induction xs) (auto simp: observe_at_def roll_inactive is_active_def new_controller_def)
    then show ?thesis using that by simp
  qed
  then show ?thesis
    using inv floor_for_bounds [of ceiling p] assms roll_decision
    by (auto simp: Let_def wf_controller_def observe_at_def)
qed

theorem adaptive_rate_bounded_witness:
  "let c = observe_all (new_controller 1000 10) [(Overload, 5), (SignalOk, 1000000001)]
   in current_rate c = 500 \<and> 1 \<le> floor_for 1000 10 \<and> floor_for 1000 10 \<le> current_rate c \<and> current_rate c \<le> 1000"
proof -
  have "current_rate (observe_all (new_controller 1000 10) [(Overload, 5), (SignalOk, 1000000001)]) = 500"
    by (simp add: observe_at_def roll_def Let_def new_controller_def is_active_def current_rate_def
        floor_for_def step_for_def sat_mul_def sat_add_def clamp_to_def CONTROL_WINDOW_NANOS_def
        MAX_CATCHUP_WINDOWS_def decrease_def DECREASE_DIVISOR_def increase_by_def width_defs
        INCREASE_PERCENT_OF_CEILING_def)
  then show ?thesis
    using adaptive_rate_bounded [of 1000 10 "[(Overload, 5), (SignalOk, 1000000001)]"]
    by (simp add: Let_def u32_max_def)
qed

text \<open>
  One congestion event costs one halving: in any sequence of observations up to time \<open>T\<close>
  the rate falls at most once per control window of one second, however many overload signals
  arrive.
\<close>

theorem one_fall_per_window:
  assumes "ceiling \<le> u32_max" "T \<le> u128_max" "\<forall>x \<in> set xs. snd x \<le> T"
  shows "rate_falls (new_controller ceiling p) xs \<le> T div CONTROL_WINDOW_NANOS"
proof -
  have "CONTROL_WINDOW_NANOS * rate_falls (new_controller ceiling p) xs \<le> T"
    using rate_falls_bound [OF new_controller_wf [OF assms(1)], of p T xs] assms
    by (simp add: new_controller_def)
  then show ?thesis
    by (simp add: CONTROL_WINDOW_NANOS_def less_eq_div_iff_mult_less_eq mult.commute)
qed

theorem one_fall_per_window_witness:
  "rate_falls (new_controller 1000 10) [(Overload, 5), (Overload, 1000000001), (Overload, 1500000000)] \<le> 1"
  using one_fall_per_window [of 1000 1500000000
      "[(Overload, 5), (Overload, 1000000001), (Overload, 1500000000)]" 10]
  by (simp add: width_defs CONTROL_WINDOW_NANOS_def)

text \<open>
  Catching up in one step is exact: when an observation closes one or more windows, the new
  rate is what the law gives window by window, one halving or increase for the window that saw
  signals and one increase for every quiet one, also beyond the six hundred windows the code caps the
  arithmetic at; inside the open window only the overload flag moves.
\<close>

theorem roll_follows_law:
  assumes "wf_controller c" "is_active c"
  shows "let n = (t - as_window_start (ac_state c)) div CONTROL_WINDOW_NANOS;
             c' = fst (roll c sig t)
         in current_rate c' = aimd_law c (as_overloaded (ac_state c)) n (current_rate c)
          \<and> as_overloaded (ac_state c') = ((n = 0 \<and> as_overloaded (ac_state c)) \<or> sig = Some Overload)"
proof -
  have W: "ac_window_nanos c = CONTROL_WINDOW_NANOS" "0 < CONTROL_WINDOW_NANOS"
    using assms by (simp_all add: wf_controller_def CONTROL_WINDOW_NANOS_def)
  show ?thesis
  proof (cases "CONTROL_WINDOW_NANOS \<le> t - as_window_start (ac_state c)")
    case True
    then have "0 < (t - as_window_start (ac_state c)) div CONTROL_WINDOW_NANOS"
      using W by (simp add: div_greater_zero_iff)
    then show ?thesis using roll_closes [OF assms, of t sig] True W by (simp add: Let_def)
  next
    case False
    then show ?thesis using roll_inside [OF assms(2), of t sig] W by (simp add: Let_def)
  qed
qed

theorem roll_follows_law_witness:
  "current_rate (fst (roll (new_controller 1000 10) None 700000000000))
     = aimd_law (new_controller 1000 10) False 700 1000"
proof -
  have "wf_controller (new_controller 1000 10)" by (rule new_controller_wf) (simp add: width_defs)
  then show ?thesis
    using roll_follows_law [of "new_controller 1000 10" 700000000000 None]
    by (simp add: Let_def CONTROL_WINDOW_NANOS_def new_controller_def is_active_def current_rate_def)
qed

subsection \<open>The limits as a whole\<close>

fun signal_all :: "runtime_limits \<Rightarrow> (load_signal \<times> u128) list \<Rightarrow> runtime_limits" where
  "signal_all lim [] = lim"
| "signal_all lim ((sig, t) # xs) = signal_all (record_target_signal lim sig t) xs"

definition paced_by_controller :: "runtime_limits \<Rightarrow> bool" where
  "paced_by_controller lim \<longleftrightarrow>
     (\<forall>c. lim_adaptive lim = Some c \<longrightarrow>
        wf_controller c \<and> rl_rows_per_second (lim_target_rate lim) = current_rate c)"

lemma record_target_signal_step:
  assumes "paced_by_controller lim"
  shows "paced_by_controller (record_target_signal lim sig t)"
    and "lim_origin_rate (record_target_signal lim sig t) = lim_origin_rate lim"
    and "rl_tat (lim_target_rate (record_target_signal lim sig t)) = rl_tat (lim_target_rate lim)"
    and "lim_adaptive (record_target_signal lim sig t)
           = map_option (\<lambda>c. fst (observe_at c sig t)) (lim_adaptive lim)"
    and "lim_adaptive lim = None \<Longrightarrow> record_target_signal lim sig t = lim"
proof -
  show "paced_by_controller (record_target_signal lim sig t)"
  proof (cases "lim_adaptive lim")
    case (Some c)
    obtain c' d where r: "roll c (Some sig) t = (c', d)" by force
    have "d = (if current_rate c' = current_rate c then None else Some (current_rate c'))"
      using roll_decision [of c "Some sig" t] unfolding r fst_conv snd_conv .
    moreover have "wf_controller c'" "rl_rows_per_second (lim_target_rate lim) = current_rate c"
      using assms Some roll_wf [of c "Some sig" t] r by (auto simp: paced_by_controller_def)
    ultimately show ?thesis
      using Some r by (simp add: paced_by_controller_def record_target_signal_def observe_at_def
          set_rows_per_second_def)
  qed (use assms in \<open>simp add: record_target_signal_def\<close>)
qed (auto simp: record_target_signal_def set_rows_per_second_def observe_at_def Let_def
    split: option.splits prod.splits)

lemma signal_all_paced:
  assumes "paced_by_controller lim"
  shows "paced_by_controller (signal_all lim xs)
    \<and> lim_origin_rate (signal_all lim xs) = lim_origin_rate lim
    \<and> rl_tat (lim_target_rate (signal_all lim xs)) = rl_tat (lim_target_rate lim)
    \<and> lim_adaptive (signal_all lim xs) = map_option (\<lambda>c. observe_all c xs) (lim_adaptive lim)
    \<and> (lim_adaptive lim = None \<longrightarrow> signal_all lim xs = lim)"
  using assms
proof (induction lim xs rule: signal_all.induct)
  case (2 lim sig t xs)
  then show ?case using record_target_signal_step [OF "2.prems", of sig t]
    by (simp add: option.map_comp o_def)
qed (simp add: option.map_ident)

lemma check_permits_iff:
  "check_permits mp s n = Inr k \<longleftrightarrow> k = n \<and> 0 < n \<and> n \<le> mp"
  "check_permits mp s n = Inl e \<Longrightarrow> error_kind_of e = Config \<and> ctx_config_key (error_context_of e) = Some s"
  by (auto simp: check_permits_def with_config_key_def split: if_splits)

text \<open>
  The limits of a run are built exactly when both in-flight bounds are positive and within
  the runtime's maximum. From then on, whatever the target signals, the limiter that paces target
  writes runs at the controller's rate, never above the configured rate and never at zero; the origin
  limiter and every reservation already made are left alone; and without the adaptive switch nothing
  changes at all.
\<close>

theorem limits_follow_controller:
  assumes "ss_target_rows_per_second s \<le> u32_max" "new_limits mp s = Inr lim"
  shows "let lim' = signal_all lim xs in
      lim_origin_rate lim' = new_limiter (ss_origin_rows_per_second s)
    \<and> rl_tat (lim_target_rate lim') = 0
    \<and> rl_rows_per_second (lim_target_rate lim') \<le> ss_target_rows_per_second s
    \<and> (is_unlimited (lim_target_rate lim') \<longleftrightarrow> ss_target_rows_per_second s = 0)
    \<and> (if ss_adaptive_ratelimit s
       then lim_adaptive lim' = Some (observe_all (new_controller (ss_target_rows_per_second s)
                                        (ss_adaptive_ratelimit_min_percent s)) xs)
          \<and> rl_rows_per_second (lim_target_rate lim') = current_rate (the (lim_adaptive lim'))
       else lim' = lim)
    \<and> lim_reads lim = ss_max_inflight_reads s \<and> lim_writes lim = ss_max_inflight_writes s
    \<and> lim_reads lim \<in> {1..mp} \<and> lim_writes lim \<in> {1..mp}"
proof -
  let ?C = "new_controller (ss_target_rows_per_second s) (ss_adaptive_ratelimit_min_percent s)"
  have lim: "lim = \<lparr>lim_origin_rate = new_limiter (ss_origin_rows_per_second s),
      lim_target_rate = new_limiter (ss_target_rows_per_second s),
      lim_adaptive = (if ss_adaptive_ratelimit s then Some ?C else None),
      lim_reads = ss_max_inflight_reads s, lim_writes = ss_max_inflight_writes s\<rparr>"
    and b: "ss_max_inflight_reads s \<in> {1..mp}" "ss_max_inflight_writes s \<in> {1..mp}"
    using assms(2) by (auto simp: new_limits_def Let_def bindR_Inr_iff check_permits_iff(1))
  have "current_rate ?C = ss_target_rows_per_second s"
    by (simp add: new_controller_def current_rate_def)
  then have "paced_by_controller lim"
    using new_controller_wf [OF assms(1)] by (auto simp: lim paced_by_controller_def new_limiter_def)
  note sig = signal_all_paced [OF this, of xs]
  have wf: "wf_controller (observe_all ?C xs)" "ac_ceiling (observe_all ?C xs) = ss_target_rows_per_second s"
    using observe_all_wf [OF new_controller_wf [OF assms(1)]] by (simp_all add: new_controller_def)
  show ?thesis
  proof (cases "ss_adaptive_ratelimit s")
    case True
    then show ?thesis using sig b wf
      by (auto simp: lim Let_def new_limiter_def paced_by_controller_def wf_controller_def
          is_unlimited_def is_active_def)
  next
    case False
    then show ?thesis using sig b by (simp add: lim Let_def new_limiter_def is_unlimited_def)
  qed
qed

theorem limits_follow_controller_witness:
  "\<exists>lim. new_limits 1000000 (default_settings\<lparr>ss_adaptive_ratelimit := True\<rparr>) = Inr lim
     \<and> rl_rows_per_second (lim_target_rate (signal_all lim [(Overload, 1), (SignalOk, 1000000000)])) \<le> 20000"
proof -
  let ?s = "default_settings\<lparr>ss_adaptive_ratelimit := True\<rparr>"
  obtain lim where lim: "new_limits 1000000 ?s = Inr lim"
    by (auto simp: new_limits_def Let_def check_permits_def default_settings_def)
  have "ss_target_rows_per_second ?s \<le> u32_max" by (simp add: default_settings_def u32_max_def)
  from limits_follow_controller [OF this lim, of "[(Overload, 1), (SignalOk, 1000000000)]",
      unfolded Let_def, THEN conjunct2, THEN conjunct2, THEN conjunct1]
  have "rl_rows_per_second (lim_target_rate (signal_all lim [(Overload, 1), (SignalOk, 1000000000)]))
      \<le> ss_target_rows_per_second ?s" .
  moreover have "ss_target_rows_per_second ?s = 20000" by (simp add: default_settings_def)
  ultimately show ?thesis using lim by metis
qed

text \<open>
  Dividing a fleet-wide budget across nodes keeps every limited node moving and never hands
  out more than the budget while there is at least one row per second for every node; an unlimited
  budget stays unlimited.
\<close>

theorem divided_budget:
  assumes "n \<noteq> 0"
  shows "let s' = divided_across_nodes n s in
      (ss_target_rows_per_second s' = 0 \<longleftrightarrow> ss_target_rows_per_second s = 0)
    \<and> (ss_origin_rows_per_second s' = 0 \<longleftrightarrow> ss_origin_rows_per_second s = 0)
    \<and> (n \<le> ss_target_rows_per_second s \<longrightarrow>
         n * ss_target_rows_per_second s' \<le> ss_target_rows_per_second s
         \<and> ss_target_rows_per_second s < n * (ss_target_rows_per_second s' + 1))
    \<and> (n \<le> ss_origin_rows_per_second s \<longrightarrow>
         n * ss_origin_rows_per_second s' \<le> ss_origin_rows_per_second s
         \<and> ss_origin_rows_per_second s < n * (ss_origin_rows_per_second s' + 1))"
proof -
  have "divide_limit l n = 0 \<longleftrightarrow> l = 0" for l by (simp add: divide_limit_def Let_def)
  moreover have "n * divide_limit l n \<le> l \<and> l < n * (divide_limit l n + 1)" if "n \<le> l" for l
  proof -
    have "divide_limit l n = l div n" using that assms by (auto simp: divide_limit_def Let_def div_eq_0_iff)
    then show ?thesis using assms dividend_less_times_div [of n l] by simp
  qed
  ultimately show ?thesis using assms by (simp add: divided_across_nodes_def)
qed

theorem divided_budget_witness:
  "3 * ss_target_rows_per_second (divided_across_nodes 3 default_settings) \<le> 20000"
  using divided_budget [of 3 default_settings] by (simp add: default_settings_def Let_def)

end
