(* ===== verification/Sched_Control.thy ===== *)
theory Sched_Control
  imports Core_Run
begin

text \<open>
  Pause, resume, graceful stop and abort: \<open>crates/cdm-engine/src/scheduler/control.rs\<close>, and the
  delivery of signals in \<open>signal.rs\<close>. A \<open>RunControl\<close> is four shared cells: the pause flag, the two
  cancellation tokens (once cancelled, cancelled for good) and the recorded reason.

  The operations are given twice. As functions on the whole control they are the sequential
  behaviour of one caller. As programs of atomic actions, each touching one cell, they are what
  concurrent callers interleave; \<open>ctl_step\<close> is that interleaving for any number of threads, and
  \<open>run_program_seq\<close> says that a program run without interference is the function.
\<close>

subsection \<open>The operations\<close>

datatype stop_reason = Signal | ErrorLimit | Fatal | Operator

fun reason_run_status :: "stop_reason \<Rightarrow> run_status" where
  "reason_run_status Signal = Interrupted"
| "reason_run_status ErrorLimit = Aborted"
| "reason_run_status Fatal = Aborted"
| "reason_run_status Operator = Aborted"

fun reason_as_str :: "stop_reason \<Rightarrow> string" where
  "reason_as_str Signal = ''signal''"
| "reason_as_str ErrorLimit = ''error limit exceeded''"
| "reason_as_str Fatal = ''a fatal error''"
| "reason_as_str Operator = ''operator request''"

record run_control =
  rc_paused :: bool
  rc_stopping :: bool
  rc_killed :: bool
  rc_reason :: "stop_reason option"

definition new_control :: run_control where
  "new_control = \<lparr>rc_paused = False, rc_stopping = False, rc_killed = False, rc_reason = None\<rparr>"

definition pause :: "run_control \<Rightarrow> run_control" where
  "pause c = (if rc_stopping c then c else c\<lparr>rc_paused := True\<rparr>)"

definition resume :: "run_control \<Rightarrow> run_control" where
  "resume c = c\<lparr>rc_paused := False\<rparr>"

definition stop :: "stop_reason \<Rightarrow> run_control \<Rightarrow> run_control" where
  "stop reason c =
     (let c' = (if rc_reason c = None then c\<lparr>rc_reason := Some reason\<rparr> else c)
      in c'\<lparr>rc_paused := False, rc_stopping := True\<rparr>)"

definition kill :: "run_control \<Rightarrow> run_control" where
  "kill c = (stop Signal c)\<lparr>rc_killed := True\<rparr>"

definition signalled :: "run_control \<Rightarrow> run_control" where
  "signalled c = (if rc_stopping c then kill c else stop Signal c)"

definition grace_expired :: "run_control \<Rightarrow> run_control" where
  "grace_expired c = (if rc_killed c then c else kill c)"

text \<open>\<open>wait_while_paused\<close> returns, now or as soon as it is polled, exactly in these states.\<close>

definition wait_released :: "run_control \<Rightarrow> bool" where
  "wait_released c \<longleftrightarrow> \<not> rc_paused c \<or> rc_stopping c"

text \<open>\<open>listen\<close>: the delivered signals up to the one that kills.\<close>

fun listen :: "nat \<Rightarrow> run_control \<Rightarrow> run_control" where
  "listen 0 c = c"
| "listen (Suc n) c = (let c' = signalled c in if rc_killed c' then c' else listen n c')"

subsection \<open>Atomic actions and their interleaving\<close>

datatype ctl_action =
    APauseCheck | APauseSet | AClearPause | ARecord stop_reason | ACancelStopping | ACancelKilled
  | ASignalCheck

datatype ctl_call = CallPause | CallResume | CallStop stop_reason | CallKill | CallSignalled

definition stop_program :: "stop_reason \<Rightarrow> ctl_action list" where
  "stop_program r = [ARecord r, AClearPause, ACancelStopping]"

definition kill_program :: "ctl_action list" where
  "kill_program = stop_program Signal @ [ACancelKilled]"

fun call_program :: "ctl_call \<Rightarrow> ctl_action list" where
  "call_program CallPause = [APauseCheck]"
| "call_program CallResume = [AClearPause]"
| "call_program (CallStop r) = stop_program r"
| "call_program CallKill = kill_program"
| "call_program CallSignalled = [ASignalCheck]"

text \<open>One action: the control after it, and what the caller goes on with before its remaining actions.\<close>

fun ctl_act :: "ctl_action \<Rightarrow> run_control \<Rightarrow> run_control \<times> ctl_action list" where
  "ctl_act APauseCheck c = (c, if rc_stopping c then [] else [APauseSet])"
| "ctl_act APauseSet c = (c\<lparr>rc_paused := True\<rparr>, [])"
| "ctl_act AClearPause c = (c\<lparr>rc_paused := False\<rparr>, [])"
| "ctl_act (ARecord r) c = ((if rc_reason c = None then c\<lparr>rc_reason := Some r\<rparr> else c), [])"
| "ctl_act ACancelStopping c = (c\<lparr>rc_stopping := True\<rparr>, [])"
| "ctl_act ACancelKilled c = (c\<lparr>rc_killed := True\<rparr>, [])"
| "ctl_act ASignalCheck c = (c, if rc_stopping c then kill_program else stop_program Signal)"

fun call_seq :: "ctl_call \<Rightarrow> run_control \<Rightarrow> run_control" where
  "call_seq CallPause = pause"
| "call_seq CallResume = resume"
| "call_seq (CallStop r) = stop r"
| "call_seq CallKill = kill"
| "call_seq CallSignalled = signalled"

record ctl_state =
  cs_control :: run_control
  cs_threads :: "nat \<Rightarrow> ctl_action list"

inductive ctl_step :: "ctl_state \<Rightarrow> ctl_state \<Rightarrow> bool" where
  ctl_call: "cs_threads s i = [] \<Longrightarrow>
     ctl_step s (s\<lparr>cs_threads := (cs_threads s)(i := call_program call)\<rparr>)"
| ctl_act: "cs_threads s i = a # as \<Longrightarrow> ctl_act a (cs_control s) = (c, rest) \<Longrightarrow>
     ctl_step s (s\<lparr>cs_control := c, cs_threads := (cs_threads s)(i := rest @ as)\<rparr>)"

inductive_cases ctl_stepE: "ctl_step s s'"

definition ctl_init :: ctl_state where
  "ctl_init = \<lparr>cs_control = new_control, cs_threads = (\<lambda>_. [])\<rparr>"

text \<open>One concrete schedule: which thread moves next, and which call it makes when it is idle.\<close>

fun ctl_run :: "(nat \<times> ctl_call) list \<Rightarrow> ctl_state \<Rightarrow> ctl_state" where
  "ctl_run [] s = s"
| "ctl_run ((i, call) # sched) s = ctl_run sched
     (case cs_threads s i of
        [] \<Rightarrow> s\<lparr>cs_threads := (cs_threads s)(i := call_program call)\<rparr>
      | a # as \<Rightarrow> (let (c, rest) = ctl_act a (cs_control s)
                  in s\<lparr>cs_control := c, cs_threads := (cs_threads s)(i := rest @ as)\<rparr>))"

lemma ctl_run_steps: "ctl_step\<^sup>*\<^sup>* s (ctl_run sched s)"
proof (induction sched s rule: ctl_run.induct)
  case (2 i call sched s)
  let ?s = "case cs_threads s i of
        [] \<Rightarrow> s\<lparr>cs_threads := (cs_threads s)(i := call_program call)\<rparr>
      | a # as \<Rightarrow> (let (c, rest) = ctl_act a (cs_control s)
                  in s\<lparr>cs_control := c, cs_threads := (cs_threads s)(i := rest @ as)\<rparr>)"
  have "ctl_step s ?s"
    by (auto split: list.splits prod.splits simp: Let_def intro: ctl_step.intros)
  then show ?case using 2 by (simp add: converse_rtranclp_into_rtranclp)
qed simp

text \<open>A program run to its end with nobody interfering.\<close>

fun run_program :: "nat \<Rightarrow> ctl_action list \<Rightarrow> run_control \<Rightarrow> run_control option" where
  "run_program n [] c = Some c"
| "run_program 0 (a # as) c = None"
| "run_program (Suc n) (a # as) c = (let (c', rest) = ctl_act a c in run_program n (rest @ as) c')"

lemma run_program_seq: "run_program 5 (call_program call) c = Some (call_seq call c)"
  by (cases call)
    (simp_all add: numeral_eq_Suc stop_program_def kill_program_def pause_def resume_def stop_def
      kill_def signalled_def Let_def)

subsection \<open>Invariants of every interleaving\<close>

text \<open>
  Where a caller stands: past recording its reason with the stop still to be signalled, or past
  signalling the stop with the kill still to be signalled.
\<close>

fun is_record :: "ctl_action \<Rightarrow> bool" where
  "is_record (ARecord r) = True"
| "is_record _ = False"

definition owes_stop :: "ctl_action list \<Rightarrow> bool" where
  "owes_stop as \<longleftrightarrow> ACancelStopping \<in> set as \<and> \<not> list_ex is_record as"

definition owes_kill :: "ctl_action list \<Rightarrow> bool" where
  "owes_kill as \<longleftrightarrow> ACancelKilled \<in> set as \<and> ACancelStopping \<notin> set as"

definition ctl_programs :: "ctl_action list set" where
  "ctl_programs = {[], [APauseCheck], [APauseSet], [AClearPause], [ASignalCheck]}
     \<union> (\<Union>r. {stop_program r, [AClearPause, ACancelStopping], [ACancelStopping]})
     \<union> {kill_program, [AClearPause, ACancelStopping, ACancelKilled], [ACancelStopping, ACancelKilled],
        [ACancelKilled]}"

definition ctl_inv :: "ctl_state \<Rightarrow> bool" where
  "ctl_inv s \<longleftrightarrow>
     (rc_killed (cs_control s) \<longrightarrow> rc_stopping (cs_control s))
     \<and> (rc_stopping (cs_control s) \<longrightarrow> rc_reason (cs_control s) \<noteq> None)
     \<and> (\<forall>i. cs_threads s i \<in> ctl_programs
           \<and> (owes_stop (cs_threads s i) \<longrightarrow> rc_reason (cs_control s) \<noteq> None)
           \<and> (owes_kill (cs_threads s i) \<longrightarrow> rc_stopping (cs_control s)))"

lemma call_program_known:
  "call_program call \<in> ctl_programs" "\<not> owes_stop (call_program call)" "\<not> owes_kill (call_program call)"
  by (cases call; auto simp: ctl_programs_def owes_stop_def owes_kill_def stop_program_def kill_program_def)+

lemma ctl_act_monotone:
  assumes "ctl_act a c = (c', rest)"
  shows "rc_reason c = Some r \<Longrightarrow> rc_reason c' = Some r"
    and "rc_stopping c \<Longrightarrow> rc_stopping c'" and "rc_killed c \<Longrightarrow> rc_killed c'"
  using assms by (cases a; auto split: if_splits)+

lemma ctl_program_cases:
  assumes "a # as \<in> ctl_programs"
  obtains "a = APauseCheck" "as = []" | "a = APauseSet" "as = []" | "a = ASignalCheck" "as = []"
  | r where "a = ARecord r" "as = [AClearPause, ACancelStopping]"
  | "a = ARecord Signal" "as = [AClearPause, ACancelStopping, ACancelKilled]"
  | "a = AClearPause" "as = []" | "a = AClearPause" "as = [ACancelStopping]"
  | "a = AClearPause" "as = [ACancelStopping, ACancelKilled]"
  | "a = ACancelStopping" "as = []" | "a = ACancelStopping" "as = [ACancelKilled]"
  | "a = ACancelKilled" "as = []"
  using assms by (auto simp: ctl_programs_def stop_program_def kill_program_def)

lemma ctl_programs_known [simp]:
  "[] \<in> ctl_programs" "[APauseSet] \<in> ctl_programs" "[ACancelStopping] \<in> ctl_programs"
  "[AClearPause, ACancelStopping] \<in> ctl_programs" "[ACancelKilled] \<in> ctl_programs"
  "[AClearPause, ACancelStopping, ACancelKilled] \<in> ctl_programs"
  "[ACancelStopping, ACancelKilled] \<in> ctl_programs"
  "[ARecord r, AClearPause, ACancelStopping] \<in> ctl_programs"
  "[ARecord Signal, AClearPause, ACancelStopping, ACancelKilled] \<in> ctl_programs"
  by (simp_all add: ctl_programs_def stop_program_def kill_program_def)

lemma ctl_act_program:
  assumes "a # as \<in> ctl_programs" "ctl_act a c = (c', rest)"
    and "rc_killed c \<longrightarrow> rc_stopping c" "rc_stopping c \<longrightarrow> rc_reason c \<noteq> None"
    and "owes_stop (a # as) \<longrightarrow> rc_reason c \<noteq> None" "owes_kill (a # as) \<longrightarrow> rc_stopping c"
  shows "rest @ as \<in> ctl_programs
       \<and> (owes_stop (rest @ as) \<longrightarrow> rc_reason c' \<noteq> None) \<and> (owes_kill (rest @ as) \<longrightarrow> rc_stopping c')
       \<and> (rc_killed c' \<longrightarrow> rc_stopping c') \<and> (rc_stopping c' \<longrightarrow> rc_reason c' \<noteq> None)"
  using assms(1)
  by (cases rule: ctl_program_cases)
    (use assms in \<open>auto simp: owes_stop_def owes_kill_def stop_program_def kill_program_def split: if_splits\<close>)

lemma ctl_step_inv: "ctl_step s s' \<Longrightarrow> ctl_inv s \<Longrightarrow> ctl_inv s'"
proof (induction rule: ctl_step.induct)
  case (ctl_call s i call)
  then show ?case using call_program_known [of call] by (auto simp: ctl_inv_def)
next
  case (ctl_act s i a as c rest)
  have thread: "a # as \<in> ctl_programs" "owes_stop (a # as) \<longrightarrow> rc_reason (cs_control s) \<noteq> None"
    "owes_kill (a # as) \<longrightarrow> rc_stopping (cs_control s)"
    using ctl_act by (metis ctl_inv_def)+
  have glob: "rc_killed (cs_control s) \<longrightarrow> rc_stopping (cs_control s)"
    "rc_stopping (cs_control s) \<longrightarrow> rc_reason (cs_control s) \<noteq> None"
    using ctl_act by (simp_all add: ctl_inv_def)
  note act = ctl_act_program [OF thread(1) ctl_act(2) glob thread(2,3)]
  have "rc_reason (cs_control s) \<noteq> None \<Longrightarrow> rc_reason c \<noteq> None"
    "rc_stopping (cs_control s) \<Longrightarrow> rc_stopping c"
    using ctl_act_monotone [OF ctl_act(2)] by auto
  then show ?case using act ctl_act.prems by (auto simp: ctl_inv_def)
qed

lemma ctl_init_inv: "ctl_inv ctl_init"
  by (simp add: ctl_inv_def ctl_init_def new_control_def ctl_programs_def owes_stop_def owes_kill_def)

lemma ctl_reachable_inv: "ctl_step\<^sup>*\<^sup>* ctl_init s \<Longrightarrow> ctl_inv s"
  by (induction rule: rtranclp_induct) (simp_all add: ctl_init_inv ctl_step_inv)

lemma ctl_step_monotone:
  assumes "ctl_step s s'"
  shows "rc_reason (cs_control s) = Some r \<Longrightarrow> rc_reason (cs_control s') = Some r"
    and "rc_stopping (cs_control s) \<Longrightarrow> rc_stopping (cs_control s')"
    and "rc_killed (cs_control s) \<Longrightarrow> rc_killed (cs_control s')"
  using assms ctl_act_monotone by (auto elim!: ctl_stepE)

lemma ctl_steps_monotone:
  assumes "ctl_step\<^sup>*\<^sup>* s s'"
  shows "(rc_reason (cs_control s) = Some r \<longrightarrow> rc_reason (cs_control s') = Some r)
       \<and> (rc_stopping (cs_control s) \<longrightarrow> rc_stopping (cs_control s'))
       \<and> (rc_killed (cs_control s) \<longrightarrow> rc_killed (cs_control s'))"
  using assms by (induction rule: rtranclp_induct) (auto dest: ctl_step_monotone)

text \<open>
  Under every interleaving of pause, resume, stop, kill and signal calls from any number of
  threads: a killed run is stopping, a stopping run has a recorded reason, the first recorded reason is
  the one the run keeps, and neither a stop nor a kill is ever taken back; and once the run is
  stopping, no worker is held by a pause, even when a pause raced with the stop.
\<close>

theorem control_interleavings:
  assumes "ctl_step\<^sup>*\<^sup>* ctl_init s" "ctl_step\<^sup>*\<^sup>* s s'"
  shows "(rc_killed (cs_control s) \<longrightarrow> rc_stopping (cs_control s))
       \<and> (rc_stopping (cs_control s) \<longrightarrow> rc_reason (cs_control s) \<noteq> None \<and> wait_released (cs_control s))
       \<and> (\<forall>r. rc_reason (cs_control s) = Some r \<longrightarrow> rc_reason (cs_control s') = Some r)
       \<and> (rc_stopping (cs_control s) \<longrightarrow> rc_stopping (cs_control s'))
       \<and> (rc_killed (cs_control s) \<longrightarrow> rc_killed (cs_control s'))"
  using ctl_reachable_inv [OF assms(1)] ctl_steps_monotone [OF assms(2)]
  by (auto simp: ctl_inv_def wait_released_def)

theorem control_interleavings_witness:
  "ctl_step\<^sup>*\<^sup>* ctl_init (ctl_run (replicate 4 (0, CallStop ErrorLimit)) ctl_init)
   \<and> rc_reason (cs_control (ctl_run (replicate 8 (1, CallKill)) (ctl_run (replicate 4 (0, CallStop ErrorLimit)) ctl_init)))
       = Some ErrorLimit"
proof -
  let ?s = "ctl_run (replicate 4 (0, CallStop ErrorLimit)) ctl_init"
  have "rc_reason (cs_control ?s) = Some ErrorLimit"
    by (simp add: numeral_eq_Suc ctl_init_def new_control_def stop_program_def)
  then show ?thesis
    using control_interleavings [OF ctl_run_steps ctl_run_steps, of "replicate 4 (0, CallStop ErrorLimit)"
        "replicate 8 (1, CallKill)"] ctl_run_steps
    by blast
qed

text \<open>
  The escalation of signals: from a running control the first signal stops gracefully and
  leaves in-flight work alone, the second aborts and the listener ends; a stop releases a paused run,
  a paused or running one that is stopped reports the reason it was given, a pause after a stop does
  nothing, and a resumed run is exactly as it was before its pause.
\<close>

theorem control_sequential:
  "(\<not> rc_stopping c \<longrightarrow> rc_stopping (listen 1 c) \<and> rc_killed (listen 1 c) = rc_killed c)
 \<and> (rc_killed (listen (Suc (Suc n)) c))
 \<and> (\<not> rc_stopping c \<longrightarrow> \<not> rc_killed c \<longrightarrow> listen (Suc (Suc n)) c = kill (stop Signal c))
 \<and> wait_released (stop r c) \<and> \<not> rc_paused (stop r c)
 \<and> rc_reason (stop r c) = (case rc_reason c of None \<Rightarrow> Some r | Some q \<Rightarrow> Some q)
 \<and> pause (stop r c) = stop r c
 \<and> (\<not> rc_paused c \<longrightarrow> resume (pause c) = c)
 \<and> rc_killed (grace_expired c)"
  by (auto simp: listen.simps Let_def signalled_def kill_def stop_def wait_released_def pause_def
      resume_def grace_expired_def split: option.splits)

theorem control_sequential_witness:
  "listen 2 new_control = kill (stop Signal new_control) \<and> pause (stop Operator new_control) = stop Operator new_control"
  using control_sequential [of new_control 0 Operator]
  by (simp add: numeral_2_eq_2 new_control_def)

text \<open>
  The race the fifth clause of the interleaving theorem is about: a pause checked before a stop and
  set after it leaves a stopping run that reads as paused.
\<close>

lemma pause_can_follow_stop:
  "\<exists>s. ctl_step\<^sup>*\<^sup>* ctl_init s \<and> rc_paused (cs_control s) \<and> rc_stopping (cs_control s)"
proof (intro exI conjI)
  let ?sched = "[(0, CallPause), (0, CallPause)] @ replicate 4 (1, CallStop Operator) @ [(0, CallPause)]"
  show "ctl_step\<^sup>*\<^sup>* ctl_init (ctl_run ?sched ctl_init)" by (rule ctl_run_steps)
  show "rc_paused (cs_control (ctl_run ?sched ctl_init))" "rc_stopping (cs_control (ctl_run ?sched ctl_init))"
    by (simp_all add: numeral_eq_Suc ctl_init_def new_control_def stop_program_def)
qed

end
