(* ===== verification/Metrics_Counters.thy ===== *)
theory Metrics_Counters
  imports Core_Run
begin

text \<open>
  The counters of a job: \<open>crates/cdm-metrics/src/counter.rs\<close> (the thirteen counter kinds and what
  each job registers), \<open>registry.rs\<close> (the two-level registry \<open>JobCounters\<close>) and \<open>report.rs\<close> (the
  Java-format metrics string, the final block and the parser that reads the string back).

  A registry is the job and an array of thirteen units, indexed by \<open>counter_index\<close>. The atomics are
  relaxed and independent, so a registry is a value and every operation returns it updated;
  \<open>fetch_add\<close> wraps at 64 bits. The lemma \<open>counter_unit_modify\<close> says that every kind has its own slot;
  \<open>fold_modify_unit\<close> carries it through the loops over the registered counters, and all later
  reasoning about counters goes through these two.
\<close>

subsection \<open>Counter kinds\<close>

datatype counter_kind =
    CRead | CWrite | CMismatch | CCorrectedMismatch | CMissing | CCorrectedMissing | CValid
  | CSkipped | CLarge | CError | CUnflushed | CPartitionsPassed | CPartitionsFailed

definition COUNTER_COUNT :: usize where "COUNTER_COUNT = 13"

definition counter_kinds_all :: "counter_kind list" where
  "counter_kinds_all =
     [CRead, CWrite, CMismatch, CCorrectedMismatch, CMissing, CCorrectedMissing, CValid, CSkipped,
      CLarge, CError, CUnflushed, CPartitionsPassed, CPartitionsFailed]"

fun counter_as_str :: "counter_kind \<Rightarrow> string" where
  "counter_as_str CRead = ''READ''"
| "counter_as_str CWrite = ''WRITE''"
| "counter_as_str CMismatch = ''MISMATCH''"
| "counter_as_str CCorrectedMismatch = ''CORRECTED_MISMATCH''"
| "counter_as_str CMissing = ''MISSING''"
| "counter_as_str CCorrectedMissing = ''CORRECTED_MISSING''"
| "counter_as_str CValid = ''VALID''"
| "counter_as_str CSkipped = ''SKIPPED''"
| "counter_as_str CLarge = ''LARGE''"
| "counter_as_str CError = ''ERROR''"
| "counter_as_str CUnflushed = ''UNFLUSHED''"
| "counter_as_str CPartitionsPassed = ''PARTITIONS_PASSED''"
| "counter_as_str CPartitionsFailed = ''PARTITIONS_FAILED''"

fun title_case :: "counter_kind \<Rightarrow> string" where
  "title_case CRead = ''Read''"
| "title_case CWrite = ''Write''"
| "title_case CMismatch = ''Mismatch''"
| "title_case CCorrectedMismatch = ''Corrected Mismatch''"
| "title_case CMissing = ''Missing''"
| "title_case CCorrectedMissing = ''Corrected Missing''"
| "title_case CValid = ''Valid''"
| "title_case CSkipped = ''Skipped''"
| "title_case CLarge = ''Large''"
| "title_case CError = ''Error''"
| "title_case CUnflushed = ''Unflushed''"
| "title_case CPartitionsPassed = ''Partitions Passed''"
| "title_case CPartitionsFailed = ''Partitions Failed''"

fun counter_index :: "counter_kind \<Rightarrow> usize" where
  "counter_index CRead = 0"
| "counter_index CWrite = 1"
| "counter_index CMismatch = 2"
| "counter_index CCorrectedMismatch = 3"
| "counter_index CMissing = 4"
| "counter_index CCorrectedMissing = 5"
| "counter_index CValid = 6"
| "counter_index CSkipped = 7"
| "counter_index CLarge = 8"
| "counter_index CError = 9"
| "counter_index CUnflushed = 10"
| "counter_index CPartitionsPassed = 11"
| "counter_index CPartitionsFailed = 12"

definition is_partition_counter :: "counter_kind \<Rightarrow> bool" where
  "is_partition_counter k \<longleftrightarrow> k = CPartitionsPassed \<or> k = CPartitionsFailed"

definition is_registered_for :: "counter_kind \<Rightarrow> job_kind \<Rightarrow> bool" where
  "is_registered_for k job = (case job of
      Migrate \<Rightarrow> k \<in> {CRead, CWrite, CSkipped, CError, CUnflushed, CPartitionsPassed, CPartitionsFailed}
    | Validate \<Rightarrow> k \<in> {CRead, CValid, CMismatch, CCorrectedMismatch, CMissing, CCorrectedMissing,
                      CSkipped, CError, CPartitionsPassed, CPartitionsFailed}
    | Guardrail \<Rightarrow> k \<in> {CRead, CValid, CSkipped, CLarge, CPartitionsPassed, CPartitionsFailed})"

definition counter_from_str :: "string \<Rightarrow> counter_kind result" where
  "counter_from_str s =
     ok_or (List.find (\<lambda>k. eq_ignore_ascii_case (counter_as_str k) s) counter_kinds_all)
       (new_error Internal (''unknown counter `'' @ s @ ''`''))"

fun registered_counters :: "job_kind \<Rightarrow> counter_kind list" where
  "registered_counters Migrate =
     [CRead, CWrite, CSkipped, CError, CUnflushed, CPartitionsPassed, CPartitionsFailed]"
| "registered_counters Validate =
     [CRead, CMismatch, CCorrectedMismatch, CMissing, CCorrectedMissing, CValid, CSkipped, CError,
      CPartitionsPassed, CPartitionsFailed]"
| "registered_counters Guardrail =
     [CRead, CValid, CSkipped, CLarge, CPartitionsPassed, CPartitionsFailed]"

subsection \<open>The registry\<close>

datatype counter_view = Interim | Committed

datatype counter_token = Counter (token_kind: counter_kind) (token_job: job_kind)

record counter_cell =
  cu_interim :: u64
  cu_committed :: u64

definition default_unit :: counter_cell where
  "default_unit = \<lparr>cu_interim = 0, cu_committed = 0\<rparr>"

definition wrap_add_u64 :: "u64 \<Rightarrow> u64 \<Rightarrow> u64" where
  "wrap_add_u64 a b = (a + b) mod 2 ^ 64"

definition unit_increment :: "u64 \<Rightarrow> counter_cell \<Rightarrow> counter_cell" where
  "unit_increment by_n u = u\<lparr>cu_interim := wrap_add_u64 (cu_interim u) by_n\<rparr>"

fun unit_get :: "counter_cell \<Rightarrow> counter_view \<Rightarrow> u64" where
  "unit_get u Interim = cu_interim u"
| "unit_get u Committed = cu_committed u"

definition unit_flush :: "counter_cell \<Rightarrow> counter_cell" where
  "unit_flush u =
     (let interim = cu_interim u; u' = u\<lparr>cu_interim := 0\<rparr>
      in if interim \<noteq> 0 then u'\<lparr>cu_committed := wrap_add_u64 (cu_committed u') interim\<rparr> else u')"

definition unit_reset_interim :: "counter_cell \<Rightarrow> counter_cell" where
  "unit_reset_interim u = u\<lparr>cu_interim := 0\<rparr>"

definition unit_add_committed :: "u64 \<Rightarrow> counter_cell \<Rightarrow> counter_cell" where
  "unit_add_committed by_n u = u\<lparr>cu_committed := wrap_add_u64 (cu_committed u) by_n\<rparr>"

definition unit_clear :: "counter_cell \<Rightarrow> counter_cell" where
  "unit_clear u = u\<lparr>cu_interim := 0, cu_committed := 0\<rparr>"

record job_counters =
  jc_job :: job_kind
  jc_units :: "counter_cell list"

definition new_counters :: "job_kind \<Rightarrow> job_counters" where
  "new_counters job = \<lparr>jc_job = job, jc_units = replicate COUNTER_COUNT default_unit\<rparr>"

definition registered :: "job_counters \<Rightarrow> counter_kind list" where
  "registered c = registered_counters (jc_job c)"

definition is_registered :: "job_counters \<Rightarrow> counter_kind \<Rightarrow> bool" where
  "is_registered c k = is_registered_for k (jc_job c)"

definition counter_unit :: "job_counters \<Rightarrow> counter_kind \<Rightarrow> counter_cell" where
  "counter_unit c k = jc_units c ! counter_index k"

definition modify_unit :: "counter_kind \<Rightarrow> (counter_cell \<Rightarrow> counter_cell) \<Rightarrow> job_counters \<Rightarrow> job_counters" where
  "modify_unit k f c = c\<lparr>jc_units := (jc_units c)[counter_index k := f (counter_unit c k)]\<rparr>"

definition counter_of :: "job_counters \<Rightarrow> counter_kind \<Rightarrow> counter_token result" where
  "counter_of c k =
     (if \<not> is_registered_for k (jc_job c)
      then Inl (new_error Internal
             (''counter '' @ counter_as_str k @ '' is not registered for the '' @ job_as_str (jc_job c)
              @ '' job; it registers '' @ join_strings '', '' (map counter_as_str (registered c))))
      else Inr (Counter k (jc_job c)))"

definition all_counters :: "job_counters \<Rightarrow> counter_token list" where
  "all_counters c = map (\<lambda>k. Counter k (jc_job c)) (registered c)"

definition increment_by :: "counter_token \<Rightarrow> u64 \<Rightarrow> job_counters \<Rightarrow> job_counters" where
  "increment_by t by_n c = modify_unit (token_kind t) (unit_increment by_n) c"

definition increment_one :: "counter_token \<Rightarrow> job_counters \<Rightarrow> job_counters" where
  "increment_one t c = increment_by t 1 c"

definition counter_count :: "job_counters \<Rightarrow> counter_token \<Rightarrow> counter_view \<Rightarrow> u64" where
  "counter_count c t view = unit_get (counter_unit c (token_kind t)) view"

definition count_of :: "job_counters \<Rightarrow> counter_kind \<Rightarrow> counter_view \<Rightarrow> u64" where
  "count_of c k view = (if is_registered c k then unit_get (counter_unit c k) view else 0)"

definition reset_counter :: "counter_token \<Rightarrow> job_counters \<Rightarrow> job_counters" where
  "reset_counter t c = modify_unit (token_kind t) unit_reset_interim c"

definition flush :: "job_counters \<Rightarrow> job_counters" where
  "flush c = fold (\<lambda>k. modify_unit k unit_flush) (registered c) c"

definition add_counters :: "job_counters \<Rightarrow> job_counters \<Rightarrow> job_counters result" where
  "add_counters c other =
     (if jc_job other \<noteq> jc_job c
      then Inl (new_error Internal (''cannot merge '' @ job_as_str (jc_job other) @ '' counters into ''
                  @ job_as_str (jc_job c) @ '' counters''))
      else Inr (fold (\<lambda>k c. let v = unit_get (counter_unit other k) Committed
                           in if v \<noteq> 0 then modify_unit k (unit_add_committed v) c else c)
                     (registered c) c))"

definition counters_is_zero :: "job_counters \<Rightarrow> bool" where
  "counters_is_zero c = list_all (\<lambda>k. unit_get (counter_unit c k) Interim = 0
                                    \<and> unit_get (counter_unit c k) Committed = 0) (registered c)"

definition clear_counters :: "job_counters \<Rightarrow> job_counters" where
  "clear_counters c = fold (\<lambda>k. modify_unit k unit_clear) (registered c) c"

text \<open>The counters of \<open>snapshot\<close>; the run id and the time it also carries are its arguments.\<close>

definition snapshot_counters :: "job_counters \<Rightarrow> (string \<times> u64) list" where
  "snapshot_counters c = map (\<lambda>k. (counter_as_str k, unit_get (counter_unit c k) Committed)) (registered c)"

subsection \<open>Registry laws\<close>

definition unit_ok :: "counter_cell \<Rightarrow> bool" where
  "unit_ok u \<longleftrightarrow> cu_interim u < 2 ^ 64 \<and> cu_committed u < 2 ^ 64"

definition wf_counters :: "job_counters \<Rightarrow> bool" where
  "wf_counters c \<longleftrightarrow> length (jc_units c) = COUNTER_COUNT \<and> list_all unit_ok (jc_units c)"

lemma counter_kinds_all_set [simp]: "k \<in> set counter_kinds_all"
  by (cases k) (simp_all add: counter_kinds_all_def)

lemma counter_index_inj [simp]: "counter_index j = counter_index k \<longleftrightarrow> j = k"
  by (cases j; cases k; simp)

lemma counter_index_bound [simp]: "counter_index k < COUNTER_COUNT"
  by (cases k) (simp_all add: COUNTER_COUNT_def)

lemma registered_is_filter: "registered_counters job = filter (\<lambda>k. is_registered_for k job) counter_kinds_all"
  by (cases job) (simp_all add: is_registered_for_def counter_kinds_all_def)

lemma registered_distinct [simp]: "distinct (registered_counters job)"
  by (cases job) simp_all

lemma set_registered: "k \<in> set (registered_counters job) \<longleftrightarrow> is_registered_for k job"
  by (simp add: registered_is_filter)

lemma modify_unit_fields [simp]:
  "jc_job (modify_unit k f c) = jc_job c" "length (jc_units (modify_unit k f c)) = length (jc_units c)"
  by (simp_all add: modify_unit_def)

lemma counter_unit_modify:
  "length (jc_units c) = COUNTER_COUNT \<Longrightarrow>
   counter_unit (modify_unit k f c) j = (if j = k then f (counter_unit c k) else counter_unit c j)"
  by (simp add: counter_unit_def modify_unit_def nth_list_update)

lemma fold_modify_unit:
  assumes "distinct ks" "length (jc_units c) = COUNTER_COUNT"
  shows "counter_unit (fold (\<lambda>k. modify_unit k (f k)) ks c) j
           = (if j \<in> set ks then f j (counter_unit c j) else counter_unit c j)"
    and "jc_job (fold (\<lambda>k. modify_unit k (f k)) ks c) = jc_job c"
    and "length (jc_units (fold (\<lambda>k. modify_unit k (f k)) ks c)) = COUNTER_COUNT"
  using assms by (induction ks arbitrary: c) (auto simp: counter_unit_modify)

lemma counters_eqI:
  assumes "jc_job c = jc_job d" "length (jc_units c) = COUNTER_COUNT" "length (jc_units d) = COUNTER_COUNT"
    and "\<And>k. counter_unit c k = counter_unit d k"
  shows "c = (d :: job_counters)"
proof -
  have "counter_index ` UNIV = {..< COUNTER_COUNT}"
  proof
    show "{..< COUNTER_COUNT} \<subseteq> range counter_index"
    proof
      fix i assume "i \<in> {..< COUNTER_COUNT}"
      then have "i \<in> set (map counter_index counter_kinds_all)"
        by (simp add: COUNTER_COUNT_def counter_kinds_all_def) presburger
      then show "i \<in> range counter_index" by auto
    qed
  qed auto
  then have "jc_units c ! i = jc_units d ! i" if "i < COUNTER_COUNT" for i
    using assms(4) that by (metis counter_unit_def imageE lessThan_iff)
  then have "jc_units c = jc_units d" using assms(2,3) by (simp add: list_eq_iff_nth_eq)
  then show ?thesis using assms(1) by (cases c; cases d; simp)
qed

lemma wf_new_counters [simp]: "wf_counters (new_counters job)"
  by (simp add: wf_counters_def new_counters_def default_unit_def unit_ok_def list_all_iff)

lemma new_counters_unit [simp]: "counter_unit (new_counters job) k = default_unit"
  by (simp add: counter_unit_def new_counters_def)

lemma new_counters_job [simp]: "jc_job (new_counters job) = job"
  by (simp add: new_counters_def)

lemma unit_flush_simps [simp]:
  "cu_interim (unit_flush u) = 0"
  "cu_committed u < 2 ^ 64 \<Longrightarrow> cu_committed (unit_flush u) = (cu_committed u + cu_interim u) mod 2 ^ 64"
  by (auto simp: unit_flush_def Let_def wrap_add_u64_def)

lemma wf_counters_length [simp]: "wf_counters c \<Longrightarrow> length (jc_units c) = COUNTER_COUNT"
  by (simp add: wf_counters_def)

lemma wf_unit: "wf_counters c \<Longrightarrow> unit_ok (counter_unit c k)"
  using nth_mem [of "counter_index k" "jc_units c"]
  by (simp add: wf_counters_def counter_unit_def list_all_iff)

lemma wf_modify_unit:
  assumes "wf_counters c" "unit_ok (f (counter_unit c k))"
  shows "wf_counters (modify_unit k f c)"
  using assms set_update_subset_insert [of "jc_units c" "counter_index k" "f (counter_unit c k)"]
  by (auto simp: wf_counters_def modify_unit_def list_all_iff)

lemma wf_fold_modify:
  assumes "\<And>k u. unit_ok u \<Longrightarrow> unit_ok (f k u)"
  shows "wf_counters c \<Longrightarrow> wf_counters (fold (\<lambda>k. modify_unit k (f k)) ks c)"
  by (induction ks arbitrary: c) (simp_all add: wf_modify_unit wf_unit assms)

lemma unit_ok_ops [simp]:
  "unit_ok u \<Longrightarrow> unit_ok (unit_flush u)" "unit_ok u \<Longrightarrow> unit_ok (unit_increment n u)"
  "unit_ok u \<Longrightarrow> unit_ok (unit_add_committed n u)" "unit_ok u \<Longrightarrow> unit_ok (unit_reset_interim u)"
  by (simp_all add: unit_ok_def unit_flush_def Let_def unit_increment_def unit_add_committed_def
      unit_reset_interim_def wrap_add_u64_def)

lemma add_counters_Inr:
  "jc_job other = jc_job c \<Longrightarrow> add_counters c other =
     Inr (fold (\<lambda>k. modify_unit k (\<lambda>u. if cu_committed (counter_unit other k) = 0 then u
            else unit_add_committed (cu_committed (counter_unit other k)) u)) (registered c) c)"
proof -
  have "(\<lambda>k c. let v = unit_get (counter_unit other k) Committed
               in if v \<noteq> 0 then modify_unit k (unit_add_committed v) c else c)
      = (\<lambda>k. modify_unit k (\<lambda>u. if cu_committed (counter_unit other k) = 0 then u
            else unit_add_committed (cu_committed (counter_unit other k)) u))"
    by (intro ext) (simp add: modify_unit_def counter_unit_def)
  then show "jc_job other = jc_job c \<Longrightarrow> ?thesis" by (simp add: add_counters_def)
qed

text \<open>How the operations move the two levels of one counter; all that clients use.\<close>

lemma flush_level:
  assumes "wf_counters c"
  shows "jc_job (flush c) = jc_job c" "wf_counters (flush c)"
    "count_of (flush c) k Interim = 0"
    "count_of (flush c) k Committed = (count_of c k Committed + count_of c k Interim) mod 2 ^ 64"
  using assms fold_modify_unit [of "registered c" c "\<lambda>_. unit_flush"] wf_unit [OF assms, of k]
  by (auto simp: flush_def count_of_def is_registered_def registered_def set_registered unit_ok_def
      intro!: wf_fold_modify)

lemma increment_level:
  assumes "wf_counters c" "counter_of c k = Inr t"
  shows "jc_job (increment_by t n c) = jc_job c" "wf_counters (increment_by t n c)"
    "count_of (increment_by t n c) j Committed = count_of c j Committed"
    "count_of (increment_by t n c) j Interim
       = (if j = k then (count_of c k Interim + n) mod 2 ^ 64 else count_of c j Interim)"
  using assms unit_ok_ops(2) [OF wf_unit [OF assms(1), of k], of n]
  by (auto simp: increment_by_def count_of_def is_registered_def counter_of_def counter_unit_modify
      unit_increment_def wrap_add_u64_def intro!: wf_modify_unit split: if_splits)

lemma add_level:
  assumes "wf_counters c" "wf_counters d" "jc_job d = jc_job c"
  obtains c' where "add_counters c d = Inr c'" "jc_job c' = jc_job c" "wf_counters c'"
    "\<And>k. count_of c' k Interim = count_of c k Interim"
    "\<And>k. count_of c' k Committed = (count_of c k Committed + count_of d k Committed) mod 2 ^ 64"
proof -
  let ?f = "\<lambda>k u. if cu_committed (counter_unit d k) = 0 then u
            else unit_add_committed (cu_committed (counter_unit d k)) u"
  let ?c = "fold (\<lambda>k. modify_unit k (?f k)) (registered c) c"
  note fm = fold_modify_unit [of "registered c" c ?f]
  have "count_of ?c k Committed = (count_of c k Committed + count_of d k Committed) mod 2 ^ 64"
    and "count_of ?c k Interim = count_of c k Interim" for k
    using fm(1) [of k] fm(2) assms wf_unit [OF assms(1), of k]
    by (auto simp: count_of_def is_registered_def registered_def set_registered unit_ok_def
        unit_add_committed_def wrap_add_u64_def)
  moreover have "wf_counters ?c" by (rule wf_fold_modify [OF _ assms(1)]) simp
  moreover have "jc_job ?c = jc_job c" using fm(2) assms(1) by (simp add: registered_def)
  ultimately show thesis using that [of ?c] add_counters_Inr [OF assms(3)] by simp
qed

lemma new_counters_level [simp]: "count_of (new_counters job) k view = 0"
  by (cases view) (simp_all add: count_of_def default_unit_def)

end
