(* ===== verification/Metrics_Report.thy ===== *)
theory Metrics_Report
  imports Metrics_Counters Rust_Strings
begin

text \<open>
  The Java-format reporter of \<open>crates/cdm-metrics/src/report.rs\<close>: the metrics string that is also the
  \<open>run_info\<close> column of the tracking tables, the final block, and \<open>parse_run_info\<close>, which reads the
  string back.
\<close>

subsection \<open>Rendering and parsing\<close>

definition METRIC_SEPARATOR :: string where "METRIC_SEPARATOR = ''; ''"

definition FINAL_BLOCK_RULE :: string where "FINAL_BLOCK_RULE = replicate 96 (CHR ''#'')"

definition metrics_entry :: "job_counters \<Rightarrow> counter_view \<Rightarrow> counter_kind \<Rightarrow> string" where
  "metrics_entry c view k = title_case k @ '': '' @ show_nat (count_of c k view)"

definition metrics :: "job_counters \<Rightarrow> counter_view \<Rightarrow> string" where
  "metrics c view =
     join_strings METRIC_SEPARATOR
       (map (metrics_entry c view)
         (filter (\<lambda>k. view = Interim \<or> k \<noteq> CUnflushed) (registered c)))"

definition run_info :: "job_counters \<Rightarrow> string" where
  "run_info c = metrics c Committed"

definition final_block_lines :: "job_counters \<Rightarrow> run_id option \<Rightarrow> string list" where
  "final_block_lines c rid =
     [FINAL_BLOCK_RULE]
     @ (case rid of None \<Rightarrow> [] | Some r \<Rightarrow> [''RunId: '' @ show_int (as_i64 r)])
     @ map (\<lambda>k. if is_partition_counter k
                then ''Final '' @ title_case k @ '': '' @ show_nat (count_of c k Committed)
                else ''Final '' @ title_case k @ '' Record Count: '' @ show_nat (count_of c k Committed))
           (filter (\<lambda>k. k \<noteq> CUnflushed) (registered c))
     @ [FINAL_BLOCK_RULE]"

definition final_block :: "job_counters \<Rightarrow> run_id option \<Rightarrow> string" where
  "final_block c rid = join_strings [CHR 0x0A] (final_block_lines c rid)"

definition parse_entry :: "string \<Rightarrow> u64 list \<Rightarrow> u64 list" where
  "parse_entry entry counts =
     (case rsplit_once (CHR '':'') entry of
        None \<Rightarrow> counts
      | Some (name, value) \<Rightarrow>
          (case parse_unsigned u64_max (trim value) of
             None \<Rightarrow> counts
           | Some v \<Rightarrow>
               (case List.find (\<lambda>k. title_case k = trim name) counter_kinds_all of
                  None \<Rightarrow> counts
                | Some k \<Rightarrow> if counter_index k < length counts then counts[counter_index k := v] else counts)))"

definition parse_run_info :: "string \<Rightarrow> u64 list" where
  "parse_run_info text = fold parse_entry (split_char (CHR '';'') text) (replicate COUNTER_COUNT 0)"

subsection \<open>The round trip\<close>

lemma title_case_inj [simp]: "title_case j = title_case k \<longleftrightarrow> j = k"
  by (cases j; cases k; simp)

lemma title_case_shape:
  "title_case k \<noteq> []" "\<not> is_ascii_space (hd (title_case k))" "\<not> is_ascii_space (last (title_case k))"
  "CHR '':'' \<notin> set (title_case k)" "CHR '';'' \<notin> set (title_case k)"
  by (cases k; simp add: is_ascii_space_def)+

lemma find_title_case: "List.find (\<lambda>j. title_case j = title_case k) counter_kinds_all = Some k"
  by (simp only: title_case_inj) (cases k; simp add: counter_kinds_all_def)

text \<open>One rendered entry, with or without the blank the separator leaves in front of it.\<close>

lemma parse_metrics_entry:
  assumes "count_of c k view \<le> u64_max" "list_all is_ascii_space ws" "length counts = COUNTER_COUNT"
  shows "parse_entry (ws @ metrics_entry c view k) counts = counts[counter_index k := count_of c k view]"
proof -
  let ?n = "show_nat (count_of c k view)"
  have dig: "list_all is_digit ?n" "?n \<noteq> []" using show_nat_digits by auto
  have "CHR '':'' \<notin> set ('' '' @ ?n)" using dig(1) digit_not_special by (auto simp: list_all_iff)
  then have "rsplit_once (CHR '':'') ((ws @ title_case k) @ CHR '':'' # ('' '' @ ?n))
      = Some (ws @ title_case k, '' '' @ ?n)"
    by (rule rsplit_once_at)
  then have split: "rsplit_once (CHR '':'') (ws @ metrics_entry c view k) = Some (ws @ title_case k, '' '' @ ?n)"
    by (simp add: metrics_entry_def)
  have "trim (ws @ title_case k) = title_case k"
    using title_case_shape assms(2) by (intro trim_inner) auto
  moreover have "trim ('' '' @ ?n) = ?n"
    using dig digit_not_special hd_in_set [OF dig(2)] last_in_set [OF dig(2)]
    by (intro trim_inner) (auto simp: list_all_iff is_ascii_space_def)
  moreover have "counter_index k < length counts" using assms(3) by simp
  ultimately show ?thesis
    by (simp only: parse_entry_def split option.case prod.case parse_show_nat [OF assms(1)]
        find_title_case if_True)
qed

lemma fold_slot_update:
  assumes "distinct ks" "length counts = COUNTER_COUNT"
  shows "fold (\<lambda>k cs. cs[counter_index k := f k]) ks counts ! counter_index j
           = (if j \<in> set ks then f j else counts ! counter_index j)"
    and "length (fold (\<lambda>k cs. cs[counter_index k := f k]) ks counts) = COUNTER_COUNT"
  using assms by (induction ks arbitrary: counts) (auto simp: nth_list_update)

lemma split_metrics:
  assumes "ks \<noteq> []"
  shows "split_char (CHR '';'') (join_strings METRIC_SEPARATOR (map (metrics_entry c view) ks))
       = metrics_entry c view (hd ks) # map (\<lambda>k. '' '' @ metrics_entry c view k) (tl ks)"
proof -
  have no_semi: "CHR '';'' \<notin> set (metrics_entry c view k)" for k
    using title_case_shape(5) [of k] show_nat_digits [of "count_of c k view"] digit_not_special
    by (auto simp: metrics_entry_def list_all_iff)
  have "split_char (CHR '';'') ([] @ join_strings (CHR '';'' # '' '') (map (metrics_entry c view) ks))
      = ([] @ hd (map (metrics_entry c view) ks)) # map ((@) '' '') (tl (map (metrics_entry c view) ks))"
    using no_semi assms by (intro split_join) auto
  then show ?thesis using assms by (simp add: METRIC_SEPARATOR_def hd_map map_tl comp_def)
qed

lemma parse_rendered:
  assumes "ks \<noteq> []" "\<And>k. count_of c k view \<le> u64_max" and that: "length counts = COUNTER_COUNT"
  shows "fold parse_entry (split_char (CHR '';'') (join_strings METRIC_SEPARATOR (map (metrics_entry c view) ks))) counts
       = fold (\<lambda>k cs. cs[counter_index k := count_of c k view]) ks counts"
proof -
  have rest: "fold parse_entry (map (\<lambda>k. '' '' @ metrics_entry c view k) js) cs
      = fold (\<lambda>k cs. cs[counter_index k := count_of c k view]) js cs"
    if "length cs = COUNTER_COUNT" for js cs
    using that
    by (induction js arbitrary: cs)
      (simp_all add: parse_metrics_entry [OF assms(2), where ws = "'' ''", simplified] is_ascii_space_def)
  obtain k ks' where "ks = k # ks'" using assms(1) by (cases ks) auto
  then show ?thesis
    using parse_metrics_entry [OF assms(2), of "[]" counts k] that rest split_metrics [OF assms(1), of c view]
    by simp
qed

lemma trim_metrics_entry:
  assumes "list_all is_ascii_space ws"
  shows "trim (ws @ metrics_entry c view k) = metrics_entry c view k"
proof (rule trim_inner)
  note d = show_nat_digits [of "count_of c k view"]
  have "last (metrics_entry c view k) = last (show_nat (count_of c k view))"
    using d by (simp add: metrics_entry_def)
  moreover have "is_digit (last (show_nat (count_of c k view)))"
    using d last_in_set by (auto simp: list_all_iff)
  ultimately show "\<not> is_ascii_space (last (metrics_entry c view k))" using digit_not_special by simp
  show "\<not> is_ascii_space (hd (metrics_entry c view k))" and "metrics_entry c view k \<noteq> []"
    by (cases k; simp add: metrics_entry_def is_ascii_space_def)+
qed (rule assms)

lemma run_info_entries:
  "split_char (CHR '';'') (run_info c) =
     (let ks = filter (\<lambda>k. k \<noteq> CUnflushed) (registered c)
      in metrics_entry c Committed (hd ks) # map (\<lambda>k. '' '' @ metrics_entry c Committed k) (tl ks))"
proof -
  have "filter (\<lambda>k. k \<noteq> CUnflushed) (registered c) \<noteq> []" by (cases "jc_job c") (simp_all add: registered_def)
  from split_metrics [OF this, of c Committed] show ?thesis by (simp add: run_info_def metrics_def Let_def)
qed

text \<open>
  The tracking string is read back exactly: parsing the \<open>run_info\<close> of a registry yields the
  committed total of every counter, zero for \<open>UNFLUSHED\<close> (which the committed rendering leaves out) and
  zero for counters the job does not register.
\<close>

theorem run_info_roundtrip:
  assumes "wf_counters c"
  shows "length (parse_run_info (run_info c)) = COUNTER_COUNT
       \<and> (\<forall>k. parse_run_info (run_info c) ! counter_index k
                = (if k = CUnflushed then 0 else count_of c k Committed))"
proof -
  let ?ks = "filter (\<lambda>k. k \<noteq> CUnflushed) (registered c)"
  have ne: "?ks \<noteq> []" by (cases "jc_job c") (simp_all add: registered_def)
  have le: "count_of c k Committed \<le> u64_max" for k
    using wf_unit [OF assms, of k] by (simp add: count_of_def unit_ok_def u64_max_def)
  have eq: "parse_run_info (run_info c)
      = fold (\<lambda>k cs. cs[counter_index k := count_of c k Committed]) ?ks (replicate COUNTER_COUNT 0)"
    using parse_rendered [OF ne le, of "replicate COUNTER_COUNT 0"]
    by (simp add: parse_run_info_def run_info_def metrics_def)
  have "count_of c k Committed = 0" if "k \<notin> set (registered c)" for k
    using that by (simp add: count_of_def is_registered_def registered_def set_registered)
  then show ?thesis
    using fold_slot_update [of ?ks "replicate COUNTER_COUNT 0" "\<lambda>k. count_of c k Committed"]
    nth_replicate [of "counter_index CUnflushed" COUNTER_COUNT "0 :: nat", OF counter_index_bound]
    by (auto simp: eq registered_def)
qed

theorem run_info_roundtrip_witness:
  "let c = flush (increment_by (Counter CRead Migrate) 120 (new_counters Migrate))
   in parse_run_info (run_info c) ! counter_index CRead = 120"
proof -
  let ?i = "increment_by (Counter CRead Migrate) 120 (new_counters Migrate)"
  have tok: "counter_of (new_counters Migrate) CRead = Inr (Counter CRead Migrate)"
    by (simp add: counter_of_def is_registered_for_def)
  note inc = increment_level [OF wf_new_counters tok, of 120]
  have "wf_counters (flush ?i)" "count_of (flush ?i) CRead Committed = 120"
    using inc flush_level [OF inc(2)] by simp_all
  then show ?thesis
    using run_info_roundtrip [of "flush ?i", THEN conjunct2, THEN spec, of CRead]
    by (simp add: Let_def)
qed

end
