(* ===== verification/Sched_Run.thy ===== *)
theory Sched_Run
  imports Sched_Control Metrics_Report Core_Token
begin

text \<open>
  The range scheduler: \<open>crates/cdm-engine/src/scheduler/queue.rs\<close> (the shared cursor over the plan),
  \<open>failure.rs\<close> (what a failed range adds to the counters), \<open>processor.rs\<close> (verdicts and outcomes) and
  \<open>mod.rs\<close> (the worker loop, the error limit, the report).

  The workers of a run share the queue, the control, the run's counters, the list of outcomes and the
  observer. \<open>worker_step\<close> is one atomic action of one worker, its place in the loop being a
  \<open>worker_pc\<close>; between any two of them anybody may call the control (\<open>sched_step\<close>). What a job does with
  a range is the parameter of the scheduler: the step relation lets it return any verdict or error or
  panic, with any counts that keep the contract \<open>processor.rs\<close> states (\<open>processor_contract\<close>).
  Nothing is said about the runtime's timers: that a grace period runs out is a step that may happen at
  any time once the run is stopping.
\<close>

subsection \<open>The work queue\<close>

record work_queue =
  wq_ranges :: "token_range list"
  wq_next :: usize

definition new_queue :: "token_range list \<Rightarrow> work_queue" where
  "new_queue rs = \<lparr>wq_ranges = rs, wq_next = 0\<rparr>"

definition claim :: "work_queue \<Rightarrow> work_queue \<times> token_range option" where
  "claim q =
     (let index = wq_next q
      in (q\<lparr>wq_next := index + 1\<rparr>,
          if index < length (wq_ranges q) then Some (wq_ranges q ! index) else None))"

definition claimed :: "work_queue \<Rightarrow> usize" where
  "claimed q = min (wq_next q) (length (wq_ranges q))"

definition remaining :: "work_queue \<Rightarrow> usize" where
  "remaining q = length (wq_ranges q) - claimed q"

definition unclaimed :: "work_queue \<Rightarrow> token_range list" where
  "unclaimed q = drop (claimed q) (wq_ranges q)"

subsection \<open>Failure accounting\<close>

definition lost_rows :: "job_counters \<Rightarrow> u64" where
  "lost_rows c =
     (let n = (\<lambda>k. count_of c k Interim) in
      case jc_job c of
        Migrate \<Rightarrow> n CRead - n CWrite - n CSkipped
      | Validate \<Rightarrow> n CRead - n CValid - n CMissing - n CMismatch - n CSkipped
      | Guardrail \<Rightarrow> 0)"

definition record_range_failure :: "job_counters \<Rightarrow> job_counters \<times> u64" where
  "record_range_failure c =
     (let lost = lost_rows c;
          c1 = (case counter_of c CError of
                  Inr t \<Rightarrow> if lost > 0 then increment_by t lost c else c
                | Inl _ \<Rightarrow> c);
          c2 = (case counter_of c1 CPartitionsFailed of
                  Inr t \<Rightarrow> increment_one t c1
                | Inl _ \<Rightarrow> c1)
      in (c2, lost))"

definition record_range_success :: "job_counters \<Rightarrow> job_counters" where
  "record_range_success c =
     (case counter_of c CPartitionsPassed of Inr t \<Rightarrow> increment_one t c | Inl _ \<Rightarrow> c)"

subsection \<open>Processing one range\<close>

datatype range_verdict = VPass | VDiff | VDiffCorrected

fun verdict_status :: "range_verdict \<Rightarrow> run_status" where
  "verdict_status VPass = Pass"
| "verdict_status VDiff = Diff"
| "verdict_status VDiffCorrected = DiffCorrected"

text \<open>The \<open>diagnostic\<close> of an outcome is rendered from the error; the error itself is kept here.\<close>

record range_outcome =
  ro_range :: token_range
  ro_status :: run_status
  ro_run_info :: string
  ro_diagnostic :: "cdm_error option"
  ro_abandoned :: bool

definition outcome_is_success :: "range_outcome \<Rightarrow> bool" where
  "outcome_is_success o' \<longleftrightarrow> ro_status o' \<in> {Pass, Diff, DiffCorrected}"

definition outcome_is_failure :: "range_outcome \<Rightarrow> bool" where
  "outcome_is_failure o' \<longleftrightarrow> ro_status o' = Fail"

text \<open>A panic payload, and the text \<open>describe\<close> finds in it.\<close>

datatype panic_payload = StaticStr string | OwnedString string | OtherPayload

fun describe :: "panic_payload \<Rightarrow> string" where
  "describe (StaticStr s) = s"
| "describe (OwnedString s) = s"
| "describe OtherPayload = ''a panic with a non-string payload''"

text \<open>What the \<open>select!\<close> of \<open>process_range\<close> yields: the job's result, its panic, or the kill.\<close>

datatype proc_result = Finished range_verdict | Failed cdm_error | Panicked panic_payload | Dropped

definition fail_range :: "job_counters \<Rightarrow> token_range \<Rightarrow> cdm_error \<Rightarrow> job_counters \<times> range_outcome" where
  "fail_range c r e =
     (let c' = flush (fst (record_range_failure c))
      in (c', \<lparr>ro_range = r, ro_status = Fail, ro_run_info = run_info c',
               ro_diagnostic = Some e, ro_abandoned = False\<rparr>))"

definition conclude_range ::
  "run_control \<Rightarrow> token_range \<Rightarrow> job_counters \<Rightarrow> proc_result \<Rightarrow> run_control \<times> job_counters \<times> range_outcome" where
  "conclude_range ctl r c res =
     (case res of
        Finished v \<Rightarrow>
          let c' = flush (record_range_success c)
          in (ctl, c', \<lparr>ro_range = r, ro_status = verdict_status v, ro_run_info = run_info c',
                         ro_diagnostic = None, ro_abandoned = False\<rparr>)
      | Failed e \<Rightarrow>
          ((if kind_is_fatal (error_kind_of e) then stop Fatal ctl else ctl), fail_range c r e)
      | Panicked p \<Rightarrow>
          (ctl, fail_range c r (with_context (with_range r)
             (new_error Internal (''the job panicked while processing the range: '' @ describe p))))
      | Dropped \<Rightarrow>
          let c' = flush c
          in (ctl, c', \<lparr>ro_range = r, ro_status = Started, ro_run_info = run_info c',
                         ro_diagnostic = None, ro_abandoned = True\<rparr>))"

definition merge_counters :: "job_counters \<Rightarrow> job_counters \<Rightarrow> job_counters" where
  "merge_counters run c = (case add_counters run c of Inr run' \<Rightarrow> run' | Inl _ \<Rightarrow> run)"

definition enforce_error_limit :: "u64 \<Rightarrow> job_counters \<Rightarrow> run_control \<Rightarrow> run_control" where
  "enforce_error_limit limit run ctl =
     (if limit = 0 \<or> rc_stopping ctl then ctl
      else if count_of run CError Committed > limit then stop ErrorLimit ctl else ctl)"

subsection \<open>The workers\<close>

datatype worker_pc =
    WWait | WStopCheck | WClaim | WStart token_range | WProcess token_range
  | WMerge job_counters range_outcome | WNotify range_outcome | WPush range_outcome | WLimit | WDone

datatype sched_event = EvStarted token_range | EvFinished range_outcome

record sched =
  sc_job :: job_kind
  sc_error_limit :: u64
  sc_queue :: work_queue
  sc_control :: run_control
  sc_run_counters :: job_counters
  sc_outcomes :: "range_outcome list"
  sc_events :: "sched_event list"
  sc_workers :: "worker_pc list"

definition start_run :: "job_kind \<Rightarrow> u64 \<Rightarrow> nat \<Rightarrow> token_range list \<Rightarrow> run_control \<Rightarrow> sched" where
  "start_run job limit workers rs ctl = \<lparr>
     sc_job = job, sc_error_limit = limit, sc_queue = new_queue rs, sc_control = ctl,
     sc_run_counters = new_counters job, sc_outcomes = [], sc_events = [],
     sc_workers = replicate (max workers 1) WWait \<rparr>"

text \<open>
  What \<open>processor.rs\<close> requires of a job: it increments the range's own registry, at the interim level
  only, and leaves the partition counters to the scheduler.
\<close>

definition processor_contract :: "job_kind \<Rightarrow> job_counters \<Rightarrow> bool" where
  "processor_contract job c \<longleftrightarrow> wf_counters c \<and> jc_job c = job
     \<and> (\<forall>k. count_of c k Committed = 0)
     \<and> count_of c CPartitionsPassed Interim = 0 \<and> count_of c CPartitionsFailed Interim = 0"

definition set_pc :: "nat \<Rightarrow> worker_pc \<Rightarrow> sched \<Rightarrow> sched" where
  "set_pc i pc s = s\<lparr>sc_workers := (sc_workers s)[i := pc]\<rparr>"

abbreviation at_pc :: "sched \<Rightarrow> nat \<Rightarrow> worker_pc \<Rightarrow> bool" where
  "at_pc s i pc \<equiv> i < length (sc_workers s) \<and> sc_workers s ! i = pc"

inductive worker_step :: "sched \<Rightarrow> sched \<Rightarrow> bool" where
  released: "at_pc s i WWait \<Longrightarrow> wait_released (sc_control s) \<Longrightarrow> worker_step s (set_pc i WStopCheck s)"
| stopped: "at_pc s i WStopCheck \<Longrightarrow> rc_stopping (sc_control s) \<Longrightarrow> worker_step s (set_pc i WDone s)"
| proceed: "at_pc s i WStopCheck \<Longrightarrow> \<not> rc_stopping (sc_control s) \<Longrightarrow> worker_step s (set_pc i WClaim s)"
| exhausted: "at_pc s i WClaim \<Longrightarrow> claim (sc_queue s) = (q, None) \<Longrightarrow>
     worker_step s (set_pc i WDone (s\<lparr>sc_queue := q\<rparr>))"
| claims: "at_pc s i WClaim \<Longrightarrow> claim (sc_queue s) = (q, Some r) \<Longrightarrow>
     worker_step s (set_pc i (WStart r) (s\<lparr>sc_queue := q\<rparr>))"
| starts: "at_pc s i (WStart r) \<Longrightarrow>
     worker_step s (set_pc i (WProcess r) (s\<lparr>sc_events := sc_events s @ [EvStarted r]\<rparr>))"
| processes: "at_pc s i (WProcess r) \<Longrightarrow> processor_contract (sc_job s) c \<Longrightarrow>
     res = Dropped \<longrightarrow> rc_killed (sc_control s) \<Longrightarrow>
     conclude_range (sc_control s) r c res = (ctl, c', outcome) \<Longrightarrow>
     worker_step s (set_pc i (WMerge c' outcome) (s\<lparr>sc_control := ctl\<rparr>))"
| merges: "at_pc s i (WMerge c outcome) \<Longrightarrow>
     worker_step s (set_pc i (WNotify outcome)
       (s\<lparr>sc_run_counters := merge_counters (sc_run_counters s) c\<rparr>))"
| notifies: "at_pc s i (WNotify outcome) \<Longrightarrow>
     worker_step s (set_pc i (WPush outcome) (s\<lparr>sc_events := sc_events s @ [EvFinished outcome]\<rparr>))"
| pushes: "at_pc s i (WPush outcome) \<Longrightarrow>
     worker_step s (set_pc i WLimit (s\<lparr>sc_outcomes := sc_outcomes s @ [outcome]\<rparr>))"
| limits: "at_pc s i WLimit \<Longrightarrow>
     worker_step s (set_pc i WWait
       (s\<lparr>sc_control := enforce_error_limit (sc_error_limit s) (sc_run_counters s) (sc_control s)\<rparr>))"

inductive_cases worker_stepE: "worker_step s s'"

inductive sched_step :: "sched \<Rightarrow> sched \<Rightarrow> bool" where
  works: "worker_step s s' \<Longrightarrow> sched_step s s'"
| controls: "sched_step s (s\<lparr>sc_control := call_seq call (sc_control s)\<rparr>)"
| watchdog: "rc_stopping (sc_control s) \<Longrightarrow> sched_step s (s\<lparr>sc_control := grace_expired (sc_control s)\<rparr>)"

subsection \<open>The report\<close>

record run_report =
  rr_job :: job_kind
  rr_status :: run_status
  rr_stopped_by :: "stop_reason option"
  rr_ranges_planned :: usize
  rr_counters :: job_counters
  rr_outcomes :: "range_outcome list"
  rr_unclaimed :: "token_range list"

text \<open>
  The end of \<open>Scheduler::run\<close>, once every worker has been joined. The shared registry is still held by
  \<open>shared\<close>, so \<open>try_unwrap\<close> fails and its totals are merged into a fresh one.
\<close>

definition finish_run :: "sched \<Rightarrow> run_report" where
  "finish_run s =
     (let stopped_by = rc_reason (sc_control s);
          status = (case stopped_by of None \<Rightarrow> Ended | Some r \<Rightarrow> reason_run_status r);
          owned = merge_counters (new_counters (jc_job (sc_run_counters s))) (sc_run_counters s)
      in \<lparr>rr_job = sc_job s, rr_status = status, rr_stopped_by = stopped_by,
          rr_ranges_planned = length (wq_ranges (sc_queue s)),
          rr_counters = flush owned,
          rr_outcomes = sort_key ro_range (sc_outcomes s),
          rr_unclaimed = unclaimed (sc_queue s)\<rparr>)"

definition ranges_failed :: "run_report \<Rightarrow> usize" where
  "ranges_failed rep = length (filter outcome_is_failure (rr_outcomes rep))"

definition ranges_passed :: "run_report \<Rightarrow> usize" where
  "ranges_passed rep = length (filter outcome_is_success (rr_outcomes rep))"

definition ranges_abandoned :: "run_report \<Rightarrow> usize" where
  "ranges_abandoned rep = length (filter ro_abandoned (rr_outcomes rep))"

definition report_is_complete :: "run_report \<Rightarrow> bool" where
  "report_is_complete rep \<longleftrightarrow> rr_status rep = Ended"

definition exit_code :: "run_report \<Rightarrow> u8" where
  "exit_code rep =
     (if rr_status rep = Interrupted then 4
      else if rr_status rep = Ended \<and> ranges_failed rep = 0 then 0 else 1)"

subsection \<open>The queue as a work source\<close>

text \<open>
  What the workers rely on: the next item comes off the front of what is pending, and nothing comes
  once nothing is pending. \<open>claims\<close> is a sequence of calls, by whichever callers.
\<close>

fun claims :: "('s \<Rightarrow> 's \<times> 'a option) \<Rightarrow> nat \<Rightarrow> 's \<Rightarrow> 's \<times> 'a option list" where
  "claims take_next 0 s = (s, [])"
| "claims take_next (Suc n) s =
     (let (s', x) = take_next s; (s'', xs) = claims take_next n s' in (s'', x # xs))"

locale work_source =
  fixes take_next :: "'s \<Rightarrow> 's \<times> 'a option" and pending :: "'s \<Rightarrow> 'a list"
  assumes next_some: "take_next s = (s', Some x) \<Longrightarrow> pending s = x # pending s'"
    and next_none: "take_next s = (s', None) \<Longrightarrow> pending s = [] \<and> pending s' = []"
begin

lemma claims_exact:
  "pending (fst (claims take_next n s)) = drop n (pending s)
   \<and> snd (claims take_next n s) = map Some (take n (pending s)) @ replicate (n - length (pending s)) None"
proof (induction n arbitrary: s)
  case (Suc n)
  obtain s' x where nx: "take_next s = (s', x)" by force
  show ?case
  proof (cases x)
    case None
    then show ?thesis using Suc.IH [of s'] next_none nx by (simp add: case_prod_unfold)
  next
    case (Some y)
    then show ?thesis using Suc.IH [of s'] next_some [of s s' y] nx by (simp add: case_prod_unfold)
  qed
qed simp

lemma next_mset: "take_next s = (s', x) \<Longrightarrow>
  mset (pending s) = (case x of None \<Rightarrow> {#} | Some y \<Rightarrow> {#y#}) + mset (pending s')"
  by (cases x) (auto dest: next_some next_none)

end

interpretation wq: work_source claim unclaimed
proof
  show "claim q = (q', Some x) \<Longrightarrow> unclaimed q = x # unclaimed q'" for q q' x
    by (auto simp: claim_def Let_def unclaimed_def claimed_def Cons_nth_drop_Suc min_def split: if_splits)
  show "claim q = (q', None) \<Longrightarrow> unclaimed q = [] \<and> unclaimed q' = []" for q q'
    by (auto simp: claim_def Let_def unclaimed_def claimed_def split: if_splits)
qed

lemma claim_ranges [simp]: "claim q = (q', x) \<Longrightarrow> wq_ranges q' = wq_ranges q"
  by (auto simp: claim_def Let_def)

lemma unclaimed_new [simp]: "unclaimed (new_queue rs) = rs"
  by (simp add: unclaimed_def claimed_def new_queue_def)

lemma length_unclaimed: "length (unclaimed q) = remaining q"
  by (simp add: unclaimed_def remaining_def)

subsection \<open>Counting what a range did\<close>

lemma counter_registered:
  "is_registered_for k (jc_job c) \<Longrightarrow> counter_of c k = Inr (Counter k (jc_job c))"
  "\<not> is_registered_for k (jc_job c) \<Longrightarrow> \<exists>e. counter_of c k = Inl e"
  by (simp_all add: counter_of_def)

lemma partitions_registered [simp]:
  "is_registered_for CPartitionsPassed job" "is_registered_for CPartitionsFailed job" "is_registered_for CRead job"
  by (cases job; simp add: is_registered_for_def)+

lemma record_range_success_level:
  assumes "wf_counters c"
  shows "wf_counters (record_range_success c)" "jc_job (record_range_success c) = jc_job c"
    "count_of (record_range_success c) k Committed = count_of c k Committed"
    "count_of (record_range_success c) k Interim
       = (if k = CPartitionsPassed then (count_of c k Interim + 1) mod 2 ^ 64 else count_of c k Interim)"
  using increment_level [OF assms counter_registered(1) [OF partitions_registered(1)], of 1]
  by (simp_all add: record_range_success_def counter_registered increment_one_def)

lemma record_range_failure_level:
  assumes "wf_counters c" "record_range_failure c = (c', lost)"
  shows "lost = lost_rows c" "wf_counters c'" "jc_job c' = jc_job c"
    "count_of c' k Committed = count_of c k Committed"
    "count_of c' k Interim
       = (if k = CPartitionsFailed then (count_of c k Interim + 1) mod 2 ^ 64
          else if k = CError \<and> is_registered_for CError (jc_job c) \<and> 0 < lost
          then (count_of c k Interim + lost) mod 2 ^ 64
          else count_of c k Interim)"
proof -
  let ?c1 = "case counter_of c CError of Inr t \<Rightarrow> if lost_rows c > 0 then increment_by t (lost_rows c) c else c
                                        | Inl _ \<Rightarrow> c"
  have c1: "wf_counters ?c1 \<and> jc_job ?c1 = jc_job c
      \<and> (\<forall>k. count_of ?c1 k Committed = count_of c k Committed
         \<and> count_of ?c1 k Interim = (if k = CError \<and> is_registered_for CError (jc_job c) \<and> 0 < lost_rows c
              then (count_of c k Interim + lost_rows c) mod 2 ^ 64 else count_of c k Interim))"
  proof (cases "is_registered_for CError (jc_job c)")
    case True
    note tok = counter_registered(1) [OF True]
    show ?thesis using increment_level [OF assms(1) tok, of "lost_rows c"] assms(1) True by (simp add: tok)
  next
    case False
    then show ?thesis using counter_registered(2) [OF False] assms(1) by auto
  qed
  have tok: "counter_of ?c1 CPartitionsFailed = Inr (Counter CPartitionsFailed (jc_job ?c1))"
    by (rule counter_registered(1)) simp
  have c': "c' = increment_by (Counter CPartitionsFailed (jc_job ?c1)) 1 ?c1" and l: "lost = lost_rows c"
    using assms(2) tok by (auto simp: record_range_failure_def Let_def increment_one_def)
  show "lost = lost_rows c" by (rule l)
  show "wf_counters c'" "jc_job c' = jc_job c" "count_of c' k Committed = count_of c k Committed"
    "count_of c' k Interim
       = (if k = CPartitionsFailed then (count_of c k Interim + 1) mod 2 ^ 64
          else if k = CError \<and> is_registered_for CError (jc_job c) \<and> 0 < lost
          then (count_of c k Interim + lost) mod 2 ^ 64
          else count_of c k Interim)"
    using increment_level [OF _ tok, of 1] c1 unfolding c' l by auto
qed

text \<open>What \<open>conclude_range\<close> does, whatever happened to the range.\<close>

lemma conclude_range_facts:
  assumes "processor_contract job c" "conclude_range ctl r c res = (ctl', c', out)"
  shows "wf_counters c'" "jc_job c' = job" "ro_range out = r"
    "outcome_is_success out \<longleftrightarrow> (\<exists>v. res = Finished v)"
    "outcome_is_failure out \<longleftrightarrow> (\<exists>e. res = Failed e) \<or> (\<exists>p. res = Panicked p)"
    "ro_abandoned out \<longleftrightarrow> res = Dropped" "ro_status out = Started \<longleftrightarrow> res = Dropped"
    "count_of c' CPartitionsPassed Committed = (if outcome_is_success out then 1 else 0)"
    "count_of c' CPartitionsFailed Committed = (if outcome_is_failure out then 1 else 0)"
    "ctl' = (case res of Failed e \<Rightarrow> if kind_is_fatal (error_kind_of e) then stop Fatal ctl else ctl | _ \<Rightarrow> ctl)"
proof -
  have wf: "wf_counters c" "jc_job c = job" "count_of c CPartitionsPassed Interim = 0"
    "count_of c CPartitionsFailed Interim = 0" "\<And>k. count_of c k Committed = 0"
    using assms(1) by (auto simp: processor_contract_def)
  note ok = record_range_success_level [OF wf(1)]
  note bad = record_range_failure_level [OF wf(1)]
  obtain cf lost where f: "record_range_failure c = (cf, lost)" by force
  note fl = flush_level [OF ok(1)] flush_level [OF bad(2) [OF f]] flush_level [OF wf(1)]
  have "wf_counters c' \<and> jc_job c' = job \<and> ro_range out = r
    \<and> (outcome_is_success out \<longleftrightarrow> (\<exists>v. res = Finished v))
    \<and> (outcome_is_failure out \<longleftrightarrow> (\<exists>e. res = Failed e) \<or> (\<exists>p. res = Panicked p))
    \<and> (ro_abandoned out \<longleftrightarrow> res = Dropped) \<and> (ro_status out = Started \<longleftrightarrow> res = Dropped)
    \<and> count_of c' CPartitionsPassed Committed = (if outcome_is_success out then 1 else 0)
    \<and> count_of c' CPartitionsFailed Committed = (if outcome_is_failure out then 1 else 0)
    \<and> ctl' = (case res of Failed e \<Rightarrow> if kind_is_fatal (error_kind_of e) then stop Fatal ctl else ctl | _ \<Rightarrow> ctl)"
  proof (cases res)
    case (Finished v)
    then show ?thesis using assms(2) fl ok wf
      by (cases v) (auto simp: conclude_range_def Let_def outcome_is_success_def outcome_is_failure_def)
  qed (use assms(2) fl bad [OF f] wf f in
      \<open>auto simp: conclude_range_def fail_range_def Let_def outcome_is_success_def outcome_is_failure_def\<close>)
  then show "wf_counters c'" "jc_job c' = job" "ro_range out = r"
    "outcome_is_success out \<longleftrightarrow> (\<exists>v. res = Finished v)"
    "outcome_is_failure out \<longleftrightarrow> (\<exists>e. res = Failed e) \<or> (\<exists>p. res = Panicked p)"
    "ro_abandoned out \<longleftrightarrow> res = Dropped" "ro_status out = Started \<longleftrightarrow> res = Dropped"
    "count_of c' CPartitionsPassed Committed = (if outcome_is_success out then 1 else 0)"
    "count_of c' CPartitionsFailed Committed = (if outcome_is_failure out then 1 else 0)"
    "ctl' = (case res of Failed e \<Rightarrow> if kind_is_fatal (error_kind_of e) then stop Fatal ctl else ctl | _ \<Rightarrow> ctl)"
    by blast+
qed

subsection \<open>What the workers hold\<close>

text \<open>
  The ranges a worker has claimed and not yet pushed, those of them it has announced, the outcomes it has
  merged and not yet pushed, and those it has notified; \<open>held\<close> collects one of these over all workers.
\<close>

fun pc_ranges :: "worker_pc \<Rightarrow> token_range list" where
  "pc_ranges (WStart r) = [r]"
| "pc_ranges (WProcess r) = [r]"
| "pc_ranges (WMerge c out) = [ro_range out]"
| "pc_ranges (WNotify out) = [ro_range out]"
| "pc_ranges (WPush out) = [ro_range out]"
| "pc_ranges _ = []"

fun pc_begun :: "worker_pc \<Rightarrow> token_range list" where
  "pc_begun (WStart r) = []"
| "pc_begun pc = pc_ranges pc"

fun pc_merged :: "worker_pc \<Rightarrow> range_outcome list" where
  "pc_merged (WNotify out) = [out]"
| "pc_merged (WPush out) = [out]"
| "pc_merged _ = []"

fun pc_notified :: "worker_pc \<Rightarrow> range_outcome list" where
  "pc_notified (WPush out) = [out]"
| "pc_notified _ = []"

definition held :: "(worker_pc \<Rightarrow> 'a list) \<Rightarrow> sched \<Rightarrow> 'a multiset" where
  "held f s = mset (concat (map f (sc_workers s)))"

lemma mset_concat_update:
  "i < length ws \<Longrightarrow> mset (concat (map f (ws[i := x]))) + mset (f (ws ! i)) = mset (concat (map f ws)) + mset (f x)"
proof (induction ws arbitrary: i)
  case (Cons w ws)
  then show ?case by (cases i) (auto simp: ac_simps)
qed simp

lemma mset_member_concat: "w \<in> set ws \<Longrightarrow> mset (f w) \<subseteq># mset (concat (map f ws))"
proof (induction ws)
  case (Cons v ws)
  then show ?case by (auto intro: subset_mset.order_trans)
qed simp

lemma set_pc_fields [simp]:
  "sc_job (set_pc i pc s) = sc_job s" "sc_error_limit (set_pc i pc s) = sc_error_limit s"
  "sc_queue (set_pc i pc s) = sc_queue s" "sc_control (set_pc i pc s) = sc_control s"
  "sc_run_counters (set_pc i pc s) = sc_run_counters s" "sc_outcomes (set_pc i pc s) = sc_outcomes s"
  "sc_events (set_pc i pc s) = sc_events s"
  "sc_workers (set_pc i pc s) = (sc_workers s)[i := pc]"
  by (simp_all add: set_pc_def)

lemma held_update [simp]:
  "held f (s\<lparr>sc_queue := q\<rparr>) = held f s" "held f (s\<lparr>sc_control := ctl\<rparr>) = held f s"
  "held f (s\<lparr>sc_run_counters := c\<rparr>) = held f s" "held f (s\<lparr>sc_outcomes := os\<rparr>) = held f s"
  "held f (s\<lparr>sc_events := es\<rparr>) = held f s"
  "held f (set_pc i pc (s\<lparr>sc_queue := q\<rparr>)) = held f (set_pc i pc s)"
  "held f (set_pc i pc (s\<lparr>sc_control := ctl\<rparr>)) = held f (set_pc i pc s)"
  "held f (set_pc i pc (s\<lparr>sc_run_counters := c\<rparr>)) = held f (set_pc i pc s)"
  "held f (set_pc i pc (s\<lparr>sc_outcomes := os\<rparr>)) = held f (set_pc i pc s)"
  "held f (set_pc i pc (s\<lparr>sc_events := es\<rparr>)) = held f (set_pc i pc s)"
  by (simp_all add: held_def)

lemma held_split:
  assumes "at_pc s i pc"
  obtains others where "held f s = others + mset (f pc)"
    "\<And>pc'. held f (set_pc i pc' s) = others + mset (f pc')"
proof -
  let ?o = "held f s - mset (f pc)"
  have eq: "held f (set_pc i pc' s) + mset (f pc) = held f s + mset (f pc')" for pc'
    using mset_concat_update [of i "sc_workers s" f pc'] assms by (simp add: held_def set_pc_def)
  have "mset (f pc) \<subseteq># held f s"
    using mset_member_concat [of pc "sc_workers s" f] assms by (auto simp: held_def)
  then have "held f s = ?o + mset (f pc)" by simp
  moreover then have "held f (set_pc i pc' s) = ?o + mset (f pc')" for pc'
  proof -
    have "held f (set_pc i pc' s) + mset (f pc) = (?o + mset (f pc')) + mset (f pc)"
      using eq [of pc'] \<open>held f s = ?o + mset (f pc)\<close> by (metis add.assoc add.commute)
    then show ?thesis by simp
  qed
  ultimately show thesis using that by blast
qed

lemma worker_split:
  assumes "at_pc s i pc"
  obtains A B C D where
    "held pc_ranges s = A + mset (pc_ranges pc)" "\<And>pc'. held pc_ranges (set_pc i pc' s) = A + mset (pc_ranges pc')"
    "held pc_begun s = B + mset (pc_begun pc)" "\<And>pc'. held pc_begun (set_pc i pc' s) = B + mset (pc_begun pc')"
    "held pc_merged s = C + mset (pc_merged pc)" "\<And>pc'. held pc_merged (set_pc i pc' s) = C + mset (pc_merged pc')"
    "held pc_notified s = D + mset (pc_notified pc)" "\<And>pc'. held pc_notified (set_pc i pc' s) = D + mset (pc_notified pc')"
  using held_split [OF assms, of pc_ranges] held_split [OF assms, of pc_begun]
    held_split [OF assms, of pc_merged] held_split [OF assms, of pc_notified]
  by metis

definition started_ranges :: "sched_event list \<Rightarrow> token_range list" where
  "started_ranges es = concat (map (\<lambda>e. case e of EvStarted r \<Rightarrow> [r] | EvFinished _ \<Rightarrow> []) es)"

definition finished_outcomes :: "sched_event list \<Rightarrow> range_outcome list" where
  "finished_outcomes es = concat (map (\<lambda>e. case e of EvStarted _ \<Rightarrow> [] | EvFinished out \<Rightarrow> [out]) es)"

lemma event_simps [simp]:
  "started_ranges [] = []" "finished_outcomes [] = []"
  "started_ranges (es @ [EvStarted r]) = started_ranges es @ [r]"
  "started_ranges (es @ [EvFinished out]) = started_ranges es"
  "finished_outcomes (es @ [EvStarted r]) = finished_outcomes es"
  "finished_outcomes (es @ [EvFinished out]) = finished_outcomes es @ [out]"
  by (simp_all add: started_ranges_def finished_outcomes_def)

subsection \<open>The invariants\<close>

text \<open>No range is lost and none is handed out twice; the observer hears of each as it starts and ends.\<close>

definition flow_inv :: "token_range list \<Rightarrow> sched \<Rightarrow> bool" where
  "flow_inv plan s \<longleftrightarrow>
     wq_ranges (sc_queue s) = plan
     \<and> mset plan = mset (unclaimed (sc_queue s)) + held pc_ranges s + mset (map ro_range (sc_outcomes s))
     \<and> mset (started_ranges (sc_events s)) = held pc_begun s + mset (map ro_range (sc_outcomes s))
     \<and> mset (finished_outcomes (sc_events s)) = held pc_notified s + mset (sc_outcomes s)"

lemma worker_step_flow: "worker_step s s' \<Longrightarrow> flow_inv plan s \<Longrightarrow> flow_inv plan s'"
proof (induction rule: worker_step.induct)
  case (claims s i q r)
  then have "mset (unclaimed (sc_queue s)) = {#r#} + mset (unclaimed q)" using wq.next_mset by fastforce
  note now = this
  from claims(1) show ?case
    by (rule worker_split) (use claims now in \<open>simp add: flow_inv_def\<close>)
next
  case (exhausted s i q)
  then have "mset (unclaimed (sc_queue s)) = mset (unclaimed q)" using wq.next_mset by fastforce
  note now = this
  from exhausted(1) show ?case
    by (rule worker_split) (use exhausted now in \<open>simp add: flow_inv_def\<close>)
next
  case (processes s i r c res ctl c' out)
  then have "ro_range out = r" using conclude_range_facts(3) by blast
  note now = this
  from processes(1) show ?case
    by (rule worker_split) (use processes now in \<open>simp add: flow_inv_def\<close>)
qed (erule worker_split, (simp add: flow_inv_def)[1])+

end
