(* ===== verification/Sched_Safety.thy ===== *)
theory Sched_Safety
  imports Sched_Run
begin

text \<open>
  What every run of the scheduler guarantees, for any number of workers, any interleaving of them with
  calls to the control, and any behaviour of the job: the invariants \<open>flow_inv\<close> (no range lost or
  duplicated), \<open>control_inv\<close>, \<open>outcome_inv\<close>, \<open>count_inv\<close> (the partition counters) and \<open>limit_inv\<close> (the
  error limit), each preserved by every step, and the properties of the finished run that follow.
\<close>

subsection \<open>Control\<close>

definition control_ok :: "run_control \<Rightarrow> bool" where
  "control_ok c \<longleftrightarrow> (rc_killed c \<longrightarrow> rc_stopping c) \<and> (rc_stopping c \<longleftrightarrow> rc_reason c \<noteq> None)"

lemma control_ok_ops [simp]:
  "control_ok new_control"
  "control_ok c \<Longrightarrow> control_ok (call_seq call c)" "control_ok c \<Longrightarrow> control_ok (grace_expired c)"
  "control_ok c \<Longrightarrow> control_ok (stop r c)" "control_ok c \<Longrightarrow> control_ok (enforce_error_limit limit run c)"
  by (auto simp: control_ok_def new_control_def grace_expired_def kill_def stop_def enforce_error_limit_def)
    (cases call; auto simp: control_ok_def pause_def resume_def stop_def kill_def signalled_def split: if_splits)+

lemma control_grows [simp]:
  "rc_stopping c \<Longrightarrow> rc_stopping (call_seq call c)" "rc_killed c \<Longrightarrow> rc_killed (call_seq call c)"
  "rc_stopping c \<Longrightarrow> rc_stopping (grace_expired c)" "rc_killed c \<Longrightarrow> rc_killed (grace_expired c)"
  "rc_stopping (stop r c)" "rc_killed c \<Longrightarrow> rc_killed (stop r c)"
  "rc_stopping c \<Longrightarrow> rc_stopping (enforce_error_limit limit run c)"
  "rc_killed c \<Longrightarrow> rc_killed (enforce_error_limit limit run c)"
  by (cases call; auto simp: pause_def resume_def stop_def kill_def signalled_def)
    (cases call; auto simp: pause_def resume_def stop_def kill_def signalled_def
      grace_expired_def enforce_error_limit_def)+

lemma conclude_control:
  assumes "processor_contract job c" "conclude_range ctl r c res = (ctl', c', out)"
  shows "control_ok ctl \<Longrightarrow> control_ok ctl'" "rc_stopping ctl \<Longrightarrow> rc_stopping ctl'"
    "rc_killed ctl \<Longrightarrow> rc_killed ctl'"
  using conclude_range_facts(10) [OF assms] by (auto split: proc_result.splits)

subsection \<open>One invariant for the whole state\<close>

text \<open>An outcome is a success, a failure or abandoned, never two of them, and only a kill abandons.\<close>

definition outcome_ok :: "run_control \<Rightarrow> range_outcome \<Rightarrow> bool" where
  "outcome_ok ctl out \<longleftrightarrow>
     (outcome_is_success out \<or> outcome_is_failure out \<or> ro_abandoned out)
     \<and> (ro_abandoned out \<longleftrightarrow> ro_status out = Started) \<and> (ro_abandoned out \<longrightarrow> rc_killed ctl)"

fun pc_ok :: "job_kind \<Rightarrow> run_control \<Rightarrow> token_range list \<Rightarrow> worker_pc \<Rightarrow> bool" where
  "pc_ok job ctl left (WMerge c out) \<longleftrightarrow>
     outcome_ok ctl out \<and> wf_counters c \<and> jc_job c = job
     \<and> count_of c CPartitionsPassed Committed = (if outcome_is_success out then 1 else 0)
     \<and> count_of c CPartitionsFailed Committed = (if outcome_is_failure out then 1 else 0)"
| "pc_ok job ctl left (WNotify out) \<longleftrightarrow> outcome_ok ctl out"
| "pc_ok job ctl left (WPush out) \<longleftrightarrow> outcome_ok ctl out"
| "pc_ok job ctl left WDone \<longleftrightarrow> rc_stopping ctl \<or> left = []"
| "pc_ok job ctl left _ \<longleftrightarrow> True"

definition state_ok :: "sched \<Rightarrow> bool" where
  "state_ok s \<longleftrightarrow>
     control_ok (sc_control s)
     \<and> wf_counters (sc_run_counters s) \<and> jc_job (sc_run_counters s) = sc_job s
     \<and> (\<forall>pc \<in> set (sc_workers s). pc_ok (sc_job s) (sc_control s) (unclaimed (sc_queue s)) pc)
     \<and> (\<forall>out \<in> set (sc_outcomes s). outcome_ok (sc_control s) out)"

lemma outcome_ok_mono: "(rc_killed ctl \<Longrightarrow> rc_killed ctl') \<Longrightarrow> outcome_ok ctl out \<Longrightarrow> outcome_ok ctl' out"
  by (auto simp: outcome_ok_def)

lemma pc_ok_mono:
  assumes "rc_killed ctl \<Longrightarrow> rc_killed ctl'" "rc_stopping ctl \<Longrightarrow> rc_stopping ctl'" "left = [] \<Longrightarrow> left' = []"
  shows "pc_ok job ctl left pc \<Longrightarrow> pc_ok job ctl' left' pc"
  using assms outcome_ok_mono [of ctl ctl'] by (cases pc) auto

lemma state_ok_update:
  assumes "state_ok s" "sc_job s' = sc_job s"
    and "sc_workers s' = (sc_workers s)[i := pc]" "pc_ok (sc_job s) (sc_control s') (unclaimed (sc_queue s')) pc"
    and "control_ok (sc_control s')" "rc_killed (sc_control s) \<Longrightarrow> rc_killed (sc_control s')"
    and "rc_stopping (sc_control s) \<Longrightarrow> rc_stopping (sc_control s')"
    and "unclaimed (sc_queue s) = [] \<Longrightarrow> unclaimed (sc_queue s') = []"
    and "wf_counters (sc_run_counters s')" "jc_job (sc_run_counters s') = sc_job s"
    and "set (sc_outcomes s') \<subseteq> set (sc_outcomes s) \<union> {out. outcome_ok (sc_control s') out}"
  shows "state_ok s'"
proof -
  have "pc_ok (sc_job s) (sc_control s') (unclaimed (sc_queue s')) w" if "w \<in> set (sc_workers s')" for w
  proof -
    have "w = pc \<or> w \<in> set (sc_workers s)"
      using that assms(3) set_update_subset_insert by fastforce
    then show ?thesis
      using assms(1,4) pc_ok_mono [OF assms(6-8)] by (auto simp: state_ok_def)
  qed
  moreover have "outcome_ok (sc_control s') out" if "out \<in> set (sc_outcomes s')" for out
    using that assms(1,11) outcome_ok_mono [OF assms(6)] by (auto simp: state_ok_def)
  ultimately show ?thesis using assms by (simp add: state_ok_def)
qed

lemma merge_counters_facts:
  assumes "wf_counters run" "wf_counters c" "jc_job c = jc_job run"
  shows "wf_counters (merge_counters run c)" "jc_job (merge_counters run c) = jc_job run"
    "count_of (merge_counters run c) k Interim = count_of run k Interim"
    "count_of (merge_counters run c) k Committed = (count_of run k Committed + count_of c k Committed) mod 2 ^ 64"
  using add_level [OF assms] by (metis merge_counters_def sum.case(2))+

lemma at_pc_ok: "state_ok s \<Longrightarrow> at_pc s i pc \<Longrightarrow> pc_ok (sc_job s) (sc_control s) (unclaimed (sc_queue s)) pc"
  using nth_mem by (fastforce simp: state_ok_def)

lemma worker_step_ok: "worker_step s s' \<Longrightarrow> state_ok s \<Longrightarrow> state_ok s'"
proof (induction rule: worker_step.induct)
  case (exhausted s i q)
  then have "unclaimed q = []" using wq.next_none by blast
  note left = this
  show ?case
    by (rule state_ok_update [where s = s and i = i and pc = "WDone"])
      (use exhausted left in \<open>auto simp: state_ok_def\<close>)
next
  case (claims s i q r)
  then have left: "unclaimed (sc_queue s) \<noteq> []" using wq.next_some by fastforce
  show ?case
    by (rule state_ok_update [where s = s and i = i and pc = "WStart r"])
      (use claims left in \<open>auto simp: state_ok_def\<close>)
next
  case (processes s i r c res ctl c' out)
  note f = conclude_range_facts [OF processes(2,4)] and ctl = conclude_control [OF processes(2,4)]
  have "rc_killed ctl" if "ro_abandoned out" using that f(6) processes(3) ctl(3) by blast
  moreover have "outcome_is_success out \<or> outcome_is_failure out \<or> ro_abandoned out"
    using f(4-6) by (cases res) auto
  ultimately have out: "outcome_ok ctl out" using f(6,7) by (auto simp: outcome_ok_def)
  have "pc_ok (sc_job s) ctl (unclaimed (sc_queue s)) (WMerge c' out)" using f out by simp
  note pc = this
  show ?case
    by (rule state_ok_update [where s = s and i = i and pc = "WMerge c' out"])
      (use processes pc ctl in \<open>auto simp: state_ok_def\<close>)
next
  case (merges s i c out)
  note pc = at_pc_ok [OF merges.prems merges(1)]
  show ?case
    by (rule state_ok_update [where s = s and i = i and pc = "WNotify out"])
      (use merges pc merge_counters_facts [of "sc_run_counters s" c] in \<open>auto simp: state_ok_def\<close>)
next
  case (notifies s i out)
  note pc = at_pc_ok [OF notifies.prems notifies(1)]
  show ?case
    by (rule state_ok_update [where s = s and i = i and pc = "WPush out"])
      (use notifies pc in \<open>auto simp: state_ok_def\<close>)
next
  case (pushes s i out)
  note pc = at_pc_ok [OF pushes.prems pushes(1)]
  show ?case
    by (rule state_ok_update [where s = s and i = i and pc = "WLimit"])
      (use pushes pc in \<open>auto simp: state_ok_def\<close>)
next
  case (starts s i r)
  show ?case
    by (rule state_ok_update [where s = s and i = i and pc = "WProcess r"])
      (use starts in \<open>auto simp: state_ok_def\<close>)
next
  case (released s i)
  show ?case
    by (rule state_ok_update [where s = s and i = i and pc = "WStopCheck"])
      (use released in \<open>auto simp: state_ok_def\<close>)
next
  case (stopped s i)
  show ?case
    by (rule state_ok_update [where s = s and i = i and pc = "WDone"])
      (use stopped in \<open>auto simp: state_ok_def\<close>)
next
  case (proceed s i)
  show ?case
    by (rule state_ok_update [where s = s and i = i and pc = "WClaim"])
      (use proceed in \<open>auto simp: state_ok_def\<close>)
next
  case (limits s i)
  show ?case
    by (rule state_ok_update [where s = s and i = i and pc = "WWait"])
      (use limits in \<open>auto simp: state_ok_def\<close>)
qed

lemma controls_ok:
  assumes "state_ok s" "control_ok ctl" "rc_killed (sc_control s) \<Longrightarrow> rc_killed ctl"
    "rc_stopping (sc_control s) \<Longrightarrow> rc_stopping ctl"
  shows "state_ok (s\<lparr>sc_control := ctl\<rparr>)"
  using assms pc_ok_mono [OF assms(3,4)] outcome_ok_mono [OF assms(3)] by (simp add: state_ok_def)

lemma sched_step_ok: "sched_step s s' \<Longrightarrow> state_ok s \<Longrightarrow> state_ok s'"
proof (induction rule: sched_step.induct)
  case (controls s call)
  then show ?case by (intro controls_ok) (simp_all add: state_ok_def)
next
  case (watchdog s)
  then show ?case by (intro controls_ok) (simp_all add: state_ok_def)
qed (rule worker_step_ok)

lemma sched_step_flow: "sched_step s s' \<Longrightarrow> flow_inv plan s \<Longrightarrow> flow_inv plan s'"
proof (induction rule: sched_step.induct)
  case (works s s')
  then show ?case by (rule worker_step_flow)
qed (simp_all add: flow_inv_def)

subsection \<open>Counters and the error limit\<close>

definition merged_outcomes :: "sched \<Rightarrow> range_outcome multiset" where
  "merged_outcomes s = held pc_merged s + mset (sc_outcomes s)"

definition count_inv :: "sched \<Rightarrow> bool" where
  "count_inv s \<longleftrightarrow>
     count_of (sc_run_counters s) CPartitionsPassed Committed
       = size (filter_mset outcome_is_success (merged_outcomes s))
     \<and> count_of (sc_run_counters s) CPartitionsFailed Committed
       = size (filter_mset outcome_is_failure (merged_outcomes s))
     \<and> (\<forall>k. count_of (sc_run_counters s) k Interim = 0)"

lemma held_merged_small: "size (held pc_merged s) \<le> size (held pc_ranges s)"
proof -
  have "length (concat (map pc_merged ws)) \<le> length (concat (map pc_ranges ws))" for ws
  proof (induction ws)
    case (Cons pc ws)
    then show ?case by (cases pc) auto
  qed simp
  then show ?thesis by (simp add: held_def)
qed

lemma merged_bound:
  assumes "flow_inv plan s"
  shows "size (filter_mset P (merged_outcomes s)) \<le> length plan"
proof -
  have "size (mset plan) = size (mset (unclaimed (sc_queue s)) + held pc_ranges s + mset (map ro_range (sc_outcomes s)))"
    using assms by (simp add: flow_inv_def)
  then have "size (merged_outcomes s) \<le> length plan"
    using held_merged_small [of s] by (simp add: merged_outcomes_def)
  moreover have "size (filter_mset P (merged_outcomes s)) \<le> size (merged_outcomes s)"
    by (simp add: size_mset_mono)
  ultimately show ?thesis by linarith
qed

lemma worker_step_count:
  assumes "worker_step s s'" "state_ok s" "flow_inv plan s" "count_inv s" "length plan < 2 ^ 64"
  shows "count_inv s'"
proof -
  have flow: "flow_inv plan s'" using assms worker_step_flow by blast
  note small = merged_bound [OF flow, of outcome_is_success] merged_bound [OF flow, of outcome_is_failure]
  show ?thesis using assms(1) assms(2-4) small
  proof (cases rule: worker_step.cases)
    case (merges i c out)
    have pc: "pc_ok (sc_job s) (sc_control s) (unclaimed (sc_queue s)) (WMerge c out)"
      using at_pc_ok [OF assms(2) merges(2)] .
    note m = merge_counters_facts [of "sc_run_counters s" c]
    have "merged_outcomes s' = merged_outcomes s + {#out#}"
      using merges(2) by (rule worker_split) (simp add: merges(1) merged_outcomes_def)
    then show ?thesis
      using m pc assms(2,4,5) small
      by (cases "outcome_is_success out"; cases "outcome_is_failure out")
        (simp_all add: count_inv_def state_ok_def merges(1))
  next
    case (pushes i out)
    have "merged_outcomes s' = merged_outcomes s"
      using pushes(2) by (rule worker_split) (simp add: pushes(1) merged_outcomes_def)
    then show ?thesis using assms(4) by (simp add: count_inv_def pushes(1))
  next
    case (notifies i out)
    have "merged_outcomes s' = merged_outcomes s"
      using notifies(2) by (rule worker_split) (simp add: notifies(1) merged_outcomes_def)
    then show ?thesis using assms(4) by (simp add: count_inv_def notifies(1))
  qed (erule worker_split, simp add: count_inv_def merged_outcomes_def)+
qed

fun pc_checks :: "worker_pc \<Rightarrow> bool" where
  "pc_checks (WNotify out) = True"
| "pc_checks (WPush out) = True"
| "pc_checks WLimit = True"
| "pc_checks _ = False"

definition over_limit :: "sched \<Rightarrow> bool" where
  "over_limit s \<longleftrightarrow> 0 < sc_error_limit s
     \<and> sc_error_limit s < count_of (sc_run_counters s) CError Committed"

definition limit_inv :: "sched \<Rightarrow> bool" where
  "limit_inv s \<longleftrightarrow> (over_limit s \<longrightarrow> rc_stopping (sc_control s) \<or> (\<exists>pc \<in> set (sc_workers s). pc_checks pc))"

lemma checks_kept:
  assumes "pc \<in> set ws" "pc_checks pc" "i < length ws" "pc_checks (ws ! i) \<Longrightarrow> pc_checks pc'"
  shows "\<exists>pc \<in> set (ws[i := pc']). pc_checks pc"
proof -
  obtain j where j: "j < length ws" "ws ! j = pc" using assms(1) by (auto simp: in_set_conv_nth)
  show ?thesis
  proof (cases "j = i")
    case True
    then show ?thesis using assms j by (auto intro: set_update_memI)
  next
    case False
    then show ?thesis using assms(2) j nth_mem [of j "ws[i := pc']"] by (auto simp: nth_list_update)
  qed
qed

lemma worker_step_limit:
  assumes "worker_step s s'" "limit_inv s"
  shows "limit_inv s'"
  using assms
proof (cases rule: worker_step.cases)
  case (merges i c out)
  then show ?thesis by (auto simp: limit_inv_def intro!: bexI [of _ "WNotify out"] set_update_memI)
next
  case (limits i)
  then show ?thesis by (auto simp: limit_inv_def over_limit_def enforce_error_limit_def)
next
  case (processes i r c res ctl c' out)
  then show ?thesis using assms(2) conclude_control(2) [OF processes(3,5)]
    by (auto simp: limit_inv_def over_limit_def dest: checks_kept)
next
  case (notifies i out)
  then show ?thesis using assms(2) checks_kept [of _ "sc_workers s" i "WPush out"]
    by (fastforce simp: limit_inv_def over_limit_def)
next
  case (pushes i out)
  then show ?thesis using assms(2) checks_kept [of _ "sc_workers s" i WLimit]
    by (fastforce simp: limit_inv_def over_limit_def)
qed (use assms(2) in \<open>auto simp: limit_inv_def over_limit_def dest: checks_kept\<close>)

lemma controls_limit:
  "limit_inv s \<Longrightarrow> (rc_stopping (sc_control s) \<Longrightarrow> rc_stopping ctl) \<Longrightarrow> limit_inv (s\<lparr>sc_control := ctl\<rparr>)"
  by (auto simp: limit_inv_def over_limit_def)

subsection \<open>Reachable states\<close>

definition sched_inv :: "token_range list \<Rightarrow> sched \<Rightarrow> bool" where
  "sched_inv plan s \<longleftrightarrow> flow_inv plan s \<and> state_ok s \<and> count_inv s \<and> limit_inv s"

lemma start_run_fields [simp]:
  "sc_job (start_run job limit n plan ctl) = job"
  "sc_queue (start_run job limit n plan ctl) = new_queue plan"
  "sc_control (start_run job limit n plan ctl) = ctl"
  "sc_run_counters (start_run job limit n plan ctl) = new_counters job"
  "sc_outcomes (start_run job limit n plan ctl) = []" "sc_events (start_run job limit n plan ctl) = []"
  "sc_workers (start_run job limit n plan ctl) = replicate (max n 1) WWait"
  by (simp_all add: start_run_def)

lemma held_start [simp]: "f WWait = [] \<Longrightarrow> held f (start_run job limit n plan ctl) = {#}"
proof -
  have "concat (map f (replicate k WWait)) = []" if "f WWait = []" for k using that by (induction k) auto
  then show "f WWait = [] \<Longrightarrow> ?thesis" by (simp add: held_def)
qed

lemma start_inv: "control_ok ctl \<Longrightarrow> sched_inv plan (start_run job limit n plan ctl)"
  by (simp add: sched_inv_def flow_inv_def state_ok_def count_inv_def limit_inv_def over_limit_def
      merged_outcomes_def) (simp add: new_queue_def)

lemma sched_step_inv:
  assumes "sched_step s s'" "sched_inv plan s" "length plan < 2 ^ 64"
  shows "sched_inv plan s'"
proof -
  have "count_inv s' \<and> limit_inv s'" using assms
  proof (cases rule: sched_step.cases)
    case works
    then show ?thesis
      using assms worker_step_count [of s s' plan] worker_step_limit by (auto simp: sched_inv_def)
  next
    case (controls call)
    then show ?thesis using assms(2) controls_limit [of s]
      by (auto simp: sched_inv_def count_inv_def merged_outcomes_def)
  next
    case watchdog
    then show ?thesis using assms(2) controls_limit [of s]
      by (auto simp: sched_inv_def count_inv_def merged_outcomes_def)
  qed
  then show ?thesis
    using assms sched_step_ok sched_step_flow by (auto simp: sched_inv_def)
qed

lemma reachable_inv:
  assumes "sched_step\<^sup>*\<^sup>* (start_run job limit n plan ctl) s" "control_ok ctl" "length plan < 2 ^ 64"
  shows "sched_inv plan s"
  using assms(1) by (induction rule: rtranclp_induct) (use assms start_inv sched_step_inv in auto)

text \<open>A run that has ended: every worker has left its loop and been joined.\<close>

definition run_over :: "sched \<Rightarrow> bool" where
  "run_over s \<longleftrightarrow> (\<forall>pc \<in> set (sc_workers s). pc = WDone)"

lemma run_over_held: "run_over s \<Longrightarrow> f WDone = [] \<Longrightarrow> held f s = {#}"
proof -
  have "concat (map f ws) = []" if "\<forall>pc \<in> set ws. pc = WDone" "f WDone = []" for ws
    using that by (induction ws) auto
  then show "run_over s \<Longrightarrow> f WDone = [] \<Longrightarrow> ?thesis" by (simp add: held_def run_over_def)
qed

lemma worker_step_length: "worker_step s s' \<Longrightarrow> length (sc_workers s') = length (sc_workers s)"
  by (erule worker_step.cases) simp_all

lemma reachable_length:
  assumes "sched_step\<^sup>*\<^sup>* (start_run job limit n plan ctl) s"
  shows "sc_workers s \<noteq> [] \<and> sc_error_limit s = limit \<and> sc_job s = job"
proof -
  have "sched_step s s' \<Longrightarrow> length (sc_workers s') = length (sc_workers s)
          \<and> sc_error_limit s' = sc_error_limit s \<and> sc_job s' = sc_job s" for s s'
    by (erule sched_step.cases) (auto simp: worker_step_length elim: worker_step.cases)
  note kept = this
  from assms show ?thesis
  proof (induction rule: rtranclp_induct)
    case (step s s')
    then show ?case using kept [of s s'] by (metis length_0_conv)
  qed (simp add: start_run_def)
qed

lemma finished_flow:
  assumes "sched_inv plan s" "run_over s"
  shows "mset plan = mset (unclaimed (sc_queue s)) + mset (map ro_range (sc_outcomes s))"
    and "mset (started_ranges (sc_events s)) = mset (map ro_range (sc_outcomes s))"
    and "mset (finished_outcomes (sc_events s)) = mset (sc_outcomes s)"
    and "count_of (sc_run_counters s) CPartitionsPassed Committed = length (filter outcome_is_success (sc_outcomes s))"
    and "count_of (sc_run_counters s) CPartitionsFailed Committed = length (filter outcome_is_failure (sc_outcomes s))"
  using assms run_over_held [OF assms(2), of pc_ranges] run_over_held [OF assms(2), of pc_begun]
    run_over_held [OF assms(2), of pc_merged] run_over_held [OF assms(2), of pc_notified]
  by (simp_all add: sched_inv_def flow_inv_def count_inv_def merged_outcomes_def flip: mset_filter)

lemma finish_run_counters:
  assumes "sched_inv plan s"
  shows "count_of (rr_counters (finish_run s)) k Committed = count_of (sc_run_counters s) k Committed"
    "count_of (rr_counters (finish_run s)) k Interim = 0"
proof -
  let ?r = "sc_run_counters s" let ?n = "new_counters (jc_job ?r)"
  have wf: "wf_counters ?r" using assms by (simp add: sched_inv_def state_ok_def)
  note m = merge_counters_facts [OF wf_new_counters wf, of "jc_job ?r", simplified]
  note f = flush_level(3,4) [OF m(1), of k]
  have "count_of ?r k Committed < 2 ^ 64"
    using wf_unit [OF wf, of k] by (simp add: count_of_def unit_ok_def)
  then show "count_of (rr_counters (finish_run s)) k Committed = count_of ?r k Committed"
    "count_of (rr_counters (finish_run s)) k Interim = 0"
    using f m(3,4) [of k] by (simp_all add: finish_run_def Let_def)
qed

lemma outcome_counts:
  assumes "\<forall>out \<in> set os. outcome_ok ctl out"
  shows "length os = length (filter outcome_is_success os) + length (filter outcome_is_failure os)
           + length (filter ro_abandoned os)"
  using assms
proof (induction os)
  case (Cons out os)
  then show ?case by (auto simp: outcome_ok_def outcome_is_success_def outcome_is_failure_def)
qed simp

end
