(* ===== verification/Sched_Finish.thy ===== *)
theory Sched_Finish
  imports Sched_Safety
begin

text \<open>
  The end of a run: the report of \<open>crates/cdm-engine/src/scheduler/mod.rs\<close> and the exit code it implies,
  what a failed range does to the counters and to the run, the error limit, and that the workers get
  to the end. \<open>worker_act\<close> is the step relation as a function of who moves and what the job did, by which
  concrete runs are computed.
\<close>

subsection \<open>Driving a run\<close>

definition worker_act :: "nat \<Rightarrow> job_counters \<Rightarrow> proc_result \<Rightarrow> sched \<Rightarrow> sched" where
  "worker_act i c res s =
     (if length (sc_workers s) \<le> i then s
      else case sc_workers s ! i of
        WWait \<Rightarrow> if wait_released (sc_control s) then set_pc i WStopCheck s else s
      | WStopCheck \<Rightarrow> if rc_stopping (sc_control s) then set_pc i WDone s else set_pc i WClaim s
      | WClaim \<Rightarrow> (case claim (sc_queue s) of
            (q, None) \<Rightarrow> set_pc i WDone (s\<lparr>sc_queue := q\<rparr>)
          | (q, Some r) \<Rightarrow> set_pc i (WStart r) (s\<lparr>sc_queue := q\<rparr>))
      | WStart r \<Rightarrow> set_pc i (WProcess r) (s\<lparr>sc_events := sc_events s @ [EvStarted r]\<rparr>)
      | WProcess r \<Rightarrow>
          if processor_contract (sc_job s) c \<and> (res = Dropped \<longrightarrow> rc_killed (sc_control s))
          then (case conclude_range (sc_control s) r c res of
                  (ctl, c', out) \<Rightarrow> set_pc i (WMerge c' out) (s\<lparr>sc_control := ctl\<rparr>))
          else s
      | WMerge c' out \<Rightarrow> set_pc i (WNotify out)
          (s\<lparr>sc_run_counters := merge_counters (sc_run_counters s) c'\<rparr>)
      | WNotify out \<Rightarrow> set_pc i (WPush out) (s\<lparr>sc_events := sc_events s @ [EvFinished out]\<rparr>)
      | WPush out \<Rightarrow> set_pc i WLimit (s\<lparr>sc_outcomes := sc_outcomes s @ [out]\<rparr>)
      | WLimit \<Rightarrow> set_pc i WWait
          (s\<lparr>sc_control := enforce_error_limit (sc_error_limit s) (sc_run_counters s) (sc_control s)\<rparr>)
      | WDone \<Rightarrow> s)"

lemma worker_act_step: "worker_act i c res s = s \<or> worker_step s (worker_act i c res s)"
proof (cases "i < length (sc_workers s)")
  case True
  then show ?thesis
    by (cases "sc_workers s ! i")
      (auto simp: worker_act_def split: prod.splits option.splits intro: worker_step.intros)
qed (simp add: worker_act_def)

fun drive :: "(nat \<times> job_counters \<times> proc_result) list \<Rightarrow> sched \<Rightarrow> sched" where
  "drive [] s = s"
| "drive ((i, c, res) # acts) s = drive acts (worker_act i c res s)"

lemma drive_reaches: "sched_step\<^sup>*\<^sup>* s (drive acts s)"
proof (induction acts s rule: drive.induct)
  case (2 i c res acts s)
  have "sched_step\<^sup>*\<^sup>* s (worker_act i c res s)"
    using worker_act_step [of i c res s] by (auto intro: sched_step.works)
  then show ?case using 2 by simp
qed simp

lemma new_counters_contract [simp]: "processor_contract job (new_counters job)"
  by (simp add: processor_contract_def)

text \<open>One worker, one range that the job passes or fails with the given result: the run to its end.\<close>

definition one_range_run :: "proc_result \<Rightarrow> sched" where
  "one_range_run res =
     drive (replicate 12 (0, new_counters Migrate, res)) (start_run Migrate 0 1 [TokenRange 0 9] new_control)"

lemmas drive_simps =
  numeral_eq_Suc worker_act_def start_run_def set_pc_def wait_released_def new_control_def claim_def
  new_queue_def Let_def enforce_error_limit_def case_prod_unfold

lemma one_range_run_passes:
  "run_over (one_range_run (Finished VPass))"
  "map ro_status (sc_outcomes (one_range_run (Finished VPass))) = [Pass]"
  "sc_control (one_range_run (Finished VPass)) = new_control"
  "sc_queue (one_range_run (Finished VPass)) = \<lparr>wq_ranges = [TokenRange 0 9], wq_next = 2\<rparr>"
  by (simp_all add: one_range_run_def drive_simps conclude_range_def run_over_def)

subsection \<open>Ranges and the report\<close>

text \<open>
  Claim C2. No range is lost, duplicated or processed twice, in any reachable state of any run: the
  plan is, as a multiset, exactly what is still unclaimed, what the workers hold and what has an
  outcome; every range whose end was announced to the observer had been announced as started before,
  and nothing is announced that was not planned.
\<close>

theorem scheduler_conserves_ranges:
  assumes "sched_step\<^sup>*\<^sup>* (start_run job limit n plan new_control) s" "length plan < 2 ^ 64"
  shows "mset plan = mset (unclaimed (sc_queue s)) + held pc_ranges s + mset (map ro_range (sc_outcomes s))
       \<and> mset (map ro_range (finished_outcomes (sc_events s))) \<subseteq># mset (started_ranges (sc_events s))
       \<and> mset (started_ranges (sc_events s)) \<subseteq># mset plan"
proof -
  have inv: "flow_inv plan s" using reachable_inv [OF assms(1)] assms(2) by (simp add: sched_inv_def)
  have "image_mset ro_range (held pc_notified s) \<subseteq># held pc_begun s" and "held pc_begun s \<subseteq># held pc_ranges s"
  proof -
    have "image_mset ro_range (mset (concat (map pc_notified ws))) \<subseteq># mset (concat (map pc_begun ws))
        \<and> mset (concat (map pc_begun ws)) \<subseteq># mset (concat (map pc_ranges ws))" for ws
    proof (induction ws)
      case (Cons pc ws)
      then show ?case by (cases pc) (auto intro: subset_mset.order_trans)
    qed simp
    then show "image_mset ro_range (held pc_notified s) \<subseteq># held pc_begun s"
      and "held pc_begun s \<subseteq># held pc_ranges s" by (auto simp: held_def)
  qed
  then show ?thesis using inv
    by (auto simp: flow_inv_def intro: subset_mset.order_trans subset_mset.add_mono
        simp del: mset_map) (simp_all add: ac_simps subset_mset.add_mono)
qed

theorem scheduler_conserves_ranges_witness:
  "mset [TokenRange 0 9] = mset (unclaimed (sc_queue (one_range_run (Finished VPass))))
     + held pc_ranges (one_range_run (Finished VPass))
     + mset (map ro_range (sc_outcomes (one_range_run (Finished VPass))))"
proof -
  have "sched_step\<^sup>*\<^sup>* (start_run Migrate 0 1 [TokenRange 0 9] new_control) (one_range_run (Finished VPass))"
    unfolding one_range_run_def by (rule drive_reaches)
  from scheduler_conserves_ranges [OF this] show ?thesis by simp
qed

lemma set_insort_outcomes [simp]: "mset (sort_key ro_range os) = mset os"
  by simp

lemma finish_run_fields [simp]:
  "rr_status (finish_run s) = (case rc_reason (sc_control s) of None \<Rightarrow> Ended | Some r \<Rightarrow> reason_run_status r)"
  "rr_stopped_by (finish_run s) = rc_reason (sc_control s)"
  "rr_ranges_planned (finish_run s) = length (wq_ranges (sc_queue s))"
  "rr_outcomes (finish_run s) = sort_key ro_range (sc_outcomes s)"
  "rr_unclaimed (finish_run s) = unclaimed (sc_queue s)"
  by (simp_all add: finish_run_def Let_def)

lemma report_counts:
  "ranges_failed (finish_run s) = length (filter outcome_is_failure (sc_outcomes s))"
  "ranges_passed (finish_run s) = length (filter outcome_is_success (sc_outcomes s))"
  "ranges_abandoned (finish_run s) = length (filter ro_abandoned (sc_outcomes s))"
  by (simp_all add: ranges_failed_def ranges_passed_def ranges_abandoned_def flip: size_mset)

text \<open>
  The report of a finished run adds up, whatever happened in it: the reported outcomes and the
  unclaimed ranges are the plan, no more and no less; the planned ranges are the passed, the failed,
  the abandoned and the unclaimed ones; the partition counters of the run are the numbers of passed and
  failed ranges; and the observer was told of the start and of the end of exactly the reported ranges.
\<close>

theorem report_adds_up:
  assumes "sched_step\<^sup>*\<^sup>* (start_run job limit n plan new_control) s" "length plan < 2 ^ 64" "run_over s"
  shows "let rep = finish_run s in
      mset plan = mset (map ro_range (rr_outcomes rep)) + mset (rr_unclaimed rep)
    \<and> rr_ranges_planned rep = ranges_passed rep + ranges_failed rep + ranges_abandoned rep
                                + length (rr_unclaimed rep)
    \<and> count_of (rr_counters rep) CPartitionsPassed Committed = ranges_passed rep
    \<and> count_of (rr_counters rep) CPartitionsFailed Committed = ranges_failed rep
    \<and> mset (started_ranges (sc_events s)) = mset (map ro_range (rr_outcomes rep))
    \<and> mset (finished_outcomes (sc_events s)) = mset (rr_outcomes rep)"
proof -
  have inv: "sched_inv plan s" using reachable_inv [OF assms(1)] assms(2) by simp
  note fin = finished_flow [OF inv assms(3)] and cnt = finish_run_counters [OF inv]
  have "length plan = length (unclaimed (sc_queue s)) + length (sc_outcomes s)"
    using arg_cong [OF fin(1), of size] by simp
  moreover have "length (sc_outcomes s) = length (filter outcome_is_success (sc_outcomes s))
      + length (filter outcome_is_failure (sc_outcomes s)) + length (filter ro_abandoned (sc_outcomes s))"
    using inv by (intro outcome_counts) (auto simp: sched_inv_def state_ok_def)
  moreover have "wq_ranges (sc_queue s) = plan" using inv by (simp add: sched_inv_def flow_inv_def)
  ultimately show ?thesis using fin cnt by (simp add: Let_def report_counts ac_simps)
qed

theorem report_adds_up_witness:
  "ranges_passed (finish_run (one_range_run (Finished VPass))) + ranges_failed (finish_run (one_range_run (Finished VPass)))
     + ranges_abandoned (finish_run (one_range_run (Finished VPass))) = 1"
proof -
  let ?s = "one_range_run (Finished VPass)"
  have "sched_step\<^sup>*\<^sup>* (start_run Migrate 0 1 [TokenRange 0 9] new_control) ?s"
    unfolding one_range_run_def by (rule drive_reaches)
  from report_adds_up [OF this _ one_range_run_passes(1)]
  have "rr_ranges_planned (finish_run ?s) = ranges_passed (finish_run ?s) + ranges_failed (finish_run ?s)
      + ranges_abandoned (finish_run ?s) + length (rr_unclaimed (finish_run ?s))"
    by (simp add: Let_def)
  then show ?thesis by (simp add: one_range_run_passes(4) unclaimed_def claimed_def)
qed

text \<open>
  The code of the report: zero exactly when nothing stopped the run and no range failed, and then every
  planned range was processed once and ended without a failure; 4 for an interrupted run, 1 for
  everything else. It does not look at discrepancies: a validate run with unrepaired ones gets zero here.
  The process exit code is the one of the command line (theory \<open>Cli_Exit\<close>).
\<close>

lemma report_exit_code:
  assumes "sched_step\<^sup>*\<^sup>* (start_run job limit n plan new_control) s" "length plan < 2 ^ 64" "run_over s"
  shows "let rep = finish_run s in
      (exit_code rep = 0 \<longleftrightarrow> rr_stopped_by rep = None \<and> ranges_failed rep = 0)
    \<and> (exit_code rep = 0 \<longrightarrow>
         mset (map ro_range (rr_outcomes rep)) = mset plan
         \<and> (\<forall>out \<in> set (rr_outcomes rep). outcome_is_success out))
    \<and> (exit_code rep = 4 \<longleftrightarrow> rr_stopped_by rep = Some Signal)
    \<and> exit_code rep \<in> {0, 1, 4}"
proof -
  have inv: "sched_inv plan s" using reachable_inv [OF assms(1)] assms(2) by simp
  note fin = finished_flow [OF inv assms(3)]
  obtain pc where pc: "pc \<in> set (sc_workers s)"
    using reachable_length [OF assms(1)] by (cases "sc_workers s") auto
  have ctl: "control_ok (sc_control s)" and
    out: "\<And>out. out \<in> set (sc_outcomes s) \<Longrightarrow> outcome_ok (sc_control s) out" and
    left: "rc_stopping (sc_control s) \<or> unclaimed (sc_queue s) = []"
    using inv pc assms(3) by (force simp: sched_inv_def state_ok_def run_over_def)+
  have all: "mset (map ro_range (sc_outcomes s)) = mset plan
      \<and> (\<forall>out \<in> set (sc_outcomes s). outcome_is_success out)"
    if "rc_reason (sc_control s) = None" "filter outcome_is_failure (sc_outcomes s) = []"
  proof -
    have "\<not> rc_stopping (sc_control s)" "\<not> rc_killed (sc_control s)" using ctl that by (auto simp: control_ok_def)
    moreover then have "outcome_is_success out" if "out \<in> set (sc_outcomes s)" for out
      using out [OF that] that \<open>filter outcome_is_failure (sc_outcomes s) = []\<close>
      by (auto simp: outcome_ok_def filter_empty_conv)
    ultimately show ?thesis using left fin(1) by simp
  qed
  have stat: "exit_code (finish_run s) = (case rc_reason (sc_control s) of
      None \<Rightarrow> if ranges_failed (finish_run s) = 0 then 0 else 1 | Some Signal \<Rightarrow> 4 | Some _ \<Rightarrow> 1)"
    by (auto simp: exit_code_def split: option.splits stop_reason.splits)
  show ?thesis
    using all by (auto simp: Let_def stat report_counts split: option.splits stop_reason.splits if_splits)
qed

text \<open>
  Claim C7. The error limit cannot be slipped past: a run with a limit whose total of lost rows exceeds
  it at the end was stopped, whichever worker merged the rows and however the workers interleaved, so it
  is never reported as \<open>ENDED\<close> and never exits with zero.
\<close>

theorem error_limit_enforced:
  assumes "sched_step\<^sup>*\<^sup>* (start_run job limit n plan new_control) s" "length plan < 2 ^ 64" "run_over s"
    and "0 < limit" "limit < count_of (rr_counters (finish_run s)) CError Committed"
  shows "rr_stopped_by (finish_run s) \<noteq> None \<and> rr_status (finish_run s) \<in> {Interrupted, Aborted}
       \<and> exit_code (finish_run s) \<noteq> 0"
proof -
  have inv: "sched_inv plan s" using reachable_inv [OF assms(1)] assms(2) by simp
  have "over_limit s"
    using assms(4,5) finish_run_counters(1) [OF inv] reachable_length [OF assms(1)]
    by (simp add: over_limit_def)
  moreover have "\<not> (\<exists>pc \<in> set (sc_workers s). pc_checks pc)" using assms(3) by (auto simp: run_over_def)
  ultimately have "rc_stopping (sc_control s)" using inv by (simp add: sched_inv_def limit_inv_def)
  then obtain r where "rc_reason (sc_control s) = Some r"
    using inv by (auto simp: sched_inv_def state_ok_def control_ok_def)
  then show ?thesis by (cases r) (simp_all add: exit_code_def)
qed

text \<open>A range that reads three rows, writes one and then fails: two lost rows, over a limit of one.\<close>

definition lossy_counters :: job_counters where
  "lossy_counters = increment_by (Counter CWrite Migrate) 1 (increment_by (Counter CRead Migrate) 3 (new_counters Migrate))"

lemma lossy_contract: "processor_contract Migrate lossy_counters"
  and lossy_counts: "count_of lossy_counters CRead Interim = 3" "count_of lossy_counters CWrite Interim = 1"
    "count_of lossy_counters CSkipped Interim = 0" "count_of lossy_counters CError Interim = 0"
    "jc_job lossy_counters = Migrate" "wf_counters lossy_counters"
proof -
  let ?c = "increment_by (Counter CRead Migrate) 3 (new_counters Migrate)"
  have tok: "counter_of (new_counters Migrate) CRead = Inr (Counter CRead Migrate)"
    by (simp add: counter_of_def is_registered_for_def)
  note c = increment_level [OF wf_new_counters tok, of 3]
  have tok': "counter_of ?c CWrite = Inr (Counter CWrite Migrate)"
    using c(1) by (simp add: counter_of_def is_registered_for_def)
  note d = increment_level [OF c(2) tok', of 1]
  show "processor_contract Migrate lossy_counters"
    "count_of lossy_counters CRead Interim = 3" "count_of lossy_counters CWrite Interim = 1"
    "count_of lossy_counters CSkipped Interim = 0" "count_of lossy_counters CError Interim = 0"
    "jc_job lossy_counters = Migrate" "wf_counters lossy_counters"
    using c d by (simp_all add: lossy_counters_def processor_contract_def)
qed

definition lossy_run :: sched where
  "lossy_run =
     drive (replicate 11 (0, lossy_counters, Failed (new_error Read ''timeout'')))
       (start_run Migrate 1 1 [TokenRange 0 9] new_control)"

lemma lossy_total:
  "count_of (merge_counters (new_counters Migrate)
      (flush (fst (record_range_failure lossy_counters)))) CError Committed = 2"
proof -
  obtain c l where f: "record_range_failure lossy_counters = (c, l)" by force
  note r = record_range_failure_level [OF lossy_counts(6) f]
  have l: "l = 2" using r(1) by (simp add: lost_rows_def lossy_counts)
  have zero: "count_of lossy_counters CError Committed = 0"
    using lossy_contract by (simp add: processor_contract_def)
  have "count_of (flush c) CError Committed = 2"
    using flush_level(4) [OF r(2), of CError] r(4) [of CError] r(5) [of CError] l zero
    by (simp add: lossy_counts is_registered_for_def)
  then show ?thesis
    using merge_counters_facts(4) [OF wf_new_counters flush_level(2) [OF r(2)], of Migrate CError]
      flush_level(1) [OF r(2)] r(3) f
    by (simp add: lossy_counts)
qed

lemma lossy_run_stops:
  "run_over lossy_run" "count_of (sc_run_counters lossy_run) CError Committed = 2"
  using lossy_contract lossy_total
  by (simp_all add: lossy_run_def drive_simps conclude_range_def fail_range_def run_over_def
      kind_is_fatal_def stop_def)

theorem error_limit_enforced_witness:
  "exit_code (finish_run lossy_run) \<noteq> 0"
proof -
  have reach: "sched_step\<^sup>*\<^sup>* (start_run Migrate 1 1 [TokenRange 0 9] new_control) lossy_run"
    unfolding lossy_run_def by (rule drive_reaches)
  have "sched_inv [TokenRange 0 9] lossy_run" using reachable_inv [OF reach] by simp
  then have "count_of (rr_counters (finish_run lossy_run)) CError Committed = 2"
    using finish_run_counters(1) lossy_run_stops(2) by simp
  then show ?thesis using error_limit_enforced [OF reach _ lossy_run_stops(1)] by simp
qed

subsection \<open>Isolation of a failing range\<close>

text \<open>
  Claim C27. A failing range is contained and accounted for. Whatever the job counted, an error or a panic
  commits exactly one failed partition and adds to \<open>ERROR\<close> exactly the rows read and not otherwise
  accounted for, for the job kinds that keep that counter; a success commits one passed partition and no
  lost rows; a range dropped by a kill commits neither. A panic never stops the run, and an error stops it
  only when its kind is fatal.
\<close>

theorem range_isolation:
  assumes "processor_contract job c" "conclude_range ctl r c res = (ctl', c', out)"
  shows "count_of c' CPartitionsPassed Committed = (case res of Finished _ \<Rightarrow> 1 | _ \<Rightarrow> 0)
    \<and> count_of c' CPartitionsFailed Committed = (case res of Failed _ \<Rightarrow> 1 | Panicked _ \<Rightarrow> 1 | _ \<Rightarrow> 0)
    \<and> count_of c' CError Committed =
        (count_of c CError Interim
          + (if is_registered_for CError job \<and> (case res of Failed _ \<Rightarrow> True | Panicked _ \<Rightarrow> True | _ \<Rightarrow> False)
             then lost_rows c else 0)) mod 2 ^ 64
    \<and> count_of c' CRead Committed = count_of c CRead Interim
    \<and> ctl' = (case res of Failed e \<Rightarrow> if kind_is_fatal (error_kind_of e) then stop Fatal ctl else ctl | _ \<Rightarrow> ctl)"
proof -
  have wf: "wf_counters c" "jc_job c = job" "\<And>k. count_of c k Committed = 0"
    using assms(1) by (auto simp: processor_contract_def)
  have small: "count_of c k Interim < 2 ^ 64" for k
    using wf_unit [OF wf(1), of k] by (simp add: count_of_def unit_ok_def)
  note ok = record_range_success_level [OF wf(1)]
  obtain cf lost where f: "record_range_failure c = (cf, lost)" by force
  note bad = record_range_failure_level [OF wf(1) f]
  note facts = conclude_range_facts [OF assms]
  have c': "c' = (case res of Finished _ \<Rightarrow> flush (record_range_success c) | Dropped \<Rightarrow> flush c | _ \<Rightarrow> flush cf)"
    using assms(2) f by (auto simp: conclude_range_def fail_range_def Let_def split: proc_result.splits)
  have "count_of c' CError Committed =
        (count_of c CError Interim
          + (if is_registered_for CError job \<and> (case res of Failed _ \<Rightarrow> True | Panicked _ \<Rightarrow> True | _ \<Rightarrow> False)
             then lost_rows c else 0)) mod 2 ^ 64"
    and "count_of c' CRead Committed = count_of c CRead Interim"
    using flush_level(4) [OF ok(1)] flush_level(4) [OF bad(2)] flush_level(4) [OF wf(1)]
      ok(3,4) bad(1,4,5) wf(2,3) small [of CRead] small [of CError]
    by (cases res; simp add: c')+
  then show ?thesis using facts by (cases res) (simp_all add: facts(10))
qed

theorem range_isolation_witness:
  "count_of (fst (snd (conclude_range new_control (TokenRange 0 9) lossy_counters (Panicked OtherPayload)))) CError Committed = 2
   \<and> fst (conclude_range new_control (TokenRange 0 9) lossy_counters (Panicked OtherPayload)) = new_control"
proof -
  obtain ctl c out where eq:
    "conclude_range new_control (TokenRange 0 9) lossy_counters (Panicked OtherPayload) = (ctl, c, out)"
    by (metis prod_cases3)
  then show ?thesis
    using range_isolation [OF lossy_contract eq]
    by (simp add: lossy_counts lost_rows_def is_registered_for_def)
qed

subsection \<open>The workers come to an end\<close>

text \<open>
  How many more steps a worker can take without claiming, and how many the run can take: every claim
  pays for one more round of nine steps.
\<close>

fun pc_weight :: "worker_pc \<Rightarrow> nat" where
  "pc_weight (WStart r) = 9"
| "pc_weight (WProcess r) = 8"
| "pc_weight (WMerge c out) = 7"
| "pc_weight (WNotify out) = 6"
| "pc_weight (WPush out) = 5"
| "pc_weight WLimit = 4"
| "pc_weight WWait = 3"
| "pc_weight WStopCheck = 2"
| "pc_weight WClaim = 1"
| "pc_weight WDone = 0"

definition run_measure :: "sched \<Rightarrow> nat" where
  "run_measure s = sum_list (map pc_weight (sc_workers s)) + 9 * remaining (sc_queue s)"

lemma weight_update:
  "i < length ws \<Longrightarrow> sum_list (map pc_weight (ws[i := pc])) + pc_weight (ws ! i)
     = sum_list (map pc_weight ws) + pc_weight pc"
proof (induction ws arbitrary: i)
  case (Cons w ws)
  then show ?case by (cases i) fastforce+
qed simp

lemma claim_remaining:
  "claim q = (q', None) \<Longrightarrow> remaining q' = remaining q"
  "claim q = (q', Some r) \<Longrightarrow> Suc (remaining q') = remaining q"
  using wq.next_none [of q q'] wq.next_some [of q q' r] by (simp_all flip: length_unclaimed)

lemma worker_step_decreases: "worker_step s s' \<Longrightarrow> run_measure s' < run_measure s"
proof (induction rule: worker_step.induct)
  case (exhausted s i q)
  then show ?case using weight_update [of i "sc_workers s" WDone] claim_remaining(1) [of "sc_queue s" q]
    by (simp add: run_measure_def)
next
  case (claims s i q r)
  then show ?case using weight_update [of i "sc_workers s" "WStart r"] claim_remaining(2) [of "sc_queue s" q r]
    by (simp add: run_measure_def)
next
  case (released s i) then show ?case using weight_update [of i "sc_workers s" WStopCheck] by (simp add: run_measure_def)
next
  case (stopped s i) then show ?case using weight_update [of i "sc_workers s" WDone] by (simp add: run_measure_def)
next
  case (proceed s i) then show ?case using weight_update [of i "sc_workers s" WClaim] by (simp add: run_measure_def)
next
  case (starts s i r) then show ?case using weight_update [of i "sc_workers s" "WProcess r"] by (simp add: run_measure_def)
next
  case (processes s i r c res ctl c' out)
  then show ?case using weight_update [of i "sc_workers s" "WMerge c' out"] by (simp add: run_measure_def)
next
  case (merges s i c out) then show ?case using weight_update [of i "sc_workers s" "WNotify out"] by (simp add: run_measure_def)
next
  case (notifies s i out) then show ?case using weight_update [of i "sc_workers s" "WPush out"] by (simp add: run_measure_def)
next
  case (pushes s i out) then show ?case using weight_update [of i "sc_workers s" WLimit] by (simp add: run_measure_def)
next
  case (limits s i) then show ?case using weight_update [of i "sc_workers s" WWait] by (simp add: run_measure_def)
qed

text \<open>
  A call of a job ends when the job returns. \<open>live_step returns\<close> are the worker steps of a run in which
  the job returns for the ranges in \<open>returns\<close> and is still awaited for the others; a kill ends the wait
  for every range, because the scheduler then drops the job.
\<close>

definition live_step :: "(token_range \<Rightarrow> bool) \<Rightarrow> sched \<Rightarrow> sched \<Rightarrow> bool" where
  "live_step returns s s' \<longleftrightarrow> worker_step s s' \<and>
     (\<forall>i r. at_pc s i (WProcess r) \<longrightarrow> at_pc s' i (WProcess r) \<or> returns r \<or> rc_killed (sc_control s))"

definition awaits_job :: "(token_range \<Rightarrow> bool) \<Rightarrow> run_control \<Rightarrow> worker_pc \<Rightarrow> bool" where
  "awaits_job returns ctl pc \<longleftrightarrow> (\<exists>r. pc = WProcess r \<and> \<not> returns r \<and> \<not> rc_killed ctl)"

lemma other_worker_kept:
  "\<lbrakk>at_pc s i pc; worker_step s (set_pc i pc' t); sc_workers t = sc_workers s; \<not> awaits_job returns (sc_control s) pc\<rbrakk>
     \<Longrightarrow> live_step returns s (set_pc i pc' t)"
  by (auto simp: live_step_def awaits_job_def set_pc_def nth_list_update)

text \<open>A worker that has not left its loop can move, unless it is the pause or its job that holds it.\<close>

lemma live_progress:
  assumes "wait_released (sc_control s)" "pc \<in> set (sc_workers s)" "pc \<noteq> WDone" "\<not> awaits_job returns (sc_control s) pc"
  shows "\<exists>s'. live_step returns s s'"
proof -
  obtain i where i: "at_pc s i pc" using assms(2) by (auto simp: in_set_conv_nth)
  have live: "worker_step s (set_pc i pc' t) \<Longrightarrow> sc_workers t = sc_workers s \<Longrightarrow> \<exists>s'. live_step returns s s'" for pc' t
    using other_worker_kept [OF i _ _ assms(4)] by blast
  show ?thesis
  proof (cases pc)
    case WWait
    with i assms(1) show ?thesis using live [OF released] by fastforce
  next
    case WStopCheck
    with i show ?thesis using live [OF stopped] live [OF proceed] by (cases "rc_stopping (sc_control s)") fastforce+
  next
    case WClaim
    obtain q x where q: "claim (sc_queue s) = (q, x)" by force
    with WClaim i show ?thesis using live [OF exhausted] live [OF claims] by (cases x) fastforce+
  next
    case (WStart r)
    with i show ?thesis using live [OF starts] by fastforce
  next
    case (WProcess r)
    obtain ctl c out where "conclude_range (sc_control s) r (new_counters (sc_job s)) (Finished VPass) = (ctl, c, out)"
      by (metis prod_cases3)
    then have "worker_step s (set_pc i (WMerge c out) (s\<lparr>sc_control := ctl\<rparr>))"
      using WProcess i by (intro processes [OF _ new_counters_contract]) auto
    then show ?thesis using live by fastforce
  next
    case (WMerge c out)
    with i show ?thesis using live [OF merges] by fastforce
  next
    case (WNotify out)
    with i show ?thesis using live [OF notifies] by fastforce
  next
    case (WPush out)
    with i show ?thesis using live [OF pushes] by fastforce
  next
    case WLimit
    with i show ?thesis using live [OF limits] by fastforce
  qed (use assms(3) in simp)
qed

lemma wait_released_kept: "worker_step s s' \<Longrightarrow> wait_released (sc_control s) \<Longrightarrow> wait_released (sc_control s')"
proof (induction rule: worker_step.induct)
  case (processes s i r c res ctl c' out)
  then show ?case using conclude_range_facts(10) [OF processes(2,4)]
    by (auto simp: wait_released_def stop_def split: proc_result.splits)
qed (auto simp: wait_released_def enforce_error_limit_def stop_def)

text \<open>
  Claim C28. The workers come to an end as far as their jobs do: from a run that is not held by a pause, no
  sequence of worker steps is longer than three per worker and nine per unclaimed range (plus the rounds
  already begun), and wherever none of them can move any more every worker has left its loop or awaits
  a job that does not return and that no kill has dropped. So all of them leave the loop when every job
  returns, and after a kill whether the jobs return or not.
\<close>

theorem workers_terminate:
  assumes "wait_released (sc_control s)" "(live_step returns ^^ k) s s'"
  shows "k \<le> run_measure s
    \<and> ((\<nexists>s''. live_step returns s' s'') \<longrightarrow>
         (\<forall>pc \<in> set (sc_workers s'). pc = WDone \<or> awaits_job returns (sc_control s') pc)
         \<and> ((\<forall>r. returns r) \<or> rc_killed (sc_control s') \<longrightarrow> run_over s'))"
proof -
  have "k + run_measure s' \<le> run_measure s \<and> wait_released (sc_control s')"
    using assms
  proof (induction k arbitrary: s')
    case (Suc k)
    then obtain t where t: "(live_step returns ^^ k) s t" "live_step returns t s'" by auto
    then have "worker_step t s'" by (simp add: live_step_def)
    then show ?case
      using Suc.IH [OF Suc.prems(1) t(1)] worker_step_decreases [of t s'] wait_released_kept [of t s'] by simp
  qed simp
  moreover have "\<forall>pc \<in> set (sc_workers s'). pc = WDone \<or> awaits_job returns (sc_control s') pc"
    if "\<nexists>s''. live_step returns s' s''" "wait_released (sc_control s')"
    using live_progress that by blast
  ultimately show ?thesis by (auto simp: run_over_def awaits_job_def)
qed

theorem workers_terminate_witness:
  "\<not> (\<exists>s'. (live_step (\<lambda>r. tr_min r = 0) ^^ 13) (start_run Migrate 0 1 [TokenRange 0 9] new_control) s')"
proof -
  have "run_measure (start_run Migrate 0 1 [TokenRange 0 9] new_control) = 12"
    by (simp add: run_measure_def start_run_def remaining_def claimed_def new_queue_def)
  then show ?thesis
    using workers_terminate [of "start_run Migrate 0 1 [TokenRange 0 9] new_control" 13]
    by (force simp: wait_released_def new_control_def)
qed

end
