(* ===== verification/Ordered_Map.thy ===== *)
theory Ordered_Map
  imports Prelude
begin

text \<open>
  The standard library's \<open>BTreeMap\<close>, as the tracking and lease stores use it: an association list
  kept in strictly ascending key order, so that \<open>values\<close> enumerates in key order as the iterator of
  the Rust type does. \<open>omap_ok\<close> is the representation invariant; lookup is \<open>map_of\<close>, and insertion
  is the update of the finite map it denotes.
\<close>

type_synonym ('k, 'v) omap = "('k \<times> 'v) list"

fun omap_insert :: "'k :: linorder \<Rightarrow> 'v \<Rightarrow> ('k, 'v) omap \<Rightarrow> ('k, 'v) omap" where
  "omap_insert k v [] = [(k, v)]"
| "omap_insert k v ((a, b) # m) =
     (if k < a then (k, v) # (a, b) # m
      else if k = a then (k, v) # m
      else (a, b) # omap_insert k v m)"

definition omap_values :: "('k, 'v) omap \<Rightarrow> 'v list" where
  "omap_values m = map snd m"

definition omap_ok :: "('k :: linorder, 'v) omap \<Rightarrow> bool" where
  "omap_ok m \<longleftrightarrow> sorted_wrt (<) (map fst m)"

lemma omap_ok_Nil [simp]: "omap_ok []"
  by (simp add: omap_ok_def)

lemma omap_ok_distinct: "omap_ok m \<Longrightarrow> distinct (map fst m)"
  by (auto simp: omap_ok_def strict_sorted_iff)

lemma map_of_omap_insert [simp]: "map_of (omap_insert k v m) = (map_of m)(k \<mapsto> v)"
  by (induction k v m rule: omap_insert.induct) (auto simp: fun_eq_iff)

lemma keys_omap_insert [simp]: "fst ` set (omap_insert k v m) = insert k (fst ` set m)"
  by (induction k v m rule: omap_insert.induct) auto

lemma omap_ok_insert [simp]: "omap_ok m \<Longrightarrow> omap_ok (omap_insert k v m)"
proof (induction k v m rule: omap_insert.induct)
  case (2 k v a b m)
  have "set (map fst (omap_insert k v m)) = insert k (set (map fst m))" by simp
  with 2 show ?case by (auto simp: omap_ok_def)
qed (simp add: omap_ok_def)

lemma omap_values_member: "v \<in> set (omap_values m) \<longleftrightarrow> (\<exists>k. (k, v) \<in> set m)"
  by (force simp: omap_values_def)

lemma omap_values_lookup: "omap_ok m \<Longrightarrow> v \<in> set (omap_values m) \<longleftrightarrow> (\<exists>k. map_of m k = Some v)"
  using omap_ok_distinct [of m] by (auto simp: omap_values_member)

text \<open>Two ordered maps with the same lookup are the same list: the order is canonical.\<close>

lemma omap_ext:
  assumes "omap_ok m" "omap_ok n" "map_of m = map_of n"
  shows "m = n"
proof -
  have d: "distinct (map fst m)" "distinct (map fst n)"
    using assms omap_ok_distinct by auto
  have "set m = set n" using assms(3) by (simp add: map_of_inject_set d)
  moreover have "sorted (map fst m)" "sorted (map fst n)"
    using assms by (auto simp: omap_ok_def strict_sorted_iff)
  ultimately show ?thesis
    using d by (intro map_sorted_distinct_set_unique [of fst]) (auto simp: distinct_map)
qed

text \<open>Inserting one value per element of a list, each under its own key.\<close>

lemma map_of_fold_insert:
  "map_of (fold (\<lambda>x. omap_insert (key x) (val x)) xs m) =
     fold (\<lambda>x f. f(key x \<mapsto> val x)) xs (map_of m)"
  by (induction xs arbitrary: m) simp_all

lemma omap_ok_fold_insert: "omap_ok m \<Longrightarrow> omap_ok (fold (\<lambda>x. omap_insert (key x) (val x)) xs m)"
  by (induction xs arbitrary: m) simp_all

lemma mset_omap_insert_new:
  "k \<notin> fst ` set m \<Longrightarrow> mset (omap_insert k v m) = add_mset (k, v) (mset m)"
  by (induction k v m rule: omap_insert.induct) auto

lemma mset_fold_insert_new:
  assumes "distinct (map key xs)" "\<forall>x \<in> set xs. key x \<notin> fst ` set m"
  shows "mset (fold (\<lambda>x. omap_insert (key x) (val x)) xs m) = mset m + mset (map (\<lambda>x. (key x, val x)) xs)"
  using assms
proof (induction xs arbitrary: m)
  case (Cons x xs)
  have "\<forall>y \<in> set xs. key y \<notin> fst ` set (omap_insert (key x) (val x) m)"
    using Cons.prems by (auto simp: image_iff)
  with Cons show ?case by (simp add: mset_omap_insert_new)
qed simp

end
