(* ===== verification/Track_Store.thy ===== *)
theory Track_Store
  imports Ordered_Map Core_Token Core_Run
begin

text \<open>
  The tracking tables and their in-process backend: the row types of
  \<open>crates/cdm-core/src/registry/context.rs\<close>, \<open>decode_status\<close> of \<open>crates/cdm-track/src/store/mod.rs\<close> and
  the whole of \<open>crates/cdm-track/src/store/memory.rs\<close>, the \<open>TrackingStore\<close> and \<open>LeaseStore\<close> methods of
  \<open>MemoryStore\<close>. Every method holds the store's one mutex, so it is one atomic transition: a function
  from the store to its result and the new store. An instant is a number of nanoseconds since the
  Unix epoch; a method that reads the wall clock takes the reading as an argument.
\<close>

subsection \<open>The rows\<close>

type_synonym instant = int

definition UNIX_EPOCH :: instant where "UNIX_EPOCH = 0"

record run_record =
  rr_run_id :: run_id
  rr_previous_run_id :: "run_id option"
  rr_table :: table_ref
  rr_job :: job_kind
  rr_status :: run_status
  rr_started_at :: "instant option"
  rr_ended_at :: "instant option"
  rr_info :: "string option"

record lease_record =
  lr_token_min :: i64
  lr_node_id :: string
  lr_lease_until :: instant
  lr_attempt :: u32

datatype run_claim = Won | Lost run_record

datatype lease_outcome = Granted lease_record | Denied lease_record

record range_record =
  dr_range :: token_range
  dr_status :: run_status
  dr_started_at :: "instant option"
  dr_info :: "string option"

definition decode_status :: "string option \<Rightarrow> run_status" where
  "decode_status raw =
     (case raw of
        None \<Rightarrow> Started
      | Some s \<Rightarrow> (case status_from_str s of Inr st \<Rightarrow> st | Inl _ \<Rightarrow> Started))"

subsection \<open>The store\<close>

record stored_run =
  sr_info :: run_record
  sr_ranges :: "(i128, range_record) omap"
  sr_leases :: "(i64, lease_record) omap"

type_synonym memory_store = "(i64, stored_run) omap"

definition show_run_id :: "run_id \<Rightarrow> string" where
  "show_run_id r = show_int (as_i64 r)"

definition fresh_row :: "range_record \<Rightarrow> range_record" where
  "fresh_row r = \<lparr> dr_range = dr_range r, dr_status = NotStarted, dr_started_at = None, dr_info = None \<rparr>"

definition planned_rows :: "range_record list \<Rightarrow> (i128, range_record) omap" where
  "planned_rows ranges = fold (\<lambda>r. omap_insert (tr_min (dr_range r)) (fresh_row r)) ranges []"

definition runs_for :: "memory_store \<Rightarrow> table_ref \<Rightarrow> job_kind \<Rightarrow> run_record list" where
  "runs_for st tbl job =
     sort_key (\<lambda>r. - as_i64 (rr_run_id r))
       (map sr_info (filter (\<lambda>s. rr_table (sr_info s) = tbl \<and> rr_job (sr_info s) = job) (omap_values st)))"

definition create_run ::
  "run_record \<Rightarrow> range_record list \<Rightarrow> memory_store \<Rightarrow> unit result \<times> memory_store" where
  "create_run run ranges st =
     (case map_of st (as_i64 (rr_run_id run)) of
        Some _ \<Rightarrow> (Inl (new_error Tracking (''run id '' @ show_run_id (rr_run_id run)
                     @ '' already exists for table '' @ show_table (rr_table run))), st)
      | None \<Rightarrow>
          (let stored = \<lparr> sr_info = run\<lparr>rr_status := NotStarted\<rparr>, sr_ranges = [], sr_leases = [] \<rparr>;
               stored1 = stored\<lparr>sr_ranges := planned_rows ranges\<rparr>;
               stored2 = stored1\<lparr>sr_info := (sr_info stored1)\<lparr>rr_status := Started\<rparr>\<rparr>
           in (Inr (), omap_insert (as_i64 (rr_run_id run)) stored2 st)))"

definition run_missing :: "run_id \<Rightarrow> cdm_error" where
  "run_missing run = new_error Tracking (''run '' @ show_run_id run @ '' does not exist'')"

definition finish_row :: "instant \<Rightarrow> run_status \<Rightarrow> string option \<Rightarrow> run_record \<Rightarrow> run_record" where
  "finish_row now status info r =
     (let r1 = r\<lparr>rr_status := status\<rparr>;
          r2 = (case info of Some i \<Rightarrow> r1\<lparr>rr_info := Some i\<rparr> | None \<Rightarrow> r1)
      in if status = Ended then r2\<lparr>rr_ended_at := Some now\<rparr> else r2)"

definition update_run ::
  "instant \<Rightarrow> run_id \<Rightarrow> run_status \<Rightarrow> string option \<Rightarrow> memory_store \<Rightarrow> unit result \<times> memory_store" where
  "update_run now run status info st =
     (case map_of st (as_i64 run) of
        None \<Rightarrow> (Inl (run_missing run), st)
      | Some stored \<Rightarrow>
          (Inr (), omap_insert (as_i64 run) (stored\<lparr>sr_info := finish_row now status info (sr_info stored)\<rparr>) st))"

definition merge_row :: "range_record \<Rightarrow> range_record \<Rightarrow> range_record" where
  "merge_row entry r =
     (let e1 = entry\<lparr>dr_status := dr_status r, dr_range := dr_range r\<rparr>;
          e2 = (if dr_started_at r \<noteq> None then e1\<lparr>dr_started_at := dr_started_at r\<rparr> else e1)
      in if dr_info r \<noteq> None then e2\<lparr>dr_info := dr_info r\<rparr> else e2)"

definition upsert_row :: "range_record \<Rightarrow> (i128, range_record) omap \<Rightarrow> (i128, range_record) omap" where
  "upsert_row r rows =
     (let key = tr_min (dr_range r);
          entry = (case map_of rows key of Some e \<Rightarrow> e | None \<Rightarrow> r)
      in omap_insert key (merge_row entry r) rows)"

definition update_range :: "run_id \<Rightarrow> range_record \<Rightarrow> memory_store \<Rightarrow> unit result \<times> memory_store" where
  "update_range run r st =
     (case map_of st (as_i64 run) of
        None \<Rightarrow> (Inl (run_missing run), st)
      | Some stored \<Rightarrow>
          (Inr (), omap_insert (as_i64 run) (stored\<lparr>sr_ranges := upsert_row r (sr_ranges stored)\<rparr>) st))"

definition get_run :: "run_id \<Rightarrow> memory_store \<Rightarrow> run_record option" where
  "get_run run st = map_option sr_info (map_of st (as_i64 run))"

definition get_ranges :: "run_id \<Rightarrow> memory_store \<Rightarrow> range_record list" where
  "get_ranges run st =
     (case map_of st (as_i64 run) of Some stored \<Rightarrow> omap_values (sr_ranges stored) | None \<Rightarrow> [])"

definition latest_run :: "table_ref \<Rightarrow> job_kind \<Rightarrow> memory_store \<Rightarrow> run_record option" where
  "latest_run tbl job st = (case runs_for st tbl job of [] \<Rightarrow> None | r # _ \<Rightarrow> Some r)"

subsection \<open>The lease methods\<close>

definition lease_key :: "token_range \<Rightarrow> i64 result" where
  "lease_key r =
     (if in_i64 (tr_min r) then Inr (tr_min r)
      else Inl (new_error Lease (''token '' @ show_int (tr_min r) @ '' of range '' @ show_range r
                  @ '' does not fit in a bigint'')))"

definition initialise_run ::
  "run_record \<Rightarrow> range_record list \<Rightarrow> string \<Rightarrow> memory_store \<Rightarrow> run_claim result \<times> memory_store" where
  "initialise_run run ranges config_hash st =
     (case map_of st (as_i64 (rr_run_id run)) of
        Some existing \<Rightarrow> (Inr (Lost (sr_info existing)), st)
      | None \<Rightarrow>
          (Inr Won,
           omap_insert (as_i64 (rr_run_id run))
             \<lparr> sr_info = run\<lparr>rr_info := Some config_hash, rr_status := Started\<rparr>,
               sr_ranges = planned_rows ranges, sr_leases = [] \<rparr> st))"

definition get_lease :: "run_id \<Rightarrow> token_range \<Rightarrow> memory_store \<Rightarrow> lease_record option result" where
  "get_lease run r st =
     bindR (lease_key r) (\<lambda>key.
       Inr (case map_of st (as_i64 run) of
              None \<Rightarrow> None | Some stored \<Rightarrow> map_of (sr_leases stored) key))"

definition put_lease :: "run_id \<Rightarrow> lease_record \<Rightarrow> stored_run \<Rightarrow> memory_store \<Rightarrow> memory_store" where
  "put_lease run row stored st =
     omap_insert (as_i64 run)
       (stored\<lparr>sr_leases := omap_insert (lr_token_min row) row (sr_leases stored)\<rparr>) st"

definition claim_range ::
  "run_id \<Rightarrow> token_range \<Rightarrow> string \<Rightarrow> instant \<Rightarrow> instant \<Rightarrow> lease_record option \<Rightarrow> memory_store
     \<Rightarrow> lease_outcome result \<times> memory_store" where
  "claim_range run r node now lease_until observed st =
     (case lease_key r of
        Inl e \<Rightarrow> (Inl e, st)
      | Inr key \<Rightarrow>
          (case map_of st (as_i64 run) of
             None \<Rightarrow> (Inl (new_error Lease (''run '' @ show_run_id run
                        @ '' does not exist, so its ranges cannot be leased'')), st)
           | Some stored \<Rightarrow>
               (let grant = (\<lambda>attempt.
                      let granted = \<lparr> lr_token_min = key, lr_node_id = node,
                                      lr_lease_until = lease_until, lr_attempt = attempt \<rparr>
                      in (Inr (Granted granted), put_lease run granted stored st))
                in case (map_of (sr_leases stored) key, observed) of
                     (Some current, None) \<Rightarrow> (Inr (Denied current), st)
                   | (Some current, Some hint) \<Rightarrow>
                       (if lr_lease_until current > now then (Inr (Denied current), st)
                        else grant (sat_add u32_max (lr_attempt hint) 1))
                   | (None, Some hint) \<Rightarrow> (Inr (Denied hint), st)
                   | (None, None) \<Rightarrow> grant 1)))"

definition renew_lease ::
  "run_id \<Rightarrow> token_range \<Rightarrow> string \<Rightarrow> instant \<Rightarrow> memory_store \<Rightarrow> bool result \<times> memory_store" where
  "renew_lease run r node lease_until st =
     (case lease_key r of
        Inl e \<Rightarrow> (Inl e, st)
      | Inr key \<Rightarrow>
          (case map_of st (as_i64 run) of
             None \<Rightarrow> (Inr False, st)
           | Some stored \<Rightarrow>
               (case map_of (sr_leases stored) key of
                  None \<Rightarrow> (Inr False, st)
                | Some current \<Rightarrow>
                    (if lr_node_id current = node
                     then (Inr True,
                           omap_insert (as_i64 run) (stored\<lparr>sr_leases :=
                             omap_insert key (current\<lparr>lr_lease_until := lease_until\<rparr>) (sr_leases stored)\<rparr>) st)
                     else (Inr False, st)))))"

definition release_lease ::
  "run_id \<Rightarrow> token_range \<Rightarrow> string \<Rightarrow> memory_store \<Rightarrow> bool result \<times> memory_store" where
  "release_lease run r node st = renew_lease run r node UNIX_EPOCH st"

definition get_leases :: "run_id \<Rightarrow> memory_store \<Rightarrow> lease_record list" where
  "get_leases run st =
     (case map_of st (as_i64 run) of Some stored \<Rightarrow> omap_values (sr_leases stored) | None \<Rightarrow> [])"

subsection \<open>The backend traits\<close>

text \<open>
  A trait object is the record of its methods over the backend's state \<open>'s\<close>; \<open>LeaseStore\<close> extends
  \<open>TrackingStore\<close> as the supertrait does. \<open>memory_ops\<close> is the implementation for \<open>MemoryStore\<close>.
\<close>

record 's tracking_ops =
  ts_initialise :: "'s \<Rightarrow> unit result \<times> 's"
  ts_create_run :: "run_record \<Rightarrow> range_record list \<Rightarrow> 's \<Rightarrow> unit result \<times> 's"
  ts_update_run :: "instant \<Rightarrow> run_id \<Rightarrow> run_status \<Rightarrow> string option \<Rightarrow> 's \<Rightarrow> unit result \<times> 's"
  ts_update_range :: "run_id \<Rightarrow> range_record \<Rightarrow> 's \<Rightarrow> unit result \<times> 's"
  ts_run :: "run_id \<Rightarrow> 's \<Rightarrow> run_record option result"
  ts_ranges :: "run_id \<Rightarrow> 's \<Rightarrow> range_record list result"
  ts_latest_run :: "table_ref \<Rightarrow> job_kind \<Rightarrow> 's \<Rightarrow> run_record option result"

record 's lease_ops = "'s tracking_ops" +
  ls_initialise_leases :: "'s \<Rightarrow> unit result \<times> 's"
  ls_initialise_run :: "run_record \<Rightarrow> range_record list \<Rightarrow> string \<Rightarrow> 's \<Rightarrow> run_claim result \<times> 's"
  ls_lease :: "run_id \<Rightarrow> token_range \<Rightarrow> 's \<Rightarrow> lease_record option result"
  ls_claim_range :: "run_id \<Rightarrow> token_range \<Rightarrow> string \<Rightarrow> instant \<Rightarrow> instant \<Rightarrow> lease_record option \<Rightarrow> 's
     \<Rightarrow> lease_outcome result \<times> 's"
  ls_renew_lease :: "run_id \<Rightarrow> token_range \<Rightarrow> string \<Rightarrow> instant \<Rightarrow> 's \<Rightarrow> bool result \<times> 's"
  ls_release_lease :: "run_id \<Rightarrow> token_range \<Rightarrow> string \<Rightarrow> 's \<Rightarrow> bool result \<times> 's"
  ls_leases :: "run_id \<Rightarrow> 's \<Rightarrow> lease_record list result"

definition memory_ops :: "memory_store lease_ops" where
  "memory_ops =
     \<lparr> ts_initialise = (\<lambda>st. (Inr (), st)), ts_create_run = create_run, ts_update_run = update_run,
       ts_update_range = update_range, ts_run = (\<lambda>run st. Inr (get_run run st)),
       ts_ranges = (\<lambda>run st. Inr (get_ranges run st)),
       ts_latest_run = (\<lambda>tbl job st. Inr (latest_run tbl job st)),
       ls_initialise_leases = (\<lambda>st. (Inr (), st)), ls_initialise_run = initialise_run,
       ls_lease = get_lease, ls_claim_range = claim_range, ls_renew_lease = renew_lease,
       ls_release_lease = release_lease, ls_leases = (\<lambda>run st. Inr (get_leases run st)) \<rparr>"

lemma memory_ops_fields [simp]:
  "ts_initialise memory_ops = (\<lambda>st. (Inr (), st))" "ts_create_run memory_ops = create_run"
  "ts_update_run memory_ops = update_run" "ts_update_range memory_ops = update_range"
  "ts_run memory_ops = (\<lambda>run st. Inr (get_run run st))"
  "ts_ranges memory_ops = (\<lambda>run st. Inr (get_ranges run st))"
  "ls_initialise_leases memory_ops = (\<lambda>st. (Inr (), st))"
  "ls_initialise_run memory_ops = initialise_run" "ls_lease memory_ops = get_lease"
  "ls_claim_range memory_ops = claim_range" "ls_renew_lease memory_ops = renew_lease"
  "ls_release_lease memory_ops = release_lease"
  by (simp_all add: memory_ops_def)

subsection \<open>The invariant of the store\<close>

text \<open>
  Every map is in key order, a run is filed under its own id, a range row under its lower bound, and a
  lease row under the lower bound it names.
\<close>

definition stored_ok :: "i64 \<Rightarrow> stored_run \<Rightarrow> bool" where
  "stored_ok key s \<longleftrightarrow> as_i64 (rr_run_id (sr_info s)) = key
     \<and> omap_ok (sr_ranges s) \<and> (\<forall>(k, r) \<in> set (sr_ranges s). tr_min (dr_range r) = k)
     \<and> omap_ok (sr_leases s) \<and> (\<forall>(k, l) \<in> set (sr_leases s). lr_token_min l = k)"

definition store_ok :: "memory_store \<Rightarrow> bool" where
  "store_ok st \<longleftrightarrow> omap_ok st \<and> (\<forall>(k, s) \<in> set st. stored_ok k s)"

lemma set_omap_insert: "set (omap_insert k v m) \<subseteq> insert (k, v) (set m)"
  by (induction k v m rule: omap_insert.induct) auto

lemma store_ok_insert: "store_ok st \<Longrightarrow> stored_ok k s \<Longrightarrow> store_ok (omap_insert k s st)"
  using set_omap_insert [of k s st] by (auto simp: store_ok_def)

lemma store_ok_lookup: "store_ok st \<Longrightarrow> map_of st k = Some s \<Longrightarrow> stored_ok k s"
  by (auto simp: store_ok_def dest!: map_of_SomeD)

lemma planned_rows_ok:
  "omap_ok (planned_rows ranges)" "(k, r) \<in> set (planned_rows ranges) \<Longrightarrow> tr_min (dr_range r) = k"
proof -
  show "omap_ok (planned_rows ranges)" by (simp add: planned_rows_def omap_ok_fold_insert)
  have "\<forall>(k, r) \<in> set (fold (\<lambda>r. omap_insert (tr_min (dr_range r)) (fresh_row r)) ranges m).
      tr_min (dr_range r) = k" if "\<forall>(k, r) \<in> set m. tr_min (dr_range r) = k" for m
    using that
  proof (induction ranges arbitrary: m)
    case (Cons x xs)
    have "\<forall>(k, r) \<in> set (omap_insert (tr_min (dr_range x)) (fresh_row x) m). tr_min (dr_range r) = k"
      using Cons.prems set_omap_insert [of "tr_min (dr_range x)" "fresh_row x" m]
      by (auto simp: fresh_row_def)
    then show ?case using Cons.IH by simp
  qed simp
  from this [of "[]"] show "(k, r) \<in> set (planned_rows ranges) \<Longrightarrow> tr_min (dr_range r) = k"
    by (auto simp: planned_rows_def)
qed

lemma merge_row_range [simp]: "dr_range (merge_row e r) = dr_range r" "dr_status (merge_row e r) = dr_status r"
  by (simp_all add: merge_row_def Let_def)

lemma stored_ok_upsert: "stored_ok k s \<Longrightarrow> stored_ok k (s\<lparr>sr_ranges := upsert_row r (sr_ranges s)\<rparr>)"
  using set_omap_insert by (fastforce simp: stored_ok_def upsert_row_def Let_def)

lemma stored_ok_lease:
  "stored_ok k s \<Longrightarrow> lr_token_min l = t \<Longrightarrow> stored_ok k (s\<lparr>sr_leases := omap_insert t l (sr_leases s)\<rparr>)"
  using set_omap_insert by (fastforce simp: stored_ok_def)

lemma finish_row_id [simp]: "rr_run_id (finish_row now status info r) = rr_run_id r"
  by (simp add: finish_row_def Let_def split: option.split)

lemma stored_ok_new:
  "as_i64 (rr_run_id r) = k \<Longrightarrow> stored_ok k \<lparr> sr_info = r, sr_ranges = planned_rows ranges, sr_leases = [] \<rparr>"
  using planned_rows_ok(2) [of _ _ ranges] by (auto simp: stored_ok_def planned_rows_ok(1))

lemma store_ok_create: "store_ok st \<Longrightarrow> store_ok (snd (create_run run ranges st))"
  by (auto simp: create_run_def Let_def intro!: store_ok_insert stored_ok_new split: option.split)

lemma store_ok_initialise: "store_ok st \<Longrightarrow> store_ok (snd (initialise_run run ranges h st))"
  by (auto simp: initialise_run_def intro!: store_ok_insert stored_ok_new split: option.split)

lemma store_ok_update_run: "store_ok st \<Longrightarrow> store_ok (snd (update_run now run status info st))"
  using store_ok_lookup [of st "as_i64 run"]
  by (auto simp: update_run_def stored_ok_def intro!: store_ok_insert split: option.split)

lemma store_ok_update_range: "store_ok st \<Longrightarrow> store_ok (snd (update_range run r st))"
  by (auto simp: update_range_def intro!: store_ok_insert stored_ok_upsert intro: store_ok_lookup
      split: option.split)

lemma store_ok_claim: "store_ok st \<Longrightarrow> store_ok (snd (claim_range run r node now until observed st))"
  by (auto simp: claim_range_def put_lease_def Let_def intro!: store_ok_insert stored_ok_lease
      intro: store_ok_lookup split: sum.split option.split)

lemma store_ok_renew: "store_ok st \<Longrightarrow> store_ok (snd (renew_lease run r node until st))"
proof (cases "lease_key r")
  case (Inr key)
  assume ok: "store_ok st"
  have "lr_token_min l = key" if "map_of st (as_i64 run) = Some s" "map_of (sr_leases s) key = Some l" for s l
    using store_ok_lookup [OF ok that(1)] map_of_SomeD [OF that(2)] by (auto simp: stored_ok_def)
  then show ?thesis
    using ok by (auto simp: renew_lease_def Inr intro!: store_ok_insert stored_ok_lease
      intro: store_ok_lookup split: option.split)
qed (simp add: renew_lease_def)

subsection \<open>What the methods write\<close>

definition detail :: "run_id \<Rightarrow> i128 \<Rightarrow> memory_store \<Rightarrow> range_record option" where
  "detail run key st = (case map_of st (as_i64 run) of None \<Rightarrow> None | Some s \<Rightarrow> map_of (sr_ranges s) key)"

lemma get_ranges_detail:
  assumes "store_ok st"
  shows "r \<in> set (get_ranges run st) \<longleftrightarrow> detail run (tr_min (dr_range r)) st = Some r"
proof (cases "map_of st (as_i64 run)")
  case (Some s)
  then have ok: "stored_ok (as_i64 run) s" using assms store_ok_lookup by blast
  then have "(k, r) \<in> set (sr_ranges s) \<longleftrightarrow> map_of (sr_ranges s) k = Some r" for k
    by (simp add: stored_ok_def omap_ok_distinct)
  moreover have "(k, r) \<in> set (sr_ranges s) \<Longrightarrow> tr_min (dr_range r) = k" for k
    using ok by (auto simp: stored_ok_def)
  ultimately show ?thesis by (auto simp: get_ranges_def detail_def Some omap_values_member)
qed (simp add: get_ranges_def detail_def)

lemma detail_key: "store_ok st \<Longrightarrow> detail run key st = Some r \<Longrightarrow> tr_min (dr_range r) = key"
  using store_ok_lookup [of st "as_i64 run"]
  by (auto simp: detail_def stored_ok_def split: option.splits dest!: map_of_SomeD [of "sr_ranges _"])

lemma update_range_detail:
  "get_run run st \<noteq> None \<Longrightarrow>
     detail run key (snd (update_range run r st)) =
       (if key = tr_min (dr_range r)
        then Some (merge_row (case detail run key st of Some e \<Rightarrow> e | None \<Rightarrow> r) r)
        else detail run key st)"
  by (auto simp: update_range_def detail_def get_run_def upsert_row_def Let_def split: option.split)

lemma update_range_other: "as_i64 run' \<noteq> as_i64 run \<Longrightarrow> detail run' key (snd (update_range run r st)) = detail run' key st"
  by (auto simp: update_range_def detail_def split: option.split)

lemma update_range_run [simp]: "get_run run' (snd (update_range run r st)) = get_run run' st"
  by (auto simp: update_range_def get_run_def split: option.split)

lemma update_run_detail [simp]: "detail run' key (snd (update_run now run status info st)) = detail run' key st"
  by (auto simp: update_run_def detail_def split: option.split)

lemma update_run_run:
  "get_run run (snd (update_run now run status info st)) = map_option (finish_row now status info) (get_run run st)"
  by (auto simp: update_run_def get_run_def split: option.split)

lemma create_run_cases:
  "get_run (rr_run_id run) st \<noteq> None \<Longrightarrow>
     \<exists>e. create_run run ranges st = (Inl e, st) \<and> error_kind_of e = Tracking"
  "get_run (rr_run_id run) st = None \<Longrightarrow>
     \<exists>st'. create_run run ranges st = (Inr (), st')
       \<and> get_run (rr_run_id run) st' = Some (run\<lparr>rr_status := Started\<rparr>)
       \<and> get_ranges (rr_run_id run) st' = omap_values (planned_rows ranges)
       \<and> (\<forall>other. as_i64 other \<noteq> as_i64 (rr_run_id run) \<longrightarrow>
             get_run other st' = get_run other st \<and> get_ranges other st' = get_ranges other st)"
  by (auto simp: create_run_def get_run_def get_ranges_def Let_def)

text \<open>A plan whose ranges have different lower bounds is recorded row for row.\<close>

lemma planned_rows_mset:
  assumes "distinct (map (\<lambda>r. tr_min (dr_range r)) ranges)"
  shows "mset (omap_values (planned_rows ranges)) = mset (map fresh_row ranges)"
  using mset_fold_insert_new [of "\<lambda>r. tr_min (dr_range r)" ranges "[]" fresh_row] assms
  by (simp add: omap_values_def planned_rows_def multiset.map_comp comp_def)

lemma sort_key_head: "sort_key f xs = x # ys \<Longrightarrow> x \<in> set xs \<and> (\<forall>y \<in> set xs. f x \<le> f y)"
proof -
  assume "sort_key f xs = x # ys"
  then have "set xs = set (x # ys)" "sorted (map f (x # ys))"
    by (metis set_sort, metis sorted_sort_key)
  then show ?thesis by auto
qed

lemma latest_run_newest:
  assumes "store_ok st" "latest_run tbl job st = Some r"
  shows "get_run (rr_run_id r) st = Some r" "rr_table r = tbl" "rr_job r = job"
    "get_run run st = Some q \<Longrightarrow> rr_table q = tbl \<Longrightarrow> rr_job q = job \<Longrightarrow> as_i64 run \<le> as_i64 (rr_run_id r)"
proof -
  obtain ys where "runs_for st tbl job = r # ys"
    using assms(2) by (auto simp: latest_run_def split: list.splits)
  note head = sort_key_head [OF this [unfolded runs_for_def]]
  then obtain k s where k: "map_of st k = Some s" "sr_info s = r" "rr_table r = tbl" "rr_job r = job"
    using assms(1) by (auto simp: store_ok_def omap_values_lookup)
  then have "as_i64 (rr_run_id r) = k" using store_ok_lookup [OF assms(1) k(1)] by (simp add: stored_ok_def)
  with k show "get_run (rr_run_id r) st = Some r" "rr_table r = tbl" "rr_job r = job"
    by (simp_all add: get_run_def)
  assume q: "get_run run st = Some q" "rr_table q = tbl" "rr_job q = job"
  then obtain s' where s': "map_of st (as_i64 run) = Some s'" "sr_info s' = q" by (auto simp: get_run_def)
  have "as_i64 (rr_run_id q) = as_i64 run"
    using store_ok_lookup [OF assms(1) s'(1)] s'(2) by (simp add: stored_ok_def)
  moreover have "s' \<in> set (omap_values st)"
    using s'(1) assms(1) by (auto simp: store_ok_def omap_values_lookup)
  ultimately show "as_i64 run \<le> as_i64 (rr_run_id r)" using head s'(2) q by fastforce
qed

lemma latest_run_None:
  assumes "store_ok st"
  shows "latest_run tbl job st = None \<longleftrightarrow>
           (\<forall>run q. get_run run st = Some q \<longrightarrow> \<not> (rr_table q = tbl \<and> rr_job q = job))"
proof -
  have "latest_run tbl job st = None \<longleftrightarrow> runs_for st tbl job = []"
    by (simp add: latest_run_def split: list.split)
  also have "\<dots> \<longleftrightarrow> (\<forall>s \<in> set (omap_values st). \<not> (rr_table (sr_info s) = tbl \<and> rr_job (sr_info s) = job))"
    by (auto simp: runs_for_def filter_empty_conv simp flip: set_empty)
  also have "\<dots> \<longleftrightarrow> (\<forall>run q. get_run run st = Some q \<longrightarrow> \<not> (rr_table q = tbl \<and> rr_job q = job))"
    using assms by (auto simp: store_ok_def omap_values_lookup get_run_def) (metis run_id.sel)
  finally show ?thesis .
qed

lemma get_ranges_sorted:
  assumes "store_ok st"
  shows "sorted_wrt (\<lambda>a b. tr_min (dr_range a) < tr_min (dr_range b)) (get_ranges run st)"
proof (cases "map_of st (as_i64 run)")
  case (Some s)
  then have ok: "stored_ok (as_i64 run) s" using assms store_ok_lookup by blast
  then have "map (\<lambda>r. tr_min (dr_range r)) (omap_values (sr_ranges s)) = map fst (sr_ranges s)"
    by (auto simp: omap_values_def stored_ok_def)
  then have "sorted_wrt (<) (map (\<lambda>r. tr_min (dr_range r)) (omap_values (sr_ranges s)))"
    using ok by (simp add: stored_ok_def omap_ok_def)
  then show ?thesis by (simp add: get_ranges_def Some sorted_wrt_map)
qed (simp add: get_ranges_def)

subsection \<open>Properties\<close>

text \<open>
  Every method of the in-process store that writes keeps the representation invariant: the
  maps stay in key order, each run under its id, each range row and each lease row under the lower
  bound of the range it names, whatever rows the caller passes and whether the method succeeds or fails.
\<close>

theorem store_invariant:
  assumes "store_ok st"
  shows "store_ok (snd (create_run rec ranges st))
       \<and> store_ok (snd (initialise_run rec ranges hash st))
       \<and> store_ok (snd (update_run now run status info st))
       \<and> store_ok (snd (update_range run r st))
       \<and> store_ok (snd (claim_range run rng node now until observed st))
       \<and> store_ok (snd (renew_lease run rng node until st))
       \<and> store_ok (snd (release_lease run rng node st))"
  using assms by (simp add: store_ok_create store_ok_initialise store_ok_update_run
      store_ok_update_range store_ok_claim store_ok_renew release_lease_def)

definition sample_run :: run_record where
  "sample_run = \<lparr> rr_run_id = RunId 7, rr_previous_run_id = None, rr_table = TableRef ''ks'' ''t'',
     rr_job = Migrate, rr_status = NotStarted, rr_started_at = Some 5, rr_ended_at = None, rr_info = None \<rparr>"

definition sample_row :: "i128 \<Rightarrow> i128 \<Rightarrow> range_record" where
  "sample_row a b = \<lparr> dr_range = TokenRange a b, dr_status = NotStarted, dr_started_at = None, dr_info = None \<rparr>"

theorem store_invariant_witness:
  "store_ok (snd (create_run sample_run [sample_row 10 19] []))"
  using store_invariant [of "[]" sample_run "[sample_row 10 19]"] by (simp add: store_ok_def)

text \<open>
  Recording a new run (TRK-020). If the run id is taken the call fails with a tracking error
  and changes nothing. Otherwise the run row says \<open>STARTED\<close>, there is exactly one \<open>NOT_STARTED\<close> row for
  each planned range, listed in ring order, no other run is touched, and a second attempt with the
  same id is refused.
\<close>

theorem create_run_records_plan:
  assumes "store_ok st" and "distinct (map (\<lambda>r. tr_min (dr_range r)) ranges)"
  shows "case get_run (rr_run_id rec) st of
           Some _ \<Rightarrow> (\<exists>e. create_run rec ranges st = (Inl e, st) \<and> error_kind_of e = Tracking)
         | None \<Rightarrow> (\<exists>st'. create_run rec ranges st = (Inr (), st')
             \<and> get_run (rr_run_id rec) st' = Some (rec\<lparr>rr_status := Started\<rparr>)
             \<and> mset (get_ranges (rr_run_id rec) st') = mset (map fresh_row ranges)
             \<and> sorted_wrt (\<lambda>a b. tr_min (dr_range a) < tr_min (dr_range b)) (get_ranges (rr_run_id rec) st')
             \<and> (\<forall>other. as_i64 other \<noteq> as_i64 (rr_run_id rec) \<longrightarrow>
                   get_run other st' = get_run other st \<and> get_ranges other st' = get_ranges other st)
             \<and> (\<exists>e. create_run rec ranges' st' = (Inl e, st')))"
proof (cases "get_run (rr_run_id rec) st")
  case None
  obtain st' where st': "create_run rec ranges st = (Inr (), st')"
    "get_run (rr_run_id rec) st' = Some (rec\<lparr>rr_status := Started\<rparr>)"
    "get_ranges (rr_run_id rec) st' = omap_values (planned_rows ranges)"
    "\<forall>other. as_i64 other \<noteq> as_i64 (rr_run_id rec) \<longrightarrow>
        get_run other st' = get_run other st \<and> get_ranges other st' = get_ranges other st"
    using create_run_cases(2) [OF None] by blast
  have "store_ok st'" using store_ok_create [OF assms(1), of rec ranges] st'(1) by simp
  then have "sorted_wrt (\<lambda>a b. tr_min (dr_range a) < tr_min (dr_range b)) (get_ranges (rr_run_id rec) st')"
    by (rule get_ranges_sorted)
  moreover have "\<exists>e. create_run rec ranges' st' = (Inl e, st')"
    using create_run_cases(1) [of rec st' ranges'] st'(2) by auto
  moreover have "mset (get_ranges (rr_run_id rec) st') = mset (map fresh_row ranges)"
    using planned_rows_mset [OF assms(2)] st'(3) by simp
  ultimately show ?thesis using st'(1,2,4) None by auto
qed (use create_run_cases(1) [of rec st ranges] in simp)

theorem create_run_records_plan_witness:
  "\<exists>st'. create_run sample_run [sample_row 10 19, sample_row 0 9] [] = (Inr (), st')
     \<and> mset (get_ranges (RunId 7) st') = {# sample_row 10 19, sample_row 0 9 #}"
  using create_run_records_plan [of "[]" "[sample_row 10 19, sample_row 0 9]" sample_run]
  by (auto simp: store_ok_def sample_row_def sample_run_def get_run_def fresh_row_def)

end
