(* ===== verification/Track_Resume.thy ===== *)
theory Track_Resume
  imports Track_Store Planner_Plan Metrics_Report
begin

text \<open>
  Resuming a run: \<open>crates/cdm-track/src/resume.rs\<close>. Which statuses may be re-planned
  (\<open>RerunPolicy\<close>), whether a previous run is adopted at all (\<open>is_resumable\<close>, \<open>has_failed_partitions\<close>),
  and \<open>plan_resume\<close>, which turns the recorded range rows into the next run's work list. The main result
  composes the planner, the store and the resume: after any sequence of tracking writes, the resumed
  run processes exactly the tokens of the ranges that were left unfinished, each once.
\<close>

subsection \<open>The policy\<close>

definition PARTITIONS_FAILED_PREFIX :: string where
  "PARTITIONS_FAILED_PREFIX = ''Partitions Failed:''"

record rerun_policy =
  rp_counter_table :: bool
  rp_writes_to_target :: bool

definition IDEMPOTENT :: "run_status list" where
  "IDEMPOTENT = [NotStarted, Started, Fail, Diff]"

definition COUNTER_SAFE :: "run_status list" where
  "COUNTER_SAFE = [NotStarted]"

definition idempotent_policy :: rerun_policy where
  "idempotent_policy = \<lparr> rp_counter_table = False, rp_writes_to_target = True \<rparr>"

definition policy_for_job :: "job_kind \<Rightarrow> bool \<Rightarrow> bool \<Rightarrow> rerun_policy" where
  "policy_for_job job table_has_counters correcting =
     \<lparr> rp_counter_table = table_has_counters,
       rp_writes_to_target = (case job of Migrate \<Rightarrow> True | Validate \<Rightarrow> correcting | Guardrail \<Rightarrow> False) \<rparr>"

definition is_counter_restricted :: "rerun_policy \<Rightarrow> bool" where
  "is_counter_restricted p \<longleftrightarrow> rp_counter_table p \<and> rp_writes_to_target p"

definition rerunnable_statuses :: "rerun_policy \<Rightarrow> run_status list" where
  "rerunnable_statuses p = (if is_counter_restricted p then COUNTER_SAFE else IDEMPOTENT)"

datatype quarantine_reason = CounterPartiallyApplied

datatype range_disposition = Complete | Rerun | Quarantined quarantine_reason

definition disposition :: "rerun_policy \<Rightarrow> run_status option \<Rightarrow> range_disposition" where
  "disposition p status =
     (case status of
        None \<Rightarrow> if is_counter_restricted p then Quarantined CounterPartiallyApplied else Rerun
      | Some s \<Rightarrow>
          if s \<in> set (rerunnable_statuses p) then Rerun
          else if is_counter_restricted p \<and> is_pending s then Quarantined CounterPartiallyApplied
          else Complete)"

record quarantined_range =
  qr_range :: token_range
  qr_status :: "run_status option"
  qr_reason :: quarantine_reason

datatype fallback_reason = RunNotFound run_id | RunNotStarted run_id | NoRangesRecorded run_id

subsection \<open>The plan\<close>

record resume_plan =
  rs_ranges :: "token_range list"
  rs_quarantined :: "quarantined_range list"
  rs_fallback :: "fallback_reason option"
  rs_previous_run_id :: "run_id option"
  rs_considered :: usize

definition resume_fallback :: "run_id \<Rightarrow> fallback_reason \<Rightarrow> resume_plan" where
  "resume_fallback previous reason =
     \<lparr> rs_ranges = [], rs_quarantined = [], rs_fallback = Some reason,
       rs_previous_run_id = Some previous, rs_considered = 0 \<rparr>"

definition is_fallback :: "resume_plan \<Rightarrow> bool" where
  "is_fallback p \<longleftrightarrow> rs_fallback p \<noteq> None"

definition resume_token_plan :: "resume_plan \<Rightarrow> run_id \<Rightarrow> partitioner \<Rightarrow> token_plan result" where
  "resume_token_plan p run part =
     (if is_fallback p
      then Inl (new_error Tracking (''this resume fell back to a full plan and has no work list of its own; ''
                  @ ''plan the ring instead (TRK-032)''))
      else if rs_ranges p = []
      then Inl (new_error Tracking
                  ''the previous run left no outstanding ranges, so there is nothing to resume'')
      else from_ranges run part (rs_previous_run_id p) (rs_ranges p))"

definition has_failed_partitions :: "string \<Rightarrow> bool" where
  "has_failed_partitions info \<longleftrightarrow>
     list_ex (\<lambda>entry.
         case strip_prefix PARTITIONS_FAILED_PREFIX entry of
           None \<Rightarrow> False
         | Some rest \<Rightarrow> (case parse_i64 (trim rest) of None \<Rightarrow> True | Some failed \<Rightarrow> failed > 0))
       (map trim (split_char (CHR '';'') info))"

definition is_resumable :: "run_record \<Rightarrow> bool" where
  "is_resumable r \<longleftrightarrow> rr_status r \<noteq> Ended \<or>
     (case rr_info r of None \<Rightarrow> False | Some info \<Rightarrow> has_failed_partitions info)"

definition adopt_previous_run :: "run_record option \<Rightarrow> run_id option" where
  "adopt_previous_run latest =
     (case latest of None \<Rightarrow> None | Some r \<Rightarrow> if is_resumable r then Some (rr_run_id r) else None)"

definition subdivide :: "token_range \<Rightarrow> u32 \<Rightarrow> token_range list result" where
  "subdivide r multiplier =
     (if multiplier \<le> 1 then Inr [r]
      else bindR (map_err (\<lambda>err. new_error Tracking (''cannot subdivide pending range '' @ show_range r
                    @ '' by '' @ show_nat multiplier @ '': '' @ show_error err))
              (split_ring r multiplier 100))
           (\<lambda>parts. Inr (if parts = [] then [r] else parts)))"

definition subdivide_pending :: "token_range list \<Rightarrow> u32 \<Rightarrow> token_range list result" where
  "subdivide_pending pending rerun_multiplier =
     (let multiplier = max rerun_multiplier 1
      in if multiplier > 1
         then bindR (collectR (\<lambda>r. subdivide r multiplier) pending) (\<lambda>gs. Inr (concat gs))
         else Inr pending)"

text \<open>The loop over the recorded rows: the ranges to re-plan and those to withhold, in row order.\<close>

fun sort_records ::
  "rerun_policy \<Rightarrow> range_record list \<Rightarrow> token_range list \<times> quarantined_range list" where
  "sort_records p [] = ([], [])"
| "sort_records p (r # rs) =
     (let (pending, quarantined) = sort_records p rs
      in case disposition p (Some (dr_status r)) of
           Complete \<Rightarrow> (pending, quarantined)
         | Rerun \<Rightarrow> (dr_range r # pending, quarantined)
         | Quarantined reason \<Rightarrow>
             (pending,
              \<lparr> qr_range = dr_range r, qr_status = Some (dr_status r), qr_reason = reason \<rparr> # quarantined))"

definition plan_resume ::
  "run_id \<Rightarrow> run_record option \<Rightarrow> range_record list \<Rightarrow> rerun_policy \<Rightarrow> u32 \<Rightarrow> run_id \<Rightarrow> resume_plan result" where
  "plan_resume previous_id previous records policy rerun_multiplier run =
     (case previous of
        None \<Rightarrow> Inr (resume_fallback previous_id (RunNotFound previous_id))
      | Some prev \<Rightarrow>
          (if rr_status prev = NotStarted
           then Inr (resume_fallback previous_id (RunNotStarted previous_id))
           else if records = []
           then Inr (resume_fallback previous_id (NoRangesRecorded previous_id))
           else let (pending, quarantined) = sort_records policy records
                in bindR (subdivide_pending pending rerun_multiplier)
                     (\<lambda>subdivided.
                        Inr \<lparr> rs_ranges = shuffle_for_run (sort subdivided) run,
                              rs_quarantined = sort_key qr_range quarantined,
                              rs_fallback = None,
                              rs_previous_run_id = Some previous_id,
                              rs_considered = length records \<rparr>)))"

subsection \<open>Which ranges are re-planned\<close>

definition rerun_rows :: "rerun_policy \<Rightarrow> range_record list \<Rightarrow> range_record list" where
  "rerun_rows p = filter (\<lambda>r. dr_status r \<in> set (rerunnable_statuses p))"

definition withheld_rows :: "rerun_policy \<Rightarrow> range_record list \<Rightarrow> range_record list" where
  "withheld_rows p = filter (\<lambda>r. is_pending (dr_status r) \<and> dr_status r \<notin> set (rerunnable_statuses p))"

definition pending_rows :: "range_record list \<Rightarrow> range_record list" where
  "pending_rows = filter (\<lambda>r. is_pending (dr_status r))"

definition quarantine :: "range_record \<Rightarrow> quarantined_range" where
  "quarantine r = \<lparr> qr_range = dr_range r, qr_status = Some (dr_status r), qr_reason = CounterPartiallyApplied \<rparr>"

lemma rerunnable_pending: "s \<in> set (rerunnable_statuses p) \<Longrightarrow> is_pending s"
  by (auto simp: rerunnable_statuses_def IDEMPOTENT_def COUNTER_SAFE_def is_pending_def split: if_splits)

lemma rerunnable_iff:
  "s \<in> set (rerunnable_statuses p) \<longleftrightarrow> (if is_counter_restricted p then s = NotStarted else is_pending s)"
  by (auto simp: rerunnable_statuses_def IDEMPOTENT_def COUNTER_SAFE_def is_pending_def)

lemma sort_records_eq:
  "sort_records p records = (map dr_range (rerun_rows p records), map quarantine (withheld_rows p records))"
  by (induction records)
    (auto simp: rerun_rows_def withheld_rows_def disposition_def rerunnable_iff quarantine_def)

lemma pending_split:
  "hits t (map dr_range (rerun_rows p rs)) + hits t (map dr_range (withheld_rows p rs))
     = hits t (map dr_range (pending_rows rs))"
  by (induction rs) (auto simp: rerun_rows_def withheld_rows_def pending_rows_def dest: rerunnable_pending)

lemma subdivide_ok:
  assumes "splittable r" "m \<le> MAX_PLANNED_RANGES"
  shows "\<exists>ps. subdivide r m = Inr ps \<and> covers_once r ps \<and> (\<forall>s \<in> set ps. wf_range s) \<and> length ps \<le> max m 1"
proof (cases "m \<le> 1")
  case False
  then obtain ps where ps: "split_ring r m 100 = Inr ps" "tiles (tr_min r) (tr_max r) ps" "length ps \<le> m"
    using split_ring_full [of r m 100] assms by (auto simp: effective_coverage_def)
  moreover have "ps \<noteq> []" using ps(2) assms(1) by (cases ps) (auto simp: splittable_def wf_range_def)
  moreover have "\<forall>s \<in> set ps. wf_range s"
    using ring_split.split_wf [of r m ps] ps(1) assms False by auto
  ultimately show ?thesis using False by (simp add: subdivide_def tiles_covers_once)
qed (use assms in \<open>auto simp: subdivide_def covers_once_def splittable_def\<close>)

text \<open>The work list before it is sorted and shuffled.\<close>

lemma subdivide_pending_ok:
  assumes "\<forall>r \<in> set rs. splittable r" "m \<le> MAX_PLANNED_RANGES"
  shows "\<exists>sub. subdivide_pending rs m = Inr sub \<and> (\<forall>t. hits t sub = hits t rs) \<and> (\<forall>s \<in> set sub. wf_range s)"
proof (cases "m > 1")
  case True
  obtain gs where gs: "collectR (\<lambda>r. subdivide r m) rs = Inr gs"
    using collectR_total [of rs "\<lambda>r. subdivide r m"] subdivide_ok assms by blast
  then have rel: "list_all2 (\<lambda>r g. subdivide r m = Inr g) rs gs" by (simp add: collectR_Inr_iff)
  have "list_all2 (\<lambda>r g. \<forall>t. hits t g = of_bool (contains r t)) rs gs"
    by (rule list.rel_mono_strong [OF rel])
      (use subdivide_ok assms in \<open>fastforce simp: covers_once_def\<close>)
  then have "\<forall>t. hits t (concat gs) = hits t rs" by (simp add: hits_concat_groups)
  moreover have "wf_range s" if "s \<in> set (concat gs)" for s
  proof -
    from that obtain g where g: "g \<in> set gs" "s \<in> set g" by auto
    then obtain r where "r \<in> set rs" "subdivide r m = Inr g" using list_all2_memberD2 [OF rel] by blast
    then show ?thesis using subdivide_ok [of r m] assms g(2) by auto
  qed
  ultimately show ?thesis using gs True by (simp add: subdivide_pending_def Let_def max_def)
qed (use assms in \<open>auto simp: subdivide_pending_def splittable_def\<close>)

lemma plan_resume_ok:
  assumes "previous = Some prev" "rr_status prev \<noteq> NotStarted" "records \<noteq> []"
    "\<forall>r \<in> set records. splittable (dr_range r)" "m \<le> MAX_PLANNED_RANGES"
  shows "\<exists>pl. plan_resume pid previous records policy m run = Inr pl
     \<and> (\<forall>t. hits t (rs_ranges pl) = hits t (map dr_range (rerun_rows policy records)))
     \<and> (\<forall>s \<in> set (rs_ranges pl). wf_range s)
     \<and> mset (rs_quarantined pl) = mset (map quarantine (withheld_rows policy records))
     \<and> rs_fallback pl = None \<and> rs_previous_run_id pl = Some pid"
proof -
  let ?rs = "map dr_range (rerun_rows policy records)"
  have "\<forall>r \<in> set ?rs. splittable r" using assms(4) by (auto simp: rerun_rows_def)
  then obtain sub where sub: "subdivide_pending ?rs m = Inr sub" "\<forall>t. hits t sub = hits t ?rs"
    "\<forall>s \<in> set sub. wf_range s" using subdivide_pending_ok assms(5) by blast
  have "hits t (shuffle_for_run (sort sub) run) = hits t ?rs" for t
    using sub(2) hits_mset [of "sort sub" sub] by simp
  then show ?thesis
    using assms(1-3) sub(1,3) unfolding plan_resume_def by (simp add: sort_records_eq)
qed

subsection \<open>From the recorded rows to the resumed work list\<close>

text \<open>
  \<open>tracks run work f st\<close>: the store has exactly one row for each planned range, with the status \<open>f\<close>
  gives it. \<open>status_after\<close> is the specification of the table: the last write for a range decides.
\<close>

definition planned_record :: "token_range \<Rightarrow> range_record" where
  "planned_record r = \<lparr> dr_range = r, dr_status = NotStarted, dr_started_at = None, dr_info = None \<rparr>"

definition apply_writes :: "run_id \<Rightarrow> range_record list \<Rightarrow> memory_store \<Rightarrow> memory_store" where
  "apply_writes run ws st = fold (\<lambda>w st. snd (update_range run w st)) ws st"

definition status_after :: "range_record list \<Rightarrow> token_range \<Rightarrow> run_status" where
  "status_after ws = fold (\<lambda>w f. f(dr_range w := dr_status w)) ws (\<lambda>_. NotStarted)"

definition tracks :: "run_id \<Rightarrow> token_range list \<Rightarrow> (token_range \<Rightarrow> run_status) \<Rightarrow> memory_store \<Rightarrow> bool" where
  "tracks run work f st \<longleftrightarrow> store_ok st \<and> get_run run st \<noteq> None
     \<and> (\<forall>r \<in> set work. \<exists>row. detail run (tr_min r) st = Some row \<and> dr_range row = r \<and> dr_status row = f r)
     \<and> (\<forall>k row. detail run k st = Some row \<longrightarrow> dr_range row \<in> set work)"

lemma disjoint_distinct_min:
  "\<forall>t. hits t rs \<le> 1 \<Longrightarrow> \<forall>r \<in> set rs. tr_min r \<le> tr_max r \<Longrightarrow> distinct (map tr_min rs)"
proof (induction rs)
  case (Cons r rs)
  have "tr_min r \<notin> tr_min ` set rs"
  proof
    assume "tr_min r \<in> tr_min ` set rs"
    then obtain s where s: "s \<in> set rs" "tr_min s = tr_min r" by auto
    then have "contains s (tr_min r)" "contains r (tr_min r)" using Cons.prems(2) by (auto simp: contains_def)
    then have "hits (tr_min r) (r # rs) \<ge> 2" using s(1) hits_pos_iff [of "tr_min r" rs] by fastforce
    then show False using Cons.prems(1) by (metis numeral_le_one_iff order_trans semiring_norm(69))
  qed
  moreover have "\<forall>t. hits t rs \<le> 1" using Cons.prems(1) by (metis add_leD2 hits_Cons)
  then have "distinct (map tr_min rs)" using Cons.IH Cons.prems(2) by auto
  ultimately show ?case by simp
qed simp

lemma hits_disjoint_filter:
  assumes "hits t rs \<le> 1"
  shows "hits t (filter P rs) = of_bool (\<exists>r \<in> set rs. P r \<and> contains r t)"
proof -
  have "hits t (filter P rs) \<le> hits t rs" by (induction rs) auto
  moreover have "0 < hits t (filter P rs) \<longleftrightarrow> (\<exists>r \<in> set rs. P r \<and> contains r t)"
    by (auto simp: hits_pos_iff)
  ultimately show ?thesis using assms by (auto simp: of_bool_def)
qed

lemma fresh_row_planned [simp]: "fresh_row (planned_record r) = planned_record r" "fresh_row \<circ> planned_record = planned_record"
  by (simp_all add: fresh_row_def planned_record_def fun_eq_iff)

lemma tracks_create:
  assumes "store_ok st" "get_run (rr_run_id rec) st = None" "distinct (map tr_min work)"
  shows "tracks (rr_run_id rec) work (\<lambda>_. NotStarted) (snd (create_run rec (map planned_record work) st))"
proof -
  let ?st = "snd (create_run rec (map planned_record work) st)"
  have ok: "store_ok ?st" using assms(1) by (rule store_ok_create)
  have "distinct (map (\<lambda>r. tr_min (dr_range r)) (map planned_record work))"
    using assms(3) by (simp add: planned_record_def comp_def)
  from planned_rows_mset [OF this] have "mset (omap_values (planned_rows (map planned_record work))) = mset (map planned_record work)"
    by (simp only: map_map fresh_row_planned)
  from mset_eq_set_eq [OF this] have "set (omap_values (planned_rows (map planned_record work))) = planned_record ` set work"
    by simp
  moreover obtain st' where "create_run rec (map planned_record work) st = (Inr (), st')"
    "get_run (rr_run_id rec) st' = Some (rec\<lparr>rr_status := Started\<rparr>)"
    "get_ranges (rr_run_id rec) st' = omap_values (planned_rows (map planned_record work))"
    using create_run_cases(2) [OF assms(2), of "map planned_record work"] by blast
  ultimately have rows: "set (get_ranges (rr_run_id rec) ?st) = planned_record ` set work"
    and run: "get_run (rr_run_id rec) ?st \<noteq> None" by simp_all
  have A: "detail (rr_run_id rec) (tr_min r) ?st = Some (planned_record r)" if "r \<in> set work" for r
  proof -
    have "planned_record r \<in> set (get_ranges (rr_run_id rec) ?st)" using that unfolding rows by blast
    from iffD1 [OF get_ranges_detail [OF ok] this] show ?thesis by (simp add: planned_record_def)
  qed
  have B: "dr_range row \<in> set work" if d: "detail (rr_run_id rec) k ?st = Some row" for k row
  proof -
    have "tr_min (dr_range row) = k" using detail_key [OF ok d] .
    then have "row \<in> set (get_ranges (rr_run_id rec) ?st)"
      using get_ranges_detail [OF ok, of row "rr_run_id rec"] d by blast
    then obtain r where "r \<in> set work" "row = planned_record r" unfolding rows by blast
    then show ?thesis by (simp add: planned_record_def)
  qed
  have "\<exists>row. detail (rr_run_id rec) (tr_min r) ?st = Some row \<and> dr_range row = r \<and> dr_status row = NotStarted"
    if "r \<in> set work" for r using A [OF that] by (simp add: planned_record_def)
  with ok run B show ?thesis unfolding tracks_def by (intro conjI ballI allI impI)
qed

lemma tracks_write:
  assumes "tracks run work f st" "dr_range w \<in> set work" "distinct (map tr_min work)"
  shows "tracks run work (f(dr_range w := dr_status w)) (snd (update_range run w st))"
proof -
  have "tr_min r = tr_min (dr_range w) \<longleftrightarrow> r = dr_range w" if "r \<in> set work" for r
    using that assms(2,3) by (auto simp: distinct_map inj_on_def)
  then show ?thesis
    using assms(1,2) update_range_detail [of run st _ w] store_ok_update_range [of st run w]
    by (auto simp: tracks_def split: if_splits)
qed

lemma tracks_writes:
  assumes "tracks run work f st" "\<forall>w \<in> set ws. dr_range w \<in> set work" "distinct (map tr_min work)"
  shows "tracks run work (fold (\<lambda>w f. f(dr_range w := dr_status w)) ws f) (apply_writes run ws st)"
  using assms
proof (induction ws arbitrary: f st)
  case (Cons w ws)
  then have "tracks run work (f(dr_range w := dr_status w)) (snd (update_range run w st))"
    by (intro tracks_write) auto
  from Cons.IH [OF this] Cons.prems show ?case by (simp add: apply_writes_def fun_upd_def)
qed (simp add: apply_writes_def)

lemma apply_writes_run [simp]: "get_run run' (apply_writes run ws st) = get_run run' st"
  by (induction ws arbitrary: st) (simp_all add: apply_writes_def)

lemma tracks_rows:
  assumes "tracks run work f st" "distinct (map tr_min work)"
  shows "mset (map dr_range (filter (\<lambda>row. P (dr_status row)) (get_ranges run st))) = mset (filter (\<lambda>r. P (f r)) work)"
proof -
  have ok: "store_ok st" using assms(1) by (simp add: tracks_def)
  have "distinct (map (\<lambda>r. tr_min (dr_range r)) (get_ranges run st))"
    using get_ranges_sorted [OF ok, of run]
      strict_sorted_iff [of "map (\<lambda>r. tr_min (dr_range r)) (get_ranges run st)"]
    by (simp add: sorted_wrt_map)
  then have "distinct (map dr_range (filter (\<lambda>row. P (dr_status row)) (get_ranges run st)))"
    by (auto simp: distinct_map inj_on_def distinct_filter)
  moreover have "distinct (filter (\<lambda>r. P (f r)) work)" using assms(2) by (simp add: distinct_map)
  moreover have "r \<in> dr_range ` {row \<in> set (get_ranges run st). P (dr_status row)} \<longleftrightarrow> r \<in> set work \<and> P (f r)" for r
  proof
    assume "r \<in> dr_range ` {row \<in> set (get_ranges run st). P (dr_status row)}"
    then obtain row where row: "detail run (tr_min r) st = Some row" "dr_range row = r" "P (dr_status row)"
      using get_ranges_detail [OF ok] by auto
    with assms(1) have "r \<in> set work" by (auto simp: tracks_def)
    moreover have "dr_status row = f r" using assms(1) \<open>r \<in> set work\<close> row(1) by (auto simp: tracks_def)
    ultimately show "r \<in> set work \<and> P (f r)" using row(3) by simp
  next
    assume r: "r \<in> set work \<and> P (f r)"
    then obtain row where "detail run (tr_min r) st = Some row" "dr_range row = r" "dr_status row = f r"
      using assms(1) by (auto simp: tracks_def)
    then show "r \<in> dr_range ` {row \<in> set (get_ranges run st). P (dr_status row)}"
      using r get_ranges_detail [OF ok, of row run] by auto
  qed
  ultimately show ?thesis by (intro set_eq_iff_mset_eq_distinct [THEN iffD1]) auto
qed

lemma crash_recovery_core:
  assumes "store_ok st0" "get_run (rr_run_id rec) st0 = None" "work \<noteq> []"
    and work: "\<forall>r \<in> set work. splittable r" "\<forall>t. hits t work \<le> 1"
    and "\<forall>w \<in> set ws. dr_range w \<in> set work" "m \<le> MAX_PLANNED_RANGES"
  defines "st \<equiv> apply_writes (rr_run_id rec) ws (snd (create_run rec (map planned_record work) st0))"
  shows "\<exists>pl. plan_resume (rr_run_id rec) (get_run (rr_run_id rec) st) (get_ranges (rr_run_id rec) st) policy m run = Inr pl
     \<and> rs_fallback pl = None \<and> rs_previous_run_id pl = Some (rr_run_id rec) \<and> (\<forall>s \<in> set (rs_ranges pl). wf_range s)
     \<and> (\<forall>t. hits t (rs_ranges pl) =
            of_bool (\<exists>r \<in> set work. status_after ws r \<in> set (rerunnable_statuses policy) \<and> contains r t))
     \<and> (\<forall>t. hits t (map qr_range (rs_quarantined pl)) =
            of_bool (\<exists>r \<in> set work. (is_pending (status_after ws r)
               \<and> status_after ws r \<notin> set (rerunnable_statuses policy)) \<and> contains r t))"
proof -
  let ?id = "rr_run_id rec" and ?rows = "get_ranges (rr_run_id rec) st"
  have d: "distinct (map tr_min work)"
    using disjoint_distinct_min [OF work(2)] work(1) by (auto simp: splittable_def wf_range_def)
  have tr: "tracks ?id work (status_after ws) st"
    using tracks_writes [OF tracks_create [OF assms(1,2) d] assms(6) d] by (simp add: st_def status_after_def)
  note rows = tracks_rows [OF tr d]
  have run: "get_run ?id st = Some (rec\<lparr>rr_status := Started\<rparr>)"
    using create_run_cases(2) [OF assms(2), of "map planned_record work"] by (auto simp: st_def)
  have set_rows: "set (map dr_range ?rows) = set work"
    using mset_eq_set_eq [OF rows [of "\<lambda>_. True"]] by simp
  then have ne: "?rows \<noteq> []" and sp: "\<forall>r \<in> set ?rows. splittable (dr_range r)"
    using assms(3) work(1) by auto
  obtain pl where pl: "plan_resume ?id (get_run ?id st) ?rows policy m run = Inr pl"
    "\<forall>t. hits t (rs_ranges pl) = hits t (map dr_range (rerun_rows policy ?rows))"
    "\<forall>s \<in> set (rs_ranges pl). wf_range s"
    "mset (rs_quarantined pl) = mset (map quarantine (withheld_rows policy ?rows))" "rs_fallback pl = None"
    "rs_previous_run_id pl = Some ?id"
    using plan_resume_ok [OF run _ ne sp assms(7), of ?id policy run] by auto
  have q: "hits t (map qr_range (rs_quarantined pl)) = hits t (map dr_range (withheld_rows policy ?rows))" for t
  proof (rule hits_mset)
    show "mset (map qr_range (rs_quarantined pl)) = mset (map dr_range (withheld_rows policy ?rows))"
      unfolding mset_map pl(4) by (simp add: multiset.map_comp comp_def quarantine_def)
  qed
  have "hits t (map dr_range (rerun_rows policy ?rows)) =
      of_bool (\<exists>r \<in> set work. status_after ws r \<in> set (rerunnable_statuses policy) \<and> contains r t)" for t
    using hits_mset [OF rows, of t "\<lambda>s. s \<in> set (rerunnable_statuses policy)"] hits_disjoint_filter work(2)
    by (simp add: rerun_rows_def)
  moreover have "hits t (map dr_range (withheld_rows policy ?rows)) =
      of_bool (\<exists>r \<in> set work. (is_pending (status_after ws r)
          \<and> status_after ws r \<notin> set (rerunnable_statuses policy)) \<and> contains r t)" for t
    using hits_mset [OF rows, of t "\<lambda>s. is_pending s \<and> s \<notin> set (rerunnable_statuses policy)"]
      hits_disjoint_filter [of t work] work(2)
    by (simp add: withheld_rows_def)
  ultimately show ?thesis using pl q by (intro exI [of _ pl]) simp
qed

lemma resume_token_plan_ok:
  assumes "rs_fallback pl = None" "rs_ranges pl \<noteq> []" "length (rs_ranges pl) \<le> MAX_PLANNED_RANGES"
    "\<forall>s \<in> set (rs_ranges pl). wf_range s" "\<forall>t. hits t (rs_ranges pl) \<le> 1"
  shows "\<exists>tp. resume_token_plan pl run part = Inr tp \<and> token_ranges tp = rs_ranges pl
           \<and> tp_resumed_from tp = rs_previous_run_id pl"
  using from_ranges_ok [of "rs_ranges pl" run part "rs_previous_run_id pl"] assms
  by (auto simp: resume_token_plan_def is_fallback_def wf_range_def)

text \<open>The rows' order does not reach the plan: what is sorted is determined by its elements.\<close>

lemma collectR_Inr_map: "collectR f xs = Inr ys \<longleftrightarrow> (\<forall>x \<in> set xs. \<exists>y. f x = Inr y) \<and> ys = map (projr \<circ> f) xs"
  by (induction xs arbitrary: ys) (auto simp: bindR_Inr_iff)

lemma subdivide_pending_perm:
  assumes "subdivide_pending rs m = Inr sub" "mset rs = mset rs'"
  shows "\<exists>sub'. subdivide_pending rs' m = Inr sub' \<and> mset sub' = mset sub"
proof -
  have set_eq: "set rs = set rs'" using assms(2) by (rule mset_eq_set_eq)
  have "mset (concat (map h rs)) = mset (concat (map h rs'))" for h :: "token_range \<Rightarrow> token_range list"
    using assms(2) by (simp add: mset_concat flip: mset_map) (metis mset_map sum_mset_sum_list)
  with assms set_eq show ?thesis
    by (cases "max m 1 > 1") (auto simp: subdivide_pending_def Let_def bindR_Inr_iff collectR_Inr_map)
qed

lemma sort_key_perm: "mset xs = mset ys \<Longrightarrow> inj_on f (set xs) \<Longrightarrow> sort_key f xs = sort_key f ys"
  by (rule sort_key_inj_key_eq) simp_all

lemma plan_resume_perm:
  assumes "plan_resume pid previous records policy m run = Inr pl"
    and eq: "mset records = mset records'" and "distinct (map dr_range records)"
  shows "plan_resume pid previous records' policy m run = Inr pl"
proof (cases "\<exists>prev. previous = Some prev \<and> rr_status prev \<noteq> NotStarted \<and> records \<noteq> []")
  case True
  then obtain sub where sub: "subdivide_pending (map dr_range (rerun_rows policy records)) m = Inr sub"
    "pl = \<lparr> rs_ranges = shuffle_for_run (sort sub) run,
            rs_quarantined = sort_key qr_range (map quarantine (withheld_rows policy records)),
            rs_fallback = None, rs_previous_run_id = Some pid, rs_considered = length records \<rparr>"
    using assms(1) by (auto simp: plan_resume_def sort_records_eq bindR_Inr_iff)
  have "mset (map dr_range (rerun_rows policy records)) = mset (map dr_range (rerun_rows policy records'))"
    unfolding rerun_rows_def mset_map mset_filter eq by simp
  from subdivide_pending_perm [OF sub(1) this] obtain sub' where
    sub': "subdivide_pending (map dr_range (rerun_rows policy records')) m = Inr sub'" "mset sub' = mset sub" by blast
  have "mset (map quarantine (withheld_rows policy records)) = mset (map quarantine (withheld_rows policy records'))"
    unfolding withheld_rows_def mset_map mset_filter eq by simp
  moreover have "inj_on qr_range (set (map quarantine (withheld_rows policy records)))"
    using assms(3) by (auto simp: inj_on_def distinct_map quarantine_def withheld_rows_def)
  ultimately have "sort_key qr_range (map quarantine (withheld_rows policy records))
      = sort_key qr_range (map quarantine (withheld_rows policy records'))" by (rule sort_key_perm)
  moreover have "sort sub' = sort sub" using sub'(2) by (intro sort_key_perm) simp_all
  moreover have "length records' = length records" "records' \<noteq> []"
    using True eq by (auto dest: mset_eq_length)
  ultimately show ?thesis using True sub(2) sub'(1) by (auto simp: plan_resume_def sort_records_eq)
next
  case False
  moreover have "records = [] \<longleftrightarrow> records' = []" using eq by (metis mset_zero_iff)
  ultimately show ?thesis using assms(1) by (auto simp: plan_resume_def split: option.splits if_splits)
qed

subsection \<open>Reading the failed-partition count back\<close>

lemma prefix_entry:
  "strip_prefix PARTITIONS_FAILED_PREFIX (metrics_entry c view k) =
     (if k = CPartitionsFailed then Some ('' '' @ show_nat (count_of c k view)) else None)"
  by (cases k) (simp_all add: metrics_entry_def strip_prefix_def PARTITIONS_FAILED_PREFIX_def)

lemma failed_entry:
  "(case parse_i64 (trim (CHR '' '' # show_nat n)) of None \<Rightarrow> True | Some failed \<Rightarrow> failed > 0) \<longleftrightarrow> n > 0"
proof -
  note d = show_nat_digits [of n]
  have "is_digit (hd (show_nat n))" "is_digit (last (show_nat n))"
    using d by (auto simp: list_all_iff)
  then have "trim ('' '' @ show_nat n) = show_nat n"
    using d digit_not_special by (intro trim_inner) (auto simp: is_ascii_space_def)
  then have "trim (CHR '' '' # show_nat n) = show_nat n" by simp
  moreover have "i64_max < int n \<Longrightarrow> n > 0" by (simp add: i64_max_def)
  ultimately show ?thesis
    using parse_i64_show_nat [of n] parse_i64_show_nat_large [of n] by (cases "int n \<le> i64_max") auto
qed

lemma failed_partitions_run_info:
  "has_failed_partitions (run_info c) \<longleftrightarrow> count_of c CPartitionsFailed Committed > 0"
proof -
  let ?ks = "filter (\<lambda>k. k \<noteq> CUnflushed) (registered c)"
  have ne: "?ks \<noteq> []" and reg: "CPartitionsFailed \<in> set ?ks"
    by (cases "jc_job c"; simp add: registered_def)+
  have "map trim (split_char (CHR '';'') (run_info c)) = map (metrics_entry c Committed) (hd ?ks # tl ?ks)"
    using trim_metrics_entry [of "[]" c Committed] trim_metrics_entry [of "'' ''" c Committed]
    by (simp add: run_info_entries Let_def is_ascii_space_def)
  then have "map trim (split_char (CHR '';'') (run_info c)) = map (metrics_entry c Committed) ?ks"
    using ne by simp
  then have "has_failed_partitions (run_info c) \<longleftrightarrow>
      (\<exists>k \<in> set ?ks. k = CPartitionsFailed \<and> count_of c k Committed > 0)"
    by (auto simp: has_failed_partitions_def list_ex_iff prefix_entry failed_entry split: if_splits)
  then show ?thesis using reg by blast
qed

subsection \<open>Properties\<close>

text \<open>
  Claim C3. Crash recovery, across planner, store and resume. A run is recorded with a plan that covers
  a segment exactly once; tracking then writes any sequence of range rows and the process dies. Planning
  a resume from what the store holds succeeds, does not fall back to a full plan, and its work list
  holds exactly once every token of a range whose last recorded status may be re-run and no other
  token; the tokens of unfinished ranges that may not be re-run (a counter table) are all in the
  quarantined list, exactly once. A non-empty work list within the planner's ceiling is admitted by the
  scheduler's plan constructor.
\<close>

theorem crash_recovery:
  assumes "store_ok st0" and "get_run (rr_run_id rec) st0 = None"
    and "splittable b" and "covers_once b work" and "\<forall>r \<in> set work. wf_range r"
    and "\<forall>w \<in> set ws. dr_range w \<in> set work" and "m \<le> MAX_PLANNED_RANGES"
  shows "let st = apply_writes (rr_run_id rec) ws (snd (create_run rec (map planned_record work) st0)) in
     \<exists>pl. plan_resume (rr_run_id rec) (get_run (rr_run_id rec) st) (get_ranges (rr_run_id rec) st) policy m run = Inr pl
     \<and> \<not> is_fallback pl
     \<and> (\<forall>t. hits t (rs_ranges pl) =
            of_bool (\<exists>r \<in> set work. status_after ws r \<in> set (rerunnable_statuses policy) \<and> contains r t))
     \<and> (\<forall>t. hits t (map qr_range (rs_quarantined pl)) =
            of_bool (\<exists>r \<in> set work. (is_pending (status_after ws r)
               \<and> status_after ws r \<notin> set (rerunnable_statuses policy)) \<and> contains r t))
     \<and> (rs_ranges pl \<noteq> [] \<and> length (rs_ranges pl) \<le> MAX_PLANNED_RANGES \<longrightarrow>
          (\<exists>tp. resume_token_plan pl run part = Inr tp \<and> token_ranges tp = rs_ranges pl))"
proof -
  have le: "\<forall>t. hits t work \<le> 1" using assms(4) by (simp add: covers_once_def)
  have "work \<noteq> []"
    using assms(3,4) by (auto simp: covers_once_def splittable_def wf_range_def contains_def)
  moreover have "\<forall>r \<in> set work. splittable r"
    using assms(3-5) covers_once_within splittable_within by (auto simp: wf_range_def)
  ultimately obtain pl where pl:
    "plan_resume (rr_run_id rec)
       (get_run (rr_run_id rec) (apply_writes (rr_run_id rec) ws (snd (create_run rec (map planned_record work) st0))))
       (get_ranges (rr_run_id rec) (apply_writes (rr_run_id rec) ws (snd (create_run rec (map planned_record work) st0))))
       policy m run = Inr pl"
    "rs_fallback pl = None" "\<forall>s \<in> set (rs_ranges pl). wf_range s"
    "\<forall>t. hits t (rs_ranges pl) =
        of_bool (\<exists>r \<in> set work. status_after ws r \<in> set (rerunnable_statuses policy) \<and> contains r t)"
    "\<forall>t. hits t (map qr_range (rs_quarantined pl)) =
        of_bool (\<exists>r \<in> set work. (is_pending (status_after ws r)
           \<and> status_after ws r \<notin> set (rerunnable_statuses policy)) \<and> contains r t)"
    using crash_recovery_core [OF assms(1,2) _ _ le assms(6,7), of policy run] by blast
  moreover have "\<forall>t. hits t (rs_ranges pl) \<le> 1" using pl(4) by simp
  ultimately show ?thesis
    using resume_token_plan_ok [of pl run part] unfolding Let_def
    by (intro exI [of _ pl]) (auto simp: is_fallback_def)
qed

theorem crash_recovery_witness:
  "\<exists>pl. plan_resume (RunId 7)
       (get_run (RunId 7) (apply_writes (RunId 7) [(planned_record (TokenRange 0 9))\<lparr>dr_status := Pass\<rparr>]
          (snd (create_run sample_run (map planned_record [TokenRange 0 9, TokenRange 10 19]) []))))
       (get_ranges (RunId 7) (apply_writes (RunId 7) [(planned_record (TokenRange 0 9))\<lparr>dr_status := Pass\<rparr>]
          (snd (create_run sample_run (map planned_record [TokenRange 0 9, TokenRange 10 19]) []))))
       idempotent_policy 2 (RunId 8) = Inr pl
     \<and> hits 5 (rs_ranges pl) = 0 \<and> hits 15 (rs_ranges pl) = 1"
proof -
  let ?ws = "[(planned_record (TokenRange 0 9))\<lparr>dr_status := Pass\<rparr>]" and ?work = "[TokenRange 0 9, TokenRange 10 19]"
  have once: "covers_once (TokenRange 0 19) ?work" by (rule tiles_covers_once) simp
  have h: "store_ok []" "get_run (rr_run_id sample_run) [] = None" "splittable (TokenRange 0 19)"
    "\<forall>r \<in> set ?work. wf_range r" "\<forall>w \<in> set ?ws. dr_range w \<in> set ?work" "2 \<le> MAX_PLANNED_RANGES"
    by (simp_all add: store_ok_def get_run_def splittable_def wf_range_def in_i128_def width_defs
        planned_record_def MAX_PLANNED_RANGES_def)
  have id: "rr_run_id sample_run = RunId 7" by (simp add: sample_run_def)
  have s: "status_after ?ws (TokenRange 0 9) = Pass" "status_after ?ws (TokenRange 10 19) = NotStarted"
    by (simp_all add: status_after_def planned_record_def)
  from crash_recovery [OF h(1-3) once h(4-6), of idempotent_policy "RunId 8" Murmur3, unfolded Let_def id]
  obtain pl where pl: "plan_resume (RunId 7)
       (get_run (RunId 7) (apply_writes (RunId 7) ?ws (snd (create_run sample_run (map planned_record ?work) []))))
       (get_ranges (RunId 7) (apply_writes (RunId 7) ?ws (snd (create_run sample_run (map planned_record ?work) []))))
       idempotent_policy 2 (RunId 8) = Inr pl"
    "\<forall>t. hits t (rs_ranges pl) = of_bool (\<exists>r \<in> set ?work.
        status_after ?ws r \<in> set (rerunnable_statuses idempotent_policy) \<and> contains r t)" by blast
  have "hits 5 (rs_ranges pl) = 0 \<and> hits 15 (rs_ranges pl) = 1"
    unfolding pl(2) [rule_format]
    by (simp add: s contains_def rerunnable_iff is_counter_restricted_def idempotent_policy_def is_pending_def)
  with pl(1) show ?thesis by blast
qed

text \<open>
  A resume is deterministic: the same rows in any other order (each range recorded once) give
  the same plan, the shuffled work list included, so nodes that replan it agree on the schedule.
\<close>

theorem resume_order_independent:
  assumes "plan_resume pid previous records policy m run = Inr pl"
    and "mset records = mset records'" and "distinct (map dr_range records)"
  shows "plan_resume pid previous records' policy m run = Inr pl"
  using assms by (rule plan_resume_perm)

theorem resume_order_independent_witness:
  "\<exists>pl. plan_resume (RunId 7) (Some (sample_run\<lparr>rr_status := Started\<rparr>))
        [planned_record (TokenRange 0 9), planned_record (TokenRange 10 19)] idempotent_policy 4 (RunId 8) = Inr pl
     \<and> plan_resume (RunId 7) (Some (sample_run\<lparr>rr_status := Started\<rparr>))
        [planned_record (TokenRange 10 19), planned_record (TokenRange 0 9)] idempotent_policy 4 (RunId 8) = Inr pl"
proof -
  let ?rs = "[planned_record (TokenRange 0 9), planned_record (TokenRange 10 19)]"
  have "\<forall>r \<in> set ?rs. splittable (dr_range r)" "4 \<le> MAX_PLANNED_RANGES"
    by (simp_all add: planned_record_def splittable_def wf_range_def in_i128_def width_defs MAX_PLANNED_RANGES_def)
  then obtain pl where pl: "plan_resume (RunId 7) (Some (sample_run\<lparr>rr_status := Started\<rparr>)) ?rs idempotent_policy 4 (RunId 8) = Inr pl"
    using plan_resume_ok [of "Some (sample_run\<lparr>rr_status := Started\<rparr>)" "sample_run\<lparr>rr_status := Started\<rparr>" ?rs 4
        "RunId 7" idempotent_policy "RunId 8"] by auto
  moreover have "mset ?rs = mset [planned_record (TokenRange 10 19), planned_record (TokenRange 0 9)]"
    "distinct (map dr_range ?rs)" by (simp_all add: planned_record_def)
  note resume_order_independent [OF pl this]
  ultimately show ?thesis by blast
qed

text \<open>
  The adoption test reads the reporter's string correctly: the \<open>run_info\<close> a run records is
  taken to report failed partitions exactly when its committed count of failed partitions is positive,
  counts too large for the parser included, so an ended run is adopted exactly then.
\<close>

theorem adoption_reads_run_info:
  "(has_failed_partitions (run_info c) \<longleftrightarrow> count_of c CPartitionsFailed Committed > 0)
   \<and> adopt_previous_run (Some (rec\<lparr>rr_status := Ended, rr_info := Some (run_info c)\<rparr>))
       = (if count_of c CPartitionsFailed Committed > 0 then Some (rr_run_id rec) else None)"
  by (simp add: failed_partitions_run_info adopt_previous_run_def is_resumable_def)

end
