(* ===== verification/Track_Writer.thy ===== *)
theory Track_Writer
  imports Track_Resume
begin

text \<open>
  The asynchronous tracking writer: \<open>crates/cdm-track/src/tracker.rs\<close>. Range updates go through a
  bounded channel to a writer task; when the channel is full they are shed into a checkpoint map that
  the task writes out on a timer. The tracker's tasks are modelled at the granularity of their await
  points: \<open>tk_step\<close> is one atomic action of a caller, of the writer task or of the closing caller, and
  a run is any sequence of them. \<open>tk_hand\<close> holds what the writer has taken from the channel (or from
  the checkpoint) and not yet applied.
\<close>

subsection \<open>State\<close>

record tracker_config =
  tc_queue_capacity :: usize
  tc_batch_size :: usize
  tc_checkpoint_interval :: u64

definition default_tracker_config :: tracker_config where
  "default_tracker_config = \<lparr> tc_queue_capacity = 4096, tc_batch_size = 64, tc_checkpoint_interval = 10 \<rparr>"

datatype track_write = WRange range_record | WRun run_status "string option"

record checkpoint =
  cp_pending :: "(i128, range_record) omap"
  cp_shed :: u64

text \<open>
  Where the writer is: in its loop, writing the last checkpoint, ended, or ended with the closing
  caller writing what the checkpoint still holds, and the close complete.
\<close>

datatype writer_phase = Looping | LastCheckpoint | WriterEnded | Closing | TrackerClosed

record 's run_tracker =
  tk_run_id :: run_id
  tk_store :: 's
  tk_config :: tracker_config
  tk_sender :: bool
  tk_queue :: "track_write list"
  tk_late :: "track_write list"
  tk_checkpoint :: checkpoint
  tk_hand :: "track_write list"
  tk_phase :: writer_phase

subsection \<open>Operations\<close>

definition start_tracker ::
  "('s, 'm) tracking_ops_scheme \<Rightarrow> run_record \<Rightarrow> token_range list \<Rightarrow> tracker_config \<Rightarrow> 's
     \<Rightarrow> 's run_tracker result \<times> 's" where
  "start_tracker ops rec ranges config st =
     (case ts_initialise ops st of
        (Inl e, st1) \<Rightarrow> (Inl e, st1)
      | (Inr _, st1) \<Rightarrow>
          (case ts_create_run ops rec (map planned_record ranges) st1 of
             (Inl e, st2) \<Rightarrow> (Inl e, st2)
           | (Inr _, st2) \<Rightarrow>
               (Inr \<lparr> tk_run_id = rr_run_id rec, tk_store = st2, tk_config = config, tk_sender = True,
                      tk_queue = [], tk_late = [], tk_checkpoint = \<lparr> cp_pending = [], cp_shed = 0 \<rparr>,
                      tk_hand = [], tk_phase = Looping \<rparr>, st2)))"

definition capacity :: "'s run_tracker \<Rightarrow> usize" where
  "capacity tk = max (tc_queue_capacity (tk_config tk)) 1"

definition batch_limit :: "'s run_tracker \<Rightarrow> usize" where
  "batch_limit tk = max (tc_batch_size (tk_config tk)) 1"

definition fold_into_checkpoint :: "range_record \<Rightarrow> checkpoint \<Rightarrow> checkpoint" where
  "fold_into_checkpoint r cp = cp\<lparr>cp_pending := omap_insert (tr_min (dr_range r)) r (cp_pending cp)\<rparr>"

text \<open>\<open>try_send\<close> finds room when no task is waiting for it and the channel is not full.\<close>

definition has_room :: "'s run_tracker \<Rightarrow> bool" where
  "has_room tk \<longleftrightarrow> tk_late tk = [] \<and> length (tk_queue tk) < capacity tk"

definition enqueue :: "track_write \<Rightarrow> 's run_tracker \<Rightarrow> 's run_tracker" where
  "enqueue w tk =
     (if \<not> tk_sender tk
      then (case w of
              WRange r \<Rightarrow> tk\<lparr>tk_checkpoint := fold_into_checkpoint r (tk_checkpoint tk)\<rparr>
            | WRun _ _ \<Rightarrow> tk)
      else if has_room tk then tk\<lparr>tk_queue := tk_queue tk @ [w]\<rparr>
      else (case w of
              WRange r \<Rightarrow>
                (let cp = (tk_checkpoint tk)\<lparr>cp_shed := wrap_add_u64 (cp_shed (tk_checkpoint tk)) 1\<rparr>
                 in tk\<lparr>tk_checkpoint := fold_into_checkpoint r cp\<rparr>)
            | WRun status info \<Rightarrow> tk\<lparr>tk_late := tk_late tk @ [WRun status info]\<rparr>))"

definition start_range :: "instant \<Rightarrow> token_range \<Rightarrow> 's run_tracker \<Rightarrow> 's run_tracker" where
  "start_range now r =
     enqueue (WRange \<lparr> dr_range = r, dr_status = Started, dr_started_at = Some now, dr_info = None \<rparr>)"

definition finish_range :: "token_range \<Rightarrow> run_status \<Rightarrow> string \<Rightarrow> 's run_tracker \<Rightarrow> 's run_tracker" where
  "finish_range r status info =
     enqueue (WRange \<lparr> dr_range = r, dr_status = status, dr_started_at = None, dr_info = Some info \<rparr>)"

definition apply_write ::
  "('s, 'm) tracking_ops_scheme \<Rightarrow> run_id \<Rightarrow> instant \<Rightarrow> track_write \<Rightarrow> 's \<Rightarrow> 's" where
  "apply_write ops run now w st =
     (case w of
        WRange r \<Rightarrow> snd (ts_update_range ops run r st)
      | WRun status info \<Rightarrow> snd (ts_update_run ops now run status info st))"

definition take_checkpoint :: "'s run_tracker \<Rightarrow> 's run_tracker" where
  "take_checkpoint tk =
     tk\<lparr>tk_hand := map WRange (omap_values (cp_pending (tk_checkpoint tk))),
        tk_checkpoint := (tk_checkpoint tk)\<lparr>cp_pending := []\<rparr>\<rparr>"

datatype tk_action =
    CallStart instant token_range
  | CallFinish token_range run_status string
  | CallEnd run_status string
  | DropSender
  | SendLate
  | RecvMany
  | Tick
  | ApplyNext instant
  | LoopEnds
  | WriterExits
  | CloserTakes
  | CloseReturns

fun tk_step ::
  "('s, 'm) tracking_ops_scheme \<Rightarrow> tk_action \<Rightarrow> 's run_tracker \<Rightarrow> 's run_tracker option" where
  "tk_step ops (CallStart now r) tk = Some (start_range now r tk)"
| "tk_step ops (CallFinish r status info) tk = Some (finish_range r status info tk)"
| "tk_step ops (CallEnd status info) tk = Some (enqueue (WRun status (Some info)) tk)"
| "tk_step ops DropSender tk = Some (tk\<lparr>tk_sender := False\<rparr>)"
| "tk_step ops SendLate tk =
     (case tk_late tk of
        [] \<Rightarrow> None
      | w # ws \<Rightarrow> if length (tk_queue tk) < capacity tk
                 then Some (tk\<lparr>tk_late := ws, tk_queue := tk_queue tk @ [w]\<rparr>) else None)"
| "tk_step ops RecvMany tk =
     (if tk_phase tk = Looping \<and> tk_hand tk = [] \<and> tk_queue tk \<noteq> []
      then Some (tk\<lparr>tk_hand := take (batch_limit tk) (tk_queue tk),
                    tk_queue := drop (batch_limit tk) (tk_queue tk)\<rparr>)
      else None)"
| "tk_step ops Tick tk =
     (if tk_phase tk = Looping \<and> tk_hand tk = [] then Some (take_checkpoint tk) else None)"
| "tk_step ops (ApplyNext now) tk =
     (case tk_hand tk of
        [] \<Rightarrow> None
      | w # ws \<Rightarrow> Some (tk\<lparr>tk_hand := ws, tk_store := apply_write ops (tk_run_id tk) now w (tk_store tk)\<rparr>))"
| "tk_step ops LoopEnds tk =
     (if tk_phase tk = Looping \<and> tk_hand tk = [] \<and> tk_queue tk = [] \<and> tk_late tk = [] \<and> \<not> tk_sender tk
      then Some ((take_checkpoint tk)\<lparr>tk_phase := LastCheckpoint\<rparr>) else None)"
| "tk_step ops WriterExits tk =
     (if tk_phase tk = LastCheckpoint \<and> tk_hand tk = [] then Some (tk\<lparr>tk_phase := WriterEnded\<rparr>) else None)"
| "tk_step ops CloserTakes tk =
     (if tk_phase tk = WriterEnded then Some ((take_checkpoint tk)\<lparr>tk_phase := Closing\<rparr>) else None)"
| "tk_step ops CloseReturns tk =
     (if tk_phase tk = Closing \<and> tk_hand tk = [] then Some (tk\<lparr>tk_phase := TrackerClosed\<rparr>) else None)"

fun tk_run ::
  "('s, 'm) tracking_ops_scheme \<Rightarrow> tk_action list \<Rightarrow> 's run_tracker \<Rightarrow> 's run_tracker option" where
  "tk_run ops [] tk = Some tk"
| "tk_run ops (a # as) tk = (case tk_step ops a tk of None \<Rightarrow> None | Some tk' \<Rightarrow> tk_run ops as tk')"

definition new_run_record ::
  "instant \<Rightarrow> run_id \<Rightarrow> run_id option \<Rightarrow> table_ref \<Rightarrow> job_kind \<Rightarrow> run_record" where
  "new_run_record now run previous tbl job =
     \<lparr> rr_run_id = run,
       rr_previous_run_id = (case previous of Some p \<Rightarrow> if run_id_is_unset p then None else Some p | None \<Rightarrow> None),
       rr_table = tbl, rr_job = job, rr_status = NotStarted, rr_started_at = Some now,
       rr_ended_at = None, rr_info = None \<rparr>"

subsection \<open>The contract of a tracking backend\<close>

text \<open>What one write does to the row of a range, and what it leaves alone.\<close>

definition concerns :: "i128 \<Rightarrow> track_write \<Rightarrow> bool" where
  "concerns k w = (case w of WRange r \<Rightarrow> tr_min (dr_range r) = k | WRun _ _ \<Rightarrow> False)"

definition write_status :: "track_write \<Rightarrow> run_status" where
  "write_status w = (case w of WRange r \<Rightarrow> dr_status r | WRun s _ \<Rightarrow> s)"

definition last_status :: "i128 \<Rightarrow> track_write list \<Rightarrow> run_status option \<Rightarrow> run_status option" where
  "last_status k ws initial =
     (case rev (filter (concerns k) ws) of [] \<Rightarrow> initial | w # _ \<Rightarrow> Some (write_status w))"

lemma last_status_snoc [simp]:
  "last_status k (ws @ [w]) i = (if concerns k w then Some (write_status w) else last_status k ws i)"
  by (simp add: last_status_def)

lemma last_status_Nil [simp]: "last_status k [] i = i"
  by (simp add: last_status_def)

lemma last_status_cong: "filter (concerns k) ws = filter (concerns k) vs \<Longrightarrow> last_status k ws i = last_status k vs i"
  by (simp add: last_status_def)

definition apply_log :: "('s, 'm) tracking_ops_scheme \<Rightarrow> run_id \<Rightarrow> (instant \<times> track_write) list \<Rightarrow> 's \<Rightarrow> 's" where
  "apply_log ops run log st = fold (\<lambda>(now, w). apply_write ops run now w) log st"

locale tracking_backend =
  fixes ops :: "('s, 'm) tracking_ops_scheme" and run :: run_id
    and row :: "i128 \<Rightarrow> 's \<Rightarrow> range_record option" and live :: "'s \<Rightarrow> bool"
  assumes live_range: "live s \<Longrightarrow> live (snd (ts_update_range ops run r s))"
    and live_run: "live s \<Longrightarrow> live (snd (ts_update_run ops now run status info s))"
    and row_range: "live s \<Longrightarrow> row k (snd (ts_update_range ops run r s)) =
       (if k = tr_min (dr_range r)
        then Some (merge_row (case row k s of Some e \<Rightarrow> e | None \<Rightarrow> r) r) else row k s)"
    and row_run: "row k (snd (ts_update_run ops now run status info s)) = row k s"
begin

lemma live_write: "live s \<Longrightarrow> live (apply_write ops run now w s)"
  by (cases w) (simp_all add: apply_write_def live_range live_run)

lemma live_log: "live s \<Longrightarrow> live (apply_log ops run log s)"
  by (induction log arbitrary: s) (auto simp: apply_log_def live_write)

lemma row_write:
  "live s \<Longrightarrow> map_option dr_status (row k (apply_write ops run now w s)) =
     (if concerns k w then Some (write_status w) else map_option dr_status (row k s))"
  by (cases w) (auto simp: apply_write_def row_range row_run concerns_def write_status_def)

text \<open>After any sequence of writes the row of a range has the status of the last write for it.\<close>

lemma row_log:
  "live s \<Longrightarrow> map_option dr_status (row k (apply_log ops run log s)) =
     last_status k (map snd log) (map_option dr_status (row k s))"
proof (induction log rule: rev_induct)
  case (snoc x log)
  obtain now w where x: "x = (now, w)" by fastforce
  have "apply_log ops run (log @ [x]) s = apply_write ops run now w (apply_log ops run log s)"
    by (simp add: apply_log_def x)
  then show ?case using snoc row_write [OF live_log [OF snoc.prems]] by (simp add: x)
qed (simp add: apply_log_def)

end

interpretation memory: tracking_backend memory_ops run "detail run" "\<lambda>st. get_run run st \<noteq> None"
  by unfold_locales (auto simp: update_range_detail update_run_run)

subsection \<open>What the writer applies\<close>

fun write_of :: "tk_action \<Rightarrow> track_write list" where
  "write_of (CallStart now r) =
     [WRange \<lparr> dr_range = r, dr_status = Started, dr_started_at = Some now, dr_info = None \<rparr>]"
| "write_of (CallFinish r status info) =
     [WRange \<lparr> dr_range = r, dr_status = status, dr_started_at = None, dr_info = Some info \<rparr>]"
| "write_of (CallEnd status info) = [WRun status (Some info)]"
| "write_of _ = []"

definition issued :: "tk_action list \<Rightarrow> track_write list" where
  "issued acts = concat (map write_of acts)"

definition sheds :: "tk_action \<Rightarrow> 's run_tracker \<Rightarrow> i128 \<Rightarrow> bool" where
  "sheds a tk k \<longleftrightarrow> \<not> (tk_sender tk \<and> has_room tk) \<and> (\<exists>w \<in> set (write_of a). concerns k w)"

fun never_shed :: "('s, 'm) tracking_ops_scheme \<Rightarrow> tk_action list \<Rightarrow> 's run_tracker \<Rightarrow> i128 \<Rightarrow> bool" where
  "never_shed ops [] tk k = True"
| "never_shed ops (a # as) tk k =
     (\<not> sheds a tk k \<and> (case tk_step ops a tk of None \<Rightarrow> True | Some tk' \<Rightarrow> never_shed ops as tk' k))"

definition applies :: "tk_action \<Rightarrow> 's run_tracker \<Rightarrow> (instant \<times> track_write) list" where
  "applies a tk = (case a of ApplyNext now \<Rightarrow> map (Pair now) (take 1 (tk_hand tk)) | _ \<Rightarrow> [])"

fun applied :: "('s, 'm) tracking_ops_scheme \<Rightarrow> tk_action list \<Rightarrow> 's run_tracker \<Rightarrow> (instant \<times> track_write) list" where
  "applied ops [] tk = []"
| "applied ops (a # as) tk =
     applies a tk @ (case tk_step ops a tk of None \<Rightarrow> [] | Some tk' \<Rightarrow> applied ops as tk')"

definition in_flight :: "'s run_tracker \<Rightarrow> track_write list" where
  "in_flight tk = tk_hand tk @ tk_queue tk @ tk_late tk"

definition tk_inv :: "'s run_tracker \<Rightarrow> bool" where
  "tk_inv tk \<longleftrightarrow> (tk_phase tk \<noteq> Looping \<longrightarrow> tk_queue tk = [] \<and> tk_late tk = [] \<and> \<not> tk_sender tk)
     \<and> (tk_phase tk \<in> {WriterEnded, TrackerClosed} \<longrightarrow> tk_hand tk = [])"

definition unmarked :: "i128 \<Rightarrow> 's run_tracker \<Rightarrow> bool" where
  "unmarked k tk \<longleftrightarrow> (\<forall>r \<in> set (omap_values (cp_pending (tk_checkpoint tk))). tr_min (dr_range r) \<noteq> k)"

lemma enqueue_fields [simp]:
  "tk_run_id (enqueue w tk) = tk_run_id tk" "tk_store (enqueue w tk) = tk_store tk"
  "tk_phase (enqueue w tk) = tk_phase tk" "tk_hand (enqueue w tk) = tk_hand tk"
  "tk_sender (enqueue w tk) = tk_sender tk"
  by (simp_all add: enqueue_def Let_def split: track_write.split)

lemma tk_step_store:
  "tk_step ops a tk = Some tk' \<Longrightarrow>
     tk_run_id tk' = tk_run_id tk \<and> tk_store tk' = apply_log ops (tk_run_id tk) (applies a tk) (tk_store tk)"
  by (cases a) (auto simp: applies_def apply_log_def start_range_def finish_range_def take_checkpoint_def
      split: if_splits list.splits)

lemma tk_step_inv: "tk_step ops a tk = Some tk' \<Longrightarrow> tk_inv tk \<Longrightarrow> tk_inv tk'"
  by (cases a) (auto simp: tk_inv_def start_range_def finish_range_def take_checkpoint_def enqueue_def Let_def
      split: if_splits list.splits track_write.splits)

lemma unmarked_insert:
  "unmarked k tk \<Longrightarrow> tr_min (dr_range r) \<noteq> k \<Longrightarrow> v \<in> set (omap_values (omap_insert j r (cp_pending (tk_checkpoint tk)))) \<Longrightarrow>
     tr_min (dr_range v) \<noteq> k"
  using set_omap_insert [of j r "cp_pending (tk_checkpoint tk)"]
  by (fastforce simp: unmarked_def omap_values_member)

lemma enqueue_flight:
  assumes "unmarked k tk" "(tk_sender tk \<and> has_room tk) \<or> \<not> concerns k w"
  shows "filter (concerns k) (in_flight (enqueue w tk)) = filter (concerns k) (in_flight tk @ [w])"
    and "unmarked k (enqueue w tk)"
proof -
  show "filter (concerns k) (in_flight (enqueue w tk)) = filter (concerns k) (in_flight tk @ [w])"
    using assms(2) by (cases w) (auto simp: enqueue_def in_flight_def has_room_def Let_def concerns_def)
  show "unmarked k (enqueue w tk)"
    using assms unmarked_insert [OF assms(1)]
    by (cases w) (auto simp: enqueue_def unmarked_def Let_def fold_into_checkpoint_def concerns_def)
qed

lemma take_checkpoint_flight:
  "unmarked k tk \<Longrightarrow> tk_hand tk = [] \<Longrightarrow>
     filter (concerns k) (in_flight (take_checkpoint tk)) = filter (concerns k) (in_flight tk)"
  "unmarked k (take_checkpoint tk)"
  by (auto simp: take_checkpoint_def in_flight_def unmarked_def concerns_def omap_values_def filter_empty_conv)

lemma in_flight_phase [simp]: "in_flight (tk\<lparr>tk_phase := p\<rparr>) = in_flight tk" "unmarked k (tk\<lparr>tk_phase := p\<rparr>) = unmarked k tk"
  by (simp_all add: in_flight_def unmarked_def)

lemma take_drop_append: "take n xs @ drop n xs @ ys = xs @ ys"
  by (simp flip: append_assoc)

lemma tk_step_flight:
  assumes "tk_step ops a tk = Some tk'" "tk_inv tk" "unmarked k tk" "\<not> sheds a tk k"
  shows "filter (concerns k) (map snd (applies a tk) @ in_flight tk') = filter (concerns k) (in_flight tk @ write_of a)
       \<and> unmarked k tk'"
proof (cases a)
  case (CallStart now r)
  then show ?thesis using assms enqueue_flight [of k tk] by (auto simp: start_range_def applies_def sheds_def)
next
  case (CallFinish r status info)
  then show ?thesis using assms enqueue_flight [of k tk] by (auto simp: finish_range_def applies_def sheds_def)
next
  case (CallEnd status info)
  then show ?thesis using assms enqueue_flight [of k tk] by (auto simp: applies_def sheds_def)
next
  case Tick
  then show ?thesis
    using assms take_checkpoint_flight [of k tk] by (auto simp: applies_def split: if_splits)
next
  case LoopEnds
  then show ?thesis
    using assms take_checkpoint_flight [of k tk] by (auto simp: applies_def split: if_splits)
next
  case CloserTakes
  then have "tk_hand tk = []" using assms(1,2) by (auto simp: tk_inv_def split: if_splits)
  with CloserTakes show ?thesis
    using assms take_checkpoint_flight [of k tk] by (auto simp: applies_def split: if_splits)
next
  case RecvMany
  with assms show ?thesis
    by (auto simp: applies_def in_flight_def unmarked_def take_drop_append simp del: filter_append split: if_splits)
qed (use assms in \<open>auto simp: applies_def in_flight_def unmarked_def split: if_splits list.splits\<close>)

lemma tk_run_flight:
  assumes "tk_run ops acts tk = Some tk'" "tk_inv tk" "unmarked k tk" "never_shed ops acts tk k"
  shows "filter (concerns k) (map snd (applied ops acts tk) @ in_flight tk') = filter (concerns k) (in_flight tk @ issued acts)"
  using assms
proof (induction acts arbitrary: tk)
  case (Cons a as)
  then obtain tk1 where s: "tk_step ops a tk = Some tk1" "tk_run ops as tk1 = Some tk'"
    by (auto split: option.splits)
  with Cons.prems have ns: "\<not> sheds a tk k" "never_shed ops as tk1 k" by simp_all
  note fl = tk_step_flight [OF s(1) Cons.prems(2,3) ns(1)]
  have "filter (concerns k) (map snd (applied ops as tk1) @ in_flight tk') = filter (concerns k) (in_flight tk1 @ issued as)"
    using Cons.IH [OF s(2) tk_step_inv [OF s(1) Cons.prems(2)] _ ns(2)] fl by blast
  with fl show ?case by (simp add: s(1) issued_def)
qed (simp add: issued_def)

lemma tk_run_store:
  "tk_run ops acts tk = Some tk' \<Longrightarrow> tk_inv tk \<Longrightarrow>
     tk_store tk' = apply_log ops (tk_run_id tk) (applied ops acts tk) (tk_store tk) \<and> tk_inv tk'"
proof (induction acts arbitrary: tk)
  case (Cons a as)
  then obtain tk1 where s: "tk_step ops a tk = Some tk1" "tk_run ops as tk1 = Some tk'"
    by (auto split: option.splits)
  then show ?case
    using Cons.IH [OF s(2) tk_step_inv [OF s(1) Cons.prems(2)]] tk_step_store [OF s(1)]
    by (simp add: apply_log_def)
qed (simp add: apply_log_def)

subsection \<open>Closing\<close>

text \<open>What the writer and the closing caller do next, and the work left to them.\<close>

definition next_action :: "instant \<Rightarrow> 's run_tracker \<Rightarrow> tk_action" where
  "next_action now tk =
     (if tk_hand tk \<noteq> [] then ApplyNext now
      else case tk_phase tk of
             Looping \<Rightarrow> if tk_queue tk \<noteq> [] then RecvMany else if tk_late tk \<noteq> [] then SendLate else LoopEnds
           | LastCheckpoint \<Rightarrow> WriterExits
           | WriterEnded \<Rightarrow> CloserTakes
           | _ \<Rightarrow> CloseReturns)"

fun phase_rank :: "writer_phase \<Rightarrow> nat" where
  "phase_rank Looping = 4"
| "phase_rank LastCheckpoint = 3"
| "phase_rank WriterEnded = 2"
| "phase_rank Closing = 1"
| "phase_rank TrackerClosed = 0"

definition work_left :: "'s run_tracker \<Rightarrow> nat" where
  "work_left tk = 3 * length (tk_late tk) + 2 * length (tk_queue tk) + length (tk_hand tk)
     + 2 * length (cp_pending (tk_checkpoint tk)) + phase_rank (tk_phase tk)"

lemma next_action_progress:
  assumes "tk_inv tk" "\<not> tk_sender tk" "tk_phase tk \<noteq> TrackerClosed"
  shows "\<exists>tk'. tk_step ops (next_action now tk) tk = Some tk' \<and> \<not> tk_sender tk' \<and> work_left tk' < work_left tk"
proof (cases "tk_hand tk")
  case Nil
  have "0 < batch_limit tk" "0 < capacity tk" by (simp_all add: batch_limit_def capacity_def)
  with Nil assms show ?thesis
    by (cases "tk_phase tk"; cases "tk_queue tk"; cases "tk_late tk")
      (auto simp: next_action_def work_left_def take_checkpoint_def omap_values_def tk_inv_def min_def)
qed (simp add: next_action_def work_left_def assms)

fun drain :: "('s, 'm) tracking_ops_scheme \<Rightarrow> instant \<Rightarrow> nat \<Rightarrow> 's run_tracker \<Rightarrow> tk_action list" where
  "drain ops now 0 tk = []"
| "drain ops now (Suc n) tk =
     (if tk_phase tk = TrackerClosed then []
      else case tk_step ops (next_action now tk) tk of
             None \<Rightarrow> [] | Some tk' \<Rightarrow> next_action now tk # drain ops now n tk')"

lemma drain_closes:
  "tk_inv tk \<Longrightarrow> \<not> tk_sender tk \<Longrightarrow> work_left tk \<le> n \<Longrightarrow>
     \<exists>tk'. tk_run ops (drain ops now n tk) tk = Some tk' \<and> tk_phase tk' = TrackerClosed"
proof (induction n arbitrary: tk)
  case 0
  then have "phase_rank (tk_phase tk) = 0" by (simp add: work_left_def)
  then show ?case by (cases "tk_phase tk") simp_all
next
  case (Suc n)
  show ?case
  proof (cases "tk_phase tk = TrackerClosed")
    case False
    from next_action_progress [OF Suc.prems(1,2) False] obtain tk1 where
      s: "tk_step ops (next_action now tk) tk = Some tk1" "\<not> tk_sender tk1" "work_left tk1 < work_left tk" by blast
    with Suc.IH [OF tk_step_inv [OF s(1) Suc.prems(1)] s(2)] Suc.prems(3) False show ?thesis by simp
  qed simp
qed

lemma issued_drain: "issued (drain ops now n tk) = []"
  by (induction n arbitrary: tk)
    (auto simp: issued_def next_action_def split: option.split writer_phase.split)

lemma start_tracker_memory:
  assumes "start_tracker memory_ops rec ranges config st = (Inr tk, st')"
  shows "tk_inv tk" "in_flight tk = []" "unmarked k tk" "tk_run_id tk = rr_run_id rec"
    "tk_store tk = snd (create_run rec (map planned_record ranges) st)" "get_run (rr_run_id rec) st = None"
proof -
  obtain s2 where s2: "create_run rec (map planned_record ranges) st = (Inr (), s2)"
    "tk = \<lparr> tk_run_id = rr_run_id rec, tk_store = s2, tk_config = config, tk_sender = True,
           tk_queue = [], tk_late = [], tk_checkpoint = \<lparr> cp_pending = [], cp_shed = 0 \<rparr>,
           tk_hand = [], tk_phase = Looping \<rparr>"
    using assms by (auto simp: start_tracker_def split: prod.splits sum.splits)
  then show "tk_inv tk" "in_flight tk = []" "unmarked k tk" "tk_run_id tk = rr_run_id rec"
    "tk_store tk = snd (create_run rec (map planned_record ranges) st)"
    by (simp_all add: tk_inv_def in_flight_def unmarked_def omap_values_def)
  show "get_run (rr_run_id rec) st = None"
    using create_run_cases(1) [of rec st "map planned_record ranges"] s2(1) by (cases "get_run (rr_run_id rec) st") auto
qed

lemma closed_flight: "tk_inv tk \<Longrightarrow> tk_phase tk = TrackerClosed \<Longrightarrow> in_flight tk = []"
  by (simp add: tk_inv_def in_flight_def)

lemma unshed_range_core:
  assumes start: "start_tracker memory_ops rec ranges config st = (Inr tk, st')"
    and ok: "store_ok st" "distinct (map tr_min ranges)" "r \<in> set ranges"
    and run: "tk_run memory_ops acts tk = Some tk'" "tk_phase tk' = TrackerClosed"
    and shed: "never_shed memory_ops acts tk (tr_min r)"
  shows "\<exists>row. detail (rr_run_id rec) (tr_min r) (tk_store tk') = Some row
     \<and> Some (dr_status row) = last_status (tr_min r) (issued acts) (Some NotStarted)"
proof -
  let ?k = "tr_min r" and ?log = "applied memory_ops acts tk"
  note i = start_tracker_memory [OF start]
  have tr: "tracks (rr_run_id rec) ranges (\<lambda>_. NotStarted) (tk_store tk)"
    using tracks_create [OF ok(1) i(6) ok(2)] by (simp add: i(5))
  note st = tk_run_store [OF run(1) i(1)]
  have "filter (concerns ?k) (map snd ?log) = filter (concerns ?k) (issued acts)"
    using tk_run_flight [OF run(1) i(1) i(3) shed] closed_flight [OF conjunct2 [OF st] run(2)]
    by (simp add: i(2))
  then have "last_status ?k (map snd ?log) = last_status ?k (issued acts)"
    by (intro ext last_status_cong)
  moreover have "map_option dr_status (detail (rr_run_id rec) ?k (tk_store tk')) =
      last_status ?k (map snd ?log) (map_option dr_status (detail (rr_run_id rec) ?k (tk_store tk)))"
    using memory.row_log [of "rr_run_id rec" "tk_store tk" ?k ?log] tr st by (simp add: tracks_def i(4))
  moreover have "map_option dr_status (detail (rr_run_id rec) ?k (tk_store tk)) = Some NotStarted"
    using tr ok(3) by (auto simp: tracks_def)
  ultimately have "map_option dr_status (detail (rr_run_id rec) ?k (tk_store tk')) =
      last_status ?k (issued acts) (Some NotStarted)" by simp
  moreover have "\<exists>s. last_status ?k (issued acts) (Some NotStarted) = Some s"
    by (simp add: last_status_def split: list.split)
  ultimately show ?thesis by (auto simp: map_option_case split: option.splits)
qed

subsection \<open>Properties\<close>

text \<open>
  Claim C26. A range none of whose updates was shed ends with the right row. For any interleaving of the
  callers, the writer task, its timer and the closing caller, once the tracker is closed the row of
  such a range has the status of the last update issued for it (\<open>NOT_STARTED\<close> if there was none): the
  channel neither loses, duplicates nor reorders its updates, and no checkpoint overwrites them.
\<close>

theorem unshed_range_keeps_last_status:
  assumes "start_tracker memory_ops rec ranges config st = (Inr tk, st')"
    and "store_ok st" and "distinct (map tr_min ranges)" and "r \<in> set ranges"
    and "tk_run memory_ops acts tk = Some tk'" and "tk_phase tk' = TrackerClosed"
    and "never_shed memory_ops acts tk (tr_min r)"
  shows "\<exists>row. detail (rr_run_id rec) (tr_min r) (tk_store tk') = Some row
     \<and> Some (dr_status row) = last_status (tr_min r) (issued acts) (Some NotStarted)"
  using assms by (rule unshed_range_core)

definition tiny_config :: tracker_config where
  "tiny_config = \<lparr> tc_queue_capacity = 1, tc_batch_size = 1, tc_checkpoint_interval = 10 \<rparr>"

definition sample_tracker :: "memory_store run_tracker" where
  "sample_tracker =
     \<lparr> tk_run_id = RunId 7,
       tk_store = snd (create_run sample_run (map planned_record [TokenRange 0 9, TokenRange 10 19]) []),
       tk_config = tiny_config, tk_sender = True, tk_queue = [], tk_late = [],
       tk_checkpoint = \<lparr> cp_pending = [], cp_shed = 0 \<rparr>, tk_hand = [], tk_phase = Looping \<rparr>"

lemma sample_start:
  "start_tracker memory_ops sample_run [TokenRange 0 9, TokenRange 10 19] tiny_config [] = (Inr sample_tracker, tk_store sample_tracker)"
  by (simp add: start_tracker_def sample_tracker_def create_run_def Let_def sample_run_def)

lemmas tracker_eval = sample_tracker_def tiny_config_def start_range_def finish_range_def enqueue_def has_room_def
  capacity_def batch_limit_def take_checkpoint_def omap_values_def fold_into_checkpoint_def apply_write_def
  wrap_add_u64_def sheds_def concerns_def

definition calm_run :: "tk_action list" where
  "calm_run = [CallStart 1 (TokenRange 0 9), RecvMany, ApplyNext 2, CallFinish (TokenRange 0 9) Pass ''ok'', RecvMany,
     ApplyNext 3, DropSender, LoopEnds, WriterExits, CloserTakes, CloseReturns]"

theorem unshed_range_keeps_last_status_witness:
  "\<exists>tk' row. tk_run memory_ops calm_run sample_tracker = Some tk'
     \<and> detail (RunId 7) 0 (tk_store tk') = Some row \<and> dr_status row = Pass"
proof -
  obtain tk' where run: "tk_run memory_ops calm_run sample_tracker = Some tk'" "tk_phase tk' = TrackerClosed"
    by (simp add: calm_run_def tracker_eval)
  have ns: "never_shed memory_ops calm_run sample_tracker (tr_min (TokenRange 0 9))"
    by (simp add: calm_run_def tracker_eval)
  have "store_ok []" "distinct (map tr_min [TokenRange 0 9, TokenRange 10 19])"
    "TokenRange 0 9 \<in> set [TokenRange 0 9, TokenRange 10 19]" by (simp_all add: store_ok_def)
  from unshed_range_keeps_last_status [OF sample_start this run ns] run(1) show ?thesis
    by (auto simp: sample_run_def last_status_def issued_def calm_run_def concerns_def write_status_def)
qed

text \<open>
  Closing a tracker always completes. From any state the tracker can reach, once the sender
  is dropped and whatever is queued, held back, shed or in the writer's hands, carrying on the writer
  and then the closing caller reaches the closed state within \<open>work_left\<close> actions, for every backend,
  failing ones included, and issues no new update.
\<close>

theorem close_completes:
  assumes "tk_inv tk" and "tk_run ops acts tk = Some tk1" and "\<not> tk_sender tk1"
  shows "\<exists>tk'. tk_run ops (drain ops now (work_left tk1) tk1) tk1 = Some tk' \<and> tk_phase tk' = TrackerClosed
     \<and> in_flight tk' = [] \<and> issued (drain ops now (work_left tk1) tk1) = []"
proof -
  have inv: "tk_inv tk1" using tk_run_store [OF assms(2,1)] by simp
  from drain_closes [OF this assms(3) order_refl, of ops now] obtain tk' where
    tk': "tk_run ops (drain ops now (work_left tk1) tk1) tk1 = Some tk'" "tk_phase tk' = TrackerClosed" by blast
  moreover have "in_flight tk' = []" using closed_flight tk_run_store [OF tk'(1) inv] tk'(2) by blast
  ultimately show ?thesis by (simp add: issued_drain)
qed

theorem close_completes_witness:
  "\<exists>tk'. tk_run memory_ops (drain memory_ops 9 (work_left (sample_tracker\<lparr>tk_sender := False\<rparr>)) (sample_tracker\<lparr>tk_sender := False\<rparr>))
        (sample_tracker\<lparr>tk_sender := False\<rparr>) = Some tk' \<and> tk_phase tk' = TrackerClosed"
  using close_completes [of sample_tracker memory_ops "[DropSender]" "sample_tracker\<lparr>tk_sender := False\<rparr>" 9]
  by (auto simp: tk_inv_def sample_tracker_def)

text \<open>
  Shedding can lose a final status. With a full channel, a shed \<open>STARTED\<close> stays in the
  checkpoint while the range's later \<open>PASS\<close> goes through the channel, and the last checkpoint then
  overwrites it; or a shed \<open>PASS\<close> is checkpointed before the \<open>STARTED\<close> still queued, which is applied
  after it. In both runs the tracker closes in the ordinary way, the run row says \<open>ENDED\<close>, the last
  update issued for the range was \<open>PASS\<close>, and its row says \<open>STARTED\<close>.
\<close>

definition overwritten_run :: "tk_action list" where
  "overwritten_run = [CallStart 1 (TokenRange 0 9), CallStart 2 (TokenRange 10 19), RecvMany, ApplyNext 3,
     CallFinish (TokenRange 10 19) Pass ''ok'', RecvMany, ApplyNext 4, CallFinish (TokenRange 0 9) Pass ''ok'',
     RecvMany, ApplyNext 5, CallEnd Ended ''ok'', DropSender, RecvMany, ApplyNext 6, LoopEnds, ApplyNext 7,
     WriterExits, CloserTakes, CloseReturns]"

definition reordered_run :: "tk_action list" where
  "reordered_run = [CallStart 1 (TokenRange 10 19), CallFinish (TokenRange 10 19) Pass ''ok'', Tick, ApplyNext 2,
     RecvMany, ApplyNext 3, CallEnd Ended ''ok'', DropSender, RecvMany, ApplyNext 4, LoopEnds, WriterExits,
     CloserTakes, CloseReturns]"

definition ends_stale :: "tk_action list \<Rightarrow> bool" where
  "ends_stale acts \<longleftrightarrow>
     (case tk_run memory_ops acts sample_tracker of
        None \<Rightarrow> False
      | Some tk \<Rightarrow> tk_phase tk = TrackerClosed
          \<and> map_option rr_status (get_run (RunId 7) (tk_store tk)) = Some Ended
          \<and> last_status 10 (issued acts) None = Some Pass
          \<and> map_option dr_status (detail (RunId 7) 10 (tk_store tk)) = Some Started)"

lemmas stale_eval = ends_stale_def tracker_eval memory_ops_fields create_run_def update_range_def update_run_def
  upsert_row_def merge_row_def finish_row_def Let_def get_run_def detail_def planned_rows_def planned_record_def
  fresh_row_def sample_run_def last_status_def issued_def write_status_def

theorem shed_update_loses_pass: "ends_stale overwritten_run \<and> ends_stale reordered_run"
proof
  show "ends_stale overwritten_run" by (simp add: stale_eval overwritten_run_def)
  show "ends_stale reordered_run" by (simp add: stale_eval reordered_run_def)
qed

end
