(* ===== verification/Cluster_Lease.thy ===== *)
theory Cluster_Lease
  imports Track_Store Rust_Strings
begin

text \<open>
  Distributed mode: \<open>crates/cdm-cluster/src\<close> (\<open>node.rs\<close>, \<open>settings.rs\<close>, \<open>lease.rs\<close>, \<open>coordinator.rs\<close>).
  The coordinator's methods are functions of the lease backend (any implementation of the \<open>LeaseStore\<close>
  methods), the node's settings and the clock readings they take. A fleet of nodes is a step relation:
  each node works through its calls one store operation at a time, so that between a node's read of a
  lease row and its conditional write any other node may act. The locale \<open>lease_backend\<close> is what the
  coordinator relies on; the in-process store is shown to provide it.
\<close>

subsection \<open>Node names and settings\<close>

definition MAX_NODE_ID :: usize where "MAX_NODE_ID = 128"

definition node_error :: "string \<Rightarrow> cdm_error" where
  "node_error message = with_context (with_config_key ''cluster.node_id'') (new_error Config message)"

definition is_control :: "char \<Rightarrow> bool" where
  "is_control c \<longleftrightarrow> (of_char c :: nat) < 32 \<or> (of_char c :: nat) = 127"

definition new_node_id :: "string \<Rightarrow> string result" where
  "new_node_id value =
     (let trimmed = trim value
      in if trimmed = []
         then Inl (node_error (''cluster.node_id is empty; leave it unset to have the host name and process id ''
                    @ ''used, or give this node a name unique across the run''))
         else if length trimmed > MAX_NODE_ID
         then Inl (node_error (''cluster.node_id is longer than 128 characters; it names a node in diagnostics, ''
                    @ ''not a document''))
         else if list_ex is_control trimmed
         then Inl (node_error (''cluster.node_id contains a control character; it is printed in logs and in ''
                    @ ''`cdm cluster status`, where that would forge a second line''))
         else Inr trimmed)"

datatype reclaim_policy = Reclaim | Refuse

text \<open>Durations are nanoseconds; \<open>std::time::Duration\<close> holds at most \<open>u64::MAX\<close> seconds and a fraction.\<close>

type_synonym duration = nat

definition DURATION_MAX :: duration where
  "DURATION_MAX = u64_max * 1000000000 + 999999999"

record coordinator_settings =
  cs_lease_duration :: duration
  cs_heartbeat_interval :: duration
  cs_max_attempts :: u32
  cs_reclaim :: reclaim_policy

definition settings_error :: "string \<Rightarrow> string \<Rightarrow> cdm_error" where
  "settings_error key message = with_context (with_config_key key) (new_error Config message)"

definition new_coordinator_settings ::
  "duration \<Rightarrow> duration \<Rightarrow> u32 \<Rightarrow> reclaim_policy \<Rightarrow> coordinator_settings result" where
  "new_coordinator_settings lease_duration heartbeat max_attempts reclaim =
     (if lease_duration = 0
      then Inl (settings_error ''cluster.lease_duration''
             (''cluster.lease_duration is zero, so every lease would be expired the moment it ''
              @ ''was granted and two nodes could process one range at once''))
      else if heartbeat = 0
      then Inl (settings_error ''cluster.heartbeat_interval''
             (''cluster.heartbeat_interval is zero; a node would renew its leases in a loop ''
              @ ''with no pause, saturating the target cluster with lightweight transactions''))
      else if sat_mul DURATION_MAX heartbeat 2 > lease_duration
      then Inl (settings_error ''cluster.heartbeat_interval''
             (''cluster.heartbeat_interval must be at most half of cluster.lease_duration, so ''
              @ ''that a node can miss a renewal without another node reclaiming the range it is ''
              @ ''still processing (DST-012)''))
      else if max_attempts = 0
      then Inl (settings_error ''cluster.max_attempts''
             (''cluster.max_attempts is zero, which would abandon every range before any node ''
              @ ''had tried it (DST-013)''))
      else Inr \<lparr> cs_lease_duration = lease_duration, cs_heartbeat_interval = heartbeat,
                 cs_max_attempts = max_attempts, cs_reclaim = reclaim \<rparr>)"

subsection \<open>Leases\<close>

record range_lease =
  le_range :: token_range
  le_node :: string
  le_expires_at :: instant
  le_attempt :: u32

definition new_lease :: "token_range \<Rightarrow> string \<Rightarrow> instant \<Rightarrow> u32 \<Rightarrow> range_lease" where
  "new_lease r node expires_at attempt =
     \<lparr> le_range = r, le_node = node, le_expires_at = expires_at, le_attempt = attempt \<rparr>"

definition is_expired_at :: "range_lease \<Rightarrow> instant \<Rightarrow> bool" where
  "is_expired_at l now \<longleftrightarrow> now \<ge> le_expires_at l"

definition renewed_until :: "range_lease \<Rightarrow> instant \<Rightarrow> range_lease" where
  "renewed_until l expires_at = l\<lparr>le_expires_at := expires_at\<rparr>"

datatype claim_outcome =
    Claimed range_lease
  | Held string instant u32
  | Exhausted u32 string
  | ReclaimRefused string u32

datatype join_outcome = Initialised | Joined

datatype lease_end = EndReleased | EndLost | EndExpired

subsection \<open>The coordinator\<close>

definition CONFIG_HASH_PREFIX :: string where "CONFIG_HASH_PREFIX = ''config_hash=''"

record coordinator =
  co_node :: string
  co_settings :: coordinator_settings

text \<open>\<open>chrono::Duration::MAX\<close> is \<open>i64::MAX\<close> milliseconds.\<close>

definition chrono_duration :: "duration \<Rightarrow> int" where
  "chrono_duration d = min (int d) (i64_max * 1000000)"

definition lease_deadline :: "coordinator \<Rightarrow> instant \<Rightarrow> instant" where
  "lease_deadline co now = now + chrono_duration (cs_lease_duration (co_settings co))"

text \<open>The two messages are given without the advice that ends them.\<close>

definition check_config_hash :: "run_record \<Rightarrow> string \<Rightarrow> unit result" where
  "check_config_hash existing config_hash =
     (let recorded = (case rr_info existing of None \<Rightarrow> None | Some info \<Rightarrow> strip_prefix CONFIG_HASH_PREFIX info)
      in case recorded of
           Some h \<Rightarrow>
             if h = config_hash then Inr ()
             else Inl (with_context (with_config_key ''cluster.enabled'') (new_error Config
               (''run '' @ show_run_id (rr_run_id existing) @ '' was initialised by a node whose configuration hashes to ''
                @ h @ ''; this node's hashes to '' @ config_hash
                @ ''. Every node of a distributed run must be started with the same configuration (DST-003)'')))
         | None \<Rightarrow>
             Inl (with_context (with_config_key ''track_run.run_id'') (new_error Config
               (''run '' @ show_run_id (rr_run_id existing) @ '' exists but records no configuration hash, so this node ''
                @ ''cannot verify that it was started with the same configuration (DST-003)''))))"

text \<open>
  \<open>await_started\<close> polls the run row on the heartbeat. Each element of the list is one iteration: what
  the store answered and the clock read after it; \<open>None\<close> means the loop is still waiting when the list
  ends.
\<close>

fun await_started :: "run_id \<Rightarrow> instant \<Rightarrow> (run_record option result \<times> instant) list \<Rightarrow> unit result option" where
  "await_started run deadline [] = None"
| "await_started run deadline ((answer, now) # polls) =
     (case answer of
        Inl e \<Rightarrow> Some (Inl e)
      | Inr None \<Rightarrow> Some (Inl (new_error Lease (''run '' @ show_run_id run
            @ '' lost the initialisation election to another node and then ''
            @ ''disappeared; the target keyspace is not answering consistently'')))
      | Inr (Some r) \<Rightarrow>
          (if rr_status r = Started then Some (Inr ())
           else if rr_status r = NotStarted
           then (if now \<ge> deadline
                 then Some (Inl (new_error Lease (''the node initialising run '' @ show_run_id run
                        @ '' did not reach STARTED within cluster.lease_duration; it is not coming back. ''
                        @ ''Check whether it is still running before starting the run again'')))
                 else await_started run deadline polls)
           else Some (Inl (new_error Lease (''run '' @ show_run_id run @ '' is already ''
                  @ status_as_str (rr_status r) @ ''; a node cannot join a run that has finished. ''
                  @ ''Start a new run, or resume this one with track_run.previous_run_id = '' @ show_run_id run)))))"

definition join_run ::
  "'s lease_ops \<Rightarrow> coordinator \<Rightarrow> instant \<Rightarrow> (run_record option result \<times> instant) list \<Rightarrow> run_record
     \<Rightarrow> range_record list \<Rightarrow> string \<Rightarrow> 's \<Rightarrow> join_outcome result option \<times> 's" where
  "join_run ops co now polls rec ranges config_hash st =
     (case ts_initialise ops st of
        (Inl e, st1) \<Rightarrow> (Some (Inl e), st1)
      | (Inr _, st1) \<Rightarrow>
     (case ls_initialise_leases ops st1 of
        (Inl e, st2) \<Rightarrow> (Some (Inl e), st2)
      | (Inr _, st2) \<Rightarrow>
     (case ls_initialise_run ops rec ranges (CONFIG_HASH_PREFIX @ config_hash) st2 of
        (Inl e, st3) \<Rightarrow> (Some (Inl e), st3)
      | (Inr Won, st3) \<Rightarrow> (Some (Inr Initialised), st3)
      | (Inr (Lost existing), st3) \<Rightarrow>
          (case check_config_hash existing config_hash of
             Inl e \<Rightarrow> (Some (Inl e), st3)
           | Inr _ \<Rightarrow>
               (map_option (\<lambda>r. bindR r (\<lambda>_. Inr Joined))
                  (await_started (rr_run_id rec) (lease_deadline co now) polls), st3)))))"

text \<open>What \<open>claim\<close> decides from the row it read, and what it makes of the store's answer.\<close>

definition claim_decide :: "coordinator \<Rightarrow> instant \<Rightarrow> lease_record option \<Rightarrow> claim_outcome option" where
  "claim_decide co now observed =
     (case observed of
        None \<Rightarrow> None
      | Some current \<Rightarrow>
          if lr_lease_until current > now
          then Some (Held (lr_node_id current) (lr_lease_until current) (lr_attempt current))
          else if lr_attempt current \<ge> cs_max_attempts (co_settings co)
          then Some (Exhausted (lr_attempt current) (lr_node_id current))
          else if cs_reclaim (co_settings co) = Refuse
          then Some (ReclaimRefused (lr_node_id current) (lr_attempt current))
          else None)"

definition claim_conclude :: "coordinator \<Rightarrow> token_range \<Rightarrow> lease_outcome \<Rightarrow> claim_outcome" where
  "claim_conclude co r outcome =
     (case outcome of
        Granted row \<Rightarrow> Claimed (new_lease r (co_node co) (lr_lease_until row) (lr_attempt row))
      | Denied row \<Rightarrow> Held (lr_node_id row) (lr_lease_until row) (lr_attempt row))"

definition claim_lease :: "'s lease_ops \<Rightarrow> coordinator \<Rightarrow> instant \<Rightarrow> run_id \<Rightarrow> token_range \<Rightarrow> 's \<Rightarrow> claim_outcome result \<times> 's" where
  "claim_lease ops co now run r st =
     (case ls_lease ops run r st of
        Inl e \<Rightarrow> (Inl e, st)
      | Inr observed \<Rightarrow>
          (case claim_decide co now observed of
             Some outcome \<Rightarrow> (Inr outcome, st)
           | None \<Rightarrow>
               (case ls_claim_range ops run r (co_node co) now (lease_deadline co now) observed st of
                  (Inl e, st') \<Rightarrow> (Inl e, st')
                | (Inr outcome, st') \<Rightarrow> (Inr (claim_conclude co r outcome), st'))))"

text \<open>\<open>claim_first\<close>: each candidate comes with the clock reading its claim takes.\<close>

fun claim_first ::
  "'s lease_ops \<Rightarrow> coordinator \<Rightarrow> run_id \<Rightarrow> (token_range \<times> instant) list \<Rightarrow> 's \<Rightarrow> range_lease option result \<times> 's" where
  "claim_first ops co run [] st = (Inr None, st)"
| "claim_first ops co run ((r, now) # candidates) st =
     (case claim_lease ops co now run r st of
        (Inl e, st') \<Rightarrow> (Inl e, st')
      | (Inr (Claimed l), st') \<Rightarrow> (Inr (Some l), st')
      | (Inr _, st') \<Rightarrow> claim_first ops co run candidates st')"

definition renew ::
  "'s lease_ops \<Rightarrow> coordinator \<Rightarrow> instant \<Rightarrow> run_id \<Rightarrow> range_lease \<Rightarrow> 's \<Rightarrow> range_lease option result \<times> 's" where
  "renew ops co now run l st =
     (let expires_at = lease_deadline co now
      in case ls_renew_lease ops run (le_range l) (co_node co) expires_at st of
           (Inl e, st') \<Rightarrow> (Inl e, st')
         | (Inr renewed, st') \<Rightarrow> (Inr (if renewed then Some (renewed_until l expires_at) else None), st'))"

definition release :: "'s lease_ops \<Rightarrow> coordinator \<Rightarrow> run_id \<Rightarrow> range_lease \<Rightarrow> 's \<Rightarrow> unit result \<times> 's" where
  "release ops co run l st =
     (case ls_release_lease ops run (le_range l) (co_node co) st of
        (Inl e, st') \<Rightarrow> (Inl e, st') | (Inr _, st') \<Rightarrow> (Inr (), st'))"

definition abandon :: "'s lease_ops \<Rightarrow> run_id \<Rightarrow> token_range \<Rightarrow> u32 \<Rightarrow> 's \<Rightarrow> unit result \<times> 's" where
  "abandon ops run r attempts st =
     ts_update_range ops run
       \<lparr> dr_range = r, dr_status = Fail, dr_started_at = None,
         dr_info = Some (''Abandoned after '' @ show_nat attempts
           @ '' attempts; no node completed this range (DST-013)'') \<rparr> st"

text \<open>
  \<open>keep_alive\<close>: each event is one turn of the loop, the other nodes' effect on the store since the last
  turn and then either the cancellation or a heartbeat with the clock readings of the renewal and of
  the expiry check. \<open>None\<close> means the loop goes on after the last event.
\<close>

datatype 's ka_event = KaCancel "'s \<Rightarrow> 's" | KaBeat "'s \<Rightarrow> 's" instant instant

fun keep_alive ::
  "'s lease_ops \<Rightarrow> coordinator \<Rightarrow> run_id \<Rightarrow> range_lease \<Rightarrow> 's ka_event list \<Rightarrow> 's \<Rightarrow> (lease_end \<times> 's) option" where
  "keep_alive ops co run l [] st = None"
| "keep_alive ops co run l (KaCancel env # events) st = Some (EndReleased, snd (release ops co run l (env st)))"
| "keep_alive ops co run l (KaBeat env t1 t2 # events) st =
     (case renew ops co t1 run l (env st) of
        (Inr (Some l'), st') \<Rightarrow> keep_alive ops co run l' events st'
      | (Inr None, st') \<Rightarrow> Some (EndLost, st')
      | (Inl e, st') \<Rightarrow>
          if is_expired_at l t2 then Some (EndExpired, st') else keep_alive ops co run l events st')"

subsection \<open>A fleet of nodes\<close>

text \<open>
  One slot for each node and range: nothing under way, the clock read and the row about to be read, the
  row read and the conditional write about to be issued, a lease held, or a lease held with a renewal
  about to be issued. All nodes read the same clock; a crash forgets what the node held.
\<close>

datatype slot =
    SIdle
  | SReading instant
  | SClaiming instant "lease_record option"
  | SHolding range_lease
  | SRenewing range_lease instant

record 's fleet =
  fl_store :: 's
  fl_now :: instant
  fl_slots :: "string \<Rightarrow> token_range \<Rightarrow> slot"

definition set_slot :: "string \<Rightarrow> token_range \<Rightarrow> slot \<Rightarrow> 's fleet \<Rightarrow> 's fleet" where
  "set_slot n r s f = f\<lparr>fl_slots := (fl_slots f)(n := (fl_slots f n)(r := s))\<rparr>"

definition node_coordinator :: "(string \<Rightarrow> coordinator_settings) \<Rightarrow> string \<Rightarrow> coordinator" where
  "node_coordinator settings n = \<lparr> co_node = n, co_settings = settings n \<rparr>"

definition after_claim :: "coordinator \<Rightarrow> token_range \<Rightarrow> lease_outcome result \<Rightarrow> slot" where
  "after_claim co r res =
     (case res of
        Inl _ \<Rightarrow> SIdle
      | Inr outcome \<Rightarrow> (case claim_conclude co r outcome of Claimed l \<Rightarrow> SHolding l | _ \<Rightarrow> SIdle))"

definition after_renew :: "range_lease \<Rightarrow> instant \<Rightarrow> instant \<Rightarrow> bool result \<Rightarrow> slot" where
  "after_renew l expires_at now res =
     (case res of
        Inl _ \<Rightarrow> if is_expired_at l now then SIdle else SHolding l
      | Inr renewed \<Rightarrow> if renewed then SHolding (renewed_until l expires_at) else SIdle)"

inductive fleet_step ::
  "'s lease_ops \<Rightarrow> (string \<Rightarrow> coordinator_settings) \<Rightarrow> token_range list \<Rightarrow> run_id \<Rightarrow> 's fleet \<Rightarrow> 's fleet \<Rightarrow> bool"
  for ops settings work run
where
  time_passes: "0 \<le> d \<Longrightarrow> fleet_step ops settings work run f (f\<lparr>fl_now := fl_now f + d\<rparr>)"
| begins_claim: "r \<in> set work \<Longrightarrow> fl_slots f n r = SIdle \<Longrightarrow>
     fleet_step ops settings work run f (set_slot n r (SReading (fl_now f)) f)"
| reads_row: "fl_slots f n r = SReading t \<Longrightarrow> ls_lease ops run r (fl_store f) = Inr observed \<Longrightarrow>
     claim_decide (node_coordinator settings n) t observed = None \<Longrightarrow>
     fleet_step ops settings work run f (set_slot n r (SClaiming t observed) f)"
| gives_up: "fl_slots f n r = SReading t \<Longrightarrow> fleet_step ops settings work run f (set_slot n r SIdle f)"
| claims: "fl_slots f n r = SClaiming t observed \<Longrightarrow>
     ls_claim_range ops run r n t (lease_deadline (node_coordinator settings n) t) observed (fl_store f) = (res, st') \<Longrightarrow>
     fleet_step ops settings work run f
       (set_slot n r (after_claim (node_coordinator settings n) r res) (f\<lparr>fl_store := st'\<rparr>))"
| begins_renew: "fl_slots f n r = SHolding l \<Longrightarrow>
     fleet_step ops settings work run f
       (set_slot n r (SRenewing l (lease_deadline (node_coordinator settings n) (fl_now f))) f)"
| renews: "fl_slots f n r = SRenewing l u \<Longrightarrow> ls_renew_lease ops run r n u (fl_store f) = (res, st') \<Longrightarrow>
     fleet_step ops settings work run f (set_slot n r (after_renew l u (fl_now f) res) (f\<lparr>fl_store := st'\<rparr>))"
| releases: "fl_slots f n r = SHolding l \<Longrightarrow> ls_release_lease ops run r n (fl_store f) = (res, st') \<Longrightarrow>
     fleet_step ops settings work run f (set_slot n r SIdle (f\<lparr>fl_store := st'\<rparr>))"
| crashes: "fleet_step ops settings work run f (f\<lparr>fl_slots := (fl_slots f)(n := (\<lambda>_. SIdle))\<rparr>)"

inductive fleet_reachable ::
  "'s lease_ops \<Rightarrow> (string \<Rightarrow> coordinator_settings) \<Rightarrow> token_range list \<Rightarrow> run_id \<Rightarrow> 's fleet \<Rightarrow> bool"
  for ops settings work run
where
  initially: "fleet_reachable ops settings work run \<lparr> fl_store = st, fl_now = now, fl_slots = (\<lambda>_ _. SIdle) \<rparr>"
| step: "fleet_reachable ops settings work run f \<Longrightarrow> fleet_step ops settings work run f f' \<Longrightarrow>
     fleet_reachable ops settings work run f'"

fun held :: "slot \<Rightarrow> range_lease option" where
  "held (SHolding l) = Some l"
| "held (SRenewing l u) = Some l"
| "held _ = None"

subsection \<open>The contract of a lease backend\<close>

locale lease_backend =
  fixes ops :: "'s lease_ops" and run :: run_id and row :: "token_range \<Rightarrow> 's \<Rightarrow> lease_record option"
  assumes claim_granted:
      "ls_claim_range ops run r n now until observed s = (Inr (Granted rec), s') \<Longrightarrow>
         row r s' = Some rec \<and> lr_node_id rec = n \<and> lr_lease_until rec = until
       \<and> (case row r s of None \<Rightarrow> True | Some cur \<Rightarrow> lr_lease_until cur \<le> now)
       \<and> lr_attempt rec = (case observed of None \<Rightarrow> 1 | Some hint \<Rightarrow> sat_add u32_max (lr_attempt hint) 1)"
    and claim_refused:
      "ls_claim_range ops run r n now until observed s = (outcome, s') \<Longrightarrow> (\<nexists>rec. outcome = Inr (Granted rec)) \<Longrightarrow>
         row r s' = row r s"
    and renew_row:
      "ls_renew_lease ops run r n until s = (renewed, s') \<Longrightarrow>
         (renewed = Inr True \<and> (\<exists>cur. row r s = Some cur \<and> lr_node_id cur = n
                              \<and> row r s' = Some (cur\<lparr>lr_lease_until := until\<rparr>)))
       \<or> (renewed \<noteq> Inr True \<and> row r s' = row r s)"
    and release_row:
      "ls_release_lease ops run r n s = (released, s') \<Longrightarrow>
         row r s' = row r s \<or> (\<exists>cur. row r s = Some cur \<and> lr_node_id cur = n)"
    and other_rows:
      "tr_min r' \<noteq> tr_min r \<Longrightarrow> row r' (snd (ls_claim_range ops run r n now until observed s)) = row r' s"
      "tr_min r' \<noteq> tr_min r \<Longrightarrow> row r' (snd (ls_renew_lease ops run r n until s)) = row r' s"
      "tr_min r' \<noteq> tr_min r \<Longrightarrow> row r' (snd (ls_release_lease ops run r n s)) = row r' s"
begin

text \<open>
  A lease a node believes in and that has not expired is backed by a row that names the node and runs
  at least as long; a claim in progress read the clock in the past.
\<close>

definition lease_ok :: "(string \<Rightarrow> coordinator_settings) \<Rightarrow> 's fleet \<Rightarrow> string \<Rightarrow> token_range \<Rightarrow> range_lease \<Rightarrow> bool" where
  "lease_ok settings f n r l \<longleftrightarrow>
     (fl_now f < le_expires_at l \<longrightarrow>
        (\<exists>cur. row r (fl_store f) = Some cur \<and> lr_node_id cur = n \<and> le_expires_at l \<le> lr_lease_until cur))
   \<and> le_expires_at l \<le> lease_deadline (node_coordinator settings n) (fl_now f)
   \<and> 1 \<le> le_attempt l \<and> le_attempt l \<le> cs_max_attempts (settings n) \<and> le_node l = n \<and> le_range l = r"

definition slot_ok :: "(string \<Rightarrow> coordinator_settings) \<Rightarrow> 's fleet \<Rightarrow> string \<Rightarrow> token_range \<Rightarrow> slot \<Rightarrow> bool" where
  "slot_ok settings f n r s =
     (case s of
        SIdle \<Rightarrow> True
      | SReading t \<Rightarrow> t \<le> fl_now f
      | SClaiming t observed \<Rightarrow> t \<le> fl_now f
          \<and> (case observed of None \<Rightarrow> True | Some hint \<Rightarrow> lr_attempt hint < cs_max_attempts (settings n))
      | SHolding l \<Rightarrow> lease_ok settings f n r l
      | SRenewing l u \<Rightarrow> lease_ok settings f n r l \<and> le_expires_at l \<le> u
          \<and> u \<le> lease_deadline (node_coordinator settings n) (fl_now f))"

definition fleet_inv :: "(string \<Rightarrow> coordinator_settings) \<Rightarrow> token_range list \<Rightarrow> 's fleet \<Rightarrow> bool" where
  "fleet_inv settings work f \<longleftrightarrow>
     (\<forall>n r. slot_ok settings f n r (fl_slots f n r)) \<and> (\<forall>n r. fl_slots f n r \<noteq> SIdle \<longrightarrow> r \<in> set work)"

lemma slot_ok_held: "slot_ok settings f n r s \<Longrightarrow> held s = Some l \<Longrightarrow> lease_ok settings f n r l"
  by (cases s) (auto simp: slot_ok_def)

lemma slot_at: "fleet_inv settings work f \<Longrightarrow> slot_ok settings f n r (fl_slots f n r) \<and> (fl_slots f n r \<noteq> SIdle \<longrightarrow> r \<in> set work)"
  by (simp add: fleet_inv_def)

text \<open>
  An action of node \<open>n\<close> on range \<open>r\<close> keeps the other slots in order as long as it does not replace the
  row behind another node's live lease.
\<close>

lemma slot_ok_store:
  assumes "slot_ok settings f n r s"
    and "\<And>l. held s = Some l \<Longrightarrow> fl_now f < le_expires_at l \<Longrightarrow> row r st' = row r (fl_store f)"
  shows "slot_ok settings (f\<lparr>fl_store := st'\<rparr>) n r s"
  using assms by (cases s) (auto simp: slot_ok_def lease_ok_def)

lemma slot_ok_slots: "slot_ok settings (f\<lparr>fl_slots := x\<rparr>) n r s = slot_ok settings f n r s"
  by (cases s) (simp_all add: slot_ok_def lease_ok_def)

lemma fleet_inv_act:
  assumes inv: "fleet_inv settings work f" and r: "r \<in> set work" and d: "distinct (map tr_min work)"
    and others: "\<And>r'. tr_min r' \<noteq> tr_min r \<Longrightarrow> row r' st' = row r' (fl_store f)"
    and same: "row r st' = row r (fl_store f)
       \<or> (\<forall>n' l. n' \<noteq> n \<longrightarrow> held (fl_slots f n' r) = Some l \<longrightarrow> le_expires_at l \<le> fl_now f)"
    and new: "slot_ok settings (f\<lparr>fl_store := st'\<rparr>) n r s"
  shows "fleet_inv settings work (set_slot n r s (f\<lparr>fl_store := st'\<rparr>))"
proof -
  have other: "slot_ok settings (f\<lparr>fl_store := st'\<rparr>) n' r' (fl_slots f n' r')" if "(n', r') \<noteq> (n, r)" for n' r'
  proof (rule slot_ok_store)
    show "slot_ok settings f n' r' (fl_slots f n' r')" using inv by (simp add: fleet_inv_def)
    fix l assume h: "held (fl_slots f n' r') = Some l" "fl_now f < le_expires_at l"
    then have "fl_slots f n' r' \<noteq> SIdle" by (cases "fl_slots f n' r'") auto
    then have "r' \<in> set work" using inv unfolding fleet_inv_def by blast
    then have "tr_min r' \<noteq> tr_min r \<or> r' = r" using r d by (auto simp: distinct_map inj_on_def)
    with that h same others show "row r' st' = row r' (fl_store f)" by force
  qed
  show ?thesis using other new inv r by (auto simp: fleet_inv_def set_slot_def slot_ok_slots)
qed

text \<open>At most one node's live lease is backed by a row, so a conditional write hits no live lease of another.\<close>

lemma live_holder:
  assumes "fleet_inv settings work f" "held (fl_slots f n r) = Some l" "fl_now f < le_expires_at l"
  shows "\<exists>cur. row r (fl_store f) = Some cur \<and> lr_node_id cur = n \<and> le_expires_at l \<le> lr_lease_until cur"
  using assms slot_ok_held [of settings f n r "fl_slots f n r" l] by (auto simp: fleet_inv_def lease_ok_def)

lemma other_live_none:
  assumes "fleet_inv settings work f"
    and "\<And>cur. row r (fl_store f) = Some cur \<Longrightarrow> lr_node_id cur = n \<or> lr_lease_until cur \<le> fl_now f"
  shows "\<forall>n' l. n' \<noteq> n \<longrightarrow> held (fl_slots f n' r) = Some l \<longrightarrow> le_expires_at l \<le> fl_now f"
proof (intro allI impI)
  fix n' l assume *: "n' \<noteq> n" "held (fl_slots f n' r) = Some l"
  show "le_expires_at l \<le> fl_now f"
  proof (rule ccontr)
    assume "\<not> le_expires_at l \<le> fl_now f"
    with live_holder [OF assms(1) *(2)] obtain cur where
      "row r (fl_store f) = Some cur" "lr_node_id cur = n'" "le_expires_at l \<le> lr_lease_until cur" by auto
    with assms(2) *(1) \<open>\<not> le_expires_at l \<le> fl_now f\<close> show False by force
  qed
qed

lemma deadline_mono: "t \<le> now \<Longrightarrow> lease_deadline co t \<le> lease_deadline co now"
  by (simp add: lease_deadline_def)

lemma claim_step_inv:
  assumes inv: "fleet_inv settings work f" and d: "distinct (map tr_min work)" and pos: "0 < cs_max_attempts (settings n)"
    and slot: "fl_slots f n r = SClaiming t observed"
    and call: "ls_claim_range ops run r n t (lease_deadline (node_coordinator settings n) t) observed (fl_store f) = (res, st')"
  shows "fleet_inv settings work (set_slot n r (after_claim (node_coordinator settings n) r res) (f\<lparr>fl_store := st'\<rparr>))"
proof (rule fleet_inv_act [OF inv _ d])
  show "r \<in> set work" using slot_at [OF inv, of n r] slot by simp
  show "row r' st' = row r' (fl_store f)" if "tr_min r' \<noteq> tr_min r" for r'
    using other_rows(1) [OF that, of n t _ observed "fl_store f"] call by (metis snd_conv)
  have ok: "t \<le> fl_now f" "case observed of None \<Rightarrow> True | Some hint \<Rightarrow> lr_attempt hint < cs_max_attempts (settings n)"
    using slot_at [OF inv, of n r] slot by (simp_all add: slot_ok_def)
  show "row r st' = row r (fl_store f)
       \<or> (\<forall>n' l. n' \<noteq> n \<longrightarrow> held (fl_slots f n' r) = Some l \<longrightarrow> le_expires_at l \<le> fl_now f)"
  proof (cases "\<exists>rec. res = Inr (Granted rec)")
    case True
    then have "\<And>cur. row r (fl_store f) = Some cur \<Longrightarrow> lr_lease_until cur \<le> t"
      using claim_granted [of r n t _ observed "fl_store f" _ st'] call by (auto split: option.splits)
    then show ?thesis using other_live_none [OF inv] ok(1) by (metis order_trans)
  qed (use claim_refused [OF call] in simp)
  show "slot_ok settings (f\<lparr>fl_store := st'\<rparr>) n r (after_claim (node_coordinator settings n) r res)"
  proof (cases "\<exists>rec. res = Inr (Granted rec)")
    case True
    then obtain rec where rec: "res = Inr (Granted rec)" by blast
    note g = claim_granted [OF call [unfolded rec]]
    have "1 \<le> lr_attempt rec" "lr_attempt rec \<le> cs_max_attempts (settings n)"
      using g ok(2) pos by (auto simp: sat_add_def u32_max_def split: option.splits)
    then show ?thesis
      using g rec deadline_mono [OF ok(1)]
      by (simp add: after_claim_def claim_conclude_def slot_ok_def lease_ok_def new_lease_def node_coordinator_def)
  qed (auto simp: after_claim_def claim_conclude_def slot_ok_def split: sum.split lease_outcome.split)
qed

lemma renew_step_inv:
  assumes inv: "fleet_inv settings work f" and d: "distinct (map tr_min work)"
    and slot: "fl_slots f n r = SRenewing l u"
    and call: "ls_renew_lease ops run r n u (fl_store f) = (res, st')"
  shows "fleet_inv settings work (set_slot n r (after_renew l u (fl_now f) res) (f\<lparr>fl_store := st'\<rparr>))"
proof (rule fleet_inv_act [OF inv _ d])
  show "r \<in> set work" using slot_at [OF inv, of n r] slot by simp
  show "row r' st' = row r' (fl_store f)" if "tr_min r' \<noteq> tr_min r" for r'
    using other_rows(2) [OF that, of n u "fl_store f"] call by simp
  have ok: "lease_ok settings f n r l" "le_expires_at l \<le> u"
    "u \<le> lease_deadline (node_coordinator settings n) (fl_now f)"
    using slot_at [OF inv, of n r] slot by (simp_all add: slot_ok_def)
  note law = renew_row [OF call]
  show "row r st' = row r (fl_store f)
       \<or> (\<forall>n' l. n' \<noteq> n \<longrightarrow> held (fl_slots f n' r) = Some l \<longrightarrow> le_expires_at l \<le> fl_now f)"
    using law other_live_none [OF inv, of r n] by (metis option.inject)
  show "slot_ok settings (f\<lparr>fl_store := st'\<rparr>) n r (after_renew l u (fl_now f) res)"
  proof (cases "res = Inr True")
    case True
    then obtain cur where "lr_node_id cur = n" "row r st' = Some (cur\<lparr>lr_lease_until := u\<rparr>)" using law by blast
    with True ok show ?thesis
      by (simp add: after_renew_def slot_ok_def lease_ok_def renewed_until_def)
  next
    case False
    then have "row r st' = row r (fl_store f)" using law by blast
    with False ok(1) show ?thesis
      by (cases res) (auto simp: after_renew_def slot_ok_def lease_ok_def is_expired_at_def)
  qed
qed

lemma release_step_inv:
  assumes inv: "fleet_inv settings work f" and d: "distinct (map tr_min work)"
    and slot: "fl_slots f n r = SHolding l"
    and call: "ls_release_lease ops run r n (fl_store f) = (res, st')"
  shows "fleet_inv settings work (set_slot n r SIdle (f\<lparr>fl_store := st'\<rparr>))"
proof (rule fleet_inv_act [OF inv _ d])
  show "r \<in> set work" using slot_at [OF inv, of n r] slot by simp
  show "row r' st' = row r' (fl_store f)" if "tr_min r' \<noteq> tr_min r" for r'
    using other_rows(3) [OF that, of n "fl_store f"] call by simp
  show "row r st' = row r (fl_store f)
       \<or> (\<forall>n' l. n' \<noteq> n \<longrightarrow> held (fl_slots f n' r) = Some l \<longrightarrow> le_expires_at l \<le> fl_now f)"
    using release_row [OF call] other_live_none [OF inv, of r n] by (metis option.inject)
qed (simp add: slot_ok_def)

text \<open>Actions that leave the store alone.\<close>

lemma quiet_step_inv:
  assumes "fleet_inv settings work f" "r \<in> set work" "slot_ok settings f n r s"
  shows "fleet_inv settings work (set_slot n r s f)"
  using assms by (auto simp: fleet_inv_def set_slot_def slot_ok_slots)

lemma slot_ok_later: "0 \<le> d \<Longrightarrow> slot_ok settings f n r s \<Longrightarrow> slot_ok settings (f\<lparr>fl_now := fl_now f + d\<rparr>) n r s"
  by (cases s) (auto simp: slot_ok_def lease_ok_def lease_deadline_def split: option.splits)

lemma fleet_step_inv:
  assumes "fleet_step ops settings work run f f'" "fleet_inv settings work f"
    and d: "distinct (map tr_min work)" and pos: "\<forall>n. 0 < cs_max_attempts (settings n)"
  shows "fleet_inv settings work f'"
  using assms(1,2)
proof cases
  case (time_passes e)
  then show ?thesis using assms(2) by (auto simp: fleet_inv_def slot_ok_later)
next
  case (begins_claim r n)
  then show ?thesis using assms(2) by (auto intro!: quiet_step_inv simp: slot_ok_def)
next
  case (reads_row n r t observed)
  with slot_at [OF assms(2), of n r] show ?thesis using assms(2)
    by (auto intro!: quiet_step_inv simp: slot_ok_def claim_decide_def node_coordinator_def split: option.splits if_splits)
next
  case (gives_up n r t)
  with slot_at [OF assms(2), of n r] show ?thesis using assms(2) by (auto intro!: quiet_step_inv simp: slot_ok_def)
next
  case (claims n r t observed res st')
  then show ?thesis using claim_step_inv [OF assms(2) d] pos by blast
next
  case (begins_renew n r l)
  with slot_at [OF assms(2), of n r] show ?thesis using assms(2)
    by (auto intro!: quiet_step_inv simp: slot_ok_def lease_ok_def)
next
  case (renews n r l u res st')
  then show ?thesis using renew_step_inv [OF assms(2) d] by blast
next
  case (releases n r l res st')
  then show ?thesis using release_step_inv [OF assms(2) d] by blast
next
  case (crashes n)
  then show ?thesis using assms(2) by (auto simp: fleet_inv_def slot_ok_slots slot_ok_def [of _ _ _ _ SIdle])
qed

lemma fleet_reachable_inv:
  assumes "fleet_reachable ops settings work run f"
    and "distinct (map tr_min work)" and "\<forall>n. 0 < cs_max_attempts (settings n)"
  shows "fleet_inv settings work f"
  using assms
proof (induction rule: fleet_reachable.induct)
  case (initially st now)
  then show ?case by (simp add: fleet_inv_def slot_ok_def)
qed (blast intro: fleet_step_inv)

lemma one_holder:
  assumes "fleet_inv settings work f"
    and "held (fl_slots f n r) = Some l" "fl_now f < le_expires_at l"
    and "held (fl_slots f n' r) = Some l'" "fl_now f < le_expires_at l'"
  shows "n = n'"
  using live_holder [OF assms(1-3)] live_holder [OF assms(1,4,5)] by auto

end

subsection \<open>The in-process store is a lease backend\<close>

definition lease_row :: "run_id \<Rightarrow> token_range \<Rightarrow> memory_store \<Rightarrow> lease_record option" where
  "lease_row run r st = (case get_lease run r st of Inr l \<Rightarrow> l | Inl _ \<Rightarrow> None)"

lemma lease_row_put [simp]:
  "map_of st (as_i64 run) = Some stored \<Longrightarrow>
     lease_row run r (omap_insert (as_i64 run) (stored\<lparr>sr_leases := omap_insert k l (sr_leases stored)\<rparr>) st) =
       (if in_i64 (tr_min r) \<and> tr_min r = k then Some l else lease_row run r st)"
  by (auto simp: lease_row_def get_lease_def lease_key_def)

lemma lease_row_eq: "lease_key r = Inr k \<Longrightarrow> map_of st (as_i64 run) = Some stored \<Longrightarrow> lease_row run r st = map_of (sr_leases stored) k"
  by (simp add: lease_row_def get_lease_def)

lemma lease_key_Inr: "lease_key r = Inr k \<longleftrightarrow> in_i64 (tr_min r) \<and> k = tr_min r"
  by (auto simp: lease_key_def)

interpretation memory_lease: lease_backend memory_ops run "lease_row run"
proof
  fix r :: token_range and n now until observed s rec s'
  assume "ls_claim_range memory_ops run r n now until observed s = (Inr (Granted rec), s')"
  then show "lease_row run r s' = Some rec \<and> lr_node_id rec = n \<and> lr_lease_until rec = until
       \<and> (case lease_row run r s of None \<Rightarrow> True | Some cur \<Rightarrow> lr_lease_until cur \<le> now)
       \<and> lr_attempt rec = (case observed of None \<Rightarrow> 1 | Some hint \<Rightarrow> sat_add u32_max (lr_attempt hint) 1)"
    by (auto simp: claim_range_def put_lease_def Let_def lease_key_Inr lease_row_eq [OF lease_key_Inr [THEN iffD2]]
        split: sum.splits option.splits if_splits)
qed (auto simp: claim_range_def renew_lease_def release_lease_def put_lease_def Let_def lease_key_Inr
      lease_row_eq [OF lease_key_Inr [THEN iffD2]] split: sum.splits option.splits if_splits)

subsection \<open>Joining and claiming on the store\<close>

lemma check_config_hash_Inr:
  "check_config_hash existing h = Inr () \<longleftrightarrow> rr_info existing = Some (CONFIG_HASH_PREFIX @ h)"
  by (auto simp: check_config_hash_def Let_def strip_prefix_iff split: option.splits)

lemma check_config_hash_Inl: "check_config_hash existing h = Inl e \<Longrightarrow> error_kind_of e = Config"
  by (auto simp: check_config_hash_def Let_def new_error_def split: option.splits if_splits)

lemma join_first:
  assumes "get_run (rr_run_id rec) st = None"
  shows "\<exists>st'. join_run memory_ops co now polls rec ranges h st = (Some (Inr Initialised), st')
     \<and> get_run (rr_run_id rec) st' = Some (rec\<lparr>rr_info := Some (CONFIG_HASH_PREFIX @ h), rr_status := Started\<rparr>)
     \<and> get_ranges (rr_run_id rec) st' = omap_values (planned_rows ranges)"
  using assms by (simp add: join_run_def initialise_run_def get_run_def get_ranges_def)

lemma join_later:
  assumes "get_run (rr_run_id rec) st = Some row"
  shows "join_run memory_ops co now polls rec ranges h st =
    ((case check_config_hash row h of
        Inl e \<Rightarrow> Some (Inl e)
      | Inr _ \<Rightarrow> map_option (\<lambda>r. bindR r (\<lambda>_. Inr Joined))
                   (await_started (rr_run_id rec) (lease_deadline co now) polls)), st)"
  using assms by (auto simp: join_run_def initialise_run_def get_run_def split: sum.split)

lemma claim_memory_none:
  assumes "claim_lease memory_ops co now run r st = (Inr outcome, st')" "\<forall>l. outcome \<noteq> Claimed l"
  shows "st' = st \<and> (\<exists>row. lease_row run r st = Some row \<and> claim_decide co now (Some row) \<noteq> None)"
proof -
  obtain observed where obs: "get_lease run r st = Inr observed"
    using assms(1) by (auto simp: claim_lease_def split: sum.splits)
  then have lr: "lease_row run r st = observed" by (simp add: lease_row_def)
  show ?thesis
  proof (cases "claim_decide co now observed")
    case (Some out)
    then have "observed \<noteq> None" by (cases observed) (auto simp: claim_decide_def)
    with Some assms(1) obs lr show ?thesis by (auto simp: claim_lease_def)
  next
    case None
    then obtain outcome' where c: "claim_range run r (co_node co) now (lease_deadline co now) observed st = (Inr outcome', st')"
      "outcome = claim_conclude co r outcome'"
      using assms(1) obs by (auto simp: claim_lease_def split: prod.splits sum.splits)
    from c(2) assms(2) obtain row where "outcome' = Denied row" by (cases outcome') (auto simp: claim_conclude_def)
    with c(1) lr None show ?thesis
      by (auto simp: claim_range_def Let_def lease_key_Inr lease_row_eq [OF lease_key_Inr [THEN iffD2]] claim_decide_def
          split: sum.splits option.splits if_splits)
  qed
qed

lemma claim_first_None:
  "claim_first memory_ops co run candidates st = (Inr None, st') \<Longrightarrow>
     st' = st \<and> (\<forall>(r, now) \<in> set candidates.
       \<exists>row. lease_row run r st = Some row \<and> claim_decide co now (Some row) \<noteq> None)"
proof (induction candidates arbitrary: st)
  case (Cons x candidates)
  obtain r now where x: "x = (r, now)" by fastforce
  obtain outcome st1 where c: "claim_lease memory_ops co now run r st = (Inr outcome, st1)" "\<forall>l. outcome \<noteq> Claimed l"
    "claim_first memory_ops co run candidates st1 = (Inr None, st')"
    using Cons.prems unfolding x by (auto split: prod.splits sum.splits claim_outcome.splits)
  then show ?case using claim_memory_none [OF c(1,2)] Cons.IH [OF c(3)] x by auto
qed simp

text \<open>\<open>paced hb t polls\<close>: the polls happen at \<open>t\<close> or later, with a sleep of at least \<open>hb\<close> in between.\<close>

fun paced :: "int \<Rightarrow> instant \<Rightarrow> (run_record option result \<times> instant) list \<Rightarrow> bool" where
  "paced hb t [] = True"
| "paced hb t ((answer, now) # polls) = (t \<le> now \<and> paced hb (now + hb) polls)"

lemma await_started_ends:
  "polls \<noteq> [] \<Longrightarrow> paced hb t polls \<Longrightarrow> 0 \<le> hb \<Longrightarrow> deadline \<le> t + hb * (int (length polls) - 1) \<Longrightarrow>
     await_started run deadline polls \<noteq> None"
proof (induction polls arbitrary: t)
  case (Cons x polls)
  obtain answer now where x: "x = (answer, now)" by fastforce
  show ?case
  proof (cases "polls = []")
    case True
    with Cons.prems x show ?thesis by (auto split: sum.split option.split)
  next
    case False
    have "deadline \<le> (now + hb) + hb * (int (length polls) - 1)"
      using Cons.prems x by (simp add: algebra_simps)
    then have "await_started run deadline polls \<noteq> None"
      using Cons.IH [OF False, of "now + hb"] Cons.prems x by simp
    then show ?thesis by (auto simp: x split: sum.split option.split)
  qed
qed simp

subsection \<open>Properties\<close>

text \<open>
  Claim C4. Mutual exclusion (DST-011, DST-012). Any number of nodes share a plan whose ranges have
  different lower bounds; each claims, renews and releases through the store with other nodes acting
  between any two of its store calls, crashes at any time, and all read the same clock. Then at no
  moment do two nodes both believe in an unexpired lease on the same range, and every such lease is
  recorded in the store under its holder's name with an expiry at least as late.
\<close>

theorem lease_mutual_exclusion:
  assumes "fleet_reachable memory_ops settings work run f"
    and "distinct (map tr_min work)" and "\<forall>n. 0 < cs_max_attempts (settings n)"
    and "held (fl_slots f n r) = Some l" and "\<not> is_expired_at l (fl_now f)"
  shows "(\<exists>row. lease_row run r (fl_store f) = Some row \<and> lr_node_id row = n \<and> le_expires_at l \<le> lr_lease_until row)
       \<and> (\<forall>n' l'. held (fl_slots f n' r) = Some l' \<longrightarrow> \<not> is_expired_at l' (fl_now f) \<longrightarrow> n' = n)"
proof -
  have inv: "memory_lease.fleet_inv run settings work f"
    using memory_lease.fleet_reachable_inv [OF assms(1-3)] .
  show ?thesis
    using memory_lease.live_holder [OF inv assms(4)] memory_lease.one_holder [OF inv assms(4)] assms(5)
    by (auto simp: is_expired_at_def)
qed

text \<open>
  Claim C37. The retry bound (DST-013). Under the same conditions every lease any node holds has an
  attempt count between one and that node's \<open>max_attempts\<close>, however the reads
  and conditional writes of the nodes interleave: no lease is granted for an attempt beyond that count.
\<close>

theorem lease_attempts_bounded:
  assumes "fleet_reachable memory_ops settings work run f"
    and "distinct (map tr_min work)" and "\<forall>n. 0 < cs_max_attempts (settings n)"
    and "held (fl_slots f n r) = Some l"
  shows "1 \<le> le_attempt l \<and> le_attempt l \<le> cs_max_attempts (settings n) \<and> le_node l = n \<and> le_range l = r"
proof -
  have "memory_lease.fleet_inv run settings work f"
    using memory_lease.fleet_reachable_inv [OF assms(1-3)] .
  from memory_lease.slot_at [OF this, of n r] show ?thesis
    using memory_lease.slot_ok_held [OF _ assms(4)] by (auto simp: memory_lease.lease_ok_def)
qed

definition sample_settings :: "string \<Rightarrow> coordinator_settings" where
  "sample_settings n = \<lparr> cs_lease_duration = 60, cs_heartbeat_interval = 20, cs_max_attempts = 3, cs_reclaim = Reclaim \<rparr>"

definition sample_store :: memory_store where
  "sample_store = snd (create_run sample_run [sample_row 0 9] [])"

definition sample_lease :: range_lease where
  "sample_lease = \<lparr> le_range = TokenRange 0 9, le_node = ''a'', le_expires_at = 160, le_attempt = 1 \<rparr>"

lemma sample_fleet:
  "\<exists>f. fleet_reachable memory_ops sample_settings [TokenRange 0 9] (RunId 7) f
     \<and> held (fl_slots f ''a'' (TokenRange 0 9)) = Some sample_lease \<and> fl_now f = 100"
proof -
  let ?R = "fleet_reachable memory_ops sample_settings [TokenRange 0 9] (RunId 7)" and ?r = "TokenRange 0 9"
  let ?f0 = "\<lparr> fl_store = sample_store, fl_now = 100, fl_slots = (\<lambda>_ _. SIdle) \<rparr> :: memory_store fleet"
  let ?f1 = "set_slot ''a'' ?r (SReading 100) ?f0"
  let ?f2 = "set_slot ''a'' ?r (SClaiming 100 None) ?f1"
  let ?claim = "claim_range (RunId 7) ?r ''a'' 100 (lease_deadline (node_coordinator sample_settings ''a'') 100) None sample_store"
  have "?R ?f0" by (rule fleet_reachable.initially)
  then have "?R (set_slot ''a'' ?r (SReading (fl_now ?f0)) ?f0)"
    by (rule fleet_reachable.step) (rule fleet_step.begins_claim, simp_all)
  then have f1: "?R ?f1" by simp
  have none: "get_lease (RunId 7) ?r sample_store = Inr None"
    by (simp add: get_lease_def lease_key_def in_i64_def width_defs sample_store_def create_run_def Let_def sample_run_def)
  have f2: "?R ?f2"
    by (rule fleet_reachable.step [OF f1], rule fleet_step.reads_row) (simp_all add: set_slot_def none claim_decide_def)
  have c: "fst ?claim = Inr (Granted \<lparr> lr_token_min = 0, lr_node_id = ''a'', lr_lease_until = 160, lr_attempt = 1 \<rparr>)"
    by (simp add: claim_range_def lease_key_def in_i64_def width_defs sample_store_def create_run_def Let_def sample_run_def
        lease_deadline_def chrono_duration_def node_coordinator_def sample_settings_def)
  have "?R (set_slot ''a'' ?r (after_claim (node_coordinator sample_settings ''a'') ?r (fst ?claim)) (?f2\<lparr>fl_store := snd ?claim\<rparr>))"
    by (rule fleet_reachable.step [OF f2], rule fleet_step.claims) (simp_all add: set_slot_def)
  moreover have "after_claim (node_coordinator sample_settings ''a'') ?r (fst ?claim) = SHolding sample_lease"
    unfolding c by (simp add: after_claim_def claim_conclude_def new_lease_def node_coordinator_def sample_lease_def)
  ultimately show ?thesis
    by (intro exI [of _ "set_slot ''a'' ?r (SHolding sample_lease) (?f2\<lparr>fl_store := snd ?claim\<rparr>)"]) (simp add: set_slot_def)
qed

theorem lease_mutual_exclusion_witness:
  "\<exists>f row. fleet_reachable memory_ops sample_settings [TokenRange 0 9] (RunId 7) f
     \<and> lease_row (RunId 7) (TokenRange 0 9) (fl_store f) = Some row \<and> lr_node_id row = ''a''"
proof -
  obtain f where f: "fleet_reachable memory_ops sample_settings [TokenRange 0 9] (RunId 7) f"
    "held (fl_slots f ''a'' (TokenRange 0 9)) = Some sample_lease" "fl_now f = 100" using sample_fleet by blast
  have "distinct (map tr_min [TokenRange 0 9])" "\<forall>n. 0 < cs_max_attempts (sample_settings n)"
    "\<not> is_expired_at sample_lease (fl_now f)" by (simp_all add: sample_settings_def is_expired_at_def sample_lease_def f(3))
  from lease_mutual_exclusion [OF f(1) this(1,2) f(2) this(3)] f(1) show ?thesis by blast
qed

theorem lease_attempts_bounded_witness: "le_attempt sample_lease \<le> cs_max_attempts (sample_settings ''a'')"
proof -
  obtain f where f: "fleet_reachable memory_ops sample_settings [TokenRange 0 9] (RunId 7) f"
    "held (fl_slots f ''a'' (TokenRange 0 9)) = Some sample_lease" using sample_fleet by blast
  have "distinct (map tr_min [TokenRange 0 9])" "\<forall>n. 0 < cs_max_attempts (sample_settings n)"
    by (simp_all add: sample_settings_def)
  from lease_attempts_bounded [OF f(1) this f(2)] show ?thesis by blast
qed

text \<open>
  One initialiser, one configuration (DST-002, DST-003). The node that joins a run nobody has
  recorded initialises it: the run row says \<open>STARTED\<close> and carries its configuration hash, with a row
  for each range. While the run row keeps that hash, a later join initialises nothing and changes
  nothing; it succeeds only for a node with the same hash, and any other hash is refused with a
  configuration error. Waiting for \<open>STARTED\<close> is bounded: with polls a heartbeat apart, more polls than
  the lease duration has heartbeats give an answer.
\<close>

theorem join_one_configuration:
  assumes "get_run (rr_run_id rec) st = None"
  shows "\<exists>st1. join_run memory_ops co now polls rec ranges h st = (Some (Inr Initialised), st1)
     \<and> (\<exists>row. get_run (rr_run_id rec) st1 = Some row \<and> rr_status row = Started
                \<and> rr_info row = Some (CONFIG_HASH_PREFIX @ h))
     \<and> (\<forall>st2 row co' now' polls' ranges' h' out st3.
          get_run (rr_run_id rec) st2 = Some row \<longrightarrow> rr_info row = Some (CONFIG_HASH_PREFIX @ h) \<longrightarrow>
          join_run memory_ops co' now' polls' rec ranges' h' st2 = (out, st3) \<longrightarrow>
            st3 = st2 \<and> out \<noteq> Some (Inr Initialised)
          \<and> (out = Some (Inr Joined) \<longrightarrow> h' = h)
          \<and> (h' \<noteq> h \<longrightarrow> (\<exists>e. out = Some (Inl e) \<and> error_kind_of e = Config))
          \<and> (polls' \<noteq> [] \<and> paced (int (cs_heartbeat_interval (co_settings co'))) now' polls'
               \<and> chrono_duration (cs_lease_duration (co_settings co'))
                   \<le> int (cs_heartbeat_interval (co_settings co')) * (int (length polls') - 1)
             \<longrightarrow> out \<noteq> None))"
proof -
  have later: "st3 = st2 \<and> out \<noteq> Some (Inr Initialised) \<and> (out = Some (Inr Joined) \<longrightarrow> h' = h)
       \<and> (h' \<noteq> h \<longrightarrow> (\<exists>e. out = Some (Inl e) \<and> error_kind_of e = Config))
       \<and> (polls' \<noteq> [] \<and> paced (int (cs_heartbeat_interval (co_settings co'))) now' polls'
            \<and> chrono_duration (cs_lease_duration (co_settings co'))
                \<le> int (cs_heartbeat_interval (co_settings co')) * (int (length polls') - 1)
          \<longrightarrow> out \<noteq> None)"
    if row: "get_run (rr_run_id rec) st2 = Some row" "rr_info row = Some (CONFIG_HASH_PREFIX @ h)"
      and j: "join_run memory_ops co' now' polls' rec ranges' h' st2 = (out, st3)"
    for st2 row co' now' polls' ranges' h' out st3
  proof (cases "check_config_hash row h'")
    case (Inl e)
    then have "h' \<noteq> h" using check_config_hash_Inr [of row h'] row(2) by (metis sum.distinct(1))
    then show ?thesis using j join_later [OF row(1)] Inl check_config_hash_Inl [OF Inl] by auto
  next
    case (Inr u)
    then have "h' = h" using check_config_hash_Inr [of row h'] row(2) by simp
    moreover have "out = map_option (\<lambda>r. bindR r (\<lambda>_. Inr Joined))
        (await_started (rr_run_id rec) (lease_deadline co' now') polls')" "st3 = st2"
      using j join_later [OF row(1)] Inr by simp_all
    moreover have "bindR r (\<lambda>_. Inr Joined) \<noteq> Inr Initialised" for r :: "unit result"
      by (simp add: bindR_Inr_iff)
    ultimately show ?thesis
      using await_started_ends [of polls' "int (cs_heartbeat_interval (co_settings co'))" now'
          "lease_deadline co' now'" "rr_run_id rec"] by (auto simp: lease_deadline_def)
  qed
  obtain st1 where "join_run memory_ops co now polls rec ranges h st = (Some (Inr Initialised), st1)"
    "get_run (rr_run_id rec) st1 = Some (rec\<lparr>rr_info := Some (CONFIG_HASH_PREFIX @ h), rr_status := Started\<rparr>)"
    using join_first [OF assms] by blast
  then show ?thesis using later by (intro exI [of _ st1] conjI) (auto simp del: not_None_eq)
qed

theorem join_one_configuration_witness:
  "\<exists>st1. join_run memory_ops (node_coordinator sample_settings ''a'') 100 [] sample_run [sample_row 0 9] ''h1'' []
            = (Some (Inr Initialised), st1)"
  using join_one_configuration [of sample_run "[]" "node_coordinator sample_settings ''a''" 100 "[]" "[sample_row 0 9]" "''h1''"]
  by (auto simp: get_run_def)

text \<open>
  No free range is passed over (DST-001). When \<open>claim_first\<close> finds nothing, the store is as it
  was and every candidate has a lease row that still runs, has used up the attempts, or may not be
  reclaimed under the node's policy; in particular no candidate was unclaimed.
\<close>

theorem claim_first_exhaustive:
  assumes "claim_first memory_ops co run candidates st = (Inr None, st')"
  shows "st' = st \<and> (\<forall>(r, now) \<in> set candidates. \<exists>row. lease_row run r st = Some row
     \<and> (now < lr_lease_until row \<or> cs_max_attempts (co_settings co) \<le> lr_attempt row
        \<or> cs_reclaim (co_settings co) = Refuse))"
proof -
  note c = claim_first_None [OF assms]
  have "now < lr_lease_until row \<or> cs_max_attempts (co_settings co) \<le> lr_attempt row
      \<or> cs_reclaim (co_settings co) = Refuse" if "claim_decide co now (Some row) \<noteq> None" for now row
    using that by (auto simp: claim_decide_def split: if_splits)
  with c show ?thesis by fast
qed

theorem claim_first_exhaustive_witness:
  "\<exists>row. lease_row (RunId 7) (TokenRange 0 9) (snd (claim_range (RunId 7) (TokenRange 0 9) ''b'' 100 200 None sample_store)) = Some row
     \<and> 150 < lr_lease_until row"
proof -
  let ?st = "snd (claim_range (RunId 7) (TokenRange 0 9) ''b'' 100 200 None sample_store)"
  have "claim_first memory_ops (node_coordinator sample_settings ''a'') (RunId 7) [(TokenRange 0 9, 150)] ?st = (Inr None, ?st)"
    by (simp add: claim_lease_def get_lease_def claim_range_def put_lease_def lease_key_def in_i64_def width_defs sample_store_def
        create_run_def Let_def sample_run_def claim_decide_def)
  from claim_first_exhaustive [OF this] show ?thesis
    by (auto simp: node_coordinator_def sample_settings_def lease_row_def get_lease_def claim_range_def put_lease_def lease_key_def
        in_i64_def width_defs sample_store_def create_run_def Let_def sample_run_def)
qed

end
