(* ===== verification/Codec_Types.thy ===== *)
theory Codec_Types
  imports Rust_Strings
begin

text \<open>
  The taxonomy of CQL types: \<open>crates/cdm-codec/src/types.rs\<close>, with its renderer and its
  recursive-descent parser. The twenty primitives and the four DSE types, none of which has element
  types, are one datatype \<open>primitive_type\<close>; the other variants of \<open>CqlTypeInfo\<close> are constructors of
  \<open>cql_type_info\<close>. The parser's state is the text that is left; its position, which only error messages
  show, is the difference in length. A type expression is ASCII, as \<open>system_schema\<close> spells it.

  The parser recurses on what an inner call leaves, so its termination rests on the fact that every
  successful call consumes input. Display and parser are inverse on the types a schema can name.
\<close>

subsection \<open>The types\<close>

datatype primitive_type =
    Ascii | BigInt | Blob | Boolean | Counter | Date | Decimal | Double | Duration | Float | Inet
  | CqlInt | SmallInt | Text | Time | Timestamp | TimeUuid | TinyInt | Uuid | VarInt
  | Point | LineString | Polygon | DateRange

datatype cql_type_info =
    TPrim primitive_type
  | TList cql_type_info bool
  | TSet cql_type_info bool
  | TMap cql_type_info cql_type_info bool
  | TTuple "cql_type_info list"
  | TUdt "string option" string "(string \<times> cql_type_info) list" bool
  | TVector cql_type_info usize
  | TCustom string

type_synonym udt_field = "string \<times> cql_type_info"

type_synonym udt_resolver = "string option \<Rightarrow> string \<Rightarrow> udt_field list option"

text \<open>\<open>impl UdtResolver for ()\<close>: no definition is in scope.\<close>

definition no_resolver :: udt_resolver where
  "no_resolver ks name = None"

definition PRIMITIVES :: "cql_type_info list" where
  "PRIMITIVES = map TPrim
     [Ascii, BigInt, Blob, Boolean, Counter, Date, Decimal, Double, Duration, Float, Inet, CqlInt,
      SmallInt, Text, Time, Timestamp, TimeUuid, TinyInt, Uuid, VarInt]"

definition DSE_TYPES :: "cql_type_info list" where
  "DSE_TYPES = map TPrim [Point, LineString, Polygon, DateRange]"

fun is_primitive :: "cql_type_info \<Rightarrow> bool" where
  "is_primitive (TPrim p) = True"
| "is_primitive t = False"

fun is_collection :: "cql_type_info \<Rightarrow> bool" where
  "is_collection (TPrim p) = False"
| "is_collection (TCustom s) = False"
| "is_collection t = True"

fun is_frozen :: "cql_type_info \<Rightarrow> bool" where
  "is_frozen (TList e f) = f"
| "is_frozen (TSet e f) = f"
| "is_frozen (TMap k v f) = f"
| "is_frozen (TUdt ks n fs f) = f"
| "is_frozen t = False"

fun element_types :: "cql_type_info \<Rightarrow> cql_type_info list" where
  "element_types (TList e f) = [e]"
| "element_types (TSet e f) = [e]"
| "element_types (TVector e d) = [e]"
| "element_types (TMap k v f) = [k, v]"
| "element_types (TTuple es) = es"
| "element_types (TUdt ks n fs f) = map snd fs"
| "element_types t = []"

text \<open>Equality of types up to frozen-ness and to the keyspace of a user-defined type.\<close>

fun same_type :: "cql_type_info \<Rightarrow> cql_type_info \<Rightarrow> bool"
  and same_types :: "cql_type_info list \<Rightarrow> cql_type_info list \<Rightarrow> bool"
  and same_fields :: "udt_field list \<Rightarrow> udt_field list \<Rightarrow> bool" where
  "same_type (TList a f) t = (case t of TList b g \<Rightarrow> same_type a b | _ \<Rightarrow> False)"
| "same_type (TSet a f) t = (case t of TSet b g \<Rightarrow> same_type a b | _ \<Rightarrow> False)"
| "same_type (TMap ka va f) t =
     (case t of TMap kb vb g \<Rightarrow> same_type ka kb \<and> same_type va vb | _ \<Rightarrow> False)"
| "same_type (TTuple as) t = (case t of TTuple bs \<Rightarrow> same_types as bs | _ \<Rightarrow> False)"
| "same_type (TUdt ks n fs f) t =
     (case t of TUdt ks' n' fs' f' \<Rightarrow> n = n' \<and> same_fields fs fs' | _ \<Rightarrow> False)"
| "same_type (TVector a d) t = (case t of TVector b d' \<Rightarrow> d = d' \<and> same_type a b | _ \<Rightarrow> False)"
| "same_type (TPrim p) t = (TPrim p = t)"
| "same_type (TCustom s) t = (TCustom s = t)"
| "same_types [] bs = (bs = [])"
| "same_types (a # as) bs = (case bs of [] \<Rightarrow> False | b # bs' \<Rightarrow> same_type a b \<and> same_types as bs')"
| "same_fields [] bs = (bs = [])"
| "same_fields ((n, a) # as) bs =
     (case bs of [] \<Rightarrow> False | (m, b) # bs' \<Rightarrow> n = m \<and> same_type a b \<and> same_fields as bs')"

fun primitive_width :: "primitive_type \<Rightarrow> usize option" where
  "primitive_width Boolean = Some 1" | "primitive_width TinyInt = Some 1"
| "primitive_width SmallInt = Some 2"
| "primitive_width CqlInt = Some 4" | "primitive_width Date = Some 4" | "primitive_width Float = Some 4"
| "primitive_width BigInt = Some 8" | "primitive_width Counter = Some 8"
| "primitive_width Double = Some 8" | "primitive_width Time = Some 8"
| "primitive_width Timestamp = Some 8"
| "primitive_width Uuid = Some 16" | "primitive_width TimeUuid = Some 16"
| "primitive_width p = None"

fun fixed_width :: "cql_type_info \<Rightarrow> usize option" where
  "fixed_width (TPrim p) = primitive_width p"
| "fixed_width t = None"

subsection \<open>Display\<close>

fun show_primitive :: "primitive_type \<Rightarrow> string" where
  "show_primitive Ascii = ''ascii''" | "show_primitive BigInt = ''bigint''"
| "show_primitive Blob = ''blob''" | "show_primitive Boolean = ''boolean''"
| "show_primitive Counter = ''counter''" | "show_primitive Date = ''date''"
| "show_primitive Decimal = ''decimal''" | "show_primitive Double = ''double''"
| "show_primitive Duration = ''duration''" | "show_primitive Float = ''float''"
| "show_primitive Inet = ''inet''" | "show_primitive CqlInt = ''int''"
| "show_primitive SmallInt = ''smallint''" | "show_primitive Text = ''text''"
| "show_primitive Time = ''time''" | "show_primitive Timestamp = ''timestamp''"
| "show_primitive TimeUuid = ''timeuuid''" | "show_primitive TinyInt = ''tinyint''"
| "show_primitive Uuid = ''uuid''" | "show_primitive VarInt = ''varint''"
| "show_primitive Point = ''PointType''" | "show_primitive LineString = ''LineStringType''"
| "show_primitive Polygon = ''PolygonType''" | "show_primitive DateRange = ''DateRangeType''"

definition write_wrapped :: "bool \<Rightarrow> string \<Rightarrow> string list \<Rightarrow> string" where
  "write_wrapped frozen keyword args =
     (if frozen then ''frozen<'' else []) @ keyword @ ''<'' @ join_strings '', '' args @ ''>''
     @ (if frozen then ''>'' else [])"

fun show_type :: "cql_type_info \<Rightarrow> string" where
  "show_type (TPrim p) = show_primitive p"
| "show_type (TList e f) = write_wrapped f ''list'' [show_type e]"
| "show_type (TSet e f) = write_wrapped f ''set'' [show_type e]"
| "show_type (TMap k v f) = write_wrapped f ''map'' [show_type k, show_type v]"
| "show_type (TTuple es) = write_wrapped False ''tuple'' (map show_type es)"
| "show_type (TUdt ks n fs f) =
     (if f then ''frozen<'' else []) @ (case ks of None \<Rightarrow> [] | Some k \<Rightarrow> k @ ''.'') @ n
     @ (if f then ''>'' else [])"
| "show_type (TVector e d) = ''vector<'' @ show_type e @ '', '' @ show_nat d @ ''>''"
| "show_type (TCustom n) = n"

subsection \<open>The parser\<close>

definition parse_error :: "string \<Rightarrow> string \<Rightarrow> string \<Rightarrow> cdm_error" where
  "parse_error text rest message =
     new_error SchemaMismatch
       (''cannot parse CQL type `'' @ text @ ''` at offset '' @ show_nat (length text - length rest)
        @ '': '' @ message)"

definition skip_whitespace :: "string \<Rightarrow> string" where
  "skip_whitespace rest = dropWhile is_ascii_space rest"

definition eat :: "string \<Rightarrow> char \<Rightarrow> string \<Rightarrow> string result" where
  "eat text c rest =
     (case skip_whitespace rest of
        x # xs \<Rightarrow> if x = c then Inr xs
                 else Inl (parse_error text (x # xs) (''expected `'' @ [c] @ ''`''))
      | [] \<Rightarrow> Inl (parse_error text [] (''expected `'' @ [c] @ ''`'')))"

definition is_alphanumeric :: "char \<Rightarrow> bool" where
  "is_alphanumeric c \<longleftrightarrow>
     (let n = (of_char c :: nat) in is_digit c \<or> 65 \<le> n \<and> n \<le> 90 \<or> 97 \<le> n \<and> n \<le> 122)"

definition name_char :: "char \<Rightarrow> bool" where
  "name_char c \<longleftrightarrow> is_alphanumeric c \<or> c = CHR ''_'' \<or> c = CHR ''.'' \<or> c = CHR ''$''"

text \<open>A quoted name: what stands before the closing quote, and what is left after it.\<close>

definition quoted_type_name :: "string \<Rightarrow> char \<Rightarrow> string \<Rightarrow> string \<Rightarrow> (string \<times> string) result" where
  "quoted_type_name text q message rest =
     (if q \<in> set rest
      then Inr (takeWhile (\<lambda>c. c \<noteq> q) rest, tl (dropWhile (\<lambda>c. c \<noteq> q) rest))
      else Inl (parse_error text rest message))"

definition type_identifier :: "string \<Rightarrow> string \<Rightarrow> (string \<times> string) result" where
  "type_identifier text rest0 =
     (let rest = skip_whitespace rest0 in
      if rest \<noteq> [] \<and> hd rest = CHR 0x27 then quoted_type_name text (CHR 0x27) ''unterminated quoted type name'' (tl rest)
      else if rest \<noteq> [] \<and> hd rest = CHR 0x22
      then quoted_type_name text (CHR 0x22) ''unterminated quoted identifier'' (tl rest)
      else if takeWhile name_char rest = [] then Inl (parse_error text rest ''expected a type name'')
      else Inr (takeWhile name_char rest, dropWhile name_char rest))"

definition dimensions :: "string \<Rightarrow> string \<Rightarrow> (usize \<times> string) result" where
  "dimensions text rest0 =
     (let rest = skip_whitespace rest0 in
      case parse_unsigned u64_max (takeWhile is_digit rest) of
        Some n \<Rightarrow> Inr (n, dropWhile is_digit rest)
      | None \<Rightarrow> Inl (parse_error text rest ''expected a vector dimension count''))"

definition primitive_names :: "(string \<times> primitive_type) list" where
  "primitive_names =
     [(''ascii'', Ascii), (''bigint'', BigInt), (''blob'', Blob), (''boolean'', Boolean),
      (''counter'', Counter), (''date'', Date), (''decimal'', Decimal), (''double'', Double),
      (''duration'', Duration), (''float'', Float), (''inet'', Inet), (''int'', CqlInt),
      (''smallint'', SmallInt), (''text'', Text), (''varchar'', Text), (''time'', Time),
      (''timestamp'', Timestamp), (''timeuuid'', TimeUuid), (''tinyint'', TinyInt), (''uuid'', Uuid),
      (''varint'', VarInt)]"

definition primitive_of :: "string \<Rightarrow> cql_type_info option" where
  "primitive_of lower = map_option TPrim (map_of primitive_names lower)"

definition dse_names :: "(string \<times> primitive_type) list" where
  "dse_names =
     [(''org.apache.cassandra.db.marshal.PointType'', Point),
      (''org.apache.cassandra.db.marshal.LineStringType'', LineString),
      (''org.apache.cassandra.db.marshal.PolygonType'', Polygon),
      (''org.apache.cassandra.db.marshal.DateRangeType'', DateRange),
      (''pointtype'', Point), (''linestringtype'', LineString), (''polygontype'', Polygon),
      (''daterangetype'', DateRange)]"

definition leaf :: "udt_resolver \<Rightarrow> string \<Rightarrow> string \<Rightarrow> bool \<Rightarrow> cql_type_info" where
  "leaf resolver name lower frozen =
     (case primitive_of lower of
        Some t \<Rightarrow> t
      | None \<Rightarrow>
          (case List.find (\<lambda>(candidate, dse). candidate = name \<or> candidate = lower) dse_names of
             Some (candidate, dse) \<Rightarrow> TPrim dse
           | None \<Rightarrow>
               let (ks, simple) = (case rsplit_once (CHR ''.'') name of
                                     Some (ks, simple) \<Rightarrow> (Some ks, simple) | None \<Rightarrow> (None, name));
                   fields = (case resolver ks simple of Some fs \<Rightarrow> fs | None \<Rightarrow> [])
               in TUdt ks simple fields frozen))"

lemma bindR_cong [fundef_cong]:
  "m = m' \<Longrightarrow> (\<And>x. m' = Inr x \<Longrightarrow> f x = f' x) \<Longrightarrow> bindR m f = bindR m' f'"
  by (cases m) auto

function (domintros) parse_type_inner ::
  "udt_resolver \<Rightarrow> string \<Rightarrow> bool \<Rightarrow> string \<Rightarrow> (cql_type_info \<times> string) result"
  and parse_more :: "udt_resolver \<Rightarrow> string \<Rightarrow> string \<Rightarrow> (cql_type_info list \<times> string) result" where
  "parse_type_inner resolver text frozen rest =
     bindR (type_identifier text rest) (\<lambda>(name, rest1).
       (let lower = to_ascii_lowercase name in
        if lower = ''frozen'' then
          bindR (eat text (CHR ''<'') rest1) (\<lambda>rest2.
          bindR (parse_type_inner resolver text True rest2) (\<lambda>(inner, rest3).
          bindR (eat text (CHR ''>'') rest3) (\<lambda>rest4. Inr (inner, rest4))))
        else if lower = ''list'' \<or> lower = ''set'' then
          bindR (eat text (CHR ''<'') rest1) (\<lambda>rest2.
          bindR (parse_type_inner resolver text False rest2) (\<lambda>(element, rest3).
          bindR (eat text (CHR ''>'') rest3) (\<lambda>rest4.
            Inr (if lower = ''list'' then TList element frozen else TSet element frozen, rest4))))
        else if lower = ''map'' then
          bindR (eat text (CHR ''<'') rest1) (\<lambda>rest2.
          bindR (parse_type_inner resolver text False rest2) (\<lambda>(key, rest3).
          bindR (eat text (CHR '','') rest3) (\<lambda>rest4.
          bindR (parse_type_inner resolver text False rest4) (\<lambda>(val, rest5).
          bindR (eat text (CHR ''>'') rest5) (\<lambda>rest6. Inr (TMap key val frozen, rest6))))))
        else if lower = ''tuple'' then
          bindR (eat text (CHR ''<'') rest1) (\<lambda>rest2.
          bindR (parse_type_inner resolver text False rest2) (\<lambda>(element, rest3).
          bindR (parse_more resolver text rest3) (\<lambda>(elements, rest4).
          bindR (eat text (CHR ''>'') rest4) (\<lambda>rest5. Inr (TTuple (element # elements), rest5)))))
        else if lower = ''vector'' then
          bindR (eat text (CHR ''<'') rest1) (\<lambda>rest2.
          bindR (parse_type_inner resolver text False rest2) (\<lambda>(element, rest3).
          bindR (eat text (CHR '','') rest3) (\<lambda>rest4.
          bindR (dimensions text rest4) (\<lambda>(dims, rest5).
          bindR (eat text (CHR ''>'') rest5) (\<lambda>rest6. Inr (TVector element dims, rest6))))))
        else Inr (leaf resolver name lower frozen, rest1)))"
| "parse_more resolver text rest =
     (let rest1 = skip_whitespace rest in
      if rest1 \<noteq> [] \<and> hd rest1 = CHR '','' then
        bindR (parse_type_inner resolver text False (tl rest1)) (\<lambda>(element, rest2).
        bindR (parse_more resolver text rest2) (\<lambda>(elements, rest3). Inr (element # elements, rest3)))
      else Inr ([], rest1))"
  by pat_completeness auto

subsection \<open>Every successful call consumes input\<close>

lemma skip_whitespace_length [simp]: "length (skip_whitespace rest) \<le> length rest"
  by (simp add: skip_whitespace_def length_dropWhile_le)

lemma eat_consumes: "eat text c rest = Inr rest' \<Longrightarrow> length rest' < length rest"
  using skip_whitespace_length [of rest]
  by (cases "skip_whitespace rest") (auto simp: eat_def split: if_splits)

lemma dropWhile_shorter: "takeWhile P xs \<noteq> [] \<Longrightarrow> length (dropWhile P xs) < length xs"
  by (cases xs) (auto simp: length_dropWhile_le le_imp_less_Suc split: if_splits)

lemma type_identifier_consumes:
  assumes "type_identifier text rest = Inr (name, rest')"
  shows "length rest' < length rest"
proof -
  let ?r = "skip_whitespace rest"
  have "length rest' < length ?r"
    using assms
    by (auto simp: type_identifier_def quoted_type_name_def Let_def dropWhile_shorter neq_Nil_conv
        split: if_splits intro: le_less_trans [OF length_dropWhile_le])
       (auto simp: less_Suc_eq_le intro: le_trans [OF diff_le_self] le_trans [OF length_dropWhile_le])
  then show ?thesis using skip_whitespace_length [of rest] by linarith
qed

lemma dimensions_consumes: "dimensions text rest = Inr (n, rest') \<Longrightarrow> length rest' \<le> length rest"
  using skip_whitespace_length [of rest]
  by (auto simp: dimensions_def Let_def split: option.splits
      intro: le_trans [OF length_dropWhile_le])

definition consumes :: "('a \<times> string) result \<Rightarrow> nat \<Rightarrow> bool" where
  "consumes m n \<longleftrightarrow> (\<forall>x rest. m = Inr (x, rest) \<longrightarrow> length rest < n)"

lemma consumesD: "consumes m n \<Longrightarrow> m = Inr (x, rest) \<Longrightarrow> length rest < n"
  by (simp add: consumes_def)

lemma consumes_Inr [simp]: "consumes (Inr (x, rest)) n \<longleftrightarrow> length rest < n" "consumes (Inl e) n"
  by (auto simp: consumes_def)

lemma consumes_eat:
  "(\<And>r. length r < length rest \<Longrightarrow> eat input c rest = Inr r \<Longrightarrow> consumes (f r) n) \<Longrightarrow>
   consumes (bindR (eat input c rest) f) n"
  by (cases "eat input c rest") (auto dest: eat_consumes)

lemma consumes_bind:
  "consumes m k \<Longrightarrow> (\<And>x r. length r < k \<Longrightarrow> m = Inr (x, r) \<Longrightarrow> consumes (f (x, r)) n) \<Longrightarrow> consumes (bindR m f) n"
  by (cases m) (auto dest: consumesD)

lemma consumes_basic:
  "consumes (type_identifier input rest) (length rest)"
  "consumes (dimensions input rest) (Suc (length rest))"
  by (auto simp: consumes_def le_imp_less_Suc dest: type_identifier_consumes dimensions_consumes)

lemma parse_consumes_dom:
  "parse_type_inner_parse_more_dom (Inl (resolver, input, frozen, rest)) \<Longrightarrow>
     consumes (parse_type_inner resolver input frozen rest) (length rest)"
  "parse_type_inner_parse_more_dom (Inr (resolver, input, rest)) \<Longrightarrow>
     consumes (parse_more resolver input rest) (Suc (length rest))"
proof (induction rule: parse_type_inner_parse_more.pinduct)
  case (1 resolver input frozen rest)
  show ?case
    unfolding parse_type_inner.psimps [OF 1(1)]
  proof (rule consumes_bind [OF consumes_basic(1)], goal_cases)
    case prem: (1 name rest1)
    note ih = "1" (2-) [OF prem(2) refl refl]
    have frozen: ?case if "to_ascii_lowercase name = ''frozen''"
      using that prem by (auto simp: Let_def intro!: consumes_eat consumes_bind [OF ih(1)])
    have seq: ?case if "to_ascii_lowercase name = ''list'' \<or> to_ascii_lowercase name = ''set''"
      using that prem by (auto simp: Let_def intro!: consumes_eat consumes_bind [OF ih(2)])
    have map: ?case if k: "to_ascii_lowercase name = ''map''"
      using that prem by (simp add: Let_def)
        (rule consumes_eat, rule consumes_bind [OF ih(3)], auto intro!: consumes_eat consumes_bind [OF ih(4)])
    have tuple: ?case if k: "to_ascii_lowercase name = ''tuple''"
      using that prem by (simp add: Let_def)
        (rule consumes_eat, rule consumes_bind [OF ih(5)], auto intro!: consumes_eat consumes_bind [OF ih(6)])
    have vector: ?case if k: "to_ascii_lowercase name = ''vector''"
      using that prem by (simp add: Let_def)
        (rule consumes_eat, rule consumes_bind [OF ih(7)], auto intro!: consumes_eat consumes_bind [OF consumes_basic(2)])
    show ?case
      using frozen seq map tuple vector prem by (cases "to_ascii_lowercase name \<in> {''frozen'', ''list'', ''set'', ''map'', ''tuple'', ''vector''}")
       (auto simp: Let_def)
  qed
next
  case (2 resolver input rest)
  note psimp = parse_more.psimps [OF 2(1)]
  note ih = 2(2-) [OF refl]
  show ?case
  proof (cases "skip_whitespace rest \<noteq> [] \<and> hd (skip_whitespace rest) = CHR '',''")
    case True
    show ?thesis using True skip_whitespace_length [of rest] unfolding psimp
      by (simp add: Let_def) (rule consumes_bind [OF ih(1) [OF True]], simp, rule consumes_bind, rule ih(2) [OF True], auto,
          use skip_whitespace_length [of rest] in linarith)
  qed (auto simp: psimp Let_def less_Suc_eq_le)
qed

termination parse_type_inner
proof (relation "measure (\<lambda>x. case x of Inl (resolver, input, frozen, rest) \<Rightarrow> 2 * length rest
                                     | Inr (resolver, input, rest) \<Rightarrow> 2 * length rest + 1)",
       goal_cases)
  case (5 resolver input frozen rest nr name y lower xc xd xe ya xf)
  then show ?case
    by (auto dest!: type_identifier_consumes eat_consumes parse_consumes_dom(1) dest: consumesD)
next
  case (7 resolver input frozen rest nr name y lower xc xd xe ya)
  then show ?case
    by (auto dest!: type_identifier_consumes eat_consumes parse_consumes_dom(1) dest: consumesD)
next
  case (9 resolver input rest x)
  then show ?case using skip_whitespace_length [of rest] by (cases "skip_whitespace rest") auto
next
  case (10 resolver input rest x xa xb y)
  then show ?case using skip_whitespace_length [of rest]
    by (cases "skip_whitespace rest") (auto dest!: parse_consumes_dom(1) dest: consumesD)
qed (auto dest!: type_identifier_consumes eat_consumes)

declare parse_type_inner.simps [simp del] parse_more.simps [simp del]

definition finish :: "string \<Rightarrow> string \<Rightarrow> unit result" where
  "finish input rest0 =
     (let rest = skip_whitespace rest0 in
      if rest \<noteq> [] then Inl (parse_error input rest ''unexpected trailing input'') else Inr ())"

definition parse_with :: "udt_resolver \<Rightarrow> string \<Rightarrow> cql_type_info result" where
  "parse_with resolver input =
     bindR (parse_type_inner resolver input False input) (\<lambda>(parsed, rest).
     bindR (finish input rest) (\<lambda>_. Inr parsed))"

definition parse_cql_type :: "string \<Rightarrow> cql_type_info result" where
  "parse_cql_type input = parse_with no_resolver input"

subsection \<open>Frozen-ness is not part of a type's identity\<close>

lemma same_types_all2: "same_types as bs \<longleftrightarrow> list_all2 same_type as bs"
  by (induction as arbitrary: bs) (auto split: list.splits)

lemma same_fields_all2: "same_fields fs gs \<longleftrightarrow> list_all2 (\<lambda>f g. fst f = fst g \<and> same_type (snd f) (snd g)) fs gs"
  by (induction fs arbitrary: gs) (auto split: list.splits)

lemma same_type_refl [simp]: "same_type t t"
  by (induction t) (auto simp: same_types_all2 same_fields_all2 intro!: list_all2_same [THEN iffD2])

lemma same_type_sym:
  "same_type a b \<Longrightarrow> same_type b a" "same_types as bs \<Longrightarrow> same_types bs as"
  "same_fields fs gs \<Longrightarrow> same_fields gs fs"
  by (induction a b and as bs and fs gs rule: same_type_same_types_same_fields.induct)
    (auto split: cql_type_info.splits list.splits)

lemma same_type_trans:
  "same_type a b \<Longrightarrow> same_type b c \<Longrightarrow> same_type a c" "same_types as bs \<Longrightarrow> same_types bs cs \<Longrightarrow> same_types as cs"
  "same_fields fs gs \<Longrightarrow> same_fields gs hs \<Longrightarrow> same_fields fs hs"
  by (induction a b and as bs and fs gs arbitrary: c and cs and hs
      rule: same_type_same_types_same_fields.induct)
    (auto split: cql_type_info.splits list.splits)

subsection \<open>Display and parser are inverse\<close>

definition type_keywords :: "string list" where
  "type_keywords = [''frozen'', ''list'', ''set'', ''map'', ''tuple'', ''vector'']"

text \<open>The names the parser reads as a user-defined type.\<close>

definition udt_name :: "string \<Rightarrow> bool" where
  "udt_name n \<longleftrightarrow> n \<noteq> [] \<and> list_all name_char n \<and> to_ascii_lowercase n \<notin> set type_keywords
     \<and> map_of primitive_names (to_ascii_lowercase n) = None
     \<and> map_of dse_names (to_ascii_lowercase n) = None \<and> map_of dse_names n = None"

text \<open>The types that a schema can name: what the parser can produce without a resolver.\<close>

fun nameable :: "cql_type_info \<Rightarrow> bool" where
  "nameable (TPrim p) = True"
| "nameable (TList e f) = nameable e"
| "nameable (TSet e f) = nameable e"
| "nameable (TMap k v f) = (nameable k \<and> nameable v)"
| "nameable (TTuple es) = (es \<noteq> [] \<and> list_all nameable es)"
| "nameable (TUdt ks n fs f) =
     (fs = [] \<and> CHR ''.'' \<notin> set n \<and> udt_name ((case ks of None \<Rightarrow> [] | Some k \<Rightarrow> k @ ''.'') @ n))"
| "nameable (TVector e d) = (nameable e \<and> d \<le> u64_max)"
| "nameable (TCustom s) = False"

fun set_frozen :: "bool \<Rightarrow> cql_type_info \<Rightarrow> cql_type_info" where
  "set_frozen f (TList e g) = TList e f"
| "set_frozen f (TSet e g) = TSet e f"
| "set_frozen f (TMap k v g) = TMap k v f"
| "set_frozen f (TUdt ks n fs g) = TUdt ks n fs f"
| "set_frozen f t = t"

definition ends_name :: "string \<Rightarrow> bool" where
  "ends_name rest \<longleftrightarrow> rest = [] \<or> \<not> name_char (hd rest)"

lemma ends_name_simps [simp]:
  "ends_name []" "ends_name (CHR ''<'' # s)" "ends_name (CHR ''>'' # s)" "ends_name (CHR '','' # s)"
  by (simp_all add: ends_name_def name_char_def is_alphanumeric_def is_digit_def)

lemma name_char_not_special:
  "name_char c \<Longrightarrow> \<not> is_ascii_space c \<and> c \<noteq> CHR 0x27 \<and> c \<noteq> CHR 0x22"
  by (auto simp: name_char_def is_alphanumeric_def is_digit_def is_ascii_space_def Let_def)

lemma type_identifier_name [simp]:
  assumes "n \<noteq> []" "list_all name_char n" "ends_name rest"
  shows "type_identifier input (n @ rest) = Inr (n, rest)"
proof -
  obtain c cs where n: "n = c # cs" using assms(1) by (cases n) auto
  have c: "name_char c" using assms n by simp
  have rest: "takeWhile name_char rest = []" "dropWhile name_char rest = rest"
    using assms(3) by (cases rest; simp add: ends_name_def)+
  have "takeWhile name_char (n @ rest) = n" "dropWhile name_char (n @ rest) = rest"
    using assms(2) rest by (simp_all add: list_all_iff takeWhile_append2 dropWhile_append2)
  then show ?thesis
    using name_char_not_special [OF c] n by (simp add: type_identifier_def Let_def skip_whitespace_def c)
qed

lemma type_identifier_space: "type_identifier input (CHR '' '' # s) = type_identifier input s"
  by (simp add: type_identifier_def skip_whitespace_def is_ascii_space_def)

lemma parse_space: "parse_type_inner resolver input frozen (CHR '' '' # s) = parse_type_inner resolver input frozen s"
  by (subst (1 2) parse_type_inner.simps) (simp add: type_identifier_space)

lemma eat_simps [simp]:
  "eat input (CHR ''<'') (CHR ''<'' # s) = Inr s" "eat input (CHR ''>'') (CHR ''>'' # s) = Inr s"
  "eat input (CHR '','') (CHR '','' # s) = Inr s"
  by (simp_all add: eat_def skip_whitespace_def is_ascii_space_def)

lemma dimensions_show:
  assumes "d \<le> u64_max"
  shows "dimensions input (CHR '' '' # show_nat d @ CHR ''>'' # s) = Inr (d, CHR ''>'' # s)"
proof -
  obtain c cs where n: "show_nat d = c # cs" using show_nat_digits [of d] by (cases "show_nat d") auto
  have digits: "list_all is_digit (show_nat d)" using show_nat_digits by blast
  have c: "\<not> is_ascii_space c" using digits n digit_not_special by simp
  have gt: "\<not> is_digit (CHR ''>'')" by (simp add: is_digit_def)
  have "takeWhile is_digit (show_nat d @ CHR ''>'' # s) = show_nat d"
    "dropWhile is_digit (show_nat d @ CHR ''>'' # s) = CHR ''>'' # s"
    using digits gt by (simp_all add: list_all_iff takeWhile_append2 dropWhile_append2)
  moreover have "skip_whitespace (CHR '' '' # show_nat d @ CHR ''>'' # s) = show_nat d @ CHR ''>'' # s"
    using c n by (simp add: skip_whitespace_def is_ascii_space_def)
  ultimately show ?thesis using parse_show_nat [OF assms] by (simp add: dimensions_def)
qed

text \<open>
  What a name reads back as: a keyword opens a compound type, another name is a leaf. \<open>reads t\<close> says that
  the rendering of \<open>t\<close>, without an outermost \<open>frozen<>\<close>, is read back as \<open>t\<close> with the frozen flag of the context.
\<close>

definition reads :: "cql_type_info \<Rightarrow> bool" where
  "reads t \<longleftrightarrow> (\<forall>input frozen rest. ends_name rest \<longrightarrow>
     parse_type_inner no_resolver input frozen (show_type (set_frozen False t) @ rest)
       = Inr (set_frozen frozen t, rest))"

lemma readsD:
  "reads t \<Longrightarrow> ends_name rest \<Longrightarrow>
   parse_type_inner no_resolver input frozen (show_type (set_frozen False t) @ rest) = Inr (set_frozen frozen t, rest)"
  by (simp add: reads_def)

lemma show_frozen: "show_type t = (if is_frozen t then ''frozen<'' @ show_type (set_frozen False t) @ ''>''
  else show_type (set_frozen False t))"
  by (cases t) (auto simp: write_wrapped_def)

lemma set_frozen_is_frozen [simp]: "set_frozen (is_frozen t) t = t"
  by (cases t) auto

text \<open>The keywords of the grammar, as \<open>type_identifier\<close> reads them.\<close>

lemma keyword_identifier:
  "kw \<in> set type_keywords \<Longrightarrow> type_identifier input (kw @ CHR ''<'' # s) = Inr (kw, CHR ''<'' # s)"
  by (rule type_identifier_name)
    (auto simp: type_keywords_def name_char_def is_alphanumeric_def is_digit_def)

lemmas keyword_identifiers =
  keyword_identifier [of "''frozen''", simplified type_keywords_def, simplified]
  keyword_identifier [of "''list''", simplified type_keywords_def, simplified]
  keyword_identifier [of "''set''", simplified type_keywords_def, simplified]
  keyword_identifier [of "''map''", simplified type_keywords_def, simplified]
  keyword_identifier [of "''tuple''", simplified type_keywords_def, simplified]
  keyword_identifier [of "''vector''", simplified type_keywords_def, simplified]

lemma reads_show:
  assumes "reads t" "ends_name rest"
  shows "parse_type_inner no_resolver input False (show_type t @ rest) = Inr (t, rest)"
proof (cases "is_frozen t")
  case True
  have "parse_type_inner no_resolver input True (show_type (set_frozen False t) @ CHR ''>'' # rest)
      = Inr (t, CHR ''>'' # rest)"
    using readsD [OF assms(1), of "CHR ''>'' # rest" input True] set_frozen_is_frozen [of t] True by simp
  then show ?thesis
    by (subst show_frozen, subst parse_type_inner.simps) (simp add: True Let_def keyword_identifiers)
next
  case False
  then have "set_frozen False t = t" using set_frozen_is_frozen [of t] by simp
  then show ?thesis using readsD [OF assms, of input False] by simp
qed

lemma reads_show_space:
  "reads t \<Longrightarrow> ends_name rest \<Longrightarrow>
   parse_type_inner no_resolver input False (CHR '' '' # show_type t @ rest) = Inr (t, rest)"
  by (simp add: parse_space reads_show)

lemma reads_seq:
  assumes "reads e"
  shows "reads (TList e f)" "reads (TSet e f)"
  unfolding reads_def
  by (simp_all add: parse_type_inner.simps [where rest = "CHR ''l'' # s" for s]
        parse_type_inner.simps [where rest = "CHR ''s'' # s" for s]
        write_wrapped_def keyword_identifiers Let_def reads_show [OF assms])

lemma reads_map:
  assumes "reads k" "reads v"
  shows "reads (TMap k v f)"
  unfolding reads_def
  by (simp add: parse_type_inner.simps [where rest = "CHR ''m'' # s" for s] write_wrapped_def
      keyword_identifiers Let_def reads_show [OF assms(1)] reads_show_space [OF assms(2)])

lemma reads_vector:
  assumes "reads e" "d \<le> u64_max"
  shows "reads (TVector e d)"
  unfolding reads_def
  by (simp add: parse_type_inner.simps [where rest = "CHR ''v'' # s" for s]
      keyword_identifiers Let_def reads_show [OF assms(1)] dimensions_show [OF assms(2)])

lemma join_tail: "join_strings '', '' (s # ss) = s @ concat (map (\<lambda>a. CHR '','' # CHR '' '' # a) ss)"
  by (induction ss arbitrary: s) auto

lemma parse_more_show:
  assumes "\<And>t. t \<in> set ts \<Longrightarrow> reads t"
  shows "parse_more no_resolver input (concat (map (\<lambda>a. CHR '','' # CHR '' '' # show_type a) ts) @ CHR ''>'' # s)
    = Inr (ts, CHR ''>'' # s)"
  using assms
proof (induction ts)
  case Nil
  then show ?case by (simp add: parse_more.simps skip_whitespace_def is_ascii_space_def)
next
  case (Cons t ts)
  have ends: "ends_name (concat (map (\<lambda>a. CHR '','' # CHR '' '' # show_type a) ts) @ CHR ''>'' # s)"
    by (cases ts) simp_all
  have "reads t" using Cons.prems by simp
  then show ?case using Cons.IH [OF Cons.prems] ends
    by (simp add: parse_more.simps [of _ _ "CHR '','' # xs" for xs] skip_whitespace_def is_ascii_space_def
        reads_show_space)
qed

lemma reads_tuple:
  assumes "\<And>t. t \<in> set ts \<Longrightarrow> reads t" "ts \<noteq> []"
  shows "reads (TTuple ts)"
proof -
  obtain t ts' where ts: "ts = t # ts'" using assms(2) by (cases ts) auto
  have ends: "ends_name (concat (map (\<lambda>a. CHR '','' # CHR '' '' # show_type a) ts') @ CHR ''>'' # s)" for s
    by (cases ts') simp_all
  have t: "reads t" and more: "\<And>u. u \<in> set ts' \<Longrightarrow> reads u" using assms ts by auto
  show ?thesis
    unfolding reads_def ts
    by (simp add: parse_more_show [OF more] reads_show [OF t ends] comp_def parse_type_inner.simps [where rest = "CHR ''t'' # s" for s] write_wrapped_def
        keyword_identifiers Let_def join_tail)
qed

lemma reads_leaf:
  assumes "n \<noteq> []" "list_all name_char n" "to_ascii_lowercase n \<notin> set type_keywords"
    and "show_type (set_frozen False t) = n" "\<And>f. leaf no_resolver n (to_ascii_lowercase n) f = set_frozen f t"
  shows "reads t"
  unfolding reads_def using assms
  by (auto simp: parse_type_inner.simps [where rest = "n @ s" for s] Let_def type_keywords_def)

lemma show_primitive_name:
  "show_primitive p \<noteq> []" "list_all name_char (show_primitive p)"
  "to_ascii_lowercase (show_primitive p) \<notin> set type_keywords"
  by (cases p; simp add: name_char_def is_alphanumeric_def is_digit_def type_keywords_def)+

lemma leaf_primitive: "leaf resolver (show_primitive p) (to_ascii_lowercase (show_primitive p)) f = TPrim p"
  by (cases p) (simp_all add: leaf_def primitive_of_def primitive_names_def dse_names_def)

lemma leaf_udt:
  assumes "nameable (TUdt ks n [] g)"
  defines "name \<equiv> (case ks of None \<Rightarrow> [] | Some k \<Rightarrow> k @ ''.'') @ n"
  shows "leaf no_resolver name (to_ascii_lowercase name) f = TUdt ks n [] f"
proof -
  have nm: "udt_name name" and dot: "CHR ''.'' \<notin> set n" using assms by simp_all
  have "List.find (\<lambda>(candidate, dse). candidate = name \<or> candidate = to_ascii_lowercase name) dse_names = None"
    using nm unfolding udt_name_def find_None_iff map_of_eq_None_iff by force
  moreover have "primitive_of (to_ascii_lowercase name) = None" using nm by (simp add: udt_name_def primitive_of_def)
  moreover have "rsplit_once (CHR ''.'') name = (case ks of None \<Rightarrow> None | Some k \<Rightarrow> Some (k, n))"
    using dot rsplit_once_at [OF dot]
    by (cases ks) (simp_all add: name_def rsplit_once_def [of _ n])
  ultimately show ?thesis by (cases ks) (simp_all add: leaf_def no_resolver_def name_def)
qed

lemma reads_nameable: "nameable t \<Longrightarrow> reads t"
proof (induction t)
  case (TPrim p)
  then show ?case by (intro reads_leaf [of "show_primitive p"]) (simp_all add: show_primitive_name leaf_primitive)
next
  case (TUdt ks n fs f)
  then show ?case
    using leaf_udt [of ks n f]
    by (intro reads_leaf [of "(case ks of None \<Rightarrow> [] | Some k \<Rightarrow> k @ ''.'') @ n"]) (simp_all add: udt_name_def)
qed (auto intro: reads_seq reads_map reads_tuple reads_vector simp: list_all_iff)

text \<open>
  Claim C39. Whatever type a schema can name (the primitives and DSE types, nested collections and tuples
  with their frozen flags, vectors with a dimension that fits, user-defined types by a plain name,
  qualified or not, and without resolved fields; but no custom type, no empty tuple and no name that
  needs quotes) is rendered in a form that the parser reads back as exactly that type.
\<close>

theorem show_parse_type: "nameable t \<Longrightarrow> parse_cql_type (show_type t) = Inr t"
  using reads_show [OF reads_nameable, of t "[]" "show_type t"]
  by (simp add: parse_cql_type_def parse_with_def finish_def skip_whitespace_def)

theorem show_parse_type_witness:
  "parse_cql_type ''map<text, frozen<list<vector<float, 3>>>>''
     = Inr (TMap (TPrim Text) (TList (TVector (TPrim Float) 3) True) False)
   \<and> parse_cql_type ''frozen<ks.address>'' = Inr (TUdt (Some ''ks'') ''address'' [] True)"
  using show_parse_type [of "TMap (TPrim Text) (TList (TVector (TPrim Float) 3) True) False"]
    show_parse_type [of "TUdt (Some ''ks'') ''address'' [] True"]
  by (simp add: write_wrapped_def show_nat.simps u64_max_def udt_name_def name_char_def is_alphanumeric_def
      is_digit_def type_keywords_def primitive_names_def dse_names_def char_of_def bit_numeral_rec bit_0)

text \<open>What the parser can produce when no resolver supplies the fields of user-defined types.\<close>

fun bare :: "cql_type_info \<Rightarrow> bool" where
  "bare (TPrim p) = True"
| "bare (TList e f) = bare e"
| "bare (TSet e f) = bare e"
| "bare (TMap k v f) = (bare k \<and> bare v)"
| "bare (TTuple es) = list_all bare es"
| "bare (TUdt ks n fs f) = (fs = [])"
| "bare (TVector e d) = bare e"
| "bare (TCustom s) = False"

definition yields :: "('a \<Rightarrow> bool) \<Rightarrow> ('a \<times> string) result \<Rightarrow> bool" where
  "yields P m \<longleftrightarrow> (\<forall>x rest. m = Inr (x, rest) \<longrightarrow> P x)"

lemma yields_Inr [simp]: "yields P (Inr (x, rest)) \<longleftrightarrow> P x" "yields P (Inl e)"
  by (simp_all add: yields_def)

lemma yields_eat:
  "(\<And>r. eat input c rest = Inr r \<Longrightarrow> yields P (f r)) \<Longrightarrow> yields P (bindR (eat input c rest) f)"
  by (cases "eat input c rest") auto

lemma yields_bind:
  "yields Q m \<Longrightarrow> (\<And>x r. Q x \<Longrightarrow> m = Inr (x, r) \<Longrightarrow> yields P (f (x, r))) \<Longrightarrow> yields P (bindR m f)"
  by (cases m) (auto simp: yields_def)

lemma yields_any: "yields (\<lambda>x. True) m"
  by (simp add: yields_def)

lemma leaf_bare: "bare (leaf no_resolver name lower f)"
  by (auto simp: leaf_def no_resolver_def primitive_of_def split: option.splits prod.splits)

lemma parse_yields_bare:
  "resolver = no_resolver \<Longrightarrow> yields bare (parse_type_inner resolver input frozen rest)"
  "resolver = no_resolver \<Longrightarrow> yields (list_all bare) (parse_more resolver input rest)"
proof (induction resolver input frozen rest and resolver input rest rule: parse_type_inner_parse_more.induct)
  case (1 resolver input frozen rest)
  note r = 1(8)
  show ?case
    unfolding parse_type_inner.simps [of resolver input frozen rest]
  proof (rule yields_bind [OF yields_any], goal_cases)
    case prem: (1 name rest1)
    note ih = "1" (1-7) [OF prem(2) refl refl, rotated -1, OF r]
    have frozen: ?case if "to_ascii_lowercase name = ''frozen''"
      using that by (auto simp: Let_def intro!: yields_eat yields_bind [OF ih(1)])
    have seq: ?case if "to_ascii_lowercase name = ''list'' \<or> to_ascii_lowercase name = ''set''"
      using that by (auto simp: Let_def intro!: yields_eat yields_bind [OF ih(2)])
    have map: ?case if k: "to_ascii_lowercase name = ''map''"
      using that by (simp add: Let_def)
        (rule yields_eat, rule yields_bind [OF ih(3)], auto intro!: yields_eat yields_bind [OF ih(4)])
    have tuple: ?case if k: "to_ascii_lowercase name = ''tuple''"
      using that by (simp add: Let_def)
        (rule yields_eat, rule yields_bind [OF ih(5)], auto intro!: yields_eat yields_bind [OF ih(6)])
    have vector: ?case if k: "to_ascii_lowercase name = ''vector''"
      using that by (simp add: Let_def)
        (rule yields_eat, rule yields_bind [OF ih(7)], auto intro!: yields_eat yields_bind [OF yields_any])
    show ?case
      using frozen seq map tuple vector
      by (cases "to_ascii_lowercase name \<in> {''frozen'', ''list'', ''set'', ''map'', ''tuple'', ''vector''}")
        (auto simp: Let_def leaf_bare r)
  qed
next
  case (2 resolver input rest)
  show ?case
    by (subst parse_more.simps)
      (auto simp: Let_def intro!: yields_bind [OF 2(1) [OF refl _ 2(3)]]
        yields_bind [OF 2(2) [OF refl _ _ _ 2(3)]])
qed

lemma parse_bare: "parse_cql_type input = Inr t \<Longrightarrow> bare t"
  using parse_yields_bare(1) [OF refl, of input False input]
  by (auto simp: parse_cql_type_def parse_with_def bindR_Inr_iff yields_def)

end
