(* ===== verification/Codec_Wire.thy ===== *)
theory Codec_Wire
  imports Core_Model
begin

text \<open>
  Byte-level CQL serialisation: \<open>crates/cdm-codec/src/wire.rs\<close>. Integers are big-endian two's
  complement, a collection element is a signed 32-bit length and that many bytes, with a negative length
  for null. \<open>be_bytes\<close> and \<open>be_value\<close> are the standard library's \<open>to_be_bytes\<close> and \<open>from_be_bytes\<close> at every
  width. The reader keeps the bytes and a position, as in the code.
\<close>

subsection \<open>Big-endian integers\<close>

type_synonym i32 = int

definition i32_min :: i32 where "i32_min = - (2 ^ 31)"
definition i32_max :: i32 where "i32_max = 2 ^ 31 - 1"

definition in_i32 :: "int \<Rightarrow> bool" where
  "in_i32 x \<longleftrightarrow> i32_min \<le> x \<and> x \<le> i32_max"

fun be_bytes :: "nat \<Rightarrow> int \<Rightarrow> byte list" where
  "be_bytes 0 v = []"
| "be_bytes (Suc n) v = be_bytes n (v div 256) @ [word_of_int v]"

definition be_unsigned :: "byte list \<Rightarrow> int" where
  "be_unsigned bs = foldl (\<lambda>a b. a * 256 + uint b) 0 bs"

definition be_value :: "byte list \<Rightarrow> int" where
  "be_value bs =
     (let u = be_unsigned bs; m = 256 ^ length bs in if 2 * u < m then u else u - m)"

subsection \<open>The reader\<close>

definition conversion_error :: "string \<Rightarrow> cdm_error" where
  "conversion_error message = new_error TypeConversion message"

record reader =
  rd_bytes :: "byte list"
  rd_pos :: usize

definition new_reader :: "byte list \<Rightarrow> reader" where
  "new_reader bs = \<lparr>rd_bytes = bs, rd_pos = 0\<rparr>"

definition is_exhausted :: "reader \<Rightarrow> bool" where
  "is_exhausted rd \<longleftrightarrow> length (rd_bytes rd) \<le> rd_pos rd"

definition reader_remaining :: "reader \<Rightarrow> usize" where
  "reader_remaining rd = length (rd_bytes rd) - rd_pos rd"

text \<open>\<open>slice.get(from..to)\<close>.\<close>

definition slice_get :: "'a list \<Rightarrow> usize \<Rightarrow> usize \<Rightarrow> 'a list option" where
  "slice_get xs from to = (if from \<le> to \<and> to \<le> length xs then Some (take (to - from) (drop from xs)) else None)"

definition take_bytes :: "usize \<Rightarrow> reader \<Rightarrow> (byte list \<times> reader) result" where
  "take_bytes n rd =
     (if u64_max < rd_pos rd + n then Inl (conversion_error ''serialised value length overflowed'')
      else case slice_get (rd_bytes rd) (rd_pos rd) (rd_pos rd + n) of
        None \<Rightarrow> Inl (conversion_error (''truncated serialised value: wanted '' @ show_nat n
                  @ '' more bytes, '' @ show_nat (reader_remaining rd) @ '' remain''))
      | Some bs \<Rightarrow> Inr (bs, rd\<lparr>rd_pos := rd_pos rd + n\<rparr>))"

definition fixed_bytes :: "usize \<Rightarrow> byte list \<Rightarrow> string \<Rightarrow> byte list result" where
  "fixed_bytes n bs what =
     (if length bs = n then Inr bs
      else Inl (conversion_error (''expected '' @ show_nat n @ '' bytes for a '' @ what
                  @ '' value, got '' @ show_nat (length bs))))"

definition read_i32 :: "byte list \<Rightarrow> i32 result" where
  "read_i32 bs = bindR (fixed_bytes 4 bs ''int'') (\<lambda>b. Inr (be_value b))"

definition read_i64 :: "byte list \<Rightarrow> i64 result" where
  "read_i64 bs = bindR (fixed_bytes 8 bs ''bigint'') (\<lambda>b. Inr (be_value b))"

definition write_i32 :: "i32 \<Rightarrow> byte list" where
  "write_i32 v = be_bytes 4 v"

definition write_i64 :: "i64 \<Rightarrow> byte list" where
  "write_i64 v = be_bytes 8 v"

definition take_i32 :: "reader \<Rightarrow> (i32 \<times> reader) result" where
  "take_i32 rd = bindR (take_bytes 4 rd) (\<lambda>(bs, rd'). bindR (read_i32 bs) (\<lambda>v. Inr (v, rd')))"

text \<open>The conversion of the length to \<open>usize\<close> cannot fail once it is known not to be negative.\<close>

definition take_element :: "reader \<Rightarrow> (byte list option \<times> reader) result" where
  "take_element rd =
     bindR (take_i32 rd) (\<lambda>(len, rd').
       if len < 0 then Inr (None, rd')
       else bindR (take_bytes (nat len) rd') (\<lambda>(bs, rd''). Inr (Some bs, rd'')))"

definition write_element :: "byte list \<Rightarrow> byte list option \<Rightarrow> byte list result" where
  "write_element out e =
     (case e of
        None \<Rightarrow> Inr (out @ be_bytes 4 (- 1))
      | Some bs \<Rightarrow>
          if i32_max < int (length bs) then Inl (conversion_error ''serialised element exceeds 2 GiB'')
          else Inr (out @ be_bytes 4 (int (length bs)) @ bs))"

subsection \<open>Round trips\<close>

lemma length_be_bytes [simp]: "length (be_bytes n v) = n"
  by (induction n arbitrary: v) auto

lemma be_bytes_4:
  "be_bytes 4 v = [word_of_int (v div 16777216), word_of_int (v div 65536), word_of_int (v div 256), word_of_int v]"
  by (simp add: numeral_eq_Suc flip: zdiv_zmult2_eq)

lemma be_unsigned_snoc: "be_unsigned (bs @ [b]) = be_unsigned bs * 256 + uint b"
  by (simp add: be_unsigned_def)

lemma be_unsigned_Nil [simp]: "be_unsigned [] = 0"
  by (simp add: be_unsigned_def)

lemma be_unsigned_be_bytes: "be_unsigned (be_bytes n v) = v mod 256 ^ n"
proof (induction n arbitrary: v)
  case (Suc n)
  have "be_unsigned (be_bytes (Suc n) v) = (v div 256) mod 256 ^ n * 256 + v mod 256"
    by (simp add: be_unsigned_snoc Suc uint_word_of_int)
  also have "\<dots> = v mod (256 * 256 ^ n)"
    by (simp add: zmod_zmult2_eq)
  finally show ?case by simp
qed simp

lemma be_unsigned_range: "0 \<le> be_unsigned bs \<and> be_unsigned bs < 256 ^ length bs"
proof (induction bs rule: rev_induct)
  case (snoc b bs)
  have b: "0 \<le> uint b \<and> uint b < 256" using uint_range_size [of b] by (simp add: word_size)
  have "be_unsigned bs * 256 + uint b < 256 ^ length bs * 256" using snoc b by linarith
  then show ?case using snoc b by (simp add: be_unsigned_snoc)
qed simp

lemma be_bytes_unsigned: "be_bytes (length bs) (be_unsigned bs) = bs"
proof (induction bs rule: rev_induct)
  case (snoc b bs)
  have b: "0 \<le> uint b \<and> uint b < 256" using uint_range_size [of b] by (simp add: word_size)
  have "(be_unsigned bs * 256 + uint b) div 256 = be_unsigned bs" using b by simp
  moreover have zero: "(256 :: byte) = 0" using of_nat_2p [where ?'a = 8] by simp
  have "word_of_int (be_unsigned bs * 256 + uint b) = word_of_int (be_unsigned bs) * (256 :: byte) + word_of_int (uint b)"
    by (simp only: of_int_add of_int_mult of_int_numeral)
  then have "word_of_int (be_unsigned bs * 256 + uint b) = (b :: byte)"
    unfolding zero by (simp only: mult_zero_right add_0 word_of_int_uint)
  ultimately show ?case using snoc by (simp add: be_unsigned_snoc)
qed simp

lemma be_bytes_mod: "be_bytes n (v mod 256 ^ n) = be_bytes n v"
  using be_bytes_unsigned [of "be_bytes n v"] by (simp add: be_unsigned_be_bytes)

lemma be_bytes_value [simp]: "be_bytes (length bs) (be_value bs) = bs"
proof -
  have "be_value bs mod 256 ^ length bs = be_unsigned bs"
    using be_unsigned_range [of bs] by (auto simp: be_value_def Let_def)
  then show ?thesis by (metis be_bytes_mod be_bytes_unsigned)
qed

lemma be_value_be_bytes:
  assumes "- (256 ^ n) \<le> 2 * v" "2 * v < 256 ^ n"
  shows "be_value (be_bytes n v) = v"
proof (cases "0 \<le> v")
  case True
  then have "v mod 256 ^ n = v" using assms by simp
  then show ?thesis using assms by (simp add: be_value_def be_unsigned_be_bytes)
next
  case False
  have "v mod 256 ^ n = (v + 256 ^ n) mod 256 ^ n" by simp
  also have "\<dots> = v + 256 ^ n" using False assms by (intro mod_pos_pos_trivial) auto
  finally show ?thesis using False assms by (simp add: be_value_def be_unsigned_be_bytes Let_def)
qed

lemma be_value_i32: "in_i32 v \<Longrightarrow> be_value (be_bytes 4 v) = v"
  by (rule be_value_be_bytes) (simp_all add: in_i32_def i32_min_def i32_max_def)

lemma be_value_i64: "in_i64 v \<Longrightarrow> be_value (be_bytes 8 v) = v"
  by (rule be_value_be_bytes) (simp_all add: in_i64_def i64_min_def i64_max_def)

lemma read_write_i32: "in_i32 v \<Longrightarrow> read_i32 (write_i32 v) = Inr v"
  by (simp add: read_i32_def write_i32_def fixed_bytes_def be_value_i32)

lemma read_write_i64: "in_i64 v \<Longrightarrow> read_i64 (write_i64 v) = Inr v"
  by (simp add: read_i64_def write_i64_def fixed_bytes_def be_value_i64)

subsection \<open>Framed elements\<close>

text \<open>
  The bytes of one element as the protocol frames it, and what a reader that stands before them returns:
  if the read succeeds, the element, with the reader after it.
\<close>

fun frame :: "byte list option \<Rightarrow> byte list" where
  "frame None = be_bytes 4 (- 1)"
| "frame (Some bs) = be_bytes 4 (int (length bs)) @ bs"

fun short :: "byte list option \<Rightarrow> bool" where
  "short None = True"
| "short (Some bs) = (int (length bs) \<le> i32_max)"

definition unread :: "reader \<Rightarrow> byte list" where
  "unread rd = drop (rd_pos rd) (rd_bytes rd)"

lemma rest_new [simp]: "unread (new_reader bs) = bs"
  by (simp add: unread_def new_reader_def)

lemma take_bytes_rest:
  "take_bytes n rd = Inr (bs, rd') \<Longrightarrow> unread rd = bs @ unread rd' \<and> length bs = n"
  by (auto simp: take_bytes_def slice_get_def unread_def add.commute simp flip: drop_drop split: if_splits)

lemma take_i32_rest:
  assumes "take_i32 rd = Inr (v, rd')"
  shows "\<exists>h. length h = 4 \<and> v = be_value h \<and> unread rd = h @ unread rd'"
  using assms
  by (auto simp: take_i32_def bindR_Inr_iff read_i32_def fixed_bytes_def split: if_splits dest!: take_bytes_rest)

lemma take_i32_at:
  assumes "take_i32 rd = Inr (v, rd')" "unread rd = be_bytes 4 x @ r" "in_i32 x"
  shows "v = x" "unread rd' = r"
proof -
  obtain h where h: "length h = 4" "v = be_value h" "unread rd = h @ unread rd'"
    using take_i32_rest [OF assms(1)] by blast
  have "h = be_bytes 4 x \<and> unread rd' = r" using h(1,3) assms(2) by (metis append_eq_append_conv length_be_bytes)
  then show "v = x" "unread rd' = r" using h(2) be_value_i32 [OF assms(3)] by auto
qed

lemma take_element_at:
  assumes "take_element rd = Inr (e', rd')" "unread rd = frame e @ r" "short e"
  shows "e' = e \<and> unread rd' = r"
proof -
  obtain v rd1 where i: "take_i32 rd = Inr (v, rd1)"
    and k: "(if v < 0 then Inr (None, rd1) else bindR (take_bytes (nat v) rd1) (\<lambda>(bs, rd''). Inr (Some bs, rd''))) = Inr (e', rd')"
    using assms(1) by (auto simp: take_element_def bindR_Inr_iff)
  show ?thesis
  proof (cases e)
    case None
    then show ?thesis using take_i32_at [OF i, of "- 1" r] assms(2) k by (simp add: in_i32_def i32_min_def i32_max_def)
  next
    case (Some bs)
    have "v = int (length bs)" "unread rd1 = bs @ r"
      using take_i32_at [OF i, of "int (length bs)" "bs @ r"] Some assms(2,3)
      by (simp_all add: in_i32_def i32_min_def)
    then show ?thesis using k Some by (auto simp: bindR_Inr_iff dest!: take_bytes_rest)
  qed
qed

lemma write_element_frame: "write_element out e = Inr out' \<Longrightarrow> out' = out @ frame e \<and> short e"
  by (auto simp: write_element_def split: option.splits if_splits)

lemma length_frame_pos [simp]: "frame e \<noteq> []"
  by (cases e) (auto simp flip: length_greater_0_conv)

lemma exhausted_iff [simp]: "is_exhausted rd \<longleftrightarrow> unread rd = []"
  by (simp add: is_exhausted_def unread_def)

end
