(* ===== verification/Codec_Plan.thy ===== *)
theory Codec_Plan
  imports Codec_Types Codec_Wire
begin

text \<open>
  Conversion planning: \<open>crates/cdm-codec/src/codec.rs\<close> (the codec registry) and \<open>plan.rs\<close> (how a value of
  one CQL type becomes a value of another). A codec is code behind the \<open>CodecPlugin\<close> trait, so a converter
  is a function from a cell to a cell or an error; the registry pairs it with the types it was registered
  for. A plan is resolved once per column pair by \<open>plan_types\<close> and then applied to each value by
  \<open>apply_plan\<close>, which re-frames collections around the converted elements.
\<close>

subsection \<open>The codec registry\<close>

type_synonym converter = "raw_cell \<Rightarrow> raw_cell result"

type_synonym type_pair = "string \<times> string"

record codec_plugin =
  cp_name :: string
  cp_provider :: string
  cp_conversions :: "type_pair list"
  cp_convert :: "type_pair \<Rightarrow> converter"

record codec_entry =
  ce_codec :: string
  ce_provider :: string
  ce_origin :: cql_type_info
  ce_target :: cql_type_info
  ce_converter :: converter

definition parse_pair_side :: "string \<Rightarrow> string \<Rightarrow> cql_type_info result" where
  "parse_pair_side input codec =
     map_err (\<lambda>e. with_context (with_config_key ''transform.codecs'')
       (new_error Config (''codec `'' @ codec @ ''` declares the unparseable CQL type `'' @ input @ ''`: ''
          @ show_error e))) (parse_cql_type input)"

definition entry_for :: "cql_type_info \<Rightarrow> cql_type_info \<Rightarrow> codec_entry \<Rightarrow> bool" where
  "entry_for origin target e \<longleftrightarrow> same_type (ce_origin e) origin \<and> same_type (ce_target e) target"

definition register_pair :: "codec_plugin \<Rightarrow> codec_entry list \<Rightarrow> type_pair \<Rightarrow> codec_entry list result" where
  "register_pair plugin entries pair =
     bindR (parse_pair_side (fst pair) (cp_name plugin)) (\<lambda>origin.
     bindR (parse_pair_side (snd pair) (cp_name plugin)) (\<lambda>target.
       case List.find (entry_for origin target) entries of
         Some existing \<Rightarrow> Inl (with_context (with_config_key ''transform.codecs'')
           (new_error Config (''conversion '' @ show_type origin @ '' -> '' @ show_type target
              @ '' is claimed by both codec `'' @ ce_codec existing @ ''` (from `'' @ ce_provider existing
              @ ''`) and codec `'' @ cp_name plugin @ ''` (from `'' @ cp_provider plugin @ ''`)'')))
       | None \<Rightarrow> Inr (entries @ [\<lparr>ce_codec = cp_name plugin, ce_provider = cp_provider plugin,
                                  ce_origin = origin, ce_target = target,
                                  ce_converter = cp_convert plugin pair\<rparr>])))"

fun register_pairs :: "codec_plugin \<Rightarrow> codec_entry list \<Rightarrow> type_pair list \<Rightarrow> codec_entry list result" where
  "register_pairs plugin entries [] = Inr entries"
| "register_pairs plugin entries (pair # pairs) =
     bindR (register_pair plugin entries pair) (\<lambda>entries'. register_pairs plugin entries' pairs)"

fun register_plugins :: "codec_entry list \<Rightarrow> codec_plugin list \<Rightarrow> codec_entry list result" where
  "register_plugins entries [] = Inr entries"
| "register_plugins entries (plugin # plugins) =
     bindR (register_pairs plugin entries (cp_conversions plugin)) (\<lambda>entries'. register_plugins entries' plugins)"

definition from_registry :: "codec_plugin list \<Rightarrow> codec_entry list result" where
  "from_registry plugins = register_plugins [] plugins"

definition registry_converter :: "codec_entry list \<Rightarrow> cql_type_info \<Rightarrow> cql_type_info \<Rightarrow> converter option" where
  "registry_converter entries origin target = map_option ce_converter (List.find (entry_for origin target) entries)"

subsection \<open>Plans\<close>

datatype conversion_plan =
    PPassthrough
  | PCodec converter
  | PUdt "(usize \<times> conversion_plan) list"
  | PList conversion_plan
  | PSet conversion_plan
  | PMap conversion_plan conversion_plan
  | PTuple "conversion_plan list"
  | PVector conversion_plan usize usize
  | PUnsupported cql_type_info cql_type_info

fun plan_kind :: "conversion_plan \<Rightarrow> string" where
  "plan_kind PPassthrough = ''Passthrough''"
| "plan_kind (PCodec c) = ''Codec''"
| "plan_kind (PUdt fs) = ''Udt''"
| "plan_kind (PList p) = ''List''"
| "plan_kind (PSet p) = ''Set''"
| "plan_kind (PMap k v) = ''Map''"
| "plan_kind (PTuple ps) = ''Tuple''"
| "plan_kind (PVector p d w) = ''Vector''"
| "plan_kind (PUnsupported a b) = ''Unsupported''"

fun is_identity :: "conversion_plan \<Rightarrow> bool" where
  "is_identity PPassthrough = True"
| "is_identity (PUnsupported a b) = True"
| "is_identity p = False"

record planner =
  pn_registry :: "codec_entry list"
  pn_compat_java :: bool

fun family :: "cql_type_info \<Rightarrow> nat option" where
  "family (TPrim Text) = Some 0" | "family (TPrim Ascii) = Some 0"
| "family (TPrim BigInt) = Some 1" | "family (TPrim Counter) = Some 1"
| "family (TPrim Uuid) = Some 2" | "family (TPrim TimeUuid) = Some 2"
| "family t = None"

definition assignable :: "cql_type_info \<Rightarrow> cql_type_info \<Rightarrow> bool" where
  "assignable origin target \<longleftrightarrow> family origin \<noteq> None \<and> family origin = family target"

text \<open>\<open>sort_unstable\<close> of the names and comparison: equality as multisets.\<close>

definition names_match_as_sets :: "udt_field list \<Rightarrow> udt_field list \<Rightarrow> bool" where
  "names_match_as_sets origin target \<longleftrightarrow> mset (map fst origin) = mset (map fst target)"

definition position_of :: "('a \<Rightarrow> bool) \<Rightarrow> 'a list \<Rightarrow> usize option" where
  "position_of P xs = List.find (\<lambda>i. P (xs ! i)) [0..<length xs]"

definition udt_origin_index :: "bool \<Rightarrow> udt_field list \<Rightarrow> usize \<Rightarrow> udt_field \<Rightarrow> usize" where
  "udt_origin_index by_name origin_fields position target_field =
     (if by_name
      then (case position_of (\<lambda>f. fst f = fst target_field) origin_fields of Some i \<Rightarrow> i | None \<Rightarrow> position)
      else position)"

definition wrap_plan :: "(conversion_plan \<Rightarrow> conversion_plan) \<Rightarrow> conversion_plan \<Rightarrow> conversion_plan" where
  "wrap_plan build element = (case element of PPassthrough \<Rightarrow> PPassthrough | _ \<Rightarrow> build element)"

definition is_passthrough :: "conversion_plan \<Rightarrow> bool" where
  "is_passthrough p \<longleftrightarrow> (case p of PPassthrough \<Rightarrow> True | _ \<Rightarrow> False)"

text \<open>
  The end of \<open>plan_udt\<close>, once every field has its origin index and its plan (\<open>None\<close> where the index is out
  of range).
\<close>

definition finish_udt ::
  "cql_type_info \<Rightarrow> cql_type_info \<Rightarrow> (usize \<times> conversion_plan) option list \<Rightarrow> conversion_plan" where
  "finish_udt origin target resolved =
     (if None \<in> set resolved then PUnsupported origin target
      else let fs = map the resolved in
           if list_all (\<lambda>(position, index, p). index = position \<and> is_passthrough p) (enumerate 0 fs)
           then PPassthrough else PUdt fs)"

lemma finish_udt_code [code]:
  "finish_udt origin target resolved =
     (if list_ex Option.is_none resolved then PUnsupported origin target
      else let fs = map the resolved in
           if list_all (\<lambda>(position, index, p). index = position \<and> is_passthrough p) (enumerate 0 fs)
           then PPassthrough else PUdt fs)"
  by (simp add: finish_udt_def list_ex_iff Option.is_none_def)

lemma size_element: "b \<in> set bs \<Longrightarrow> size b < size (TTuple bs)"
  using size_list_estimation' [of b bs "size b" size] by simp

lemma size_field: "b \<in> set bs \<Longrightarrow> size (snd b) < size (TUdt ks n bs g)"
  by (induction bs) (auto simp: prod.size_gen)

function plan_types :: "planner \<Rightarrow> cql_type_info \<Rightarrow> cql_type_info \<Rightarrow> conversion_plan" where
  "plan_types pn origin target =
     (if same_type origin target \<or> assignable origin target then PPassthrough
      else case (origin, target) of
        (TList a f, TList b g) \<Rightarrow> wrap_plan PList (plan_types pn a b)
      | (TSet a f, TSet b g) \<Rightarrow> wrap_plan PSet (plan_types pn a b)
      | (TMap ka va f, TMap kb vb g) \<Rightarrow>
          (let key = plan_types pn ka kb; val = plan_types pn va vb in
           if is_passthrough key \<and> is_passthrough val then PPassthrough else PMap key val)
      | (TTuple as, TTuple bs) \<Rightarrow>
          (if pn_compat_java pn \<or> length as \<noteq> length bs then PUnsupported origin target
           else let plans = map (\<lambda>(a, b). plan_types pn a b) (zip as bs) in
                if list_all is_passthrough plans then PPassthrough else PTuple plans)
      | (TUdt ks n as f, TUdt ks' n' bs g) \<Rightarrow>
          (if as = [] \<or> length as \<noteq> length bs then PUnsupported origin target
           else let by_name = (\<not> pn_compat_java pn \<and> names_match_as_sets as bs) in
                finish_udt origin target
                  (map (\<lambda>(position, b).
                     let i = udt_origin_index by_name as position b in
                     if i < length as then Some (i, plan_types pn (snd (as ! i)) (snd b)) else None)
                   (enumerate 0 bs)))
      | (TVector a d, TVector b d') \<Rightarrow>
          (if d \<noteq> d' then PUnsupported origin target
           else let element = plan_types pn a b in
                if is_passthrough element then PPassthrough
                else (case (fixed_width a, fixed_width b) of
                        (Some w, Some w') \<Rightarrow> PVector element d w
                      | _ \<Rightarrow> PUnsupported origin target))
      | _ \<Rightarrow>
          if is_primitive origin \<and> is_primitive target
          then (case registry_converter (pn_registry pn) origin target of
                  Some c \<Rightarrow> PCodec c
                | None \<Rightarrow> PUnsupported origin target)
          else PUnsupported origin target)"
  by pat_completeness auto
termination
proof (relation "measure (\<lambda>(pn, origin, target). size target)", goal_cases)
  case (6 pn origin target p q as bs z a b)
  then have "b \<in> set bs" by (auto dest: set_zip_rightD)
  then show ?case using 6 size_element by auto
next
  case (7 pn origin target p q ks n as f ks' n' bs g by_name z position b i)
  then have "b \<in> set bs" by (auto simp: enumerate_eq_zip dest: set_zip_rightD)
  then have "size (snd b) < size (TUdt ks' n' bs g)" by (rule size_field)
  moreover have "target = TUdt ks' n' bs g" using 7 by blast
  ultimately show ?case by simp
qed (auto)

declare plan_types.simps [simp del]

subsection \<open>Applying a plan\<close>

definition apply_element :: "converter \<Rightarrow> byte list option \<Rightarrow> byte list option result" where
  "apply_element ap e =
     (case e of None \<Rightarrow> Inr None | Some bs \<Rightarrow> bindR (ap (new_cell bs)) (\<lambda>c. Inr (cell_bytes c)))"

fun sequence_loop ::
  "converter \<Rightarrow> bool \<Rightarrow> nat \<Rightarrow> reader \<Rightarrow> byte list option list \<Rightarrow> byte list option list result" where
  "sequence_loop ap dedupe 0 rd converted = Inr converted"
| "sequence_loop ap dedupe (Suc n) rd converted =
     bindR (take_element rd) (\<lambda>(e, rd').
     bindR (apply_element ap e) (\<lambda>x.
       sequence_loop ap dedupe n rd' (if dedupe \<and> x \<in> set converted then converted else converted @ [x])))"

fun write_elements :: "byte list \<Rightarrow> byte list option list \<Rightarrow> byte list result" where
  "write_elements out [] = Inr out"
| "write_elements out (e # es) = bindR (write_element out e) (\<lambda>out'. write_elements out' es)"

definition apply_sequence :: "converter \<Rightarrow> byte list \<Rightarrow> bool \<Rightarrow> byte list result" where
  "apply_sequence ap bs dedupe =
     bindR (take_i32 (new_reader bs)) (\<lambda>(n, rd).
     bindR (sequence_loop ap dedupe (nat (max n 0)) rd []) (\<lambda>converted.
       if i32_max < int (length converted) then Inl (conversion_error ''collection has more than 2^31 elements'')
       else write_elements (be_bytes 4 (int (length converted))) converted))"

fun map_loop :: "converter \<Rightarrow> converter \<Rightarrow> nat \<Rightarrow> reader \<Rightarrow> byte list \<Rightarrow> byte list result" where
  "map_loop ap_key ap_val 0 rd out = Inr out"
| "map_loop ap_key ap_val (Suc n) rd out =
     bindR (take_element rd) (\<lambda>(k, rd1).
     bindR (apply_element ap_key k) (\<lambda>k'.
     bindR (take_element rd1) (\<lambda>(v, rd2).
     bindR (apply_element ap_val v) (\<lambda>v'.
     bindR (write_element out k') (\<lambda>out1.
     bindR (write_element out1 v') (\<lambda>out2. map_loop ap_key ap_val n rd2 out2))))))"

definition apply_map :: "converter \<Rightarrow> converter \<Rightarrow> byte list \<Rightarrow> byte list result" where
  "apply_map ap_key ap_val bs =
     bindR (take_i32 (new_reader bs)) (\<lambda>(n, rd).
       map_loop ap_key ap_val (nat (max n 0)) rd (be_bytes 4 n))"

fun tuple_loop :: "converter list \<Rightarrow> reader \<Rightarrow> byte list \<Rightarrow> byte list result" where
  "tuple_loop [] rd out = Inr out"
| "tuple_loop (ap # aps) rd out =
     (if is_exhausted rd then bindR (write_element out None) (\<lambda>out'. tuple_loop aps rd out')
      else bindR (take_element rd) (\<lambda>(e, rd').
           bindR (apply_element ap e) (\<lambda>x.
           bindR (write_element out x) (\<lambda>out'. tuple_loop aps rd' out'))))"

definition apply_tuple :: "converter list \<Rightarrow> byte list \<Rightarrow> byte list result" where
  "apply_tuple aps bs = tuple_loop aps (new_reader bs) []"

fun read_fields :: "nat \<Rightarrow> reader \<Rightarrow> byte list option list result" where
  "read_fields 0 rd = Inr []"
| "read_fields (Suc n) rd =
     (if is_exhausted rd then bindR (read_fields n rd) (\<lambda>es. Inr (None # es))
      else bindR (take_element rd) (\<lambda>(e, rd').
           bindR (read_fields n rd') (\<lambda>es. Inr (e # es))))"

fun udt_loop :: "(usize \<times> converter) list \<Rightarrow> byte list option list \<Rightarrow> byte list \<Rightarrow> byte list result" where
  "udt_loop [] origin out = Inr out"
| "udt_loop ((i, ap) # fs) origin out =
     (if length origin \<le> i
      then Inl (conversion_error (''UDT field index '' @ show_nat i @ '' is out of range for a ''
             @ show_nat (length origin) @ ''-field value''))
      else bindR (apply_element ap (origin ! i)) (\<lambda>x.
           bindR (write_element out x) (\<lambda>out'. udt_loop fs origin out')))"

definition apply_udt :: "(usize \<times> converter) list \<Rightarrow> byte list \<Rightarrow> byte list result" where
  "apply_udt fs bs =
     bindR (read_fields (length fs) (new_reader bs)) (\<lambda>origin. udt_loop fs origin [])"

fun vector_loop :: "converter \<Rightarrow> usize \<Rightarrow> nat \<Rightarrow> reader \<Rightarrow> byte list \<Rightarrow> byte list result" where
  "vector_loop ap width 0 rd out = Inr out"
| "vector_loop ap width (Suc n) rd out =
     bindR (take_bytes width rd) (\<lambda>(bs, rd').
     bindR (ap (new_cell bs)) (\<lambda>c.
       case cell_bytes c of
         Some x \<Rightarrow> vector_loop ap width n rd' (out @ x)
       | None \<Rightarrow> Inl (conversion_error ''a vector element cannot be null'')))"

text \<open>The product of dimensions and width is unchecked: it wraps at 64 bits.\<close>

definition apply_vector :: "converter \<Rightarrow> usize \<Rightarrow> usize \<Rightarrow> byte list \<Rightarrow> byte list result" where
  "apply_vector ap dims width bs =
     (let expected = (dims * width) mod 2 ^ 64 in
      if length bs \<noteq> expected
      then Inl (conversion_error (''vector of '' @ show_nat dims @ '' elements should be '' @ show_nat expected
             @ '' bytes, got '' @ show_nat (length bs)))
      else vector_loop ap width dims (new_reader bs) [])"

text \<open>A plan that is not the identity leaves null alone and converts the bytes of a value.\<close>

definition on_value :: "raw_cell \<Rightarrow> (byte list \<Rightarrow> byte list result) \<Rightarrow> raw_cell result" where
  "on_value c f =
     (case cell_bytes c of None \<Rightarrow> Inr NULL_cell | Some bs \<Rightarrow> bindR (f bs) (\<lambda>out. Inr (new_cell out)))"

fun apply_plan :: "conversion_plan \<Rightarrow> converter" where
  "apply_plan PPassthrough c = Inr c"
| "apply_plan (PUnsupported a b) c = Inr c"
| "apply_plan (PCodec conv) c = (if cell_bytes c = None then Inr NULL_cell else conv c)"
| "apply_plan (PList e) c = on_value c (\<lambda>bs. apply_sequence (apply_plan e) bs False)"
| "apply_plan (PSet e) c = on_value c (\<lambda>bs. apply_sequence (apply_plan e) bs True)"
| "apply_plan (PMap k v) c = on_value c (apply_map (apply_plan k) (apply_plan v))"
| "apply_plan (PTuple ps) c = on_value c (apply_tuple (map apply_plan ps))"
| "apply_plan (PUdt fs) c = on_value c (apply_udt (map (\<lambda>(i, p). (i, apply_plan p)) fs))"
| "apply_plan (PVector e d w) c = on_value c (apply_vector (apply_plan e) d w)"

subsection \<open>No type pair is claimed twice\<close>

definition unambiguous :: "codec_entry list \<Rightarrow> bool" where
  "unambiguous entries \<longleftrightarrow> sorted_wrt (\<lambda>e e'. \<not> entry_for (ce_origin e') (ce_target e') e) entries"

lemma register_pair_unambiguous:
  "register_pair plugin entries pair = Inr entries' \<Longrightarrow> unambiguous entries \<Longrightarrow> unambiguous entries'"
  by (auto simp: register_pair_def bindR_Inr_iff unambiguous_def sorted_wrt_append find_None_iff split: option.splits)

lemma register_pairs_unambiguous:
  "register_pairs plugin entries pairs = Inr entries' \<Longrightarrow> unambiguous entries \<Longrightarrow> unambiguous entries'"
  by (induction pairs arbitrary: entries) (auto simp: bindR_Inr_iff dest: register_pair_unambiguous)

lemma register_plugins_unambiguous:
  "register_plugins entries plugins = Inr entries' \<Longrightarrow> unambiguous entries \<Longrightarrow> unambiguous entries'"
  by (induction plugins arbitrary: entries) (auto simp: bindR_Inr_iff dest: register_pairs_unambiguous)

lemma registry_unambiguous: "from_registry plugins = Inr entries \<Longrightarrow> unambiguous entries"
  by (auto simp: from_registry_def unambiguous_def dest: register_plugins_unambiguous)

end
