(* ===== verification/Codec_Sound.thy ===== *)
theory Codec_Sound
  imports Codec_Plan
begin

text \<open>
  Type preservation of conversion plans. \<open>conforms t bs\<close> says that the bytes are framed as the wire
  protocol frames a value of type \<open>t\<close>, down to the widths of the fixed-width primitives; the contents of
  variable-width primitives, of types without a known layout and of user-defined types without field
  definitions are not looked at. A plan that has no unsupported conversion in it turns a conforming value
  of the origin type into a conforming value of the target type, provided the codecs it uses do.
\<close>

subsection \<open>Conforming values\<close>

definition opt_ok :: "(byte list \<Rightarrow> bool) \<Rightarrow> byte list option \<Rightarrow> bool" where
  "opt_ok P e \<longleftrightarrow> (\<forall>x. e = Some x \<longrightarrow> int (length x) \<le> i32_max \<and> P x)"

lemma opt_ok_mono [mono]: "(\<And>x. P x \<longrightarrow> Q x) \<Longrightarrow> opt_ok P e \<longrightarrow> opt_ok Q e"
  by (auto simp: opt_ok_def)

inductive conforms :: "cql_type_info \<Rightarrow> byte list \<Rightarrow> bool" where
  prim: "primitive_width p \<in> {None, Some (length bs)} \<Longrightarrow> conforms (TPrim p) bs"
| lst: "int (length es) \<le> i32_max \<Longrightarrow> \<forall>e \<in> set es. opt_ok (conforms t) e \<Longrightarrow>
     conforms (TList t f) (be_bytes 4 (int (length es)) @ concat (map frame es))"
| st: "int (length es) \<le> i32_max \<Longrightarrow> \<forall>e \<in> set es. opt_ok (conforms t) e \<Longrightarrow>
     conforms (TSet t f) (be_bytes 4 (int (length es)) @ concat (map frame es))"
| mp: "int (length kvs) \<le> i32_max \<Longrightarrow>
     \<forall>kv \<in> set kvs. opt_ok (conforms k) (fst kv) \<and> opt_ok (conforms v) (snd kv) \<Longrightarrow>
     conforms (TMap k v f) (be_bytes 4 (int (length kvs)) @ concat (map (\<lambda>kv. frame (fst kv) @ frame (snd kv)) kvs))"
| tup: "length es \<le> length ts \<Longrightarrow> list_all2 (\<lambda>t e. opt_ok (conforms t) e) (take (length es) ts) es \<Longrightarrow>
     conforms (TTuple ts) (concat (map frame es))"
| udt_opaque: "conforms (TUdt ks n [] f) bs"
| udt: "fs \<noteq> [] \<Longrightarrow> length es \<le> length fs \<Longrightarrow>
     list_all2 (\<lambda>t e. opt_ok (conforms t) e) (take (length es) (map snd fs)) es \<Longrightarrow>
     conforms (TUdt ks n fs f) (concat (map frame es))"
| vec: "fixed_width t = Some w \<Longrightarrow> \<forall>x \<in> set xs. length x = w \<and> conforms t x \<Longrightarrow>
     conforms (TVector t (length xs)) (concat xs)"
| vec_opaque: "fixed_width t = None \<Longrightarrow> conforms (TVector t d) bs"
| custom: "conforms (TCustom s) bs"

inductive_cases conforms_primE: "conforms (TPrim p) bs"
inductive_cases conforms_listE: "conforms (TList t f) bs"
inductive_cases conforms_setE: "conforms (TSet t f) bs"
inductive_cases conforms_mapE: "conforms (TMap k v f) bs"
inductive_cases conforms_tupleE: "conforms (TTuple ts) bs"
inductive_cases conforms_udtE: "conforms (TUdt ks n fs f) bs"
inductive_cases conforms_vectorE: "conforms (TVector t d) bs"

definition refines :: "cql_type_info \<Rightarrow> cql_type_info \<Rightarrow> bool" where
  "refines a b \<longleftrightarrow> (\<forall>bs. conforms a bs \<longrightarrow> conforms b bs)"

lemma refines_refl [simp]: "refines a a"
  by (simp add: refines_def)

lemma opt_ok_refines: "refines a b \<Longrightarrow> opt_ok (conforms a) e \<Longrightarrow> opt_ok (conforms b) e"
  by (auto simp: opt_ok_def refines_def)

lemma refines_list: "refines a b \<Longrightarrow> refines (TList a f) (TList b g)"
  unfolding refines_def [of "TList a f"] by (auto elim!: conforms_listE intro!: conforms.lst intro: opt_ok_refines)

lemma refines_set: "refines a b \<Longrightarrow> refines (TSet a f) (TSet b g)"
  unfolding refines_def [of "TSet a f"] by (auto elim!: conforms_setE intro!: conforms.st intro: opt_ok_refines)

lemma refines_map: "refines ka kb \<Longrightarrow> refines va vb \<Longrightarrow> refines (TMap ka va f) (TMap kb vb g)"
  unfolding refines_def [of "TMap ka va f"]
  by (auto elim!: conforms_mapE intro!: conforms.mp intro: opt_ok_refines)

lemma opt_ok_all2:
  "list_all2 refines as bs \<Longrightarrow> list_all2 (\<lambda>t e. opt_ok (conforms t) e) (take n as) es \<Longrightarrow>
   list_all2 (\<lambda>t e. opt_ok (conforms t) e) (take n bs) es"
  by (auto simp: list_all2_conv_all_nth min_def split: if_splits intro!: opt_ok_refines [of "as ! i" "bs ! i" for i])

lemma refines_tuple: "list_all2 refines as bs \<Longrightarrow> refines (TTuple as) (TTuple bs)"
  unfolding refines_def [of "TTuple as"]
  by (auto elim!: conforms_tupleE intro!: conforms.tup intro: opt_ok_all2 dest: list_all2_lengthD)

lemma refines_udt:
  "list_all2 (\<lambda>x y. refines (snd x) (snd y)) as bs \<Longrightarrow> refines (TUdt ks n as f) (TUdt ks' n' bs g)"
  unfolding refines_def [of "TUdt ks n as f"]
  by (auto elim!: conforms_udtE intro!: conforms.udt conforms.udt_opaque dest: list_all2_lengthD
      intro: opt_ok_all2 [of "map snd as"] simp: list_all2_map1 list_all2_map2)

lemma refines_vector:
  assumes "refines a b" "fixed_width a = fixed_width b"
  shows "refines (TVector a d) (TVector b d)"
  unfolding refines_def
proof (intro allI impI)
  fix bs assume "conforms (TVector a d) bs"
  then show "conforms (TVector b d) bs"
    by (rule conforms_vectorE)
      (use assms in \<open>auto intro: conforms.vec conforms.vec_opaque simp: refines_def\<close>)
qed

lemma same_type_width: "same_type a b \<Longrightarrow> fixed_width a = fixed_width b"
  by (cases a) (auto split: cql_type_info.splits)

lemma same_type_refines: "same_type a b \<Longrightarrow> refines a b"
proof (induction a arbitrary: b)
  case (TTuple as)
  then show ?case
    by (auto split: cql_type_info.splits simp: same_types_all2 intro!: refines_tuple
        elim!: list.rel_mono_strong)
next
  case (TUdt ks n fs f)
  then show ?case
    by (auto split: cql_type_info.splits simp: same_fields_all2 intro!: refines_udt
        elim!: list.rel_mono_strong)
next
  case (TVector e d)
  then show ?case by (auto split: cql_type_info.splits intro: refines_vector same_type_width)
qed (auto split: cql_type_info.splits intro: refines_list refines_set refines_map refines_refl)

lemma assignable_refines: "assignable a b \<Longrightarrow> refines a b"
  by (cases a rule: family.cases; cases b rule: family.cases)
    (auto simp: assignable_def refines_def elim!: conforms_primE intro!: conforms.prim)

subsection \<open>Sound converters\<close>

definition sound :: "converter \<Rightarrow> cql_type_info \<Rightarrow> cql_type_info \<Rightarrow> bool" where
  "sound ap a b \<longleftrightarrow> (\<forall>bs c. conforms a bs \<longrightarrow> ap (new_cell bs) = Inr c \<longrightarrow> (\<exists>bs'. c = new_cell bs' \<and> conforms b bs'))"

lemma soundD: "sound ap a b \<Longrightarrow> conforms a bs \<Longrightarrow> ap (new_cell bs) = Inr c \<Longrightarrow> \<exists>bs'. c = new_cell bs' \<and> conforms b bs'"
  by (auto simp: sound_def)

lemma sound_identity: "sound Inr a b \<longleftrightarrow> refines a b"
  by (auto simp: sound_def refines_def new_cell_def)

lemma sound_on_value:
  assumes "\<And>bs out. conforms a bs \<Longrightarrow> f bs = Inr out \<Longrightarrow> conforms b out"
  shows "sound (\<lambda>c. on_value c f) a b"
  using assms by (auto simp: sound_def on_value_def new_cell_def bindR_Inr_iff)

text \<open>A converted element, before its length has been checked.\<close>

definition conv_ok :: "cql_type_info \<Rightarrow> byte list option \<Rightarrow> bool" where
  "conv_ok t e \<longleftrightarrow> (\<forall>x. e = Some x \<longrightarrow> conforms t x)"

lemma conv_ok_short: "conv_ok t e \<Longrightarrow> short e \<Longrightarrow> opt_ok (conforms t) e"
  by (auto simp: conv_ok_def opt_ok_def)

lemma opt_ok_short: "opt_ok P e \<Longrightarrow> short e"
  by (cases e) (auto simp: opt_ok_def)

lemma conv_ok_None [simp]: "conv_ok t None" "opt_ok P None"
  by (simp_all add: conv_ok_def opt_ok_def)

lemma apply_element_ok:
  "sound ap a b \<Longrightarrow> opt_ok (conforms a) e \<Longrightarrow> apply_element ap e = Inr x \<Longrightarrow> conv_ok b x"
  by (cases e) (auto simp: apply_element_def opt_ok_def conv_ok_def bindR_Inr_iff new_cell_def dest!: soundD)

lemma write_elements_frames:
  "write_elements out es = Inr out' \<Longrightarrow> out' = out @ concat (map frame es) \<and> list_all short es"
  by (induction es arbitrary: out) (fastforce simp: bindR_Inr_iff dest: write_element_frame)+

lemma sequence_loop_ok:
  assumes "sound ap a b"
  shows "sequence_loop ap dedupe (length es) rd acc = Inr out \<Longrightarrow> unread rd = concat (map frame es) @ r \<Longrightarrow>
    \<forall>e \<in> set es. opt_ok (conforms a) e \<Longrightarrow> \<forall>e \<in> set acc. conv_ok b e \<Longrightarrow> \<forall>e \<in> set out. conv_ok b e"
proof (induction es arbitrary: rd acc)
  case (Cons e es)
  obtain e' rd' x where t: "take_element rd = Inr (e', rd')" and x: "apply_element ap e' = Inr x"
    and k: "sequence_loop ap dedupe (length es) rd' (if dedupe \<and> x \<in> set acc then acc else acc @ [x]) = Inr out"
    using Cons.prems(1) by (clarsimp simp: bindR_Inr_iff)
  have ok: "opt_ok (conforms a) e" and oks: "\<forall>e \<in> set es. opt_ok (conforms a) e" using Cons.prems(3) by simp_all
  have "unread rd = frame e @ (concat (map frame es) @ r)" using Cons.prems(2) by simp
  then have e: "e' = e" "unread rd' = concat (map frame es) @ r"
    using take_element_at [OF t _ opt_ok_short [OF ok]] by blast+
  have "conv_ok b x" using apply_element_ok [OF assms ok] x e(1) by blast
  then have "\<forall>e \<in> set (if dedupe \<and> x \<in> set acc then acc else acc @ [x]). conv_ok b e"
    using Cons.prems(4) by simp
  then show ?case using Cons.IH [OF k e(2) oks] by blast
qed simp

lemma apply_sequence_ok:
  assumes "sound ap a b" "apply_sequence ap bs dedupe = Inr out"
    and "bs = be_bytes 4 (int (length es)) @ concat (map frame es)" "int (length es) \<le> i32_max"
    and "\<forall>e \<in> set es. opt_ok (conforms a) e"
  shows "\<exists>es'. out = be_bytes 4 (int (length es')) @ concat (map frame es') \<and> int (length es') \<le> i32_max
    \<and> (\<forall>e \<in> set es'. opt_ok (conforms b) e)"
proof -
  obtain n rd conv where i: "take_i32 (new_reader bs) = Inr (n, rd)"
    and l: "sequence_loop ap dedupe (nat (max n 0)) rd [] = Inr conv" and len: "int (length conv) \<le> i32_max"
    and w: "write_elements (be_bytes 4 (int (length conv))) conv = Inr out"
    using assms(2) by (auto simp: apply_sequence_def bindR_Inr_iff split: if_splits)
  have n: "n = int (length es)" "unread rd = concat (map frame es) @ []"
    using take_i32_at [OF i, of "int (length es)" "concat (map frame es)"] assms(3,4)
    by (simp_all add: in_i32_def i32_min_def)
  have "\<forall>e \<in> set conv. conv_ok b e"
    using sequence_loop_ok [OF assms(1), of dedupe es rd "[]" conv "[]"] l n assms(5) by simp
  then show ?thesis using write_elements_frames [OF w] len
    by (intro exI [of _ conv]) (auto simp: list_all_iff intro: conv_ok_short)
qed

lemma sound_list: "sound ap a b \<Longrightarrow> sound (\<lambda>c. on_value c (\<lambda>bs. apply_sequence ap bs False)) (TList a f) (TList b g)"
  by (rule sound_on_value, elim conforms_listE) (auto dest!: apply_sequence_ok intro!: conforms.lst)

lemma sound_set: "sound ap a b \<Longrightarrow> sound (\<lambda>c. on_value c (\<lambda>bs. apply_sequence ap bs True)) (TSet a f) (TSet b g)"
  by (rule sound_on_value, elim conforms_setE) (auto dest!: apply_sequence_ok intro!: conforms.st)

lemma map_loop_ok:
  assumes "sound apk ka kb" "sound apv va vb"
  shows "map_loop apk apv (length kvs) rd out = Inr out' \<Longrightarrow>
    unread rd = concat (map (\<lambda>kv. frame (fst kv) @ frame (snd kv)) kvs) @ r \<Longrightarrow>
    \<forall>kv \<in> set kvs. opt_ok (conforms ka) (fst kv) \<and> opt_ok (conforms va) (snd kv) \<Longrightarrow>
    \<exists>kvs'. length kvs' = length kvs \<and> out' = out @ concat (map (\<lambda>kv. frame (fst kv) @ frame (snd kv)) kvs')
      \<and> (\<forall>kv \<in> set kvs'. opt_ok (conforms kb) (fst kv) \<and> opt_ok (conforms vb) (snd kv))"
proof (induction kvs arbitrary: rd out)
  case (Cons kv kvs)
  obtain k rd1 k' v rd2 v' out1 out2 where t: "take_element rd = Inr (k, rd1)" "take_element rd1 = Inr (v, rd2)"
    and x: "apply_element apk k = Inr k'" "apply_element apv v = Inr v'"
    and w: "write_element out k' = Inr out1" "write_element out1 v' = Inr out2"
    and l: "map_loop apk apv (length kvs) rd2 out2 = Inr out'"
    using Cons.prems(1) by (clarsimp simp: bindR_Inr_iff)
  let ?r = "concat (map (\<lambda>kv. frame (fst kv) @ frame (snd kv)) kvs) @ r"
  have ok: "opt_ok (conforms ka) (fst kv)" "opt_ok (conforms va) (snd kv)"
    and oks: "\<forall>kv \<in> set kvs. opt_ok (conforms ka) (fst kv) \<and> opt_ok (conforms va) (snd kv)"
    using Cons.prems(3) by simp_all
  have "unread rd = frame (fst kv) @ frame (snd kv) @ ?r" using Cons.prems(2) by simp
  then have k: "k = fst kv" "unread rd1 = frame (snd kv) @ ?r"
    using take_element_at [OF t(1) _ opt_ok_short [OF ok(1)]] by blast+
  then have v: "v = snd kv" "unread rd2 = ?r"
    using take_element_at [OF t(2) _ opt_ok_short [OF ok(2)]] by blast+
  have "conv_ok kb k'" "conv_ok vb v'"
    using apply_element_ok [OF assms(1) ok(1)] apply_element_ok [OF assms(2) ok(2)] x k(1) v(1) by blast+
  then have new: "opt_ok (conforms kb) k'" "opt_ok (conforms vb) v'" "out2 = out @ frame k' @ frame v'"
    using write_element_frame [OF w(1)] write_element_frame [OF w(2)] conv_ok_short by auto
  obtain kvs' where kvs': "length kvs' = length kvs" "out' = out2 @ concat (map (\<lambda>kv. frame (fst kv) @ frame (snd kv)) kvs')"
    "\<forall>kv \<in> set kvs'. opt_ok (conforms kb) (fst kv) \<and> opt_ok (conforms vb) (snd kv)"
    using Cons.IH [OF l v(2) oks] by blast
  show ?case by (rule exI [of _ "(k', v') # kvs'"]) (use kvs' new in simp)
qed simp

lemma sound_map:
  assumes "sound apk ka kb" "sound apv va vb"
  shows "sound (\<lambda>c. on_value c (apply_map apk apv)) (TMap ka va f) (TMap kb vb g)"
proof (rule sound_on_value, elim conforms_mapE)
  fix bs out kvs
  assume out: "apply_map apk apv bs = Inr out" and len: "int (length kvs) \<le> i32_max"
    and bs: "bs = be_bytes 4 (int (length kvs)) @ concat (map (\<lambda>kv. frame (fst kv) @ frame (snd kv)) kvs)"
    and ok: "\<forall>kv \<in> set kvs. opt_ok (conforms ka) (fst kv) \<and> opt_ok (conforms va) (snd kv)"
  obtain n rd where i: "take_i32 (new_reader bs) = Inr (n, rd)"
    and l: "map_loop apk apv (nat (max n 0)) rd (be_bytes 4 n) = Inr out"
    using out by (clarsimp simp: apply_map_def bindR_Inr_iff)
  have n: "n = int (length kvs)" "unread rd = concat (map (\<lambda>kv. frame (fst kv) @ frame (snd kv)) kvs) @ []"
    using take_i32_at [OF i, of "int (length kvs)" "concat (map (\<lambda>kv. frame (fst kv) @ frame (snd kv)) kvs)"] len bs
    by (simp_all add: in_i32_def i32_min_def)
  obtain kvs' where "length kvs' = length kvs"
    "out = be_bytes 4 n @ concat (map (\<lambda>kv. frame (fst kv) @ frame (snd kv)) kvs')"
    "\<forall>kv \<in> set kvs'. opt_ok (conforms kb) (fst kv) \<and> opt_ok (conforms vb) (snd kv)"
    using map_loop_ok [OF assms, of kvs rd "be_bytes 4 n" out "[]"] l n ok by auto
  then show "conforms (TMap kb vb g) out" using n(1) len conforms.mp [of kvs' kb vb g] by simp
qed

text \<open>Tuples and user-defined types: missing trailing components are null.\<close>

lemma tuple_loop_ok:
  "tuple_loop aps rd out = Inr out' \<Longrightarrow> unread rd = concat (map frame es) \<Longrightarrow> length es \<le> length as \<Longrightarrow>
   list_all2 (\<lambda>t e. opt_ok (conforms t) e) (take (length es) as) es \<Longrightarrow>
   length as = length aps \<Longrightarrow> length bs = length aps \<Longrightarrow> (\<And>i. i < length aps \<Longrightarrow> sound (aps ! i) (as ! i) (bs ! i)) \<Longrightarrow>
   \<exists>es'. out' = out @ concat (map frame es') \<and> list_all2 (\<lambda>t e. opt_ok (conforms t) e) bs es'"
proof (induction aps arbitrary: rd out es as bs)
  case (Cons ap aps)
  obtain a as' b bs' where ab: "as = a # as'" "bs = b # bs'" using Cons.prems(5,6) by (cases as; cases bs) auto
  have s: "sound ap a b" "\<And>i. i < length aps \<Longrightarrow> sound (aps ! i) (as' ! i) (bs' ! i)"
    using Cons.prems(7) [of 0] Cons.prems(7) [of "Suc i" for i] ab by auto
  have lens: "length as' = length aps" "length bs' = length aps" using Cons.prems(5,6) ab by auto
  show ?case
  proof (cases es)
    case Nil
    then obtain out1 where w: "write_element out None = Inr out1" "tuple_loop aps rd out1 = Inr out'"
      using Cons.prems(1,2) by (clarsimp simp: bindR_Inr_iff)
    obtain es' where "out' = out1 @ concat (map frame es')" "list_all2 (\<lambda>t e. opt_ok (conforms t) e) bs' es'"
      using Cons.IH [OF w(2), of "[]" as' bs'] Nil Cons.prems(2) lens s(2) by auto
    then show ?thesis using write_element_frame [OF w(1)] ab by (intro exI [of _ "None # es'"]) simp
  next
    case es: (Cons e es0)
    have ok: "opt_ok (conforms a) e" "list_all2 (\<lambda>t e. opt_ok (conforms t) e) (take (length es0) as') es0"
      using Cons.prems(4) ab es by simp_all
    obtain e' rd' x out1 where t: "take_element rd = Inr (e', rd')" and x: "apply_element ap e' = Inr x"
      and w: "write_element out x = Inr out1" "tuple_loop aps rd' out1 = Inr out'"
      using Cons.prems(1,2) es by (auto simp: bindR_Inr_iff split: prod.splits)
    have e: "e' = e" "unread rd' = concat (map frame es0)"
      using take_element_at [OF t, of e "concat (map frame es0)"] Cons.prems(2) es opt_ok_short [OF ok(1)] by auto
    have "opt_ok (conforms b) x" "out1 = out @ frame x"
      using apply_element_ok [OF s(1) ok(1)] x e(1) write_element_frame [OF w(1)] conv_ok_short by auto
    moreover obtain es' where "out' = out1 @ concat (map frame es')" "list_all2 (\<lambda>t e. opt_ok (conforms t) e) bs' es'"
      using Cons.IH [OF w(2) e(2) _ ok(2) lens s(2)] Cons.prems(3) ab es by auto
    ultimately show ?thesis using ab by (intro exI [of _ "x # es'"]) simp
  qed
qed simp

lemma sound_tuple:
  assumes "length as = length aps" "length bs = length aps" "\<And>i. i < length aps \<Longrightarrow> sound (aps ! i) (as ! i) (bs ! i)"
  shows "sound (\<lambda>c. on_value c (apply_tuple aps)) (TTuple as) (TTuple bs)"
proof (rule sound_on_value, elim conforms_tupleE)
  fix bytes out es
  assume "apply_tuple aps bytes = Inr out" "bytes = concat (map frame es)" "length es \<le> length as"
    "list_all2 (\<lambda>t e. opt_ok (conforms t) e) (take (length es) as) es"
  then obtain es' where "out = concat (map frame es')" "list_all2 (\<lambda>t e. opt_ok (conforms t) e) bs es'"
    using tuple_loop_ok [of aps "new_reader bytes" "[]" out es as bs] assms by (auto simp: apply_tuple_def)
  then show "conforms (TTuple bs) out"
    using conforms.tup [of es' bs] list_all2_lengthD [of _ bs es'] by simp
qed

lemma read_fields_ok:
  "read_fields n rd = Inr os \<Longrightarrow> unread rd = concat (map frame es) \<Longrightarrow> length es \<le> n \<Longrightarrow> list_all short es \<Longrightarrow>
   os = es @ replicate (n - length es) None"
proof (induction n arbitrary: rd os es)
  case (Suc n)
  show ?case
  proof (cases es)
    case Nil
    then obtain os' where "read_fields n rd = Inr os'" "os = None # os'"
      using Suc.prems(1,2) by (clarsimp simp: bindR_Inr_iff)
    then show ?thesis using Suc.IH [of rd os' "[]"] Suc.prems(2) Nil by simp
  next
    case (Cons e es0)
    obtain e' rd' os' where t: "take_element rd = Inr (e', rd')" and k: "read_fields n rd' = Inr os'" "os = e' # os'"
      using Suc.prems(1,2) Cons by (auto simp: bindR_Inr_iff split: prod.splits)
    have "e' = e" "unread rd' = concat (map frame es0)"
      using take_element_at [OF t, of e "concat (map frame es0)"] Suc.prems(2,4) Cons by auto
    then show ?thesis using Suc.IH [OF k(1)] Suc.prems(3,4) Cons k(2) by simp
  qed
qed simp

lemma udt_loop_ok:
  "udt_loop fs os out = Inr out' \<Longrightarrow> length bs = length fs \<Longrightarrow>
   (\<And>j x. j < length fs \<Longrightarrow> fst (fs ! j) < length os \<Longrightarrow>
      apply_element (snd (fs ! j)) (os ! fst (fs ! j)) = Inr x \<Longrightarrow> conv_ok (bs ! j) x) \<Longrightarrow>
   \<exists>es'. out' = out @ concat (map frame es') \<and> list_all2 (\<lambda>t e. opt_ok (conforms t) e) bs es'"
proof (induction fs arbitrary: out bs)
  case (Cons f fs)
  obtain i ap where f: "f = (i, ap)" by force
  obtain b bs' where b: "bs = b # bs'" using Cons.prems(2) by (cases bs) auto
  obtain x out1 where i: "i < length os" and x: "apply_element ap (os ! i) = Inr x"
    and w: "write_element out x = Inr out1" "udt_loop fs os out1 = Inr out'"
    using Cons.prems(1) f by (clarsimp simp: bindR_Inr_iff not_le split: if_splits)
  have "conv_ok b x" using Cons.prems(3) [of 0 x] i x f b by simp
  then have "opt_ok (conforms b) x" "out1 = out @ frame x"
    using write_element_frame [OF w(1)] conv_ok_short by auto
  moreover obtain es' where "out' = out1 @ concat (map frame es')" "list_all2 (\<lambda>t e. opt_ok (conforms t) e) bs' es'"
    using Cons.IH [OF w(2), of bs'] Cons.prems(2) Cons.prems(3) [of "Suc j" for j] b by auto
  ultimately show ?case using b by (intro exI [of _ "x # es'"]) simp
qed simp

lemma sound_udt:
  assumes "as \<noteq> []" "length as = length fs" "length bs = length fs"
    and "\<And>j. j < length fs \<Longrightarrow> fst (fs ! j) < length fs \<and> sound (snd (fs ! j)) (snd (as ! fst (fs ! j))) (snd (bs ! j))"
  shows "sound (\<lambda>c. on_value c (apply_udt fs)) (TUdt ks n as f) (TUdt ks' n' bs g)"
proof (rule sound_on_value, elim conforms_udtE)
  fix bytes out es
  assume out: "apply_udt fs bytes = Inr out" and bytes: "bytes = concat (map frame es)" and len: "length es \<le> length as"
    and ok: "list_all2 (\<lambda>t e. opt_ok (conforms t) e) (take (length es) (map snd as)) es"
  obtain os where r: "read_fields (length fs) (new_reader bytes) = Inr os" and l: "udt_loop fs os [] = Inr out"
    using out by (clarsimp simp: apply_udt_def bindR_Inr_iff)
  have "list_all short es"
    using list_all2_memberD2 [OF ok] opt_ok_short by (auto simp: list_all_iff)
  then have os: "os = es @ replicate (length fs - length es) None"
    using read_fields_ok [OF r] bytes len assms(2) by simp
  have el: "opt_ok (conforms (snd (as ! i))) (os ! i)" if "i < length as" for i
    using that ok len os by (auto simp: list_all2_conv_all_nth nth_append assms(2))
  have conv: "conv_ok (map snd bs ! j) x"
    if "j < length fs" "apply_element (snd (fs ! j)) (os ! fst (fs ! j)) = Inr x" for j x
    using apply_element_ok [OF _ el that(2)] assms(4) [OF that(1)] that(1) assms(2,3) by simp
  obtain es' where es': "out = concat (map frame es')" "list_all2 (\<lambda>t e. opt_ok (conforms t) e) (map snd bs) es'"
    using udt_loop_ok [OF l, of "map snd bs"] conv assms(3) by auto
  moreover have "bs \<noteq> []" using assms(1-3) by (cases bs) auto
  ultimately show "conforms (TUdt ks' n' bs g) out"
    using conforms.udt [of bs es' ks' n' g] list_all2_lengthD [OF es'(2)] by simp
qed (use assms in simp)

lemma fixed_width_conforms: "fixed_width t = Some w \<Longrightarrow> conforms t x \<Longrightarrow> length x = w"
  by (cases t) (auto elim: conforms_primE)

lemma vector_loop_ok:
  assumes "sound ap a b"
  shows "vector_loop ap w (length xs) rd out = Inr out' \<Longrightarrow> unread rd = concat xs \<Longrightarrow>
    \<forall>x \<in> set xs. length x = w \<and> conforms a x \<Longrightarrow>
    \<exists>ys. out' = out @ concat ys \<and> length ys = length xs \<and> (\<forall>y \<in> set ys. conforms b y)"
proof (induction xs arbitrary: rd out)
  case (Cons x xs)
  obtain bs rd' c y where t: "take_bytes w rd = Inr (bs, rd')" and c: "ap (new_cell bs) = Inr c" "cell_bytes c = Some y"
    and l: "vector_loop ap w (length xs) rd' (out @ y) = Inr out'"
    using Cons.prems(1) by (clarsimp simp: bindR_Inr_iff split: option.splits)
  have bs: "bs = x \<and> unread rd' = concat xs" using take_bytes_rest [OF t] Cons.prems(2,3) by auto
  obtain y' where "c = new_cell y'" "conforms b y'" using soundD [OF assms _ c(1)] bs Cons.prems(3) by auto
  then have y: "conforms b y" using c(2) by (simp add: new_cell_def)
  obtain ys where "out' = (out @ y) @ concat ys" "length ys = length xs" "\<forall>y \<in> set ys. conforms b y"
    using Cons.IH [OF l] bs Cons.prems(3) by auto
  then show ?case using y by (intro exI [of _ "y # ys"]) simp
qed simp

lemma sound_vector:
  assumes "sound ap a b" "fixed_width a = Some w" "fixed_width b = Some w'"
  shows "sound (\<lambda>c. on_value c (apply_vector ap d w)) (TVector a d) (TVector b d)"
proof (rule sound_on_value, elim conforms_vectorE)
  fix bs out v xs
  assume out: "apply_vector ap d w bs = Inr out" and d: "d = length xs" and bs: "bs = concat xs"
    and v: "fixed_width a = Some v" and xs: "\<forall>x \<in> set xs. length x = v \<and> conforms a x"
  have l: "vector_loop ap w (length xs) (new_reader bs) [] = Inr out"
    using out d by (auto simp: apply_vector_def Let_def split: if_splits)
  obtain ys where "out = concat ys" "length ys = length xs" "\<forall>y \<in> set ys. conforms b y"
    using vector_loop_ok [OF assms(1) l] bs xs v assms(2) by auto
  then show "conforms (TVector b d) out"
    using conforms.vec [of b w' ys] fixed_width_conforms [OF assms(3)] assms(3) d by auto
qed (use assms in simp)

subsection \<open>Every supported plan preserves types\<close>

fun supported :: "conversion_plan \<Rightarrow> bool" where
  "supported PPassthrough = True"
| "supported (PCodec c) = True"
| "supported (PUdt fs) = list_all (\<lambda>(i, p). supported p) fs"
| "supported (PList p) = supported p"
| "supported (PSet p) = supported p"
| "supported (PMap k v) = (supported k \<and> supported v)"
| "supported (PTuple ps) = list_all supported ps"
| "supported (PVector p d w) = supported p"
| "supported (PUnsupported a b) = False"

text \<open>What a registered codec is documented to do: it produces a value of its target type, never null for a value.\<close>

definition codecs_sound :: "codec_entry list \<Rightarrow> bool" where
  "codecs_sound entries \<longleftrightarrow> (\<forall>e \<in> set entries. sound (ce_converter e) (ce_origin e) (ce_target e))"

lemma sound_refines: "sound ap a b \<Longrightarrow> refines a' a \<Longrightarrow> refines b b' \<Longrightarrow> sound ap a' b'"
  unfolding sound_def refines_def by blast

lemma is_passthrough_iff: "is_passthrough p \<longleftrightarrow> p = PPassthrough"
  by (cases p) (simp_all add: is_passthrough_def)

lemma apply_passthrough: "apply_plan PPassthrough = Inr"
  by (rule ext) simp

lemma apply_plan_fun:
  "apply_plan (PList e) = (\<lambda>c. on_value c (\<lambda>bs. apply_sequence (apply_plan e) bs False))"
  "apply_plan (PSet e) = (\<lambda>c. on_value c (\<lambda>bs. apply_sequence (apply_plan e) bs True))"
  "apply_plan (PMap k v) = (\<lambda>c. on_value c (apply_map (apply_plan k) (apply_plan v)))"
  "apply_plan (PTuple ps) = (\<lambda>c. on_value c (apply_tuple (map apply_plan ps)))"
  "apply_plan (PUdt fs) = (\<lambda>c. on_value c (apply_udt (map (\<lambda>(i, p). (i, apply_plan p)) fs)))"
  "apply_plan (PVector e d w) = (\<lambda>c. on_value c (apply_vector (apply_plan e) d w))"
  by (rule ext, simp)+

lemma converter_sound:
  assumes "codecs_sound entries" "registry_converter entries a b = Some c"
  shows "sound c a b"
proof -
  obtain e where e: "List.find (entry_for a b) entries = Some e" "c = ce_converter e"
    using assms(2) by (auto simp: registry_converter_def)
  have "sound c (ce_origin e) (ce_target e)" "same_type (ce_origin e) a" "same_type (ce_target e) b"
    using find_Some_member [OF e(1)] e(2) assms(1) by (auto simp: codecs_sound_def entry_for_def)
  then show ?thesis using sound_refines same_type_refines same_type_sym(1) by blast
qed

lemma sound_wrap:
  assumes "supported (wrap_plan build p)" "\<And>p. supported (build p) \<Longrightarrow> supported p"
    and "supported p \<Longrightarrow> sound (apply_plan p) a b" "refines a b \<Longrightarrow> refines ta tb"
    and "sound (apply_plan p) a b \<Longrightarrow> sound (apply_plan (build p)) ta tb"
  shows "sound (apply_plan (wrap_plan build p)) ta tb"
proof (cases "is_passthrough p")
  case True
  then show ?thesis using assms(3,4) by (simp add: is_passthrough_iff wrap_plan_def apply_passthrough sound_identity)
next
  case False
  then have "wrap_plan build p = build p" by (cases p) (simp_all add: wrap_plan_def is_passthrough_def)
  then show ?thesis using assms by metis
qed

lemma sound_not_same:
  assumes "\<not> (same_type origin target \<or> assignable origin target) \<Longrightarrow> sound (apply_plan (plan_types pn origin target)) origin target"
  shows "sound (apply_plan (plan_types pn origin target)) origin target"
proof (cases "same_type origin target \<or> assignable origin target")
  case True
  then show ?thesis
    using same_type_refines assignable_refines by (subst plan_types.simps) (auto simp: apply_passthrough sound_identity)
qed (rule assms)

lemma plan_types_collections:
  assumes "\<not> (same_type origin target \<or> assignable origin target)"
  shows "origin = TList a f \<Longrightarrow> target = TList b g \<Longrightarrow> plan_types pn origin target = wrap_plan PList (plan_types pn a b)"
    "origin = TSet a f \<Longrightarrow> target = TSet b g \<Longrightarrow> plan_types pn origin target = wrap_plan PSet (plan_types pn a b)"
  using assms by (subst plan_types.simps; simp)+

lemma supported_plan_cases:
  assumes "supported (plan_types pn origin target)" "\<not> (same_type origin target \<or> assignable origin target)"
  shows "(\<exists>a f b g. origin = TList a f \<and> target = TList b g) \<or> (\<exists>a f b g. origin = TSet a f \<and> target = TSet b g)
    \<or> (\<exists>k v f k' v' g. origin = TMap k v f \<and> target = TMap k' v' g) \<or> (\<exists>as bs. origin = TTuple as \<and> target = TTuple bs)
    \<or> (\<exists>ks n as f ks' n' bs g. origin = TUdt ks n as f \<and> target = TUdt ks' n' bs g)
    \<or> (\<exists>a d b d'. origin = TVector a d \<and> target = TVector b d') \<or> (\<exists>p q. origin = TPrim p \<and> target = TPrim q)"
  using assms by (subst (asm) plan_types.simps) (cases origin; cases target; simp)

lemma sound_prim:
  assumes "codecs_sound (pn_registry pn)" "supported (plan_types pn (TPrim p) (TPrim q))"
    and "\<not> (same_type (TPrim p) (TPrim q) \<or> assignable (TPrim p) (TPrim q))"
  shows "sound (apply_plan (plan_types pn (TPrim p) (TPrim q))) (TPrim p) (TPrim q)"
proof -
  obtain c where c: "registry_converter (pn_registry pn) (TPrim p) (TPrim q) = Some c"
    using assms(2,3) by (subst (asm) plan_types.simps) (auto split: option.splits)
  then have "plan_types pn (TPrim p) (TPrim q) = PCodec c" using assms(3) by (subst plan_types.simps) simp
  moreover have "sound (apply_plan (PCodec c)) (TPrim p) (TPrim q)"
    using converter_sound [OF assms(1) c] by (simp add: sound_def new_cell_def)
  ultimately show ?thesis by simp
qed

lemma sound_map_plan:
  assumes ns: "\<not> (same_type (TMap ka va f) (TMap kb vb g) \<or> assignable (TMap ka va f) (TMap kb vb g))"
    and sup: "supported (plan_types pn (TMap ka va f) (TMap kb vb g))"
    and k: "supported (plan_types pn ka kb) \<Longrightarrow> sound (apply_plan (plan_types pn ka kb)) ka kb"
    and v: "supported (plan_types pn va vb) \<Longrightarrow> sound (apply_plan (plan_types pn va vb)) va vb"
  shows "sound (apply_plan (plan_types pn (TMap ka va f) (TMap kb vb g))) (TMap ka va f) (TMap kb vb g)"
proof (cases "is_passthrough (plan_types pn ka kb) \<and> is_passthrough (plan_types pn va vb)")
  case True
  then have "plan_types pn (TMap ka va f) (TMap kb vb g) = PPassthrough" using ns by (subst plan_types.simps) simp
  then show ?thesis using True k v refines_map by (simp add: is_passthrough_iff apply_passthrough sound_identity)
next
  case False
  then have eq: "plan_types pn (TMap ka va f) (TMap kb vb g) = PMap (plan_types pn ka kb) (plan_types pn va vb)"
    using ns by (subst plan_types.simps) auto
  then have "sound (apply_plan (plan_types pn ka kb)) ka kb" "sound (apply_plan (plan_types pn va vb)) va vb"
    using sup k v by simp_all
  then show ?thesis unfolding eq apply_plan_fun by (rule sound_map)
qed

lemma sound_tuple_plan:
  assumes ns: "\<not> (same_type (TTuple as) (TTuple bs) \<or> assignable (TTuple as) (TTuple bs))"
    and sup: "supported (plan_types pn (TTuple as) (TTuple bs))"
    and el: "\<And>a b. b \<in> set bs \<Longrightarrow> supported (plan_types pn a b) \<Longrightarrow> sound (apply_plan (plan_types pn a b)) a b"
  shows "sound (apply_plan (plan_types pn (TTuple as) (TTuple bs))) (TTuple as) (TTuple bs)"
proof -
  let ?ps = "map (\<lambda>(a, b). plan_types pn a b) (zip as bs)"
  have len: "length as = length bs"
    using sup ns by (subst (asm) plan_types.simps) (simp add: Let_def split: if_splits)
  have eq: "plan_types pn (TTuple as) (TTuple bs) = (if list_all is_passthrough ?ps then PPassthrough else PTuple ?ps)"
    using sup ns by (subst plan_types.simps, subst (asm) plan_types.simps) (simp add: Let_def split: if_splits)
  have ps: "?ps ! i = plan_types pn (as ! i) (bs ! i)" if "i < length bs" for i using that len by simp
  show ?thesis
  proof (cases "list_all is_passthrough ?ps")
    case True
    have "refines (as ! i) (bs ! i)" if i: "i < length bs" for i
    proof -
      have "plan_types pn (as ! i) (bs ! i) = PPassthrough"
        using True i ps [OF i] len by (auto simp: list_all_length is_passthrough_iff)
      then show ?thesis using el [of "bs ! i" "as ! i"] i by (simp add: apply_passthrough sound_identity)
    qed
    then have "refines (TTuple as) (TTuple bs)" by (intro refines_tuple) (simp add: list_all2_conv_all_nth len)
    then show ?thesis using eq True by (simp add: apply_passthrough sound_identity)
  next
    case False
    then have sup': "list_all supported ?ps" using eq sup by simp
    have "sound (map apply_plan ?ps ! i) (as ! i) (bs ! i)" if i: "i < length ?ps" for i
      using el [of "bs ! i" "as ! i"] sup' i len by (simp add: list_all_length)
    then have "sound (\<lambda>c. on_value c (apply_tuple (map apply_plan ?ps))) (TTuple as) (TTuple bs)"
      by (intro sound_tuple) (simp_all add: len)
    then show ?thesis using eq False by (simp only: apply_plan_fun if_False)
  qed
qed

lemma sound_udt_plan:
  assumes ns: "\<not> (same_type (TUdt ks n as f) (TUdt ks' n' bs g) \<or> assignable (TUdt ks n as f) (TUdt ks' n' bs g))"
    and sup: "supported (plan_types pn (TUdt ks n as f) (TUdt ks' n' bs g))"
    and el: "\<And>a b. b \<in> snd ` set bs \<Longrightarrow> supported (plan_types pn a b) \<Longrightarrow> sound (apply_plan (plan_types pn a b)) a b"
  shows "sound (apply_plan (plan_types pn (TUdt ks n as f) (TUdt ks' n' bs g))) (TUdt ks n as f) (TUdt ks' n' bs g)"
proof -
  define i where "i j = udt_origin_index (\<not> pn_compat_java pn \<and> names_match_as_sets as bs) as j (bs ! j)" for j
  define pl where "pl j = plan_types pn (snd (as ! i j)) (snd (bs ! j))" for j
  let ?r = "map (\<lambda>j. if i j < length as then Some (i j, pl j) else None) [0..<length bs]"
  have len: "length as = length bs" "as \<noteq> []"
    using sup ns by (subst (asm) plan_types.simps, auto simp: Let_def split: if_splits)+
  have r: "map (\<lambda>(position, b). let j = udt_origin_index (\<not> pn_compat_java pn \<and> names_match_as_sets as bs) as position b in
      if j < length as then Some (j, plan_types pn (snd (as ! j)) (snd b)) else None) (enumerate 0 bs) = ?r"
    by (rule nth_equalityI) (auto simp: i_def pl_def Let_def nth_enumerate_eq)
  have eq: "plan_types pn (TUdt ks n as f) (TUdt ks' n' bs g) = finish_udt (TUdt ks n as f) (TUdt ks' n' bs g) ?r"
    using r ns len by (subst plan_types.simps) (auto simp: Let_def)
  have "None \<notin> set ?r" using sup unfolding eq finish_udt_def by (auto split: if_splits)
  then have lt: "i j < length as" if "j < length bs" for j using that by (auto split: if_splits)
  define fs where "fs = map (\<lambda>j. (i j, pl j)) [0..<length bs]"
  have fs: "map the ?r = fs" unfolding fs_def by (rule nth_equalityI) (simp_all add: lt)
  have eq': "plan_types pn (TUdt ks n as f) (TUdt ks' n' bs g) =
      (if list_all (\<lambda>(position, index, p). index = position \<and> is_passthrough p) (enumerate 0 fs) then PPassthrough else PUdt fs)"
    using \<open>None \<notin> set ?r\<close> unfolding eq finish_udt_def fs by simp
  show ?thesis
  proof (cases "list_all (\<lambda>(position, index, p). index = position \<and> is_passthrough p) (enumerate 0 fs)")
    case True
    have "refines (snd (as ! j)) (snd (bs ! j))" if j: "j < length bs" for j
    proof -
      have "i j = j" "pl j = PPassthrough"
        using True j by (auto simp: fs_def list_all_length is_passthrough_iff nth_enumerate_eq)
      then show ?thesis using el [of "snd (bs ! j)" "snd (as ! j)"] j by (simp add: pl_def apply_passthrough sound_identity)
    qed
    then have "refines (TUdt ks n as f) (TUdt ks' n' bs g)"
      by (intro refines_udt) (simp add: list_all2_conv_all_nth len)
    then show ?thesis using eq' True by (simp add: apply_passthrough sound_identity)
  next
    case False
    then have "supported (PUdt fs)" using eq' sup by (simp only: if_False)
    then have sup': "j < length bs \<Longrightarrow> supported (pl j)" for j by (auto simp: fs_def list_all_iff)
    have "sound (\<lambda>c. on_value c (apply_udt (map (\<lambda>(i, p). (i, apply_plan p)) fs))) (TUdt ks n as f) (TUdt ks' n' bs g)"
    proof (rule sound_udt)
      fix j assume "j < length (map (\<lambda>(i, p). (i, apply_plan p)) fs)"
      then have j: "j < length bs" by (simp add: fs_def)
      show "fst (map (\<lambda>(i, p). (i, apply_plan p)) fs ! j) < length (map (\<lambda>(i, p). (i, apply_plan p)) fs)
        \<and> sound (snd (map (\<lambda>(i, p). (i, apply_plan p)) fs ! j))
            (snd (as ! fst (map (\<lambda>(i, p). (i, apply_plan p)) fs ! j))) (snd (bs ! j))"
        using j lt [OF j] len el [of "snd (bs ! j)" "snd (as ! i j)"] sup' [OF j] by (simp add: fs_def pl_def)
    qed (simp_all add: len fs_def)
    then show ?thesis using eq' False by (simp only: apply_plan_fun if_False)
  qed
qed

lemma sound_vector_plan:
  assumes ns: "\<not> (same_type (TVector a d) (TVector b d') \<or> assignable (TVector a d) (TVector b d'))"
    and sup: "supported (plan_types pn (TVector a d) (TVector b d'))"
    and el: "supported (plan_types pn a b) \<Longrightarrow> sound (apply_plan (plan_types pn a b)) a b"
    and width: "plan_types pn a b = PPassthrough \<Longrightarrow> fixed_width a = fixed_width b"
  shows "sound (apply_plan (plan_types pn (TVector a d) (TVector b d'))) (TVector a d) (TVector b d')"
proof -
  have d: "d' = d" using sup ns by (subst (asm) plan_types.simps) (auto split: if_splits)
  show ?thesis
  proof (cases "is_passthrough (plan_types pn a b)")
    case True
    then have "plan_types pn (TVector a d) (TVector b d') = PPassthrough" using ns d by (subst plan_types.simps) simp
    then show ?thesis using True el width refines_vector d
      by (simp add: is_passthrough_iff apply_passthrough sound_identity)
  next
    case False
    obtain w w' where w: "fixed_width a = Some w" "fixed_width b = Some w'"
      using sup ns False d by (subst (asm) plan_types.simps) (auto split: option.splits)
    then have eq: "plan_types pn (TVector a d) (TVector b d') = PVector (plan_types pn a b) d w"
      using ns False d by (subst plan_types.simps) simp
    then have "sound (apply_plan (plan_types pn a b)) a b" using sup el by simp
    then show ?thesis unfolding eq apply_plan_fun unfolding d using w by (rule sound_vector)
  qed
qed

lemma assignable_width: "assignable a b \<Longrightarrow> fixed_width a = fixed_width b"
  by (cases a rule: family.cases; cases b rule: family.cases) (auto simp: assignable_def)

lemma passthrough_width: "plan_types pn a b = PPassthrough \<Longrightarrow> fixed_width a = fixed_width b"
proof (cases "same_type a b \<or> assignable a b")
  case False
  moreover assume "plan_types pn a b = PPassthrough"
  moreover have "supported (plan_types pn a b)" using calculation by simp
  ultimately show ?thesis
    using supported_plan_cases [of pn a b] by (subst (asm) (1) plan_types.simps) (auto split: option.splits)
qed (auto dest: same_type_width assignable_width)

lemma plan_types_sound:
  assumes "codecs_sound (pn_registry pn)"
  shows "supported (plan_types pn origin target) \<Longrightarrow> sound (apply_plan (plan_types pn origin target)) origin target"
proof (induction target arbitrary: origin)
  case (TPrim q)
  show ?case
    by (rule sound_not_same) (use supported_plan_cases [OF TPrim] sound_prim [OF assms] TPrim in auto)
next
  case (TList b g)
  show ?case
  proof (rule sound_not_same)
    assume ns: "\<not> (same_type origin (TList b g) \<or> assignable origin (TList b g))"
    obtain a f where o: "origin = TList a f" using supported_plan_cases [OF TList.prems ns] by auto
    note eq = plan_types_collections(1) [OF ns o refl, of pn]
    show "sound (apply_plan (plan_types pn origin (TList b g))) origin (TList b g)"
      unfolding eq
      by (rule sound_wrap [of _ _ a b])
        (use TList eq o in \<open>auto simp: apply_plan_fun intro: refines_list sound_list\<close>)
  qed
next
  case (TSet b g)
  show ?case
  proof (rule sound_not_same)
    assume ns: "\<not> (same_type origin (TSet b g) \<or> assignable origin (TSet b g))"
    obtain a f where o: "origin = TSet a f" using supported_plan_cases [OF TSet.prems ns] by auto
    note eq = plan_types_collections(2) [OF ns o refl, of pn]
    show "sound (apply_plan (plan_types pn origin (TSet b g))) origin (TSet b g)"
      unfolding eq
      by (rule sound_wrap [of _ _ a b])
        (use TSet eq o in \<open>auto simp: apply_plan_fun intro: refines_set sound_set\<close>)
  qed
next
  case (TMap kb vb g)
  show ?case
    by (rule sound_not_same)
      (use supported_plan_cases [OF TMap.prems] sound_map_plan TMap in blast)
next
  case (TTuple bs)
  show ?case
    by (rule sound_not_same)
      (use supported_plan_cases [OF TTuple.prems] sound_tuple_plan TTuple in blast)
next
  case (TUdt ks' n' bs g)
  have el: "supported (plan_types pn a b) \<Longrightarrow> sound (apply_plan (plan_types pn a b)) a b" if "b \<in> snd ` set bs" for a b
    using that TUdt.IH by (auto simp: prod_set_simps)
  show ?case
    by (rule sound_not_same)
      (use supported_plan_cases [OF TUdt.prems] sound_udt_plan [OF _ _ el] TUdt.prems in blast)
next
  case (TVector b d')
  show ?case
    by (rule sound_not_same)
      (use supported_plan_cases [OF TVector.prems] sound_vector_plan [OF _ _ _ passthrough_width] TVector in blast)
next
  case (TCustom s)
  show ?case
    by (rule sound_not_same) (use supported_plan_cases [OF TCustom] in auto)
qed

text \<open>
  Claim C40. Conversion preserves types: when the plan resolved for a pair of CQL types contains no
  unsupported conversion and the registered codecs produce values of the types they are registered for,
  applying it to a well-framed value of the origin type yields, if it succeeds, a well-framed value of the
  target type, never null; this for every nesting of lists, sets, maps, tuples, user-defined types (whether
  matched by name or by position) and vectors, with the element counts, length prefixes and fixed widths
  the wire protocol requires.
\<close>

theorem conversion_preserves_type:
  assumes "codecs_sound (pn_registry pn)" "supported (plan_types pn origin target)" "conforms origin bs"
    and "apply_plan (plan_types pn origin target) (new_cell bs) = Inr c"
  shows "\<exists>bs'. c = new_cell bs' \<and> conforms target bs'"
  using soundD [OF plan_types_sound [OF assms(1,2)] assms(3,4)] .

text \<open>A codec from \<open>int\<close> to \<open>bigint\<close>, at work inside a list.\<close>

definition widen_entry :: codec_entry where
  "widen_entry = \<lparr>ce_codec = ''INT_BIGINT'', ce_provider = ''example'', ce_origin = TPrim CqlInt, ce_target = TPrim BigInt,
     ce_converter = (\<lambda>c. case cell_bytes c of None \<Rightarrow> Inr NULL_cell
                      | Some bs \<Rightarrow> bindR (read_i32 bs) (\<lambda>v. Inr (new_cell (write_i64 v))))\<rparr>"

definition widen_planner :: planner where
  "widen_planner = \<lparr>pn_registry = [widen_entry], pn_compat_java = False\<rparr>"

definition is_ok :: "'a result \<Rightarrow> bool" where
  "is_ok m \<longleftrightarrow> (case m of Inl e \<Rightarrow> False | Inr x \<Rightarrow> True)"

definition widen_input :: "byte list" where
  "widen_input = be_bytes 4 1 @ frame (Some (be_bytes 4 7))"

lemma widen_plan: "plan_types widen_planner (TList (TPrim CqlInt) False) (TList (TPrim BigInt) True)
    = PList (PCodec (ce_converter widen_entry))"
  by (simp add: plan_types.simps assignable_def wrap_plan_def widen_planner_def registry_converter_def entry_for_def
      widen_entry_def)

theorem conversion_preserves_type_witness:
  "\<exists>bs'. conforms (TList (TPrim BigInt) True) bs' \<and>
     apply_plan (plan_types widen_planner (TList (TPrim CqlInt) False) (TList (TPrim BigInt) True)) (new_cell widen_input)
       = Inr (new_cell bs')"
proof -
  have codecs: "codecs_sound (pn_registry widen_planner)"
    by (auto simp: codecs_sound_def widen_planner_def widen_entry_def sound_def new_cell_def bindR_Inr_iff write_i64_def
        intro!: conforms.prim)
  have input: "conforms (TList (TPrim CqlInt) False) widen_input"
    using conforms.lst [of "[Some (be_bytes 4 7)]" "TPrim CqlInt" False]
    by (simp add: widen_input_def opt_ok_def i32_max_def conforms.prim)
  have "is_ok (apply_plan (PList (PCodec (ce_converter widen_entry))) (new_cell widen_input))"
    by (simp add: is_ok_def widen_input_def widen_entry_def on_value_def new_cell_def apply_sequence_def take_i32_def
        take_bytes_def slice_get_def new_reader_def u64_max_def read_i32_def fixed_bytes_def be_value_def
        be_unsigned_def be_bytes_4 take_element_def apply_element_def write_i64_def write_element_def i32_max_def)
  then obtain c where c: "apply_plan (plan_types widen_planner (TList (TPrim CqlInt) False) (TList (TPrim BigInt) True)) (new_cell widen_input) = Inr c"
    unfolding widen_plan by (auto simp: is_ok_def split: sum.splits)
  show ?thesis
    using conversion_preserves_type [OF codecs _ input c] c by (auto simp: widen_plan)
qed

subsection \<open>User-defined types reach the planner without fields\<close>

fun no_udt_plan :: "conversion_plan \<Rightarrow> bool" where
  "no_udt_plan (PUdt fs) = False"
| "no_udt_plan (PList p) = no_udt_plan p"
| "no_udt_plan (PSet p) = no_udt_plan p"
| "no_udt_plan (PMap k v) = (no_udt_plan k \<and> no_udt_plan v)"
| "no_udt_plan (PTuple ps) = list_all no_udt_plan ps"
| "no_udt_plan (PVector p d w) = no_udt_plan p"
| "no_udt_plan p = True"

lemma no_udt_wrap: "no_udt_plan p \<Longrightarrow> (\<And>p. no_udt_plan p \<Longrightarrow> no_udt_plan (build p)) \<Longrightarrow> no_udt_plan (wrap_plan build p)"
  by (cases p) (auto simp: wrap_plan_def)

lemma bare_no_udt_plan: "bare origin \<Longrightarrow> bare target \<Longrightarrow> no_udt_plan (plan_types pn origin target)"
proof (induction target arbitrary: origin)
  case (TTuple bs)
  have "no_udt_plan (plan_types pn a b)" if "(a, b) \<in> set (zip as bs)" "origin = TTuple as" for a b as
    using that TTuple set_zip_leftD [OF that(1)] set_zip_rightD [OF that(1)] by (auto simp: list_all_iff)
  then show ?case by (subst plan_types.simps) (cases origin; auto simp: Let_def list_all_iff)
next
  case (TUdt ks n fs f)
  then show ?case by (subst plan_types.simps) (cases origin; simp)
next
  case (TVector e d)
  then show ?case by (subst plan_types.simps) (cases origin; simp add: Let_def split: option.splits)
next
  case (TPrim p)
  then show ?case by (subst plan_types.simps) (cases origin; simp split: option.splits)
qed (subst plan_types.simps, case_tac origin; simp add: Let_def no_udt_wrap)+

text \<open>
  Every run parses the declared column types without a resolver for user-defined types, so a
  user-defined type reaches the planner with no fields: whatever two type names a schema declares, the
  plan between them never converts the fields of a user-defined type, neither by name nor by position.
\<close>

theorem declared_types_never_convert_udts:
  "parse_cql_type a = Inr origin \<Longrightarrow> parse_cql_type b = Inr target \<Longrightarrow> no_udt_plan (plan_types pn origin target)"
  by (intro bare_no_udt_plan parse_bare)

theorem declared_types_never_convert_udts_witness:
  "parse_cql_type ''address'' = Inr (TUdt None ''address'' [] False)
   \<and> no_udt_plan (plan_types widen_planner (TUdt None ''address'' [] False) (TUdt None ''address'' [] False))"
proof -
  have "parse_cql_type ''address'' = Inr (TUdt None ''address'' [] False)" by code_simp
  then show ?thesis using declared_types_never_convert_udts by blast
qed

end
