(* ===== verification/Cql_Schema.thy ===== *)
theory Cql_Schema
  imports Rust_Strings
begin

text \<open>
  Identifiers and table metadata: \<open>crates/cdm-cql/src/schema/identifier.rs\<close> and \<open>table.rs\<close>. Names are
  ASCII here. The code looks a reserved word up by bisection in a table that is in order, so it finds
  exactly the members of the table.
\<close>

subsection \<open>Identifiers\<close>

definition RESERVED_KEYWORDS :: "string list" where
  "RESERVED_KEYWORDS =
     [''add'', ''allow'', ''alter'', ''and'', ''apply'', ''asc'', ''authorize'', ''batch'',
      ''begin'', ''by'', ''columnfamily'', ''create'', ''default'', ''delete'', ''desc'',
      ''describe'', ''drop'', ''entries'', ''execute'', ''from'', ''full'', ''grant'', ''if'',
      ''in'', ''index'', ''infinity'', ''insert'', ''into'', ''is'', ''keyspace'', ''limit'',
      ''materialized'', ''modify'', ''nan'', ''norecursive'', ''not'', ''null'', ''of'', ''on'',
      ''or'', ''order'', ''primary'', ''rename'', ''replace'', ''revoke'', ''schema'', ''select'',
      ''set'', ''table'', ''to'', ''token'', ''truncate'', ''unlogged'', ''unset'', ''update'',
      ''use'', ''using'', ''view'', ''where'', ''with'']"

definition is_reserved :: "string \<Rightarrow> bool" where
  "is_reserved name \<longleftrightarrow> to_ascii_lowercase name \<in> set RESERVED_KEYWORDS"

definition is_ascii_lower :: "char \<Rightarrow> bool" where
  "is_ascii_lower c \<longleftrightarrow> (let n = (of_char c :: nat) in 97 \<le> n \<and> n \<le> 122)"

definition is_ascii_alphanumeric :: "char \<Rightarrow> bool" where
  "is_ascii_alphanumeric c \<longleftrightarrow>
     (let n = (of_char c :: nat) in is_digit c \<or> is_ascii_lower c \<or> 65 \<le> n \<and> n \<le> 90)"

definition needs_quoting :: "string \<Rightarrow> bool" where
  "needs_quoting name =
     (case name of
        [] \<Rightarrow> True
      | c # cs \<Rightarrow>
          \<not> ((is_ascii_lower c \<or> c = CHR ''_'')
             \<and> list_all (\<lambda>x. is_ascii_lower x \<or> is_digit x \<or> x = CHR ''_'') cs)
          \<or> is_reserved name)"

abbreviation quote_char :: char where "quote_char \<equiv> CHR 0x22"

definition already_quoted :: "string \<Rightarrow> bool" where
  "already_quoted name \<longleftrightarrow> 2 \<le> length name \<and> hd name = quote_char \<and> last name = quote_char"

definition is_quoted :: "string \<Rightarrow> bool" where
  "is_quoted name \<longleftrightarrow> already_quoted name \<and> \<not> list_ex is_ascii_space name"

definition function_head :: "string \<Rightarrow> string" where
  "function_head name = takeWhile (\<lambda>c. c \<noteq> CHR ''('') name"

definition is_function_form :: "string \<Rightarrow> bool" where
  "is_function_form name \<longleftrightarrow>
     CHR ''('' \<in> set name \<and> last name = CHR '')'' \<and> function_head name \<noteq> []
     \<and> list_all (\<lambda>c. is_ascii_alphanumeric c \<or> c = CHR ''_'') (function_head name)"

definition split_function_form :: "string \<Rightarrow> (string \<times> string) option" where
  "split_function_form name =
     (if is_function_form name
      then Some (function_head name, butlast (drop (length (function_head name) + 1) name))
      else None)"

definition quote :: "string \<Rightarrow> string" where
  "quote name = quote_char # concat (map (\<lambda>c. if c = quote_char then [c, c] else [c]) name) @ [quote_char]"

function format_name :: "string \<Rightarrow> string" where
  "format_name name =
     (if name = [] \<or> is_quoted name then name
      else case split_function_form name of
        Some (fn, argument) \<Rightarrow>
          fn @ ''('' @ (if already_quoted argument then argument else format_name argument) @ '')''
      | None \<Rightarrow> if needs_quoting name then quote name else name)"
  by pat_completeness auto
termination
  by (relation "measure length") (auto simp: split_function_form_def split: if_splits)

declare format_name.simps [simp del]

text \<open>\<open>str::replace\<close> of two quotes by one: from the left, without overlaps.\<close>

fun undouble :: "string \<Rightarrow> string" where
  "undouble (a # b # s) = (if a = quote_char \<and> b = quote_char then quote_char # undouble s else a # undouble (b # s))"
| "undouble s = s"

definition unformat :: "string \<Rightarrow> string" where
  "unformat name =
     (if name = [] then []
      else if is_quoted name then undouble (butlast (tl name))
      else if quote_char \<in> set name \<or> list_ex is_ascii_space name
      then (let trimmed = trim name in
            if already_quoted trimmed then undouble (butlast (tl trimmed)) else name)
      else name)"

definition fold_name :: "string \<Rightarrow> string" where
  "fold_name name = to_ascii_lowercase name"

definition qualified_name :: "string \<Rightarrow> string \<Rightarrow> string" where
  "qualified_name ks tbl = format_name ks @ ''.'' @ format_name tbl"

subsection \<open>Columns and tables\<close>

datatype column_kind = PartitionKey | Clustering | Static | Regular

definition parse_column_kind :: "string \<Rightarrow> column_kind" where
  "parse_column_kind kind =
     (if kind = ''partition_key'' then PartitionKey
      else if kind = ''clustering'' then Clustering
      else if kind = ''static'' then Static
      else Regular)"

definition kind_is_key :: "column_kind \<Rightarrow> bool" where
  "kind_is_key k \<longleftrightarrow> k = PartitionKey \<or> k = Clustering"

datatype clustering_order = Asc | Desc | NoOrder

definition parse_clustering_order :: "string \<Rightarrow> clustering_order" where
  "parse_clustering_order order =
     (let lower = to_ascii_lowercase order in
      if lower = ''asc'' then Asc else if lower = ''desc'' then Desc else NoOrder)"

fun clustering_as_str :: "clustering_order \<Rightarrow> string" where
  "clustering_as_str Asc = ''ASC''"
| "clustering_as_str Desc = ''DESC''"
| "clustering_as_str NoOrder = []"

record column_meta =
  cm_name :: string
  cm_type :: string
  cm_kind :: column_kind
  cm_position :: int
  cm_clustering_order :: clustering_order

definition column_quoted_name :: "column_meta \<Rightarrow> string" where
  "column_quoted_name c = format_name (cm_name c)"

definition starts_with :: "string \<Rightarrow> string \<Rightarrow> bool" where
  "starts_with p s \<longleftrightarrow> take (length p) s = p"

definition unfrozen :: "column_meta \<Rightarrow> string" where
  "unfrozen c =
     (let ty = trim (cm_type c) in
      if 8 < length ty \<and> starts_with ''frozen<'' (to_ascii_lowercase ty) \<and> last ty = CHR ''>''
      then trim (butlast (drop 7 ty)) else ty)"

definition column_is_counter :: "column_meta \<Rightarrow> bool" where
  "column_is_counter c \<longleftrightarrow> eq_ignore_ascii_case (unfrozen c) ''counter''"

definition column_is_collection :: "column_meta \<Rightarrow> bool" where
  "column_is_collection c \<longleftrightarrow>
     list_ex (\<lambda>p. starts_with p (to_ascii_lowercase (unfrozen c))) [''list<'', ''set<'', ''map<'']"

definition column_is_frozen :: "column_meta \<Rightarrow> bool" where
  "column_is_frozen c \<longleftrightarrow> starts_with ''frozen<'' (to_ascii_lowercase (trim (cm_type c)))"

definition column_is_tuple :: "column_meta \<Rightarrow> bool" where
  "column_is_tuple c \<longleftrightarrow> starts_with ''tuple<'' (to_ascii_lowercase (unfrozen c))"

definition column_is_vector :: "column_meta \<Rightarrow> bool" where
  "column_is_vector c \<longleftrightarrow> starts_with ''vector<'' (to_ascii_lowercase (unfrozen c))"

record table_schema =
  ts_keyspace :: string
  ts_table :: string
  ts_columns :: "column_meta list"
  ts_is_materialized_view :: bool

definition schema_table_ref :: "table_schema \<Rightarrow> table_ref" where
  "schema_table_ref t = TableRef (ts_keyspace t) (ts_table t)"

definition table_quoted_name :: "table_schema \<Rightarrow> string" where
  "table_quoted_name t = qualified_name (ts_keyspace t) (ts_table t)"

definition schema_column :: "table_schema \<Rightarrow> string \<Rightarrow> column_meta option" where
  "schema_column t name = List.find (\<lambda>c. cm_name c = name) (ts_columns t)"

definition of_kind :: "table_schema \<Rightarrow> column_kind \<Rightarrow> column_meta list" where
  "of_kind t k = sort_key cm_position (filter (\<lambda>c. cm_kind c = k) (ts_columns t))"

definition partition_key :: "table_schema \<Rightarrow> column_meta list" where
  "partition_key t = of_kind t PartitionKey"

definition clustering_columns :: "table_schema \<Rightarrow> column_meta list" where
  "clustering_columns t = of_kind t Clustering"

definition primary_key_columns :: "table_schema \<Rightarrow> column_meta list" where
  "primary_key_columns t = partition_key t @ clustering_columns t"

definition regular_columns :: "table_schema \<Rightarrow> column_meta list" where
  "regular_columns t = filter (\<lambda>c. \<not> kind_is_key (cm_kind c)) (ts_columns t)"

definition is_counter_table :: "table_schema \<Rightarrow> bool" where
  "is_counter_table t \<longleftrightarrow> list_ex column_is_counter (ts_columns t)"

definition reject_if_materialized_view :: "table_schema \<Rightarrow> side \<Rightarrow> unit result" where
  "reject_if_materialized_view t sd =
     (if \<not> ts_is_materialized_view t then Inr ()
      else Inl (with_context (\<lambda>c. with_table (schema_table_ref t) (with_side sd c))
        (new_error SchemaMismatch (table_quoted_name t
          @ '' is a materialized view, which cannot be a migration target: Cassandra maintains a view from its base table and rejects writes to it. Set schema.target.keyspace_table to the base table instead (SCH-010).''))))"

subsection \<open>Identifiers read back\<close>

lemma undouble_double:
  "undouble (concat (map (\<lambda>c. if c = quote_char then [c, c] else [c]) s)) = s"
proof (induction s)
  case (Cons a s)
  have cons: "undouble (a # x) = a # undouble x" if "a \<noteq> quote_char" for x
    using that by (cases x) auto
  show ?case using Cons by (cases "a = quote_char") (simp_all add: cons)
qed simp

lemma quote_props:
  "already_quoted (quote s)" "butlast (tl (quote s)) = concat (map (\<lambda>c. if c = quote_char then [c, c] else [c]) s)"
  "quote_char \<in> set (quote s)" "quote s \<noteq> []"
  by (simp_all add: quote_def already_quoted_def butlast_append)

lemma trim_quoted: "already_quoted s \<Longrightarrow> trim s = s"
  using trim_inner [of s "[]"] by (cases s) (auto simp: already_quoted_def is_ascii_space_def)

lemma unformat_quote [simp]: "unformat (quote s) = s"
  using quote_props [of s] by (simp add: unformat_def is_quoted_def trim_quoted undouble_double)

lemma plain_chars:
  assumes "\<not> needs_quoting name"
  shows "name \<noteq> []" "quote_char \<notin> set name" "\<not> list_ex is_ascii_space name"
proof -
  have "is_ascii_lower x \<or> is_digit x \<or> x = CHR ''_''" if "x \<in> set name" for x
    using assms that by (auto simp: needs_quoting_def list_all_iff split: list.splits)
  moreover have "\<not> is_ascii_space x \<and> x \<noteq> quote_char" if "is_ascii_lower x \<or> is_digit x \<or> x = CHR ''_''" for x
    using that by (auto simp: is_ascii_lower_def is_digit_def is_ascii_space_def Let_def)
  ultimately show "quote_char \<notin> set name" "\<not> list_ex is_ascii_space name"
    by (auto simp: list_ex_iff)
  show "name \<noteq> []" using assms by (auto simp: needs_quoting_def)
qed

text \<open>
  A name written into a statement is read back as itself: for every internal name that is not
  already spelled with quotes and does not have the form of a function call, \<open>unformat\<close> of \<open>format\<close> is
  the name, whatever characters it holds, embedded quotes and white space included.
\<close>

theorem format_unformat:
  assumes "\<not> is_quoted name" "\<not> is_function_form name"
  shows "unformat (format_name name) = name"
proof (cases "needs_quoting name \<and> name \<noteq> []")
  case True
  then have "format_name name = quote name"
    using assms by (simp add: format_name.simps [of name] split_function_form_def)
  then show ?thesis by simp
next
  case False
  then have "format_name name = name"
    using assms by (auto simp: format_name.simps [of name] split_function_form_def)
  then show ?thesis using assms False plain_chars [of name] by (auto simp: unformat_def is_quoted_def)
qed

theorem format_unformat_witness:
  "unformat (format_name ''My Col'') = ''My Col'' \<and> unformat (format_name ''order'') = ''order''"
  using format_unformat [of "''My Col''"] format_unformat [of "''order''"]
  by (simp add: is_quoted_def already_quoted_def is_function_form_def)

lemma of_kind_mset: "mset (of_kind t k) = mset (filter (\<lambda>c. cm_kind c = k) (ts_columns t))"
  by (simp add: of_kind_def)

lemma primary_key_mset: "mset (primary_key_columns t) = mset (filter (\<lambda>c. kind_is_key (cm_kind c)) (ts_columns t))"
proof -
  have split: "mset (filter (\<lambda>c. kind_is_key (cm_kind c)) xs)
      = mset (filter (\<lambda>c. cm_kind c = PartitionKey) xs) + mset (filter (\<lambda>c. cm_kind c = Clustering) xs)" for xs
    by (induction xs) (auto simp: kind_is_key_def)
  show ?thesis
    unfolding split by (simp add: primary_key_columns_def partition_key_def clustering_columns_def of_kind_mset)
qed

lemma primary_key_set: "set (primary_key_columns t) = {c \<in> set (ts_columns t). kind_is_key (cm_kind c)}"
  using mset_eq_set_eq [OF primary_key_mset [of t]] by auto

end
