(* ===== verification/Cql_Statement.thy ===== *)
theory Cql_Statement
  imports Cql_Schema Codec_Plan
begin

text \<open>
  The generated statements: \<open>crates/cdm-cql/src/statement/mapping.rs\<close>, \<open>projection.rs\<close>, \<open>select.rs\<close> and
  \<open>upsert.rs\<close>. The column mapping decides where each target column's value comes from; the statements
  are built from it, with the order of their bind markers as a list of slots.

  The lemmas show that a resolved mapping points into the origin projection and leaves no component of
  the target key without a source, that the slots of the write bind every column that is not a constant
  exactly once, that the text of a statement has one marker per slot, and that a token bound is
  serialized as the shortest encoding of its value.
\<close>

subsection \<open>Joining fragments\<close>

text \<open>\<open>join\<close> of \<open>mod.rs\<close> puts a comma only after text; \<open>slice::join\<close> is \<open>join_strings\<close>.\<close>

definition join :: "string list \<Rightarrow> string" where
  "join parts = foldl (\<lambda>out part. (if out = [] then [] else out @ '','') @ part) [] parts"

subsection \<open>Column mapping\<close>

datatype target_source =
    FromOrigin usize | Constant string | ExplodeKey | ExplodeValue | ExtractJson usize | Absent

fun is_bound :: "target_source \<Rightarrow> bool" where
  "is_bound (Constant _) = False"
| "is_bound _ = True"

record mapping_options =
  mo_rename :: "string list"
  mo_skip :: "string list"
  mo_constants :: "(string \<times> string) list"
  mo_explode_map :: "(string \<times> string \<times> string) option"
  mo_extract_json :: "(string \<times> string) option"

record column_mapping =
  cmap_origin :: "column_meta list"
  cmap_target :: "column_meta list"
  cmap_sources :: "target_source list"
  cmap_origin_table :: table_schema
  cmap_target_table :: table_schema

definition named :: "string \<Rightarrow> column_meta \<Rightarrow> bool" where
  "named name c \<longleftrightarrow> cm_name c = name"

definition list_get :: "'a list \<Rightarrow> usize \<Rightarrow> 'a option" where
  "list_get xs i = (if i < length xs then Some (xs ! i) else None)"

definition mapping_source :: "column_mapping \<Rightarrow> usize \<Rightarrow> target_source option" where
  "mapping_source m i = list_get (cmap_sources m) i"

definition source_of :: "column_mapping \<Rightarrow> string \<Rightarrow> target_source option" where
  "source_of m name = (case position_of (named name) (cmap_target m) of
     None \<Rightarrow> None | Some i \<Rightarrow> mapping_source m i)"

definition origin_index_of :: "column_mapping \<Rightarrow> string \<Rightarrow> usize option" where
  "origin_index_of m name = position_of (named name) (cmap_origin m)"

definition target_is_counter :: "column_mapping \<Rightarrow> bool" where
  "target_is_counter m = is_counter_table (cmap_target_table m)"

definition column_context :: "side \<Rightarrow> table_schema \<Rightarrow> string \<Rightarrow> cdm_error \<Rightarrow> cdm_error" where
  "column_context sd t name =
     with_context (\<lambda>c. with_column name (with_table (schema_table_ref t) (with_side sd c)))"

fun check_skipped :: "table_schema \<Rightarrow> string list \<Rightarrow> unit result" where
  "check_skipped t [] = Inr ()"
| "check_skipped t (name # rest) =
     (case schema_column t name of
        Some column \<Rightarrow>
          (if kind_is_key (cm_kind column)
           then Inl (column_context Origin t name (new_error Config
             (''schema.origin.column.skip names `'' @ name @ ''`, which is a primary-key column of ''
              @ table_quoted_name t @ '': a row cannot be identified without it (SCH-004).'')))
           else check_skipped t rest)
      | None \<Rightarrow> Inl (column_context Origin t name (new_error Config
             (''schema.origin.column.skip names `'' @ name @ ''`, which is not a column of ''
              @ table_quoted_name t @ '' (SCH-004).''))))"

definition project_origin :: "table_schema \<Rightarrow> string list \<Rightarrow> column_meta list result" where
  "project_origin t skip =
     (let skipped = filter (\<lambda>name. name \<noteq> []) (map (\<lambda>name. unformat (trim name)) skip) in
      bindR (check_skipped t skipped) (\<lambda>_.
        Inr (filter (\<lambda>c. cm_name c \<notin> set skipped) (ts_columns t))))"

definition dangling_rename :: "string \<Rightarrow> string \<Rightarrow> side \<Rightarrow> table_schema \<Rightarrow> cdm_error" where
  "dangling_rename entry column sd target =
     column_context sd target column (new_error Config
       (''schema.origin.column.rename entry `'' @ entry @ ''` names `'' @ column
        @ ''`, which is not a column of the '' @ side_as_str sd @ '' table (SCH-003).''))"

text \<open>\<open>splitn(2, ':')\<close>: the text before the first colon and, if there is one, all the text after it.\<close>

definition parse_rename ::
  "column_meta list \<Rightarrow> table_schema \<Rightarrow> string \<Rightarrow> (string \<times> string) option result" where
  "parse_rename origin target raw =
     (let entry = trim raw;
          left = trim (takeWhile (\<lambda>c. c \<noteq> CHR '':'') entry);
          right = trim (tl (dropWhile (\<lambda>c. c \<noteq> CHR '':'') entry)) in
      if entry = [] then Inr None
      else if left = [] \<or> right = [] then
        Inl (new_error Config (''schema.origin.column.rename entry `'' @ entry
          @ ''` is mis-configured: it must be written `origin_name:target_name` with both sides present (SCH-003).''))
      else let origin_name = unformat left; target_name = unformat right in
        if \<not> list_ex (named origin_name) origin then Inl (dangling_rename entry origin_name Origin target)
        else if schema_column target target_name = None
        then Inl (dangling_rename entry target_name Target target)
        else Inr (Some (origin_name, target_name)))"

fun parse_renames ::
  "column_meta list \<Rightarrow> table_schema \<Rightarrow> string list \<Rightarrow> (string \<times> string) list result" where
  "parse_renames origin target [] = Inr []"
| "parse_renames origin target (entry # rest) =
     bindR (parse_rename origin target entry) (\<lambda>pair.
     bindR (parse_renames origin target rest) (\<lambda>pairs.
       Inr (case pair of None \<Rightarrow> pairs | Some p \<Rightarrow> p # pairs)))"

text \<open>Explode key, explode value, extracted document, constant, renamed column, column of the same name.\<close>

definition column_source :: "column_meta \<Rightarrow> column_meta list \<Rightarrow> (string \<times> string) list \<Rightarrow> target_source" where
  "column_source column origin renames =
     (let identity = (case position_of (named (cm_name column)) origin of
                        Some i \<Rightarrow> FromOrigin i | None \<Rightarrow> Absent) in
      case List.find (\<lambda>(_, to). to = cm_name column) renames of
        Some (origin_name, _) \<Rightarrow>
          (case position_of (named origin_name) origin of Some i \<Rightarrow> FromOrigin i | None \<Rightarrow> identity)
      | None \<Rightarrow> identity)"

definition constant_source :: "column_meta \<Rightarrow> mapping_options \<Rightarrow> target_source option" where
  "constant_source column options =
     map_option (\<lambda>(_, literal). Constant literal)
       (List.find (\<lambda>(name, _). unformat name = cm_name column) (mo_constants options))"

definition json_source :: "column_meta \<Rightarrow> column_meta list \<Rightarrow> mapping_options \<Rightarrow> target_source option" where
  "json_source column origin options =
     (case mo_extract_json options of
        Some (document, extracted) \<Rightarrow>
          (if unformat extracted = cm_name column
           then Some (case position_of (named (unformat document)) origin of
                        Some i \<Rightarrow> ExtractJson i | None \<Rightarrow> Absent)
           else None)
      | None \<Rightarrow> None)"

definition explode_source :: "column_meta \<Rightarrow> mapping_options \<Rightarrow> target_source option" where
  "explode_source column options =
     (case mo_explode_map options of
        Some (_, key, val) \<Rightarrow>
          (if unformat key = cm_name column then Some ExplodeKey
           else if unformat val = cm_name column then Some ExplodeValue else None)
      | None \<Rightarrow> None)"

definition source_for ::
  "column_meta \<Rightarrow> column_meta list \<Rightarrow> (string \<times> string) list \<Rightarrow> mapping_options \<Rightarrow> target_source" where
  "source_for column origin renames options =
     (case explode_source column options of Some s \<Rightarrow> s | None \<Rightarrow>
       (case json_source column origin options of Some s \<Rightarrow> s | None \<Rightarrow>
         (case constant_source column options of Some s \<Rightarrow> s | None \<Rightarrow>
           column_source column origin renames)))"

fun check_derivable :: "column_mapping \<Rightarrow> column_meta list \<Rightarrow> unit result" where
  "check_derivable m [] = Inr ()"
| "check_derivable m (column # rest) =
     (if source_of m (cm_name column) \<notin> {Some Absent, None} then check_derivable m rest
      else Inl (column_context Target (cmap_target_table m) (cm_name column) (new_error SchemaMismatch
        (''target primary-key column `'' @ cm_name column @ ''` of '' @ table_quoted_name (cmap_target_table m)
         @ '' has no source: no origin column maps to it, no constant column supplies it and the explode map does not produce it. Map an origin column with schema.origin.column.rename, or supply it with feature.constant_columns (SCH-006).''))))"

definition check_primary_key_is_derivable :: "column_mapping \<Rightarrow> unit result" where
  "check_primary_key_is_derivable m = check_derivable m (primary_key_columns (cmap_target_table m))"

definition resolve_mapping :: "table_schema \<Rightarrow> table_schema \<Rightarrow> mapping_options \<Rightarrow> column_mapping result" where
  "resolve_mapping origin_table target_table options =
     bindR (project_origin origin_table (mo_skip options)) (\<lambda>origin.
     bindR (parse_renames origin target_table (mo_rename options)) (\<lambda>renames.
       (let mapping = \<lparr>cmap_origin = origin, cmap_target = ts_columns target_table,
              cmap_sources = map (\<lambda>c. source_for c origin renames options) (ts_columns target_table),
              cmap_origin_table = origin_table, cmap_target_table = target_table\<rparr> in
        bindR (check_primary_key_is_derivable mapping) (\<lambda>_. Inr mapping))))"

subsection \<open>Projection and reads\<close>

record origin_projection =
  op_entries :: "string list"
  op_base_columns :: usize

definition new_projection :: "column_meta list \<Rightarrow> string list \<Rightarrow> origin_projection" where
  "new_projection columns virtual_expressions =
     \<lparr>op_entries = map column_quoted_name columns @ map format_name virtual_expressions,
      op_base_columns = length columns\<rparr>"

definition projection_cql :: "origin_projection \<Rightarrow> string" where
  "projection_cql p = join (op_entries p)"

definition projection_width :: "origin_projection \<Rightarrow> usize" where
  "projection_width p = length (op_entries p)"

definition projection_is_empty :: "origin_projection \<Rightarrow> bool" where
  "projection_is_empty p \<longleftrightarrow> op_entries p = []"

definition virtual_index :: "origin_projection \<Rightarrow> usize \<Rightarrow> usize option" where
  "virtual_index p nth_virtual =
     (let index = op_base_columns p + nth_virtual in
      if u64_max < index then None else if index < length (op_entries p) then Some index else None)"

datatype token_bound = Murmur3Bound i64 | RandomBound i128

fun bound_token :: "token_bound \<Rightarrow> int" where
  "bound_token (Murmur3Bound t) = t"
| "bound_token (RandomBound t) = t"

text \<open>The loop over \<open>start\<close>, as the bytes from \<open>start\<close> on.\<close>

fun strip_filler :: "byte \<Rightarrow> byte list \<Rightarrow> byte list" where
  "strip_filler sign (b # c # rest) =
     (if b = sign \<and> (128 \<le> uint c) = (sign = 255) then strip_filler sign (c # rest) else b # c # rest)"
| "strip_filler sign bs = bs"

fun serialized :: "token_bound \<Rightarrow> byte list" where
  "serialized (Murmur3Bound t) = be_bytes 8 t"
| "serialized (RandomBound t) = strip_filler (if t < 0 then 255 else 0) (be_bytes 16 t)"

definition origin_range_select ::
  "table_schema \<Rightarrow> origin_projection \<Rightarrow> string option \<Rightarrow> bool \<Rightarrow> string" where
  "origin_range_select t projection cql_where compat_java =
     (let pk = join (map column_quoted_name (partition_key t));
          filt = (case cql_where of None \<Rightarrow> [] | Some w \<Rightarrow> w);
          allow_filtering = (if compat_java \<or> trim filt \<noteq> [] then '' ALLOW FILTERING'' else []) in
      ''SELECT '' @ projection_cql projection @ '' FROM '' @ table_quoted_name t @ '' WHERE TOKEN('' @ pk
      @ '') >= ? AND TOKEN('' @ pk @ '') <= ?'' @ filt @ allow_filtering)"

definition range_binds :: "token_bound \<Rightarrow> token_bound \<Rightarrow> token_bound list" where
  "range_binds lo hi = [lo, hi]"

definition origin_select_by_pk :: "table_schema \<Rightarrow> origin_projection \<Rightarrow> string" where
  "origin_select_by_pk t projection =
     ''SELECT '' @ projection_cql projection @ '' FROM '' @ table_quoted_name t @ '' WHERE ''
     @ join_strings '' AND '' (map (\<lambda>c. column_quoted_name c @ ''=?'') (primary_key_columns t))"

fun is_key_source :: "target_source \<Rightarrow> bool" where
  "is_key_source Absent = False"
| "is_key_source _ = True"

fun where_terms :: "column_mapping \<Rightarrow> column_meta list \<Rightarrow> (string list \<times> string list) result" where
  "where_terms m [] = Inr ([], [])"
| "where_terms m (column # rest) =
     (let missing = Inl (column_context Target (cmap_target_table m) (cm_name column) (new_error SchemaMismatch
            (''target primary-key column `'' @ cm_name column @ ''` of '' @ table_quoted_name (cmap_target_table m)
             @ '' has no source, so no WHERE clause can identify the row (SCH-006).''))) in
      case source_of m (cm_name column) of
        Some (Constant literal) \<Rightarrow>
          bindR (where_terms m rest) (\<lambda>(terms, bound).
            Inr ((column_quoted_name column @ ''='' @ literal) # terms, bound))
      | Some source \<Rightarrow>
          (if is_key_source source
           then bindR (where_terms m rest) (\<lambda>(terms, bound).
                  Inr ((column_quoted_name column @ ''=?'') # terms, cm_name column # bound))
           else missing)
      | None \<Rightarrow> missing)"

definition where_clause :: "column_mapping \<Rightarrow> (string \<times> string list) result" where
  "where_clause m =
     bindR (where_terms m (primary_key_columns (cmap_target_table m))) (\<lambda>(terms, bound).
       Inr (join_strings '' AND '' terms, bound))"

record target_select =
  tsel_cql :: string
  tsel_bound_key_columns :: "string list"

definition target_select_by_pk :: "column_mapping \<Rightarrow> target_select result" where
  "target_select_by_pk m =
     bindR (where_clause m) (\<lambda>(predicate, bound_key_columns).
       Inr \<lparr>tsel_cql = ''SELECT '' @ join (map column_quoted_name (ts_columns (cmap_target_table m))) @ '' FROM ''
              @ table_quoted_name (cmap_target_table m) @ '' WHERE '' @ predicate,
            tsel_bound_key_columns = bound_key_columns\<rparr>)"

subsection \<open>The target write\<close>

record using_clause =
  us_ttl :: bool
  us_timestamp :: bool

definition using_is_empty :: "using_clause \<Rightarrow> bool" where
  "using_is_empty u \<longleftrightarrow> \<not> us_ttl u \<and> \<not> us_timestamp u"

definition show_using :: "using_clause \<Rightarrow> string" where
  "show_using u =
     (case (us_ttl u, us_timestamp u) of
        (False, False) \<Rightarrow> []
      | (True, False) \<Rightarrow> '' USING TTL ?''
      | (False, True) \<Rightarrow> '' USING TIMESTAMP ?''
      | (True, True) \<Rightarrow> '' USING TTL ? AND TIMESTAMP ?'')"

datatype bind_slot = SlotColumn usize | SlotTtl | SlotWritetime | SlotKeyColumn usize

record target_upsert =
  tu_cql :: string
  tu_counter :: bool
  tu_using :: using_clause
  tu_slots :: "bind_slot list"

definition is_constant_at :: "column_mapping \<Rightarrow> usize \<Rightarrow> bool" where
  "is_constant_at m i \<longleftrightarrow> (case mapping_source m i of Some (Constant _) \<Rightarrow> True | _ \<Rightarrow> False)"

definition constant_at :: "column_mapping \<Rightarrow> usize \<Rightarrow> string" where
  "constant_at m i = (case mapping_source m i of Some (Constant literal) \<Rightarrow> literal | _ \<Rightarrow> [])"

definition using_slots :: "using_clause \<Rightarrow> bind_slot list" where
  "using_slots u = (if us_ttl u then [SlotTtl] else []) @ (if us_timestamp u then [SlotWritetime] else [])"

text \<open>The two halves of a list of columns or values: the bound entries, then the constant ones.\<close>

definition comma_append :: "string \<Rightarrow> string list \<Rightarrow> string" where
  "comma_append front parts = (if parts = [] then front else (if front = [] then [] else front @ '','') @ join parts)"

definition upsert_insert :: "column_mapping \<Rightarrow> using_clause \<Rightarrow> target_upsert" where
  "upsert_insert m u =
     (let indices = [0..<length (cmap_target m)];
          bound = filter (\<lambda>i. \<not> is_constant_at m i) indices;
          constants = filter (is_constant_at m) indices;
          name = (\<lambda>i. column_quoted_name (cmap_target m ! i));
          vals = comma_append (join_strings '','' (replicate (length bound) ''?'')) (map (constant_at m) constants);
          cols = comma_append (join (map name bound)) (map name constants) in
      \<lparr>tu_cql = ''INSERT INTO '' @ table_quoted_name (cmap_target_table m) @ '' ('' @ cols @ '') VALUES ('' @ vals
         @ '')'' @ show_using u,
       tu_counter = False, tu_using = u, tu_slots = map SlotColumn bound @ using_slots u\<rparr>)"

definition assignment :: "column_mapping \<Rightarrow> usize \<Rightarrow> string" where
  "assignment m i =
     (let column = cmap_target m ! i; name = column_quoted_name column in
      if is_constant_at m i then name @ ''='' @ constant_at m i
      else if column_is_counter column then name @ ''='' @ name @ ''+?''
      else name @ ''=?'')"

definition key_slot :: "column_mapping \<Rightarrow> column_meta \<Rightarrow> bind_slot list" where
  "key_slot m column =
     (case position_of (named (cm_name column)) (cmap_target m) of
        None \<Rightarrow> []
      | Some i \<Rightarrow> if is_constant_at m i then [] else [SlotKeyColumn i])"

definition key_slots :: "column_mapping \<Rightarrow> bind_slot list" where
  "key_slots m = concat (map (key_slot m) (primary_key_columns (cmap_target_table m)))"

definition upsert_update :: "column_mapping \<Rightarrow> using_clause \<Rightarrow> target_upsert result" where
  "upsert_update m u =
     (let assigned = filter (\<lambda>i. \<not> kind_is_key (cm_kind (cmap_target m ! i))) [0..<length (cmap_target m)] in
      if assigned = [] then
        Inl (with_context (\<lambda>c. with_table (schema_table_ref (cmap_target_table m)) (with_side Target c))
          (new_error SchemaMismatch (''the counter table '' @ table_quoted_name (cmap_target_table m)
            @ '' has no non-key column to update, so the generated statement would write nothing (SCH-005).'')))
      else bindR (where_clause m) (\<lambda>(predicate, _).
        Inr \<lparr>tu_cql = ''UPDATE '' @ table_quoted_name (cmap_target_table m) @ show_using u @ '' SET ''
               @ join_strings '','' (map (assignment m) assigned) @ '' WHERE '' @ predicate,
             tu_counter = True, tu_using = u,
             tu_slots = using_slots u
               @ map SlotColumn (filter (\<lambda>i. \<not> is_constant_at m i) assigned) @ key_slots m\<rparr>))"

definition new_upsert :: "column_mapping \<Rightarrow> using_clause \<Rightarrow> target_upsert result" where
  "new_upsert m u = (if target_is_counter m then upsert_update m u else Inr (upsert_insert m u))"

definition bind_count :: "target_upsert \<Rightarrow> usize" where
  "bind_count u = length (tu_slots u)"

fun slot_index :: "bind_slot \<Rightarrow> usize option" where
  "slot_index (SlotColumn i) = Some i"
| "slot_index (SlotKeyColumn i) = Some i"
| "slot_index _ = None"

definition bind_position :: "target_upsert \<Rightarrow> usize \<Rightarrow> usize option" where
  "bind_position u target_index = position_of (\<lambda>s. slot_index s = Some target_index) (tu_slots u)"

subsection \<open>Lookups by position\<close>

lemma position_of_SomeD: "position_of P xs = Some i \<Longrightarrow> i < length xs \<and> P (xs ! i)"
  by (auto simp: position_of_def find_Some_iff)

lemma position_of_None_iff: "position_of P xs = None \<longleftrightarrow> (\<forall>x \<in> set xs. \<not> P x)"
  by (auto simp: position_of_def find_None_iff all_set_conv_all_nth)

lemma position_of_distinct:
  assumes "distinct (map cm_name xs)" "i < length xs"
  shows "position_of (named (cm_name (xs ! i))) xs = Some i"
proof (cases "position_of (named (cm_name (xs ! i))) xs")
  case None
  then show ?thesis using assms(2) by (auto simp: position_of_None_iff named_def)
next
  case (Some j)
  then have "j < length xs" "cm_name (xs ! j) = cm_name (xs ! i)"
    using position_of_SomeD [OF Some] by (auto simp: named_def)
  then show ?thesis
    using assms Some nth_eq_iff_index_eq [of "map cm_name xs" j i] by simp
qed

subsection \<open>A resolved mapping\<close>

fun points_into :: "usize \<Rightarrow> target_source \<Rightarrow> bool" where
  "points_into width (FromOrigin i) = (i < width)"
| "points_into width (ExtractJson i) = (i < width)"
| "points_into width _ = True"

lemma source_for_points_into: "points_into (length origin) (source_for c origin renames options)"
  by (auto simp: source_for_def explode_source_def json_source_def constant_source_def column_source_def Let_def
      split: option.split dest!: position_of_SomeD)

lemma check_derivable_iff:
  "check_derivable m cs = Inr () \<longleftrightarrow>
     (\<forall>c \<in> set cs. \<exists>s. source_of m (cm_name c) = Some s \<and> s \<noteq> Absent)"
  by (induction cs) auto

lemma check_skipped_iff:
  "check_skipped t names = Inr () \<longleftrightarrow>
     (\<forall>n \<in> set names. \<exists>c. schema_column t n = Some c \<and> \<not> kind_is_key (cm_kind c))"
  by (induction names) (auto split: option.splits)

lemma project_originD:
  assumes "project_origin t skip = Inr origin" "distinct (map cm_name (ts_columns t))"
    and "c \<in> set (ts_columns t)" "kind_is_key (cm_kind c)"
  shows "c \<in> set origin"
proof -
  let ?skipped = "filter (\<lambda>name. name \<noteq> []) (map (\<lambda>name. unformat (trim name)) skip)"
  have ok: "check_skipped t ?skipped = Inr ()"
    and origin: "origin = filter (\<lambda>c. cm_name c \<notin> set ?skipped) (ts_columns t)"
    using assms(1) by (auto simp: project_origin_def Let_def bindR_Inr_iff)
  have "cm_name c \<notin> set ?skipped"
  proof
    assume "cm_name c \<in> set ?skipped"
    then obtain d where d: "schema_column t (cm_name c) = Some d" "\<not> kind_is_key (cm_kind d)"
      using ok unfolding check_skipped_iff by blast
    then have "d \<in> set (ts_columns t)" "cm_name d = cm_name c"
      by (auto simp: schema_column_def find_Some_iff)
    then have "d = c" using assms(2,3) by (auto simp: distinct_map dest: inj_onD)
    then show False using d assms(4) by simp
  qed
  then show ?thesis using assms(3) by (simp add: origin)
qed

lemma resolve_mappingD:
  assumes "resolve_mapping o_table t_table options = Inr m"
  shows "cmap_target m = ts_columns t_table" "cmap_target_table m = t_table" "cmap_origin_table m = o_table"
    "length (cmap_sources m) = length (cmap_target m)"
    "list_all (points_into (length (cmap_origin m))) (cmap_sources m)"
    "project_origin o_table (mo_skip options) = Inr (cmap_origin m)"
    "check_primary_key_is_derivable m = Inr ()"
  using assms
  by (auto simp: resolve_mapping_def Let_def bindR_Inr_iff list_all_iff source_for_points_into)

text \<open>
  A mapping that resolves is safe to migrate with (SCH-004, SCH-006): every target column has a
  source, every source that reads the origin row points into the projection, every component of the
  target primary key has a source other than nothing, and the skip list has left every key column of
  the origin in the projection.
\<close>

theorem resolved_mapping_derives_keys:
  assumes "resolve_mapping o_table t_table options = Inr m" "distinct (map cm_name (ts_columns o_table))"
  shows "length (cmap_sources m) = length (ts_columns t_table)
    \<and> list_all (points_into (length (cmap_origin m))) (cmap_sources m)
    \<and> (\<forall>c \<in> set (primary_key_columns t_table). \<exists>s. source_of m (cm_name c) = Some s \<and> s \<noteq> Absent)
    \<and> set (primary_key_columns o_table) \<subseteq> set (cmap_origin m)"
proof -
  note m = resolve_mappingD [OF assms(1)]
  have "\<forall>c \<in> set (primary_key_columns t_table). \<exists>s. source_of m (cm_name c) = Some s \<and> s \<noteq> Absent"
    using m(7) by (simp add: check_primary_key_is_derivable_def check_derivable_iff m(2))
  moreover have "set (primary_key_columns o_table) \<subseteq> set (cmap_origin m)"
    using project_originD [OF m(6) assms(2)] by (auto simp: primary_key_set)
  ultimately show ?thesis using m by simp
qed

definition demo_column :: "string \<Rightarrow> string \<Rightarrow> column_kind \<Rightarrow> column_meta" where
  "demo_column name ty kind =
     \<lparr>cm_name = name, cm_type = ty, cm_kind = kind, cm_position = 0, cm_clustering_order = NoOrder\<rparr>"

definition demo_table :: "column_meta list \<Rightarrow> table_schema" where
  "demo_table cs = \<lparr>ts_keyspace = ''ks'', ts_table = ''t'', ts_columns = cs, ts_is_materialized_view = False\<rparr>"

definition demo_options :: mapping_options where
  "demo_options = \<lparr>mo_rename = [''a:b''], mo_skip = [''v''], mo_constants = [(''region'', ''1'')],
     mo_explode_map = None, mo_extract_json = None\<rparr>"

definition demo_origin :: table_schema where
  "demo_origin = demo_table [demo_column ''a'' ''int'' PartitionKey, demo_column ''v'' ''text'' Regular,
     demo_column ''w'' ''text'' Regular]"

definition demo_target :: table_schema where
  "demo_target = demo_table [demo_column ''b'' ''int'' PartitionKey, demo_column ''region'' ''int'' Clustering,
     demo_column ''v'' ''text'' Regular, demo_column ''w'' ''text'' Regular]"

definition demo_mapping :: column_mapping where
  "demo_mapping = \<lparr>cmap_origin = [demo_column ''a'' ''int'' PartitionKey, demo_column ''w'' ''text'' Regular],
     cmap_target = ts_columns demo_target,
     cmap_sources = [FromOrigin 0, Constant ''1'', Absent, FromOrigin 1],
     cmap_origin_table = demo_origin, cmap_target_table = demo_target\<rparr>"

lemma demo_resolves: "resolve_mapping demo_origin demo_target demo_options = Inr demo_mapping"
  by code_simp

theorem resolved_mapping_derives_keys_witness:
  "\<exists>s. source_of demo_mapping ''region'' = Some s \<and> s \<noteq> Absent"
  using resolved_mapping_derives_keys [OF demo_resolves]
  by (simp add: demo_origin_def demo_target_def demo_table_def demo_column_def primary_key_columns_def partition_key_def
      clustering_columns_def of_kind_def)

subsection \<open>Slots\<close>

lemma filter_index: "length (filter (\<lambda>j. j = i) (filter Q [0..<n])) = (if i < n \<and> Q i then 1 else 0)"
  by (induction n) (auto simp: less_Suc_eq)

lemma using_slots_no_column [simp]: "filter (\<lambda>s. slot_index s = Some i) (using_slots u) = []"
  by (auto simp: using_slots_def)

lemma mset_concat_cong: "mset xs = mset ys \<Longrightarrow> mset (concat (map f xs)) = mset (concat (map f ys))"
  by (metis mset_concat mset_map sum_mset_sum_list)

lemma key_slots_mset:
  assumes "cmap_target m = ts_columns (cmap_target_table m)" "distinct (map cm_name (cmap_target m))"
  shows "mset (key_slots m) = mset (map SlotKeyColumn
    (filter (\<lambda>i. kind_is_key (cm_kind (cmap_target m ! i)) \<and> \<not> is_constant_at m i) [0..<length (cmap_target m)]))"
proof -
  let ?cs = "cmap_target m" and ?key = "\<lambda>c. kind_is_key (cm_kind c)"
  have idx: "filter ?key ?cs = map (\<lambda>i. ?cs ! i) (filter (\<lambda>i. ?key (?cs ! i)) [0..<length ?cs])"
    using filter_map [of ?key "\<lambda>i. ?cs ! i" "[0..<length ?cs]"] by (simp add: map_nth comp_def)
  have slot: "key_slot m (?cs ! i) = (if is_constant_at m i then [] else [SlotKeyColumn i])" if "i < length ?cs" for i
    using position_of_distinct [OF assms(2) that] by (simp add: key_slot_def)
  have "concat (map (key_slot m) (map (\<lambda>i. ?cs ! i) is)) = map SlotKeyColumn (filter (\<lambda>i. \<not> is_constant_at m i) is)"
    if "set is \<subseteq> {..<length ?cs}" for "is"
    using that by (induction "is") (auto simp: slot)
  moreover have "mset (key_slots m) = mset (concat (map (key_slot m) (filter ?key ?cs)))"
    unfolding key_slots_def using primary_key_mset assms(1) by (intro mset_concat_cong) simp
  ultimately show ?thesis
    unfolding idx by (simp add: filter_filter conj_commute subset_iff)
qed

lemma slots_of_index:
  "length (filter (\<lambda>s. slot_index s = Some i) (map SlotColumn (filter Q [0..<n]))) = (if i < n \<and> Q i then 1 else 0)"
  "length (filter (\<lambda>s. slot_index s = Some i) (map SlotKeyColumn (filter Q [0..<n]))) = (if i < n \<and> Q i then 1 else 0)"
  unfolding filter_index [symmetric] by (simp_all add: filter_map comp_def)

lemma mset_eq_length_filter: "mset xs = mset ys \<Longrightarrow> length (filter P xs) = length (filter P ys)"
  by (metis mset_filter size_mset)

lemma key_slots_of_index:
  assumes "cmap_target m = ts_columns (cmap_target_table m)" "distinct (map cm_name (cmap_target m))" "i < length (cmap_target m)"
  shows "length (filter (\<lambda>s. slot_index s = Some i) (key_slots m))
    = (if kind_is_key (cm_kind (cmap_target m ! i)) \<and> \<not> is_constant_at m i then 1 else 0)"
  unfolding mset_eq_length_filter [OF key_slots_mset [OF assms(1,2)]]
  using assms(3) by (simp add: slots_of_index del: length_filter_map)

lemma insert_slots: "tu_slots (upsert_insert m u) =
    map SlotColumn (filter (\<lambda>i. \<not> is_constant_at m i) [0..<length (cmap_target m)]) @ using_slots u"
  by (simp add: upsert_insert_def Let_def)

lemma update_slots:
  assumes "upsert_update m u = Inr up"
  shows "tu_slots up = using_slots u
    @ map SlotColumn (filter (\<lambda>i. \<not> kind_is_key (cm_kind (cmap_target m ! i)) \<and> \<not> is_constant_at m i) [0..<length (cmap_target m)])
    @ key_slots m"
  using assms by (auto simp: upsert_update_def Let_def bindR_Inr_iff filter_filter conj_commute split: if_splits)

lemma slot_kinds:
  "count_list (using_slots u) SlotTtl = of_bool (us_ttl u)"
  "count_list (using_slots u) SlotWritetime = of_bool (us_timestamp u)"
  "slot_index s = None \<Longrightarrow> count_list (map SlotColumn js) s = 0"
  "slot_index s = None \<Longrightarrow> count_list (key_slots m) s = 0"
  by (auto simp: using_slots_def count_list_0_iff key_slots_def key_slot_def split: option.splits if_splits)

lemma upsert_slots:
  assumes "resolve_mapping o_table t_table options = Inr m" "distinct (map cm_name (ts_columns t_table))"
    and "new_upsert m u = Inr up" "i < length (ts_columns t_table)"
  shows "length (filter (\<lambda>s. slot_index s = Some i) (tu_slots up)) = (if is_constant_at m i then 0 else 1)" (is ?once)
    "count_list (tu_slots up) SlotTtl = of_bool (us_ttl u)" (is ?ttl)
    "count_list (tu_slots up) SlotWritetime = of_bool (us_timestamp u)" (is ?wt)
proof -
  note m = resolve_mappingD(1,2) [OF assms(1)]
  have i: "i < length (cmap_target m)" "distinct (map cm_name (cmap_target m))" using assms m by simp_all
  have "?once \<and> ?ttl \<and> ?wt"
  proof (cases "target_is_counter m")
    case True
    then have "upsert_update m u = Inr up" using assms(3) by (simp add: new_upsert_def)
    note slots = update_slots [OF this]
    show ?thesis using key_slots_of_index [of m i] m i
      by (simp add: slots slots_of_index slot_kinds count_list_append del: length_filter_map)
  next
    case False
    then have "up = upsert_insert m u" using assms(3) by (simp add: new_upsert_def)
    then show ?thesis using i by (simp add: insert_slots slots_of_index slot_kinds count_list_append del: length_filter_map)
  qed
  then show ?once ?ttl ?wt by simp_all
qed

text \<open>
  The write binds every target column exactly once: whatever mapping and USING clause it is
  generated from, a column that is not a constant has one bind slot, a constant column has none, and
  the TTL and the writetime have a slot each exactly when the clause carries them. This holds for the
  INSERT and for the counter UPDATE, where key columns are bound in the WHERE clause.
\<close>

theorem upsert_binds_columns_once:
  assumes "resolve_mapping o_table t_table options = Inr m" "distinct (map cm_name (ts_columns t_table))"
    and "new_upsert m u = Inr up" "i < length (ts_columns t_table)"
  shows "length (filter (\<lambda>s. slot_index s = Some i) (tu_slots up)) = (if is_constant_at m i then 0 else 1)
    \<and> count_list (tu_slots up) SlotTtl = of_bool (us_ttl u)
    \<and> count_list (tu_slots up) SlotWritetime = of_bool (us_timestamp u)"
  using upsert_slots [OF assms] by simp

definition ttl_only :: using_clause where
  "ttl_only = \<lparr>us_ttl = True, us_timestamp = False\<rparr>"

theorem upsert_binds_columns_once_witness:
  "\<exists>up. new_upsert demo_mapping ttl_only = Inr up
     \<and> length (filter (\<lambda>s. slot_index s = Some 3) (tu_slots up)) = 1"
proof -
  have ins: "new_upsert demo_mapping ttl_only = Inr (upsert_insert demo_mapping ttl_only)" by code_simp
  have c: "\<not> is_constant_at demo_mapping 3" "distinct (map cm_name (ts_columns demo_target))"
    "3 < length (ts_columns demo_target)" by code_simp+
  show ?thesis using upsert_binds_columns_once [OF demo_resolves c(2) ins c(3)] c(1) ins by simp
qed

subsection \<open>Bind markers of the text\<close>

definition markers :: "string \<Rightarrow> nat" where
  "markers s = count_list s (CHR ''?'')"

lemma markers_simps [simp]:
  "markers [] = 0" "markers (c # s) = (if c = CHR ''?'' then Suc (markers s) else markers s)"
  "markers (s @ s') = markers s + markers s'"
  by (simp_all add: markers_def count_list_append)

lemma markers_join: "markers (join parts) = sum_list (map markers parts)"
proof -
  have "markers (foldl (\<lambda>out part. (if out = [] then [] else out @ '','') @ part) out parts)
      = markers out + sum_list (map markers parts)" for out
    by (induction parts arbitrary: out) auto
  then show ?thesis by (simp add: join_def)
qed

lemma markers_join_with: "markers sep = 0 \<Longrightarrow> markers (join_strings sep parts) = sum_list (map markers parts)"
  by (induction sep parts rule: join_strings.induct) auto

lemma markers_comma_append: "markers (comma_append front parts) = markers front + sum_list (map markers parts)"
  by (simp add: comma_append_def markers_join)

lemma markers_using: "markers (show_using u) = length (using_slots u)"
  by (simp add: show_using_def using_slots_def split: bool.split)

definition plain_text :: "column_mapping \<Rightarrow> bool" where
  "plain_text m \<longleftrightarrow>
     markers (table_quoted_name (cmap_target_table m)) = 0
     \<and> (\<forall>c \<in> set (cmap_target m). markers (column_quoted_name c) = 0)
     \<and> (\<forall>s \<in> set (cmap_sources m). case s of Constant literal \<Rightarrow> markers literal = 0 | _ \<Rightarrow> True)"

lemma plain_constant: "plain_text m \<Longrightarrow> markers (constant_at m i) = 0"
  by (auto simp: plain_text_def constant_at_def mapping_source_def list_get_def split: option.split target_source.split
      split del: if_split dest!: bspec [OF _ nth_mem] split: if_splits)

lemma where_markers:
  assumes "plain_text m" "set cs \<subseteq> set (cmap_target m)" "where_terms m cs = Inr (terms, bound)"
  shows "sum_list (map markers terms) = length (concat (map (key_slot m) cs))"
  using assms(2,3)
proof (induction cs arbitrary: terms bound)
  case (Cons c cs)
  have quoted: "markers (column_quoted_name c) = 0" using assms(1) Cons.prems(1) by (simp add: plain_text_def)
  obtain i s where s: "position_of (named (cm_name c)) (cmap_target m) = Some i" "mapping_source m i = Some s"
    using Cons.prems(2) by (auto simp: source_of_def Let_def split: option.splits)
  have src: "source_of m (cm_name c) = Some s" using s by (simp add: source_of_def)
  have slot: "length (key_slot m c) = (case s of Constant _ \<Rightarrow> 0 | _ \<Rightarrow> 1)"
    using s by (simp add: key_slot_def is_constant_at_def split: target_source.split)
  obtain terms' bound' where rest: "where_terms m cs = Inr (terms', bound')"
    using Cons.prems(2) src by (auto simp: Let_def bindR_Inr_iff split: target_source.splits if_splits)
  have "sum_list (map markers terms') = length (concat (map (key_slot m) cs))"
    using Cons.IH [OF _ rest] Cons.prems(1) by simp
  then show ?case
    using Cons.prems(2) rest src slot quoted plain_constant [OF assms(1), of i] s
    by (auto simp: Let_def constant_at_def split: target_source.splits if_splits)
qed simp

lemma markers_assignments:
  assumes "plain_text m" "set is \<subseteq> {..<length (cmap_target m)}"
  shows "sum_list (map markers (map (assignment m) is)) = length (filter (\<lambda>i. \<not> is_constant_at m i) is)"
  using assms(2)
proof (induction "is")
  case (Cons i js)
  have "markers (column_quoted_name (cmap_target m ! i)) = 0" using assms(1) Cons.prems by (simp add: plain_text_def)
  then show ?case using Cons plain_constant [OF assms(1), of i] by (simp add: assignment_def Let_def)
qed simp

lemma markers_insert:
  assumes "plain_text m"
  shows "markers (tu_cql (upsert_insert m u)) = length (tu_slots (upsert_insert m u))"
proof -
  have names: "sum_list (map markers (map (\<lambda>i. column_quoted_name (cmap_target m ! i)) (filter P [0..<length (cmap_target m)]))) = 0" for P
    using assms by (auto simp: plain_text_def)
  have literals: "sum_list (map markers (map (constant_at m) js)) = 0" for js
    using plain_constant [OF assms] by auto
  show ?thesis
    using assms by (simp add: upsert_insert_def Let_def markers_comma_append markers_join markers_join_with markers_using
        names literals sum_list_replicate plain_text_def del: map_map)
qed

text \<open>
  The generated write has exactly as many bind markers in its text as slots in its bind list,
  for the INSERT and the counter UPDATE alike, when the names and the configured literals themselves
  contain no question mark.
\<close>

theorem upsert_text_matches_slots:
  assumes "resolve_mapping o_table t_table options = Inr m" "new_upsert m u = Inr up" "plain_text m"
  shows "count_list (tu_cql up) (CHR ''?'') = bind_count up"
proof (cases "target_is_counter m")
  case True
  let ?assigned = "filter (\<lambda>i. \<not> kind_is_key (cm_kind (cmap_target m ! i))) [0..<length (cmap_target m)]"
  have upd: "upsert_update m u = Inr up" using assms(2) True by (simp add: new_upsert_def)
  then obtain terms bound where w: "where_terms m (primary_key_columns (cmap_target_table m)) = Inr (terms, bound)"
    and cql: "tu_cql up = ''UPDATE '' @ table_quoted_name (cmap_target_table m) @ show_using u @ '' SET ''
               @ join_strings '','' (map (assignment m) ?assigned) @ '' WHERE '' @ join_strings '' AND '' terms"
    by (auto simp: upsert_update_def where_clause_def Let_def bindR_Inr_iff split: if_splits)
  have "set (primary_key_columns (cmap_target_table m)) \<subseteq> set (cmap_target m)"
    using resolve_mappingD(1,2) [OF assms(1)] by (auto simp: primary_key_set)
  note key_terms = where_markers [OF assms(3) this w]
  have set_terms: "markers (join_strings '','' (map (assignment m) ?assigned)) = length (filter (\<lambda>i. \<not> is_constant_at m i) ?assigned)"
    using markers_assignments [OF assms(3), of ?assigned] by (simp add: markers_join_with subset_iff)
  have "markers (tu_cql up) = length (tu_slots up)"
    using assms(3) key_terms set_terms
    by (simp add: cql update_slots [OF upd] markers_join_with markers_using plain_text_def key_slots_def conj_commute)
  then show ?thesis by (simp add: markers_def bind_count_def)
next
  case False
  then have "up = upsert_insert m u" using assms(2) by (simp add: new_upsert_def)
  then show ?thesis using markers_insert [OF assms(3)] by (simp add: markers_def bind_count_def)
qed

theorem upsert_text_matches_slots_witness:
  "count_list (tu_cql (upsert_insert demo_mapping ttl_only)) (CHR ''?'') = 4"
proof -
  have ins: "new_upsert demo_mapping ttl_only = Inr (upsert_insert demo_mapping ttl_only)" "plain_text demo_mapping"
    "bind_count (upsert_insert demo_mapping ttl_only) = 4" by code_simp+
  show ?thesis using upsert_text_matches_slots [OF demo_resolves ins(1,2)] ins(3) by simp
qed

subsection \<open>Token bounds\<close>

lemma be_unsigned_Cons: "be_unsigned (b # bs) = uint b * 256 ^ length bs + be_unsigned bs"
proof (induction bs rule: rev_induct)
  case (snoc c bs)
  then show ?case using be_unsigned_snoc [of "b # bs" c] be_unsigned_snoc [of bs c] by (simp add: algebra_simps)
qed (simp add: be_unsigned_def)

lemma byte_range: "0 \<le> uint (b :: byte)" "uint (b :: byte) < 256"
  using uint_range_size [of b] by (simp_all add: word_size)

lemma be_value_Cons:
  "be_value (b # bs) = (if uint b < 128 then uint b else uint b - 256) * 256 ^ length bs + be_unsigned bs"
proof -
  define m :: int where "m = 256 ^ length bs"
  define p where "p = uint b * m"
  let ?u = "be_unsigned bs"
  have u: "0 \<le> ?u" "?u < m" using be_unsigned_range [of bs] by (auto simp: m_def)
  have "?u + p < 128 * m \<longleftrightarrow> uint b < 128"
  proof (cases "uint b < 128")
    case True
    then have "p \<le> 127 * m" using u unfolding p_def by (intro mult_right_mono) auto
    then show ?thesis using u True by presburger
  next
    case False
    then have "128 * m \<le> p" using u unfolding p_def by (intro mult_right_mono) auto
    then show ?thesis using u False by presburger
  qed
  then show ?thesis by (simp add: be_value_def be_unsigned_Cons Let_def p_def m_def algebra_simps)
qed

lemma be_value_strip:
  "sign = 0 \<or> sign = 255 \<Longrightarrow> be_value (strip_filler sign bs) = be_value bs"
  by (induction sign bs rule: strip_filler.induct) (auto simp: be_value_Cons be_unsigned_Cons left_diff_distrib)

lemma strip_filler_stop: "strip_filler sign bs = b # c # r \<Longrightarrow> \<not> (b = sign \<and> (128 \<le> uint c) = (sign = 255))"
  by (induction sign bs rule: strip_filler.induct) (auto split: if_splits)

lemma strip_filler_nonempty: "bs \<noteq> [] \<Longrightarrow> strip_filler sign bs \<noteq> []"
  by (induction sign bs rule: strip_filler.induct) auto

lemma be_value_range: "bs \<noteq> [] \<Longrightarrow> - (256 ^ length bs) \<le> 2 * be_value bs \<and> 2 * be_value bs < 256 ^ length bs"
  using be_unsigned_range [of bs] by (auto simp: be_value_def Let_def)

lemma short_value_is_filled:
  assumes "- (256 ^ Suc (length r)) \<le> 2 * be_value (b # c # r)" "2 * be_value (b # c # r) < 256 ^ Suc (length r)"
  shows "b = (if be_value (b # c # r) < 0 then 255 else 0) \<and> (128 \<le> uint c) = (be_value (b # c # r) < 0)"
proof -
  let ?m = "256 ^ length r :: int" and ?u = "be_unsigned r"
  define sb where "sb = (if uint b < 128 then uint b else uint b - 256)"
  have m: "0 < ?m" and u: "0 \<le> ?u" "?u < ?m" using be_unsigned_range [of r] by auto
  have v: "be_value (b # c # r) = (sb * 256 + uint c) * ?m + ?u"
    by (simp add: be_value_Cons be_unsigned_Cons sb_def algebra_simps)
  have "2 * (sb * 256 + uint c) * ?m < 256 * ?m" using assms(2) u by (simp add: v algebra_simps)
  then have hi: "sb * 256 + uint c < 128" using m by simp
  have "(- 256 - 2) * ?m < 2 * (sb * 256 + uint c) * ?m" using assms(1) u by (simp add: v algebra_simps)
  then have lo: "- 128 \<le> sb * 256 + uint c" using m by (simp only: mult_less_cancel_right) auto
  have sb: "sb = 0 \<and> uint c < 128 \<or> sb = - 1 \<and> 128 \<le> uint c" using hi lo byte_range [of c] by linarith
  have word: "b = word_of_int (uint b)" by simp
  from sb show ?thesis
  proof
    assume *: "sb = 0 \<and> uint c < 128"
    then have "uint b = 0" using byte_range [of b] by (auto simp: sb_def split: if_splits)
    moreover have "0 \<le> be_value (b # c # r)" using * u m byte_range [of c] by (simp add: v)
    ultimately show ?thesis using * by (auto simp: uint_0_iff)
  next
    assume *: "sb = - 1 \<and> 128 \<le> uint c"
    then have "uint b = - 1 \<or> uint b = 255" by (auto simp: sb_def split: if_splits)
    then have "uint b = 255" using byte_range(1) [of b] by linarith
    then have "b = 255" using word by (metis of_int_numeral)
    moreover have "(sb * 256 + uint c) * ?m \<le> - 1 * ?m" using * byte_range [of c] m by (intro mult_right_mono) auto
    then have "be_value (b # c # r) < 0" using u by (simp add: v)
    ultimately show ?thesis using * by simp
  qed
qed

text \<open>
  A token bound is bound as the value it stands for: the serialized bytes, read as a big-endian
  two's-complement integer, are the token, and for a RandomPartitioner token (a \<open>varint\<close>) no shorter
  non-empty byte string reads as it, as the server's encoding requires.
\<close>

theorem serialized_token_minimal:
  assumes "in_i128 t" "bs \<noteq> []" "be_value bs = t"
  shows "be_value (serialized (RandomBound t)) = t \<and> length (serialized (RandomBound t)) \<le> length bs"
proof -
  let ?s = "serialized (RandomBound t)"
  have full: "be_value (be_bytes 16 t) = t"
    using assms(1) by (intro be_value_be_bytes) (simp_all add: in_i128_def i128_min_def i128_max_def)
  then have val: "be_value ?s = t" using be_value_strip by simp
  have "length ?s \<le> length bs"
  proof (rule ccontr)
    assume shorter: "\<not> length ?s \<le> length bs"
    then obtain b c r where s: "?s = b # c # r" and le: "length bs \<le> Suc (length r)"
      using assms(2) by (cases ?s; cases "tl ?s") (auto simp: Suc_le_eq)
    have pow: "(256 :: int) ^ length bs \<le> 256 ^ Suc (length r)" using le by (intro power_increasing) auto
    have "- (256 ^ Suc (length r)) \<le> 2 * be_value (b # c # r)" "2 * be_value (b # c # r) < 256 ^ Suc (length r)"
      using be_value_range [OF assms(2)] pow val s assms(3) by auto
    from short_value_is_filled [OF this] show False
      using strip_filler_stop [of "if t < 0 then 255 else 0" "be_bytes 16 t" b c r] s val by auto
  qed
  then show ?thesis using val by simp
qed

theorem serialized_token_minimal_witness: "length (serialized (RandomBound (- 1))) \<le> 1"
  using serialized_token_minimal [of "- 1" "[255]"]
  by (simp add: in_i128_def i128_min_def i128_max_def be_value_def be_unsigned_def)

end
