(* ===== verification/Cql_Bind.thy ===== *)
theory Cql_Bind
  imports Cql_Statement Codec_Sound
begin

text \<open>
  Binding a row into the target statement: \<open>crates/cdm-cql/src/statement/bind.rs\<close>. A binding plan holds one
  resolved column per target column; \<open>bind\<close> walks the slots of the write and \<open>bind_key\<close> the key columns
  of the lookup. Whether bytes are borrowed from the response frame or owned is not part of the model,
  only their content is.

  The lemmas show that a bound write fills every marker and never leaves a key column unset, that the
  lookup of a counter row uses the key bytes its write uses, that bound values are well formed for the target
  column's type, and that stripping null map values removes exactly the null entries.
\<close>

subsection \<open>Bound values and their inputs\<close>

datatype bound_value = Unset | Value "byte list"

definition is_unset :: "bound_value \<Rightarrow> bool" where
  "is_unset v \<longleftrightarrow> v = Unset"

fun bound_bytes :: "bound_value \<Rightarrow> byte list option" where
  "bound_bytes Unset = None"
| "bound_bytes (Value bs) = Some bs"

text \<open>
  The trait \<open>SourceRow\<close> as its cell function: no cell, a null cell, or bytes. \<open>source_cell\<close> is the
  instance for a materialised row (and, with the cells of the response frame, for a raw row).
\<close>

type_synonym source_row = "usize \<Rightarrow> byte list option option"

definition source_cell :: "row \<Rightarrow> usize \<Rightarrow> byte list option option" where
  "source_cell r i = map_option cell_bytes (row_get r i)"

record missing_key_policy =
  mk_ts_replace :: "i64 option"

definition substitute :: "missing_key_policy \<Rightarrow> cql_type_info \<Rightarrow> byte list option" where
  "substitute policy ty =
     (case ty of
        TPrim p \<Rightarrow>
          (if p = Text \<or> p = Ascii then Some []
           else if p = Timestamp then map_option (be_bytes 8) (mk_ts_replace policy)
           else None)
      | _ \<Rightarrow> None)"

record bind_inputs =
  bi_ttl :: "i32 option"
  bi_writetime :: "i64 option"
  bi_explode_key :: "byte list option"
  bi_explode_value :: "byte list option"
  bi_extracted_json :: "byte list option"
  bi_key :: "primary_key option"

record column_bind =
  cb_name :: string
  cb_type :: cql_type_info
  cb_declared_type :: string
  cb_plan :: conversion_plan
  cb_source :: target_source
  cb_is_key :: bool
  cb_unset_when_empty :: bool
  cb_is_map :: bool

record row_binder =
  bd_statement :: target_upsert
  bd_columns :: "column_bind list"
  bd_missing_key :: missing_key_policy
  bd_map_remove_null_value :: bool

record bind_failure =
  bf_column :: string
  bf_type :: string
  bf_bind_index :: usize
  bf_column_index :: usize
  bf_statement :: string
  bf_key :: "primary_key option"
  bf_cause :: "cdm_error option"

datatype bound = IdempotentWrite "bound_value list" | CounterWrite "bound_value list"

fun bound_values :: "bound \<Rightarrow> bound_value list" where
  "bound_values (IdempotentWrite vs) = vs"
| "bound_values (CounterWrite vs) = vs"

subsection \<open>Errors\<close>

definition truncated :: cdm_error where
  "truncated = new_error TypeConversion
     ''the serialised map is truncated: an element length runs past the end of the value (MIG-014)''"

definition on_target_column :: "string \<Rightarrow> cdm_error \<Rightarrow> cdm_error" where
  "on_target_column name = with_context (\<lambda>c. with_column name (with_side Target c))"

definition missing_key_error :: "column_bind \<Rightarrow> cdm_error" where
  "missing_key_error column = on_target_column (cb_name column) (new_error Write
     (''target primary-key column `'' @ cb_name column @ ''` of type '' @ show_type (cb_type column)
      @ '' is null on the origin and has no substitute: only text and ascii keys default to the empty string, and a timestamp key needs transform.missing_key_ts_replace (MIG-013).''))"

definition key_cannot_be_unset :: "column_bind \<Rightarrow> cdm_error" where
  "key_cannot_be_unset column = on_target_column (cb_name column) (new_error Write
     (''target primary-key column `'' @ cb_name column
      @ ''` is an empty collection, which cannot be bound as UNSET because a key must be present (MIG-012, MIG-013).''))"

definition out_of_range :: "usize \<Rightarrow> column_mapping \<Rightarrow> cdm_error" where
  "out_of_range index m = new_error Internal
     (''the column mapping refers to origin column '' @ show_nat index @ '', but the projection has ''
      @ show_nat (length (cmap_origin m)))"

definition parse_column_type :: "column_meta \<Rightarrow> side \<Rightarrow> cql_type_info result" where
  "parse_column_type column sd =
     map_err (with_context (\<lambda>c. with_column (cm_name column) (with_side sd c))) (parse_cql_type (cm_type column))"

definition failure ::
  "row_binder \<Rightarrow> usize \<Rightarrow> usize \<Rightarrow> string \<Rightarrow> string \<Rightarrow> bind_inputs \<Rightarrow> cdm_error option \<Rightarrow> bind_failure" where
  "failure b bind_index column_index column ty inputs cause =
     \<lparr>bf_column = column, bf_type = ty, bf_bind_index = bind_index, bf_column_index = column_index,
      bf_statement = tu_cql (bd_statement b), bf_key = bi_key inputs, bf_cause = cause\<rparr>"

definition column_failure ::
  "row_binder \<Rightarrow> usize \<Rightarrow> usize \<Rightarrow> column_bind \<Rightarrow> bind_inputs \<Rightarrow> cdm_error option \<Rightarrow> bind_failure" where
  "column_failure b bind_index column_index column inputs cause =
     failure b bind_index column_index (cb_name column) (cb_declared_type column) inputs cause"

definition show_failure :: "bind_failure \<Rightarrow> string" where
  "show_failure f =
     ''failed to bind column `'' @ bf_column f @ ''` of type '' @ bf_type f @ '' at column index ''
     @ show_nat (bf_column_index f) @ '' and bind index '' @ show_nat (bf_bind_index f) @ '' of statement: ''
     @ bf_statement f
     @ (case bf_key f of None \<Rightarrow> [] | Some key \<Rightarrow> '' (primary key '' @ show_key key @ '')'')
     @ (case bf_cause f of None \<Rightarrow> [] | Some cause \<Rightarrow> '': '' @ show_error cause)"

definition failure_error :: "bind_failure \<Rightarrow> cdm_error" where
  "failure_error f = with_context (\<lambda>c.
       let c' = with_column (bf_column f) (with_side Target c) in
       case bf_key f of Some key \<Rightarrow> with_primary_key key c' | None \<Rightarrow> c')
     (new_error Write (show_failure f))"

subsection \<open>Collections and maps\<close>

fun is_java_collection :: "cql_type_info \<Rightarrow> bool" where
  "is_java_collection (TList t f) = True"
| "is_java_collection (TSet t f) = True"
| "is_java_collection (TMap k v f) = True"
| "is_java_collection t = False"

fun is_map_type :: "cql_type_info \<Rightarrow> bool" where
  "is_map_type (TMap k v f) = True"
| "is_map_type t = False"

definition is_empty_collection :: "byte list \<Rightarrow> bool" where
  "is_empty_collection bs = (case slice_get bs 0 4 of Some n \<Rightarrow> be_value n = 0 | None \<Rightarrow> True)"

definition checked_add_usize :: "usize \<Rightarrow> usize \<Rightarrow> usize option" where
  "checked_add_usize a b = (if a + b \<le> u64_max then Some (a + b) else None)"

definition read_i32_at :: "byte list \<Rightarrow> usize \<Rightarrow> i32 result" where
  "read_i32_at bs offset =
     bindR (ok_or (checked_add_usize offset 4) truncated) (\<lambda>stop.
     bindR (ok_or (slice_get bs offset stop) truncated) (\<lambda>slice. Inr (be_value slice)))"

definition skip_element :: "byte list \<Rightarrow> usize \<Rightarrow> (usize \<times> i32) result" where
  "skip_element bs offset =
     bindR (read_i32_at bs offset) (\<lambda>len.
     bindR (ok_or (checked_add_usize offset 4) truncated) (\<lambda>nxt.
       if len < 0 then Inr (nxt, len)
       else bindR (ok_or (checked_add_usize nxt (nat len)) truncated) (\<lambda>stop.
         if length bs < stop then Inl truncated else Inr (stop, len))))"

text \<open>The loop over the entries: what is kept as a list of slices, and how many entries are dropped.\<close>

fun strip_loop ::
  "byte list \<Rightarrow> nat \<Rightarrow> usize \<Rightarrow> (usize \<times> usize) list \<Rightarrow> i32 \<Rightarrow> ((usize \<times> usize) list \<times> i32) result" where
  "strip_loop bs 0 offset kept dropped = Inr (kept, dropped)"
| "strip_loop bs (Suc n) offset kept dropped =
     bindR (skip_element bs offset) (\<lambda>(after_key, _).
     bindR (skip_element bs after_key) (\<lambda>(after_value, value_len).
       if value_len < 0 then strip_loop bs n after_value kept (dropped + 1)
       else strip_loop bs n after_value (kept @ [(offset, after_value)]) dropped))"

definition slice_or_default :: "byte list \<Rightarrow> usize \<times> usize \<Rightarrow> byte list" where
  "slice_or_default bs s = (case slice_get bs (fst s) (snd s) of Some x \<Rightarrow> x | None \<Rightarrow> [])"

definition strip_null_map_values :: "byte list \<Rightarrow> byte list result" where
  "strip_null_map_values bs =
     bindR (read_i32_at bs 0) (\<lambda>entries.
     bindR (strip_loop bs (nat (max entries 0)) 4 [] 0) (\<lambda>(kept, dropped).
       Inr (if dropped = 0 then bs
            else be_bytes 4 (max i32_min (entries - dropped)) @ concat (map (slice_or_default bs) kept))))"

subsection \<open>The binding plan\<close>

definition bind_plan :: "planner \<Rightarrow> column_mapping \<Rightarrow> cql_type_info \<Rightarrow> target_source \<Rightarrow> conversion_plan result" where
  "bind_plan pn m ty source =
     (case source of
        FromOrigin origin_index \<Rightarrow>
          bindR (ok_or (list_get (cmap_origin m) origin_index) (out_of_range origin_index m)) (\<lambda>origin_column.
          bindR (parse_column_type origin_column Origin) (\<lambda>origin_type. Inr (plan_types pn origin_type ty)))
      | _ \<Rightarrow> Inr PPassthrough)"

definition bind_column_of :: "planner \<Rightarrow> column_mapping \<Rightarrow> usize \<Rightarrow> column_bind result" where
  "bind_column_of pn m index =
     (let column = cmap_target m ! index;
          source = (case mapping_source m index of Some s \<Rightarrow> s | None \<Rightarrow> Absent) in
      bindR (parse_column_type column Target) (\<lambda>ty.
      bindR (bind_plan pn m ty source) (\<lambda>pl.
        Inr \<lparr>cb_name = cm_name column, cb_type = ty, cb_declared_type = cm_type column, cb_plan = pl,
             cb_source = source, cb_is_key = kind_is_key (cm_kind column),
             cb_unset_when_empty = is_java_collection ty, cb_is_map = is_map_type ty\<rparr>)))"

definition new_binder ::
  "column_mapping \<Rightarrow> target_upsert \<Rightarrow> planner \<Rightarrow> missing_key_policy \<Rightarrow> bool \<Rightarrow> row_binder result" where
  "new_binder m statement pn missing_key map_remove_null_value =
     bindR (collectR (bind_column_of pn m) [0..<length (cmap_target m)]) (\<lambda>columns.
       Inr \<lparr>bd_statement = statement, bd_columns = columns, bd_missing_key = missing_key,
            bd_map_remove_null_value = map_remove_null_value\<rparr>)"

definition convert_cell :: "column_bind \<Rightarrow> byte list \<Rightarrow> byte list result" where
  "convert_cell column bs =
     (if is_identity (cb_plan column) then Inr bs
      else bindR (apply_plan (cb_plan column) (new_cell bs)) (\<lambda>converted.
        Inr (case cell_bytes converted of Some out \<Rightarrow> out | None \<Rightarrow> [])))"

definition absent_value :: "row_binder \<Rightarrow> column_bind \<Rightarrow> bound_value result" where
  "absent_value b column =
     (if \<not> cb_is_key column then Inr Unset
      else bindR (ok_or (substitute (bd_missing_key b) (cb_type column)) (missing_key_error column)) (\<lambda>bs.
        Inr (Value bs)))"

text \<open>The raw value of a column; an error without a cause is a row narrower than the projection.\<close>

definition raw_value ::
  "column_bind \<Rightarrow> source_row \<Rightarrow> bind_inputs \<Rightarrow> cdm_error option + byte list option" where
  "raw_value column r inputs =
     (case cb_source column of
        FromOrigin index \<Rightarrow>
          (case r index of
             None \<Rightarrow> Inl None
           | Some None \<Rightarrow> Inr None
           | Some (Some bs) \<Rightarrow> bindR (map_err Some (convert_cell column bs)) (\<lambda>out. Inr (Some out)))
      | ExplodeKey \<Rightarrow> Inr (bi_explode_key inputs)
      | ExplodeValue \<Rightarrow> Inr (bi_explode_value inputs)
      | ExtractJson _ \<Rightarrow> Inr (bi_extracted_json inputs)
      | Constant _ \<Rightarrow> Inr None
      | Absent \<Rightarrow> Inr None)"

definition bind_column ::
  "row_binder \<Rightarrow> column_bind \<Rightarrow> source_row \<Rightarrow> bind_inputs \<Rightarrow> cdm_error option + bound_value" where
  "bind_column b column r inputs =
     bindR (raw_value column r inputs) (\<lambda>raw.
       case raw of
         None \<Rightarrow> map_err Some (absent_value b column)
       | Some bs \<Rightarrow>
           bindR (if bd_map_remove_null_value b \<and> cb_is_map column
                  then map_err Some (strip_null_map_values bs) else Inr bs) (\<lambda>bs'.
             if cb_unset_when_empty column \<and> is_empty_collection bs'
             then if cb_is_key column then Inl (Some (key_cannot_be_unset column)) else Inr Unset
             else Inr (Value bs')))"

definition bind_at :: "row_binder \<Rightarrow> source_row \<Rightarrow> bind_inputs \<Rightarrow> usize \<Rightarrow> usize \<Rightarrow> bind_failure + bound_value" where
  "bind_at b r inputs bind_index index =
     bindR (ok_or (list_get (bd_columns b) index) (failure b bind_index index ''<unknown>'' ''internal'' inputs None))
       (\<lambda>column. map_err (column_failure b bind_index index column inputs) (bind_column b column r inputs))"

definition bind_slot_value :: "row_binder \<Rightarrow> source_row \<Rightarrow> bind_inputs \<Rightarrow> usize \<times> bind_slot \<Rightarrow> bind_failure + bound_value" where
  "bind_slot_value b r inputs p =
     (case snd p of
        SlotColumn index \<Rightarrow> bind_at b r inputs (fst p) index
      | SlotKeyColumn index \<Rightarrow> bind_at b r inputs (fst p) index
      | SlotTtl \<Rightarrow> Inr (case bi_ttl inputs of None \<Rightarrow> Unset | Some ttl \<Rightarrow> Value (be_bytes 4 ttl))
      | SlotWritetime \<Rightarrow> Inr (case bi_writetime inputs of None \<Rightarrow> Unset | Some w \<Rightarrow> Value (be_bytes 8 w)))"

definition bind_row :: "row_binder \<Rightarrow> source_row \<Rightarrow> bind_inputs \<Rightarrow> bind_failure + bound" where
  "bind_row b r inputs =
     bindR (collectR (bind_slot_value b r inputs) (enumerate 0 (tu_slots (bd_statement b)))) (\<lambda>values.
       Inr (if tu_counter (bd_statement b) then CounterWrite values else IdempotentWrite values))"

record key_binding =
  kb_indices :: "usize list"

definition key_index :: "row_binder \<Rightarrow> string \<Rightarrow> usize result" where
  "key_index b name =
     ok_or (position_of (\<lambda>c. cb_name c = name) (bd_columns b)) (new_error Internal
       (''the target lookup binds key column `'' @ name
        @ ''`, which is not a target column of this bin'' @ ''der; the statement and the bin'' @ ''der were built from different mappings''))"

definition resolve_key_binding :: "row_binder \<Rightarrow> target_select \<Rightarrow> key_binding result" where
  "resolve_key_binding b sel =
     bindR (collectR (key_index b) (tsel_bound_key_columns sel)) (\<lambda>indices. Inr \<lparr>kb_indices = indices\<rparr>)"

definition bind_key_row :: "row_binder \<Rightarrow> key_binding \<Rightarrow> source_row \<Rightarrow> bind_inputs \<Rightarrow> bind_failure + bound_value list" where
  "bind_key_row b binding r inputs =
     collectR (\<lambda>p. bind_at b r inputs (fst p) (snd p)) (enumerate 0 (kb_indices binding))"

text \<open>\<open>SerializeRow\<close>: one cell per value, unset or its bytes; an arity mismatch writes nothing.\<close>

datatype serialize_error = ArityError usize usize | ValueTooLarge

definition serialize_row ::
  "(byte list \<Rightarrow> bool) \<Rightarrow> usize \<Rightarrow> bound_value list \<Rightarrow> serialize_error + byte list option list" where
  "serialize_row cell_fits expected values =
     (if expected \<noteq> length values then Inl (ArityError expected (length values))
      else collectR (\<lambda>v. case v of Unset \<Rightarrow> Inr None
                                 | Value bs \<Rightarrow> if cell_fits bs then Inr (Some bs) else Inl ValueTooLarge) values)"

subsection \<open>Binding slot by slot\<close>

lemma new_binderD:
  assumes "new_binder m up pn mk strip = Inr b"
  shows "bd_statement b = up" "length (bd_columns b) = length (cmap_target m)" "bd_missing_key b = mk"
    "bd_map_remove_null_value b = strip"
    "i < length (cmap_target m) \<Longrightarrow> bind_column_of pn m i = Inr (bd_columns b ! i)"
  using assms by (auto simp: new_binder_def bindR_Inr_iff collectR_Inr_iff list_all2_conv_all_nth)

lemma bind_column_ofD:
  assumes "bind_column_of pn m i = Inr c"
  shows "cb_name c = cm_name (cmap_target m ! i)" "cb_is_key c = kind_is_key (cm_kind (cmap_target m ! i))"
    "cb_source c = (case mapping_source m i of Some s \<Rightarrow> s | None \<Rightarrow> Absent)"
    "parse_column_type (cmap_target m ! i) Target = Inr (cb_type c)"
    "bind_plan pn m (cb_type c) (cb_source c) = Inr (cb_plan c)"
    "cb_unset_when_empty c = is_java_collection (cb_type c)" "cb_is_map c = is_map_type (cb_type c)"
  using assms by (auto simp: bind_column_of_def Let_def bindR_Inr_iff)

lemma bind_rowD:
  assumes "bind_row b r inputs = Inr w"
  shows "length (bound_values w) = length (tu_slots (bd_statement b))"
    "k < length (tu_slots (bd_statement b)) \<Longrightarrow>
       bind_slot_value b r inputs (k, tu_slots (bd_statement b) ! k) = Inr (bound_values w ! k)"
    "(\<exists>vs. w = CounterWrite vs) \<longleftrightarrow> tu_counter (bd_statement b)"
  using assms
  by (auto simp: bind_row_def bindR_Inr_iff collectR_Inr_iff list_all2_conv_all_nth nth_enumerate_eq split: if_splits)

lemma bind_at_Inr:
  "bind_at b r inputs k i = Inr v \<longleftrightarrow>
     i < length (bd_columns b) \<and> bind_column b (bd_columns b ! i) r inputs = Inr v"
  by (auto simp: bind_at_def list_get_def bindR_Inr_iff)

lemma bound_at_position:
  assumes "bind_row b r inputs = Inr w" "bind_position (bd_statement b) i = Some k"
  shows "k < length (bound_values w)" "i < length (bd_columns b)"
    "bind_column b (bd_columns b ! i) r inputs = Inr (bound_values w ! k)"
proof -
  have k: "k < length (tu_slots (bd_statement b))" "slot_index (tu_slots (bd_statement b) ! k) = Some i"
    using position_of_SomeD [OF assms(2) [unfolded bind_position_def]] by auto
  then have "bind_at b r inputs k i = Inr (bound_values w ! k)"
    using bind_rowD(2) [OF assms(1) k(1)] by (cases "tu_slots (bd_statement b) ! k") (auto simp: bind_slot_value_def)
  then show "i < length (bd_columns b)" "bind_column b (bd_columns b ! i) r inputs = Inr (bound_values w ! k)"
    by (simp_all add: bind_at_Inr)
  show "k < length (bound_values w)" using k bind_rowD(1) [OF assms(1)] by simp
qed

lemma position_exists:
  assumes "resolve_mapping o_table t_table options = Inr m" "distinct (map cm_name (ts_columns t_table))"
    and "new_upsert m u = Inr up" "i < length (ts_columns t_table)" "\<not> is_constant_at m i"
  obtains k where "bind_position up i = Some k"
proof -
  have "filter (\<lambda>s. slot_index s = Some i) (tu_slots up) \<noteq> []"
    using upsert_slots(1) [OF assms(1-4)] assms(5) by (metis list.size(3) zero_neq_one)
  then have "bind_position up i \<noteq> None"
    by (auto simp: bind_position_def position_of_None_iff filter_empty_conv)
  then show ?thesis using that by blast
qed

lemma key_never_unset: "bind_column b c r inputs = Inr v \<Longrightarrow> cb_is_key c \<Longrightarrow> v \<noteq> Unset"
  by (auto simp: bind_column_def absent_value_def bindR_Inr_iff split: option.splits if_splits)

lemma upsert_counter: "new_upsert m u = Inr up \<Longrightarrow> tu_counter up = is_counter_table (cmap_target_table m)"
  by (auto simp: new_upsert_def target_is_counter_def upsert_insert_def upsert_update_def Let_def bindR_Inr_iff
      split: if_splits)

text \<open>
  A row that binds fills the statement: the write has one value per bind marker, every key column
  of the target that is not a constant in the statement text is bound to bytes and never left unset
  (MIG-013), and the write is the kind that is never batched or retried exactly when the target table
  has a counter column (CON-012).
\<close>

theorem bound_row_fills_statement:
  assumes "resolve_mapping o_table t_table options = Inr m" "distinct (map cm_name (ts_columns t_table))"
    and "new_upsert m u = Inr up" "new_binder m up pn mk strip = Inr b" "bind_row b r inputs = Inr w"
  shows "length (bound_values w) = bind_count up
    \<and> (\<forall>i < length (ts_columns t_table). kind_is_key (cm_kind (ts_columns t_table ! i)) \<longrightarrow> \<not> is_constant_at m i \<longrightarrow>
          (\<exists>k bs. bind_position up i = Some k \<and> bound_values w ! k = Value bs))
    \<and> ((\<exists>vs. w = CounterWrite vs) \<longleftrightarrow> is_counter_table t_table)"
proof -
  note m = resolve_mappingD(1,2) [OF assms(1)] and b = new_binderD [OF assms(4)]
  have "\<exists>k bs. bind_position up i = Some k \<and> bound_values w ! k = Value bs"
    if i: "i < length (ts_columns t_table)" "kind_is_key (cm_kind (ts_columns t_table ! i))" "\<not> is_constant_at m i" for i
  proof -
    obtain k where k: "bind_position up i = Some k" using position_exists [OF assms(1-3) i(1,3)] .
    have "cb_is_key (bd_columns b ! i)" using bind_column_ofD(2) [OF b(5)] i m by simp
    then have "bound_values w ! k \<noteq> Unset"
      using bound_at_position(3) [OF assms(5)] k b(1) key_never_unset by blast
    then show ?thesis using k by (cases "bound_values w ! k") auto
  qed
  then show ?thesis
    using bind_rowD(1,3) [OF assms(5)] upsert_counter [OF assms(3)] m b by (auto simp: bind_count_def)
qed

subsection \<open>The lookup finds what the write writes\<close>

lemma where_terms_bound:
  "where_terms m cs = Inr (terms, bound) \<Longrightarrow> name \<in> set bound \<Longrightarrow>
     \<exists>s. source_of m name = Some s \<and> is_bound s"
proof (induction cs arbitrary: terms bound)
  case (Cons c cs)
  then show ?case
    by (auto simp: Let_def bindR_Inr_iff split: option.splits target_source.splits if_splits)
qed simp

lemma selectD:
  assumes "target_select_by_pk m = Inr sel"
  obtains terms where "where_terms m (primary_key_columns (cmap_target_table m)) = Inr (terms, tsel_bound_key_columns sel)"
proof -
  obtain predicate bound where w: "where_clause m = Inr (predicate, bound)" and "bound = tsel_bound_key_columns sel"
    using assms unfolding target_select_by_pk_def bindR_Inr_iff by force
  moreover obtain terms where "where_terms m (primary_key_columns (cmap_target_table m)) = Inr (terms, bound)"
    using w unfolding where_clause_def bindR_Inr_iff by force
  ultimately show ?thesis using that by simp
qed

lemma key_index_position:
  assumes "new_binder m up pn mk strip = Inr b" "key_index b name = Inr i"
  shows "position_of (named name) (cmap_target m) = Some i"
proof -
  note b = new_binderD [OF assms(1)]
  have "named name (cmap_target m ! i) = (cb_name (bd_columns b ! i) = name)" if "i < length (cmap_target m)" for i
    using bind_column_ofD(1) [OF b(5) [OF that]] by (simp add: named_def)
  then have "position_of (\<lambda>c. cb_name c = name) (bd_columns b) = position_of (named name) (cmap_target m)"
    unfolding position_of_def b(2) by (intro find_cong) auto
  then show ?thesis using assms(2) by (auto simp: key_index_def ok_or_def split: option.splits)
qed

text \<open>
  The \<open>WHERE\<close> clause of a lookup by primary key: one term per key column, in key order, with a marker
  unless the column is a constant.
\<close>

definition has_marker :: "column_mapping \<Rightarrow> column_meta \<Rightarrow> bool" where
  "has_marker m c \<longleftrightarrow> (case source_of m (cm_name c) of Some (Constant _) \<Rightarrow> False | _ \<Rightarrow> True)"

definition key_term :: "column_mapping \<Rightarrow> column_meta \<Rightarrow> string" where
  "key_term m c = column_quoted_name c @ (case source_of m (cm_name c) of Some (Constant literal) \<Rightarrow> ''='' @ literal | _ \<Rightarrow> ''=?'')"

lemma where_terms_text:
  "where_terms m cs = Inr (terms, bound) \<Longrightarrow> terms = map (key_term m) cs \<and> bound = map cm_name (filter (has_marker m) cs)"
proof (induction cs arbitrary: terms bound)
  case (Cons c cs)
  then show ?case
    by (auto simp: Let_def bindR_Inr_iff has_marker_def key_term_def split: option.splits target_source.splits if_splits)
qed simp

lemma select_text:
  assumes "target_select_by_pk m = Inr sel"
  shows "tsel_cql sel = ''SELECT '' @ join (map column_quoted_name (ts_columns (cmap_target_table m))) @ '' FROM ''
      @ table_quoted_name (cmap_target_table m) @ '' WHERE ''
      @ join_strings '' AND '' (map (key_term m) (primary_key_columns (cmap_target_table m)))"
    "tsel_bound_key_columns sel = map cm_name (filter (has_marker m) (primary_key_columns (cmap_target_table m)))"
  using assms where_terms_text [of m "primary_key_columns (cmap_target_table m)"]
  by (auto simp: target_select_by_pk_def where_clause_def bindR_Inr_iff)

text \<open>
  When a row binds, its key binds too, and the value for each marker of the lookup is byte for byte the
  value the write binds for the column of that marker.
\<close>

lemma bound_key_values:
  assumes "resolve_mapping o_table t_table options = Inr m" "distinct (map cm_name (ts_columns t_table))"
    and "new_upsert m u = Inr up" "new_binder m up pn mk strip = Inr b" "bind_row b r inputs = Inr w"
    and "target_select_by_pk m = Inr sel" "resolve_key_binding b sel = Inr kb"
  shows "\<exists>kvs. bind_key_row b kb r inputs = Inr kvs
    \<and> list_all2 (\<lambda>name v. \<exists>i k. i < length (cmap_target m) \<and> cm_name (cmap_target m ! i) = name
         \<and> bind_position up i = Some k \<and> v = bound_values w ! k) (tsel_bound_key_columns sel) kvs"
proof -
  note m = resolve_mappingD(1,2) [OF assms(1)] and b = new_binderD [OF assms(4)]
  obtain terms where terms: "where_terms m (primary_key_columns (cmap_target_table m)) = Inr (terms, tsel_bound_key_columns sel)"
    using selectD [OF assms(6)] .
  have idx: "list_all2 (\<lambda>name i. key_index b name = Inr i) (tsel_bound_key_columns sel) (kb_indices kb)"
    using assms(7) by (auto simp: resolve_key_binding_def bindR_Inr_iff collectR_Inr_iff)
  have each: "\<exists>k. bind_position up i = Some k \<and> bind_at b r inputs p i = Inr (bound_values w ! k)"
    if i: "i \<in> set (kb_indices kb)" for i p
  proof -
    obtain j where j: "j < length (kb_indices kb)" "kb_indices kb ! j = i" using i by (auto simp: in_set_conv_nth)
    define name where "name = tsel_bound_key_columns sel ! j"
    have name: "name \<in> set (tsel_bound_key_columns sel)" "key_index b name = Inr i"
      using list_all2_nthD2 [OF idx j(1)] list_all2_lengthD [OF idx] j by (simp_all add: name_def)
    note pos = key_index_position [OF assms(4) name(2)]
    obtain s where s: "source_of m name = Some s" "is_bound s" using where_terms_bound [OF terms name(1)] by blast
    then have "\<not> is_constant_at m i" using pos by (cases s) (auto simp: source_of_def is_constant_at_def)
    moreover have "i < length (ts_columns t_table)" using position_of_SomeD [OF pos] m by simp
    ultimately obtain k where k: "bind_position up i = Some k" using position_exists [OF assms(1-3)] by blast
    show ?thesis using bound_at_position(2,3) [OF assms(5), of i k] k b(1) by (simp add: bind_at_Inr)
  qed
  have "\<exists>y. bind_at b r inputs (fst p) (snd p) = Inr y" if "p \<in> set (enumerate 0 (kb_indices kb))" for p
  proof -
    have "snd p \<in> set (kb_indices kb)" using that nth_mem [of "fst p" "kb_indices kb"] by (simp add: in_set_enumerate_eq)
    then show ?thesis using each [of "snd p" "fst p"] by auto
  qed
  then obtain kvs where kvs: "bind_key_row b kb r inputs = Inr kvs"
    using collectR_total [of "enumerate 0 (kb_indices kb)" "\<lambda>p. bind_at b r inputs (fst p) (snd p)"]
    unfolding bind_key_row_def by meson
  then have len: "length kvs = length (kb_indices kb)"
    and at: "\<And>j. j < length kvs \<Longrightarrow> bind_at b r inputs j (kb_indices kb ! j) = Inr (kvs ! j)"
    by (auto simp: bind_key_row_def collectR_Inr_iff list_all2_conv_all_nth nth_enumerate_eq)
  have "kb_indices kb ! j < length (cmap_target m) \<and> cm_name (cmap_target m ! (kb_indices kb ! j)) = tsel_bound_key_columns sel ! j
      \<and> (\<exists>k. bind_position up (kb_indices kb ! j) = Some k \<and> kvs ! j = bound_values w ! k)" if "j < length kvs" for j
  proof -
    have "key_index b (tsel_bound_key_columns sel ! j) = Inr (kb_indices kb ! j)"
      using list_all2_nthD2 [OF idx] that len by simp
    from position_of_SomeD [OF key_index_position [OF assms(4) this]] show ?thesis
      using each [of "kb_indices kb ! j" j] at [OF that] that len by (force simp: named_def)
  qed
  then show ?thesis using kvs len list_all2_lengthD [OF idx] unfolding list_all2_conv_all_nth by metis
qed

subsection \<open>Null entries of a map\<close>

fun entry_frame :: "byte list option \<times> byte list option \<Rightarrow> byte list" where
  "entry_frame (k, v) = frame k @ frame v"

definition map_value :: "(byte list option \<times> byte list option) list \<Rightarrow> byte list" where
  "map_value kvs = be_bytes 4 (int (length kvs)) @ concat (map entry_frame kvs)"

lemma read_i32_at_frame:
  assumes "bs = pre @ be_bytes 4 x @ post" "in_i32 x" "length bs \<le> u64_max"
  shows "read_i32_at bs (length pre) = Inr x" "checked_add_usize (length pre) 4 = Some (length pre + 4)"
  using assms by (auto simp: read_i32_at_def checked_add_usize_def slice_get_def be_value_i32)

lemma skip_element_frame:
  assumes bs: "bs = pre @ frame e @ post" and len: "length bs \<le> u64_max" and short: "short e"
  shows "skip_element bs (length pre) =
    Inr (length pre + length (frame e), case e of None \<Rightarrow> - 1 | Some x \<Rightarrow> int (length x))"
proof (cases e)
  case None
  then have "bs = pre @ be_bytes 4 (- 1) @ post" using bs by simp
  from read_i32_at_frame [OF this _ len] None show ?thesis
    by (simp add: skip_element_def in_i32_def i32_min_def i32_max_def)
next
  case (Some x)
  then have "bs = pre @ be_bytes 4 (int (length x)) @ (x @ post)" using bs by simp
  from read_i32_at_frame [OF this _ len] Some short len bs show ?thesis
    by (simp add: skip_element_def in_i32_def i32_min_def checked_add_usize_def)
qed

lemma strip_loop_frames:
  assumes "length bs \<le> u64_max" "\<forall>kv \<in> set kvs. short (fst kv) \<and> short (snd kv)"
    and "bs = pre @ concat (map entry_frame kvs)"
  shows "\<exists>kept'. strip_loop bs (length kvs) (length pre) kept d
      = Inr (kept', d + int (length (filter (\<lambda>kv. snd kv = None) kvs)))
    \<and> concat (map (slice_or_default bs) kept')
      = concat (map (slice_or_default bs) kept) @ concat (map entry_frame (filter (\<lambda>kv. snd kv \<noteq> None) kvs))"
  using assms(2,3)
proof (induction kvs arbitrary: pre kept d)
  case (Cons kv kvs)
  obtain k v where kv: "kv = (k, v)" by fastforce
  let ?post = "concat (map entry_frame kvs)"
  have key: "skip_element bs (length pre) = Inr (length (pre @ frame k), case k of None \<Rightarrow> - 1 | Some x \<Rightarrow> int (length x))"
    using skip_element_frame [of bs pre k "frame v @ ?post"] Cons.prems assms(1) kv by simp
  have val: "skip_element bs (length (pre @ frame k))
      = Inr (length (pre @ frame k @ frame v), case v of None \<Rightarrow> - 1 | Some x \<Rightarrow> int (length x))"
    using skip_element_frame [of bs "pre @ frame k" v ?post] Cons.prems assms(1) kv by simp
  have bs: "bs = (pre @ frame k @ frame v) @ ?post" using Cons.prems kv by simp
  have slice: "slice_or_default bs (length pre, length (pre @ frame k @ frame v)) = frame k @ frame v"
    by (simp add: bs slice_or_default_def slice_get_def)
  note ih = Cons.IH [OF _ bs, of "if v = None then kept else kept @ [(length pre, length (pre @ frame k @ frame v))]"
      "if v = None then d + 1 else d"]
  show ?case
    using ih Cons.prems(1) key val slice by (cases v) (auto simp: kv simp del: append_assoc length_append frame.simps)
qed simp

lemma strip_map_value:
  assumes "int (length kvs) \<le> i32_max" "\<forall>kv \<in> set kvs. short (fst kv) \<and> short (snd kv)"
    and "length (map_value kvs) \<le> u64_max"
  shows "strip_null_map_values (map_value kvs) = Inr (map_value (filter (\<lambda>kv. snd kv \<noteq> None) kvs))"
proof -
  let ?bs = "map_value kvs" and ?n = "length (filter (\<lambda>kv. snd kv = None) kvs)"
  have n: "in_i32 (int (length kvs))" using assms(1) by (simp add: in_i32_def i32_min_def)
  have total: "length kvs = ?n + length (filter (\<lambda>kv. snd kv \<noteq> None) kvs)"
    using sum_length_filter_compl [of "\<lambda>kv. snd kv = None" kvs] by simp
  have read: "read_i32_at ?bs 0 = Inr (int (length kvs))"
    using read_i32_at_frame(1) [of ?bs "[]" "int (length kvs)" "concat (map entry_frame kvs)"] n assms(3)
    by (simp add: map_value_def)
  obtain kept where loop: "strip_loop ?bs (length kvs) 4 [] 0 = Inr (kept, int ?n)"
    and kept: "concat (map (slice_or_default ?bs) kept) = concat (map entry_frame (filter (\<lambda>kv. snd kv \<noteq> None) kvs))"
    using strip_loop_frames [OF assms(3,2), of "be_bytes 4 (int (length kvs))" "[]" 0] by (auto simp: map_value_def)
  have out: "strip_null_map_values ?bs = Inr (if int ?n = 0 then ?bs else be_bytes 4 (max i32_min (int (length kvs) - int ?n))
       @ concat (map entry_frame (filter (\<lambda>kv. snd kv \<noteq> None) kvs)))"
    using loop by (simp add: strip_null_map_values_def read kept)
  show ?thesis
  proof (cases "?n = 0")
    case True
    then have "filter (\<lambda>kv. snd kv \<noteq> None) kvs = kvs" by (auto simp: filter_empty_conv filter_id_conv)
    then show ?thesis using out True by simp
  next
    case False
    have "max i32_min (int (length kvs) - int ?n) = int (length (filter (\<lambda>kv. snd kv \<noteq> None) kvs))"
      using total by (simp add: i32_min_def)
    then show ?thesis using out False by (simp add: map_value_def)
  qed
qed

text \<open>
  Removing null map values (MIG-014) removes exactly the null entries: for the serialised form of
  any list of entries, the result is the serialised form of the entries whose value is not null, in
  order, with the element count adjusted; well-formed input is never reported as truncated.
\<close>

theorem strip_null_values_exact:
  assumes "int (length kvs) \<le> i32_max" "\<forall>kv \<in> set kvs. short (fst kv) \<and> short (snd kv)"
    and "length (map_value kvs) \<le> u64_max"
  shows "strip_null_map_values (map_value kvs) = Inr (map_value (filter (\<lambda>kv. snd kv \<noteq> None) kvs))"
  by (rule strip_map_value [OF assms])

theorem strip_null_values_exact_witness:
  "strip_null_map_values (map_value [(Some [1], None), (Some [2], Some [3])]) = Inr (map_value [(Some [2], Some [3])])"
  using strip_null_values_exact [of "[(Some [1], None), (Some [2], Some [3])]"]
  by (simp add: i32_max_def u64_max_def map_value_def)

subsection \<open>Bound values are values of the target type\<close>

lemma convert_cell_conforms:
  assumes "codecs_sound (pn_registry pn)" "supported (plan_types pn ot tt)" "conforms ot bs"
    and "cb_plan c = plan_types pn ot tt" "convert_cell c bs = Inr out"
  shows "conforms tt out"
proof -
  note sound = soundD [OF plan_types_sound [OF assms(1,2)] assms(3)]
  have ident: "is_identity p \<Longrightarrow> apply_plan p (new_cell bs) = Inr (new_cell bs)" for p by (cases p) auto
  show ?thesis
  proof (cases "is_identity (cb_plan c)")
    case True
    then show ?thesis using assms(4,5) sound [of "new_cell bs"] ident by (auto simp: convert_cell_def new_cell_def)
  next
    case False
    then obtain converted where "apply_plan (plan_types pn ot tt) (new_cell bs) = Inr converted"
      and "out = (case cell_bytes converted of Some out \<Rightarrow> out | None \<Rightarrow> [])"
      using assms(4,5) by (auto simp: convert_cell_def bindR_Inr_iff)
    then show ?thesis using sound by (auto simp: new_cell_def)
  qed
qed

lemma strip_conforms:
  assumes "conforms (TMap k v f) bs" "length bs \<le> u64_max" "strip_null_map_values bs = Inr out"
  shows "conforms (TMap k v f) out"
  using assms(1)
proof (rule conforms_mapE)
  fix kvs
  assume bs: "bs = be_bytes 4 (int (length kvs)) @ concat (map (\<lambda>kv. frame (fst kv) @ frame (snd kv)) kvs)"
    and len: "int (length kvs) \<le> i32_max" and ok: "\<forall>kv \<in> set kvs. opt_ok (conforms k) (fst kv) \<and> opt_ok (conforms v) (snd kv)"
  have enc: "(\<lambda>kv. frame (fst kv) @ frame (snd kv)) = entry_frame" by (auto simp: fun_eq_iff)
  have short: "short e" if "opt_ok P e" for P e using that by (cases e) (auto simp: opt_ok_def)
  have bs': "bs = map_value kvs" using bs by (simp add: map_value_def enc)
  have out: "out = map_value (filter (\<lambda>kv. snd kv \<noteq> None) kvs)"
    using strip_map_value [OF len] ok short assms(2,3) bs' by auto
  have "length (filter (\<lambda>kv. snd kv \<noteq> None) kvs) \<le> length kvs" by simp
  then have "int (length (filter (\<lambda>kv. snd kv \<noteq> None) kvs)) \<le> i32_max" using len by linarith
  then show ?thesis using conforms.mp [of "filter (\<lambda>kv. snd kv \<noteq> None) kvs" k v f] ok by (simp add: out map_value_def enc)
qed

lemma substitute_conforms: "substitute mk ty = Some bs \<Longrightarrow> conforms ty bs"
  by (auto simp: substitute_def intro!: conforms.prim split: cql_type_info.splits if_splits)

lemma map_typeE: "is_map_type t \<Longrightarrow> (\<And>k v f. t = TMap k v f \<Longrightarrow> P) \<Longrightarrow> P"
  by (cases t) auto

lemma bind_column_conforms:
  assumes "codecs_sound (pn_registry pn)" "bind_column_of pn m i = Inr c" "mapping_source m i = Some (FromOrigin j)"
    and "parse_column_type (cmap_origin m ! j) Origin = Inr ot" "supported (plan_types pn ot (cb_type c))"
    and "r j = Some cell" "\<forall>bs. cell = Some bs \<longrightarrow> conforms ot bs"
    and "\<forall>bs out. cell = Some bs \<longrightarrow> convert_cell c bs = Inr out \<longrightarrow> length out \<le> u64_max"
    and "bind_column b c r inputs = Inr (Value out)"
  shows "conforms (cb_type c) out"
proof -
  note c = bind_column_ofD [OF assms(2)]
  have src: "cb_source c = FromOrigin j" using c(3) assms(3) by simp
  have pl: "cb_plan c = plan_types pn ot (cb_type c)"
    using c(5) assms(4) by (auto simp: src bind_plan_def list_get_def bindR_Inr_iff split: if_splits)
  show ?thesis
  proof (cases cell)
    case None
    then have "absent_value b c = Inr (Value out)"
      using assms(6,9) by (simp add: bind_column_def raw_value_def src)
    then show ?thesis
      using substitute_conforms by (auto simp: absent_value_def ok_or_def bindR_Inr_iff split: if_splits option.splits)
  next
    case (Some bs)
    obtain conv where conv: "convert_cell c bs = Inr conv"
      and out: "(if bd_map_remove_null_value b \<and> cb_is_map c then map_err Some (strip_null_map_values conv) else Inr conv) = Inr out"
      using assms(6,9) Some by (auto simp: bind_column_def raw_value_def src bindR_Inr_iff split: if_splits)
    have ok: "conforms (cb_type c) conv"
      using convert_cell_conforms [OF assms(1,5) _ pl conv] assms(7) Some by simp
    show ?thesis
    proof (cases "bd_map_remove_null_value b \<and> cb_is_map c")
      case True
      then show ?thesis using out ok strip_conforms assms(8) Some conv c(7) by (auto elim!: map_typeE)
    next
      case False
      then show ?thesis using out ok by (simp split: if_splits)
    qed
  qed
qed

text \<open>
  Claim C30. What is bound for a column that an origin column feeds is a value of that column's type: when the row's cell is a well-framed
  value of the origin column's declared type and the plan between the two declared types has no
  unsupported part, then whatever bytes the write binds at the column's marker, converted, stripped of
  null map entries or substituted for a missing key, are a well-framed value of the target column's
  declared type, provided every codec in use produces values of its target type.
\<close>

theorem bound_values_conform:
  assumes "codecs_sound (pn_registry pn)" "new_binder m up pn mk strip = Inr b" "bind_row b r inputs = Inr w"
    and "bind_position up i = Some k" "bound_values w ! k = Value out" "mapping_source m i = Some (FromOrigin j)"
    and "parse_column_type (cmap_origin m ! j) Origin = Inr ot" "parse_column_type (cmap_target m ! i) Target = Inr tt"
    and "supported (plan_types pn ot tt)" "r j = Some cell" "\<forall>bs. cell = Some bs \<longrightarrow> conforms ot bs"
    and "\<forall>bs out. cell = Some bs \<longrightarrow> convert_cell (bd_columns b ! i) bs = Inr out \<longrightarrow> length out \<le> u64_max"
  shows "conforms tt out"
proof -
  note b = new_binderD [OF assms(2)]
  have at: "i < length (bd_columns b)" "bind_column b (bd_columns b ! i) r inputs = Inr (Value out)"
    using bound_at_position(2,3) [OF assms(3), of i k] assms(4,5) b(1) by simp_all
  note c = b(5) [OF at(1) [unfolded b(2)]]
  have "cb_type (bd_columns b ! i) = tt" using bind_column_ofD(4) [OF c] assms(8) by simp
  then show ?thesis using bind_column_conforms [OF assms(1) c assms(6,7) _ assms(10-12) at(2)] assms(9) by simp
qed

subsection \<open>A row bound end to end\<close>

definition demo_upsert :: target_upsert where
  "demo_upsert = upsert_insert demo_mapping ttl_only"

definition demo_planner :: planner where
  "demo_planner = \<lparr>pn_registry = [], pn_compat_java = False\<rparr>"

definition demo_policy :: missing_key_policy where
  "demo_policy = \<lparr>mk_ts_replace = None\<rparr>"

definition demo_inputs :: bind_inputs where
  "demo_inputs = \<lparr>bi_ttl = None, bi_writetime = None, bi_explode_key = None, bi_explode_value = None,
     bi_extracted_json = None, bi_key = None\<rparr>"

definition demo_row :: row where
  "demo_row = Row [new_cell [0, 0, 0, 7], new_cell [104]]"

definition demo_binder :: row_binder where
  "demo_binder = (case new_binder demo_mapping demo_upsert demo_planner demo_policy False of Inr b \<Rightarrow> b)"

lemma demo_upsert_new: "new_upsert demo_mapping ttl_only = Inr demo_upsert" by code_simp

lemma demo_binder_new: "new_binder demo_mapping demo_upsert demo_planner demo_policy False = Inr demo_binder"
proof -
  have "is_ok (new_binder demo_mapping demo_upsert demo_planner demo_policy False)" by code_simp
  then show ?thesis by (auto simp: is_ok_def demo_binder_def split: sum.splits)
qed

lemma demo_bound: "bind_row demo_binder (source_cell demo_row) demo_inputs
    = Inr (IdempotentWrite [Value [0, 0, 0, 7], Unset, Value [104], Unset])"
  by code_simp

theorem bound_row_fills_statement_witness:
  "\<exists>k bs. bind_position demo_upsert 0 = Some k
     \<and> bound_values (IdempotentWrite [Value [0, 0, 0, 7], Unset, Value [104], Unset]) ! k = Value bs"
proof -
  have facts: "distinct (map cm_name (ts_columns demo_target))" "0 < length (ts_columns demo_target)"
    "kind_is_key (cm_kind (ts_columns demo_target ! 0))" "\<not> is_constant_at demo_mapping 0" by code_simp+
  show ?thesis
    using bound_row_fills_statement [OF demo_resolves facts(1) demo_upsert_new demo_binder_new demo_bound] facts(2-4)
    by blast
qed

definition demo_select :: target_select where
  "demo_select = (case target_select_by_pk demo_mapping of Inr s \<Rightarrow> s)"

definition demo_key_binding :: key_binding where
  "demo_key_binding = \<lparr>kb_indices = [0]\<rparr>"

theorem bound_values_conform_witness:
  "\<exists>w. bind_row demo_binder (source_cell demo_row) demo_inputs = Inr w \<and> bound_values w ! 0 = Value [0, 0, 0, 7]
   \<and> parse_column_type (cmap_target demo_mapping ! 0) Target = Inr (TPrim CqlInt)
   \<and> conforms (TPrim CqlInt) [0, 0, 0, 7]"
proof -
  have types: "parse_column_type (cmap_origin demo_mapping ! 0) Origin = Inr (TPrim CqlInt)"
    "parse_column_type (cmap_target demo_mapping ! 0) Target = Inr (TPrim CqlInt)"
    and at: "bind_position demo_upsert 0 = Some 0" "mapping_source demo_mapping 0 = Some (FromOrigin 0)"
    "source_cell demo_row 0 = Some (Some [0, 0, 0, 7])" "is_identity (cb_plan (bd_columns demo_binder ! 0))"
    by code_simp+
  have codecs: "codecs_sound (pn_registry demo_planner)" by (simp add: codecs_sound_def demo_planner_def)
  have pl: "supported (plan_types demo_planner (TPrim CqlInt) (TPrim CqlInt))" by (subst plan_types.simps) simp
  have fits: "length out \<le> u64_max" if "convert_cell (bd_columns demo_binder ! 0) [0, 0, 0, 7] = Inr out" for out
    using that at(4) by (auto simp: convert_cell_def u64_max_def)
  show ?thesis
    using bound_values_conform [OF codecs demo_binder_new demo_bound at(1) _ at(2) types pl at(3)] fits types(2) demo_bound
    by (simp add: conforms.prim)
qed

end
