(* ===== verification/Migrate_Buffer.thy ===== *)
theory Migrate_Buffer
  imports Cql_Bind Sched_Run
begin

text \<open>
  The write buffer of the migrate job: \<open>crates/cdm-engine/src/jobs/migrate/settings.rs\<close>, \<open>counters.rs\<close>,
  \<open>sink.rs\<close> and \<open>buffer.rs\<close>. A buffer holds the open batch and the requests in flight, together with the
  counters of the range. What the driver does is the environment: whether the \<open>n\<close>-th in-flight slot is
  granted, how the \<open>n\<close>-th request ends, and in which order the requests in flight complete. The rate
  limiter only delays and is left out.

  The lemmas show what a flush credits, how many rows a buffer can hold, that batches stay within their
  size and, under strict grouping, within one partition, and that every row handed over is sent exactly
  once, in order.
\<close>

subsection \<open>Settings\<close>

datatype batch_grouping = Strict | Legacy

datatype batch_coercion = CounterTable | WritetimeFilter | NotABatch

fun coercion_reason :: "batch_coercion \<Rightarrow> string" where
  "coercion_reason CounterTable =
     ''the target is a counter table, and a counter update must never be batched (MIG-021, MIG-032)''"
| "coercion_reason WritetimeFilter =
     ''a writetime filter is active, which Java also coerces to a batch size of 1 (MIG-021)''"
| "coercion_reason NotABatch = ''the configured batch size is less than 1 (MIG-021)''"

record migrate_settings =
  ms_configured_batch_size :: u32
  ms_batch_size :: u32
  ms_coercion :: "batch_coercion option"
  ms_fetch_size :: u32
  ms_flush_threshold :: u64
  ms_grouping :: batch_grouping
  ms_dry_run :: bool

definition flush_threshold :: "u32 \<Rightarrow> u32 \<Rightarrow> u64" where
  "flush_threshold fetch_size batch_size =
     (let batched = sat_mul u64_max batch_size 10;
          least = (if batched > 100 then batched else 100) in
      if fetch_size < least then fetch_size else least)"

definition new_migrate_settings ::
  "u32 \<Rightarrow> u32 \<Rightarrow> batch_grouping \<Rightarrow> bool \<Rightarrow> bool \<Rightarrow> bool \<Rightarrow> migrate_settings" where
  "new_migrate_settings batch_size fetch_size grouping counter_target writetime_filter dry_run =
     (let coercion = (if counter_target then Some CounterTable
                      else if writetime_filter then Some WritetimeFilter
                      else if batch_size < 1 then Some NotABatch
                      else None);
          effective = (if coercion \<noteq> None then 1 else batch_size) in
      \<lparr>ms_configured_batch_size = batch_size, ms_batch_size = effective, ms_coercion = coercion,
       ms_fetch_size = fetch_size, ms_flush_threshold = flush_threshold fetch_size effective,
       ms_grouping = grouping, ms_dry_run = dry_run\<rparr>)"

definition default_migrate_settings :: migrate_settings where
  "default_migrate_settings = new_migrate_settings 5 1000 Strict False False False"

definition is_batching :: "migrate_settings \<Rightarrow> bool" where
  "is_batching s \<longleftrightarrow> 1 < ms_batch_size s"

definition should_flush :: "migrate_settings \<Rightarrow> u64 \<Rightarrow> bool" where
  "should_flush s unflushed_interim \<longleftrightarrow> ms_flush_threshold s \<le> unflushed_interim"

subsection \<open>Counters\<close>

record migrate_counters =
  mc_read :: counter_token
  mc_write :: counter_token
  mc_skipped :: counter_token
  mc_error :: counter_token
  mc_unflushed :: counter_token

definition resolve_counters :: "job_counters \<Rightarrow> migrate_counters result" where
  "resolve_counters c =
     bindR (counter_of c CRead) (\<lambda>r.
     bindR (counter_of c CWrite) (\<lambda>w.
     bindR (counter_of c CSkipped) (\<lambda>s.
     bindR (counter_of c CError) (\<lambda>e.
     bindR (counter_of c CUnflushed) (\<lambda>u.
       Inr \<lparr>mc_read = r, mc_write = w, mc_skipped = s, mc_error = e, mc_unflushed = u\<rparr>)))))"

definition unflushed_count :: "migrate_counters \<Rightarrow> job_counters \<Rightarrow> u64" where
  "unflushed_count mc c = counter_count c (mc_unflushed mc) Interim"

subsection \<open>The sink and the buffer\<close>

datatype request = ReqWrite "bound_value list" | ReqBatch "bound_value list list"

record sink_env =
  se_slot :: "usize \<Rightarrow> unit result"
  se_outcome :: "usize \<Rightarrow> request \<Rightarrow> unit result"
  se_completion :: "(usize \<times> request) list \<Rightarrow> (usize \<times> request) list"

text \<open>\<open>DryRunSink\<close>: every write succeeds at once.\<close>

definition dry_run_sink :: "sink_env \<Rightarrow> sink_env" where
  "dry_run_sink env = env\<lparr>se_outcome := \<lambda>_ _. Inr ()\<rparr>"

record write_buffer =
  wb_counters :: job_counters
  wb_batch :: "bound_value list list"
  wb_inflight :: "(usize \<times> request) list"
  wb_issued :: "(usize \<times> request) list"
  wb_flushes :: u64

text \<open>\<open>wb_issued\<close> is the history of all requests, numbered in the order they were issued.\<close>

definition new_buffer :: "job_counters \<Rightarrow> write_buffer" where
  "new_buffer c = \<lparr>wb_counters = c, wb_batch = [], wb_inflight = [], wb_issued = [], wb_flushes = 0\<rparr>"

definition grouping_positions :: "migrate_settings \<Rightarrow> usize list \<Rightarrow> usize list" where
  "grouping_positions s partition_positions =
     (case ms_grouping s of Strict \<Rightarrow> partition_positions | Legacy \<Rightarrow> [])"

definition same_value :: "bound_value \<Rightarrow> bound_value \<Rightarrow> bool" where
  "same_value l r \<longleftrightarrow> bound_bytes l = bound_bytes r"

definition same_partition :: "usize list \<Rightarrow> bound_value list list \<Rightarrow> bound_value list \<Rightarrow> bool" where
  "same_partition positions batch write =
     (if positions = [] then True
      else if batch = [] then True
      else list_all (\<lambda>position.
             case (list_get (last batch) position, list_get write position) of
               (Some a, Some b) \<Rightarrow> same_value a b
             | _ \<Rightarrow> True) positions)"

text \<open>A step that may fail: the error and the state it leaves, or the state to go on with.\<close>

type_synonym 's step = "'s \<Rightarrow> unit result \<times> 's"

definition and_then :: "'s step \<Rightarrow> 's step \<Rightarrow> 's step" where
  "and_then f g st = (case f st of (Inl e, st') \<Rightarrow> (Inl e, st') | (Inr _, st') \<Rightarrow> g st')"

definition issue :: "sink_env \<Rightarrow> request \<Rightarrow> write_buffer step" where
  "issue env req st =
     (let n = length (wb_issued st) in
      case se_slot env n of
        Inl e \<Rightarrow> (Inl e, st)
      | Inr _ \<Rightarrow> (Inr (), st\<lparr>wb_inflight := wb_inflight st @ [(n, req)], wb_issued := wb_issued st @ [(n, req)]\<rparr>))"

definition send_batch :: "sink_env \<Rightarrow> write_buffer step" where
  "send_batch env st =
     (if wb_batch st = [] then (Inr (), st)
      else issue env (ReqBatch (wb_batch st)) (st\<lparr>wb_batch := []\<rparr>))"

fun first_failure :: "sink_env \<Rightarrow> (usize \<times> request) list \<Rightarrow> cdm_error option" where
  "first_failure env [] = None"
| "first_failure env ((n, req) # rest) =
     (case se_outcome env n req of Inl e \<Rightarrow> Some e | Inr _ \<Rightarrow> first_failure env rest)"

definition drain :: "sink_env \<Rightarrow> migrate_counters \<Rightarrow> write_buffer step" where
  "drain env mc st =
     (let failed = first_failure env (se_completion env (wb_inflight st));
          st1 = st\<lparr>wb_inflight := []\<rparr> in
      case failed of
        Some e \<Rightarrow> (Inl e, st1)
      | None \<Rightarrow>
          let c = wb_counters st1; unflushed = unflushed_count mc c;
              c' = (if 0 < unflushed
                    then reset_counter (mc_unflushed mc) (increment_by (mc_write mc) unflushed c) else c) in
          (Inr (), st1\<lparr>wb_counters := c', wb_flushes := sat_add u64_max (wb_flushes st1) 1\<rparr>))"

definition buffer_flush :: "sink_env \<Rightarrow> migrate_counters \<Rightarrow> write_buffer step" where
  "buffer_flush env mc = and_then (send_batch env) (drain env mc)"

definition count_issued :: "sink_env \<Rightarrow> migrate_settings \<Rightarrow> migrate_counters \<Rightarrow> write_buffer step" where
  "count_issued env s mc st =
     (let c = increment_one (mc_unflushed mc) (wb_counters st); st' = st\<lparr>wb_counters := c\<rparr> in
      if should_flush s (unflushed_count mc c) then buffer_flush env mc st' else (Inr (), st'))"

definition accept_write :: "sink_env \<Rightarrow> migrate_settings \<Rightarrow> usize list \<Rightarrow> bound_value list \<Rightarrow> write_buffer step" where
  "accept_write env s positions write =
     (if is_batching s then
        and_then (\<lambda>st. if wb_batch st \<noteq> [] \<and> \<not> same_partition positions (wb_batch st) write
                       then send_batch env st else (Inr (), st))
          (\<lambda>st. let st' = st\<lparr>wb_batch := wb_batch st @ [write]\<rparr> in
                if ms_batch_size s \<le> length (wb_batch st') then send_batch env st' else (Inr (), st'))
      else issue env (ReqWrite write))"

definition push :: "sink_env \<Rightarrow> migrate_settings \<Rightarrow> migrate_counters \<Rightarrow> usize list \<Rightarrow> bound_value list \<Rightarrow> write_buffer step" where
  "push env s mc positions write = and_then (accept_write env s positions write) (count_issued env s mc)"

definition push_counter_written :: "sink_env \<Rightarrow> migrate_settings \<Rightarrow> migrate_counters \<Rightarrow> write_buffer step" where
  "push_counter_written env s mc = count_issued env s mc"

subsection \<open>Counter levels of a migrate range\<close>

abbreviation lv :: "job_counters \<Rightarrow> counter_kind \<Rightarrow> u64" where
  "lv c k \<equiv> count_of c k Interim"

definition migrate_range :: "job_counters \<Rightarrow> bool" where
  "migrate_range c \<longleftrightarrow> wf_counters c \<and> jc_job c = Migrate"

definition migrate_tokens :: migrate_counters where
  "migrate_tokens = \<lparr>mc_read = Counter CRead Migrate, mc_write = Counter CWrite Migrate,
     mc_skipped = Counter CSkipped Migrate, mc_error = Counter CError Migrate, mc_unflushed = Counter CUnflushed Migrate\<rparr>"

lemma migrate_tokens_simps [simp]:
  "mc_read migrate_tokens = Counter CRead Migrate" "mc_write migrate_tokens = Counter CWrite Migrate"
  "mc_skipped migrate_tokens = Counter CSkipped Migrate" "mc_error migrate_tokens = Counter CError Migrate"
  "mc_unflushed migrate_tokens = Counter CUnflushed Migrate"
  by (simp_all add: migrate_tokens_def)

lemma token_of:
  "jc_job c = Migrate \<Longrightarrow> k \<in> {CRead, CWrite, CSkipped, CError, CUnflushed} \<Longrightarrow> counter_of c k = Inr (Counter k Migrate)"
  by (auto simp: counter_of_def is_registered_for_def)

lemma resolve_tokens: "jc_job c = Migrate \<Longrightarrow> resolve_counters c = Inr migrate_tokens"
  by (simp add: resolve_counters_def token_of migrate_tokens_def)

lemma bump_level:
  assumes "migrate_range c" "k \<in> {CRead, CWrite, CSkipped, CError, CUnflushed}"
  shows "migrate_range (increment_by (Counter k Migrate) n c)"
    "lv (increment_by (Counter k Migrate) n c) j = (if j = k then (lv c k + n) mod 2 ^ 64 else lv c j)"
    "count_of (increment_by (Counter k Migrate) n c) j Committed = count_of c j Committed"
  using assms increment_level [of c k "Counter k Migrate" n] token_of [of c k] by (auto simp: migrate_range_def)

lemma reset_level:
  assumes "migrate_range c" "k \<in> {CRead, CWrite, CSkipped, CError, CUnflushed}"
  shows "migrate_range (reset_counter (Counter k Migrate) c)"
    "lv (reset_counter (Counter k Migrate) c) j = (if j = k then 0 else lv c j)"
  using assms wf_modify_unit [of c unit_reset_interim k] wf_unit [of c k]
  by (auto simp: migrate_range_def reset_counter_def count_of_def is_registered_def counter_unit_modify unit_reset_interim_def unit_ok_def)

lemma unflushed_level: "jc_job c = Migrate \<Longrightarrow> unflushed_count migrate_tokens c = lv c CUnflushed"
  by (simp add: unflushed_count_def counter_count_def count_of_def is_registered_def is_registered_for_def)

lemma level_range: "migrate_range c \<Longrightarrow> lv c k < 2 ^ 64"
  using wf_unit [of c k] by (auto simp: migrate_range_def count_of_def unit_ok_def)

subsection \<open>What a step does to the rows\<close>

fun request_rows :: "request \<Rightarrow> bound_value list list" where
  "request_rows (ReqWrite w) = [w]"
| "request_rows (ReqBatch ws) = ws"

definition rows_of :: "(usize \<times> request) list \<Rightarrow> bound_value list list" where
  "rows_of reqs = concat (map (request_rows \<circ> snd) reqs)"

lemma rows_of_simps [simp]: "rows_of [] = []" "rows_of (a @ b) = rows_of a @ rows_of b" "rows_of ((n, r) # b) = request_rows r @ rows_of b"
  by (simp_all add: rows_of_def)

text \<open>\<open>st'\<close> has issued the requests \<open>new\<close> since \<open>st\<close>, and nothing has completed or been counted.\<close>

definition issues :: "(usize \<times> request) list \<Rightarrow> write_buffer \<Rightarrow> write_buffer \<Rightarrow> bool" where
  "issues new st st' \<longleftrightarrow> wb_issued st' = wb_issued st @ new \<and> wb_inflight st' = wb_inflight st @ new
     \<and> wb_counters st' = wb_counters st \<and> wb_flushes st' = wb_flushes st"

lemma issues_refl [simp]: "issues [] st st"
  by (simp add: issues_def)

lemma issues_trans: "issues a st st1 \<Longrightarrow> issues b st1 st2 \<Longrightarrow> issues (a @ b) st st2"
  by (simp add: issues_def)

lemma and_then_Inr:
  "and_then f g st = (Inr u, st') \<longleftrightarrow> (\<exists>v st1. f st = (Inr v, st1) \<and> g st1 = (Inr u, st'))"
  by (auto simp: and_then_def split: prod.splits sum.splits)

lemma issue_Inr:
  "issue env req st = (Inr u, st') \<Longrightarrow> \<exists>n. issues [(n, req)] st st' \<and> wb_batch st' = wb_batch st"
  by (auto simp: issue_def Let_def issues_def split: sum.splits)

lemma send_batch_Inr:
  assumes "send_batch env st = (Inr u, st')"
  shows "wb_batch st' = []"
    "\<exists>new. issues new st st' \<and> rows_of new = wb_batch st
       \<and> (\<forall>req \<in> snd ` set new. req = ReqBatch (wb_batch st) \<and> wb_batch st \<noteq> [])"
proof -
  have "wb_batch st' = [] \<and> (\<exists>new. issues new st st' \<and> rows_of new = wb_batch st
       \<and> (\<forall>req \<in> snd ` set new. req = ReqBatch (wb_batch st) \<and> wb_batch st \<noteq> []))"
  proof (cases "wb_batch st = []")
    case True
    then show ?thesis using assms issues_refl [of st] by (auto simp: send_batch_def intro: exI [of _ "[]"])
  next
    case False
    then obtain n where n: "issues [(n, ReqBatch (wb_batch st))] (st\<lparr>wb_batch := []\<rparr>) st'" "wb_batch st' = []"
      using assms issue_Inr [of env "ReqBatch (wb_batch st)" "st\<lparr>wb_batch := []\<rparr>" u st'] by (auto simp: send_batch_def)
    then have "issues [(n, ReqBatch (wb_batch st))] st st'" by (simp add: issues_def)
    then show ?thesis using n(2) False by (auto intro!: exI [of _ "[(n, ReqBatch (wb_batch st))]"])
  qed
  then show "wb_batch st' = []" "\<exists>new. issues new st st' \<and> rows_of new = wb_batch st
       \<and> (\<forall>req \<in> snd ` set new. req = ReqBatch (wb_batch st) \<and> wb_batch st \<noteq> [])" by simp_all
qed

lemma maybe_send_Inr:
  assumes "(if P then send_batch env st else (Inr (), st)) = (Inr v, st1)"
  shows "\<exists>a. issues a st st1 \<and> rows_of a @ wb_batch st1 = wb_batch st"
proof (cases P)
  case True
  then show ?thesis using assms send_batch_Inr [of env st v st1] by fastforce
next
  case False
  then show ?thesis using assms by (intro exI [of _ "[]"]) simp
qed

lemma accept_write_Inr:
  assumes "accept_write env s ps w st = (Inr u, st')" "is_batching s \<or> wb_batch st = []"
  shows "\<exists>new. issues new st st' \<and> rows_of new @ wb_batch st' = wb_batch st @ [w] \<and> (is_batching s \<or> wb_batch st' = [])"
proof (cases "is_batching s")
  case False
  then have "issue env (ReqWrite w) st = (Inr u, st')" using assms by (simp add: accept_write_def)
  from issue_Inr [OF this] obtain n where "issues [(n, ReqWrite w)] st st'" "wb_batch st' = wb_batch st" by blast
  then show ?thesis using assms(2) False by (intro exI [of _ "[(n, ReqWrite w)]"]) simp
next
  case True
  then obtain v st1 where first: "(if wb_batch st \<noteq> [] \<and> \<not> same_partition ps (wb_batch st) w then send_batch env st else (Inr (), st)) = (Inr v, st1)"
    and second: "(if ms_batch_size s \<le> Suc (length (wb_batch st1)) then send_batch env (st1\<lparr>wb_batch := wb_batch st1 @ [w]\<rparr>)
       else (Inr (), st1\<lparr>wb_batch := wb_batch st1 @ [w]\<rparr>)) = (Inr u, st')"
    using assms by (auto simp: accept_write_def and_then_Inr Let_def)
  obtain a where a: "issues a st st1" "rows_of a @ wb_batch st1 = wb_batch st"
    using maybe_send_Inr [OF first] by blast
  have "\<exists>b. issues b (st1\<lparr>wb_batch := wb_batch st1 @ [w]\<rparr>) st' \<and> rows_of b @ wb_batch st' = wb_batch st1 @ [w]"
    using maybe_send_Inr [of "ms_batch_size s \<le> Suc (length (wb_batch st1))" env "st1\<lparr>wb_batch := wb_batch st1 @ [w]\<rparr>" u st'] second
    by simp
  then obtain b where b: "issues b st1 st'" "rows_of b @ wb_batch st' = wb_batch st1 @ [w]"
    by (auto simp: issues_def)
  have both: "rows_of a @ rows_of b @ wb_batch st' = wb_batch st @ [w]" using a(2) b(2) by (metis append_assoc)
  show ?thesis
    using issues_trans [OF a(1) b(1)] both True by (intro exI [of _ "a @ b"]) simp
qed

subsection \<open>Rows are sent once, in order, and credited when acknowledged\<close>

text \<open>
  The state after the rows \<open>ws\<close> were accepted: what was issued and the open batch are these rows in order,
  every request that is no longer in flight was acknowledged, the rows still to be credited are
  exactly those in flight or in the batch, and the rest is credited to \<open>WRITE\<close>.
\<close>

definition settled :: "sink_env \<Rightarrow> migrate_settings \<Rightarrow> u64 \<Rightarrow> bound_value list list \<Rightarrow> write_buffer \<Rightarrow> bool" where
  "settled env s w0 ws st \<longleftrightarrow> migrate_range (wb_counters st) \<and> (is_batching s \<or> wb_batch st = [])
     \<and> rows_of (wb_issued st) @ wb_batch st = ws
     \<and> (\<exists>finished. wb_issued st = finished @ wb_inflight st
          \<and> (\<forall>(n, req) \<in> set finished. se_outcome env n req = Inr ())
          \<and> lv (wb_counters st) CWrite = (w0 + length (rows_of finished)) mod 2 ^ 64)
     \<and> lv (wb_counters st) CUnflushed = length (rows_of (wb_inflight st)) + length (wb_batch st)"

text \<open>The environment completes the requests that are in flight, each once, in some order.\<close>

definition fair_completion :: "sink_env \<Rightarrow> bool" where
  "fair_completion env \<longleftrightarrow> (\<forall>reqs. mset (se_completion env reqs) = mset reqs)"

lemma first_failure_None: "first_failure env reqs = None \<longleftrightarrow> (\<forall>(n, req) \<in> set reqs. se_outcome env n req = Inr ())"
  by (induction reqs) (auto split: sum.splits)

lemma send_batch_settled:
  assumes "settled env s w0 ws st" "send_batch env st = (Inr u, st')"
  shows "settled env s w0 ws st'" "wb_batch st' = []" "wb_counters st' = wb_counters st"
proof -
  obtain new where new: "issues new st st'" "rows_of new = wb_batch st" using send_batch_Inr(2) [OF assms(2)] by blast
  show "wb_batch st' = []" by (rule send_batch_Inr(1) [OF assms(2)])
  then show "settled env s w0 ws st'" using assms(1) new by (auto simp: settled_def issues_def)
  show "wb_counters st' = wb_counters st" using new(1) by (simp add: issues_def)
qed

lemma drain_settled:
  assumes "fair_completion env" "settled env s w0 ws st" "wb_batch st = []" "drain env migrate_tokens st = (Inr u, st')"
  shows "settled env s w0 ws st'" "wb_inflight st' = []" "wb_batch st' = []"
proof -
  let ?c = "wb_counters st"
  have ok: "migrate_range ?c" "jc_job ?c = Migrate" using assms(2) by (simp_all add: settled_def migrate_range_def)
  have none: "first_failure env (se_completion env (wb_inflight st)) = None"
    and st': "st' = st\<lparr>wb_inflight := [], wb_flushes := sat_add u64_max (wb_flushes st) 1,
       wb_counters := (if 0 < lv ?c CUnflushed
         then reset_counter (Counter CUnflushed Migrate) (increment_by (Counter CWrite Migrate) (lv ?c CUnflushed) ?c) else ?c)\<rparr>"
    using assms(4) unflushed_level [OF ok(2)] by (auto simp: drain_def Let_def split: option.splits)
  have "set (se_completion env (wb_inflight st)) = set (wb_inflight st)"
    using assms(1) unfolding fair_completion_def by (metis set_mset_mset)
  then have acked: "\<forall>(n, req) \<in> set (wb_inflight st). se_outcome env n req = Inr ()"
    using none by (simp add: first_failure_None)
  have levels: "migrate_range (wb_counters st')" "lv (wb_counters st') CUnflushed = 0"
    "lv (wb_counters st') CWrite = (lv ?c CWrite + lv ?c CUnflushed) mod 2 ^ 64"
    using ok(1) level_range [OF ok(1)] by (simp_all add: st' bump_level reset_level)
  obtain finished where f: "wb_issued st = finished @ wb_inflight st"
      "\<forall>(n, req) \<in> set finished. se_outcome env n req = Inr ()"
      "lv ?c CWrite = (w0 + length (rows_of finished)) mod 2 ^ 64"
      "lv ?c CUnflushed = length (rows_of (wb_inflight st))" "rows_of (wb_issued st) = ws"
    using assms(2,3) by (auto simp: settled_def)
  have "\<forall>(n, req) \<in> set (wb_issued st). se_outcome env n req = Inr ()"
    using f(1,2) acked by auto
  moreover have "lv (wb_counters st') CWrite = (w0 + length (rows_of (wb_issued st))) mod 2 ^ 64"
    unfolding levels(3) f(3,4) by (simp add: f(1) mod_add_left_eq add.assoc)
  ultimately show "settled env s w0 ws st'" using levels f(5) assms(3) by (simp add: settled_def st')
  show "wb_inflight st' = []" "wb_batch st' = []" using assms(3) by (simp_all add: st')
qed

lemma buffer_flush_settled:
  assumes "fair_completion env" "settled env s w0 ws st" "buffer_flush env migrate_tokens st = (Inr u, st')"
  shows "settled env s w0 ws st'" "wb_inflight st' = []" "wb_batch st' = []"
proof -
  obtain v st1 where "send_batch env st = (Inr v, st1)" and d: "drain env migrate_tokens st1 = (Inr u, st')"
    using assms(3) unfolding buffer_flush_def and_then_Inr by blast
  note s1 = send_batch_settled [OF assms(2) this(1)]
  show "settled env s w0 ws st'" "wb_inflight st' = []" "wb_batch st' = []"
    using drain_settled [OF assms(1) s1(1,2) d] by simp_all
qed

definition under_threshold :: "migrate_settings \<Rightarrow> write_buffer \<Rightarrow> bool" where
  "under_threshold s st \<longleftrightarrow> lv (wb_counters st) CUnflushed = 0 \<or> lv (wb_counters st) CUnflushed < ms_flush_threshold s"

lemma drained_is_zero: "settled env s w0 ws st \<Longrightarrow> wb_inflight st = [] \<Longrightarrow> wb_batch st = [] \<Longrightarrow> lv (wb_counters st) CUnflushed = 0"
  by (simp add: settled_def)

lemma count_issued_step:
  assumes "migrate_range (wb_counters st)" "c = increment_by (Counter CUnflushed Migrate) 1 (wb_counters st)"
  shows "count_issued env s migrate_tokens st =
    (if ms_flush_threshold s \<le> lv c CUnflushed then buffer_flush env migrate_tokens (st\<lparr>wb_counters := c\<rparr>)
     else (Inr (), st\<lparr>wb_counters := c\<rparr>))"
  using assms bump_level(1) [OF assms(1), of CUnflushed 1] unflushed_level [of c]
  by (simp add: count_issued_def Let_def increment_one_def should_flush_def migrate_range_def)

lemma push_settled:
  assumes "fair_completion env" "settled env s w0 ws st" "under_threshold s st" "ms_flush_threshold s < 2 ^ 64"
    and "push env s migrate_tokens ps w st = (Inr u, st')"
  shows "settled env s w0 (ws @ [w]) st'" "under_threshold s st'"
proof -
  obtain v st1 where acc: "accept_write env s ps w st = (Inr v, st1)" and cnt: "count_issued env s migrate_tokens st1 = (Inr u, st')"
    using assms(5) unfolding push_def and_then_Inr by blast
  obtain new where new: "issues new st st1" "rows_of new @ wb_batch st1 = wb_batch st @ [w]" "is_batching s \<or> wb_batch st1 = []"
    using accept_write_Inr [OF acc] assms(2) by (auto simp: settled_def)
  let ?c = "wb_counters st" and ?c2 = "increment_by (Counter CUnflushed Migrate) 1 (wb_counters st)"
  define st2 where "st2 = st1\<lparr>wb_counters := ?c2\<rparr>"
  have ok: "migrate_range ?c" using assms(2) by (simp add: settled_def)
  have "lv ?c CUnflushed + 1 < 2 ^ 64" using assms(3,4) by (auto simp: under_threshold_def)
  then have levels: "migrate_range ?c2" "lv ?c2 CUnflushed = lv ?c CUnflushed + 1" "lv ?c2 CWrite = lv ?c CWrite"
    using ok by (simp_all add: bump_level)
  have len: "length (rows_of new) + length (wb_batch st1) = length (wb_batch st) + 1"
    using arg_cong [OF new(2), of length] by simp
  have s2: "settled env s w0 (ws @ [w]) st2"
    using assms(2) new levels len unfolding settled_def issues_def st2_def
    by auto
  have step: "(if ms_flush_threshold s \<le> lv ?c2 CUnflushed then buffer_flush env migrate_tokens st2 else (Inr (), st2)) = (Inr u, st')"
    using cnt new(1) ok count_issued_step [of st1 ?c2 env s] by (simp add: st2_def issues_def)
  have "settled env s w0 (ws @ [w]) st' \<and> under_threshold s st'"
  proof (cases "ms_flush_threshold s \<le> lv ?c2 CUnflushed")
    case True
    then have "buffer_flush env migrate_tokens st2 = (Inr u, st')" using step by simp
    from buffer_flush_settled [OF assms(1) s2 this] show ?thesis
      using drained_is_zero by (auto simp: under_threshold_def)
  next
    case False
    then show ?thesis using step s2 by (auto simp: under_threshold_def st2_def)
  qed
  then show "settled env s w0 (ws @ [w]) st'" "under_threshold s st'" by simp_all
qed

fun push_all :: "sink_env \<Rightarrow> migrate_settings \<Rightarrow> migrate_counters \<Rightarrow> usize list \<Rightarrow> bound_value list list \<Rightarrow> write_buffer step" where
  "push_all env s mc ps [] = (\<lambda>st. (Inr (), st))"
| "push_all env s mc ps (w # ws) = and_then (push env s mc ps w) (push_all env s mc ps ws)"

lemma push_all_settled:
  assumes "fair_completion env" "ms_flush_threshold s < 2 ^ 64"
  shows "settled env s w0 done_rows st \<Longrightarrow> under_threshold s st \<Longrightarrow>
    push_all env s migrate_tokens ps ws st = (Inr u, st') \<Longrightarrow> settled env s w0 (done_rows @ ws) st' \<and> under_threshold s st'"
proof (induction ws arbitrary: done_rows st)
  case (Cons w ws)
  then obtain v st1 where "push env s migrate_tokens ps w st = (Inr v, st1)" "push_all env s migrate_tokens ps ws st1 = (Inr u, st')"
    by (auto simp: and_then_Inr)
  then show ?case using push_settled [OF assms(1) Cons.prems(1,2) assms(2)] Cons.IH [of "done_rows @ [w]" st1] by simp
qed simp

lemma new_buffer_settled:
  "migrate_range c \<Longrightarrow> lv c CUnflushed = 0 \<Longrightarrow> settled env s (lv c CWrite) [] (new_buffer c) \<and> under_threshold s (new_buffer c)"
  using level_range [of c CWrite] by (simp add: settled_def under_threshold_def new_buffer_def)

lemma threshold_bound: "flush_threshold fetch batch \<le> fetch"
  by (simp add: flush_threshold_def Let_def)

text \<open>
  Claim C8. WRITE is credited for writes the target acknowledged, and for nothing else (MIG-004, MIG-005): after
  a page's rows have been pushed and the final flush has succeeded, the requests that were issued hold
  exactly these rows, each once and in order, every one of these requests ended without an error, WRITE
  has grown by the number of rows, and nothing is left unflushed. In between, the rows that wait for a
  flush are always fewer than the flush threshold, so never more than one page.
\<close>

theorem flush_credits_acknowledged_rows:
  assumes "fair_completion env" "migrate_range c" "lv c CUnflushed = 0" "ms_flush_threshold s < 2 ^ 64"
    and "push_all env s migrate_tokens ps ws (new_buffer c) = (Inr u, st)"
    and "buffer_flush env migrate_tokens st = (Inr v, st')"
  shows "rows_of (wb_issued st') = ws
    \<and> (\<forall>(n, req) \<in> set (wb_issued st'). se_outcome env n req = Inr ())
    \<and> lv (wb_counters st') CWrite = (lv c CWrite + length ws) mod 2 ^ 64
    \<and> lv (wb_counters st') CUnflushed = 0
    \<and> (length (rows_of (wb_inflight st)) + length (wb_batch st) = 0
       \<or> length (rows_of (wb_inflight st)) + length (wb_batch st) < ms_flush_threshold s)"
proof -
  have st: "settled env s (lv c CWrite) ws st" "under_threshold s st"
    using push_all_settled [OF assms(1,4) _ _ assms(5)] new_buffer_settled [OF assms(2,3), of env s] by force+
  note st' = buffer_flush_settled [OF assms(1) st(1) assms(6)]
  show ?thesis using st st' by (auto simp: settled_def under_threshold_def)
qed

subsection \<open>Batches\<close>

definition one_partition :: "usize list \<Rightarrow> bound_value list list \<Rightarrow> bool" where
  "one_partition ps ws \<longleftrightarrow> (\<forall>a \<in> set ws. \<forall>b \<in> set ws. \<forall>p \<in> set ps. bound_bytes (a ! p) = bound_bytes (b ! p))"

definition wide :: "usize list \<Rightarrow> bound_value list \<Rightarrow> bool" where
  "wide ps w \<longleftrightarrow> (\<forall>p \<in> set ps. p < length w)"

fun request_fits :: "migrate_settings \<Rightarrow> usize list \<Rightarrow> request \<Rightarrow> bool" where
  "request_fits s ps (ReqWrite w) = (\<not> is_batching s)"
| "request_fits s ps (ReqBatch ws) = (is_batching s \<and> ws \<noteq> [] \<and> length ws \<le> ms_batch_size s \<and> one_partition ps ws)"

definition batches_ok :: "migrate_settings \<Rightarrow> usize list \<Rightarrow> write_buffer \<Rightarrow> bool" where
  "batches_ok s ps st \<longleftrightarrow> (\<forall>req \<in> snd ` set (wb_issued st). request_fits s ps req)
     \<and> one_partition ps (wb_batch st) \<and> (\<forall>w \<in> set (wb_batch st). wide ps w)
     \<and> (wb_batch st \<noteq> [] \<longrightarrow> is_batching s \<and> length (wb_batch st) < ms_batch_size s)"

lemma one_partition_Nil [simp]: "one_partition ps []"
  by (simp add: one_partition_def)

lemma same_partition_extends:
  assumes "same_partition ps ws w" "ws \<noteq> []" "one_partition ps ws" "\<forall>x \<in> set ws. wide ps x" "wide ps w"
  shows "one_partition ps (ws @ [w])"
proof -
  have "bound_bytes (last ws ! p) = bound_bytes (w ! p)" if p: "p \<in> set ps" for p
  proof -
    have "p < length (last ws)" "p < length w" using assms(2,4,5) p by (auto simp: wide_def)
    moreover have "ps \<noteq> []" using p by auto
    ultimately show ?thesis
      using assms(1,2) p by (auto simp: same_partition_def list_all_iff list_get_def same_value_def)
  qed
  then have "bound_bytes (a ! p) = bound_bytes (w ! p)" if "a \<in> set ws" "p \<in> set ps" for a p
    using assms(2,3) that by (metis last_in_set one_partition_def)
  then show ?thesis using assms(3) by (auto simp: one_partition_def)
qed

lemma issue_batches:
  assumes "issue env req st = (r, st')" "\<forall>q \<in> snd ` set (wb_issued st). request_fits s ps q" "request_fits s ps req"
  shows "(\<forall>q \<in> snd ` set (wb_issued st'). request_fits s ps q) \<and> wb_batch st' = wb_batch st"
  using assms by (auto simp: issue_def Let_def split: sum.splits)

lemma send_batch_batches:
  assumes "send_batch env st = (r, st')" "\<forall>q \<in> snd ` set (wb_issued st). request_fits s ps q"
    and "wb_batch st \<noteq> [] \<Longrightarrow> request_fits s ps (ReqBatch (wb_batch st))"
  shows "batches_ok s ps st' \<and> wb_batch st' = []"
proof (cases "wb_batch st = []")
  case True
  then have "st' = st" using assms(1) by (simp add: send_batch_def)
  then show ?thesis using True assms(2) by (simp add: batches_ok_def)
next
  case False
  then have i: "issue env (ReqBatch (wb_batch st)) (st\<lparr>wb_batch := []\<rparr>) = (r, st')" using assms(1) by (simp add: send_batch_def)
  have "\<forall>q \<in> snd ` set (wb_issued (st\<lparr>wb_batch := []\<rparr>)). request_fits s ps q" using assms(2) by simp
  from issue_batches [OF i this assms(3) [OF False]] show ?thesis by (simp add: batches_ok_def)
qed

lemma and_then_cases:
  assumes "and_then f g st = (r, st')"
  obtains e where "f st = (Inl e, st')" | u st1 where "f st = (Inr u, st1)" "g st1 = (r, st')"
  using assms by (auto simp: and_then_def split: prod.splits sum.splits)

lemma open_batch_fits: "batches_ok s ps st \<Longrightarrow> wb_batch st \<noteq> [] \<Longrightarrow> request_fits s ps (ReqBatch (wb_batch st))"
  by (auto simp: batches_ok_def)

lemma accept_write_batches:
  assumes "accept_write env s ps w st = (r, st')" "batches_ok s ps st" "wide ps w"
  shows "batches_ok s ps st'"
proof (cases "is_batching s")
  case False
  then have i: "issue env (ReqWrite w) st = (r, st')" using assms(1) by (simp add: accept_write_def)
  have st: "\<forall>q \<in> snd ` set (wb_issued st). request_fits s ps q" using assms(2) by (simp add: batches_ok_def)
  have "request_fits s ps (ReqWrite w)" using False by simp
  from issue_batches [OF i st this] show ?thesis using assms(2) by (simp add: batches_ok_def)
next
  case True
  let ?f = "\<lambda>st. if wb_batch st \<noteq> [] \<and> \<not> same_partition ps (wb_batch st) w then send_batch env st else (Inr (), st)"
  let ?g = "\<lambda>st. let st' = st\<lparr>wb_batch := wb_batch st @ [w]\<rparr> in
     if ms_batch_size s \<le> length (wb_batch st') then send_batch env st' else (Inr (), st')"
  have first: "batches_ok s ps st1 \<and> (wb_batch st1 \<noteq> [] \<longrightarrow> same_partition ps (wb_batch st1) w)" if "?f st = (r1, st1)" for r1 st1
  proof (cases "wb_batch st \<noteq> [] \<and> \<not> same_partition ps (wb_batch st) w")
    case True
    then have send: "send_batch env st = (r1, st1)" using that by simp
    have "\<forall>q \<in> snd ` set (wb_issued st). request_fits s ps q" using assms(2) by (simp add: batches_ok_def)
    from send_batch_batches [OF send this open_batch_fits [OF assms(2)]] show ?thesis by simp
  next
    case False
    then have "st1 = st" using that by (simp only: if_False prod.inject)
    then show ?thesis using False assms(2) by blast
  qed
  have second: "batches_ok s ps st2" if st1: "batches_ok s ps st1" "wb_batch st1 \<noteq> [] \<longrightarrow> same_partition ps (wb_batch st1) w"
    and g: "?g st1 = (r2, st2)" for st1 r2 st2
  proof -
    let ?st = "st1\<lparr>wb_batch := wb_batch st1 @ [w]\<rparr>"
    have parts: "one_partition ps (wb_batch st1)" "\<forall>x \<in> set (wb_batch st1). wide ps x"
      "wb_batch st1 \<noteq> [] \<longrightarrow> length (wb_batch st1) < ms_batch_size s"
      using st1(1) unfolding batches_ok_def by blast+
    have one: "one_partition ps (wb_batch st1 @ [w])"
    proof (cases "wb_batch st1 = []")
      case True
      then show ?thesis by (simp add: one_partition_def)
    next
      case False
      then show ?thesis using same_partition_extends [OF _ False parts(1,2) assms(3)] st1(2) by blast
    qed
    have len: "length (wb_batch st1) < ms_batch_size s"
      using parts(3) True by (cases "wb_batch st1") (auto simp: is_batching_def)
    have iss: "\<forall>q \<in> snd ` set (wb_issued ?st). request_fits s ps q" using st1(1) by (simp add: batches_ok_def)
    have fits: "request_fits s ps (ReqBatch (wb_batch ?st))" using one len True by simp
    show ?thesis
    proof (cases "ms_batch_size s \<le> length (wb_batch ?st)")
      case full: True
      then have "send_batch env ?st = (r2, st2)" using g by (simp add: Let_def)
      then show ?thesis using send_batch_batches iss fits by blast
    next
      case False
      then have "st2 = ?st" using g by (simp add: Let_def)
      then show ?thesis using st1(1) one False True assms(3) by (simp add: batches_ok_def)
    qed
  qed
  have "and_then ?f ?g st = (r, st')" using assms(1) True by (simp add: accept_write_def)
  then show ?thesis
  proof (cases rule: and_then_cases)
    case (1 e)
    then show ?thesis using first by blast
  next
    case (2 u st1)
    then show ?thesis using first [OF 2(1)] second [OF _ _ 2(2)] by blast
  qed
qed

lemma drain_batches: "drain env mc st = (r, st') \<Longrightarrow> batches_ok s ps st \<Longrightarrow> batches_ok s ps st'"
  by (auto simp: drain_def Let_def batches_ok_def split: option.splits)

lemma buffer_flush_batches:
  assumes "buffer_flush env mc st = (r, st')" "batches_ok s ps st"
  shows "batches_ok s ps st'"
proof -
  have "\<forall>q \<in> snd ` set (wb_issued st). request_fits s ps q" using assms(2) by (simp add: batches_ok_def)
  note send = send_batch_batches [OF _ this open_batch_fits [OF assms(2)]]
  show ?thesis
    using assms(1) unfolding buffer_flush_def
  proof (cases rule: and_then_cases)
    case (1 e)
    then show ?thesis using send by blast
  next
    case (2 u st1)
    then show ?thesis using send [OF 2(1)] drain_batches [OF 2(2)] by blast
  qed
qed

lemma count_issued_batches:
  assumes "count_issued env s mc st = (r, st')" "batches_ok s ps st"
  shows "batches_ok s ps st'"
proof -
  have "batches_ok s ps (st\<lparr>wb_counters := c\<rparr>)" for c using assms(2) by (simp add: batches_ok_def)
  then show ?thesis using assms(1) buffer_flush_batches by (fastforce simp: count_issued_def Let_def split: if_splits)
qed

lemma push_batches:
  assumes "push env s mc ps w st = (r, st')" "batches_ok s ps st" "wide ps w"
  shows "batches_ok s ps st'"
  using assms(1) unfolding push_def
proof (cases rule: and_then_cases)
  case (1 e)
  then show ?thesis using accept_write_batches assms(2,3) by blast
next
  case (2 u st1)
  then show ?thesis using accept_write_batches [OF 2(1) assms(2,3)] count_issued_batches by blast
qed

lemma push_all_batches:
  assumes "push_all env s mc ps ws st = (r, st')" "batches_ok s ps st" "\<forall>w \<in> set ws. wide ps w"
  shows "batches_ok s ps st'"
  using assms
proof (induction ws arbitrary: st)
  case (Cons w ws)
  have w: "wide ps w" "\<forall>w \<in> set ws. wide ps w" using Cons.prems(3) by simp_all
  have "and_then (push env s mc ps w) (push_all env s mc ps ws) st = (r, st')" using Cons.prems(1) by simp
  then show ?case
  proof (cases rule: and_then_cases)
    case (1 e)
    then show ?thesis using push_batches Cons.prems(2) w(1) by blast
  next
    case (2 u st1)
    then show ?thesis using Cons.IH [OF 2(2) push_batches [OF 2(1) Cons.prems(2) w(1)] w(2)] by blast
  qed
qed simp

text \<open>
  Claim C33. Batches keep to their limits (MIG-020, MIG-021, MIG-022): whatever rows a page pushes and however
  the writes end, every batch that is sent has at least one row and at most the effective batch size,
  under strict grouping all its rows have the same partition-key bytes, and a run whose target is a
  counter table, or that has a writetime filter, sends no batch at all.
\<close>

theorem batches_keep_limits:
  assumes "s = new_migrate_settings batch_size fetch_size grouping counter_target writetime_filter dry_run"
    and "ps = grouping_positions s partition_positions" "\<forall>w \<in> set ws. wide ps w"
    and "and_then (push_all env s mc ps ws) (buffer_flush env mc) (new_buffer c) = (r, st)" "(n, ReqBatch rows) \<in> set (wb_issued st)"
  shows "rows \<noteq> [] \<and> length rows \<le> batch_size
    \<and> (grouping = Strict \<longrightarrow> (\<forall>a \<in> set rows. \<forall>b \<in> set rows. \<forall>p \<in> set partition_positions. bound_bytes (a ! p) = bound_bytes (b ! p)))
    \<and> \<not> counter_target \<and> \<not> writetime_filter"
proof -
  have new: "batches_ok s ps (new_buffer c)" by (simp add: batches_ok_def new_buffer_def one_partition_def)
  have "batches_ok s ps st"
    using assms(4)
  proof (cases rule: and_then_cases)
    case (1 e)
    show ?thesis by (rule push_all_batches [OF 1 new assms(3)])
  next
    case (2 u st1)
    show ?thesis by (rule buffer_flush_batches [OF 2(2) push_all_batches [OF 2(1) new assms(3)]])
  qed
  moreover have "ReqBatch rows \<in> snd ` set (wb_issued st)" using assms(5) by (rule image_eqI [rotated]) simp
  ultimately have "request_fits s ps (ReqBatch rows)" unfolding batches_ok_def by blast
  then have fits: "1 < ms_batch_size s" "rows \<noteq> []" "length rows \<le> ms_batch_size s" "one_partition ps rows"
    by (simp_all add: is_batching_def)
  have s: "ms_batch_size s = batch_size \<and> \<not> counter_target \<and> \<not> writetime_filter" "ms_grouping s = grouping"
    using fits(1) by (simp_all add: assms(1) new_migrate_settings_def Let_def split: if_splits)
  have "one_partition partition_positions rows" if "grouping = Strict"
    using fits(4) s(2) that by (simp add: assms(2) grouping_positions_def)
  then show ?thesis using fits(2,3) s(1) unfolding one_partition_def by metis
qed

subsection \<open>A buffer at work\<close>

definition steady_env :: sink_env where
  "steady_env = \<lparr>se_slot = \<lambda>_. Inr (), se_outcome = \<lambda>_ _. Inr (), se_completion = rev\<rparr>"

definition pair_settings :: migrate_settings where
  "pair_settings = new_migrate_settings 2 1000 Strict False False False"

definition demo_writes :: "bound_value list list" where
  "demo_writes = [[Value [1], Value [7]], [Value [1], Unset], [Value [2], Value [9]]]"

lemma pair_settings_simps:
  "is_batching pair_settings" "ms_batch_size pair_settings = 2" "ms_flush_threshold pair_settings = 100"
  "grouping_positions pair_settings [0] = [0]"
  by (simp_all add: pair_settings_def new_migrate_settings_def Let_def is_batching_def flush_threshold_def sat_mul_def u64_max_def
      grouping_positions_def)

lemmas step_defs = push_def and_then_def accept_write_def send_batch_def issue_def count_issued_def buffer_flush_def drain_def
  same_partition_def same_value_def list_get_def should_flush_def Let_def

definition bumped :: "nat \<Rightarrow> job_counters" where
  "bumped n = ((increment_by (Counter CUnflushed Migrate) 1) ^^ n) (new_counters Migrate)"

lemma bumped_levels: "n \<le> 3 \<Longrightarrow> migrate_range (bumped n) \<and> lv (bumped n) CUnflushed = n \<and> lv (bumped n) CWrite = 0"
  by (induction n) (simp_all add: bumped_def bump_level migrate_range_def [of "new_counters Migrate"])

lemma demo_pushed:
  "\<exists>st. push_all steady_env pair_settings migrate_tokens [0] demo_writes (new_buffer (new_counters Migrate)) = (Inr (), st)
     \<and> wb_issued st = [(0, ReqBatch [[Value [1], Value [7]], [Value [1], Unset]])] \<and> wb_batch st = [[Value [2], Value [9]]]"
proof -
  have b: "unflushed_count migrate_tokens (bumped (Suc 0)) = 1" "unflushed_count migrate_tokens (bumped 2) = 2"
    "unflushed_count migrate_tokens (bumped 3) = 3"
    using bumped_levels by (simp_all add: unflushed_level migrate_range_def)
  have step: "increment_one (Counter CUnflushed Migrate) (new_counters Migrate) = bumped (Suc 0)"
    "increment_one (Counter CUnflushed Migrate) (bumped (Suc 0)) = bumped 2"
    "increment_one (Counter CUnflushed Migrate) (bumped 2) = bumped 3"
    by (simp_all add: bumped_def increment_one_def numeral_eq_Suc)
  show ?thesis
    by (simp add: demo_writes_def new_buffer_def steady_env_def step_defs pair_settings_simps step b)
qed

lemma steady_flush: "\<exists>st'. buffer_flush steady_env migrate_tokens st = (Inr (), st')"
proof -
  have none: "first_failure steady_env reqs = None" for reqs by (simp add: first_failure_None steady_env_def split: prod.splits)
  have "\<exists>st'. drain steady_env migrate_tokens st = (Inr (), st')" for st by (simp add: drain_def none Let_def)
  moreover have "\<exists>st'. send_batch steady_env st = (Inr (), st')" by (simp add: send_batch_def issue_def steady_env_def Let_def)
  ultimately show ?thesis by (fastforce simp: buffer_flush_def and_then_Inr)
qed

theorem flush_credits_acknowledged_rows_witness:
  "\<exists>st st'. push_all steady_env pair_settings migrate_tokens [0] demo_writes (new_buffer (new_counters Migrate)) = (Inr (), st)
     \<and> buffer_flush steady_env migrate_tokens st = (Inr (), st')
     \<and> rows_of (wb_issued st') = demo_writes \<and> lv (wb_counters st') CWrite = 3"
proof -
  obtain st where st: "push_all steady_env pair_settings migrate_tokens [0] demo_writes (new_buffer (new_counters Migrate)) = (Inr (), st)"
    using demo_pushed by blast
  obtain st' where st': "buffer_flush steady_env migrate_tokens st = (Inr (), st')" using steady_flush by blast
  have "fair_completion steady_env" "migrate_range (new_counters Migrate)"
    by (simp_all add: fair_completion_def steady_env_def migrate_range_def)
  then show ?thesis
    using flush_credits_acknowledged_rows [OF _ _ _ _ st st'] st st' pair_settings_simps by (auto simp: demo_writes_def)
qed

theorem batches_keep_limits_witness:
  "\<exists>r st. and_then (push_all steady_env pair_settings migrate_tokens [0] demo_writes) (buffer_flush steady_env migrate_tokens)
       (new_buffer (new_counters Migrate)) = (r, st)
     \<and> (0, ReqBatch [[Value [1], Value [7]], [Value [1], Unset]]) \<in> set (wb_issued st)
     \<and> length [[Value [1], Value [7]], [Value [1], Unset]] \<le> 2"
proof -
  obtain st1 where st1: "push_all steady_env pair_settings migrate_tokens [0] demo_writes (new_buffer (new_counters Migrate)) = (Inr (), st1)"
    "wb_issued st1 = [(0, ReqBatch [[Value [1], Value [7]], [Value [1], Unset]])]"
    using demo_pushed by blast
  obtain st where st: "buffer_flush steady_env migrate_tokens st1 = (Inr (), st)" using steady_flush by blast
  have run: "and_then (push_all steady_env pair_settings migrate_tokens [0] demo_writes) (buffer_flush steady_env migrate_tokens)
       (new_buffer (new_counters Migrate)) = (Inr (), st)"
    using st1(1) st by (simp add: and_then_def)
  obtain v st2 where "send_batch steady_env st1 = (Inr v, st2)" "drain steady_env migrate_tokens st2 = (Inr (), st)"
    using st unfolding buffer_flush_def and_then_Inr by blast
  then have "wb_issued st = wb_issued st2" "(0, ReqBatch [[Value [1], Value [7]], [Value [1], Unset]]) \<in> set (wb_issued st2)"
    using send_batch_Inr(2) [of steady_env st1 v st2] st1(2) by (auto simp: drain_def Let_def issues_def split: option.splits)
  then have mem: "(0, ReqBatch [[Value [1], Value [7]], [Value [1], Unset]]) \<in> set (wb_issued st)" by simp
  have "\<forall>w \<in> set demo_writes. wide [0] w" by (simp add: demo_writes_def wide_def)
  from batches_keep_limits [OF pair_settings_def pair_settings_simps(4) [symmetric] this run mem] show ?thesis
    using run mem by blast
qed

end
