(* ===== verification/Migrate_Counter.thy ===== *)
theory Migrate_Counter
  imports Cql_Bind
begin

text \<open>
  Counter tables: \<open>crates/cdm-engine/src/jobs/migrate/counter.rs\<close>. A counter cannot be assigned, so a run
  adds the difference between the origin's value and the target's current one. The theory models how
  the differences are computed and how they reach the binding, and shows that the counter is then the
  origin's value, for a target counter that shares its origin column with no other target counter. For
  one that does share it the code binds the difference of the other counter.
\<close>

record counter_column =
  cc_origin_index :: usize
  cc_target_index :: usize

record counter_plan =
  cp_columns :: "counter_column list"

definition counter_column_at :: "column_mapping \<Rightarrow> usize \<Rightarrow> counter_column list" where
  "counter_column_at m target_index =
     (if \<not> column_is_counter (cmap_target m ! target_index) then []
      else case mapping_source m target_index of
        Some (FromOrigin origin_index) \<Rightarrow> [\<lparr>cc_origin_index = origin_index, cc_target_index = target_index\<rparr>]
      | _ \<Rightarrow> [])"

definition resolve_counter_plan :: "column_mapping \<Rightarrow> counter_plan result" where
  "resolve_counter_plan m =
     (let columns = concat (map (counter_column_at m) [0..<length (cmap_target m)]) in
      if target_is_counter m \<and> columns = [] then
        Inl (with_context (\<lambda>c. with_table (schema_table_ref (cmap_target_table m)) (with_side Target c))
          (new_error SchemaMismatch (''the target '' @ table_quoted_name (cmap_target_table m)
             @ '' is a counter table but no counter column is mapped from the origin, so every generated UPDATE would add nothing (MIG-030, MIG-031).'')))
      else Inr \<lparr>cp_columns = columns\<rparr>)"

definition counter_plan_is_empty :: "counter_plan \<Rightarrow> bool" where
  "counter_plan_is_empty p \<longleftrightarrow> cp_columns p = []"

definition counter_value :: "byte list \<Rightarrow> side \<Rightarrow> i64 result" where
  "counter_value bs sd =
     (if length bs = 8 then Inr (be_value bs)
      else Inl (with_context (with_side sd) (new_error TypeConversion
        (''a counter cell on the '' @ side_as_str sd @ '' is '' @ show_nat (length bs)
         @ '' bytes; a CQL counter is always eight (MIG-031).''))))"

definition current_value :: "source_row option \<Rightarrow> usize \<Rightarrow> i64 result" where
  "current_value current i =
     (case current of
        Some r \<Rightarrow> (case r i of Some (Some bs) \<Rightarrow> counter_value bs Target | _ \<Rightarrow> Inr 0)
      | None \<Rightarrow> Inr 0)"

fun counter_deltas ::
  "counter_column list \<Rightarrow> source_row \<Rightarrow> source_row option \<Rightarrow> (usize \<times> byte list) list result" where
  "counter_deltas [] origin current = Inr []"
| "counter_deltas (column # columns) origin current =
     (case origin (cc_origin_index column) of
        Some (Some bs) \<Rightarrow>
          bindR (counter_value bs Origin) (\<lambda>origin_value.
          bindR (current_value current (cc_target_index column)) (\<lambda>target_value.
          bindR (counter_deltas columns origin current) (\<lambda>deltas.
            Inr ((cc_origin_index column, be_bytes 8 (wrap_i64 (origin_value - target_value))) # deltas))))
      | _ \<Rightarrow> counter_deltas columns origin current)"

definition plan_deltas :: "counter_plan \<Rightarrow> source_row \<Rightarrow> source_row option \<Rightarrow> (usize \<times> byte list) list result" where
  "plan_deltas p origin current = counter_deltas (cp_columns p) origin current"

definition delta_row :: "source_row \<Rightarrow> (usize \<times> byte list) list \<Rightarrow> source_row" where
  "delta_row inner deltas index =
     (case List.find (\<lambda>(position, _). position = index) deltas of
        Some (_, delta) \<Rightarrow> Some (Some delta)
      | None \<Rightarrow> inner index)"

subsection \<open>The delta of one column\<close>

lemma deltas_find:
  assumes "counter_deltas (front @ c # rear) origin current = Inr ds" "origin (cc_origin_index c) = Some (Some bs)"
    and "\<forall>c' \<in> set front. cc_origin_index c' \<noteq> cc_origin_index c"
  shows "\<exists>o_val t_val. counter_value bs Origin = Inr o_val \<and> current_value current (cc_target_index c) = Inr t_val
    \<and> delta_row origin ds (cc_origin_index c) = Some (Some (be_bytes 8 (wrap_i64 (o_val - t_val))))"
  using assms
proof (induction front arbitrary: ds)
  case Nil
  then show ?case by (auto simp: bindR_Inr_iff delta_row_def)
next
  case (Cons d front)
  then obtain ds' where ds': "counter_deltas (front @ c # rear) origin current = Inr ds'"
    and "delta_row origin ds (cc_origin_index c) = delta_row origin ds' (cc_origin_index c)"
    by (auto simp: bindR_Inr_iff delta_row_def split: option.splits)
  then show ?case using Cons.IH [OF ds' Cons.prems(2)] Cons.prems(3) by auto
qed

lemma counter_columns_first:
  assumes "resolve_counter_plan m = Inr p" "i < length (cmap_target m)" "column_is_counter (cmap_target m ! i)"
    and "mapping_source m i = Some (FromOrigin j)" "\<forall>i' < i. mapping_source m i' \<noteq> Some (FromOrigin j)"
  shows "\<exists>front rear. cp_columns p = front @ \<lparr>cc_origin_index = j, cc_target_index = i\<rparr> # rear
    \<and> (\<forall>c \<in> set front. cc_origin_index c \<noteq> j)"
proof -
  have "[0..<length (cmap_target m)] = [0..<i] @ i # [Suc i..<length (cmap_target m)]"
    using assms(2) by (metis add_diff_inverse_nat less_imp_le not_less upt_add_eq_append upt_conv_Cons zero_le)
  then have "cp_columns p = concat (map (counter_column_at m) [0..<i]) @ \<lparr>cc_origin_index = j, cc_target_index = i\<rparr>
      # concat (map (counter_column_at m) [Suc i..<length (cmap_target m)])"
    using assms(1,3,4) by (auto simp: resolve_counter_plan_def counter_column_at_def Let_def split: if_splits)
  moreover have "\<forall>c \<in> set (concat (map (counter_column_at m) [0..<i])). cc_origin_index c \<noteq> j"
    using assms(5) by (auto simp: counter_column_at_def split: if_splits option.splits target_source.splits)
  ultimately show ?thesis by blast
qed

lemma counter_value_range: "counter_value bs sd = Inr v \<Longrightarrow> in_i64 v"
  using be_value_range [of bs] by (cases bs) (auto simp: counter_value_def in_i64_def i64_min_def i64_max_def split: if_splits)

lemma current_value_range: "current_value current i = Inr v \<Longrightarrow> in_i64 v"
  by (auto simp: current_value_def in_i64_def i64_min_def i64_max_def
      split: option.splits dest!: counter_value_range)

lemma wrap_add_wrap: "wrap_i64 (t + wrap_i64 x) = wrap_i64 (t + x)"
proof -
  have "t + wrap_i64 x + 2 ^ 63 = t + (x + 2 ^ 63) mod 2 ^ 64" by (simp only: wrap_i64_def)
  then have "(t + wrap_i64 x + 2 ^ 63) mod 2 ^ 64 = (t + (x + 2 ^ 63)) mod 2 ^ 64"
    by (simp only: mod_add_right_eq)
  then show ?thesis
    unfolding wrap_i64_def [of "t + wrap_i64 x"] wrap_i64_def [of "t + x"] by (simp add: add.assoc)
qed

lemma wrap_delta: "in_i64 a \<Longrightarrow> wrap_i64 (t + wrap_i64 (a - t)) = a"
  by (simp add: wrap_add_wrap)

lemma passthrough_bind:
  assumes "is_identity (cb_plan c)" "cb_source c = FromOrigin j" "\<not> cb_is_map c" "\<not> cb_unset_when_empty c"
    and "r j = Some (Some bs)"
  shows "bind_column b c r inputs = Inr (Value bs)"
  using assms by (simp add: bind_column_def raw_value_def convert_cell_def)

lemma counter_bind_column:
  assumes "bind_column_of pn m i = Inr c" "mapping_source m i = Some (FromOrigin j)"
    and "parse_column_type (cmap_origin m ! j) Origin = Inr (TPrim Counter)"
    and "parse_column_type (cmap_target m ! i) Target = Inr (TPrim Counter)"
  shows "is_identity (cb_plan c)" "cb_source c = FromOrigin j" "\<not> cb_is_map c" "\<not> cb_unset_when_empty c"
proof -
  note c = bind_column_ofD [OF assms(1)]
  have ty: "cb_type c = TPrim Counter" using c(4) assms(4) by simp
  show src: "cb_source c = FromOrigin j" using c(3) assms(2) by simp
  have "cb_plan c = plan_types pn (TPrim Counter) (TPrim Counter)"
    using c(5) assms(3) by (auto simp: src ty bind_plan_def list_get_def bindR_Inr_iff split: if_splits)
  then show "is_identity (cb_plan c)" by (subst (asm) plan_types.simps) simp
  show "\<not> cb_is_map c" "\<not> cb_unset_when_empty c" using c(6,7) by (simp_all add: ty)
qed

text \<open>What the slot of any target counter fed by origin column \<open>j\<close> is bound to: the delta of the first such counter.\<close>

lemma bound_counter:
  assumes "new_binder m up pn mk strip = Inr b" "resolve_counter_plan m = Inr p"
    and "plan_deltas p origin current = Inr ds" "bind_row b (delta_row origin ds) inputs = Inr w"
    and "i < length (cmap_target m)" "column_is_counter (cmap_target m ! i)" "mapping_source m i = Some (FromOrigin j)"
    and "\<forall>i' < i. mapping_source m i' \<noteq> Some (FromOrigin j)" "origin j = Some (Some bs)"
    and "i2 < length (cmap_target m)" "mapping_source m i2 = Some (FromOrigin j)"
    and "parse_column_type (cmap_origin m ! j) Origin = Inr (TPrim Counter)"
    and "parse_column_type (cmap_target m ! i2) Target = Inr (TPrim Counter)" "bind_position up i2 = Some k"
  shows "\<exists>t_val. in_i64 (be_value bs) \<and> current_value current i = Inr t_val
    \<and> bound_values w ! k = Value (be_bytes 8 (wrap_i64 (be_value bs - t_val)))"
proof -
  note b = new_binderD [OF assms(1)]
  obtain front rear where cols: "cp_columns p = front @ \<lparr>cc_origin_index = j, cc_target_index = i\<rparr> # rear"
    and front: "\<forall>c \<in> set front. cc_origin_index c \<noteq> j"
    using counter_columns_first [OF assms(2,5-8)] by blast
  obtain o_val t_val where v: "counter_value bs Origin = Inr o_val" "current_value current i = Inr t_val"
    and cell: "delta_row origin ds j = Some (Some (be_bytes 8 (wrap_i64 (o_val - t_val))))"
    using deltas_find [OF assms(3) [unfolded plan_deltas_def cols]] front assms(9) by auto
  have "bind_column b (bd_columns b ! i2) (delta_row origin ds) inputs = Inr (Value (be_bytes 8 (wrap_i64 (o_val - t_val))))"
    by (rule passthrough_bind [where r = "delta_row origin ds", OF counter_bind_column [OF b(5) [OF assms(10)] assms(11-13)] cell])
  then have "bound_values w ! k = Value (be_bytes 8 (wrap_i64 (o_val - t_val)))"
    using bound_at_position(3) [OF assms(4), of i2 k] assms(14) b(1) by simp
  moreover have "o_val = be_value bs" using v(1) by (simp add: counter_value_def split: if_splits)
  ultimately show ?thesis using v counter_value_range [OF v(1)] by blast
qed

text \<open>
  Claim C31. A counter reaches the origin's value (MIG-031): for a target counter column that is the first
  one its origin column feeds, the bytes bound for \<open>c = c + ?\<close> are the difference such that adding it to
  the current target value (zero when the row or the cell is missing), with the wrap-around of a 64-bit
  counter, gives the origin's value.
\<close>

theorem counter_reaches_origin:
  assumes "new_binder m up pn mk strip = Inr b" "resolve_counter_plan m = Inr p"
    and "plan_deltas p origin current = Inr ds" "bind_row b (delta_row origin ds) inputs = Inr w"
    and "i < length (cmap_target m)" "column_is_counter (cmap_target m ! i)" "mapping_source m i = Some (FromOrigin j)"
    and "\<forall>i' < i. mapping_source m i' \<noteq> Some (FromOrigin j)" "origin j = Some (Some bs)"
    and "parse_column_type (cmap_origin m ! j) Origin = Inr (TPrim Counter)"
    and "parse_column_type (cmap_target m ! i) Target = Inr (TPrim Counter)" "bind_position up i = Some k"
  shows "\<exists>now delta. current_value current i = Inr now
    \<and> bound_values w ! k = Value (be_bytes 8 delta) \<and> wrap_i64 (now + delta) = be_value bs"
  using bound_counter [OF assms(1-9) assms(5,7,10-12)] wrap_delta by blast

text \<open>
  Claim C32. When one origin counter feeds two target counters, which a rename of a column that the target
  also has under its old name does, both are bound to the difference of the first: the second one ends
  up wrong by the difference between the two current values.
\<close>

theorem shared_counter_gets_first_delta:
  assumes "new_binder m up pn mk strip = Inr b" "resolve_counter_plan m = Inr p"
    and "plan_deltas p origin current = Inr ds" "bind_row b (delta_row origin ds) inputs = Inr w"
    and "i < length (cmap_target m)" "column_is_counter (cmap_target m ! i)" "mapping_source m i = Some (FromOrigin j)"
    and "\<forall>i' < i. mapping_source m i' \<noteq> Some (FromOrigin j)" "origin j = Some (Some bs)"
    and "i2 < length (cmap_target m)" "mapping_source m i2 = Some (FromOrigin j)"
    and "parse_column_type (cmap_origin m ! j) Origin = Inr (TPrim Counter)"
    and "parse_column_type (cmap_target m ! i2) Target = Inr (TPrim Counter)" "bind_position up i2 = Some k"
    and "current_value current i = Inr now" "current_value current i2 = Inr now2"
  shows "\<exists>delta. bound_values w ! k = Value (be_bytes 8 delta)
    \<and> wrap_i64 (now2 + delta) = wrap_i64 (be_value bs + (now2 - now))"
proof -
  have "wrap_i64 (now2 + wrap_i64 (be_value bs - now)) = wrap_i64 (be_value bs + (now2 - now))"
    using wrap_add_wrap [of now2 "be_value bs - now"] by (simp add: algebra_simps)
  then show ?thesis using bound_counter [OF assms(1-14)] assms(15) by auto
qed

subsection \<open>Two target counters from one origin column\<close>

definition hits_origin :: table_schema where
  "hits_origin = demo_table [demo_column ''id'' ''int'' PartitionKey, demo_column ''hits'' ''counter'' Regular]"

definition hits_target :: table_schema where
  "hits_target = demo_table [demo_column ''id'' ''int'' PartitionKey, demo_column ''hits'' ''counter'' Regular,
     demo_column ''visits'' ''counter'' Regular]"

definition hits_options :: mapping_options where
  "hits_options = \<lparr>mo_rename = [''hits:visits''], mo_skip = [], mo_constants = [], mo_explode_map = None,
     mo_extract_json = None\<rparr>"

definition hits_mapping :: column_mapping where
  "hits_mapping = \<lparr>cmap_origin = ts_columns hits_origin, cmap_target = ts_columns hits_target,
     cmap_sources = [FromOrigin 0, FromOrigin 1, FromOrigin 1], cmap_origin_table = hits_origin, cmap_target_table = hits_target\<rparr>"

lemma hits_resolves: "resolve_mapping hits_origin hits_target hits_options = Inr hits_mapping"
  by code_simp

definition no_using :: using_clause where
  "no_using = \<lparr>us_ttl = False, us_timestamp = False\<rparr>"

definition hits_upsert :: target_upsert where
  "hits_upsert = (case new_upsert hits_mapping no_using of Inr u \<Rightarrow> u)"

lemma hits_upsert_new: "new_upsert hits_mapping no_using = Inr hits_upsert" by code_simp

definition hits_binder :: row_binder where
  "hits_binder = (case new_binder hits_mapping hits_upsert demo_planner demo_policy False of Inr b \<Rightarrow> b)"

lemma hits_binder_new: "new_binder hits_mapping hits_upsert demo_planner demo_policy False = Inr hits_binder"
proof -
  have "is_ok (new_binder hits_mapping hits_upsert demo_planner demo_policy False)" by code_simp
  then show ?thesis by (auto simp: is_ok_def hits_binder_def split: sum.splits)
qed

text \<open>The origin counter is 10; the target has 4 in \<open>hits\<close> and 1 in \<open>visits\<close>.\<close>

definition hits_row :: source_row where
  "hits_row = source_cell (Row [new_cell [0, 0, 0, 7], new_cell [0, 0, 0, 0, 0, 0, 0, 10]])"

definition hits_current :: source_row where
  "hits_current = source_cell (Row [new_cell [0, 0, 0, 7], new_cell [0, 0, 0, 0, 0, 0, 0, 4], new_cell [0, 0, 0, 0, 0, 0, 0, 1]])"

definition hits_plan :: counter_plan where
  "hits_plan = \<lparr>cp_columns = [\<lparr>cc_origin_index = 1, cc_target_index = 1\<rparr>, \<lparr>cc_origin_index = 1, cc_target_index = 2\<rparr>]\<rparr>"

definition hits_deltas :: "(usize \<times> byte list) list" where
  "hits_deltas = [(1, [0, 0, 0, 0, 0, 0, 0, 6]), (1, [0, 0, 0, 0, 0, 0, 0, 9])]"

definition hits_bound :: bound where
  "hits_bound = CounterWrite [Value [0, 0, 0, 0, 0, 0, 0, 6], Value [0, 0, 0, 0, 0, 0, 0, 6], Value [0, 0, 0, 7]]"

lemma hits_facts:
  "resolve_counter_plan hits_mapping = Inr hits_plan"
  "plan_deltas hits_plan hits_row (Some hits_current) = Inr hits_deltas"
  "bind_row hits_binder (delta_row hits_row hits_deltas) demo_inputs = Inr hits_bound"
  "parse_column_type (cmap_origin hits_mapping ! 1) Origin = Inr (TPrim Counter)"
  "parse_column_type (cmap_target hits_mapping ! 1) Target = Inr (TPrim Counter)"
  "parse_column_type (cmap_target hits_mapping ! 2) Target = Inr (TPrim Counter)"
  "bind_position hits_upsert 1 = Some 0" "bind_position hits_upsert 2 = Some 1"
  "1 < length (cmap_target hits_mapping)" "2 < length (cmap_target hits_mapping)"
  "column_is_counter (cmap_target hits_mapping ! 1)"
  "mapping_source hits_mapping 0 = Some (FromOrigin 0)"
  "mapping_source hits_mapping 1 = Some (FromOrigin 1)" "mapping_source hits_mapping 2 = Some (FromOrigin 1)"
  "hits_row 1 = Some (Some [0, 0, 0, 0, 0, 0, 0, 10])"
  "current_value (Some hits_current) 1 = Inr 4" "current_value (Some hits_current) 2 = Inr 1"
  "be_value [0, 0, 0, 0, 0, 0, 0, 10] = 10"
  by code_simp+

theorem counter_reaches_origin_witness:
  "\<exists>delta. bound_values hits_bound ! 0 = Value (be_bytes 8 delta) \<and> wrap_i64 (4 + delta) = 10"
  using counter_reaches_origin [OF hits_binder_new hits_facts(1-3) hits_facts(9,11,13) _ hits_facts(15) hits_facts(4,5,7)]
    hits_facts(12,16,18) by auto

theorem shared_counter_gets_first_delta_witness:
  "\<exists>delta. bound_values hits_bound ! 1 = Value (be_bytes 8 delta) \<and> wrap_i64 (1 + delta) = 7"
  using shared_counter_gets_first_delta [OF hits_binder_new hits_facts(1-3) hits_facts(9,11,13) _ hits_facts(15)
      hits_facts(10,14) hits_facts(4,6,8,16,17)] hits_facts(12,18)
  by (auto simp: in_i64_def i64_min_def i64_max_def)

end
