(* ===== verification/Migrate_Job.thy ===== *)
theory Migrate_Job
  imports Migrate_Buffer Migrate_Counter
begin

text \<open>
  The migrate job: \<open>crates/cdm-engine/src/jobs/migrate/plan.rs\<close> and \<open>job.rs\<close>. The plan is resolved from the
  column mapping; the row features (filters, TTL and writetime, extracted JSON, exploded map) are
  functions in it. A page is the list of its rows; each row is counted, classified, bound and handed to
  the write buffer, and a failure is either the record's or the range's. For a counter table the target
  is read before each write; what it returns depends on the counter writes already made.

  The lemmas show that the counters of a page balance, and what a failing range adds to them.
\<close>

subsection \<open>The plan\<close>

record migrate_features =
  mf_filters_empty :: bool
  mf_accepts :: "cdm_record \<Rightarrow> bool result"
  mf_using :: using_clause
  mf_has_ttl :: bool
  mf_has_writetime :: bool
  mf_ttl :: "row \<Rightarrow> i32 option result"
  mf_writetime :: "row \<Rightarrow> i64 option result"
  mf_extract_json :: "(cdm_record \<Rightarrow> raw_cell option result) option"
  mf_explode :: "(cdm_record \<Rightarrow> exploded_entry list result) option"

record migrate_plan =
  mp_binder :: row_binder
  mp_key_binding :: key_binding
  mp_settings :: migrate_settings
  mp_counters :: counter_plan
  mp_partition_positions :: "usize list"
  mp_origin_key_indices :: "usize list"
  mp_projection_width :: usize
  mp_features :: migrate_features
  mp_needs_record :: bool

definition partition_positions :: "column_mapping \<Rightarrow> target_upsert \<Rightarrow> usize list" where
  "partition_positions m up =
     List.map_filter (bind_position up)
       (filter (\<lambda>i. cm_kind (cmap_target m ! i) = PartitionKey) [0..<length (cmap_target m)])"

definition origin_key_indices :: "column_mapping \<Rightarrow> usize list result" where
  "origin_key_indices m =
     collectR (\<lambda>column. ok_or (origin_index_of m (cm_name column)) (new_error Internal
         (''the origin primary-key column `'' @ cm_name column
          @ ''` is not in the projection, which `SCH-004` forbids skipping'')))
       (primary_key_columns (cmap_origin_table m))"

definition resolve_migrate_plan ::
  "column_mapping \<Rightarrow> origin_projection \<Rightarrow> planner \<Rightarrow> migrate_settings \<Rightarrow> missing_key_policy \<Rightarrow> bool
     \<Rightarrow> migrate_features \<Rightarrow> migrate_plan result" where
  "resolve_migrate_plan m projection pn settings missing_key map_remove_null_value features =
     bindR (new_upsert m (mf_using features)) (\<lambda>upsert.
     bindR (new_binder m upsert pn missing_key map_remove_null_value) (\<lambda>b.
     bindR (target_select_by_pk m) (\<lambda>sel.
     bindR (resolve_key_binding b sel) (\<lambda>binding.
     bindR (resolve_counter_plan m) (\<lambda>counters.
     bindR (origin_key_indices m) (\<lambda>key_indices.
       Inr \<lparr>mp_binder = b, mp_key_binding = binding, mp_settings = settings, mp_counters = counters,
            mp_partition_positions = partition_positions m upsert, mp_origin_key_indices = key_indices,
            mp_projection_width = projection_width projection, mp_features = features,
            mp_needs_record = (\<not> mf_filters_empty features \<or> mf_has_writetime features \<or> mf_has_ttl features
              \<or> mf_explode features \<noteq> None \<or> mf_extract_json features \<noteq> None)\<rparr>))))))"

definition is_counter_run :: "migrate_plan \<Rightarrow> bool" where
  "is_counter_run p \<longleftrightarrow> \<not> counter_plan_is_empty (mp_counters p)"

subsection \<open>Rows\<close>

datatype row_error = RecordError cdm_error | RangeError cdm_error

text \<open>
  The environment of a range: the sink, the target row a counter lookup returns and the outcome of a
  counter write, both given the counter writes made so far.
\<close>

record job_env =
  je_sink :: sink_env
  je_counter_row :: "bound_value list list \<Rightarrow> bound_value list \<Rightarrow> source_row option result"
  je_write_counter :: "bound_value list list \<Rightarrow> bound_value list \<Rightarrow> unit result"

text \<open>The sink \<open>DryRunSink\<close>: no write reaches the target, so a lookup sees the target untouched.\<close>

definition dry_run_env :: "job_env \<Rightarrow> job_env" where
  "dry_run_env je = \<lparr>je_sink = dry_run_sink (je_sink je), je_counter_row = \<lambda>_. je_counter_row je [],
     je_write_counter = \<lambda>_ _. Inr ()\<rparr>"

record job_state =
  js_buffer :: write_buffer
  js_counter_writes :: "bound_value list list"

definition on_buffer :: "write_buffer step \<Rightarrow> job_state \<Rightarrow> (row_error + unit) \<times> job_state" where
  "on_buffer f st = (case f (js_buffer st) of (r, b) \<Rightarrow> (map_err RangeError r, st\<lparr>js_buffer := b\<rparr>))"

definition js_counters :: "job_state \<Rightarrow> job_counters" where
  "js_counters st = wb_counters (js_buffer st)"

definition with_counters :: "job_counters \<Rightarrow> job_state \<Rightarrow> job_state" where
  "with_counters c st = st\<lparr>js_buffer := (js_buffer st)\<lparr>wb_counters := c\<rparr>\<rparr>"

definition counter_shape_mismatch :: cdm_error where
  "counter_shape_mismatch = with_context (with_side Target) (new_error Internal
     (''the bin'' @ ''der produced a write of the wrong shape for this table: the statement and the counter plan disagree about whether the target is a counter table (SCH-005)''))"

definition materialise_row :: "row \<Rightarrow> usize \<Rightarrow> row" where
  "materialise_row r width =
     Row (map (\<lambda>i. case source_cell r i of Some (Some bs) \<Rightarrow> new_cell bs | _ \<Rightarrow> NULL_cell)
       [0..<max width (length (row_cells r))])"

definition materialise :: "row \<Rightarrow> usize \<Rightarrow> usize list \<Rightarrow> cdm_record" where
  "materialise r width key_indices =
     (let cells = materialise_row r width in
      new_record (PrimaryKey (map (\<lambda>i. case row_get cells i of Some c \<Rightarrow> c | None \<Rightarrow> NULL_cell) key_indices)) cells)"

definition counter_write_of :: "migrate_plan \<Rightarrow> job_env \<Rightarrow> row \<Rightarrow> bind_inputs \<Rightarrow> bound_value list list \<Rightarrow> row_error + bound_value list" where
  "counter_write_of p je r inputs history =
     (let source = source_cell (materialise_row r (mp_projection_width p)) in
      bindR (map_err (RecordError \<circ> failure_error) (bind_key_row (mp_binder p) (mp_key_binding p) source inputs)) (\<lambda>key.
      bindR (map_err RangeError (je_counter_row je history key)) (\<lambda>current.
      bindR (map_err RecordError (plan_deltas (mp_counters p) source current)) (\<lambda>deltas.
      bindR (map_err (RecordError \<circ> failure_error) (bind_row (mp_binder p) (delta_row source deltas) inputs)) (\<lambda>b.
      bindR (case b of CounterWrite w \<Rightarrow> Inr w | IdempotentWrite _ \<Rightarrow> Inl (RangeError counter_shape_mismatch)) (\<lambda>write.
      bindR (map_err RangeError (je_write_counter je history write)) (\<lambda>_. Inr write)))))))"

definition write_counter_row :: "migrate_plan \<Rightarrow> job_env \<Rightarrow> migrate_counters \<Rightarrow> row \<Rightarrow> bind_inputs \<Rightarrow> job_state
     \<Rightarrow> (row_error + unit) \<times> job_state" where
  "write_counter_row p je mc r inputs st =
     (case counter_write_of p je r inputs (js_counter_writes st) of
        Inl e \<Rightarrow> (Inl e, st)
      | Inr write \<Rightarrow>
          on_buffer (push_counter_written (je_sink je) (mp_settings p) mc)
            (st\<lparr>js_counter_writes := js_counter_writes st @ [write]\<rparr>))"

text \<open>
  \<open>write_borrowed\<close> and \<open>write_materialised\<close> differ in who owns the bytes, which the model does not
  distinguish: both bind the given row and push the write.
\<close>

definition write_row :: "migrate_plan \<Rightarrow> job_env \<Rightarrow> migrate_counters \<Rightarrow> row \<Rightarrow> bind_inputs \<Rightarrow> job_state
     \<Rightarrow> (row_error + unit) \<times> job_state" where
  "write_row p je mc r inputs st =
     (if is_counter_run p then write_counter_row p je mc r inputs st
      else case bind_row (mp_binder p) (source_cell r) inputs of
        Inl f \<Rightarrow> (Inl (RecordError (failure_error f)), st)
      | Inr (IdempotentWrite w) \<Rightarrow>
          on_buffer (push (je_sink je) (mp_settings p) mc
            (grouping_positions (mp_settings p) (mp_partition_positions p)) w) st
      | Inr (CounterWrite _) \<Rightarrow> (Inl (RangeError counter_shape_mismatch), st))"

record row_inputs =
  ri_ttl :: "i32 option"
  ri_writetime :: "i64 option"
  ri_extracted :: "raw_cell option"
  ri_entries :: "exploded_entry list option"

datatype row_decision = DecideSkipped | DecideWrite row_inputs

text \<open>The decision, or the feature's error; a skipped row is counted by the caller of this definition.\<close>

definition decide :: "migrate_features \<Rightarrow> cdm_record \<Rightarrow> row_decision result" where
  "decide fs record =
     bindR (mf_accepts fs record) (\<lambda>accepted.
       if \<not> accepted then Inr DecideSkipped
       else
         bindR (mf_ttl fs (rec_origin record)) (\<lambda>ttl.
         bindR (mf_writetime fs (rec_origin record)) (\<lambda>writetime.
         bindR (case mf_extract_json fs of Some f \<Rightarrow> f record | None \<Rightarrow> Inr None) (\<lambda>extracted.
         bindR (case mf_explode fs of
                  Some f \<Rightarrow> bindR (f record) (\<lambda>es. Inr (Some es)) | None \<Rightarrow> Inr None) (\<lambda>entries.
           Inr (if entries = Some [] then DecideSkipped
                else DecideWrite \<lparr>ri_ttl = ttl, ri_writetime = writetime, ri_extracted = extracted,
                       ri_entries = entries\<rparr>))))))"

definition classify :: "migrate_features \<Rightarrow> cdm_record \<Rightarrow> migrate_counters \<Rightarrow> job_counters \<Rightarrow> row_decision result \<times> job_counters" where
  "classify fs record mc c =
     (case decide fs record of
        Inr DecideSkipped \<Rightarrow> (Inr DecideSkipped, increment_one (mc_skipped mc) c)
      | d \<Rightarrow> (d, c))"

definition default_inputs :: bind_inputs where
  "default_inputs = \<lparr>bi_ttl = None, bi_writetime = None, bi_explode_key = None, bi_explode_value = None,
     bi_extracted_json = None, bi_key = None\<rparr>"

fun write_entries :: "migrate_plan \<Rightarrow> job_env \<Rightarrow> migrate_counters \<Rightarrow> row \<Rightarrow> bind_inputs \<Rightarrow> exploded_entry list \<Rightarrow> job_state
     \<Rightarrow> (row_error + unit) \<times> job_state" where
  "write_entries p je mc r base [] st = (Inr (), st)"
| "write_entries p je mc r base (entry # entries) st =
     (case write_row p je mc r (base\<lparr>bi_explode_key := cell_bytes (entry_key entry),
             bi_explode_value := cell_bytes (entry_value entry)\<rparr>) st of
        (Inl e, st') \<Rightarrow> (Inl e, st')
      | (Inr _, st') \<Rightarrow> write_entries p je mc r base entries st')"

definition process_row :: "migrate_plan \<Rightarrow> job_env \<Rightarrow> migrate_counters \<Rightarrow> row \<Rightarrow> job_state \<Rightarrow> (row_error + unit) \<times> job_state" where
  "process_row p je mc r st =
     (if \<not> mp_needs_record p then write_row p je mc r default_inputs st
      else
        let record = materialise r (mp_projection_width p) (mp_origin_key_indices p) in
        case classify (mp_features p) record mc (js_counters st) of
          (Inl e, c) \<Rightarrow> (Inl (RecordError e), with_counters c st)
        | (Inr DecideSkipped, c) \<Rightarrow> (Inr (), with_counters c st)
        | (Inr (DecideWrite inputs), c) \<Rightarrow>
            let base = default_inputs\<lparr>bi_ttl := ri_ttl inputs, bi_writetime := ri_writetime inputs,
                  bi_extracted_json := (case ri_extracted inputs of Some cell \<Rightarrow> cell_bytes cell | None \<Rightarrow> None),
                  bi_key := Some (rec_key record)\<rparr> in
            case ri_entries inputs of
              Some entries \<Rightarrow> write_entries p je mc (rec_origin record) base entries (with_counters c st)
            | None \<Rightarrow> write_row p je mc (rec_origin record) base (with_counters c st))"

subsection \<open>Pages and the range\<close>

fun page_loop :: "migrate_plan \<Rightarrow> job_env \<Rightarrow> migrate_counters \<Rightarrow> row result list \<Rightarrow> job_state \<Rightarrow> unit result \<times> job_state" where
  "page_loop p je mc [] st = (Inr (), st)"
| "page_loop p je mc (Inl e # rows) st = (Inl e, st)"
| "page_loop p je mc (Inr r # rows) st =
     (case process_row p je mc r (with_counters (increment_one (mc_read mc) (js_counters st)) st) of
        (Inr _, st') \<Rightarrow> page_loop p je mc rows st'
      | (Inl (RangeError e), st') \<Rightarrow> (Inl e, st')
      | (Inl (RecordError e), st') \<Rightarrow>
          page_loop p je mc rows (with_counters (increment_one (mc_error mc) (js_counters st')) st'))"

definition process_page :: "migrate_plan \<Rightarrow> job_env \<Rightarrow> migrate_counters \<Rightarrow> row result list
     \<Rightarrow> job_counters \<times> bound_value list list \<Rightarrow> unit result \<times> job_counters \<times> bound_value list list" where
  "process_page p je mc page cw =
     (case page_loop p je mc page \<lparr>js_buffer = new_buffer (fst cw), js_counter_writes = snd cw\<rparr> of
        (Inl e, st) \<Rightarrow> (Inl e, js_counters st, js_counter_writes st)
      | (Inr _, st) \<Rightarrow>
          (case buffer_flush (je_sink je) mc (js_buffer st) of
             (r, b) \<Rightarrow> (r, wb_counters b, js_counter_writes st)))"

text \<open>
  The loop over the scan: at each turn whether the run is being cancelled, and what acquiring a read slot
  and reading the next page give. The scan ends with no page.
\<close>

type_synonym scan_turn = "bool \<times> (row result list result) option result"

fun range_loop :: "migrate_plan \<Rightarrow> job_env \<Rightarrow> migrate_counters \<Rightarrow> token_range \<Rightarrow> scan_turn list
     \<Rightarrow> job_counters \<times> bound_value list list \<Rightarrow> range_verdict result option \<times> job_counters \<times> bound_value list list" where
  "range_loop p je mc rng [] cw = (None, cw)"
| "range_loop p je mc rng ((cancelled, next_page) # turns) cw =
     (if cancelled then
        (Some (Inl (with_context (with_range rng) (new_error Cancelled
           ''the range was abandoned before its next page: the run is shutting down (ENG-010)''))), cw)
      else case next_page of
        Inl e \<Rightarrow> (Some (Inl e), cw)
      | Inr None \<Rightarrow> (Some (Inr VPass), cw)
      | Inr (Some (Inl e)) \<Rightarrow> (Some (Inl e), cw)
      | Inr (Some (Inr page)) \<Rightarrow>
          if page = [] then range_loop p je mc rng turns cw
          else (case process_page p je mc page cw of
                  (Inl e, cw') \<Rightarrow> (Some (Inl e), cw')
                | (Inr _, cw') \<Rightarrow> range_loop p je mc rng turns cw'))"

definition process_range :: "migrate_plan \<Rightarrow> job_env \<Rightarrow> unit result \<Rightarrow> token_range \<Rightarrow> scan_turn list \<Rightarrow> job_counters
     \<Rightarrow> range_verdict result option \<times> job_counters \<times> bound_value list list" where
  "process_range p je schema_check rng turns c =
     (case schema_check of
        Inl e \<Rightarrow> (Some (Inl e), c, [])
      | Inr _ \<Rightarrow>
          (case resolve_counters c of
             Inl e \<Rightarrow> (Some (Inl e), c, [])
           | Inr mc \<Rightarrow> range_loop p (if ms_dry_run (mp_settings p) then dry_run_env je else je) mc rng turns (c, [])))"

subsection \<open>The counters balance\<close>

text \<open>Every row read so far is written, skipped, an error or unflushed, but for \<open>k\<close> rows.\<close>

definition short_by :: "nat \<Rightarrow> job_counters \<Rightarrow> bool" where
  "short_by k c \<longleftrightarrow> migrate_range c \<and> lv c CRead = lv c CWrite + lv c CSkipped + lv c CError + lv c CUnflushed + k"

lemma read_bound: "short_by k c \<Longrightarrow> lv c CWrite + lv c CSkipped + lv c CError + lv c CUnflushed + k < 2 ^ 64"
  using level_range [of c CRead] by (simp add: short_by_def)

lemma accept_counters: "accept_write env s ps w st = (r, st') \<Longrightarrow> wb_counters st' = wb_counters st"
  by (auto simp: accept_write_def send_batch_def issue_def and_then_def Let_def split: if_splits sum.splits prod.splits)

lemma drain_balance:
  assumes "drain env migrate_tokens st = (r, st')" "short_by k (wb_counters st)"
  shows "short_by k (wb_counters st')" "lv (wb_counters st') CRead = lv (wb_counters st) CRead"
    "r = Inr u \<Longrightarrow> lv (wb_counters st') CUnflushed = 0"
proof -
  let ?c = "wb_counters st"
  have ok: "migrate_range ?c" "jc_job ?c = Migrate" using assms(2) by (simp_all add: short_by_def migrate_range_def)
  have sum: "lv ?c CWrite + lv ?c CUnflushed < 2 ^ 64" using read_bound [OF assms(2)] by linarith
  have "r \<noteq> Inr u \<and> wb_counters st' = ?c \<or> wb_counters st' = (if 0 < lv ?c CUnflushed
         then reset_counter (Counter CUnflushed Migrate) (increment_by (Counter CWrite Migrate) (lv ?c CUnflushed) ?c) else ?c)"
    using assms(1) unflushed_level [OF ok(2)] by (auto simp: drain_def Let_def split: option.splits)
  then show "short_by k (wb_counters st')" "lv (wb_counters st') CRead = lv (wb_counters st) CRead"
    "r = Inr u \<Longrightarrow> lv (wb_counters st') CUnflushed = 0"
    using assms(2) ok(1) sum by (auto simp: short_by_def bump_level reset_level)
qed

lemma buffer_flush_balance:
  assumes "buffer_flush env migrate_tokens st = (r, st')" "short_by k (wb_counters st)"
  shows "short_by k (wb_counters st') \<and> lv (wb_counters st') CRead = lv (wb_counters st) CRead
    \<and> (r = Inr u \<longrightarrow> lv (wb_counters st') CUnflushed = 0)"
proof -
  have send: "wb_counters st1 = wb_counters st" if "send_batch env st = (r1, st1)" for r1 st1
    using that by (auto simp: send_batch_def issue_def Let_def split: if_splits sum.splits)
  show ?thesis
    using assms(1) unfolding buffer_flush_def
  proof (cases rule: and_then_cases)
    case (1 e)
    then have "r \<noteq> Inr u" using assms(1) by (auto simp: buffer_flush_def and_then_def)
    then show ?thesis using assms(2) send [OF 1] by simp
  next
    case (2 v st1)
    have st1: "short_by k (wb_counters st1)" using send [OF 2(1)] assms(2) by simp
    show ?thesis using drain_balance [OF 2(2) st1] send [OF 2(1)] by simp
  qed
qed

lemma count_issued_balance:
  assumes "count_issued env s migrate_tokens st = (r, st')" "short_by (Suc k) (wb_counters st)"
  shows "short_by k (wb_counters st') \<and> lv (wb_counters st') CRead = lv (wb_counters st) CRead"
proof -
  define c where "c = increment_by (Counter CUnflushed Migrate) 1 (wb_counters st)"
  have ok: "migrate_range (wb_counters st)" using assms(2) by (simp add: short_by_def)
  have "lv (wb_counters st) CUnflushed + 1 < 2 ^ 64" using read_bound [OF assms(2)] by linarith
  then have c: "short_by k c" "lv c CRead = lv (wb_counters st) CRead"
    using assms(2) ok by (simp_all add: short_by_def c_def bump_level)
  show ?thesis
    using assms(1) c buffer_flush_balance [of env "st\<lparr>wb_counters := c\<rparr>" r st' k] count_issued_step [OF ok c_def, of env s]
    by (auto split: if_splits)
qed

lemma push_balance:
  assumes "push env s migrate_tokens ps w st = (r, st')" "short_by (Suc k) (wb_counters st)"
  shows "(short_by k (wb_counters st') \<or> is_ok r = False \<and> short_by (Suc k) (wb_counters st'))
    \<and> lv (wb_counters st') CRead = lv (wb_counters st) CRead"
  using assms(1) unfolding push_def
proof (cases rule: and_then_cases)
  case (1 e)
  then show ?thesis using accept_counters [OF 1] assms by (auto simp: push_def and_then_def is_ok_def)
next
  case (2 u st1)
  then show ?thesis using accept_counters [OF 2(1)] count_issued_balance [OF 2(2)] assms(2) by auto
qed

text \<open>What one row may do to the balance: a record error leaves the row open, a range error may.\<close>

definition row_balance :: "nat \<Rightarrow> job_counters \<Rightarrow> (row_error + unit) \<times> job_state \<Rightarrow> bool" where
  "row_balance k c out \<longleftrightarrow> lv (js_counters (snd out)) CRead = lv c CRead
     \<and> (case fst out of
          Inr _ \<Rightarrow> short_by k (js_counters (snd out))
        | Inl (RecordError e) \<Rightarrow> short_by (Suc k) (js_counters (snd out))
        | Inl (RangeError e) \<Rightarrow> short_by k (js_counters (snd out)) \<or> short_by (Suc k) (js_counters (snd out)))"

lemma write_row_balance:
  assumes "short_by (Suc k) (js_counters st)"
  shows "row_balance k (js_counters st) (write_row p je migrate_tokens r inputs st)"
proof (cases "is_counter_run p")
  case True
  show ?thesis
  proof (cases "counter_write_of p je r inputs (js_counter_writes st)")
    case (Inl e)
    then show ?thesis using True assms
      by (simp add: write_row_def write_counter_row_def row_balance_def split: row_error.split)
  next
    case (Inr w)
    obtain r' b where b: "count_issued (je_sink je) (mp_settings p) migrate_tokens (js_buffer st) = (r', b)" by fastforce
    show ?thesis
      using True Inr b count_issued_balance [OF b, of k] assms
      by (cases r') (simp_all add: write_row_def write_counter_row_def row_balance_def on_buffer_def push_counter_written_def js_counters_def)
  qed
next
  case False
  show ?thesis
  proof (cases "bind_row (mp_binder p) (source_cell r) inputs")
    case (Inl f)
    then show ?thesis using False assms by (simp add: write_row_def row_balance_def)
  next
    case (Inr w)
    let ?push = "push (je_sink je) (mp_settings p) migrate_tokens (grouping_positions (mp_settings p) (mp_partition_positions p))"
    show ?thesis
    proof (cases w)
      case (IdempotentWrite vs)
      obtain r' b where b: "?push vs (js_buffer st) = (r', b)" by fastforce
      show ?thesis
        using False Inr IdempotentWrite b push_balance [OF b, of k] assms
        by (cases r') (auto simp: write_row_def row_balance_def on_buffer_def js_counters_def is_ok_def)
    next
      case (CounterWrite vs)
      then show ?thesis using False Inr assms by (simp add: write_row_def row_balance_def)
    qed
  qed
qed

lemma skip_balance:
  assumes "short_by (Suc k) c"
  shows "short_by k (increment_by (Counter CSkipped Migrate) 1 c)" "lv (increment_by (Counter CSkipped Migrate) 1 c) CRead = lv c CRead"
    "short_by k (increment_by (Counter CError Migrate) 1 c)" "lv (increment_by (Counter CError Migrate) 1 c) CRead = lv c CRead"
  using assms read_bound [OF assms] by (simp_all add: short_by_def bump_level)

lemma with_counters_simps [simp]: "js_counters (with_counters c st) = c"
  by (simp add: js_counters_def with_counters_def)

lemma process_row_balance:
  assumes "short_by (Suc k) (js_counters st)" "mf_explode (mp_features p) = None"
  shows "row_balance k (js_counters st) (process_row p je migrate_tokens r st)"
proof (cases "mp_needs_record p")
  case False
  then show ?thesis using write_row_balance [OF assms(1)] by (simp add: process_row_def)
next
  case True
  define rcd where "rcd = materialise r (mp_projection_width p) (mp_origin_key_indices p)"
  show ?thesis
  proof (cases "decide (mp_features p) rcd")
    case (Inl e)
    then show ?thesis
      using True assms(1) by (simp add: process_row_def Let_def classify_def row_balance_def flip: rcd_def)
  next
    case (Inr d)
    show ?thesis
    proof (cases d)
      case DecideSkipped
      then show ?thesis
        using True Inr skip_balance(1,2) [OF assms(1)]
        by (simp add: process_row_def Let_def classify_def row_balance_def increment_one_def flip: rcd_def)
    next
      case (DecideWrite inputs)
      then have "ri_entries inputs = None"
        using Inr assms(2) by (auto simp: decide_def bindR_Inr_iff split: if_splits)
      then show ?thesis
        using True Inr DecideWrite write_row_balance [of k "with_counters (js_counters st) st"] assms(1)
        by (simp add: process_row_def Let_def classify_def flip: rcd_def)
    qed
  qed
qed

lemma page_loop_balance:
  assumes "mf_explode (mp_features p) = None"
  shows "short_by 0 (js_counters st) \<Longrightarrow> lv (js_counters st) CRead + length page < 2 ^ 64 \<Longrightarrow>
    page_loop p je migrate_tokens page st = (Inr u, st') \<Longrightarrow>
      short_by 0 (js_counters st') \<and> lv (js_counters st') CRead = lv (js_counters st) CRead + length page"
proof (induction page arbitrary: st)
  case (Cons row page)
  obtain r where r: "row = Inr r" using Cons.prems(3) by (cases row) auto
  define st1 where "st1 = with_counters (increment_by (Counter CRead Migrate) 1 (js_counters st)) st"
  have st1: "short_by 1 (js_counters st1)" "lv (js_counters st1) CRead = lv (js_counters st) CRead + 1"
    using Cons.prems(1,2) by (simp_all add: short_by_def st1_def bump_level)
  obtain res st2 where row: "process_row p je migrate_tokens r st1 = (res, st2)" by fastforce
  have bal: "row_balance 0 (js_counters st1) (res, st2)"
    using process_row_balance [of 0 st1 p je r] st1(1) assms row by simp
  have loop: "page_loop p je migrate_tokens (row # page) st =
      (case (res, st2) of
        (Inr _, st') \<Rightarrow> page_loop p je migrate_tokens page st'
      | (Inl (RangeError e), st') \<Rightarrow> (Inl e, st')
      | (Inl (RecordError e), st') \<Rightarrow>
          page_loop p je migrate_tokens page (with_counters (increment_by (Counter CError Migrate) 1 (js_counters st')) st'))"
    using row by (simp add: r st1_def increment_one_def split: sum.split row_error.split)
  show ?case
  proof (cases res)
    case (Inr v)
    then show ?thesis using Cons.IH [of st2] Cons.prems(2,3) loop bal st1(2) by (simp add: row_balance_def)
  next
    case (Inl e)
    then obtain f where e: "e = RecordError f" using Cons.prems(3) loop by (cases e) auto
    then have "short_by 1 (js_counters st2)" "lv (js_counters st2) CRead = lv (js_counters st1) CRead"
      using bal Inl by (simp_all add: row_balance_def)
    then show ?thesis
      using Cons.IH [of "with_counters (increment_by (Counter CError Migrate) 1 (js_counters st2)) st2"]
        skip_balance(3,4) [of 0 "js_counters st2"] Cons.prems(2,3) loop Inl e st1(2) by simp
  qed
qed simp

text \<open>
  Claim C5. Every row of a page is accounted for exactly once (MIG-001 to MIG-005): when a page of a run
  without an exploded map is processed to the end, READ has grown by the number of its rows, each of
  which is now counted as written, skipped or an error, and none is left unflushed; whatever the filters
  and features decide, however many records fail to bind, and for ordinary and counter tables alike.
\<close>

theorem page_accounts_for_every_row:
  assumes "mf_explode (mp_features p) = None" "migrate_range c" "lv c CUnflushed = 0"
    and "lv c CRead = lv c CWrite + lv c CSkipped + lv c CError" "lv c CRead + length page < 2 ^ 64"
    and "process_page p je migrate_tokens page (c, history) = (Inr u, c', history')"
  shows "lv c' CRead = lv c CRead + length page
    \<and> lv c' CRead = lv c' CWrite + lv c' CSkipped + lv c' CError \<and> lv c' CUnflushed = 0"
proof -
  let ?st = "\<lparr>js_buffer = new_buffer c, js_counter_writes = history\<rparr>"
  have c: "js_counters ?st = c" by (simp add: js_counters_def new_buffer_def)
  obtain v st b where loop: "page_loop p je migrate_tokens page ?st = (Inr v, st)"
    and fl: "buffer_flush (je_sink je) migrate_tokens (js_buffer st) = (Inr u, b)" and b: "c' = wb_counters b"
    using assms(6) by (auto simp: process_page_def split: prod.splits sum.splits)
  have "short_by 0 c" using assms(2-4) by (simp add: short_by_def)
  then have st: "short_by 0 (js_counters st)" "lv (js_counters st) CRead = lv c CRead + length page"
    using page_loop_balance [OF assms(1) _ _ loop] assms(5) by (simp_all add: c)
  show ?thesis
    using buffer_flush_balance [OF fl, of 0 u] st by (simp add: js_counters_def short_by_def b)
qed

text \<open>
  Claim C34. A range that fails counts its bad records twice: when the last flush of any page of a range
  without an exploded map fails, the failure accounting of the scheduler adds READ - WRITE - SKIPPED to
  ERROR, and this difference already holds the records of all its pages that were counted as errors one
  by one. With \<open>e\<close> bad records and \<open>u\<close> unflushed rows, ERROR ends at \<open>2 * e + u\<close>, though \<open>e + u\<close> rows were
  not written.
\<close>

theorem failed_range_counts_errors_twice:
  assumes "mf_explode (mp_features p) = None" "migrate_range c" "lv c CUnflushed = 0"
    and "lv c CRead = lv c CWrite + lv c CSkipped + lv c CError" "lv c CRead + length page < 2 ^ 63"
    and "page_loop p je migrate_tokens page \<lparr>js_buffer = new_buffer c, js_counter_writes = history\<rparr> = (Inr u, st)"
    and "buffer_flush (je_sink je) migrate_tokens (js_buffer st) = (Inl failure_cause, b)"
    and "record_range_failure (wb_counters b) = (c', lost)"
  shows "lost = lv (wb_counters b) CError + lv (wb_counters b) CUnflushed
    \<and> lv c' CError = 2 * lv (wb_counters b) CError + lv (wb_counters b) CUnflushed"
proof -
  let ?st = "\<lparr>js_buffer = new_buffer c, js_counter_writes = history\<rparr>" and ?d = "wb_counters b"
  have "short_by 0 (js_counters ?st)" "lv (js_counters ?st) CRead = lv c CRead"
    using assms(2-4) by (simp_all add: js_counters_def new_buffer_def short_by_def)
  then have st: "short_by 0 (js_counters st)" "lv (js_counters st) CRead = lv c CRead + length page"
    using page_loop_balance [OF assms(1) _ _ assms(6)] assms(5) by simp_all
  have d: "short_by 0 ?d" "lv ?d CRead = lv c CRead + length page"
    using buffer_flush_balance [OF assms(7), of 0] st by (simp_all add: js_counters_def)
  have job: "wf_counters ?d" "jc_job ?d = Migrate" using d(1) by (simp_all add: short_by_def migrate_range_def)
  have lost: "lost = lv ?d CError + lv ?d CUnflushed"
    using record_range_failure_level(1) [OF job(1) assms(8)] d(1) job(2) by (simp add: lost_rows_def short_by_def Let_def)
  have sum: "lv ?d CError + lv ?d CUnflushed \<le> lv c CRead + length page" using d by (simp add: short_by_def)
  have "lv c' CError = (if 0 < lost then (lv ?d CError + lost) mod 2 ^ 64 else lv ?d CError)"
    using record_range_failure_level(5) [OF job(1) assms(8), of CError] job(2) by (simp add: is_registered_for_def)
  then show ?thesis using lost sum assms(5) by auto
qed

subsection \<open>The key of a counter lookup\<close>

lemma delta_row_elsewhere:
  assumes "counter_deltas cs origin current = Inr ds" "\<forall>c \<in> set cs. cc_origin_index c \<noteq> j"
  shows "delta_row origin ds j = origin j"
proof -
  have "List.find (\<lambda>(position, _). position = j) ds = None"
    using assms
  proof (induction cs arbitrary: ds)
    case (Cons c cs)
    then show ?case by (auto simp: bindR_Inr_iff split: option.splits)
  qed simp
  then show ?thesis by (simp add: delta_row_def)
qed

lemma bind_column_cong:
  assumes "\<And>j. cb_source c = FromOrigin j \<Longrightarrow> r j = r' j"
  shows "bind_column b c r inputs = bind_column b c r' inputs"
proof -
  have "raw_value c r inputs = raw_value c r' inputs"
    using assms by (cases "cb_source c") (simp_all add: raw_value_def)
  then show ?thesis by (simp add: bind_column_def)
qed

lemma bind_key_cong:
  assumes "\<And>i c j. i \<in> set (kb_indices kb) \<Longrightarrow> list_get (bd_columns b) i = Some c \<Longrightarrow> cb_source c = FromOrigin j \<Longrightarrow> r j = r' j"
  shows "bind_key_row b kb r inputs = bind_key_row b kb r' inputs"
  unfolding bind_key_row_def
proof (rule collectR_cong [OF refl])
  fix x
  assume "x \<in> set (enumerate 0 (kb_indices kb))"
  then have i: "snd x \<in> set (kb_indices kb)" by (metis in_set_enumerate_eq nth_mem add.right_neutral diff_zero)
  show "bind_at b r inputs (fst x) (snd x) = bind_at b r' inputs (fst x) (snd x)"
    using bind_column_cong [of _ r r'] assms [OF i] by (cases "list_get (bd_columns b) (snd x)") (auto simp: bind_at_def)
qed

lemma key_column_source:
  assumes "new_binder m up pn mk strip = Inr b" "resolve_key_binding b sel = Inr kb" "i \<in> set (kb_indices kb)"
    and "list_get (bd_columns b) i = Some c" "cb_source c = FromOrigin j"
  shows "\<exists>name \<in> set (tsel_bound_key_columns sel). source_of m name = Some (FromOrigin j)"
proof -
  have "list_all2 (\<lambda>name i. key_index b name = Inr i) (tsel_bound_key_columns sel) (kb_indices kb)"
    using assms(2) by (cases kb) (auto simp: resolve_key_binding_def bindR_Inr_iff collectR_Inr_iff)
  then obtain name where name: "name \<in> set (tsel_bound_key_columns sel)" "key_index b name = Inr i"
    using assms(3) by (auto dest: list_all2_memberD2)
  note pos = key_index_position [OF assms(1) name(2)]
  have i: "i < length (cmap_target m)" using position_of_SomeD [OF pos] by simp
  have "mapping_source m i = Some (FromOrigin j)"
    using assms(4,5) bind_column_ofD(3) [OF new_binderD(5) [OF assms(1) i]] new_binderD(2) [OF assms(1)]
    by (auto simp: list_get_def split: option.splits if_splits)
  then have "source_of m name = Some (FromOrigin j)" using pos by (simp add: source_of_def)
  then show ?thesis using name(1) by blast
qed

text \<open>
  Claim C29. The target row a counter delta is computed from is the row the delta is written to (MIG-031): the
  lookup has one term per key column of the target, in key order, and the value it binds at each marker
  is byte for byte the value the counter write binds for the same column, provided that no key column
  reads the origin column of a counter.
\<close>

theorem counter_lookup_key_is_written_key:
  assumes "resolve_mapping o_table t_table options = Inr m" "distinct (map cm_name (ts_columns t_table))"
    and "resolve_migrate_plan m projection pn settings mk strip features = Inr p" "new_upsert m (mf_using features) = Inr up"
    and "target_select_by_pk m = Inr sel" "counter_write_of p je r inputs history = Inr write"
    and "\<forall>key \<in> set (primary_key_columns (cmap_target_table m)). \<forall>c \<in> set (cp_columns (mp_counters p)).
      source_of m (cm_name key) \<noteq> Some (FromOrigin (cc_origin_index c))"
  shows "tsel_cql sel = ''SELECT '' @ join (map column_quoted_name (ts_columns (cmap_target_table m))) @ '' FROM ''
      @ table_quoted_name (cmap_target_table m) @ '' WHERE ''
      @ join_strings '' AND '' (map (key_term m) (primary_key_columns (cmap_target_table m)))
    \<and> (\<exists>key current. bind_key_row (mp_binder p) (mp_key_binding p) (source_cell (materialise_row r (mp_projection_width p))) inputs = Inr key
       \<and> je_counter_row je history key = Inr current
       \<and> list_all2 (\<lambda>column v. \<exists>i k. i < length (cmap_target m) \<and> cm_name (cmap_target m ! i) = cm_name column
            \<and> bind_position up i = Some k \<and> v = write ! k)
           (filter (has_marker m) (primary_key_columns (cmap_target_table m))) key)"
proof -
  let ?src = "source_cell (materialise_row r (mp_projection_width p))" and ?b = "mp_binder p"
  have b: "new_binder m up pn mk strip = Inr ?b" and kb: "resolve_key_binding ?b sel = Inr (mp_key_binding p)"
    using assms(3-5) by (auto simp: resolve_migrate_plan_def bindR_Inr_iff)
  obtain key current ds where key: "bind_key_row ?b (mp_key_binding p) ?src inputs = Inr key"
    and cur: "je_counter_row je history key = Inr current" and ds: "plan_deltas (mp_counters p) ?src current = Inr ds"
    and bound: "\<exists>bd. bind_row ?b (delta_row ?src ds) inputs = Inr bd
      \<and> (case bd of CounterWrite w \<Rightarrow> Inr w | IdempotentWrite _ \<Rightarrow> Inl (RangeError counter_shape_mismatch)) = Inr write"
    using assms(6) unfolding counter_write_of_def Let_def bindR_Inr_iff by fastforce
  obtain bd where bd: "bind_row ?b (delta_row ?src ds) inputs = Inr bd"
    "(case bd of CounterWrite w \<Rightarrow> Inr w | IdempotentWrite _ \<Rightarrow> Inl (RangeError counter_shape_mismatch)) = Inr write"
    using bound by blast
  then have w: "bind_row ?b (delta_row ?src ds) inputs = Inr (CounterWrite write)" by (cases bd) auto
  have "?src j = delta_row ?src ds j"
    if "i \<in> set (kb_indices (mp_key_binding p))" "list_get (bd_columns ?b) i = Some c" "cb_source c = FromOrigin j" for i c j
    using key_column_source [OF b kb that] delta_row_elsewhere [of "cp_columns (mp_counters p)" ?src current ds j]
      ds assms(7) select_text(2) [OF assms(5)] by (fastforce simp: plan_deltas_def)
  then have "bind_key_row ?b (mp_key_binding p) (delta_row ?src ds) inputs = Inr key"
    using bind_key_cong [of "mp_key_binding p" ?b ?src "delta_row ?src ds" inputs] key by simp
  then show ?thesis
    using bound_key_values [OF assms(1,2,4) b w assms(5) kb] select_text [OF assms(5)] key cur by (auto simp: list_all2_map1)
qed

subsection \<open>A page with a good and a bad row\<close>

definition plain_features :: migrate_features where
  "plain_features = \<lparr>mf_filters_empty = True, mf_accepts = \<lambda>_. Inr True, mf_using = ttl_only, mf_has_ttl = False,
     mf_has_writetime = False, mf_ttl = \<lambda>_. Inr None, mf_writetime = \<lambda>_. Inr None, mf_extract_json = None, mf_explode = None\<rparr>"

definition demo_plan :: migrate_plan where
  "demo_plan = \<lparr>mp_binder = demo_binder, mp_key_binding = demo_key_binding, mp_settings = pair_settings,
     mp_counters = \<lparr>cp_columns = []\<rparr>, mp_partition_positions = [0], mp_origin_key_indices = [0],
     mp_projection_width = 2, mp_features = plain_features, mp_needs_record = False\<rparr>"

definition null_row :: row where
  "null_row = Row [NULL_cell, NULL_cell]"

definition demo_page :: "row result list" where
  "demo_page = [Inr demo_row, Inr null_row]"

definition demo_env :: "(usize \<Rightarrow> request \<Rightarrow> unit result) \<Rightarrow> job_env" where
  "demo_env outcome = \<lparr>je_sink = steady_env\<lparr>se_outcome := outcome\<rparr>, je_counter_row = \<lambda>_ _. Inr None, je_write_counter = \<lambda>_ _. Inr ()\<rparr>"

lemma demo_plan_resolves:
  "resolve_migrate_plan demo_mapping (new_projection (cmap_origin demo_mapping) []) demo_planner pair_settings demo_policy False plain_features
     = Inr demo_plan"
proof -
  have facts: "target_select_by_pk demo_mapping = Inr demo_select" "resolve_key_binding demo_binder demo_select = Inr demo_key_binding"
    "resolve_counter_plan demo_mapping = Inr \<lparr>cp_columns = []\<rparr>" "origin_key_indices demo_mapping = Inr [0]"
    "partition_positions demo_mapping demo_upsert = [0]" "projection_width (new_projection (cmap_origin demo_mapping) []) = 2"
    by code_simp+
  show ?thesis
    by (simp add: resolve_migrate_plan_def plain_features_def demo_plan_def demo_upsert_new demo_binder_new facts)
qed

lemma demo_rows:
  "bind_row demo_binder (source_cell demo_row) default_inputs
     = Inr (IdempotentWrite [Value [0, 0, 0, 7], Unset, Value [104], Unset])"
  "\<exists>f. bind_row demo_binder (source_cell null_row) default_inputs = Inl f"
proof -
  show "bind_row demo_binder (source_cell demo_row) default_inputs
     = Inr (IdempotentWrite [Value [0, 0, 0, 7], Unset, Value [104], Unset])"
    using demo_bound by (simp add: default_inputs_def demo_inputs_def)
  have "isl (bind_row demo_binder (source_cell null_row) default_inputs)" by code_simp
  then show "\<exists>f. bind_row demo_binder (source_cell null_row) default_inputs = Inl f" by (simp add: isl_def)
qed

abbreviation counted :: "counter_kind \<Rightarrow> job_counters \<Rightarrow> job_counters" where
  "counted k \<equiv> increment_by (Counter k Migrate) 1"

definition demo_counts :: job_counters where
  "demo_counts = counted CError (counted CRead (counted CUnflushed (counted CRead (new_counters Migrate))))"

lemma demo_counts_levels:
  "migrate_range demo_counts" "lv demo_counts CRead = 2" "lv demo_counts CUnflushed = 1" "lv demo_counts CError = 1"
  "lv demo_counts CWrite = 0" "lv demo_counts CSkipped = 0"
  by (simp_all add: demo_counts_def bump_level migrate_range_def [of "new_counters Migrate"])

lemma demo_loop:
  "\<exists>st. page_loop demo_plan (demo_env outcome) migrate_tokens demo_page
       \<lparr>js_buffer = new_buffer (new_counters Migrate), js_counter_writes = []\<rparr> = (Inr (), st)
     \<and> js_counters st = demo_counts \<and> js_counter_writes st = [] \<and> wb_inflight (js_buffer st) = []
     \<and> wb_batch (js_buffer st) = [[Value [0, 0, 0, 7], Unset, Value [104], Unset]]"
proof -
  have one: "unflushed_count migrate_tokens (counted CUnflushed (counted CRead (new_counters Migrate))) = 1"
    using bump_level [of "new_counters Migrate" CRead 1] bump_level [of "counted CRead (new_counters Migrate)" CUnflushed 1]
    by (simp add: migrate_range_def unflushed_level)
  obtain f where "bind_row demo_binder (source_cell null_row) default_inputs = Inl f" using demo_rows(2) by blast
  then show ?thesis
    using demo_rows(1) one
    by (simp add: demo_page_def process_row_def write_row_def on_buffer_def step_defs pair_settings_simps demo_plan_def demo_env_def
        steady_env_def with_counters_def js_counters_def new_buffer_def increment_one_def demo_counts_def is_counter_run_def
        counter_plan_is_empty_def)
qed

lemma demo_flush:
  assumes "wb_inflight st = []" "wb_batch st = [w]"
  shows "\<exists>st'. buffer_flush (je_sink (demo_env (\<lambda>_ _. Inr ()))) migrate_tokens st = (Inr (), st')"
    "\<exists>st'. buffer_flush (je_sink (demo_env (\<lambda>_ _. Inl e))) migrate_tokens st = (Inl e, st') \<and> wb_counters st' = wb_counters st"
  using assms by (auto simp: demo_env_def steady_env_def step_defs)

theorem page_accounts_for_every_row_witness:
  "\<exists>c' h. process_page demo_plan (demo_env (\<lambda>_ _. Inr ())) migrate_tokens demo_page (new_counters Migrate, []) = (Inr (), c', h)
     \<and> lv c' CRead = 2 \<and> lv c' CRead = lv c' CWrite + lv c' CSkipped + lv c' CError"
proof -
  obtain st where st: "page_loop demo_plan (demo_env (\<lambda>_ _. Inr ())) migrate_tokens demo_page
       \<lparr>js_buffer = new_buffer (new_counters Migrate), js_counter_writes = []\<rparr> = (Inr (), st)"
    "wb_inflight (js_buffer st) = []" "wb_batch (js_buffer st) = [[Value [0, 0, 0, 7], Unset, Value [104], Unset]]"
    using demo_loop by blast
  obtain b where "buffer_flush (je_sink (demo_env (\<lambda>_ _. Inr ()))) migrate_tokens (js_buffer st) = (Inr (), b)"
    using demo_flush(1) [OF st(2,3)] by blast
  then have run: "process_page demo_plan (demo_env (\<lambda>_ _. Inr ())) migrate_tokens demo_page (new_counters Migrate, [])
      = (Inr (), wb_counters b, js_counter_writes st)"
    using st(1) by (simp add: process_page_def)
  have "mf_explode (mp_features demo_plan) = None" "migrate_range (new_counters Migrate)"
    by (simp_all add: demo_plan_def plain_features_def migrate_range_def)
  then show ?thesis
    using page_accounts_for_every_row [OF _ _ _ _ _ run] run by (simp add: demo_page_def)
qed

theorem failed_range_counts_errors_twice_witness:
  "\<exists>st b c' lost. page_loop demo_plan (demo_env (\<lambda>_ _. Inl truncated)) migrate_tokens demo_page
       \<lparr>js_buffer = new_buffer (new_counters Migrate), js_counter_writes = []\<rparr> = (Inr (), st)
     \<and> buffer_flush (je_sink (demo_env (\<lambda>_ _. Inl truncated))) migrate_tokens (js_buffer st) = (Inl truncated, b)
     \<and> record_range_failure (wb_counters b) = (c', lost) \<and> lost = 2 \<and> lv c' CError = 3"
proof -
  obtain st where st: "page_loop demo_plan (demo_env (\<lambda>_ _. Inl truncated)) migrate_tokens demo_page
       \<lparr>js_buffer = new_buffer (new_counters Migrate), js_counter_writes = []\<rparr> = (Inr (), st)"
    "wb_inflight (js_buffer st) = []" "wb_batch (js_buffer st) = [[Value [0, 0, 0, 7], Unset, Value [104], Unset]]"
    "js_counters st = demo_counts"
    using demo_loop by blast
  obtain b where b: "buffer_flush (je_sink (demo_env (\<lambda>_ _. Inl truncated))) migrate_tokens (js_buffer st) = (Inl truncated, b)"
    and c: "wb_counters b = demo_counts"
    using demo_flush(2) [OF st(2,3)] st(4) by (auto simp: js_counters_def)
  obtain c' lost where r: "record_range_failure (wb_counters b) = (c', lost)" by fastforce
  have "mf_explode (mp_features demo_plan) = None" by (simp add: demo_plan_def plain_features_def)
  then have "lost = 2 \<and> lv c' CError = 3"
    using failed_range_counts_errors_twice [OF _ _ _ _ _ st(1) b r] demo_counts_levels
    by (simp add: demo_page_def c migrate_range_def)
  then show ?thesis using st(1) b r by blast
qed

definition hits_features :: migrate_features where
  "hits_features = plain_features\<lparr>mf_using := no_using\<rparr>"

definition hits_job_plan :: migrate_plan where
  "hits_job_plan = \<lparr>mp_binder = hits_binder, mp_key_binding = demo_key_binding, mp_settings = pair_settings,
     mp_counters = hits_plan, mp_partition_positions = [2], mp_origin_key_indices = [0],
     mp_projection_width = 2, mp_features = hits_features, mp_needs_record = False\<rparr>"

definition hits_select :: target_select where
  "hits_select = (case target_select_by_pk hits_mapping of Inr s \<Rightarrow> s)"

definition hits_env :: job_env where
  "hits_env = (demo_env (\<lambda>_ _. Inr ()))\<lparr>je_counter_row := \<lambda>_ key. Inr (if key = [Value [0, 0, 0, 7]] then Some hits_current else None)\<rparr>"

definition hits_origin_row :: row where
  "hits_origin_row = Row [new_cell [0, 0, 0, 7], new_cell [0, 0, 0, 0, 0, 0, 0, 10]]"

lemma hits_select_facts:
  "target_select_by_pk hits_mapping = Inr hits_select" "resolve_key_binding hits_binder hits_select = Inr demo_key_binding"
  "origin_key_indices hits_mapping = Inr [0]" "partition_positions hits_mapping hits_upsert = [2]"
  "projection_width (new_projection (cmap_origin hits_mapping) []) = 2"
  by code_simp+

lemma hits_plan_resolves:
  "resolve_migrate_plan hits_mapping (new_projection (cmap_origin hits_mapping) []) demo_planner pair_settings demo_policy False hits_features
     = Inr hits_job_plan"
  by (simp add: resolve_migrate_plan_def hits_features_def plain_features_def hits_job_plan_def hits_upsert_new hits_binder_new
      hits_select_facts hits_facts(1))

lemma hits_written:
  "counter_write_of hits_job_plan hits_env hits_origin_row demo_inputs []
     = Inr [Value [0, 0, 0, 0, 0, 0, 0, 6], Value [0, 0, 0, 0, 0, 0, 0, 6], Value [0, 0, 0, 7]]"
proof -
  have src: "materialise_row hits_origin_row 2 = hits_origin_row" by code_simp
  have "source_cell hits_origin_row = hits_row" by (simp add: hits_row_def hits_origin_row_def)
  moreover have "bind_key_row hits_binder demo_key_binding hits_row demo_inputs = Inr [Value [0, 0, 0, 7]]" by code_simp
  ultimately show ?thesis
    using hits_facts(2,3) by (simp add: counter_write_of_def hits_job_plan_def src hits_env_def demo_env_def hits_bound_def)
qed

lemma hits_keys:
  "distinct (map cm_name (ts_columns hits_target))"
  "map cm_name (filter (has_marker hits_mapping) (primary_key_columns (cmap_target_table hits_mapping))) = [''id'']"
  "map cm_name (cmap_target hits_mapping) = [''id'', ''hits'', ''visits'']" "bind_position hits_upsert 0 = Some 2"
  "\<forall>key \<in> set (primary_key_columns (cmap_target_table hits_mapping)). \<forall>c \<in> set (cp_columns hits_plan).
      source_of hits_mapping (cm_name key) \<noteq> Some (FromOrigin (cc_origin_index c))"
  by code_simp+

theorem counter_lookup_key_is_written_key_witness:
  "\<exists>key current. bind_key_row (mp_binder hits_job_plan) (mp_key_binding hits_job_plan)
       (source_cell (materialise_row hits_origin_row (mp_projection_width hits_job_plan))) demo_inputs = Inr key
     \<and> je_counter_row hits_env [] key = Inr current \<and> key = [Value [0, 0, 0, 7]]"
proof -
  let ?bs = "[Value [0, 0, 0, 0, 0, 0, 0, 6], Value [0, 0, 0, 0, 0, 0, 0, 6], Value [0, 0, 0, 7]]"
  have up: "new_upsert hits_mapping (mf_using hits_features) = Inr hits_upsert" by (simp add: hits_features_def hits_upsert_new)
  have apart: "\<forall>key \<in> set (primary_key_columns (cmap_target_table hits_mapping)). \<forall>c \<in> set (cp_columns (mp_counters hits_job_plan)).
      source_of hits_mapping (cm_name key) \<noteq> Some (FromOrigin (cc_origin_index c))"
    using hits_keys(5) by (simp add: hits_job_plan_def)
  have "i = 0" if "i < length (cmap_target hits_mapping)" "cm_name (cmap_target hits_mapping ! i) = ''id''" for i
    using that arg_cong [OF hits_keys(3), of "\<lambda>xs. xs ! i"] arg_cong [OF hits_keys(3), of length] by (auto simp: less_Suc_eq numeral_3_eq_3)
  note first = this
  obtain c where c: "filter (has_marker hits_mapping) (primary_key_columns (cmap_target_table hits_mapping)) = [c]" "cm_name c = ''id''"
    using hits_keys(2) by (auto simp: map_eq_Cons_conv)
  obtain key current where key: "bind_key_row (mp_binder hits_job_plan) (mp_key_binding hits_job_plan)
       (source_cell (materialise_row hits_origin_row (mp_projection_width hits_job_plan))) demo_inputs = Inr key"
    "je_counter_row hits_env [] key = Inr current"
    and at: "list_all2 (\<lambda>column v. \<exists>i k. i < length (cmap_target hits_mapping) \<and> cm_name (cmap_target hits_mapping ! i) = cm_name column
            \<and> bind_position hits_upsert i = Some k \<and> v = ?bs ! k) [c] key"
    using counter_lookup_key_is_written_key [OF hits_resolves hits_keys(1) hits_plan_resolves up hits_select_facts(1) hits_written apart]
    unfolding c(1) by blast
  obtain v i k where v: "key = [v]" "i < length (cmap_target hits_mapping)" "cm_name (cmap_target hits_mapping ! i) = ''id''"
    "bind_position hits_upsert i = Some k" "v = ?bs ! k" using at c(2) by (auto simp: list_all2_Cons1)
  then have "key = [Value [0, 0, 0, 7]]" using first [OF v(2,3)] hits_keys(4) by simp
  then show ?thesis using key by blast
qed

end
