(* ===== verification/Migrate_Slots.thy ===== *)
theory Migrate_Slots
  imports Migrate_Buffer Sched_Pacing
begin

text \<open>
  The write slots the workers of a migrate run share: \<open>limits.rs\<close> bounds the writes in flight by a
  semaphore, and \<open>buffer.rs\<close> takes a slot for each request before it is handed over. A request is only
  driven by the flush of the buffer that holds it, so its slot comes back at that flush and not before.
  The step relation lets any number of workers, each with the rest of its page, push and flush their own
  buffers. A worker takes the slots of its next push or flush one by one, as the code does, and waits
  when none is free; when it has them all, the call goes through and succeeds or fails as the target
  decides. Rows may be batched or not. The rows of a counter table do not go through the slots.

  The lemmas determine when all workers can end up waiting for each other.
\<close>

subsection \<open>Workers and slots\<close>

text \<open>A worker: its buffer, the slots it has taken for its next call, and the rows left of its page.\<close>

type_synonym page_worker = "write_buffer \<times> nat \<times> bound_value list list"

record slot_pool =
  sp_permits :: usize
  sp_workers :: "page_worker list"

definition slots_held :: "write_buffer \<Rightarrow> usize" where
  "slots_held b = length (wb_inflight b)"

text \<open>The next call of a worker: the push of its next row, or the flush at the end of the page.\<close>

definition next_call :: "sink_env \<Rightarrow> migrate_settings \<Rightarrow> usize list \<Rightarrow> bound_value list list \<Rightarrow> write_buffer step" where
  "next_call env s ps rows =
     (case rows of [] \<Rightarrow> buffer_flush env migrate_tokens | w # _ \<Rightarrow> push env s migrate_tokens ps w)"

text \<open>How many slots that call takes: one for each request it issues.\<close>

definition slots_needed :: "sink_env \<Rightarrow> migrate_settings \<Rightarrow> usize list \<Rightarrow> bound_value list list \<Rightarrow> write_buffer \<Rightarrow> nat" where
  "slots_needed env s ps rows b = length (wb_issued (snd (next_call env s ps rows b))) - length (wb_issued b)"

definition has_work :: "write_buffer \<Rightarrow> bound_value list list \<Rightarrow> bool" where
  "has_work b rows \<longleftrightarrow> rows \<noteq> [] \<or> wb_inflight b \<noteq> [] \<or> wb_batch b \<noteq> []"

abbreviation worker_at :: "slot_pool \<Rightarrow> nat \<Rightarrow> page_worker \<Rightarrow> bool" where
  "worker_at sp i w \<equiv> i < length (sp_workers sp) \<and> sp_workers sp ! i = w"

text \<open>A failed call drops the buffer, and with it what is in flight and the rest of the page.\<close>

inductive slot_step :: "sink_env \<Rightarrow> migrate_settings \<Rightarrow> usize list \<Rightarrow> slot_pool \<Rightarrow> slot_pool \<Rightarrow> bool" for env s ps where
  take_slot: "\<lbrakk>worker_at sp i (b, k, rows); has_work b rows; k < slots_needed env s ps rows b; 0 < sp_permits sp\<rbrakk> \<Longrightarrow>
    slot_step env s ps sp (sp\<lparr>sp_permits := sp_permits sp - 1, sp_workers := (sp_workers sp)[i := (b, Suc k, rows)]\<rparr>)"
| call_ok: "\<lbrakk>worker_at sp i (b, k, rows); has_work b rows; k = slots_needed env s ps rows b; next_call env s ps rows b = (Inr (), b')\<rbrakk> \<Longrightarrow>
    slot_step env s ps sp (sp\<lparr>sp_permits := sp_permits sp + (slots_held b + k - slots_held b'),
      sp_workers := (sp_workers sp)[i := (b', 0, tl rows)]\<rparr>)"
| call_fails: "\<lbrakk>worker_at sp i (b, k, rows); has_work b rows; k = slots_needed env s ps rows b; next_call env s ps rows b = (Inl e, b')\<rbrakk> \<Longrightarrow>
    slot_step env s ps sp (sp\<lparr>sp_permits := sp_permits sp + (slots_held b + k),
      sp_workers := (sp_workers sp)[i := (new_buffer (new_counters Migrate), 0, [])]\<rparr>)"

inductive_cases slot_stepE: "slot_step env s ps sp sp'"

text \<open>Between pages: a worker without work goes on to another page, of the same range or of the next.\<close>

inductive pool_step :: "sink_env \<Rightarrow> migrate_settings \<Rightarrow> usize list \<Rightarrow> slot_pool \<Rightarrow> slot_pool \<Rightarrow> bool" for env s ps where
  works: "slot_step env s ps sp sp' \<Longrightarrow> pool_step env s ps sp sp'"
| next_page: "\<lbrakk>worker_at sp i (b, k, rows); \<not> has_work b rows; migrate_range c; lv c CUnflushed = 0\<rbrakk> \<Longrightarrow>
    pool_step env s ps sp (sp\<lparr>sp_workers := (sp_workers sp)[i := (new_buffer c, k, page)]\<rparr>)"

inductive_cases pool_stepE: "pool_step env s ps sp sp'"

definition start_pool :: "usize \<Rightarrow> job_counters \<Rightarrow> bound_value list list list \<Rightarrow> slot_pool" where
  "start_pool permits c pages = \<lparr>sp_permits = permits, sp_workers = map (\<lambda>page. (new_buffer c, 0, page)) pages\<rparr>"

text \<open>No slot is free and every worker waits for one to push its next row.\<close>

definition all_waiting :: "sink_env \<Rightarrow> migrate_settings \<Rightarrow> usize list \<Rightarrow> slot_pool \<Rightarrow> bool" where
  "all_waiting env s ps sp \<longleftrightarrow> sp_permits sp = 0 \<and> sp_workers sp \<noteq> []
     \<and> list_all (\<lambda>(b, k, rows). rows \<noteq> [] \<and> k < slots_needed env s ps rows b) (sp_workers sp)"

text \<open>The semaphore is never closed during a run, so a slot is granted as soon as one is free.\<close>

definition slots_granted :: "sink_env \<Rightarrow> bool" where
  "slots_granted env \<longleftrightarrow> (\<forall>n. se_slot env n = Inr ())"

subsection \<open>What a call issues\<close>

text \<open>Every request carries a row.\<close>

definition solid :: "(usize \<times> request) list \<Rightarrow> bool" where
  "solid reqs \<longleftrightarrow> (\<forall>req \<in> snd ` set reqs. request_rows req \<noteq> [])"

lemma solid_simps [simp]: "solid []" "solid (a @ b) \<longleftrightarrow> solid a \<and> solid b" "solid ((n, req) # a) \<longleftrightarrow> request_rows req \<noteq> [] \<and> solid a"
  by (auto simp: solid_def)

lemma solid_length: "solid reqs \<Longrightarrow> length reqs \<le> length (rows_of reqs)"
proof (induction reqs)
  case (Cons r reqs)
  then show ?case by (cases r; cases "request_rows (snd r)") auto
qed simp

lemma granted_issue:
  "slots_granted env \<Longrightarrow> issue env req st = (Inr (), st\<lparr>wb_inflight := wb_inflight st @ [(length (wb_issued st), req)],
     wb_issued := wb_issued st @ [(length (wb_issued st), req)]\<rparr>)"
  by (simp add: issue_def slots_granted_def Let_def)

lemma granted_send:
  assumes "slots_granted env"
  obtains new st' where "send_batch env st = (Inr (), st')" "issues new st st'" "solid new" "rows_of new = wb_batch st" "wb_batch st' = []"
proof (cases "wb_batch st = []")
  case True
  then show ?thesis using that [of st "[]"] by (simp add: send_batch_def)
next
  case False
  let ?req = "(length (wb_issued st), ReqBatch (wb_batch st))"
  show ?thesis
    using that [of "st\<lparr>wb_batch := [], wb_inflight := wb_inflight st @ [?req], wb_issued := wb_issued st @ [?req]\<rparr>" "[?req]"] False
    by (simp add: send_batch_def granted_issue [OF assms] issues_def)
qed

lemma granted_maybe_send:
  assumes "slots_granted env"
  obtains new st' where "(if P then send_batch env st else (Inr (), st)) = (Inr (), st')" "issues new st st'" "solid new"
    "rows_of new @ wb_batch st' = wb_batch st"
proof (cases P)
  case True
  obtain new st' where "send_batch env st = (Inr (), st')" "issues new st st'" "solid new" "rows_of new = wb_batch st" "wb_batch st' = []"
    by (rule granted_send [OF assms, of st])
  then show ?thesis using that [of st' new] True by simp
next
  case False
  then show ?thesis using that [of st "[]"] by simp
qed

lemma granted_accept:
  assumes "slots_granted env" "is_batching s \<or> wb_batch st = []"
  obtains new st' where "accept_write env s ps w st = (Inr (), st')" "issues new st st'" "solid new"
    "rows_of new @ wb_batch st' = wb_batch st @ [w]"
proof (cases "is_batching s")
  case False
  let ?req = "(length (wb_issued st), ReqWrite w)"
  show ?thesis
    using that [of "st\<lparr>wb_inflight := wb_inflight st @ [?req], wb_issued := wb_issued st @ [?req]\<rparr>" "[?req]"] False assms(2)
    by (simp add: accept_write_def granted_issue [OF assms(1)] issues_def)
next
  case True
  obtain a st1 where st1: "(if wb_batch st \<noteq> [] \<and> \<not> same_partition ps (wb_batch st) w then send_batch env st else (Inr (), st)) = (Inr (), st1)"
    and a: "issues a st st1" "solid a" "rows_of a @ wb_batch st1 = wb_batch st"
    by (rule granted_maybe_send [OF assms(1), of _ st])
  let ?st = "st1\<lparr>wb_batch := wb_batch st1 @ [w]\<rparr>"
  obtain b st' where st': "(if ms_batch_size s \<le> length (wb_batch ?st) then send_batch env ?st else (Inr (), ?st)) = (Inr (), st')"
    and b: "issues b ?st st'" "solid b" "rows_of b @ wb_batch st' = wb_batch ?st"
    by (rule granted_maybe_send [OF assms(1), of _ ?st])
  have "issues b st1 st'" using b(1) by (simp add: issues_def)
  moreover have "accept_write env s ps w st = (Inr (), st')"
    using True st1 st' by (simp add: accept_write_def and_then_def Let_def del: length_append)
  moreover have "rows_of (a @ b) @ wb_batch st' = wb_batch st @ [w]" using a(3) b(3) by (metis append_assoc rows_of_simps(2) write_buffer.select_convs(2) write_buffer.surjective write_buffer.update_convs(2))
  ultimately show ?thesis using that [OF _ issues_trans [OF a(1)]] a(2) b(2) by auto
qed

text \<open>
  A call issues requests with rows that were in the open batch or are being pushed; afterwards the buffer
  has been drained, or nothing failed and the new requests are in flight as well.
\<close>

definition call_shape :: "write_buffer \<Rightarrow> nat \<Rightarrow> unit result \<times> write_buffer \<Rightarrow> bool" where
  "call_shape b extra res \<longleftrightarrow> (\<exists>new. wb_issued (snd res) = wb_issued b @ new \<and> solid new
     \<and> length (rows_of new) \<le> length (wb_batch b) + extra
     \<and> (wb_inflight (snd res) = [] \<or> fst res = Inr () \<and> wb_inflight (snd res) = wb_inflight b @ new))"

lemma flush_shape:
  assumes "slots_granted env"
  shows "call_shape b 0 (buffer_flush env migrate_tokens b)" "wb_inflight (snd (buffer_flush env migrate_tokens b)) = []"
proof -
  obtain new b1 where send: "send_batch env b = (Inr (), b1)" "issues new b b1" "solid new" "rows_of new = wb_batch b"
    by (rule granted_send [OF assms, of b])
  have "wb_issued (snd (drain env migrate_tokens b1)) = wb_issued b1" "wb_inflight (snd (drain env migrate_tokens b1)) = []"
    by (simp_all add: drain_def Let_def split: option.split)
  then show "call_shape b 0 (buffer_flush env migrate_tokens b)" "wb_inflight (snd (buffer_flush env migrate_tokens b)) = []"
    using send by (auto simp: buffer_flush_def and_then_def call_shape_def issues_def)
qed

lemma push_shape:
  assumes "slots_granted env" "is_batching s \<or> wb_batch b = []"
  shows "call_shape b 1 (push env s migrate_tokens ps w b)"
proof -
  obtain new b1 where acc: "accept_write env s ps w b = (Inr (), b1)" and new: "issues new b b1" "solid new"
    "rows_of new @ wb_batch b1 = wb_batch b @ [w]"
    by (rule granted_accept [OF assms, of ps w])
  have len: "length (rows_of new) + length (wb_batch b1) = length (wb_batch b) + 1" using arg_cong [OF new(3), of length] by simp
  define b2 where "b2 = b1\<lparr>wb_counters := increment_one (mc_unflushed migrate_tokens) (wb_counters b1)\<rparr>"
  have b2: "wb_issued b2 = wb_issued b @ new" "wb_inflight b2 = wb_inflight b @ new" "wb_batch b2 = wb_batch b1"
    using new(1) by (simp_all add: b2_def issues_def)
  have push: "push env s migrate_tokens ps w b = (if should_flush s (unflushed_count migrate_tokens (wb_counters b2))
      then buffer_flush env migrate_tokens b2 else (Inr (), b2))"
    using acc by (simp add: push_def and_then_def count_issued_def Let_def b2_def)
  show ?thesis
  proof (cases "should_flush s (unflushed_count migrate_tokens (wb_counters b2))")
    case True
    obtain rest where rest: "wb_issued (snd (buffer_flush env migrate_tokens b2)) = wb_issued b2 @ rest" "solid rest"
      "length (rows_of rest) \<le> length (wb_batch b2)" "wb_inflight (snd (buffer_flush env migrate_tokens b2)) = []"
      using flush_shape [OF assms(1), of b2] by (auto simp: call_shape_def)
    then show ?thesis using push True b2 new(2) len by (auto simp: call_shape_def intro!: exI [of _ "new @ rest"])
  next
    case False
    then show ?thesis using push b2 new(2) len by (auto simp: call_shape_def)
  qed
qed

subsection \<open>One worker\<close>

definition worker_ok :: "sink_env \<Rightarrow> migrate_settings \<Rightarrow> write_buffer \<Rightarrow> bool" where
  "worker_ok env s b \<longleftrightarrow> (\<exists>w0 ws. settled env s w0 ws b) \<and> under_threshold s b \<and> solid (wb_inflight b)"

lemma new_worker_ok: "migrate_range c \<Longrightarrow> lv c CUnflushed = 0 \<Longrightarrow> worker_ok env s (new_buffer c) \<and> slots_held (new_buffer c) = 0"
  using new_buffer_settled [of c env s] by (auto simp: worker_ok_def slots_held_def new_buffer_def)

lemma call_shape_of:
  assumes "slots_granted env" "worker_ok env s b"
  shows "call_shape b (if rows = [] then 0 else 1) (next_call env s ps rows b)"
proof -
  have "is_batching s \<or> wb_batch b = []" using assms(2) by (auto simp: worker_ok_def settled_def)
  then show ?thesis
    using flush_shape(1) [OF assms(1), of b] push_shape [OF assms(1), of s b ps] by (simp add: next_call_def split: list.split)
qed

lemma held_unflushed: "worker_ok env s b \<Longrightarrow> slots_held b + length (wb_batch b) \<le> lv (wb_counters b) CUnflushed"
  using solid_length [of "wb_inflight b"] by (auto simp: worker_ok_def settled_def slots_held_def)

lemma threshold_level: "worker_ok env s b \<Longrightarrow> lv (wb_counters b) CUnflushed \<le> ms_flush_threshold s - 1"
  by (auto simp: worker_ok_def under_threshold_def)

text \<open>What a worker holds and needs together is at most the flush threshold.\<close>

lemma held_and_needed:
  assumes "slots_granted env" "worker_ok env s b"
  shows "slots_held b + slots_needed env s ps rows b \<le> Suc (ms_flush_threshold s - 1)"
proof -
  obtain new where new: "wb_issued (snd (next_call env s ps rows b)) = wb_issued b @ new" "solid new"
    "length (rows_of new) \<le> length (wb_batch b) + (if rows = [] then 0 else 1)"
    using call_shape_of [OF assms, of rows ps] by (auto simp: call_shape_def)
  then have "slots_needed env s ps rows b \<le> length (wb_batch b) + 1"
    using solid_length [OF new(2)] by (auto simp: slots_needed_def split: if_splits)
  then show ?thesis using held_unflushed [OF assms(2)] threshold_level [OF assms(2)] by simp
qed

lemma idle_holds_nothing: "\<not> has_work b rows \<Longrightarrow> slots_held b = 0"
  by (simp add: has_work_def slots_held_def)

lemma idle_needs_nothing:
  assumes "slots_granted env" "worker_ok env s b" "\<not> has_work b rows"
  shows "slots_needed env s ps rows b = 0"
proof -
  have "call_shape b 0 (next_call env s ps rows b)" "wb_batch b = []"
    using call_shape_of [OF assms(1,2), of rows ps] assms(3) by (simp_all add: has_work_def)
  then show ?thesis by (auto simp: call_shape_def slots_needed_def dest!: solid_length)
qed

lemma call_ok_worker:
  assumes "fair_completion env" "slots_granted env" "ms_flush_threshold s < 2 ^ 64" "worker_ok env s b"
    and "next_call env s ps rows b = (Inr (), b')"
  shows "worker_ok env s b' \<and> slots_held b' \<le> slots_held b + slots_needed env s ps rows b"
proof -
  obtain w0 ws where b: "settled env s w0 ws b" "under_threshold s b" "solid (wb_inflight b)"
    using assms(4) by (auto simp: worker_ok_def)
  have "(\<exists>ws'. settled env s w0 ws' b') \<and> under_threshold s b'"
  proof (cases rows)
    case Nil
    then have flush: "buffer_flush env migrate_tokens b = (Inr (), b')" using assms(5) by (simp add: next_call_def)
    note b' = buffer_flush_settled [OF assms(1) b(1) flush]
    then show ?thesis using drained_is_zero [OF b'] by (auto simp: under_threshold_def)
  next
    case (Cons w rest)
    then have push: "push env s migrate_tokens ps w b = (Inr (), b')" using assms(5) by (simp add: next_call_def)
    then show ?thesis using push_settled [OF assms(1) b(1,2) assms(3) push] by blast
  qed
  moreover obtain new where "wb_issued b' = wb_issued b @ new" "solid new" "wb_inflight b' = [] \<or> wb_inflight b' = wb_inflight b @ new"
    using call_shape_of [OF assms(2,4), of rows ps] assms(5) by (auto simp: call_shape_def)
  ultimately show ?thesis using b(3) assms(5) by (auto simp: worker_ok_def slots_held_def slots_needed_def)
qed

subsection \<open>Enough slots: the workers make progress\<close>

definition worker_slots :: "page_worker \<Rightarrow> nat" where
  "worker_slots w = slots_held (fst w) + fst (snd w)"

definition page_worker_ok :: "sink_env \<Rightarrow> migrate_settings \<Rightarrow> usize list \<Rightarrow> page_worker \<Rightarrow> bool" where
  "page_worker_ok env s ps w \<longleftrightarrow> worker_ok env s (fst w) \<and> fst (snd w) \<le> slots_needed env s ps (snd (snd w)) (fst w)"

definition pool_ok :: "sink_env \<Rightarrow> migrate_settings \<Rightarrow> usize list \<Rightarrow> usize \<Rightarrow> nat \<Rightarrow> slot_pool \<Rightarrow> bool" where
  "pool_ok env s ps permits n sp \<longleftrightarrow> length (sp_workers sp) = n \<and> (\<forall>w \<in> set (sp_workers sp). page_worker_ok env s ps w)
     \<and> sp_permits sp + (\<Sum>w \<leftarrow> sp_workers sp. worker_slots w) = permits"

lemma sum_list_update_held:
  fixes f :: "'a \<Rightarrow> nat"
  assumes "i < length xs"
  shows "(\<Sum>x \<leftarrow> xs[i := y]. f x) + f (xs ! i) = (\<Sum>x \<leftarrow> xs. f x) + f y"
  using assms by (induction xs arbitrary: i) (auto split: nat.split)

lemma pool_ok_update:
  assumes "pool_ok env s ps permits n sp" "worker_at sp i w" "page_worker_ok env s ps w'"
    and "free + worker_slots w' = sp_permits sp + worker_slots w"
  shows "pool_ok env s ps permits n (sp\<lparr>sp_permits := free, sp_workers := (sp_workers sp)[i := w']\<rparr>)"
  using assms sum_list_update_held [of i "sp_workers sp" worker_slots w'] set_update_subset_insert [of "sp_workers sp" i w']
  by (auto simp: pool_ok_def)

lemma pool_worker: "pool_ok env s ps permits n sp \<Longrightarrow> worker_at sp i (b, k, rows) \<Longrightarrow> worker_ok env s b \<and> k \<le> slots_needed env s ps rows b"
  by (metis pool_ok_def page_worker_ok_def nth_mem fst_conv snd_conv)

lemma slot_step_pool_ok:
  assumes "fair_completion env" "slots_granted env" "ms_flush_threshold s < 2 ^ 64" "slot_step env s ps sp sp'" "pool_ok env s ps permits n sp"
  shows "pool_ok env s ps permits n sp'"
  using assms(4)
proof cases
  case (take_slot i b k rows)
  then show ?thesis
    using pool_worker [OF assms(5) take_slot(2)] unfolding take_slot(1)
    by (intro pool_ok_update [OF assms(5) take_slot(2)]) (simp_all add: page_worker_ok_def worker_slots_def)
next
  case (call_ok i b k rows b')
  have "worker_ok env s b' \<and> slots_held b' \<le> slots_held b + k"
    using call_ok_worker [OF assms(1-3) _ call_ok(5)] pool_worker [OF assms(5) call_ok(2)] call_ok(4) by simp
  then show ?thesis
    unfolding call_ok(1)
    by (intro pool_ok_update [OF assms(5) call_ok(2)]) (simp_all add: page_worker_ok_def worker_slots_def)
next
  case (call_fails i b k rows e b')
  then show ?thesis
    using new_worker_ok [of "new_counters Migrate" env s] unfolding call_fails(1)
    by (intro pool_ok_update [OF assms(5) call_fails(2)])
      (simp_all add: page_worker_ok_def worker_slots_def migrate_range_def)
qed

lemma pool_step_pool_ok:
  assumes "fair_completion env" "slots_granted env" "ms_flush_threshold s < 2 ^ 64" "pool_step env s ps sp sp'" "pool_ok env s ps permits n sp"
  shows "pool_ok env s ps permits n sp'"
  using assms(4)
proof cases
  case works
  then show ?thesis using slot_step_pool_ok [OF assms(1-3) _ assms(5)] by simp
next
  case (next_page i b k rows c page)
  have "k = 0" "slots_held b = 0"
    using pool_worker [OF assms(5) next_page(2)] idle_needs_nothing [OF assms(2) _ next_page(3), of s ps]
      idle_holds_nothing [OF next_page(3)] by auto
  then have "pool_ok env s ps permits n (sp\<lparr>sp_permits := sp_permits sp, sp_workers := (sp_workers sp)[i := (new_buffer c, k, page)]\<rparr>)"
    using new_worker_ok [OF next_page(4,5), of env s]
    by (intro pool_ok_update [OF assms(5) next_page(2)]) (simp_all add: page_worker_ok_def worker_slots_def)
  then show ?thesis by (simp add: next_page(1) pool_ok_def)
qed

lemma start_pool_ok:
  assumes "migrate_range c" "lv c CUnflushed = 0"
  shows "pool_ok env s ps permits (length pages) (start_pool permits c pages)"
  using new_worker_ok [OF assms] by (auto simp: pool_ok_def start_pool_def comp_def page_worker_ok_def worker_slots_def)

lemma pool_ok_reachable:
  assumes "fair_completion env" "slots_granted env" "ms_flush_threshold s < 2 ^ 64" "migrate_range c" "lv c CUnflushed = 0"
    and "(pool_step env s ps)\<^sup>*\<^sup>* (start_pool permits c pages) sp"
  shows "pool_ok env s ps permits (length pages) sp"
  using assms(6) by induction (auto intro: start_pool_ok [OF assms(4,5)] pool_step_pool_ok [OF assms(1-3)])

text \<open>When nobody is ready to make its call, the slots taken stay below the threshold for every worker.\<close>

lemma waiting_slots:
  assumes "slots_granted env" "pool_ok env s ps permits n sp"
    and "\<And>b k rows. (b, k, rows) \<in> set (sp_workers sp) \<Longrightarrow> has_work b rows \<Longrightarrow> k \<noteq> slots_needed env s ps rows b"
  shows "(\<Sum>w \<leftarrow> sp_workers sp. worker_slots w) \<le> n * (ms_flush_threshold s - 1)"
proof -
  have "worker_slots w \<le> ms_flush_threshold s - 1" if w: "w \<in> set (sp_workers sp)" for w
  proof -
    obtain b k rows where eq: "w = (b, k, rows)" by (cases w)
    have ok: "worker_ok env s b" "k \<le> slots_needed env s ps rows b"
      using assms(2) w by (auto simp: pool_ok_def page_worker_ok_def eq)
    show ?thesis
    proof (cases "has_work b rows")
      case True
      then have "k < slots_needed env s ps rows b" using assms(3) w ok(2) by (fastforce simp: eq)
      then show ?thesis using held_and_needed [OF assms(1) ok(1), of ps rows] by (simp add: eq worker_slots_def)
    next
      case False
      then show ?thesis
        using ok(2) idle_needs_nothing [OF assms(1) ok(1) False, of ps] idle_holds_nothing [OF False] by (simp add: eq worker_slots_def)
    qed
  qed
  then have "(\<Sum>w \<leftarrow> ws. worker_slots w) \<le> length ws * (ms_flush_threshold s - 1)" if "set ws \<subseteq> set (sp_workers sp)" for ws
    using that by (induction ws) (auto intro: add_mono)
  then show ?thesis using assms(2) by (auto simp: pool_ok_def)
qed

text \<open>
  Claim C10. With more write slots than workers times one less than the flush threshold the workers never
  wait for each other, whether rows are batched or not and whichever writes fail: in every state they can
  reach, over any number of pages, as long as some worker has rows, an open batch or writes in flight,
  some worker can take a slot or make its next call. Writes in flight are assumed to complete when a
  flush drives them, and slots to be granted when they are free.
\<close>

theorem enough_slots_no_deadlock:
  assumes "fair_completion env" "slots_granted env" "ms_flush_threshold s < 2 ^ 64" "migrate_range c" "lv c CUnflushed = 0"
    and "length pages * (ms_flush_threshold s - 1) < permits"
    and "(pool_step env s ps)\<^sup>*\<^sup>* (start_pool permits c pages) sp"
    and "(b, k, rows) \<in> set (sp_workers sp)" "has_work b rows"
  shows "\<exists>sp'. slot_step env s ps sp sp'"
proof (cases "\<exists>b k rows. (b, k, rows) \<in> set (sp_workers sp) \<and> has_work b rows \<and> k = slots_needed env s ps rows b")
  case True
  then obtain i b k rows where w: "worker_at sp i (b, k, rows)" "has_work b rows" "k = slots_needed env s ps rows b"
    by (metis in_set_conv_nth)
  obtain r b' where "next_call env s ps rows b = (r, b')" by fastforce
  then consider e where "next_call env s ps rows b = (Inl e, b')" | "next_call env s ps rows b = (Inr (), b')" by (cases r) auto
  then show ?thesis using slot_step.call_ok [OF w] slot_step.call_fails [OF w] by cases blast+
next
  case False
  note ok = pool_ok_reachable [OF assms(1-5,7)]
  obtain i where i: "worker_at sp i (b, k, rows)" using assms(8) by (auto simp: in_set_conv_nth)
  have "k < slots_needed env s ps rows b" using pool_worker [OF ok i] False assms(8,9) by fastforce
  moreover have "0 < sp_permits sp" using waiting_slots [OF assms(2) ok] False ok assms(6) by (fastforce simp: pool_ok_def)
  ultimately show ?thesis using slot_step.take_slot [OF i assms(9)] by blast
qed

subsection \<open>Too few slots: all workers can wait\<close>

text \<open>A buffer after \<open>k\<close> unbatched rows were pushed and none was flushed.\<close>

definition filled :: "nat \<Rightarrow> write_buffer \<Rightarrow> bool" where
  "filled k b \<longleftrightarrow> wb_batch b = [] \<and> slots_held b = k \<and> migrate_range (wb_counters b) \<and> lv (wb_counters b) CUnflushed = k"

lemma push_filled:
  assumes "slots_granted env" "\<not> is_batching s" "filled k b" "ms_flush_threshold s < 2 ^ 64"
  shows "slots_needed env s ps (w # rows) b = 1"
    "Suc k < ms_flush_threshold s \<Longrightarrow> \<exists>b'. push env s migrate_tokens ps w b = (Inr (), b') \<and> filled (Suc k) b'"
proof -
  have b: "wb_batch b = []" "migrate_range (wb_counters b)" "lv (wb_counters b) CUnflushed = k" "length (wb_inflight b) = k"
    using assms(3) by (simp_all add: filled_def slots_held_def)
  let ?req = "(length (wb_issued b), ReqWrite w)"
  define b1 where "b1 = b\<lparr>wb_inflight := wb_inflight b @ [?req], wb_issued := wb_issued b @ [?req]\<rparr>"
  define c where "c = increment_by (Counter CUnflushed Migrate) 1 (wb_counters b1)"
  have acc: "accept_write env s ps w b = (Inr (), b1)"
    using assms(2) by (simp add: accept_write_def granted_issue [OF assms(1)] b1_def)
  have push: "push env s migrate_tokens ps w b =
      (if ms_flush_threshold s \<le> lv c CUnflushed then buffer_flush env migrate_tokens (b1\<lparr>wb_counters := c\<rparr>)
       else (Inr (), b1\<lparr>wb_counters := c\<rparr>))"
    using acc count_issued_step [OF _ c_def, of env s] b(2) by (simp add: push_def and_then_def b1_def)
  have "wb_issued (snd (buffer_flush env migrate_tokens (b1\<lparr>wb_counters := c\<rparr>))) = wb_issued b1"
    using b(1) by (auto simp: buffer_flush_def and_then_def send_batch_def b1_def drain_def Let_def split: option.split)
  then show "slots_needed env s ps (w # rows) b = 1" using push by (simp add: slots_needed_def next_call_def b1_def)
  assume room: "Suc k < ms_flush_threshold s"
  have c: "migrate_range c" "lv c CUnflushed = Suc k" using b room assms(4) by (simp_all add: c_def b1_def bump_level)
  then have "push env s migrate_tokens ps w b = (Inr (), b1\<lparr>wb_counters := c\<rparr>)" using push room by simp
  then show "\<exists>b'. push env s migrate_tokens ps w b = (Inr (), b') \<and> filled (Suc k) b'"
    using b c by (simp add: filled_def slots_held_def b1_def)
qed

text \<open>One worker takes \<open>k\<close> slots, by pushing \<open>k\<close> rows.\<close>

lemma fill_worker:
  assumes "slots_granted env" "\<not> is_batching s" "ms_flush_threshold s < 2 ^ 64" "filled 0 b" "worker_at sp i (b, 0, page)"
  shows "k < ms_flush_threshold s \<Longrightarrow> k \<le> sp_permits sp \<Longrightarrow> k < length page \<Longrightarrow>
    \<exists>b'. (slot_step env s ps)\<^sup>*\<^sup>* sp (sp\<lparr>sp_permits := sp_permits sp - k, sp_workers := (sp_workers sp)[i := (b', 0, drop k page)]\<rparr>)
       \<and> filled k b'"
proof (induction k)
  case 0
  have "sp\<lparr>sp_permits := sp_permits sp - 0, sp_workers := (sp_workers sp)[i := (b, 0, drop 0 page)]\<rparr> = sp"
    using assms(5) by (metis diff_zero drop_0 list_update_id slot_pool.surjective slot_pool.update_convs)
  then show ?case using assms(4) by (metis rtranclp.rtrancl_refl)
next
  case (Suc k)
  obtain b1 where run: "(slot_step env s ps)\<^sup>*\<^sup>* sp (sp\<lparr>sp_permits := sp_permits sp - k, sp_workers := (sp_workers sp)[i := (b1, 0, drop k page)]\<rparr>)"
    (is "(slot_step env s ps)\<^sup>*\<^sup>* sp ?sp1") and b1: "filled k b1"
    using Suc.IH Suc.prems by auto
  have page: "drop k page = page ! k # drop (Suc k) page" using Suc.prems(3) by (simp add: Cons_nth_drop_Suc)
  obtain b2 where b2: "push env s migrate_tokens ps (page ! k) b1 = (Inr (), b2)" "filled (Suc k) b2"
    using push_filled(2) [OF assms(1,2) b1 assms(3) Suc.prems(1), of ps "page ! k"] by blast
  have need: "slots_needed env s ps (drop k page) b1 = 1" unfolding page by (rule push_filled(1) [OF assms(1,2) b1 assms(3)])
  have work: "has_work b1 (drop k page)" by (simp add: has_work_def page)
  let ?sp2 = "?sp1\<lparr>sp_permits := sp_permits ?sp1 - 1, sp_workers := (sp_workers ?sp1)[i := (b1, Suc 0, drop k page)]\<rparr>"
  have "slot_step env s ps ?sp1 ?sp2"
    using assms(5) Suc.prems(2) need work by (intro slot_step.take_slot) simp_all
  moreover have "slot_step env s ps ?sp2 (?sp2\<lparr>sp_permits := sp_permits ?sp2 + (slots_held b1 + Suc 0 - slots_held b2),
      sp_workers := (sp_workers ?sp2)[i := (b2, 0, tl (drop k page))]\<rparr>)"
    using assms(5) need work b2(1) by (intro slot_step.call_ok [where rows = "drop k page"]) (simp_all add: page next_call_def)
  moreover have "?sp2\<lparr>sp_permits := sp_permits ?sp2 + (slots_held b1 + Suc 0 - slots_held b2),
      sp_workers := (sp_workers ?sp2)[i := (b2, 0, tl (drop k page))]\<rparr>
      = sp\<lparr>sp_permits := sp_permits sp - Suc k, sp_workers := (sp_workers sp)[i := (b2, 0, drop (Suc k) page)]\<rparr>"
    using b1 b2(2) by (simp add: filled_def page)
  ultimately show ?case using run b2(2) by (metis (no_types, lifting) rtranclp.rtrancl_into_rtrancl)
qed

lemma fill_workers:
  assumes "slots_granted env" "\<not> is_batching s" "ms_flush_threshold s < 2 ^ 64" "0 < ms_flush_threshold s" "migrate_range c" "lv c CUnflushed = 0"
    and "\<forall>page \<in> set pages. ms_flush_threshold s \<le> length page"
  shows "m \<le> length pages \<Longrightarrow> \<exists>sp. (slot_step env s ps)\<^sup>*\<^sup>* (start_pool permits c pages) sp
    \<and> sp_permits sp = permits - m * (ms_flush_threshold s - 1) \<and> length (sp_workers sp) = length pages
    \<and> (\<forall>i < m. \<exists>b rows k. sp_workers sp ! i = (b, 0, rows) \<and> rows \<noteq> [] \<and> filled k b)
    \<and> (\<forall>i. m \<le> i \<longrightarrow> i < length pages \<longrightarrow> sp_workers sp ! i = (new_buffer c, 0, pages ! i))"
proof (induction m)
  case 0
  show ?case by (rule exI [of _ "start_pool permits c pages"]) (simp add: start_pool_def)
next
  case (Suc m)
  let ?T = "ms_flush_threshold s"
  obtain sp where sp: "(slot_step env s ps)\<^sup>*\<^sup>* (start_pool permits c pages) sp" "sp_permits sp = permits - m * (?T - 1)"
    "length (sp_workers sp) = length pages"
    "\<forall>i < m. \<exists>b rows k. sp_workers sp ! i = (b, 0, rows) \<and> rows \<noteq> [] \<and> filled k b"
    "\<forall>i. m \<le> i \<longrightarrow> i < length pages \<longrightarrow> sp_workers sp ! i = (new_buffer c, 0, pages ! i)"
    using Suc.IH Suc.prems by auto
  define k where "k = min (?T - 1) (sp_permits sp)"
  have len: "?T \<le> length (pages ! m)" using assms(7) Suc.prems by simp
  have k: "k < ?T" "k \<le> sp_permits sp" "k < length (pages ! m)" using assms(4) len by (auto simp: k_def)
  have new: "filled 0 (new_buffer c)" using assms(5,6) by (simp add: filled_def slots_held_def new_buffer_def)
  obtain b where b: "(slot_step env s ps)\<^sup>*\<^sup>* sp (sp\<lparr>sp_permits := sp_permits sp - k, sp_workers := (sp_workers sp)[m := (b, 0, drop k (pages ! m))]\<rparr>)"
    (is "(slot_step env s ps)\<^sup>*\<^sup>* sp ?sp'") "filled k b"
    using fill_worker [OF assms(1-3) new _ k, of m ps] sp(3,5) Suc.prems by auto
  have "sp_permits ?sp' = permits - Suc m * (?T - 1)" using sp(2) by (simp add: k_def min_def add.commute)
  moreover have "(slot_step env s ps)\<^sup>*\<^sup>* (start_pool permits c pages) ?sp'" using sp(1) b(1) by simp
  moreover have "\<forall>i < Suc m. \<exists>b rows k. sp_workers ?sp' ! i = (b, 0, rows) \<and> rows \<noteq> [] \<and> filled k b"
    using sp(3,4) k(3) b(2) Suc.prems by (auto simp: less_Suc_eq nth_list_update)
  ultimately show ?case using sp(3,5) by (intro exI [of _ ?sp']) (auto simp: nth_list_update)
qed

lemma all_waiting_stuck: "all_waiting env s ps sp \<Longrightarrow> \<not> pool_step env s ps sp sp'"
  by (fastforce simp: all_waiting_def list_all_iff has_work_def elim!: pool_stepE slot_stepE dest!: nth_mem)

text \<open>
  Claim C9. With no more write slots than workers times one less than the flush threshold, workers that do
  not batch can deadlock: from the start of their pages they can reach a state in which every slot is
  held by a write that nobody drives, every worker waits for a slot to push its next row, and no step is
  possible. With the default bound of 2000 slots and a threshold of 100, twenty-one workers are enough.
\<close>

theorem slot_deadlock_reachable:
  assumes "slots_granted env" "\<not> is_batching s" "ms_flush_threshold s < 2 ^ 64" "0 < ms_flush_threshold s" "migrate_range c" "lv c CUnflushed = 0"
    and "\<forall>page \<in> set pages. ms_flush_threshold s \<le> length page" "pages \<noteq> []"
    and "permits \<le> length pages * (ms_flush_threshold s - 1)"
  shows "\<exists>sp. (slot_step env s ps)\<^sup>*\<^sup>* (start_pool permits c pages) sp \<and> all_waiting env s ps sp \<and> (\<forall>sp'. \<not> pool_step env s ps sp sp')"
proof -
  obtain sp where sp: "(slot_step env s ps)\<^sup>*\<^sup>* (start_pool permits c pages) sp"
    "sp_permits sp = permits - length pages * (ms_flush_threshold s - 1)" "length (sp_workers sp) = length pages"
    "\<forall>i < length pages. \<exists>b rows k. sp_workers sp ! i = (b, 0, rows) \<and> rows \<noteq> [] \<and> filled k b"
    using fill_workers [OF assms(1-7), of "length pages" ps permits] by auto
  have "rows \<noteq> [] \<and> k < slots_needed env s ps rows b" if "i < length (sp_workers sp)" "sp_workers sp ! i = (b, k, rows)" for i b k rows
    using sp(3,4) that push_filled(1) [OF assms(1,2) _ assms(3)] by (cases rows) fastforce+
  then have "list_all (\<lambda>(b, k, rows). rows \<noteq> [] \<and> k < slots_needed env s ps rows b) (sp_workers sp)"
    by (auto simp: list_all_length split: prod.split)
  then have "all_waiting env s ps sp" using sp(2,3) assms(8,9) by (auto simp: all_waiting_def)
  then show ?thesis using sp(1) all_waiting_stuck by blast
qed

subsection \<open>The default configuration\<close>

lemma steady_fair [simp]: "fair_completion steady_env" "slots_granted steady_env"
  by (simp_all add: fair_completion_def slots_granted_def steady_env_def)

definition single_settings :: migrate_settings where
  "single_settings = new_migrate_settings 1 1000 Strict False False False"

lemma slot_settings_simps: "\<not> is_batching single_settings" "ms_flush_threshold single_settings = 100"
  "is_batching default_migrate_settings" "ms_flush_threshold default_migrate_settings = 100"
  by (simp_all add: single_settings_def default_migrate_settings_def new_migrate_settings_def Let_def is_batching_def flush_threshold_def
      sat_mul_def u64_max_def)

text \<open>Twenty workers that batch five rows, as configured by default.\<close>

theorem enough_slots_no_deadlock_witness:
  "is_batching default_migrate_settings
   \<and> (\<exists>sp'. slot_step steady_env default_migrate_settings [0] (start_pool 2000 (new_counters Migrate) (replicate 20 (replicate 1000 [Value [1]]))) sp')"
proof -
  let ?pages = "replicate 20 (replicate 1000 [Value [1]])"
  have "(new_buffer (new_counters Migrate), 0, replicate 1000 [Value [1]]) \<in> set (sp_workers (start_pool 2000 (new_counters Migrate) ?pages))"
    by (simp add: start_pool_def)
  moreover have "migrate_range (new_counters Migrate)" by (simp add: migrate_range_def)
  ultimately show ?thesis
    using enough_slots_no_deadlock [OF steady_fair _ _ _ _ rtranclp.rtrancl_refl, of default_migrate_settings "new_counters Migrate" ?pages 2000 _ 0 _ "[0]"]
      slot_settings_simps(3,4) by (fastforce simp: has_work_def)
qed

theorem slot_deadlock_reachable_witness:
  "\<exists>sp. (slot_step steady_env single_settings [0])\<^sup>*\<^sup>*
       (start_pool (ss_max_inflight_writes default_settings) (new_counters Migrate) (replicate 21 (replicate 1000 [Value [1]]))) sp
     \<and> all_waiting steady_env single_settings [0] sp \<and> (\<forall>sp'. \<not> pool_step steady_env single_settings [0] sp sp')"
  by (rule slot_deadlock_reachable) (simp_all add: slot_settings_simps migrate_range_def default_settings_def)

end
