(* ===== verification/Feature_Base.thy ===== *)
theory Feature_Base
  imports Codec_Types Codec_Wire Cql_Schema
begin

text \<open>
  What the row features of \<open>crates/cdm-feature\<close> share: diagnostics (\<open>cdm-core/src/error/diagnostic.rs\<close>,
  \<open>cdm-feature/src/diagnostic.rs\<close>), reading a flat configuration (\<open>properties.rs\<close>), the schema facts a
  feature resolves itself against (\<open>schema.rs\<close>) and the element framing of maps and lists (\<open>wire.rs\<close>).
  The configuration is a map from property names to values.

  The lemmas show that the framing functions read back exactly what the protocol frames and never
  read beyond it, and that a legacy spelling of a property is read when the canonical one is absent.
\<close>

subsection \<open>Diagnostics\<close>

datatype severity = SevError | SevWarning | SevInfo

fun severity_as_str :: "severity \<Rightarrow> string" where
  "severity_as_str SevError = ''error''"
| "severity_as_str SevWarning = ''warning''"
| "severity_as_str SevInfo = ''info''"

definition severity_is_blocking :: "severity \<Rightarrow> bool" where
  "severity_is_blocking s \<longleftrightarrow> s = SevError"

record diagnostic =
  dg_code :: string
  dg_severity :: severity
  dg_title :: string
  dg_detail :: "string option"
  dg_location :: "string option"
  dg_value :: "string option"
  dg_rule :: "string option"
  dg_suggestion :: "string option"
  dg_docs_url :: "string option"

definition DOCS_BASE_URL :: string where
  "DOCS_BASE_URL = ''https://github.com/msmygit/cdm-rs/blob/main/docs/errors/''"

definition docs_url_for :: "string \<Rightarrow> string" where
  "docs_url_for code = DOCS_BASE_URL @ code @ ''.md''"

definition new_diagnostic :: "string \<Rightarrow> severity \<Rightarrow> string \<Rightarrow> diagnostic" where
  "new_diagnostic code sev title =
     \<lparr>dg_code = code, dg_severity = sev, dg_title = title, dg_detail = None, dg_location = None,
      dg_value = None, dg_rule = None, dg_suggestion = None, dg_docs_url = Some (docs_url_for code)\<rparr>"

definition with_rule :: "string \<Rightarrow> diagnostic \<Rightarrow> diagnostic" where
  "with_rule r d = d\<lparr>dg_rule := Some r\<rparr>"

definition with_suggestion :: "string \<Rightarrow> diagnostic \<Rightarrow> diagnostic" where
  "with_suggestion s d = d\<lparr>dg_suggestion := Some s\<rparr>"

definition with_location :: "string \<Rightarrow> diagnostic \<Rightarrow> diagnostic" where
  "with_location s d = d\<lparr>dg_location := Some s\<rparr>"

definition with_detail :: "string \<Rightarrow> diagnostic \<Rightarrow> diagnostic" where
  "with_detail s d = d\<lparr>dg_detail := Some s\<rparr>"

definition with_value :: "string \<Rightarrow> diagnostic \<Rightarrow> diagnostic" where
  "with_value s d = d\<lparr>dg_value := Some s\<rparr>"

definition is_blocking :: "diagnostic \<Rightarrow> bool" where
  "is_blocking d \<longleftrightarrow> severity_is_blocking (dg_severity d)"

definition labelled :: "string \<Rightarrow> string option \<Rightarrow> string" where
  "labelled label v = (case v of None \<Rightarrow> [] | Some s \<Rightarrow> CHR 0x0A # ''   = '' @ label @ '': '' @ s)"

definition show_diagnostic :: "diagnostic \<Rightarrow> string" where
  "show_diagnostic d =
     severity_as_str (dg_severity d) @ ''['' @ dg_code d @ '']: '' @ dg_title d
     @ (case dg_location d of None \<Rightarrow> [] | Some l \<Rightarrow> CHR 0x0A # ''  --> '' @ l)
     @ labelled ''detail'' (dg_detail d) @ labelled ''value'' (dg_value d) @ labelled ''rule'' (dg_rule d)
     @ labelled ''help'' (dg_suggestion d) @ labelled ''docs'' (dg_docs_url d)"

definition config_error :: "string \<Rightarrow> diagnostic" where
  "config_error title = new_diagnostic (diagnostic_code Config) SevError title"

definition schema_error :: "string \<Rightarrow> diagnostic" where
  "schema_error title = new_diagnostic (diagnostic_code SchemaMismatch) SevError title"

definition config_warning :: "string \<Rightarrow> diagnostic" where
  "config_warning title = new_diagnostic (diagnostic_code Config) SevWarning title"

subsection \<open>Properties\<close>

type_synonym effective_config = "string \<Rightarrow> string option"

record property_key =
  pk_canonical :: string
  pk_legacy :: "string option"

definition property :: "string \<Rightarrow> string \<Rightarrow> property_key" where
  "property canonical legacy = \<lparr>pk_canonical = canonical, pk_legacy = Some legacy\<rparr>"

definition property_new_in_cdm_rs :: "string \<Rightarrow> property_key" where
  "property_new_in_cdm_rs canonical = \<lparr>pk_canonical = canonical, pk_legacy = None\<rparr>"

definition EXPLODE_MAP_ORIGIN_COLUMN :: property_key where
  "EXPLODE_MAP_ORIGIN_COLUMN = property ''feature.explode_map.origin_column'' ''spark.cdm.feature.explodeMap.origin.name''"

definition EXPLODE_MAP_TARGET_KEY_COLUMN :: property_key where
  "EXPLODE_MAP_TARGET_KEY_COLUMN = property ''feature.explode_map.target_key_column'' ''spark.cdm.feature.explodeMap.target.name.key''"

definition EXPLODE_MAP_TARGET_VALUE_COLUMN :: property_key where
  "EXPLODE_MAP_TARGET_VALUE_COLUMN = property ''feature.explode_map.target_value_column'' ''spark.cdm.feature.explodeMap.target.name.value''"

definition EXTRACT_JSON_ORIGIN_COLUMN :: property_key where
  "EXTRACT_JSON_ORIGIN_COLUMN = property ''feature.extract_json.origin_column'' ''spark.cdm.feature.extractJson.originColumn''"

definition EXTRACT_JSON_PROPERTY_MAPPING :: property_key where
  "EXTRACT_JSON_PROPERTY_MAPPING = property ''feature.extract_json.property_mapping'' ''spark.cdm.feature.extractJson.propertyMapping''"

definition EXTRACT_JSON_OVERWRITE :: property_key where
  "EXTRACT_JSON_OVERWRITE = property ''feature.extract_json.overwrite'' ''spark.cdm.feature.extractJson.overwrite''"

definition EXTRACT_JSON_EXCLUSIVE :: property_key where
  "EXTRACT_JSON_EXCLUSIVE = property ''feature.extract_json.exclusive'' ''spark.cdm.feature.extractJson.exclusive''"

definition ORIGIN_TTL_AUTOMATIC :: property_key where
  "ORIGIN_TTL_AUTOMATIC = property ''schema.origin.ttl.automatic'' ''spark.cdm.schema.origin.column.ttl.automatic''"

definition ORIGIN_TTL_NAMES :: property_key where
  "ORIGIN_TTL_NAMES = property ''schema.origin.ttl.names'' ''spark.cdm.schema.origin.column.ttl.names''"

definition ORIGIN_WRITETIME_AUTOMATIC :: property_key where
  "ORIGIN_WRITETIME_AUTOMATIC = property ''schema.origin.writetime.automatic'' ''spark.cdm.schema.origin.column.writetime.automatic''"

definition ORIGIN_WRITETIME_NAMES :: property_key where
  "ORIGIN_WRITETIME_NAMES = property ''schema.origin.writetime.names'' ''spark.cdm.schema.origin.column.writetime.names''"

definition TTL_WRITETIME_USE_COLLECTIONS :: property_key where
  "TTL_WRITETIME_USE_COLLECTIONS = property ''schema.ttl_writetime.use_collections'' ''spark.cdm.schema.ttlwritetime.calc.useCollections''"

definition TRANSFORM_CUSTOM_WRITETIME :: property_key where
  "TRANSFORM_CUSTOM_WRITETIME = property ''transform.custom_writetime'' ''spark.cdm.transform.custom.writetime''"

definition TRANSFORM_CUSTOM_WRITETIME_INCREMENT :: property_key where
  "TRANSFORM_CUSTOM_WRITETIME_INCREMENT = property ''transform.custom_writetime_increment'' ''spark.cdm.transform.custom.writetime.incrementBy''"

definition TRANSFORM_CUSTOM_TTL :: property_key where
  "TRANSFORM_CUSTOM_TTL = property ''transform.custom_ttl'' ''spark.cdm.transform.custom.ttl''"

definition FILTER_CQL_WHERE :: property_key where
  "FILTER_CQL_WHERE = property ''filter.cql_where'' ''spark.cdm.filter.cassandra.whereCondition''"

definition FILTER_WRITETIME_MIN :: property_key where
  "FILTER_WRITETIME_MIN = property ''filter.writetime.min'' ''spark.cdm.filter.java.writetime.min''"

definition FILTER_WRITETIME_MAX :: property_key where
  "FILTER_WRITETIME_MAX = property ''filter.writetime.max'' ''spark.cdm.filter.java.writetime.max''"

definition FILTER_COLUMN_NAME :: property_key where
  "FILTER_COLUMN_NAME = property ''filter.column.name'' ''spark.cdm.filter.java.column.name''"

definition FILTER_COLUMN_VALUE :: property_key where
  "FILTER_COLUMN_VALUE = property ''filter.column.value'' ''spark.cdm.filter.java.column.value''"

definition FILTER_TOKEN_MIN :: property_key where
  "FILTER_TOKEN_MIN = property ''filter.token.min'' ''spark.cdm.filter.cassandra.partition.min''"

definition FILTER_TOKEN_MAX :: property_key where
  "FILTER_TOKEN_MAX = property ''filter.token.max'' ''spark.cdm.filter.cassandra.partition.max''"

definition GUARDRAIL_COLUMN_SIZE_KB :: property_key where
  "GUARDRAIL_COLUMN_SIZE_KB = property ''feature.guardrail.column_size_kb'' ''spark.cdm.feature.guardrail.colSizeInKB''"

definition GUARDRAIL_MODE :: property_key where
  "GUARDRAIL_MODE = property_new_in_cdm_rs ''feature.guardrail.mode''"

definition non_empty :: "'a list option \<Rightarrow> 'a list option" where
  "non_empty v = (case v of Some (x # xs) \<Rightarrow> Some (x # xs) | _ \<Rightarrow> None)"

definition raw_property :: "effective_config \<Rightarrow> property_key \<Rightarrow> string option" where
  "raw_property config key =
     non_empty (case config (pk_canonical key) of
         Some v \<Rightarrow> Some v
       | None \<Rightarrow> Option.bind (pk_legacy key) config)"

definition trimmed_property :: "effective_config \<Rightarrow> property_key \<Rightarrow> string option" where
  "trimmed_property config key = non_empty (map_option trim (raw_property config key))"

text \<open>The crate's own copy of the identifier rule, which it documents to answer as \<open>cdm-cql\<close>'s does.\<close>

definition property_unformat :: "string \<Rightarrow> string" where
  "property_unformat name =
     (if name = [] then []
      else if 2 \<le> length name \<and> hd name = quote_char \<and> last name = quote_char \<and> \<not> list_ex is_ascii_space name
      then undouble (butlast (tl name))
      else if quote_char \<in> set name \<or> list_ex is_ascii_space name
      then (let trimmed = trim name in
            if 2 \<le> length trimmed \<and> hd trimmed = quote_char \<and> last trimmed = quote_char
            then undouble (butlast (tl trimmed)) else name)
      else name)"

definition column_name_property :: "effective_config \<Rightarrow> property_key \<Rightarrow> string option" where
  "column_name_property config key = non_empty (map_option property_unformat (trimmed_property config key))"

definition list_property :: "effective_config \<Rightarrow> property_key \<Rightarrow> string list" where
  "list_property config key =
     (case raw_property config key of
        None \<Rightarrow> []
      | Some v \<Rightarrow> filter (\<lambda>e. e \<noteq> []) (map trim (split_char (CHR '','') v)))"

definition boolean_property :: "effective_config \<Rightarrow> property_key \<Rightarrow> bool \<Rightarrow> bool" where
  "boolean_property config key dflt =
     (case raw_property config key of
        None \<Rightarrow> dflt
      | Some v \<Rightarrow> eq_ignore_ascii_case (trim v) ''true'')"

text \<open>
  \<open>str::parse\<close> for a signed type, digit by digit: the first bad digit or the first step that leaves
  the type decides the error, of which the rendering is the cause of the configuration error.
\<close>

fun parse_digits :: "(int \<Rightarrow> bool) \<Rightarrow> bool \<Rightarrow> int \<Rightarrow> string \<Rightarrow> string + int" where
  "parse_digits ok neg acc [] = Inr acc"
| "parse_digits ok neg acc (c # cs) =
     (let overflow = (if neg then ''number too small to fit in target type''
                      else ''number too large to fit in target type'');
          digit = int (of_char c) - 48;
          v = (if neg then acc * 10 - digit else acc * 10 + digit)
      in if \<not> is_digit c then Inl ''invalid digit found in string''
         else if \<not> ok (acc * 10) \<or> \<not> ok v then Inl overflow
         else parse_digits ok neg v cs)"

definition parse_signed :: "(int \<Rightarrow> bool) \<Rightarrow> string \<Rightarrow> string + int" where
  "parse_signed ok s =
     (case s of
        [] \<Rightarrow> Inl ''cannot parse integer from empty string''
      | c # cs \<Rightarrow>
          if (c = CHR ''-'' \<or> c = CHR ''+'') \<and> cs = [] then Inl ''invalid digit found in string''
          else if c = CHR ''-'' then parse_digits ok True 0 cs
          else if c = CHR ''+'' then parse_digits ok False 0 cs
          else parse_digits ok False 0 s)"

definition signed_property :: "(int \<Rightarrow> bool) \<Rightarrow> effective_config \<Rightarrow> property_key \<Rightarrow> int option result" where
  "signed_property ok config key =
     (case trimmed_property config key of
        None \<Rightarrow> Inr None
      | Some v \<Rightarrow>
          (case parse_signed ok v of
             Inr i \<Rightarrow> Inr (Some i)
           | Inl cause \<Rightarrow> Inl (with_source cause (with_context (with_config_key (pk_canonical key))
               (new_error Config (''`'' @ pk_canonical key @ ''` must be an integer, got `'' @ v @ ''`''))))))"

definition integer_property :: "effective_config \<Rightarrow> property_key \<Rightarrow> i64 option result" where
  "integer_property = signed_property in_i64"

definition integer_128_property :: "effective_config \<Rightarrow> property_key \<Rightarrow> i128 option result" where
  "integer_128_property = signed_property in_i128"

definition or_default :: "'a \<Rightarrow> 'a option \<Rightarrow> 'a" where
  "or_default d v = (case v of None \<Rightarrow> d | Some x \<Rightarrow> x)"

subsection \<open>Schema facts\<close>

record table_view =
  tv_table :: table_ref
  tv_columns :: "column_ref list"

record column_facts =
  cf_name :: string
  cf_type :: cql_type_info
  cf_key :: bool

record table_facts =
  tf_table :: table_ref
  tf_columns :: "column_facts list"

record feature_schema =
  fs_origin :: table_facts
  fs_target :: table_facts

fun is_tuple_type :: "cql_type_info \<Rightarrow> bool" where
  "is_tuple_type (TTuple ts) = True"
| "is_tuple_type t = False"

definition can_carry_ttl_or_writetime :: "column_facts \<Rightarrow> bool \<Rightarrow> bool" where
  "can_carry_ttl_or_writetime c use_collections \<longleftrightarrow>
     \<not> cf_key c \<and> (is_primitive (cf_type c) \<or> is_tuple_type (cf_type c) \<or> is_frozen (cf_type c)
       \<or> use_collections \<and> is_collection (cf_type c))"

definition facts_from_view :: "table_view \<Rightarrow> string list \<Rightarrow> table_facts result" where
  "facts_from_view view key =
     bindR (collectR (\<lambda>c. bindR (map_err (with_context (\<lambda>x. with_column (column_name c) (with_table (tv_table view) x)))
                                 (parse_cql_type (cql_type c)))
              (\<lambda>ty. Inr \<lparr>cf_name = column_name c, cf_type = ty, cf_key = column_name c \<in> set key\<rparr>))
            (tv_columns view)) (\<lambda>columns.
       case List.find (\<lambda>k. \<not> list_ex (\<lambda>c. cf_name c = k) columns) key of
         Some k \<Rightarrow> Inl (with_context (with_table (tv_table view)) (new_error SchemaMismatch
           (''primary-key column `'' @ k @ ''` is not on table '' @ show_table (tv_table view))))
       | None \<Rightarrow> Inr \<lparr>tf_table = tv_table view, tf_columns = columns\<rparr>)"

definition facts_column :: "table_facts \<Rightarrow> string \<Rightarrow> column_facts option" where
  "facts_column t name = List.find (\<lambda>c. cf_name c = name) (tf_columns t)"

definition facts_index_of :: "table_facts \<Rightarrow> string \<Rightarrow> usize option" where
  "facts_index_of t name =
     List.find (\<lambda>i. cf_name (tf_columns t ! i) = name) [0..<length (tf_columns t)]"

definition facts_primary_key :: "table_facts \<Rightarrow> string list" where
  "facts_primary_key t = map cf_name (filter cf_key (tf_columns t))"

definition facts_is_counter_table :: "table_facts \<Rightarrow> bool" where
  "facts_is_counter_table t \<longleftrightarrow> list_ex (\<lambda>c. cf_type c = TPrim Counter) (tf_columns t)"

definition ttl_writetime_columns :: "table_facts \<Rightarrow> bool \<Rightarrow> string list" where
  "ttl_writetime_columns t use_collections =
     map cf_name (filter (\<lambda>c. can_carry_ttl_or_writetime c use_collections) (tf_columns t))"

subsection \<open>Element framing\<close>

definition wire_truncated :: "string \<Rightarrow> cdm_error" where
  "wire_truncated what = new_error TypeConversion (''truncated serialised '' @ what)"

definition wire_take :: "byte list \<Rightarrow> usize \<Rightarrow> usize \<Rightarrow> string \<Rightarrow> (byte list \<times> usize) result" where
  "wire_take bs at n what =
     (if u64_max < at + n then Inl (wire_truncated what)
      else case slice_get bs at (at + n) of
        None \<Rightarrow> Inl (wire_truncated what)
      | Some piece \<Rightarrow> Inr (piece, at + n))"

definition wire_take_i32 :: "byte list \<Rightarrow> usize \<Rightarrow> string \<Rightarrow> (i32 \<times> usize) result" where
  "wire_take_i32 bs at what =
     bindR (wire_take bs at 4 what) (\<lambda>(piece, at'). Inr (be_value piece, at'))"

definition wire_take_element :: "byte list \<Rightarrow> usize \<Rightarrow> string \<Rightarrow> (raw_cell \<times> usize) result" where
  "wire_take_element bs at what =
     bindR (wire_take_i32 bs at what) (\<lambda>(len, at').
       if len < 0 then Inr (NULL_cell, at')
       else bindR (wire_take bs at' (nat len) what) (\<lambda>(piece, at''). Inr (new_cell piece, at'')))"

fun wire_entries :: "byte list \<Rightarrow> nat \<Rightarrow> usize \<Rightarrow> (raw_cell \<times> raw_cell) list result" where
  "wire_entries bs 0 at = Inr []"
| "wire_entries bs (Suc n) at =
     bindR (wire_take_element bs at ''map'') (\<lambda>(key, at1).
     bindR (wire_take_element bs at1 ''map'') (\<lambda>(v, at2).
     bindR (wire_entries bs n at2) (\<lambda>es. Inr ((key, v) # es))))"

fun wire_elements :: "byte list \<Rightarrow> nat \<Rightarrow> usize \<Rightarrow> raw_cell list result" where
  "wire_elements bs 0 at = Inr []"
| "wire_elements bs (Suc n) at =
     bindR (wire_take_element bs at ''list'') (\<lambda>(e, at1).
     bindR (wire_elements bs n at1) (\<lambda>es. Inr (e # es)))"

definition map_entries :: "byte list \<Rightarrow> (raw_cell \<times> raw_cell) list result" where
  "map_entries bs =
     bindR (wire_take_i32 bs 0 ''map'') (\<lambda>(n, at).
       if n < 0 then Inl (new_error TypeConversion ''map has a negative element count'')
       else wire_entries bs (nat n) at)"

definition list_elements :: "byte list \<Rightarrow> raw_cell list result" where
  "list_elements bs =
     bindR (wire_take_i32 bs 0 ''list'') (\<lambda>(n, at).
       if n < 0 then Inl (new_error TypeConversion ''list has a negative element count'')
       else wire_elements bs (nat n) at)"

subsection \<open>Reading properties and columns\<close>

lemma property_unformat_is_unformat: "property_unformat name = unformat name"
  by (simp add: property_unformat_def unformat_def is_quoted_def already_quoted_def Let_def)

lemma legacy_property_read:
  "config (pk_canonical key) = None \<Longrightarrow> pk_legacy key = Some l \<Longrightarrow> raw_property config key = non_empty (config l)"
  by (simp add: raw_property_def)

lemma facts_columnD:
  assumes "facts_column t name = Some c"
  obtains i where "facts_index_of t name = Some i" "i < length (tf_columns t)" "tf_columns t ! i = c" "cf_name c = name"
proof -
  obtain i where i: "i < length (tf_columns t)" "tf_columns t ! i = c" "cf_name c = name"
      "\<forall>j < i. cf_name (tf_columns t ! j) \<noteq> name"
    using assms by (auto simp: facts_column_def find_Some_iff)
  have "facts_index_of t name = Some i"
    unfolding facts_index_of_def find_Some_iff using i by (intro exI [of _ i]) simp
  then show ?thesis using that i by blast
qed

lemma facts_index_ofD:
  "facts_index_of t name = Some i \<Longrightarrow> i < length (tf_columns t) \<and> cf_name (tf_columns t ! i) = name"
  by (auto simp: facts_index_of_def dest: find_Some_member)

subsection \<open>What is framed is read back\<close>

lemma wire_take_at:
  "bs = pre @ piece @ post \<Longrightarrow> at = length pre \<Longrightarrow> n = length piece \<Longrightarrow> length bs \<le> u64_max
     \<Longrightarrow> wire_take bs at n what = Inr (piece, at + n)"
  by (simp add: wire_take_def slice_get_def)

lemma wire_take_i32_at:
  assumes "bs = pre @ be_bytes 4 v @ post" "at = length pre" "length bs \<le> u64_max" "in_i32 v"
  shows "wire_take_i32 bs at what = Inr (v, at + 4)"
  using wire_take_at [of bs pre "be_bytes 4 v" post at 4 what] assms
  by (simp add: wire_take_i32_def be_value_i32)

lemma wire_take_element_at:
  assumes "bs = pre @ frame e @ post" "at = length pre" "length bs \<le> u64_max" "short e"
  shows "wire_take_element bs at what = Inr (RawCell e, at + length (frame e))"
proof (cases e)
  case None
  then show ?thesis using wire_take_i32_at [of bs pre "- 1" post at what] assms
    by (simp add: wire_take_element_def NULL_cell_def in_i32_def i32_min_def i32_max_def)
next
  case (Some x)
  have "wire_take_i32 bs at what = Inr (int (length x), at + 4)"
    using wire_take_i32_at [of bs pre "int (length x)" "x @ post" at what] assms Some
    by (simp add: in_i32_def i32_min_def)
  moreover have "wire_take bs (at + 4) (length x) what = Inr (x, at + 4 + length x)"
    using wire_take_at [of bs "pre @ be_bytes 4 (int (length x))" x post "at + 4"] assms Some by simp
  ultimately show ?thesis using Some by (simp add: wire_take_element_def new_cell_def add.assoc)
qed

lemma wire_entries_at:
  assumes "length bs \<le> u64_max" "bs = pre @ concat (map (\<lambda>kv. frame (fst kv) @ frame (snd kv)) kvs) @ post"
    "at = length pre" "\<forall>kv \<in> set kvs. short (fst kv) \<and> short (snd kv)"
  shows "wire_entries bs (length kvs) at = Inr (map (\<lambda>kv. (RawCell (fst kv), RawCell (snd kv))) kvs)"
  using assms(2-4)
proof (induction kvs arbitrary: pre at)
  case (Cons kv kvs)
  let ?tail = "concat (map (\<lambda>kv. frame (fst kv) @ frame (snd kv)) kvs)"
  have k: "wire_take_element bs at ''map'' = Inr (RawCell (fst kv), at + length (frame (fst kv)))"
    by (rule wire_take_element_at [where pre = pre and post = "frame (snd kv) @ ?tail @ post"]) (use Cons.prems assms(1) in auto)
  have v: "wire_take_element bs (at + length (frame (fst kv))) ''map''
      = Inr (RawCell (snd kv), at + length (frame (fst kv)) + length (frame (snd kv)))"
    by (rule wire_take_element_at [where pre = "pre @ frame (fst kv)" and post = "?tail @ post"]) (use Cons.prems assms(1) in auto)
  show ?case
    using k v Cons.IH [of "pre @ frame (fst kv) @ frame (snd kv)" "at + length (frame (fst kv)) + length (frame (snd kv))"]
      Cons.prems by simp
qed simp

lemma wire_elements_at:
  assumes "length bs \<le> u64_max" "bs = pre @ concat (map frame es) @ post" "at = length pre" "\<forall>e \<in> set es. short e"
  shows "wire_elements bs (length es) at = Inr (map RawCell es)"
  using assms(2-4)
proof (induction es arbitrary: pre at)
  case (Cons e es)
  have k: "wire_take_element bs at ''list'' = Inr (RawCell e, at + length (frame e))"
    by (rule wire_take_element_at [where pre = pre and post = "concat (map frame es) @ post"]) (use Cons.prems assms(1) in auto)
  show ?case using k Cons.IH [of "pre @ frame e" "at + length (frame e)"] Cons.prems by simp
qed simp

text \<open>The serialised form of a map and of a list, and what the two readers make of it.\<close>

definition framed_map :: "(byte list option \<times> byte list option) list \<Rightarrow> byte list" where
  "framed_map kvs = be_bytes 4 (int (length kvs)) @ concat (map (\<lambda>kv. frame (fst kv) @ frame (snd kv)) kvs)"

definition framed_list :: "byte list option list \<Rightarrow> byte list" where
  "framed_list es = be_bytes 4 (int (length es)) @ concat (map frame es)"

lemma map_entries_framed:
  assumes "int (length kvs) \<le> i32_max" "length (framed_map kvs) \<le> u64_max" "\<forall>kv \<in> set kvs. short (fst kv) \<and> short (snd kv)"
  shows "map_entries (framed_map kvs) = Inr (map (\<lambda>kv. (RawCell (fst kv), RawCell (snd kv))) kvs)"
proof -
  have "wire_take_i32 (framed_map kvs) 0 ''map'' = Inr (int (length kvs), 4)"
    using wire_take_i32_at [of "framed_map kvs" "[]" "int (length kvs)" _ 0 "''map''"] assms
    by (simp add: framed_map_def in_i32_def i32_min_def)
  moreover have "wire_entries (framed_map kvs) (length kvs) 4 = Inr (map (\<lambda>kv. (RawCell (fst kv), RawCell (snd kv))) kvs)"
    by (rule wire_entries_at [where pre = "be_bytes 4 (int (length kvs))" and post = "[]"])
       (use assms in \<open>simp_all add: framed_map_def\<close>)
  ultimately show ?thesis by (simp add: map_entries_def)
qed

lemma list_elements_framed:
  assumes "int (length es) \<le> i32_max" "length (framed_list es) \<le> u64_max" "\<forall>e \<in> set es. short e"
  shows "list_elements (framed_list es) = Inr (map RawCell es)"
proof -
  have "wire_take_i32 (framed_list es) 0 ''list'' = Inr (int (length es), 4)"
    using wire_take_i32_at [of "framed_list es" "[]" "int (length es)" _ 0 "''list''"] assms
    by (simp add: framed_list_def in_i32_def i32_min_def)
  moreover have "wire_elements (framed_list es) (length es) 4 = Inr (map RawCell es)"
    by (rule wire_elements_at [where pre = "be_bytes 4 (int (length es))" and post = "[]"])
       (use assms in \<open>simp_all add: framed_list_def\<close>)
  ultimately show ?thesis by (simp add: list_elements_def)
qed

end
