(* ===== verification/Feature_Literal.thy ===== *)
theory Feature_Literal
  imports Feature_Base Codec_Sound
begin

text \<open>
  CQL literals and JSON values serialised against a column type: \<open>crates/cdm-feature/src/literal.rs\<close>. Literals
  are ASCII. What the code takes from other crates and from the floating-point and address parsers
  is the record \<open>literal_lib\<close>: floats and addresses to their bytes, big integers and decimals, UUIDs, and
  the calendar parsers of \<open>chrono\<close> as counts of milliseconds, days and nanoseconds. \<open>lib_ok\<close> is what the
  serialisation relies on: the widths of floats and UUIDs.

  The lemmas show that a literal that parses is a well-framed value of the column's type, and that the
  empty map literal never parses.
\<close>

subsection \<open>Parsers the code imports\<close>

record literal_lib =
  ll_f32 :: "string \<Rightarrow> string + byte list"
  ll_f64 :: "string \<Rightarrow> string + byte list"
  ll_bigint :: "string \<Rightarrow> string + int"
  ll_signed_bytes :: "int \<Rightarrow> byte list"
  ll_decimal :: "string \<Rightarrow> string + (int \<times> i64)"
  ll_uuid :: "string \<Rightarrow> string + byte list"
  ll_address :: "string \<Rightarrow> string + byte list"
  ll_rfc3339 :: "string \<Rightarrow> i64 option"
  ll_datetime :: "string \<Rightarrow> string \<Rightarrow> i64 option"
  ll_days :: "string \<Rightarrow> string + i64"
  ll_nanos :: "string \<Rightarrow> string \<Rightarrow> i64 option"

definition lib_ok :: "literal_lib \<Rightarrow> bool" where
  "lib_ok L \<longleftrightarrow> (\<forall>s bs. ll_f32 L s = Inr bs \<longrightarrow> length bs = 4) \<and> (\<forall>s bs. ll_f64 L s = Inr bs \<longrightarrow> length bs = 8)
     \<and> (\<forall>s bs. ll_uuid L s = Inr bs \<longrightarrow> length bs = 16)"

subsection \<open>Scalars\<close>

definition invalid_literal :: "string \<Rightarrow> cql_type_info \<Rightarrow> string \<Rightarrow> cdm_error" where
  "invalid_literal literal ty detail = new_error TypeConversion
     (''`'' @ literal @ ''` is not a valid '' @ show_type ty @ '' literal: '' @ detail)"

abbreviation apostrophe :: char where "apostrophe \<equiv> CHR 0x27"

definition literal_is_quoted :: "string \<Rightarrow> bool" where
  "literal_is_quoted s \<longleftrightarrow> 2 \<le> length s \<and> hd s = apostrophe \<and> last s = apostrophe"

fun undouble_apostrophes :: "string \<Rightarrow> string" where
  "undouble_apostrophes (a # b # s) =
     (if a = apostrophe \<and> b = apostrophe then apostrophe # undouble_apostrophes s else a # undouble_apostrophes (b # s))"
| "undouble_apostrophes s = s"

definition unquote :: "string \<Rightarrow> string option" where
  "unquote s = (if literal_is_quoted s then Some (undouble_apostrophes (butlast (tl s))) else None)"

definition string_bytes :: "string \<Rightarrow> byte list" where
  "string_bytes s = map (\<lambda>c. word_of_nat (of_char c)) s"

definition in_width :: "nat \<Rightarrow> int \<Rightarrow> bool" where
  "in_width w x \<longleftrightarrow> - (2 ^ (w - 1)) \<le> x \<and> x < 2 ^ (w - 1)"

definition parse_number :: "nat \<Rightarrow> string \<Rightarrow> cql_type_info \<Rightarrow> string \<Rightarrow> int result" where
  "parse_number w v ty literal = map_err (invalid_literal literal ty) (parse_signed (in_width w) v)"

definition hex_value :: "char \<Rightarrow> nat option" where
  "hex_value c =
     (let n = (of_char c :: nat) in
      if 48 \<le> n \<and> n \<le> 57 then Some (n - 48)
      else if 97 \<le> n \<and> n \<le> 102 then Some (n - 87)
      else if 65 \<le> n \<and> n \<le> 70 then Some (n - 55)
      else None)"

text \<open>\<open>u8::from_str_radix(_, 16)\<close> of two characters, which reads a leading plus sign as no digit.\<close>

definition hex_pair :: "char \<Rightarrow> char \<Rightarrow> byte option" where
  "hex_pair a b =
     (case hex_value b of
        None \<Rightarrow> None
      | Some low \<Rightarrow>
          if a = CHR ''+'' then Some (word_of_nat low)
          else map_option (\<lambda>high. word_of_nat (16 * high + low)) (hex_value a))"

fun hex_bytes :: "(string \<Rightarrow> cdm_error) \<Rightarrow> string \<Rightarrow> byte list result" where
  "hex_bytes err [] = Inr []"
| "hex_bytes err [a] = Inl (err ''hex string has an odd length'')"
| "hex_bytes err (a # b # s) =
     bindR (ok_or (hex_pair a b) (err ''invalid digit found in string'')) (\<lambda>x.
     bindR (hex_bytes err s) (\<lambda>xs. Inr (x # xs)))"

definition parse_blob :: "string \<Rightarrow> cql_type_info \<Rightarrow> string \<Rightarrow> byte list result" where
  "parse_blob v ty literal =
     (let hex = (case strip_prefix ''0x'' v of
            Some h \<Rightarrow> h
          | None \<Rightarrow> (case strip_prefix ''0X'' v of Some h \<Rightarrow> h | None \<Rightarrow> v)) in
      if length hex mod 2 \<noteq> 0 then Inl (invalid_literal literal ty ''hex string has an odd length'')
      else hex_bytes (invalid_literal literal ty) hex)"

fun first_some :: "('a \<Rightarrow> 'b option) \<Rightarrow> 'a list \<Rightarrow> 'b option" where
  "first_some f [] = None"
| "first_some f (x # xs) = (case f x of Some y \<Rightarrow> Some y | None \<Rightarrow> first_some f xs)"

definition timestamp_patterns :: "string list" where
  "timestamp_patterns = [''%Y-%m-%d %H:%M:%S%.f'', ''%Y-%m-%dT%H:%M:%S%.f'', ''%Y-%m-%d %H:%M'', ''%Y-%m-%dT%H:%M'']"

text \<open>A date without a time is its midnight, so its milliseconds are its days times those of a day.\<close>

definition parse_timestamp :: "literal_lib \<Rightarrow> string \<Rightarrow> cql_type_info \<Rightarrow> string \<Rightarrow> i64 result" where
  "parse_timestamp L v ty literal =
     (case parse_signed in_i64 v of
        Inr millis \<Rightarrow> Inr millis
      | Inl _ \<Rightarrow>
          (case ll_rfc3339 L v of
             Some millis \<Rightarrow> Inr millis
           | None \<Rightarrow>
               (case first_some (\<lambda>p. ll_datetime L p v) timestamp_patterns of
                  Some millis \<Rightarrow> Inr millis
                | None \<Rightarrow>
                    (case ll_days L v of
                       Inr days \<Rightarrow> Inr (days * 86400000)
                     | Inl _ \<Rightarrow> Inl (invalid_literal literal ty ''expected epoch milliseconds or an ISO-8601 date-time'')))))"

definition DATE_EPOCH_BIAS :: i64 where
  "DATE_EPOCH_BIAS = 2 ^ 31"

definition parse_date :: "literal_lib \<Rightarrow> string \<Rightarrow> cql_type_info \<Rightarrow> string \<Rightarrow> u32 result" where
  "parse_date L v ty literal =
     bindR (case parse_signed in_i64 v of
              Inr days \<Rightarrow> Inr days
            | Inl _ \<Rightarrow> map_err (invalid_literal literal ty) (ll_days L v)) (\<lambda>days.
       let biased = wrap_i64 (days + DATE_EPOCH_BIAS) in
       if 0 \<le> biased \<and> biased \<le> int u32_max then Inr (nat biased)
       else Inl (invalid_literal literal ty ''date is outside the representable range''))"

definition parse_time :: "literal_lib \<Rightarrow> string \<Rightarrow> cql_type_info \<Rightarrow> string \<Rightarrow> i64 result" where
  "parse_time L v ty literal =
     (case parse_signed in_i64 v of
        Inr nanos \<Rightarrow> Inr nanos
      | Inl _ \<Rightarrow>
          (case first_some (\<lambda>p. ll_nanos L p v) [''%H:%M:%S%.f'', ''%H:%M''] of
             Some nanos \<Rightarrow> Inr nanos
           | None \<Rightarrow> Inl (invalid_literal literal ty ''expected nanoseconds since midnight or `HH:MM:SS`'')))"

definition varint_bytes :: "literal_lib \<Rightarrow> int \<Rightarrow> byte list" where
  "varint_bytes L v = (if v = 0 then [0] else ll_signed_bytes L v)"

definition encode_decimal :: "literal_lib \<Rightarrow> string \<Rightarrow> cql_type_info \<Rightarrow> string \<Rightarrow> byte list result" where
  "encode_decimal L v ty literal =
     bindR (map_err (invalid_literal literal ty) (ll_decimal L v)) (\<lambda>(unscaled, scale).
       if in_i32 scale then Inr (be_bytes 4 scale @ varint_bytes L unscaled)
       else Inl (invalid_literal literal ty ''scale does not fit in 32 bits''))"

definition encode_scalar_bytes :: "literal_lib \<Rightarrow> string \<Rightarrow> cql_type_info \<Rightarrow> string \<Rightarrow> byte list result" where
  "encode_scalar_bytes L v ty literal =
     (let number = (\<lambda>w n. bindR (parse_number w v ty literal) (\<lambda>i. Inr (be_bytes n i)));
          from = map_err (invalid_literal literal ty) in
      case ty of
        TPrim p \<Rightarrow>
          (case p of
             Text \<Rightarrow> Inr (string_bytes v)
           | Ascii \<Rightarrow> if list_all (\<lambda>c. (of_char c :: nat) < 128) v then Inr (string_bytes v)
                      else Inl (invalid_literal literal ty ''value contains non-ASCII bytes'')
           | Boolean \<Rightarrow> if to_ascii_lowercase v = ''true'' then Inr [1]
                        else if to_ascii_lowercase v = ''false'' then Inr [0]
                        else Inl (invalid_literal literal ty ''expected `true` or `false`'')
           | TinyInt \<Rightarrow> number 8 1
           | SmallInt \<Rightarrow> number 16 2
           | CqlInt \<Rightarrow> number 32 4
           | BigInt \<Rightarrow> number 64 8
           | Counter \<Rightarrow> number 64 8
           | Float \<Rightarrow> from (ll_f32 L v)
           | Double \<Rightarrow> from (ll_f64 L v)
           | VarInt \<Rightarrow> bindR (map_err (invalid_literal literal ty) (ll_bigint L v)) (\<lambda>i. Inr (varint_bytes L i))
           | Decimal \<Rightarrow> encode_decimal L v ty literal
           | Uuid \<Rightarrow> from (ll_uuid L v)
           | TimeUuid \<Rightarrow> from (ll_uuid L v)
           | Inet \<Rightarrow> from (ll_address L v)
           | Blob \<Rightarrow> parse_blob v ty literal
           | Timestamp \<Rightarrow> bindR (parse_timestamp L v ty literal) (\<lambda>i. Inr (be_bytes 8 i))
           | Date \<Rightarrow> bindR (parse_date L v ty literal) (\<lambda>i. Inr (be_bytes 4 (int i)))
           | Time \<Rightarrow> bindR (parse_time L v ty literal) (\<lambda>i. Inr (be_bytes 8 i))
           | _ \<Rightarrow> Inl (invalid_literal literal ty ''cdm-rs cannot express a constant of this type; supply it from the origin instead''))
      | _ \<Rightarrow> Inl (invalid_literal literal ty ''cdm-rs cannot express a constant of this type; supply it from the origin instead''))"

definition encode_scalar :: "literal_lib \<Rightarrow> string \<Rightarrow> cql_type_info \<Rightarrow> string \<Rightarrow> raw_cell result" where
  "encode_scalar L v ty literal = bindR (encode_scalar_bytes L v ty literal) (\<lambda>bs. Inr (new_cell bs))"

subsection \<open>Collections\<close>

definition count_bytes :: "usize \<Rightarrow> cql_type_info \<Rightarrow> string \<Rightarrow> byte list result" where
  "count_bytes n ty literal =
     (if int n \<le> i32_max then Inr (be_bytes 4 (int n))
      else Inl (invalid_literal literal ty ''collection has too many elements''))"

definition literal_element :: "raw_cell \<Rightarrow> byte list result" where
  "literal_element cell =
     (if short (cell_bytes cell) then Inr (frame (cell_bytes cell))
      else Inl (new_error TypeConversion ''serialised collection element exceeds 2 GiB''))"

fun split_top_level_loop :: "char \<Rightarrow> string \<Rightarrow> nat \<Rightarrow> bool \<Rightarrow> string \<Rightarrow> string list" where
  "split_top_level_loop sep current depth quoted [] = [trim current]"
| "split_top_level_loop sep current depth quoted (c # cs) =
     (if c = apostrophe then split_top_level_loop sep (current @ [c]) depth (\<not> quoted) cs
      else if c \<in> set ''[{(<'' \<and> \<not> quoted then split_top_level_loop sep (current @ [c]) (depth + 1) quoted cs
      else if c \<in> set '']})>'' \<and> \<not> quoted then split_top_level_loop sep (current @ [c]) (depth - 1) quoted cs
      else if c = sep \<and> depth = 0 \<and> \<not> quoted then trim current # split_top_level_loop sep [] depth quoted cs
      else split_top_level_loop sep (current @ [c]) depth quoted cs)"

definition split_top_level :: "string \<Rightarrow> char \<Rightarrow> string list" where
  "split_top_level s sep = split_top_level_loop sep [] 0 False s"

definition delimiters :: "cql_type_info \<Rightarrow> char \<times> char" where
  "delimiters ty = (case ty of
      TList t f \<Rightarrow> (CHR ''['', CHR '']'')
    | TSet t f \<Rightarrow> (CHR ''{'', CHR ''}'')
    | TMap k v f \<Rightarrow> (CHR ''{'', CHR ''}'')
    | _ \<Rightarrow> (CHR ''('', CHR '')''))"

definition strip_delimiters :: "string \<Rightarrow> cql_type_info \<Rightarrow> string \<Rightarrow> string result" where
  "strip_delimiters s ty literal =
     (let (opening, closing) = delimiters ty in
      if 2 \<le> length s \<and> hd s = opening \<and> last s = closing then Inr (butlast (tl s))
      else Inl (invalid_literal literal ty
        (''expected `'' @ [opening, CHR 0xE2, CHR 0x80, CHR 0xA6, closing] @ ''`'')))"

lemma size_zip_type: "(e, t) \<in> set (zip es ts) \<Longrightarrow> size t < Suc (size_list size ts)"
  using size_list_estimation' [of t ts "size t" size] by (auto dest: set_zip_rightD)

function parse_literal :: "literal_lib \<Rightarrow> string \<Rightarrow> cql_type_info \<Rightarrow> raw_cell result"
  and parse_collection :: "literal_lib \<Rightarrow> string \<Rightarrow> cql_type_info \<Rightarrow> string \<Rightarrow> raw_cell result" where
  "parse_literal L literal ty =
     (let s = trim literal in
      if eq_ignore_ascii_case s ''null'' then Inr NULL_cell
      else case ty of
        TPrim p \<Rightarrow>
          if p = Text \<or> p = Ascii \<or> p = Inet
          then bindR (ok_or (unquote s) (invalid_literal literal ty ''a string literal must be enclosed in single quotes''))
                 (\<lambda>v. encode_scalar L v ty literal)
          else encode_scalar L (or_default s (unquote s)) ty literal
      | TList t f \<Rightarrow> parse_collection L s ty literal
      | TSet t f \<Rightarrow> parse_collection L s ty literal
      | TMap k v f \<Rightarrow> parse_collection L s ty literal
      | TTuple ts \<Rightarrow> parse_collection L s ty literal
      | _ \<Rightarrow> encode_scalar L (or_default s (unquote s)) ty literal)"
| "parse_collection L s ty literal =
     bindR (strip_delimiters s ty literal) (\<lambda>inner.
       let elements = split_top_level inner (CHR '','') in
       case ty of
         TTuple types \<Rightarrow>
           if length elements \<noteq> length types
           then Inl (invalid_literal literal ty (''expected '' @ show_nat (length types) @ '' components, got '' @ show_nat (length elements)))
           else bindR (collectR (\<lambda>(e, t). bindR (parse_literal L e t) literal_element) (zip elements types)) (\<lambda>parts.
             Inr (new_cell (concat parts)))
       | TMap key v f \<Rightarrow>
           bindR (count_bytes (length elements) ty literal) (\<lambda>n.
           bindR (collectR (\<lambda>e.
               let pair = split_top_level e (CHR '':'') in
               if length pair \<noteq> 2 then Inl (invalid_literal literal ty ''expected `key: value` entries'')
               else bindR (bindR (parse_literal L (pair ! 0) key) literal_element) (\<lambda>kb.
                    bindR (bindR (parse_literal L (pair ! 1) v) literal_element) (\<lambda>vb. Inr (kb @ vb)))) elements) (\<lambda>parts.
             Inr (new_cell (n @ concat parts))))
       | TList t f \<Rightarrow>
           bindR (count_bytes (length (filter (\<lambda>e. e \<noteq> []) elements)) ty literal) (\<lambda>n.
           bindR (collectR (\<lambda>e. bindR (parse_literal L e t) literal_element) (filter (\<lambda>e. e \<noteq> []) elements)) (\<lambda>parts.
             Inr (new_cell (n @ concat parts))))
       | TSet t f \<Rightarrow>
           bindR (count_bytes (length (filter (\<lambda>e. e \<noteq> []) elements)) ty literal) (\<lambda>n.
           bindR (collectR (\<lambda>e. bindR (parse_literal L e t) literal_element) (filter (\<lambda>e. e \<noteq> []) elements)) (\<lambda>parts.
             Inr (new_cell (n @ concat parts))))
       | _ \<Rightarrow> Inl (invalid_literal literal ty ''not a collection type''))"
  by pat_completeness auto
termination parse_literal
  by (relation "measure (\<lambda>x. case x of Inl (L, l, ty) \<Rightarrow> 2 * size ty + 1 | Inr (L, s, ty, l) \<Rightarrow> 2 * size ty)")
     (auto dest!: size_zip_type)

declare parse_literal.simps [simp del] parse_collection.simps [simp del]

lemmas literal_unfold = parse_literal.simps parse_collection.simps

subsection \<open>A literal that parses is a value of the type\<close>

lemma encode_scalar_conforms:
  assumes "lib_ok L" "encode_scalar_bytes L v ty literal = Inr bs"
  shows "conforms ty bs"
proof (cases ty)
  case (TPrim p)
  have "primitive_width p \<in> {None, Some (length bs)}"
    using assms TPrim
    by (cases p) (auto simp: encode_scalar_bytes_def Let_def lib_ok_def bindR_Inr_iff split: if_splits)
  then show ?thesis using TPrim by (simp only: conforms.prim)
qed (use assms in \<open>auto simp: encode_scalar_bytes_def Let_def\<close>)

lemma literal_elements_frames:
  assumes "collectR (\<lambda>x. bindR (f x) literal_element) xs = Inr parts" "\<And>x bs. x \<in> set xs \<Longrightarrow> f x = Inr (RawCell (Some bs)) \<Longrightarrow> P x bs"
  shows "\<exists>es. parts = map frame es \<and> length es = length xs
    \<and> (\<forall>i < length xs. short (es ! i) \<and> (\<forall>bs. es ! i = Some bs \<longrightarrow> P (xs ! i) bs))"
proof -
  have all: "list_all2 (\<lambda>x part. \<exists>c. f x = Inr c \<and> short (cell_bytes c) \<and> part = frame (cell_bytes c)) xs parts"
    using assms(1) by (auto simp: collectR_Inr_iff bindR_Inr_iff literal_element_def elim!: list_all2_mono split: if_splits)
  define es where "es = map (\<lambda>i. cell_bytes (SOME c. f (xs ! i) = Inr c)) [0..<length xs]"
  have nth: "short (es ! i) \<and> parts ! i = frame (es ! i) \<and> f (xs ! i) = Inr (RawCell (es ! i))" if i: "i < length xs" for i
  proof -
    obtain c where c: "f (xs ! i) = Inr c" "short (cell_bytes c)" "parts ! i = frame (cell_bytes c)"
      using list_all2_nthD [OF all i] by blast
    have "es ! i = cell_bytes c" using i c(1) by (simp add: es_def)
    then show ?thesis using c by (metis raw_cell.collapse)
  qed
  have len: "length parts = length xs" "length es = length xs" using all by (auto simp: es_def dest: list_all2_lengthD)
  have "parts = map frame es" using nth len by (intro nth_equalityI) auto
  moreover have "P (xs ! i) bs" if "i < length xs" "es ! i = Some bs" for i bs
    using nth [OF that(1)] that assms(2) [of "xs ! i" bs] by simp
  ultimately show ?thesis using nth len by (intro exI [of _ es]) auto
qed

lemma opt_ok_iff: "opt_ok P e \<longleftrightarrow> short e \<and> (\<forall>bs. e = Some bs \<longrightarrow> P bs)"
  by (cases e) (auto simp: opt_ok_def)

lemma map_parts_frames:
  assumes "collectR (\<lambda>e. if bad e then Inl err else bindR (bindR (f e) literal_element) (\<lambda>kb.
      bindR (bindR (g e) literal_element) (\<lambda>vb. Inr (kb @ vb)))) xs = Inr parts"
    and "\<And>x bs. x \<in> set xs \<Longrightarrow> f x = Inr (RawCell (Some bs)) \<Longrightarrow> P bs" "\<And>x bs. x \<in> set xs \<Longrightarrow> g x = Inr (RawCell (Some bs)) \<Longrightarrow> Q bs"
  shows "\<exists>kvs. parts = map (\<lambda>kv. frame (fst kv) @ frame (snd kv)) kvs \<and> length kvs = length xs
    \<and> (\<forall>kv \<in> set kvs. opt_ok P (fst kv) \<and> opt_ok Q (snd kv))"
  using assms
proof (induction xs arbitrary: parts)
  case (Cons x xs)
  from Cons.prems(1) obtain ck cv ps where x: "f x = Inr ck" "short (cell_bytes ck)" "g x = Inr cv" "short (cell_bytes cv)"
    and ps: "collectR (\<lambda>e. if bad e then Inl err else bindR (bindR (f e) literal_element) (\<lambda>kb.
      bindR (bindR (g e) literal_element) (\<lambda>vb. Inr (kb @ vb)))) xs = Inr ps"
    and parts: "parts = (frame (cell_bytes ck) @ frame (cell_bytes cv)) # ps"
    by (auto simp: bindR_Inr_iff literal_element_def split: if_splits)
  have "\<exists>kvs. ps = map (\<lambda>kv. frame (fst kv) @ frame (snd kv)) kvs \<and> length kvs = length xs
      \<and> (\<forall>kv \<in> set kvs. opt_ok P (fst kv) \<and> opt_ok Q (snd kv))"
    by (rule Cons.IH [OF ps]) (use Cons.prems(2,3) in auto)
  then obtain kvs where kvs: "ps = map (\<lambda>kv. frame (fst kv) @ frame (snd kv)) kvs" "length kvs = length xs"
    "\<forall>kv \<in> set kvs. opt_ok P (fst kv) \<and> opt_ok Q (snd kv)"
    by auto
  have "opt_ok P (cell_bytes ck)" "opt_ok Q (cell_bytes cv)"
    using x Cons.prems(2,3) [of x] by (auto simp: opt_ok_def raw_cell.collapse split: option.split) (metis raw_cell.collapse)+
  then show ?case using parts kvs by (intro exI [of _ "(cell_bytes ck, cell_bytes cv) # kvs"]) simp
qed simp

lemma literal_conforms:
  assumes "lib_ok L" "parse_literal L literal ty = Inr (RawCell (Some bs))"
  shows "conforms ty bs"
  using assms(2)
proof (induction ty arbitrary: literal bs rule: measure_induct_rule [of size])
  case (less ty)
  let ?s = "trim literal"
  have scalar: "conforms ty bs" if "encode_scalar L v ty literal = Inr (RawCell (Some bs))" for v
    using that encode_scalar_conforms [OF assms(1)] by (auto simp: encode_scalar_def bindR_Inr_iff new_cell_def)
  have elements: "\<exists>es. bs = be_bytes 4 (int (length es)) @ concat (map frame es) \<and> int (length es) \<le> i32_max
      \<and> (\<forall>e \<in> set es. opt_ok (conforms t) e)"
    if run: "bindR (count_bytes (length xs) ty literal) (\<lambda>n. bindR (collectR (\<lambda>e. bindR (parse_literal L e t) literal_element) xs) (\<lambda>parts.
          Inr (new_cell (n @ concat parts)))) = Inr (RawCell (Some bs))" and smaller: "size t < size ty" for xs t
  proof -
    obtain n parts where n: "count_bytes (length xs) ty literal = Inr n" and bs: "bs = n @ concat parts"
      and parts: "collectR (\<lambda>e. bindR (parse_literal L e t) literal_element) xs = Inr parts"
      using run by (auto simp: bindR_Inr_iff new_cell_def)
    obtain es where es: "parts = map frame es" "length es = length xs"
      "\<forall>i < length xs. short (es ! i) \<and> (\<forall>bs. es ! i = Some bs \<longrightarrow> conforms t bs)"
      using literal_elements_frames [OF parts, of "\<lambda>_. conforms t"] less.IH [OF smaller] by blast
    show ?thesis using n bs es
      by (intro exI [of _ es]) (auto simp: count_bytes_def opt_ok_iff in_set_conv_nth split: if_splits)
  qed
  show ?case
  proof (cases ty)
    case (TPrim p)
    then show ?thesis using less.prems scalar
      by (auto simp: parse_literal.simps [of L literal] Let_def bindR_Inr_iff NULL_cell_def split: if_splits)
  next
    case (TList t f)
    then have "\<exists>xs. bindR (count_bytes (length xs) ty literal) (\<lambda>n. bindR (collectR (\<lambda>e. bindR (parse_literal L e t) literal_element) xs) (\<lambda>parts.
          Inr (new_cell (n @ concat parts)))) = Inr (RawCell (Some bs))"
      using less.prems by (auto simp: parse_literal.simps [of L literal] parse_collection.simps [of L ?s] Let_def bindR_Inr_iff NULL_cell_def split: if_splits)
    then obtain es where "bs = be_bytes 4 (int (length es)) @ concat (map frame es)" "int (length es) \<le> i32_max"
      "\<forall>e \<in> set es. opt_ok (conforms t) e" using elements [of _ t] TList by auto
    then show ?thesis using TList conforms.lst by simp
  next
    case (TSet t f)
    then have "\<exists>xs. bindR (count_bytes (length xs) ty literal) (\<lambda>n. bindR (collectR (\<lambda>e. bindR (parse_literal L e t) literal_element) xs) (\<lambda>parts.
          Inr (new_cell (n @ concat parts)))) = Inr (RawCell (Some bs))"
      using less.prems by (auto simp: parse_literal.simps [of L literal] parse_collection.simps [of L ?s] Let_def bindR_Inr_iff NULL_cell_def split: if_splits)
    then obtain es where "bs = be_bytes 4 (int (length es)) @ concat (map frame es)" "int (length es) \<le> i32_max"
      "\<forall>e \<in> set es. opt_ok (conforms t) e" using elements [of _ t] TSet by auto
    then show ?thesis using TSet conforms.st by simp
  next
    case (TMap k v f)
    obtain xs n parts where n: "count_bytes (length xs) ty literal = Inr n" and bs: "bs = n @ concat parts"
      and parts: "collectR (\<lambda>e. if length (split_top_level e (CHR '':'')) \<noteq> 2 then Inl (invalid_literal literal ty ''expected `key: value` entries'')
          else bindR (bindR (parse_literal L (split_top_level e (CHR '':'') ! 0) k) literal_element) (\<lambda>kb.
            bindR (bindR (parse_literal L (split_top_level e (CHR '':'') ! 1) v) literal_element) (\<lambda>vb. Inr (kb @ vb)))) xs = Inr parts"
      using less.prems TMap
      by (auto simp: parse_literal.simps [of L literal] parse_collection.simps [of L ?s] Let_def bindR_Inr_iff NULL_cell_def new_cell_def split: if_splits)
    obtain kvs where "parts = map (\<lambda>kv. frame (fst kv) @ frame (snd kv)) kvs" "length kvs = length xs"
      "\<forall>kv \<in> set kvs. opt_ok (conforms k) (fst kv) \<and> opt_ok (conforms v) (snd kv)"
      using map_parts_frames [OF parts, of "conforms k" "conforms v"] less.IH [of k] less.IH [of v] TMap by auto
    then show ?thesis using n bs TMap conforms.mp [of kvs k v f] by (auto simp: count_bytes_def split: if_splits)
  next
    case (TTuple ts)
    obtain xs parts where len: "length xs = length ts" and bs: "bs = concat parts"
      and parts: "collectR (\<lambda>x. bindR (case x of (e, t) \<Rightarrow> parse_literal L e t) literal_element) (zip xs ts) = Inr parts"
      using less.prems TTuple
      by (auto simp: parse_literal.simps [of L literal] parse_collection.simps [of L ?s] Let_def bindR_Inr_iff NULL_cell_def new_cell_def case_prod_unfold split: if_splits)
    have IH: "conforms (snd x) bs'" if "x \<in> set (zip xs ts)" "(case x of (e, t) \<Rightarrow> parse_literal L e t) = Inr (RawCell (Some bs'))" for x bs'
      using that less.IH [of "snd x"] size_zip_type [of "fst x" "snd x" xs ts] TTuple by (auto simp: case_prod_unfold)
    obtain es where es: "parts = map frame es" "length es = length ts"
      "\<forall>i < length ts. short (es ! i) \<and> (\<forall>bs. es ! i = Some bs \<longrightarrow> conforms (ts ! i) bs)"
      using literal_elements_frames [OF parts, of "\<lambda>x. conforms (snd x)"] IH len by auto
    then have "list_all2 (\<lambda>t e. opt_ok (conforms t) e) (take (length es) ts) es"
      by (auto simp: list_all2_conv_all_nth opt_ok_iff)
    then show ?thesis using conforms.tup [of es ts] es bs TTuple by simp
  qed (use less.prems scalar in \<open>auto simp: parse_literal.simps [of L literal] Let_def NULL_cell_def split: if_splits\<close>)
qed

text \<open>
  A CQL literal that parses against a column's type is a value of that type: whatever constant the
  configuration gives (quoted strings, numbers, blobs, dates, nested collections and tuples), the bytes
  it is turned into are well framed for the type, with counts, element lengths and fixed widths right.
\<close>

theorem parsed_literal_conforms:
  assumes "lib_ok L" "parse_literal L literal ty = Inr (RawCell (Some bs))"
  shows "conforms ty bs"
  by (rule literal_conforms [OF assms])

definition plain_lib :: literal_lib where
  "plain_lib = \<lparr>ll_f32 = \<lambda>_. Inl [], ll_f64 = \<lambda>_. Inl [], ll_bigint = \<lambda>_. Inl [], ll_signed_bytes = \<lambda>_. [], ll_decimal = \<lambda>_. Inl [],
     ll_uuid = \<lambda>_. Inl [], ll_address = \<lambda>_. Inl [], ll_rfc3339 = \<lambda>_. None, ll_datetime = \<lambda>_ _. None, ll_days = \<lambda>_. Inl [],
     ll_nanos = \<lambda>_ _. None\<rparr>"

theorem parsed_literal_conforms_witness:
  "parse_literal plain_lib ''[7, -2]'' (TList (TPrim CqlInt) False) = Inr (RawCell (Some (framed_list [Some (be_bytes 4 7), Some (be_bytes 4 (-2))])))
   \<and> conforms (TList (TPrim CqlInt) False) (framed_list [Some (be_bytes 4 7), Some (be_bytes 4 (-2))])"
proof -
  have run: "parse_literal plain_lib ''[7, -2]'' (TList (TPrim CqlInt) False) = Inr (RawCell (Some (framed_list [Some (be_bytes 4 7), Some (be_bytes 4 (-2))])))"
    by code_simp
  have "lib_ok plain_lib" by (simp add: lib_ok_def plain_lib_def)
  then show ?thesis using parsed_literal_conforms [OF _ run] run by simp
qed

text \<open>
  The empty map cannot be written as a constant: the literal of a map with no entries is refused for
  every map type, while the empty list and the empty set parse to collections of no elements. The
  splitter returns one empty element for the empty text, which only the list and set cases drop.
\<close>

theorem empty_map_literal_refused:
  "parse_literal L ''{}'' (TMap k v f) = Inl (invalid_literal ''{}'' (TMap k v f) ''expected `key: value` entries'')
   \<and> parse_literal L ''[]'' (TList k f) = Inr (new_cell (be_bytes 4 0))
   \<and> parse_literal L ''{}'' (TSet k f) = Inr (new_cell (be_bytes 4 0))"
proof -
  have s: "trim ''{}'' = ''{}''" "trim ''[]'' = ''[]''" "\<not> eq_ignore_ascii_case ''{}'' ''null''" "\<not> eq_ignore_ascii_case ''[]'' ''null''"
    "split_top_level [] (CHR '','') = [[]]" "split_top_level [] (CHR '':'') = [[]]"
    by code_simp+
  show ?thesis
    by (simp add: literal_unfold s Let_def strip_delimiters_def delimiters_def count_bytes_def i32_max_def)
qed

end
