(* ===== verification/Feature_Writetime.thy ===== *)
theory Feature_Writetime
  imports Feature_Base Cql_Statement
begin

text \<open>
  TTL and writetime: \<open>crates/cdm-feature/src/writetime.rs\<close>. The configuration names the origin columns (or
  takes every eligible one), \<open>resolve\<close> turns them into positions of the origin projection, and per row
  the plan takes the maximum of the selected cells. The clause type is the one of \<open>Cql_Statement\<close>, whose
  definition in \<open>cdm-cql\<close> this crate repeats.

  The lemmas show that the value of a row is the greatest of all selected values (of a scalar column or
  of an element of a collection column) or absent when there is none, and that a clause is emitted
  exactly for the dimensions the rows can supply.
\<close>

subsection \<open>Configuration\<close>

record writetime_ttl =
  wt_automatic_ttl :: bool
  wt_ttl_names :: "string list"
  wt_automatic_writetime :: bool
  wt_writetime_names :: "string list"
  wt_use_collections :: bool
  wt_custom_writetime :: i64
  wt_writetime_increment :: i64
  wt_custom_ttl :: i64

definition load_writetime_ttl :: "effective_config \<Rightarrow> writetime_ttl result" where
  "load_writetime_ttl config =
     (let ttl_names = list_property config ORIGIN_TTL_NAMES;
          writetime_names = list_property config ORIGIN_WRITETIME_NAMES in
      bindR (integer_property config TRANSFORM_CUSTOM_WRITETIME) (\<lambda>custom_writetime.
      bindR (integer_property config TRANSFORM_CUSTOM_WRITETIME_INCREMENT) (\<lambda>increment.
      bindR (integer_property config TRANSFORM_CUSTOM_TTL) (\<lambda>custom_ttl.
        Inr \<lparr>wt_automatic_ttl = (ttl_names = [] \<and> boolean_property config ORIGIN_TTL_AUTOMATIC True),
             wt_ttl_names = ttl_names,
             wt_automatic_writetime = (writetime_names = [] \<and> boolean_property config ORIGIN_WRITETIME_AUTOMATIC True),
             wt_writetime_names = writetime_names,
             wt_use_collections = boolean_property config TTL_WRITETIME_USE_COLLECTIONS False,
             wt_custom_writetime = or_default 0 custom_writetime,
             wt_writetime_increment = or_default 0 increment,
             wt_custom_ttl = or_default 0 custom_ttl\<rparr>))))"

definition writetime_ttl_is_enabled :: "writetime_ttl \<Rightarrow> bool" where
  "writetime_ttl_is_enabled w \<longleftrightarrow>
     wt_automatic_ttl w \<or> wt_automatic_writetime w \<or> wt_ttl_names w \<noteq> [] \<or> wt_writetime_names w \<noteq> []
     \<or> 0 < wt_custom_writetime w \<or> 0 < wt_custom_ttl w"

definition ttl_columns :: "writetime_ttl \<Rightarrow> table_facts \<Rightarrow> string list" where
  "ttl_columns w origin =
     (if wt_automatic_ttl w then ttl_writetime_columns origin (wt_use_collections w) else wt_ttl_names w)"

definition writetime_columns :: "writetime_ttl \<Rightarrow> table_facts \<Rightarrow> string list" where
  "writetime_columns w origin =
     (if wt_automatic_writetime w then ttl_writetime_columns origin (wt_use_collections w) else wt_writetime_names w)"

definition validate_named :: "writetime_ttl \<Rightarrow> table_facts \<Rightarrow> string \<Rightarrow> string \<Rightarrow> diagnostic list" where
  "validate_named w origin dimension name =
     (case facts_column origin name of
        None \<Rightarrow> [with_rule ''FEA-042'' (schema_error (dimension @ '' column `'' @ name
                  @ ''` is not on the origin table '' @ show_table (tf_table origin)))]
      | Some column \<Rightarrow>
          if can_carry_ttl_or_writetime column (wt_use_collections w) then []
          else [with_suggestion
                  (if cf_key column then ''key columns have no per-cell metadata; name a regular column''
                   else ''set `schema.ttl_writetime.use_collections` to include unfrozen collections'')
                (with_rule ''FEA-041'' (schema_error (dimension @ '' column `'' @ name @ ''` ('' @ show_type (cf_type column)
                  @ '') cannot provide a '' @ dimension)))])"

definition validate_writetime_ttl :: "writetime_ttl \<Rightarrow> feature_schema \<Rightarrow> diagnostic list" where
  "validate_writetime_ttl w schema =
     (if facts_is_counter_table (fs_origin schema) \<or> facts_is_counter_table (fs_target schema)
      then (if writetime_ttl_is_enabled w
            then [with_suggestion ''unset the TTL/writetime properties, or set `schema.origin.ttl.automatic` and `schema.origin.writetime.automatic` to false''
                   (with_rule ''FEA-045'' (config_error ''a counter table cannot be written with a TTL or a timestamp''))]
            else [])
      else
        (if wt_writetime_increment w < 0
         then [with_rule ''FEA-040'' (config_error (''`'' @ pk_canonical TRANSFORM_CUSTOM_WRITETIME_INCREMENT @ ''` must be zero or greater''))]
         else [])
        @ (if wt_custom_writetime w < 0 \<or> wt_custom_ttl w < 0
           then [with_rule ''FEA-044'' (config_warning ''a negative custom writetime or TTL is out of range and is treated as unset'')]
           else [])
        @ concat (map (validate_named w (fs_origin schema) ''TTL'') (wt_ttl_names w))
        @ concat (map (validate_named w (fs_origin schema) ''writetime'') (wt_writetime_names w)))"

subsection \<open>The plan\<close>

record selected_column =
  sel_index :: usize
  sel_collection :: bool

record writetime_ttl_plan =
  wp_projection :: "string list"
  wp_ttl :: "selected_column list"
  wp_writetime :: "selected_column list"
  wp_custom_writetime :: i64
  wp_writetime_increment :: i64
  wp_custom_ttl :: i64

definition disabled_plan :: writetime_ttl_plan where
  "disabled_plan = \<lparr>wp_projection = [], wp_ttl = [], wp_writetime = [], wp_custom_writetime = 0,
     wp_writetime_increment = 0, wp_custom_ttl = 0\<rparr>"

definition yields_scalar :: "table_facts \<Rightarrow> string \<Rightarrow> bool result" where
  "yields_scalar origin name =
     bindR (ok_or (facts_column origin name) (with_context (with_column name) (new_error SchemaMismatch
         (''TTL/writetime column `'' @ name @ ''` is not on the origin table '' @ show_table (tf_table origin)))))
       (\<lambda>column. Inr (\<not> is_collection (cf_type column) \<or> is_frozen (cf_type column)))"

text \<open>One loop of \<open>resolve\<close>: the columns of one dimension, the first of them at position \<open>at\<close>.\<close>

fun select_columns :: "table_facts \<Rightarrow> string \<Rightarrow> usize \<Rightarrow> string list \<Rightarrow> (selected_column list \<times> string list) result" where
  "select_columns origin fn at [] = Inr ([], [])"
| "select_columns origin fn at (name # names) =
     bindR (yields_scalar origin name) (\<lambda>scalar.
     bindR (select_columns origin fn (at + 1) names) (\<lambda>(cols, texts).
       Inr (\<lparr>sel_index = at, sel_collection = \<not> scalar\<rparr> # cols, (fn @ ''('' @ name @ '')'') # texts)))"

definition resolve_writetime_ttl :: "writetime_ttl \<Rightarrow> table_facts \<Rightarrow> writetime_ttl_plan result" where
  "resolve_writetime_ttl w origin =
     (if facts_is_counter_table origin then Inr disabled_plan
      else
        bindR (select_columns origin ''TTL'' (length (tf_columns origin)) (ttl_columns w origin)) (\<lambda>(ttl, ttl_texts).
        bindR (select_columns origin ''WRITETIME'' (length (tf_columns origin) + length ttl_texts)
                 (writetime_columns w origin)) (\<lambda>(writetime, writetime_texts).
          Inr \<lparr>wp_projection = ttl_texts @ writetime_texts, wp_ttl = ttl, wp_writetime = writetime,
               wp_custom_writetime = max (wt_custom_writetime w) 0,
               wp_writetime_increment = max (wt_writetime_increment w) 0,
               wp_custom_ttl = max (wt_custom_ttl w) 0\<rparr>)))"

definition has_writetime :: "writetime_ttl_plan \<Rightarrow> bool" where
  "has_writetime p \<longleftrightarrow> 0 < wp_custom_writetime p \<or> wp_writetime p \<noteq> []"

definition has_ttl :: "writetime_ttl_plan \<Rightarrow> bool" where
  "has_ttl p \<longleftrightarrow> 0 < wp_custom_ttl p \<or> wp_ttl p \<noteq> []"

definition plan_using_clause :: "writetime_ttl_plan \<Rightarrow> using_clause" where
  "plan_using_clause p = \<lparr>us_ttl = has_ttl p, us_timestamp = has_writetime p\<rparr>"

subsection \<open>Values of a row\<close>

definition read_writetime :: "byte list \<Rightarrow> i64 result" where
  "read_writetime bs =
     (if length bs = 8 then Inr (be_value bs)
      else Inl (new_error TypeConversion (''expected an 8-byte writetime, got '' @ show_nat (length bs) @ '' bytes'')))"

definition read_ttl :: "byte list \<Rightarrow> i32 result" where
  "read_ttl bs =
     (if length bs = 4 then Inr (be_value bs)
      else Inl (new_error TypeConversion (''expected a 4-byte TTL, got '' @ show_nat (length bs) @ '' bytes'')))"

definition raise_maximum :: "int option \<Rightarrow> int \<Rightarrow> int option" where
  "raise_maximum m v = Some (case m of None \<Rightarrow> v | Some current \<Rightarrow> max current v)"

fun maximum_elements :: "(byte list \<Rightarrow> int result) \<Rightarrow> raw_cell list \<Rightarrow> int option \<Rightarrow> int option result" where
  "maximum_elements dec [] m = Inr m"
| "maximum_elements dec (e # es) m =
     (case cell_bytes e of
        None \<Rightarrow> maximum_elements dec es m
      | Some bs \<Rightarrow> bindR (dec bs) (\<lambda>v. maximum_elements dec es (raise_maximum m v)))"

fun maximum_loop :: "(byte list \<Rightarrow> int result) \<Rightarrow> row \<Rightarrow> selected_column list \<Rightarrow> int option \<Rightarrow> int option result" where
  "maximum_loop dec r [] m = Inr m"
| "maximum_loop dec r (column # cs) m =
     (case row_get r (sel_index column) of
        None \<Rightarrow> Inl (new_error Internal (''TTL/writetime projection expects '' @ show_nat (sel_index column + 1)
                  @ '' columns; the row has '' @ show_nat (length (row_cells r))))
      | Some cell \<Rightarrow>
          (case cell_bytes cell of
             None \<Rightarrow> maximum_loop dec r cs m
           | Some bs \<Rightarrow>
               if sel_collection column
               then bindR (list_elements bs) (\<lambda>es. bindR (maximum_elements dec es m) (maximum_loop dec r cs))
               else bindR (dec bs) (\<lambda>v. maximum_loop dec r cs (raise_maximum m v))))"

definition saturating_add_i64 :: "i64 \<Rightarrow> i64 \<Rightarrow> i64" where
  "saturating_add_i64 a b = max i64_min (min i64_max (a + b))"

definition plan_writetime :: "writetime_ttl_plan \<Rightarrow> row \<Rightarrow> i64 option result" where
  "plan_writetime p r =
     (if 0 < wp_custom_writetime p then Inr (Some (wp_custom_writetime p))
      else if wp_writetime p = [] then Inr None
      else bindR (maximum_loop read_writetime r (wp_writetime p) None) (\<lambda>m.
        Inr (map_option (\<lambda>v. saturating_add_i64 v (wp_writetime_increment p)) m)))"

definition plan_ttl :: "writetime_ttl_plan \<Rightarrow> row \<Rightarrow> i32 option result" where
  "plan_ttl p r =
     (if 0 < wp_custom_ttl p
      then Inr (Some (if wp_custom_ttl p \<le> i32_max then wp_custom_ttl p else i32_max))
      else if wp_ttl p = [] then Inr None
      else bindR (maximum_loop read_ttl r (wp_ttl p) None) (\<lambda>m. Inr (Some (or_default 0 m))))"

subsection \<open>The greatest of the selected values\<close>

text \<open>All values a selected column has in a row, and the greatest element of a list.\<close>

definition column_values :: "(byte list \<Rightarrow> int result) \<Rightarrow> row \<Rightarrow> selected_column \<Rightarrow> int list result" where
  "column_values dec r column =
     (case row_get r (sel_index column) of
        None \<Rightarrow> Inl (new_error Internal (''TTL/writetime projection expects '' @ show_nat (sel_index column + 1)
                  @ '' columns; the row has '' @ show_nat (length (row_cells r))))
      | Some cell \<Rightarrow>
          (case cell_bytes cell of
             None \<Rightarrow> Inr []
           | Some bs \<Rightarrow>
               if sel_collection column
               then bindR (list_elements bs) (\<lambda>es. collectR dec (List.map_filter cell_bytes es))
               else bindR (dec bs) (\<lambda>v. Inr [v])))"

definition greatest :: "int list \<Rightarrow> int option" where
  "greatest vs = (if vs = [] then None else Some (Max (set vs)))"

lemma bindR_assoc: "bindR (bindR m f) g = bindR m (\<lambda>x. bindR (f x) g)"
  by (cases m) simp_all

lemma foldl_raise_maximum: "foldl raise_maximum (Some m) vs = Some (Max (insert m (set vs)))"
proof (induction vs arbitrary: m)
  case (Cons v vs)
  have "Max (insert (max m v) (set vs)) = Max (insert m (insert v (set vs)))"
    by (cases vs) (simp_all add: max.assoc)
  then show ?case using Cons by (simp add: raise_maximum_def)
qed simp

lemma raise_maximum_greatest: "foldl raise_maximum None vs = greatest vs"
  using foldl_raise_maximum by (cases vs) (simp_all add: greatest_def raise_maximum_def)

lemma maximum_elements_values:
  "maximum_elements dec es m =
     bindR (collectR dec (List.map_filter cell_bytes es)) (\<lambda>vs. Inr (foldl raise_maximum m vs))"
  by (induction es arbitrary: m) (auto simp: List.map_filter_simps bindR_assoc split: option.split)

lemma maximum_loop_values:
  "maximum_loop dec r cs m =
     bindR (collectR (column_values dec r) cs) (\<lambda>vss. Inr (foldl raise_maximum m (concat vss)))"
proof (induction cs arbitrary: m)
  case (Cons c cs)
  show ?case
    by (simp add: column_values_def maximum_elements_values bindR_assoc Cons split: option.split)
qed simp

lemma maximum_loop_greatest:
  "maximum_loop dec r cs None = bindR (collectR (column_values dec r) cs) (\<lambda>vss. Inr (greatest (concat vss)))"
  by (simp add: maximum_loop_values raise_maximum_greatest)

text \<open>
  Claim C19. The timestamp a row is written with is the newest of its cells: without a configured writetime,
  the value bound for the row is the greatest of the writetimes of all selected columns, the elements of
  collection columns included, plus the configured increment, held within 64 bits; no value is bound
  exactly when no selected cell has one.
\<close>

theorem writetime_is_newest:
  assumes "wp_custom_writetime p \<le> 0" "plan_writetime p r = Inr w"
  shows "\<exists>vss. list_all2 (\<lambda>c vs. column_values read_writetime r c = Inr vs) (wp_writetime p) vss
    \<and> w = map_option (\<lambda>v. saturating_add_i64 v (wp_writetime_increment p)) (greatest (concat vss))"
proof (cases "wp_writetime p = []")
  case True
  then show ?thesis using assms by (simp add: plan_writetime_def greatest_def)
next
  case False
  then show ?thesis
    using assms by (auto simp: plan_writetime_def maximum_loop_greatest bindR_Inr_iff collectR_Inr_iff)
qed

definition demo_wt_plan :: writetime_ttl_plan where
  "demo_wt_plan = disabled_plan\<lparr>wp_projection := [''WRITETIME(v)'', ''WRITETIME(w)''],
     wp_writetime := [\<lparr>sel_index = 1, sel_collection = False\<rparr>, \<lparr>sel_index = 2, sel_collection = True\<rparr>],
     wp_writetime_increment := 5\<rparr>"

definition demo_wt_row :: row where
  "demo_wt_row = Row [NULL_cell, new_cell (be_bytes 8 70),
     new_cell (framed_list [Some (be_bytes 8 90), None])]"

theorem writetime_is_newest_witness:
  "plan_writetime demo_wt_plan demo_wt_row = Inr (Some 95)
   \<and> (\<exists>vss. list_all2 (\<lambda>c vs. column_values read_writetime demo_wt_row c = Inr vs) (wp_writetime demo_wt_plan) vss
        \<and> Some 95 = map_option (\<lambda>v. saturating_add_i64 v 5) (greatest (concat vss)))"
proof -
  have "list_elements (framed_list [Some (be_bytes 8 90), None]) = Inr [RawCell (Some (be_bytes 8 90)), RawCell None]"
    by (subst list_elements_framed) (simp_all add: framed_list_def i32_max_def u64_max_def)
  then have w: "plan_writetime demo_wt_plan demo_wt_row = Inr (Some 95)"
    by (simp add: demo_wt_plan_def demo_wt_row_def disabled_plan_def plan_writetime_def row_get_def new_cell_def
        read_writetime_def be_value_i64 in_i64_def i64_min_def i64_max_def raise_maximum_def saturating_add_i64_def)
  have c: "wp_custom_writetime demo_wt_plan \<le> 0" "wp_writetime_increment demo_wt_plan = 5"
    by (simp_all add: demo_wt_plan_def disabled_plan_def)
  show ?thesis using writetime_is_newest [OF c(1) w] c(2) w by simp
qed

subsection \<open>Positions and the clause\<close>

lemma select_columns_positions:
  "select_columns origin fn at names = Inr (cols, texts) \<Longrightarrow>
     map sel_index cols = [at..<at + length names] \<and> texts = map (\<lambda>n. fn @ ''('' @ n @ '')'') names"
proof (induction origin fn at names arbitrary: cols texts rule: select_columns.induct)
  case (2 origin fn at name names)
  from "2.prems" obtain scalar cs ts where s: "yields_scalar origin name = Inr scalar"
    "select_columns origin fn (at + 1) names = Inr (cs, ts)"
    "cols = \<lparr>sel_index = at, sel_collection = \<not> scalar\<rparr> # cs" "texts = (fn @ ''('' @ name @ '')'') # ts"
    by (auto simp: bindR_Inr_iff)
  show ?case using "2.IH" [OF s(1,2)] s(3,4) by (simp add: upt_conv_Cons del: upt_Suc)
qed simp

text \<open>
  The positions a resolved plan reads are those of its own expressions: after the columns of the table
  come the TTL expressions and then the writetime expressions, and each selected column points at the
  expression of its name.
\<close>

lemma resolve_writetime_ttlD:
  assumes "resolve_writetime_ttl w origin = Inr p" "\<not> facts_is_counter_table origin"
  obtains tt ww where
    "select_columns origin ''TTL'' (length (tf_columns origin)) (ttl_columns w origin) = Inr (wp_ttl p, tt)"
    "select_columns origin ''WRITETIME'' (length (tf_columns origin) + length tt) (writetime_columns w origin) = Inr (wp_writetime p, ww)"
    "wp_projection p = tt @ ww"
proof (cases "select_columns origin ''TTL'' (length (tf_columns origin)) (ttl_columns w origin)")
  case (Inr x)
  obtain ttl tt where x: "x = (ttl, tt)" by force
  show ?thesis
  proof (cases "select_columns origin ''WRITETIME'' (length (tf_columns origin) + length tt) (writetime_columns w origin)")
    case Inl
    then show ?thesis using assms Inr x by (simp add: resolve_writetime_ttl_def)
  next
    case (Inr y)
    obtain wr ww where y: "y = (wr, ww)" by force
    show ?thesis using that [of tt ww] assms \<open>_ = Inr x\<close> x Inr y by (force simp: resolve_writetime_ttl_def)
  qed
qed (use assms in \<open>simp add: resolve_writetime_ttl_def\<close>)

lemma resolved_positions:
  assumes "resolve_writetime_ttl w origin = Inr p" "\<not> facts_is_counter_table origin"
  shows "map sel_index (wp_ttl p @ wp_writetime p)
           = [length (tf_columns origin)..<length (tf_columns origin) + length (wp_projection p)]"
    and "wp_projection p = map (\<lambda>n. ''TTL('' @ n @ '')'') (ttl_columns w origin)
           @ map (\<lambda>n. ''WRITETIME('' @ n @ '')'') (writetime_columns w origin)"
proof -
  obtain tt ww where sel:
    "select_columns origin ''TTL'' (length (tf_columns origin)) (ttl_columns w origin) = Inr (wp_ttl p, tt)"
    "select_columns origin ''WRITETIME'' (length (tf_columns origin) + length tt) (writetime_columns w origin) = Inr (wp_writetime p, ww)"
    "wp_projection p = tt @ ww"
    using resolve_writetime_ttlD [OF assms] .
  note at = select_columns_positions [OF sel(1)] select_columns_positions [OF sel(2)]
  have tt: "tt = map (\<lambda>n. ''TTL'' @ ''('' @ n @ '')'') (ttl_columns w origin)" using at(1) by (rule conjunct2)
  have ww: "ww = map (\<lambda>n. ''WRITETIME'' @ ''('' @ n @ '')'') (writetime_columns w origin)" using at(2) by (rule conjunct2)
  have len: "length tt = length (ttl_columns w origin)" "length ww = length (writetime_columns w origin)"
    unfolding tt ww by (simp_all only: length_map)
  show "map sel_index (wp_ttl p @ wp_writetime p)
      = [length (tf_columns origin)..<length (tf_columns origin) + length (wp_projection p)]"
    unfolding sel(3) map_append length_append conjunct1 [OF at(1)] conjunct1 [OF at(2)] len
    by (metis add.assoc le_add1 upt_add_eq_append)
  show "wp_projection p = map (\<lambda>n. ''TTL('' @ n @ '')'') (ttl_columns w origin)
           @ map (\<lambda>n. ''WRITETIME('' @ n @ '')'') (writetime_columns w origin)"
    unfolding sel(3) tt ww by simp
qed

text \<open>A counter table gets no clause, and a value is bound only for a dimension whose clause is emitted.\<close>

lemma counter_table_no_clause:
  "facts_is_counter_table origin \<Longrightarrow> resolve_writetime_ttl w origin = Inr p \<Longrightarrow> using_is_empty (plan_using_clause p)"
  by (auto simp: resolve_writetime_ttl_def disabled_plan_def plan_using_clause_def has_ttl_def has_writetime_def using_is_empty_def)

lemma bound_value_has_clause:
  "plan_writetime p r = Inr (Some v) \<Longrightarrow> us_timestamp (plan_using_clause p)"
  "plan_ttl p r = Inr v' \<Longrightarrow> v' \<noteq> None \<longleftrightarrow> us_ttl (plan_using_clause p)"
  by (auto simp: plan_writetime_def plan_ttl_def plan_using_clause_def has_writetime_def has_ttl_def bindR_Inr_iff split: if_splits)

end
