(* ===== verification/Feature_Filter.thy ===== *)
theory Feature_Filter
  imports Feature_Writetime Core_Token
begin

text \<open>
  The row filters: \<open>crates/cdm-feature/src/filter.rs\<close>. The CQL condition appended to the origin select, the
  writetime window, the column-value filter, the token bounds, and the chain that composes row filters. A
  filter is its name and its predicate on records, which may fail.

  A text cell is a byte string: \<open>std::str::from_utf8\<close> accepts the well-formed sequences of Unicode's table
  3-7, and \<open>str::trim\<close> removes the characters with the White_Space property in their UTF-8 encoding.

  The lemmas show that the chain stops at the first filter that does not accept, that the writetime
  window rejects exactly the rows outside it, and that clamping a range keeps exactly its tokens within
  the bounds.
\<close>

subsection \<open>Text cells\<close>

text \<open>
  The next character: its width, or the length of the invalid sequence (none when the input ends inside
  a character). \<open>utf8_error_at\<close> is the first error and its offset, as \<open>Utf8Error\<close> reports them.
\<close>

definition utf8_cont :: "nat \<Rightarrow> bool" where
  "utf8_cont x \<longleftrightarrow> 128 \<le> x \<and> x \<le> 191"

fun utf8_tail :: "nat \<Rightarrow> nat \<Rightarrow> nat list \<Rightarrow> nat option + nat" where
  "utf8_tail width 0 s = Inr width"
| "utf8_tail width (Suc n) [] = Inl None"
| "utf8_tail width (Suc n) (x # s) = (if utf8_cont x then utf8_tail width n s else Inl (Some (width - Suc n)))"

definition utf8_next :: "nat \<Rightarrow> nat list \<Rightarrow> nat option + nat" where
  "utf8_next a s =
     (let second = (\<lambda>lo hi width n. case s of
            [] \<Rightarrow> Inl None
          | b # s' \<Rightarrow> if lo \<le> b \<and> b \<le> hi then utf8_tail width n s' else Inl (Some 1)) in
      if a \<le> 127 then Inr 1
      else if 194 \<le> a \<and> a \<le> 223 then utf8_tail 2 1 s
      else if a = 224 then second 160 191 3 1
      else if a = 237 then second 128 159 3 1
      else if 225 \<le> a \<and> a \<le> 239 then second 128 191 3 1
      else if a = 240 then second 144 191 4 2
      else if 241 \<le> a \<and> a \<le> 243 then second 128 191 4 2
      else if a = 244 then second 128 143 4 2
      else Inl (Some 1))"

function utf8_error_at :: "nat \<Rightarrow> nat list \<Rightarrow> (nat \<times> nat option) option" where
  "utf8_error_at at [] = None"
| "utf8_error_at at (a # s) =
     (case utf8_next a s of
        Inl e \<Rightarrow> Some (at, e)
      | Inr width \<Rightarrow> utf8_error_at (at + width) (drop (width - 1) s))"
  by pat_completeness auto
termination utf8_error_at
  by (relation "measure (length \<circ> snd)") auto

definition utf8_valid :: "nat list \<Rightarrow> bool" where
  "utf8_valid s \<longleftrightarrow> utf8_error_at 0 s = None"

definition show_utf8_error :: "nat \<times> nat option \<Rightarrow> string" where
  "show_utf8_error e =
     (case snd e of
        Some n \<Rightarrow> ''invalid utf-8 sequence of '' @ show_nat n @ '' bytes from index '' @ show_nat (fst e)
      | None \<Rightarrow> ''incomplete utf-8 byte sequence from index '' @ show_nat (fst e))"

definition utf8_spaces :: "nat list list" where
  "utf8_spaces = map (\<lambda>n. [n]) [9, 10, 11, 12, 13, 32]
     @ [[194, 133], [194, 160], [225, 154, 128]]
     @ map (\<lambda>n. [226, 128, n]) [128, 129, 130, 131, 132, 133, 134, 135, 136, 137, 138, 168, 169, 175]
     @ [[226, 129, 159], [227, 128, 128]]"

definition leading :: "nat list list \<Rightarrow> nat list \<Rightarrow> nat" where
  "leading seqs s = (case List.find (\<lambda>q. take (length q) s = q) seqs of None \<Rightarrow> 0 | Some q \<Rightarrow> length q)"

function drop_leading :: "nat list list \<Rightarrow> nat list \<Rightarrow> nat list" where
  "drop_leading seqs s =
     (if leading seqs s = 0 \<or> s = [] then s else drop_leading seqs (drop (leading seqs s) s))"
  by pat_completeness auto
termination drop_leading
  by (relation "measure (length \<circ> snd)") auto

declare drop_leading.simps [simp del]

definition utf8_trim :: "nat list \<Rightarrow> nat list" where
  "utf8_trim s = rev (drop_leading (map rev utf8_spaces) (rev (drop_leading utf8_spaces s)))"

definition cell_text :: "byte list \<Rightarrow> nat list option" where
  "cell_text bs = (let s = map unat bs in if utf8_valid s then Some s else None)"

definition text_string :: "nat list \<Rightarrow> string" where
  "text_string s = map char_of s"

subsection \<open>The CQL condition\<close>

record cql_where_filter =
  cw_condition :: string

definition load_cql_where :: "effective_config \<Rightarrow> cql_where_filter" where
  "load_cql_where config = \<lparr>cw_condition = or_default [] (trimmed_property config FILTER_CQL_WHERE)\<rparr>"

definition cql_where_is_enabled :: "cql_where_filter \<Rightarrow> bool" where
  "cql_where_is_enabled w \<longleftrightarrow> cw_condition w \<noteq> []"

definition starts_with_and :: "string \<Rightarrow> bool" where
  "starts_with_and condition =
     (let s = dropWhile is_ascii_space condition in
      if \<not> (3 \<le> length s \<and> eq_ignore_ascii_case (take 3 s) ''and'') then False
      else drop 3 s = [] \<or> 0 < leading utf8_spaces (map of_char (drop 3 s)) \<or> hd (drop 3 s) = CHR ''('')"

definition where_fragment :: "cql_where_filter \<Rightarrow> string" where
  "where_fragment w =
     (if cw_condition w = [] then []
      else if starts_with_and (cw_condition w) then '' '' @ cw_condition w
      else '' AND '' @ cw_condition w)"

definition append_where :: "cql_where_filter \<Rightarrow> string \<Rightarrow> string" where
  "append_where w clause = clause @ where_fragment w"

subsection \<open>The chain\<close>

record row_filter =
  rf_name :: string
  rf_accepts :: "cdm_record \<Rightarrow> bool result"

type_synonym filter_chain = "row_filter list"

definition chain_with :: "filter_chain \<Rightarrow> row_filter \<Rightarrow> filter_chain" where
  "chain_with fs f = fs @ [f]"

definition chain_with_enabled :: "filter_chain \<Rightarrow> bool \<Rightarrow> row_filter \<Rightarrow> filter_chain" where
  "chain_with_enabled fs enabled f = (if enabled then chain_with fs f else fs)"

definition chain_names :: "filter_chain \<Rightarrow> string list" where
  "chain_names fs = map rf_name fs"

definition chain_is_empty :: "filter_chain \<Rightarrow> bool" where
  "chain_is_empty fs \<longleftrightarrow> fs = []"

fun chain_accepts :: "filter_chain \<Rightarrow> cdm_record \<Rightarrow> bool result" where
  "chain_accepts [] record = Inr True"
| "chain_accepts (f # fs) record =
     bindR (rf_accepts f record) (\<lambda>ok. if \<not> ok then Inr False else chain_accepts fs record)"

subsection \<open>The writetime window\<close>

record writetime_filter =
  wf_min :: i64
  wf_max :: i64
  wf_plan :: writetime_ttl_plan

definition load_writetime_filter :: "effective_config \<Rightarrow> writetime_ttl_plan \<Rightarrow> writetime_filter result" where
  "load_writetime_filter config p =
     bindR (integer_property config FILTER_WRITETIME_MIN) (\<lambda>mn.
     bindR (integer_property config FILTER_WRITETIME_MAX) (\<lambda>mx.
       Inr \<lparr>wf_min = or_default 0 mn, wf_max = or_default 0 mx, wf_plan = p\<rparr>))"

definition writetime_filter_is_enabled :: "writetime_filter \<Rightarrow> bool" where
  "writetime_filter_is_enabled f \<longleftrightarrow> 0 < wf_min f \<and> 0 < wf_max f \<and> wf_min f < wf_max f"

definition validate_writetime_filter :: "writetime_filter \<Rightarrow> diagnostic list" where
  "validate_writetime_filter f =
     (if wf_min f < 0 \<or> wf_max f < 0
      then [with_rule ''FEA-051'' (config_error ''a writetime filter bound must not be negative'')] else [])
     @ (if 0 < wf_min f \<and> 0 < wf_max f \<and> wf_max f \<le> wf_min f
        then [with_rule ''FEA-051'' (config_error (''writetime filter maximum ('' @ show_int (wf_max f)
                @ '') must be greater than its minimum ('' @ show_int (wf_min f) @ '')''))] else [])
     @ (if writetime_filter_is_enabled f \<and> \<not> has_writetime (wf_plan f)
        then [with_suggestion ''name the columns in `schema.origin.writetime.names`''
               (with_rule ''FEA-051'' (config_error ''a writetime filter is configured but no writetime column is resolvable''))]
        else [])"

definition writetime_filter_accepts :: "writetime_filter \<Rightarrow> cdm_record \<Rightarrow> bool result" where
  "writetime_filter_accepts f record =
     (if \<not> writetime_filter_is_enabled f then Inr True
      else bindR (plan_writetime (wf_plan f) (rec_origin record)) (\<lambda>w.
        case w of
          None \<Rightarrow> Inr True
        | Some writetime \<Rightarrow> Inr (wf_min f \<le> writetime \<and> writetime \<le> wf_max f)))"

definition writetime_row_filter :: "writetime_filter \<Rightarrow> row_filter" where
  "writetime_row_filter f = \<lparr>rf_name = ''writetime-window'', rf_accepts = writetime_filter_accepts f\<rparr>"

subsection \<open>The column value\<close>

record column_value_filter =
  cv_column :: string
  cv_value :: string
  cv_index :: "usize option"

definition load_column_value :: "effective_config \<Rightarrow> table_facts \<Rightarrow> column_value_filter" where
  "load_column_value config origin =
     (let column = or_default [] (trimmed_property config FILTER_COLUMN_NAME) in
      \<lparr>cv_column = column, cv_value = or_default [] (trimmed_property config FILTER_COLUMN_VALUE),
       cv_index = facts_index_of origin column\<rparr>)"

definition column_value_is_enabled :: "column_value_filter \<Rightarrow> bool" where
  "column_value_is_enabled f \<longleftrightarrow> cv_index f \<noteq> None \<and> cv_value f \<noteq> []"

definition validate_column_value :: "column_value_filter \<Rightarrow> table_facts \<Rightarrow> diagnostic list" where
  "validate_column_value f origin =
     (if cv_column f = [] \<and> cv_value f = [] then []
      else
        (if cv_column f = [] \<or> cv_value f = []
         then [with_rule ''FEA-052'' (config_error ''the column filter needs both `filter.column.name` and `filter.column.value`'')] else [])
        @ (if cv_column f \<noteq> [] \<and> facts_column origin (cv_column f) = None
           then [with_rule ''FEA-052'' (schema_error (''filter column `'' @ cv_column f
                   @ ''` is not on the origin table '' @ show_table (tf_table origin)))] else []))"

definition column_value_accepts :: "column_value_filter \<Rightarrow> cdm_record \<Rightarrow> bool result" where
  "column_value_accepts f record =
     (case cv_index f of
        None \<Rightarrow> Inr True
      | Some index \<Rightarrow>
          if \<not> column_value_is_enabled f then Inr True
          else bindR (origin_cell record index) (\<lambda>cell.
            case cell_bytes cell of
              None \<Rightarrow> Inr True
            | Some bs \<Rightarrow>
                (case cell_text bs of
                   None \<Rightarrow> Inr True
                 | Some s \<Rightarrow> Inr (\<not> eq_ignore_ascii_case (text_string (utf8_trim s)) (cv_value f)))))"

definition column_value_row_filter :: "column_value_filter \<Rightarrow> row_filter" where
  "column_value_row_filter f = \<lparr>rf_name = ''column-value'', rf_accepts = column_value_accepts f\<rparr>"

subsection \<open>Token bounds\<close>

record token_bounds =
  tb_min :: "i128 option"
  tb_max :: "i128 option"

definition load_token_bounds :: "effective_config \<Rightarrow> token_bounds result" where
  "load_token_bounds config =
     bindR (integer_128_property config FILTER_TOKEN_MIN) (\<lambda>mn.
     bindR (integer_128_property config FILTER_TOKEN_MAX) (\<lambda>mx. Inr \<lparr>tb_min = mn, tb_max = mx\<rparr>))"

definition token_bounds_is_enabled :: "token_bounds \<Rightarrow> bool" where
  "token_bounds_is_enabled b \<longleftrightarrow> tb_min b \<noteq> None \<or> tb_max b \<noteq> None"

definition clamp_range :: "token_bounds \<Rightarrow> token_range \<Rightarrow> token_range option result" where
  "clamp_range b r =
     (let mn = max (or_default (tr_min r) (tb_min b)) (tr_min r);
          mx = min (or_default (tr_max r) (tb_max b)) (tr_max r);
          inverted = (case (tb_min b, tb_max b) of
            (Some low, Some high) \<Rightarrow>
              if high < low
              then Some (with_context (with_config_key (pk_canonical FILTER_TOKEN_MIN)) (new_error Config
                (''`'' @ pk_canonical FILTER_TOKEN_MIN @ ''` ('' @ show_int low @ '') is above `''
                 @ pk_canonical FILTER_TOKEN_MAX @ ''` ('' @ show_int high @ '')'')))
              else None
          | _ \<Rightarrow> None)
      in case inverted of
           Some e \<Rightarrow> Inl e
         | None \<Rightarrow> if mx < mn then Inr None else bindR (new_range mn mx) (\<lambda>r'. Inr (Some r')))"

subsection \<open>What the filters accept\<close>

lemma chain_first_refusal:
  "chain_accepts fs record =
     (case dropWhile (\<lambda>f. rf_accepts f record = Inr True) fs of [] \<Rightarrow> Inr True | f # _ \<Rightarrow> rf_accepts f record)"
proof (induction fs)
  case (Cons f fs)
  then show ?case by (cases "rf_accepts f record") auto
qed simp

lemma chain_accepts_append:
  "chain_accepts (fs @ gs) record =
     bindR (chain_accepts fs record) (\<lambda>ok. if \<not> ok then Inr False else chain_accepts gs record)"
proof (induction fs)
  case (Cons f fs)
  then show ?case by (cases "rf_accepts f record") auto
qed simp

text \<open>
  The filter chain of a run with a writetime window and a column value lets a record through exactly
  when it should: if the chain answers, it answers yes exactly when the row's resolved writetime (if the
  window is configured and the row has one) lies within the window and the text of the filtered column
  (if it is configured, not null and valid UTF-8) is not the configured value up to case and
  surrounding white space. Filters that are switched off are not in the chain and change nothing.
\<close>

theorem filter_chain_exact:
  assumes "chain_accepts (chain_with_enabled (chain_with_enabled [] (writetime_filter_is_enabled wr) (writetime_row_filter wr))
             (column_value_is_enabled cv) (column_value_row_filter cv)) record = Inr ok"
  shows "ok \<longleftrightarrow>
     (\<forall>w. writetime_filter_is_enabled wr \<and> plan_writetime (wf_plan wr) (rec_origin record) = Inr (Some w)
           \<longrightarrow> wf_min wr \<le> w \<and> w \<le> wf_max wr)
     \<and> (\<forall>i bs s. cv_value cv \<noteq> [] \<and> cv_index cv = Some i \<and> row_get (rec_origin record) i = Some (RawCell (Some bs))
           \<and> cell_text bs = Some s \<longrightarrow> \<not> eq_ignore_ascii_case (text_string (utf8_trim s)) (cv_value cv))"
proof -
  have w: "writetime_filter_accepts wr record = Inr a \<Longrightarrow> a \<longleftrightarrow>
      (\<forall>w. writetime_filter_is_enabled wr \<and> plan_writetime (wf_plan wr) (rec_origin record) = Inr (Some w)
           \<longrightarrow> wf_min wr \<le> w \<and> w \<le> wf_max wr)" for a
    by (auto simp: writetime_filter_accepts_def bindR_Inr_iff split: if_splits option.splits)
  have c: "column_value_accepts cv record = Inr a \<Longrightarrow> a \<longleftrightarrow>
      (\<forall>i bs s. cv_value cv \<noteq> [] \<and> cv_index cv = Some i \<and> row_get (rec_origin record) i = Some (RawCell (Some bs))
           \<and> cell_text bs = Some s \<longrightarrow> \<not> eq_ignore_ascii_case (text_string (utf8_trim s)) (cv_value cv))" for a
    by (cases "cv_index cv")
       (auto simp: column_value_accepts_def column_value_is_enabled_def origin_cell_def ok_or_def bindR_Inr_iff
          split: if_splits option.splits, metis raw_cell.exhaust_sel)
  have off: "\<not> writetime_filter_is_enabled wr \<Longrightarrow> writetime_filter_accepts wr record = Inr True"
    "\<not> column_value_is_enabled cv \<Longrightarrow> column_value_accepts cv record = Inr True"
    by (simp_all add: writetime_filter_accepts_def column_value_accepts_def split: option.split)
  have "bindR (writetime_filter_accepts wr record) (\<lambda>a. if \<not> a then Inr False else column_value_accepts cv record) = Inr ok"
    using assms off
    by (cases "writetime_filter_is_enabled wr"; cases "column_value_is_enabled cv";
        cases "writetime_filter_accepts wr record"; cases "column_value_accepts cv record")
       (auto simp: chain_with_enabled_def chain_with_def writetime_row_filter_def column_value_row_filter_def split: if_splits)
  then obtain a where a: "writetime_filter_accepts wr record = Inr a" "(if \<not> a then Inr False else column_value_accepts cv record) = Inr ok"
    by (auto simp: bindR_Inr_iff)
  show ?thesis
  proof (cases a)
    case False
    then show ?thesis using w [OF a(1)] a(2) by auto
  next
    case True
    then have k: "column_value_accepts cv record = Inr ok" using a(2) by simp
    show ?thesis using w [OF a(1)] True c [OF k] by auto
  qed
qed

text \<open>
  Clamping a planned range to the configured token bounds keeps exactly the tokens within the bounds:
  a token is in the clamped range if and only if it is in the planned one and between the bounds, a
  range with no such token is dropped, and the only error is for inverted bounds.
\<close>

theorem clamp_keeps_bounded_tokens:
  assumes "wf_range r" "\<forall>low high. tb_min b = Some low \<and> tb_max b = Some high \<longrightarrow> low \<le> high"
  shows "\<exists>c. clamp_range b r = Inr c \<and> (\<forall>t. (\<exists>r'. c = Some r' \<and> wf_range r' \<and> contains r' t)
     \<longleftrightarrow> contains r t \<and> (\<forall>low. tb_min b = Some low \<longrightarrow> low \<le> t) \<and> (\<forall>high. tb_max b = Some high \<longrightarrow> t \<le> high))"
proof -
  let ?mn = "max (or_default (tr_min r) (tb_min b)) (tr_min r)" and ?mx = "min (or_default (tr_max r) (tb_max b)) (tr_max r)"
  have "new_range ?mn ?mx = Inr (TokenRange ?mn ?mx)" if "\<not> ?mx < ?mn" using that by (intro new_range_ok) linarith
  then have "clamp_range b r = Inr (if ?mx < ?mn then None else Some (TokenRange ?mn ?mx))"
    using assms(2) by (auto simp: clamp_range_def Let_def split: option.splits)
  then show ?thesis using assms(1)
    by (auto simp: contains_def wf_range_def in_i128_def or_default_def split: option.splits)
qed

theorem clamp_keeps_bounded_tokens_witness:
  "\<exists>c. clamp_range \<lparr>tb_min = Some 5, tb_max = None\<rparr> (TokenRange 0 9) = Inr c \<and> (\<forall>t. (\<exists>r'. c = Some r' \<and> wf_range r' \<and> contains r' t)
     \<longleftrightarrow> contains (TokenRange 0 9) t \<and> 5 \<le> t)"
  using clamp_keeps_bounded_tokens [of "TokenRange 0 9" "\<lparr>tb_min = Some 5, tb_max = None\<rparr>"]
  by (simp add: wf_range_def width_simps)

definition demo_wt_filter :: writetime_filter where
  "demo_wt_filter = \<lparr>wf_min = 70, wf_max = 100, wf_plan = demo_wt_plan\<rparr>"

definition demo_value_filter :: column_value_filter where
  "demo_value_filter = \<lparr>cv_column = ''k'', cv_value = ''gone'', cv_index = Some 0\<rparr>"

definition demo_wt_record :: cdm_record where
  "demo_wt_record = new_record (PrimaryKey []) (Row [new_cell [32, 71, 111, 78, 101, 10], new_cell (be_bytes 8 70), NULL_cell])"

theorem filter_chain_exact_witness:
  "chain_accepts [writetime_row_filter demo_wt_filter, column_value_row_filter demo_value_filter] demo_wt_record = Inr False
   \<and> (\<exists>i bs s. cv_index demo_value_filter = Some i \<and> row_get (rec_origin demo_wt_record) i = Some (RawCell (Some bs))
        \<and> cell_text bs = Some s \<and> eq_ignore_ascii_case (text_string (utf8_trim s)) ''gone'')"
proof -
  let ?wr = "demo_wt_filter"
  have w: "plan_writetime demo_wt_plan (rec_origin demo_wt_record) = Inr (Some 75)"
    by (simp add: demo_wt_plan_def demo_wt_record_def new_record_def disabled_plan_def plan_writetime_def row_get_def new_cell_def
        NULL_cell_def read_writetime_def be_value_i64 in_i64_def i64_min_def i64_max_def raise_maximum_def saturating_add_i64_def)
  have on: "writetime_filter_is_enabled ?wr" "column_value_is_enabled demo_value_filter"
    by (simp_all add: writetime_filter_is_enabled_def demo_wt_filter_def column_value_is_enabled_def demo_value_filter_def)
  have c: "column_value_accepts demo_value_filter demo_wt_record = Inr False" by code_simp
  have chain: "chain_with_enabled (chain_with_enabled [] (writetime_filter_is_enabled ?wr) (writetime_row_filter ?wr))
      (column_value_is_enabled demo_value_filter) (column_value_row_filter demo_value_filter)
      = [writetime_row_filter ?wr, column_value_row_filter demo_value_filter]"
    using on by (simp add: chain_with_enabled_def chain_with_def)
  have a: "chain_accepts [writetime_row_filter ?wr, column_value_row_filter demo_value_filter] demo_wt_record = Inr False"
    using w c on(1) by (simp add: writetime_row_filter_def column_value_row_filter_def writetime_filter_accepts_def demo_wt_filter_def)
  show ?thesis
    using filter_chain_exact [of ?wr demo_value_filter demo_wt_record False] a w
    unfolding chain by (auto simp: demo_wt_filter_def demo_value_filter_def)
qed

end
