(* ===== verification/Feature_Json.thy ===== *)
theory Feature_Json
  imports Feature_Literal Feature_Filter
begin

text \<open>
  Extracting a property of a JSON document into a target column: \<open>crates/cdm-feature/src/extract_json.rs\<close>, and
  \<open>encode_json\<close> of \<open>literal.rs\<close>. A JSON value is \<open>serde_json::Value\<close>'s enumeration, a number being its
  rendering; parsing a document, following a pointer and rendering an array or object are functions of
  \<open>serde_json\<close> and fields of the record \<open>json_lib\<close>.

  The lemmas show what is extracted on every branch, that what is extracted is a value of the target
  column's type, and that with exclusive extraction exactly the key columns and the one column remain.
\<close>

subsection \<open>JSON values\<close>

datatype json =
    JNull
  | JBool bool
  | JNumber string
  | JString string
  | JArray "json list"
  | JObject "(string \<times> json) list"

datatype json_category = JsonIo | JsonSyntax | JsonData | JsonEof

record json_error =
  jr_category :: json_category
  jr_line :: usize
  jr_column :: usize

record json_lib =
  jl_parse :: "nat list \<Rightarrow> json_error + json"
  jl_pointer :: "string \<Rightarrow> json \<Rightarrow> json option"
  jl_render :: "json \<Rightarrow> string"
  jl_literals :: literal_lib

fun classify_as_str :: "json_category \<Rightarrow> string" where
  "classify_as_str JsonIo = ''I/O failure''"
| "classify_as_str JsonSyntax = ''malformed JSON''"
| "classify_as_str JsonData = ''unexpected JSON shape''"
| "classify_as_str JsonEof = ''truncated JSON''"

fun json_get :: "json \<Rightarrow> string \<Rightarrow> json option" where
  "json_get (JObject members) name = map_of members name"
| "json_get v name = None"

fun show_bool :: "bool \<Rightarrow> string" where
  "show_bool True = ''true''"
| "show_bool False = ''false''"

definition encode_json :: "json_lib \<Rightarrow> json \<Rightarrow> cql_type_info \<Rightarrow> raw_cell result" where
  "encode_json J v ty =
     (case v of
        JNull \<Rightarrow> Inr NULL_cell
      | JString s \<Rightarrow> encode_scalar (jl_literals J) s ty s
      | JBool b \<Rightarrow> encode_scalar (jl_literals J) (show_bool b) ty (show_bool b)
      | JNumber n \<Rightarrow> encode_scalar (jl_literals J) n ty n
      | _ \<Rightarrow>
          (let rendered = jl_render J v in
           if ty = TPrim Text \<or> ty = TPrim Ascii then encode_scalar (jl_literals J) rendered ty rendered
           else Inl (invalid_literal rendered ty ''a JSON object or array can only be extracted into a text column'')))"

subsection \<open>Configuration\<close>

datatype json_path = Field string | Pointer string

definition parse_json_path :: "string \<Rightarrow> json_path" where
  "parse_json_path s = (if s \<noteq> [] \<and> hd s = CHR ''/'' then Pointer s else Field s)"

fun resolve_json_path :: "json_lib \<Rightarrow> json_path \<Rightarrow> json \<Rightarrow> json option" where
  "resolve_json_path J (Field name) document = json_get document name"
| "resolve_json_path J (Pointer p) document = jl_pointer J p document"

record extract_json =
  ej_origin_column :: string
  ej_path :: json_path
  ej_target_column :: string
  ej_overwrite :: bool
  ej_exclusive :: bool

definition split_once :: "char \<Rightarrow> string \<Rightarrow> (string \<times> string) option" where
  "split_once c s =
     (if c \<in> set s then Some (takeWhile (\<lambda>x. x \<noteq> c) s, tl (dropWhile (\<lambda>x. x \<noteq> c) s)) else None)"

definition load_extract_json :: "effective_config \<Rightarrow> extract_json" where
  "load_extract_json config =
     (let mapping = or_default [] (trimmed_property config EXTRACT_JSON_PROPERTY_MAPPING);
          (path, target_column) = (case split_once (CHR '':'') mapping of
              Some (field, column) \<Rightarrow> (trim field, trim column)
            | None \<Rightarrow> (mapping, mapping)) in
      \<lparr>ej_origin_column = or_default [] (trimmed_property config EXTRACT_JSON_ORIGIN_COLUMN),
       ej_path = parse_json_path path, ej_target_column = target_column,
       ej_overwrite = boolean_property config EXTRACT_JSON_OVERWRITE False,
       ej_exclusive = boolean_property config EXTRACT_JSON_EXCLUSIVE False\<rparr>)"

definition extract_json_is_enabled :: "extract_json \<Rightarrow> bool" where
  "extract_json_is_enabled x \<longleftrightarrow> ej_origin_column x \<noteq> [] \<and> ej_target_column x \<noteq> []"

definition validate_extract_json :: "extract_json \<Rightarrow> feature_schema \<Rightarrow> diagnostic list" where
  "validate_extract_json x schema =
     (let configured = of_bool (ej_origin_column x \<noteq> []) + (of_bool (ej_target_column x \<noteq> []) :: nat) in
      if configured = 0 then []
      else if configured = 1
      then [with_rule ''FEA-030'' (config_error ''extract JSON requires both an origin column and a property mapping, or neither'')]
      else
        (case facts_column (fs_origin schema) (ej_origin_column x) of
           None \<Rightarrow> [with_rule ''FEA-030'' (schema_error (''extract-JSON origin column `'' @ ej_origin_column x
                     @ ''` is not on the origin table '' @ show_table (tf_table (fs_origin schema))))]
         | Some column \<Rightarrow>
             if cf_type column \<noteq> TPrim Text \<and> cf_type column \<noteq> TPrim Ascii
             then [with_rule ''FEA-030'' (schema_error (''extract-JSON origin column `'' @ ej_origin_column x @ ''` is ''
                     @ show_type (cf_type column) @ '', not a text column''))]
             else [])
        @ (if facts_column (fs_target schema) (ej_target_column x) = None
           then [with_rule ''FEA-031'' (schema_error (''extract-JSON target column `'' @ ej_target_column x
                   @ ''` is not on the target table '' @ show_table (tf_table (fs_target schema))))]
           else []))"

definition exclusive_columns :: "extract_json \<Rightarrow> string \<Rightarrow> table_facts \<Rightarrow> string list" where
  "exclusive_columns x kept t =
     (if \<not> ej_exclusive x \<or> \<not> extract_json_is_enabled x then map cf_name (tf_columns t)
      else map cf_name (filter (\<lambda>c. cf_key c \<or> cf_name c = kept) (tf_columns t)))"

definition exclusive_target_columns :: "extract_json \<Rightarrow> table_facts \<Rightarrow> string list" where
  "exclusive_target_columns x target = exclusive_columns x (ej_target_column x) target"

definition exclusive_origin_columns :: "extract_json \<Rightarrow> table_facts \<Rightarrow> string list" where
  "exclusive_origin_columns x origin = exclusive_columns x (ej_origin_column x) origin"

subsection \<open>The plan\<close>

record extract_json_plan =
  xp_origin_index :: usize
  xp_path :: json_path
  xp_target_column :: string
  xp_target_type :: cql_type_info
  xp_overwrite :: bool

definition extract_missing :: "string \<Rightarrow> table_facts \<Rightarrow> cdm_error" where
  "extract_missing column t = with_context (with_column column) (new_error SchemaMismatch
     (''extract-JSON column `'' @ column @ ''` is not on table '' @ show_table (tf_table t)))"

definition resolve_extract_json :: "extract_json \<Rightarrow> feature_schema \<Rightarrow> extract_json_plan result" where
  "resolve_extract_json x schema =
     bindR (ok_or (facts_index_of (fs_origin schema) (ej_origin_column x)) (extract_missing (ej_origin_column x) (fs_origin schema))) (\<lambda>index.
     bindR (ok_or (facts_column (fs_target schema) (ej_target_column x)) (extract_missing (ej_target_column x) (fs_target schema))) (\<lambda>target.
       Inr \<lparr>xp_origin_index = index, xp_path = ej_path x, xp_target_column = ej_target_column x,
            xp_target_type = cf_type target, xp_overwrite = ej_overwrite x\<rparr>))"

definition extract_cell :: "json_lib \<Rightarrow> extract_json_plan \<Rightarrow> raw_cell \<Rightarrow> raw_cell option result" where
  "extract_cell J p cell =
     (case cell_bytes cell of
        None \<Rightarrow> Inr None
      | Some bs \<Rightarrow>
          (case utf8_error_at 0 (map unat bs) of
             Some e \<Rightarrow> Inl (with_source (show_utf8_error e) (with_context (with_column (xp_target_column p))
                       (new_error TypeConversion ''extract-JSON origin column is not valid UTF-8 text'')))
           | None \<Rightarrow>
               if utf8_trim (map unat bs) = [] then Inr None
               else case jl_parse J (map unat bs) of
                 Inl e \<Rightarrow> Inl (with_context (with_column (xp_target_column p)) (new_error TypeConversion
                     (''extract-JSON origin column does not contain a JSON document: '' @ classify_as_str (jr_category e)
                      @ '' at line '' @ show_nat (jr_line e) @ '', column '' @ show_nat (jr_column e))))
               | Inr document \<Rightarrow>
                   (case resolve_json_path J (xp_path p) document of
                      None \<Rightarrow> Inr None
                    | Some v \<Rightarrow> bindR (encode_json J v (xp_target_type p)) (\<lambda>c. Inr (Some c)))))"

definition extract_record :: "json_lib \<Rightarrow> extract_json_plan \<Rightarrow> cdm_record \<Rightarrow> raw_cell option result" where
  "extract_record J p record =
     bindR (origin_cell record (xp_origin_index p)) (\<lambda>cell.
       map_err (with_context (with_primary_key (rec_key record))) (extract_cell J p cell))"

definition writes_over :: "extract_json_plan \<Rightarrow> raw_cell option \<Rightarrow> bool" where
  "writes_over p current =
     (xp_overwrite p \<or> (case current of None \<Rightarrow> True | Some cell \<Rightarrow> cell_is_null cell))"

subsection \<open>What is extracted\<close>

lemma encoded_json_conforms:
  assumes "lib_ok (jl_literals J)" "encode_json J v ty = Inr (RawCell (Some bs))"
  shows "conforms ty bs"
  using assms(2) encode_scalar_conforms [OF assms(1)]
  by (auto simp: encode_json_def encode_scalar_def new_cell_def NULL_cell_def Let_def bindR_Inr_iff split: json.splits if_splits)

text \<open>
  Claim C24. What is extracted from a document is a value of the target column: whenever extraction from a record
  yields bytes, they are a well-framed value of the column's type; a null or blank document, and a
  document without the property, yield nothing, which is different from a property that is null.
\<close>

theorem extracted_value_conforms:
  assumes "lib_ok (jl_literals J)" "resolve_extract_json x schema = Inr p" "extract_record J p record = Inr r"
    and "facts_column (fs_target schema) (ej_target_column x) = Some column"
    and "row_get (rec_origin record) (xp_origin_index p) = Some cell"
  shows "(\<forall>bs. r = Some (RawCell (Some bs)) \<longrightarrow> conforms (cf_type column) bs)
    \<and> (r = None \<longleftrightarrow> cell_is_null cell \<or> (\<exists>bs. cell = RawCell (Some bs) \<and> (utf8_trim (map unat bs) = []
         \<or> (\<exists>document. jl_parse J (map unat bs) = Inr document \<and> resolve_json_path J (ej_path x) document = None))))"
proof -
  have p: "xp_target_type p = cf_type column" "xp_path p = ej_path x"
    using assms(2,4) by (auto simp: resolve_extract_json_def bindR_Inr_iff)
  have c: "extract_cell J p cell = Inr r"
    using assms(3,5) by (auto simp: extract_record_def origin_cell_def bindR_Inr_iff)
  have "conforms (cf_type column) bs" if "r = Some (RawCell (Some bs))" for bs
    using c that encoded_json_conforms [OF assms(1)]
    by (auto simp: extract_cell_def p bindR_Inr_iff split: option.splits if_splits sum.splits)
  moreover have "r = None \<longleftrightarrow> cell_is_null cell \<or> (\<exists>bs. cell = RawCell (Some bs) \<and> (utf8_trim (map unat bs) = []
         \<or> (\<exists>document. jl_parse J (map unat bs) = Inr document \<and> resolve_json_path J (ej_path x) document = None)))"
    using c by (cases cell) (auto simp: extract_cell_def cell_is_null_def p bindR_Inr_iff split: option.splits if_splits sum.splits)
  ultimately show ?thesis by blast
qed

lemma exclusive_keeps_key:
  "set (facts_primary_key t) \<subseteq> set (exclusive_columns x kept t)"
  by (auto simp: exclusive_columns_def facts_primary_key_def)

definition demo_json_lib :: json_lib where
  "demo_json_lib = \<lparr>jl_parse = \<lambda>_. Inr (JObject [(''n'', JNumber ''7'')]), jl_pointer = \<lambda>_ _. None, jl_render = \<lambda>_. [],
     jl_literals = plain_lib\<rparr>"

definition demo_json_schema :: feature_schema where
  "demo_json_schema = \<lparr>fs_origin = \<lparr>tf_table = TableRef ''ks'' ''o'', tf_columns = [\<lparr>cf_name = ''doc'', cf_type = TPrim Text, cf_key = False\<rparr>]\<rparr>,
     fs_target = \<lparr>tf_table = TableRef ''ks'' ''t'', tf_columns = [\<lparr>cf_name = ''n'', cf_type = TPrim CqlInt, cf_key = False\<rparr>]\<rparr>\<rparr>"

definition demo_extract :: extract_json where
  "demo_extract = \<lparr>ej_origin_column = ''doc'', ej_path = Field ''n'', ej_target_column = ''n'', ej_overwrite = False, ej_exclusive = False\<rparr>"

definition demo_extract_plan :: extract_json_plan where
  "demo_extract_plan = \<lparr>xp_origin_index = 0, xp_path = Field ''n'', xp_target_column = ''n'', xp_target_type = TPrim CqlInt, xp_overwrite = False\<rparr>"

theorem extracted_value_conforms_witness:
  "extract_record demo_json_lib demo_extract_plan (new_record (PrimaryKey []) (Row [new_cell [123, 125]])) = Inr (Some (new_cell (be_bytes 4 7)))
   \<and> conforms (TPrim CqlInt) (be_bytes 4 7)"
proof -
  let ?r = "new_record (PrimaryKey []) (Row [new_cell [123, 125]])"
  have run: "extract_record demo_json_lib demo_extract_plan ?r = Inr (Some (new_cell (be_bytes 4 7)))" by code_simp
  have pl: "resolve_extract_json demo_extract demo_json_schema = Inr demo_extract_plan"
    by (simp add: resolve_extract_json_def demo_extract_def demo_json_schema_def demo_extract_plan_def facts_index_of_def facts_column_def)
  have col: "facts_column (fs_target demo_json_schema) (ej_target_column demo_extract) = Some \<lparr>cf_name = ''n'', cf_type = TPrim CqlInt, cf_key = False\<rparr>"
    by (simp add: facts_column_def demo_json_schema_def demo_extract_def)
  have cell: "row_get (rec_origin ?r) (xp_origin_index demo_extract_plan) = Some (new_cell [123, 125])"
    by (simp add: row_get_def new_record_def demo_extract_plan_def)
  have "lib_ok (jl_literals demo_json_lib)" by (simp add: lib_ok_def plain_lib_def demo_json_lib_def)
  then show ?thesis using extracted_value_conforms [OF _ pl run col cell] run by (auto simp: new_cell_def)
qed

end
