(* ===== verification/Row_Stream.thy ===== *)
theory Row_Stream
  imports Core_Model
begin

text \<open>
  The streams a job reads a range from (the traits \<open>RowStream\<close> of \<open>crates/cdm-core/src/registry/plugin.rs\<close> and
  \<open>RowSizeStream\<close> of \<open>crates/cdm-engine/src/jobs/guardrail.rs\<close>): asked again and again, a stream returns its
  rows one at a time and then none. The locale is that contract, with the rows still to come as its
  ghost state; the paged scans of both jobs provide it.
\<close>

text \<open>What a caller collects from a stream, in at most the given number of calls; \<open>None\<close> is a call not answered.\<close>

fun drain_stream :: "('s \<Rightarrow> ('r option result \<times> 's) option) \<Rightarrow> nat \<Rightarrow> 's \<Rightarrow> 'r list result option" where
  "drain_stream nxt 0 s = None"
| "drain_stream nxt (Suc n) s =
     (case nxt s of
        None \<Rightarrow> None
      | Some (Inl e, _) \<Rightarrow> Some (Inl e)
      | Some (Inr None, _) \<Rightarrow> Some (Inr [])
      | Some (Inr (Some r), s') \<Rightarrow> map_option (map_sum id ((#) r)) (drain_stream nxt n s'))"

locale row_stream =
  fixes nxt :: "'s \<Rightarrow> ('r option result \<times> 's) option" and pending :: "'s \<Rightarrow> 'r list \<Rightarrow> bool"
  assumes next_row_pending: "pending s (r # rs) \<Longrightarrow> \<exists>s'. nxt s = Some (Inr (Some r), s') \<and> pending s' rs"
    and end_pending: "pending s [] \<Longrightarrow> \<exists>s'. nxt s = Some (Inr None, s')"
begin

lemma drain_pending: "pending s rs \<Longrightarrow> length rs < n \<Longrightarrow> drain_stream nxt n s = Some (Inr rs)"
proof (induction n arbitrary: s rs)
  case (Suc n)
  show ?case
  proof (cases rs)
    case Nil
    then show ?thesis using end_pending [of s] Suc.prems(1) by auto
  next
    case (Cons r rs')
    then obtain s' where "nxt s = Some (Inr (Some r), s')" "pending s' rs'" using next_row_pending [of s r rs'] Suc.prems(1) by auto
    then show ?thesis using Suc.IH [of s' rs'] Suc.prems(2) Cons by simp
  qed
qed simp

end

end
