(* ===== verification/Cql_Rows.thy ===== *)
theory Cql_Rows
  imports Cql_Bind Row_Stream
begin

text \<open>
  The Cassandra side of a validate run: \<open>crates/cdm-cql/src/rows.rs\<close>. A key plan derives the target primary key
  of an origin row, the row source turns the pages of a range scan into records, and the row sink looks a
  target row up by its key and writes corrections. The driver session is a parameter: what executing a
  statement returns, with its errors as the text they display.

  The lemmas show when the key a lookup uses is the key the migration wrote, that substituting null key
  cells does not change what a row is written as, and that a scan yields every row of every page once.
\<close>

subsection \<open>The target key\<close>

datatype partitioner_token = MurmurToken | RandomToken

fun token_bound_of :: "partitioner_token \<Rightarrow> i128 \<Rightarrow> token_bound" where
  "token_bound_of MurmurToken token = Murmur3Bound (if in_i64 token then token else i64_min)"
| "token_bound_of RandomToken token = RandomBound token"

datatype target_key_slot = KeyOrigin usize | KeyExplodeKey | KeyExplodeValue

record exploded_key_parts =
  kp_key :: "byte list option"
  kp_value :: "byte list option"

definition no_parts :: exploded_key_parts where
  "no_parts = \<lparr>kp_key = None, kp_value = None\<rparr>"

record key_substitute =
  ks_value :: raw_cell
  ks_mirror :: bool

record target_key_plan =
  tkp_slots :: "target_key_slot list"
  tkp_substitutes :: "key_substitute option list"

definition readers_of :: "column_mapping \<Rightarrow> usize \<Rightarrow> usize list" where
  "readers_of m origin_index =
     filter (\<lambda>i. mapping_source m i = Some (FromOrigin origin_index)) [0..<length (cmap_target m)]"

definition substitute_for :: "column_mapping \<Rightarrow> string \<Rightarrow> usize \<Rightarrow> missing_key_policy \<Rightarrow> key_substitute option result" where
  "substitute_for m column origin_index missing_key =
     (case List.find (named column) (cmap_target m) of
        None \<Rightarrow> Inr None
      | Some target_column \<Rightarrow>
          bindR (parse_column_type target_column Target) (\<lambda>target_type.
          case substitute missing_key target_type of
            None \<Rightarrow> Inr None
          | Some v \<Rightarrow>
              bindR (case list_get (cmap_origin m) origin_index of
                       None \<Rightarrow> Inr False
                     | Some meta \<Rightarrow> bindR (parse_column_type meta Origin) (\<lambda>origin_type. Inr (origin_type = target_type)))
                (\<lambda>same.
                  Inr (Some \<lparr>ks_value = new_cell v, ks_mirror = (same \<and> length (readers_of m origin_index) = 1)\<rparr>))))"

definition inadmissible_source :: "target_source option \<Rightarrow> string" where
  "inadmissible_source source =
     (case source of
        Some (ExtractJson _) \<Rightarrow> ''an extracted JSON property''
      | Some (Constant _) \<Rightarrow> ''a constant, which carries no bind marker''
      | _ \<Rightarrow> ''nothing'')"

definition key_slot_of :: "column_mapping \<Rightarrow> missing_key_policy \<Rightarrow> string \<Rightarrow> (target_key_slot \<times> key_substitute option) result" where
  "key_slot_of m missing_key column =
     (case source_of m column of
        Some (FromOrigin index) \<Rightarrow>
          bindR (substitute_for m column index missing_key) (\<lambda>s. Inr (KeyOrigin index, s))
      | Some ExplodeKey \<Rightarrow> Inr (KeyExplodeKey, None)
      | Some ExplodeValue \<Rightarrow> Inr (KeyExplodeValue, None)
      | other \<Rightarrow> Inl (on_target_column column (new_error SchemaMismatch
          (''the target primary-key column `'' @ column @ ''` is supplied by '' @ inadmissible_source other
           @ '', which `SCH-006` does not admit as a source for a target primary key: a component must come from a mapped origin column, a constant column or an exploded map entry (SCH-006).''))))"

definition resolve_target_key_plan :: "column_mapping \<Rightarrow> target_select \<Rightarrow> missing_key_policy \<Rightarrow> target_key_plan result" where
  "resolve_target_key_plan m sel missing_key =
     bindR (collectR (key_slot_of m missing_key) (tsel_bound_key_columns sel)) (\<lambda>slots.
       Inr \<lparr>tkp_slots = map fst slots, tkp_substitutes = map snd slots\<rparr>)"

definition key_plan_explodes :: "target_key_plan \<Rightarrow> bool" where
  "key_plan_explodes p = list_ex (\<lambda>s. case s of KeyOrigin _ \<Rightarrow> False | _ \<Rightarrow> True) (tkp_slots p)"

definition slot_substitute :: "target_key_plan \<Rightarrow> usize \<Rightarrow> key_substitute option" where
  "slot_substitute p k = (case list_get (tkp_substitutes p) k of Some s \<Rightarrow> s | None \<Rightarrow> None)"

definition substitute_at :: "target_key_plan \<Rightarrow> usize \<Rightarrow> raw_cell option" where
  "substitute_at p k = map_option ks_value (slot_substitute p k)"

definition key_component :: "target_key_plan \<Rightarrow> row \<Rightarrow> exploded_key_parts \<Rightarrow> usize \<times> target_key_slot \<Rightarrow> raw_cell" where
  "key_component p r entry s =
     (case snd s of
        KeyOrigin index \<Rightarrow>
          (let cell = (case row_get r index of Some c \<Rightarrow> c | None \<Rightarrow> NULL_cell) in
           if cell_is_null cell then (case substitute_at p (fst s) of Some c \<Rightarrow> c | None \<Rightarrow> cell) else cell)
      | KeyExplodeKey \<Rightarrow> RawCell (kp_key entry)
      | KeyExplodeValue \<Rightarrow> RawCell (kp_value entry))"

definition key_of :: "target_key_plan \<Rightarrow> row \<Rightarrow> exploded_key_parts \<Rightarrow> primary_key" where
  "key_of p r entry = PrimaryKey (map (key_component p r entry) (enumerate 0 (tkp_slots p)))"

text \<open>One turn of the loop in \<open>substituted\<close>; the cells are copied when the first null is replaced.\<close>

definition null_at :: "row \<Rightarrow> usize \<Rightarrow> bool" where
  "null_at r index = (case row_get r index of Some c \<Rightarrow> cell_is_null c | None \<Rightarrow> True)"

definition substitute_step :: "target_key_plan \<Rightarrow> row \<Rightarrow> usize \<times> target_key_slot \<Rightarrow> raw_cell list option \<Rightarrow> raw_cell list option" where
  "substitute_step p r s cells =
     (case snd s of
        KeyOrigin index \<Rightarrow>
          (if \<not> null_at r index then cells
           else case slot_substitute p (fst s) of
             None \<Rightarrow> cells
           | Some sub \<Rightarrow>
               if \<not> ks_mirror sub then cells
               else Some ((case cells of Some cs \<Rightarrow> cs | None \<Rightarrow> row_cells r)[index := ks_value sub]))
      | _ \<Rightarrow> cells)"

definition substituted :: "target_key_plan \<Rightarrow> row \<Rightarrow> row option" where
  "substituted p r = map_option Row (fold (substitute_step p r) (enumerate 0 (tkp_slots p)) None)"

subsection \<open>The row source\<close>

text \<open>\<open>RawBinds::serialize\<close>: the raw values, one per marker; a value the writer refuses is an error.\<close>

definition serialize_raw_binds :: "(byte list \<Rightarrow> bool) \<Rightarrow> usize \<Rightarrow> byte list list \<Rightarrow> serialize_error + byte list list" where
  "serialize_raw_binds cell_fits expected values =
     (if expected \<noteq> length values then Inl (ArityError expected (length values))
      else collectR (\<lambda>v. if cell_fits v then Inr v else Inl ValueTooLarge) values)"

definition rows_read_error :: "side \<Rightarrow> string \<Rightarrow> string \<Rightarrow> cdm_error" where
  "rows_read_error sd statement msg = with_context (with_side sd)
     (new_error Read (''the '' @ side_as_str sd @ '' read failed: '' @ msg @ '' (statement: '' @ statement @ '')''))"

definition substituted_row :: "target_key_plan \<Rightarrow> row \<Rightarrow> row" where
  "substituted_row p r = (case substituted p r of Some r' \<Rightarrow> r' | None \<Rightarrow> r)"

definition record_of_row :: "target_key_plan \<Rightarrow> row \<Rightarrow> cdm_record" where
  "record_of_row p r = (let o_row = substituted_row p r in new_record (key_of p o_row no_parts) o_row)"

definition open_bounds :: "partitioner_token \<Rightarrow> token_range \<Rightarrow> byte list list" where
  "open_bounds kind r = [serialized (token_bound_of kind (tr_min r)), serialized (token_bound_of kind (tr_max r))]"

text \<open>
  What the driver answers for one page: an error, or the rows it decodes in order and whether a further
  page follows. A pager is asked for records until it has none; \<open>None\<close> is a request the driver has not
  answered.
\<close>

type_synonym page_answer = "string + ((string + row) list \<times> bool)"

record range_pager =
  pg_paging :: bool
  pg_buffer :: "cdm_record list"

definition open_pager :: range_pager where
  "open_pager = \<lparr>pg_paging = True, pg_buffer = []\<rparr>"

fun buffer_rows :: "target_key_plan \<Rightarrow> (string + row) list \<Rightarrow> cdm_record list \<Rightarrow> string option \<times> cdm_record list" where
  "buffer_rows p [] buf = (None, buf)"
| "buffer_rows p (Inl msg # rows) buf = (Some msg, buf)"
| "buffer_rows p (Inr r # rows) buf = buffer_rows p rows (buf @ [record_of_row p r])"

fun next_record :: "target_key_plan \<Rightarrow> string \<Rightarrow> page_answer list \<Rightarrow> range_pager
     \<Rightarrow> (cdm_record option result \<times> range_pager \<times> page_answer list) option" where
  "next_record p statement answers pg =
     (case pg_buffer pg of
        record # buf \<Rightarrow> Some (Inr (Some record), pg\<lparr>pg_buffer := buf\<rparr>, answers)
      | [] \<Rightarrow>
          if \<not> pg_paging pg then Some (Inr None, pg, answers)
          else case answers of
            [] \<Rightarrow> None
          | Inl msg # answers' \<Rightarrow> Some (Inl (rows_read_error Origin statement msg), pg\<lparr>pg_paging := False\<rparr>, answers')
          | Inr (rows, more_pages) # answers' \<Rightarrow>
              (case buffer_rows p rows [] of
                 (Some msg, buf) \<Rightarrow> Some (Inl (rows_read_error Origin statement msg), \<lparr>pg_paging = False, pg_buffer = buf\<rparr>, answers')
               | (None, buf) \<Rightarrow> next_record p statement answers' \<lparr>pg_paging = more_pages, pg_buffer = buf\<rparr>))"

declare next_record.simps [simp del]

subsection \<open>The row sink\<close>

record sink_counter =
  sc_origin :: usize
  sc_target :: usize

record row_timestamps =
  rt_ttl :: "row \<Rightarrow> i32 option result"
  rt_writetime :: "row \<Rightarrow> i64 option result"

record row_sink =
  sk_select :: string
  sk_binder :: row_binder
  sk_counters :: "sink_counter list"
  sk_timestamps :: "row_timestamps option"

definition sink_counter_at :: "column_mapping \<Rightarrow> usize \<Rightarrow> sink_counter list" where
  "sink_counter_at m target_index =
     (let column = cmap_target m ! target_index in
      if eq_ignore_ascii_case (cm_type column) ''counter'' then
        (case source_of m (cm_name column) of
           Some (FromOrigin origin_index) \<Rightarrow> [\<lparr>sc_origin = origin_index, sc_target = target_index\<rparr>]
         | _ \<Rightarrow> [])
      else [])"

definition new_sink :: "string \<Rightarrow> row_binder \<Rightarrow> column_mapping \<Rightarrow> row_timestamps option \<Rightarrow> row_sink" where
  "new_sink select b m timestamps =
     \<lparr>sk_select = select, sk_binder = b,
      sk_counters = (if tu_counter (bd_statement b)
                     then concat (map (sink_counter_at m) [0..<length (cmap_target m)]) else []),
      sk_timestamps = timestamps\<rparr>"

definition cell_counter_value :: "raw_cell \<Rightarrow> i64 option" where
  "cell_counter_value cell =
     (case cell_bytes cell of
        None \<Rightarrow> None
      | Some bs \<Rightarrow> if length bs = 8 then Some (be_value bs) else None)"

definition value_or_zero :: "raw_cell option \<Rightarrow> i64" where
  "value_or_zero cell =
     (case cell of None \<Rightarrow> 0 | Some c \<Rightarrow> (case cell_counter_value c of None \<Rightarrow> 0 | Some v \<Rightarrow> v))"

definition saturating_sub_i64 :: "i64 \<Rightarrow> i64 \<Rightarrow> i64" where
  "saturating_sub_i64 a b = max i64_min (min i64_max (a - b))"

definition apply_delta :: "row \<Rightarrow> sink_counter \<Rightarrow> raw_cell list \<Rightarrow> raw_cell list" where
  "apply_delta target counter cells =
     (let origin_value = value_or_zero (list_get cells (sc_origin counter));
          target_value = value_or_zero (row_get target (sc_target counter)) in
      cells[sc_origin counter := new_cell (be_bytes 8 (saturating_sub_i64 origin_value target_value))])"

definition sink_counter_deltas :: "row_sink \<Rightarrow> cdm_record \<Rightarrow> row option" where
  "sink_counter_deltas s record =
     (case rec_target record of
        None \<Rightarrow> None
      | Some target \<Rightarrow>
          if sk_counters s = [] then None
          else Some (Row (fold (apply_delta target) (sk_counters s) (row_cells (rec_origin record)))))"

definition timestamps_of :: "row_timestamps option \<Rightarrow> row \<Rightarrow> (i32 option \<times> i64 option) result" where
  "timestamps_of plan_opt r =
     (case plan_opt of
        None \<Rightarrow> Inr (None, None)
      | Some pl \<Rightarrow>
          bindR (rt_ttl pl r) (\<lambda>ttl. bindR (rt_writetime pl r) (\<lambda>writetime. Inr (ttl, writetime))))"

definition sink_inputs :: "cdm_record \<Rightarrow> i32 option \<Rightarrow> i64 option \<Rightarrow> bind_inputs" where
  "sink_inputs record ttl writetime =
     \<lparr>bi_ttl = ttl, bi_writetime = writetime,
      bi_explode_key = (case rec_exploded record of Some e \<Rightarrow> cell_bytes (entry_key e) | None \<Rightarrow> None),
      bi_explode_value = (case rec_exploded record of Some e \<Rightarrow> cell_bytes (entry_value e) | None \<Rightarrow> None),
      bi_extracted_json = None, bi_key = Some (rec_key record)\<rparr>"

text \<open>What a correction binds, and the write of it; \<open>execute\<close> is the driver, its error as displayed.\<close>

definition sink_bind :: "row_sink \<Rightarrow> cdm_record \<Rightarrow> bound result" where
  "sink_bind s record =
     (let source = (case sink_counter_deltas s record of Some r \<Rightarrow> r | None \<Rightarrow> rec_origin record) in
      bindR (timestamps_of (sk_timestamps s) (rec_origin record)) (\<lambda>(ttl, writetime).
        map_err failure_error (bind_row (sk_binder s) (source_cell source) (sink_inputs record ttl writetime))))"

definition sink_write :: "(bound_value list \<Rightarrow> string + unit) \<Rightarrow> row_sink \<Rightarrow> cdm_record \<Rightarrow> unit result" where
  "sink_write execute s record =
     bindR (sink_bind s record) (\<lambda>b.
       map_err (\<lambda>msg. with_context (\<lambda>c. with_primary_key (rec_key record) (with_side Target c))
           (new_error Write (''the target upsert failed: '' @ msg)))
         (execute (bound_values b)))"

definition sink_flush :: "row_sink \<Rightarrow> unit result" where
  "sink_flush s = Inr ()"

definition sink_fetch :: "(byte list list \<Rightarrow> string + (string + row) list) \<Rightarrow> row_sink \<Rightarrow> primary_key \<Rightarrow> cdm_record option result" where
  "sink_fetch execute s key =
     (if list_ex cell_is_null (key_values key) then Inr None
      else
        bindR (map_err (rows_read_error Target (sk_select s)) (execute (map (the \<circ> cell_bytes) (key_values key)))) (\<lambda>rows.
          case rows of
            [] \<Rightarrow> Inr None
          | r # _ \<Rightarrow> bindR (map_err (rows_read_error Target (sk_select s)) r) (\<lambda>cells. Inr (Some (new_record key cells)))))"

subsection \<open>The key a row is looked up by\<close>

lemma key_planD:
  assumes "resolve_target_key_plan m sel mk = Inr p"
  shows "length (tkp_slots p) = length (tsel_bound_key_columns sel)"
    "j < length (tkp_slots p) \<Longrightarrow>
       key_slot_of m mk (tsel_bound_key_columns sel ! j) = Inr (tkp_slots p ! j, slot_substitute p j)"
  using assms
  by (auto simp: resolve_target_key_plan_def bindR_Inr_iff collectR_Inr_iff list_all2_conv_all_nth slot_substitute_def
      list_get_def)

lemma key_slot_origin:
  assumes "key_slot_of m mk name = Inr (KeyOrigin index, sub)"
  shows "source_of m name = Some (FromOrigin index)" "substitute_for m name index mk = Inr sub"
  using assms by (auto simp: key_slot_of_def bindR_Inr_iff split: option.splits target_source.splits)

lemma find_at_position: "position_of (named name) cs = Some i \<Longrightarrow> List.find (named name) cs = Some (cs ! i)"
  by (force simp: position_of_def find_Some_iff)

text \<open>What the substitute of a key column says of the column bound there.\<close>

lemma substitute_forD:
  assumes "substitute_for m name index mk = Inr sub" "position_of (named name) (cmap_target m) = Some i"
    and "bind_column_of pn m i = Inr c" "cb_source c = FromOrigin index"
  shows "map_option ks_value sub = map_option new_cell (substitute mk (cb_type c))"
    "sub = Some s \<Longrightarrow> ks_mirror s \<Longrightarrow> length (readers_of m index) = 1 \<and> is_identity (cb_plan c)"
proof -
  note c = bind_column_ofD [OF assms(3)] and found = find_at_position [OF assms(2)]
  show "map_option ks_value sub = map_option new_cell (substitute mk (cb_type c))"
    using assms(1) c(4) found by (auto simp: substitute_for_def bindR_Inr_iff split: option.splits)
  show "length (readers_of m index) = 1 \<and> is_identity (cb_plan c)" if sub: "sub = Some s" "ks_mirror s"
  proof -
    obtain meta where meta: "list_get (cmap_origin m) index = Some meta" "parse_column_type meta Origin = Inr (cb_type c)"
      "length (readers_of m index) = 1"
      using assms(1) c(4) found sub by (auto simp: substitute_for_def bindR_Inr_iff split: option.splits)
    then have "cb_plan c = plan_types pn (cb_type c) (cb_type c)" using c(5) assms(4) by (simp add: bind_plan_def)
    then show ?thesis using meta(3) by (subst (asm) plan_types.simps) simp
  qed
qed

lemma bound_key_column:
  assumes "resolve_mapping o_table t_table options = Inr m" "distinct (map cm_name (ts_columns t_table))"
    and "target_select_by_pk m = Inr sel" "name \<in> set (tsel_bound_key_columns sel)"
  obtains i where "position_of (named name) (cmap_target m) = Some i" "kind_is_key (cm_kind (cmap_target m ! i))"
    "\<not> is_constant_at m i" "i < length (cmap_target m)" "source_of m name = mapping_source m i"
proof -
  note m = resolve_mappingD(1,2) [OF assms(1)]
  obtain terms where terms: "where_terms m (primary_key_columns t_table) = Inr (terms, tsel_bound_key_columns sel)"
    using selectD [OF assms(3)] m(2) by auto
  obtain s where s: "source_of m name = Some s" "is_bound s" using where_terms_bound [OF terms assms(4)] by blast
  obtain i where i: "position_of (named name) (cmap_target m) = Some i" "mapping_source m i = Some s"
    using s(1) by (auto simp: source_of_def split: option.splits)
  have "bound_names \<subseteq> cm_name ` set cs" if "where_terms m cs = Inr (ts, bs)" "bound_names = set bs" for cs ts bs bound_names
    using that
    by (induction cs arbitrary: ts bs bound_names)
      (force simp: Let_def bindR_Inr_iff split: option.splits target_source.splits if_splits)+
  then obtain c where c: "c \<in> set (primary_key_columns t_table)" "cm_name c = name" using terms assms(4) by blast
  then obtain j where j: "j < length (cmap_target m)" "cmap_target m ! j = c" "kind_is_key (cm_kind c)"
    using m(1) by (auto simp: primary_key_set in_set_conv_nth)
  then have "i = j" using position_of_distinct [of "cmap_target m" j] assms(2) m(1) c(2) i(1) by simp
  moreover have "\<not> is_constant_at m i" using i(2) s(2) by (auto simp: is_constant_at_def split: target_source.splits)
  ultimately show ?thesis using that i s(1) j by simp
qed

subsection \<open>Substituting null key cells\<close>

definition mirrored :: "target_key_plan \<Rightarrow> row \<Rightarrow> usize \<Rightarrow> raw_cell \<Rightarrow> bool" where
  "mirrored p r i c \<longleftrightarrow> null_at r i \<and> (\<exists>j s. j < length (tkp_slots p) \<and> tkp_slots p ! j = KeyOrigin i
     \<and> slot_substitute p j = Some s \<and> ks_mirror s \<and> c = ks_value s)"

definition cells_ok :: "target_key_plan \<Rightarrow> row \<Rightarrow> raw_cell list \<Rightarrow> bool" where
  "cells_ok p r cs \<longleftrightarrow> length cs = length (row_cells r)
     \<and> (\<forall>i < length cs. cs ! i = row_cells r ! i \<or> mirrored p r i (cs ! i))"

lemma cells_ok_row: "cells_ok p r (row_cells r)"
  by (simp add: cells_ok_def)

lemma cells_ok_update: "cells_ok p r cs \<Longrightarrow> mirrored p r i c \<Longrightarrow> cells_ok p r (cs[i := c])"
  by (cases "i < length cs") (auto simp: cells_ok_def nth_list_update list_update_beyond)

lemma substitute_step_ok:
  assumes "fst s < length (tkp_slots p)" "tkp_slots p ! fst s = snd s"
    and "\<And>cs. cells = Some cs \<Longrightarrow> cells_ok p r cs" "substitute_step p r s cells = Some cs"
  shows "cells_ok p r cs"
proof (cases "substitute_step p r s cells = cells")
  case False
  then obtain i sub where s: "snd s = KeyOrigin i" "null_at r i" "slot_substitute p (fst s) = Some sub" "ks_mirror sub"
    "cs = (case cells of Some cs \<Rightarrow> cs | None \<Rightarrow> row_cells r)[i := ks_value sub]"
    using assms(4) by (auto simp: substitute_step_def split: target_key_slot.splits option.splits if_splits)
  have "mirrored p r i (ks_value sub)" using s(1-4) assms(1,2) by (auto simp: mirrored_def)
  then show ?thesis using s(5) assms(3) cells_ok_row by (auto intro: cells_ok_update split: option.splits)
qed (use assms in simp)

lemma fold_substitute:
  assumes "\<And>s. s \<in> set ss \<Longrightarrow> fst s < length (tkp_slots p) \<and> tkp_slots p ! fst s = snd s"
    and "\<And>cs. cells = Some cs \<Longrightarrow> cells_ok p r cs" "fold (substitute_step p r) ss cells = Some cs"
  shows "cells_ok p r cs"
  using assms
proof (induction ss arbitrary: cells)
  case (Cons s ss)
  have "cells_ok p r cs'" if "substitute_step p r s cells = Some cs'" for cs'
    using substitute_step_ok [OF _ _ _ that] Cons.prems(1,2) by simp
  then show ?case using Cons.IH [of "substitute_step p r s cells"] Cons.prems(1,3) by simp
qed simp

lemma substituted_row_ok: "cells_ok p r (row_cells (substituted_row p r))"
proof (cases "fold (substitute_step p r) (enumerate 0 (tkp_slots p)) None")
  case (Some cs)
  have "cells_ok p r cs" by (rule fold_substitute [OF _ _ Some]) (simp_all add: in_set_enumerate_eq)
  then show ?thesis using Some by (simp add: substituted_row_def substituted_def)
qed (simp add: substituted_row_def substituted_def cells_ok_row)

lemma substituted_row_cells:
  "length (row_cells (substituted_row p r)) = length (row_cells r)"
  "i < length (row_cells r) \<Longrightarrow>
     row_cells (substituted_row p r) ! i = row_cells r ! i \<or> mirrored p r i (row_cells (substituted_row p r) ! i)"
  using substituted_row_ok [of p r] by (auto simp: cells_ok_def)

text \<open>A mirrored cell is read by one target column, so it is the substitute of every key slot that reads it.\<close>

lemma mirrored_column:
  assumes "resolve_mapping o_table t_table options = Inr m" "distinct (map cm_name (ts_columns t_table))"
    and "target_select_by_pk m = Inr sel" "resolve_target_key_plan m sel mk = Inr p"
    and "new_binder m up pn mk strip = Inr b" "mirrored p r index cell"
  obtains i v where "readers_of m index = [i]" "i < length (bd_columns b)" "cb_is_key (bd_columns b ! i)"
    "is_identity (cb_plan (bd_columns b ! i))" "substitute mk (cb_type (bd_columns b ! i)) = Some v" "cell = new_cell v"
proof -
  obtain j s where j: "j < length (tkp_slots p)" "tkp_slots p ! j = KeyOrigin index" "slot_substitute p j = Some s"
    "ks_mirror s" "cell = ks_value s"
    using assms(6) by (auto simp: mirrored_def)
  define name where "name = tsel_bound_key_columns sel ! j"
  have slot: "key_slot_of m mk name = Inr (KeyOrigin index, Some s)" using key_planD(2) [OF assms(4) j(1)] j by (simp add: name_def)
  note sub = key_slot_origin [OF slot]
  have "name \<in> set (tsel_bound_key_columns sel)" using j(1) key_planD(1) [OF assms(4)] by (simp add: name_def)
  then obtain i where i: "position_of (named name) (cmap_target m) = Some i" "kind_is_key (cm_kind (cmap_target m ! i))"
    "i < length (cmap_target m)" "source_of m name = mapping_source m i"
    using bound_key_column [OF assms(1-3)] by metis
  note b = new_binderD [OF assms(5)]
  note c = bind_column_ofD [OF b(5) [OF i(3)]]
  have src: "cb_source (bd_columns b ! i) = FromOrigin index" using c(3) sub(1) i(4) by simp
  note facts = substitute_forD [OF sub(2) i(1) b(5) [OF i(3)] src]
  have "i \<in> set (readers_of m index)" using i(3,4) sub(1) by (simp add: readers_of_def)
  then have "readers_of m index = [i]" using facts(2) [OF refl j(4)] by (auto simp: length_Suc_conv)
  moreover obtain v where "substitute mk (cb_type (bd_columns b ! i)) = Some v" "ks_value s = new_cell v"
    using facts(1) by (cases "substitute mk (cb_type (bd_columns b ! i))") auto
  ultimately show ?thesis
    using that [of i v] i c(2) b(2) facts(2) [OF refl j(4)] j(5) by simp
qed

lemma key_component_substituted:
  assumes "resolve_mapping o_table t_table options = Inr m" "distinct (map cm_name (ts_columns t_table))"
    and "target_select_by_pk m = Inr sel" "resolve_target_key_plan m sel mk = Inr p"
    and "new_binder m up pn mk strip = Inr b" "j < length (tkp_slots p)"
  shows "key_component p (substituted_row p r) parts (j, tkp_slots p ! j) = key_component p r parts (j, tkp_slots p ! j)"
proof (cases "tkp_slots p ! j")
  case (KeyOrigin index)
  define name where "name = tsel_bound_key_columns sel ! j"
  have slot: "key_slot_of m mk name = Inr (KeyOrigin index, slot_substitute p j)"
    using key_planD(2) [OF assms(4,6)] KeyOrigin by (simp add: name_def)
  note sub = key_slot_origin [OF slot]
  have "name \<in> set (tsel_bound_key_columns sel)" using assms(6) key_planD(1) [OF assms(4)] by (simp add: name_def)
  then obtain i where i: "position_of (named name) (cmap_target m) = Some i" "i < length (cmap_target m)"
    "source_of m name = mapping_source m i"
    using bound_key_column [OF assms(1-3)] by metis
  note b = new_binderD [OF assms(5)]
  have src: "cb_source (bd_columns b ! i) = FromOrigin index"
    using bind_column_ofD(3) [OF b(5) [OF i(2)]] sub(1) i(3) by simp
  have val: "substitute_at p j = map_option new_cell (substitute mk (cb_type (bd_columns b ! i)))"
    using substitute_forD(1) [OF sub(2) i(1) b(5) [OF i(2)] src] by (simp add: substitute_at_def)
  show ?thesis
  proof (cases "index < length (row_cells r)
      \<and> row_cells (substituted_row p r) ! index \<noteq> row_cells r ! index")
    case True
    then have mir: "mirrored p r index (row_cells (substituted_row p r) ! index)"
      using substituted_row_cells(2) [of index r p] by blast
    obtain i' v where v: "readers_of m index = [i']" "substitute mk (cb_type (bd_columns b ! i')) = Some v"
      "row_cells (substituted_row p r) ! index = new_cell v"
      using mirrored_column [OF assms(1-5) mir] by metis
    have "i \<in> set (readers_of m index)" using i sub(1) by (simp add: readers_of_def)
    then have "substitute_at p j = Some (new_cell v)" using v val by simp
    then show ?thesis
      using KeyOrigin True mir v(3) substituted_row_cells(1) [of p r]
      by (simp add: key_component_def Let_def row_get_def mirrored_def null_at_def cell_is_null_def new_cell_def)
  next
    case False
    then show ?thesis using KeyOrigin substituted_row_cells(1) [of p r] by (auto simp: key_component_def row_get_def)
  qed
qed (simp_all add: key_component_def)

text \<open>
  Replacing the null key cells of an origin row by their substitutes does not change what the row is written
  as: binding the row the source emits gives exactly what binding the row it read gives, errors included,
  for every target column (MIG-013).
\<close>

theorem substituted_row_binds_same:
  assumes "resolve_mapping o_table t_table options = Inr m" "distinct (map cm_name (ts_columns t_table))"
    and "target_select_by_pk m = Inr sel" "resolve_target_key_plan m sel mk = Inr p"
    and "new_binder m up pn mk strip = Inr b"
  shows "bind_row b (source_cell (rec_origin (record_of_row p r))) inputs = bind_row b (source_cell r) inputs"
proof -
  note b = new_binderD [OF assms(5)]
  have "bind_column b (bd_columns b ! q) (source_cell (substituted_row p r)) inputs
      = bind_column b (bd_columns b ! q) (source_cell r) inputs" if q: "q < length (bd_columns b)" for q
  proof (cases "\<exists>index. cb_source (bd_columns b ! q) = FromOrigin index \<and> index < length (row_cells r)
      \<and> row_cells (substituted_row p r) ! index \<noteq> row_cells r ! index")
    case True
    then obtain index where index: "cb_source (bd_columns b ! q) = FromOrigin index" "index < length (row_cells r)"
      and mir: "mirrored p r index (row_cells (substituted_row p r) ! index)"
      using substituted_row_cells(2) by blast
    obtain i v where v: "readers_of m index = [i]" "cb_is_key (bd_columns b ! i)" "is_identity (cb_plan (bd_columns b ! i))"
      "substitute mk (cb_type (bd_columns b ! i)) = Some v" "row_cells (substituted_row p r) ! index = new_cell v"
      using mirrored_column [OF assms mir] by metis
    have qm: "q < length (cmap_target m)" using q b(2) by simp
    note c = bind_column_ofD [OF b(5) [OF qm]]
    have "mapping_source m q = Some (FromOrigin index)" using c(3) index(1) by (auto split: option.splits)
    then have "q \<in> set (readers_of m index)" using qm by (simp add: readers_of_def)
    then have [simp]: "i = q" using v(1) by simp
    have prim: "\<not> is_java_collection (cb_type (bd_columns b ! q))" "\<not> is_map_type (cb_type (bd_columns b ! q))"
      using v(4) by (auto simp: substitute_def split: cql_type_info.splits)
    show ?thesis
      using index mir v substituted_row_cells(1) [of p r] prim c(6,7) b(3)
      by (simp add: bind_column_def raw_value_def source_cell_def row_get_def mirrored_def null_at_def cell_is_null_def
          new_cell_def convert_cell_def absent_value_def ok_or_def bindR_def map_err_def)
  next
    case False
    then have "source_cell (substituted_row p r) index = source_cell r index"
      if "cb_source (bd_columns b ! q) = FromOrigin index" for index
      using that substituted_row_cells(1) [of p r] by (auto simp: source_cell_def row_get_def)
    then have "raw_value (bd_columns b ! q) (source_cell (substituted_row p r)) inputs
        = raw_value (bd_columns b ! q) (source_cell r) inputs"
      by (simp add: raw_value_def split: target_source.split)
    then show ?thesis by (simp add: bind_column_def)
  qed
  then have "bind_at b (source_cell (substituted_row p r)) inputs k q = bind_at b (source_cell r) inputs k q" for k q
    by (simp add: bind_at_def list_get_def ok_or_def bindR_def)
  then have "bind_slot_value b (source_cell (substituted_row p r)) inputs = bind_slot_value b (source_cell r) inputs"
    by (intro ext) (simp add: bind_slot_value_def split: bind_slot.split)
  then show ?thesis by (simp add: bind_row_def record_of_row_def Let_def new_record_def)
qed

text \<open>
  Claim C13. When no key column is converted, validate looks a row up by the key the migration wrote it under: for
  every bound key column the component of the derived key is, byte for byte, what the write binds for
  that column, substituted nulls and exploded entries included (SCH-006, MIG-013, FEA-022).
\<close>

theorem validate_key_is_written_key:
  assumes "resolve_mapping o_table t_table options = Inr m" "distinct (map cm_name (ts_columns t_table))"
    and "target_select_by_pk m = Inr sel" "resolve_target_key_plan m sel mk = Inr p"
    and "new_upsert m u = Inr up" "new_binder m up pn mk False = Inr b" "bind_row b (source_cell r) inputs = Inr w"
    and "\<forall>c \<in> set (bd_columns b). cb_is_key c \<longrightarrow> is_identity (cb_plan c)"
    and "j < length (tsel_bound_key_columns sel)"
    and "entry = \<lparr>kp_key = bi_explode_key inputs, kp_value = bi_explode_value inputs\<rparr>"
    and "KeyExplodeKey \<in> set (tkp_slots p) \<longrightarrow> kp_key entry \<noteq> None"
    and "KeyExplodeValue \<in> set (tkp_slots p) \<longrightarrow> kp_value entry \<noteq> None"
  shows "\<exists>i k bs. cm_name (cmap_target m ! i) = tsel_bound_key_columns sel ! j \<and> bind_position up i = Some k
    \<and> bound_values w ! k = Value bs
    \<and> key_values (key_of p (substituted_row p r) entry) ! j = new_cell bs"
proof -
  define name where "name = tsel_bound_key_columns sel ! j"
  note m = resolve_mappingD(1,2) [OF assms(1)] and b = new_binderD [OF assms(6)]
  have j: "j < length (tkp_slots p)" using key_planD(1) [OF assms(4)] assms(9) by simp
  obtain i where i: "position_of (named name) (cmap_target m) = Some i" "kind_is_key (cm_kind (cmap_target m ! i))"
    "\<not> is_constant_at m i" "i < length (cmap_target m)" "source_of m name = mapping_source m i"
    using bound_key_column [OF assms(1-3), of name] assms(9) by (metis name_def nth_mem)
  obtain k where k: "bind_position up i = Some k" using position_exists [OF assms(1,2,5), of i] i m by auto
  define c where "c = bd_columns b ! i"
  note c = bind_column_ofD [OF b(5) [OF i(4)], folded c_def]
  have bound: "bind_column b c (source_cell r) inputs = Inr (bound_values w ! k)"
    using bound_at_position(3) [OF assms(7), of i k] k b(1) by (simp add: c_def)
  have key: "cb_is_key c" "is_identity (cb_plan c)" using c(2) i(2) assms(8) i(4) b(2) by (simp_all add: c_def)
  obtain bs where bs: "bound_values w ! k = Value bs" using key_never_unset [OF bound key(1)] by (cases "bound_values w ! k") auto
  have slot: "key_slot_of m mk name = Inr (tkp_slots p ! j, slot_substitute p j)"
    using key_planD(2) [OF assms(4) j] by (simp add: name_def)
  have "key_component p r entry (j, tkp_slots p ! j) = new_cell bs"
  proof (cases "tkp_slots p ! j")
    case (KeyOrigin index)
    note sub = key_slot_origin [OF slot [unfolded KeyOrigin]]
    have src: "cb_source c = FromOrigin index" using c(3) sub(1) i(5) by simp
    note val = substitute_forD(1) [OF sub(2) i(1) b(5) [OF i(4)] src [unfolded c_def], folded c_def]
    show ?thesis
      using bound bs key src val KeyOrigin b(3,4)
      by (auto simp: bind_column_def raw_value_def source_cell_def bindR_Inr_iff absent_value_def convert_cell_def ok_or_def
          map_err_def key_component_def substitute_at_def cell_is_null_def new_cell_def Let_def
          intro!: raw_cell.expand split: option.splits if_splits sum.splits)
  next
    case KeyExplodeKey
    have "source_of m name = Some ExplodeKey"
      using slot KeyExplodeKey by (auto simp: key_slot_of_def bindR_Inr_iff split: option.splits target_source.splits)
    then have "cb_source c = ExplodeKey" using c(3) i(5) by simp
    moreover have "bi_explode_key inputs \<noteq> None" using assms(10,11) KeyExplodeKey nth_mem [OF j] by auto
    ultimately show ?thesis using bound bs assms(10) KeyExplodeKey b(4)
      by (auto simp: bind_column_def raw_value_def bindR_Inr_iff key_component_def new_cell_def split: if_splits)
  next
    case KeyExplodeValue
    have "source_of m name = Some ExplodeValue"
      using slot KeyExplodeValue by (auto simp: key_slot_of_def bindR_Inr_iff split: option.splits target_source.splits)
    then have "cb_source c = ExplodeValue" using c(3) i(5) by simp
    moreover have "bi_explode_value inputs \<noteq> None" using assms(10,12) KeyExplodeValue nth_mem [OF j] by auto
    ultimately show ?thesis using bound bs assms(10) KeyExplodeValue b(4)
      by (auto simp: bind_column_def raw_value_def bindR_Inr_iff key_component_def new_cell_def split: if_splits)
  qed
  then show ?thesis
    using key_component_substituted [OF assms(1-4,6) j, of r entry] i(1) k bs j position_of_SomeD [OF i(1)]
    by (auto simp: key_of_def nth_enumerate_eq name_def named_def)
qed

text \<open>
  Claim C14. A converted key column is looked up unconverted: the derived key holds the origin's bytes where the write
  binds the converted ones, so a row migrated under a key whose type is converted is searched for under a
  key it was never written under.
\<close>

theorem converted_key_looked_up_unconverted:
  assumes "resolve_mapping o_table t_table options = Inr m" "distinct (map cm_name (ts_columns t_table))"
    and "target_select_by_pk m = Inr sel" "resolve_target_key_plan m sel mk = Inr p"
    and "new_upsert m u = Inr up" "new_binder m up pn mk False = Inr b" "bind_row b (source_cell r) inputs = Inr w"
    and "j < length (tsel_bound_key_columns sel)" "position_of (named (tsel_bound_key_columns sel ! j)) (cmap_target m) = Some i"
    and "mapping_source m i = Some (FromOrigin index)" "row_get r index = Some (new_cell bs)"
    and "convert_cell (bd_columns b ! i) bs = Inr out" "out \<noteq> bs"
  shows "\<exists>k. bind_position up i = Some k \<and> bound_values w ! k = Value out
    \<and> key_values (key_of p (substituted_row p r) entry) ! j = new_cell bs"
proof -
  define name where "name = tsel_bound_key_columns sel ! j"
  note m = resolve_mappingD(1,2) [OF assms(1)] and b = new_binderD [OF assms(6)]
  have j: "j < length (tkp_slots p)" using key_planD(1) [OF assms(4)] assms(8) by simp
  have i: "i < length (cmap_target m)" "source_of m name = Some (FromOrigin index)"
    using position_of_SomeD [OF assms(9)] assms(9,10) by (simp_all add: source_of_def name_def)
  obtain k where k: "bind_position up i = Some k"
    using position_exists [OF assms(1,2,5), of i] i m assms(10) by (auto simp: is_constant_at_def)
  note c = bind_column_ofD [OF b(5) [OF i(1)]]
  have bound: "bind_column b (bd_columns b ! i) (source_cell r) inputs = Inr (bound_values w ! k)"
    using bound_at_position(3) [OF assms(7), of i k] k b(1) by simp
  have kind: "kind_is_key (cm_kind (cmap_target m ! i))"
    using bound_key_column [OF assms(1-3), of name] assms(8,9) by (metis name_def nth_mem option.inject)
  have out: "bound_values w ! k = Value out"
    using bound key_never_unset [OF bound] kind c(2,3) assms(10-12) b(4)
    by (auto simp: bind_column_def raw_value_def source_cell_def new_cell_def bindR_Inr_iff map_err_def split: if_splits)
  have "key_slot_of m mk name = Inr (tkp_slots p ! j, slot_substitute p j)"
    using key_planD(2) [OF assms(4) j] by (simp add: name_def)
  then have "tkp_slots p ! j = KeyOrigin index" using i(2) by (auto simp: key_slot_of_def bindR_Inr_iff)
  then have "key_component p r entry (j, tkp_slots p ! j) = new_cell bs"
    using assms(11) by (simp add: key_component_def cell_is_null_def new_cell_def)
  then show ?thesis
    using key_component_substituted [OF assms(1-4,6) j, of r entry] k out j by (auto simp: key_of_def nth_enumerate_eq)
qed

subsection \<open>A scan yields every row\<close>

text \<open>The driver's answers to a scan that returns the given pages without an error.\<close>

fun page_answers :: "row list list \<Rightarrow> page_answer list" where
  "page_answers [] = []"
| "page_answers (rows # pages) = Inr (map Inr rows, pages \<noteq> []) # page_answers pages"

definition pager_next :: "target_key_plan \<Rightarrow> string \<Rightarrow> range_pager \<times> page_answer list
     \<Rightarrow> (cdm_record option result \<times> range_pager \<times> page_answer list) option" where
  "pager_next p statement s = next_record p statement (snd s) (fst s)"

definition pager_holds :: "target_key_plan \<Rightarrow> page_answer list \<Rightarrow> range_pager \<Rightarrow> cdm_record list \<Rightarrow> bool" where
  "pager_holds p answers pg records \<longleftrightarrow> (\<exists>pages. answers = page_answers pages \<and> pg_paging pg = (pages \<noteq> [])
     \<and> records = pg_buffer pg @ map (record_of_row p) (concat pages))"

lemma buffer_rows_ok: "buffer_rows p (map Inr rows) buf = (None, buf @ map (record_of_row p) rows)"
  by (induction rows arbitrary: buf) simp_all

lemma next_record_pages:
  assumes "pg_paging pg = (pages \<noteq> [])"
  shows "\<exists>pg' answers'. next_record p statement (page_answers pages) pg
      = Some (Inr (case pg_buffer pg @ map (record_of_row p) (concat pages) of [] \<Rightarrow> None | record # _ \<Rightarrow> Some record), pg', answers')
    \<and> pager_holds p answers' pg' (tl (pg_buffer pg @ map (record_of_row p) (concat pages)))"
  using assms
proof (induction pages arbitrary: pg)
  case Nil
  then show ?case
    by (subst next_record.simps) (auto simp: pager_holds_def split: list.split intro!: exI [of _ "[]"])
next
  case (Cons rows pages)
  note paging = Cons.prems and IH = Cons.IH
  show ?case
  proof (cases "pg_buffer pg")
    case Nil
    then show ?thesis
      using IH [of "\<lparr>pg_paging = (pages \<noteq> []), pg_buffer = map (record_of_row p) rows\<rparr>"] paging
      by (subst next_record.simps) (simp add: buffer_rows_ok)
  next
    case (Cons first buf)
    then show ?thesis
      using paging by (subst next_record.simps) (auto simp: pager_holds_def intro!: exI [of _ "rows # pages"])
  qed
qed

lemma pager_next_holds:
  assumes "pager_holds p (snd s) (fst s) records"
  shows "\<exists>s'. pager_next p statement s = Some (Inr (case records of [] \<Rightarrow> None | r # _ \<Rightarrow> Some r), s')
    \<and> pager_holds p (snd s') (fst s') (tl records)"
proof -
  obtain pages where pages: "snd s = page_answers pages" "pg_paging (fst s) = (pages \<noteq> [])"
    "records = pg_buffer (fst s) @ map (record_of_row p) (concat pages)"
    using assms by (auto simp: pager_holds_def)
  obtain pg' answers' where "next_record p statement (snd s) (fst s)
      = Some (Inr (case records of [] \<Rightarrow> None | r # _ \<Rightarrow> Some r), pg', answers')" "pager_holds p answers' pg' (tl records)"
    using next_record_pages [OF pages(2), of p statement] unfolding pages(1,3) by blast
  then show ?thesis by (auto simp: pager_next_def)
qed

interpretation pager: row_stream "pager_next p statement" "\<lambda>s. pager_holds p (snd s) (fst s)" for p statement
  by unfold_locales (use pager_next_holds in force)+

text \<open>
  The scan of a range returns every row of every page exactly once and in order, and then ends, whatever the
  sizes of the pages: an empty page in the middle does not end it and the last page is not read twice.
\<close>

theorem scan_yields_every_row:
  assumes "pages \<noteq> []" "length (concat pages) < n"
  shows "drain_stream (pager_next p statement) n (open_pager, page_answers pages)
    = Some (Inr (map (record_of_row p) (concat pages)))"
  using assms by (intro pager.drain_pending) (auto simp: pager_holds_def open_pager_def intro!: exI [of _ pages])

subsection \<open>Scans and keys end to end\<close>

definition users_table :: "string \<Rightarrow> table_schema" where
  "users_table ty = demo_table [demo_column ''id'' ty PartitionKey, demo_column ''name'' ''text'' Regular]"

definition users_mapping :: "string \<Rightarrow> string \<Rightarrow> column_mapping" where
  "users_mapping from_ty to_ty = \<lparr>cmap_origin = ts_columns (users_table from_ty), cmap_target = ts_columns (users_table to_ty),
     cmap_sources = [FromOrigin 0, FromOrigin 1], cmap_origin_table = users_table from_ty,
     cmap_target_table = users_table to_ty\<rparr>"

definition plain_options :: mapping_options where
  "plain_options = \<lparr>mo_rename = [], mo_skip = [], mo_constants = [], mo_explode_map = None, mo_extract_json = None\<rparr>"

definition users_upsert :: "string \<Rightarrow> string \<Rightarrow> target_upsert" where
  "users_upsert from_ty to_ty = upsert_insert (users_mapping from_ty to_ty) ttl_only"

definition users_select :: "string \<Rightarrow> string \<Rightarrow> target_select" where
  "users_select from_ty to_ty = (case target_select_by_pk (users_mapping from_ty to_ty) of Inr s \<Rightarrow> s)"

definition users_binder :: "string \<Rightarrow> string \<Rightarrow> row_binder" where
  "users_binder from_ty to_ty =
     (case new_binder (users_mapping from_ty to_ty) (users_upsert from_ty to_ty) widen_planner demo_policy False of Inr b \<Rightarrow> b)"

definition users_key_plan :: "string \<Rightarrow> string \<Rightarrow> target_key_plan" where
  "users_key_plan from_ty to_ty =
     (case resolve_target_key_plan (users_mapping from_ty to_ty) (users_select from_ty to_ty) demo_policy of Inr p \<Rightarrow> p)"

lemma is_ok_case: "is_ok x \<Longrightarrow> x = Inr (case x of Inr y \<Rightarrow> y)"
  by (auto simp: is_ok_def split: sum.splits)

lemma text_users:
  "resolve_mapping (users_table ''text'') (users_table ''text'') plain_options = Inr (users_mapping ''text'' ''text'')"
  "distinct (map cm_name (ts_columns (users_table ''text'')))"
  "target_select_by_pk (users_mapping ''text'' ''text'') = Inr (users_select ''text'' ''text'')"
  "resolve_target_key_plan (users_mapping ''text'' ''text'') (users_select ''text'' ''text'') demo_policy
     = Inr (users_key_plan ''text'' ''text'')"
  "new_upsert (users_mapping ''text'' ''text'') ttl_only = Inr (users_upsert ''text'' ''text'')"
  by code_simp+

lemma text_users_binder:
  "new_binder (users_mapping ''text'' ''text'') (users_upsert ''text'' ''text'') widen_planner demo_policy False
     = Inr (users_binder ''text'' ''text'')"
  unfolding users_binder_def by (rule is_ok_case) code_simp

definition nameless_row :: row where
  "nameless_row = Row [NULL_cell, new_cell [104]]"

theorem substituted_row_binds_same_witness:
  "rec_origin (record_of_row (users_key_plan ''text'' ''text'') nameless_row) = Row [new_cell [], new_cell [104]]
   \<and> bind_row (users_binder ''text'' ''text'') (source_cell (rec_origin (record_of_row (users_key_plan ''text'' ''text'') nameless_row))) demo_inputs
     = bind_row (users_binder ''text'' ''text'') (source_cell nameless_row) demo_inputs"
proof
  show "rec_origin (record_of_row (users_key_plan ''text'' ''text'') nameless_row) = Row [new_cell [], new_cell [104]]"
    by code_simp
qed (rule substituted_row_binds_same [OF text_users(1-4) text_users_binder])

theorem validate_key_is_written_key_witness:
  "\<exists>i k bs. cm_name (cmap_target (users_mapping ''text'' ''text'') ! i) = ''id''
     \<and> bind_position (users_upsert ''text'' ''text'') i = Some k \<and> [Value [], Value [104], Unset] ! k = Value bs
     \<and> key_values (key_of (users_key_plan ''text'' ''text'') (substituted_row (users_key_plan ''text'' ''text'') nameless_row) no_parts) ! 0
       = new_cell bs"
proof -
  have bound: "bind_row (users_binder ''text'' ''text'') (source_cell nameless_row) demo_inputs
      = Inr (IdempotentWrite [Value [], Value [104], Unset])" by code_simp
  have plans: "\<forall>c \<in> set (bd_columns (users_binder ''text'' ''text'')). cb_is_key c \<longrightarrow> is_identity (cb_plan c)" by code_simp
  have sel: "tsel_bound_key_columns (users_select ''text'' ''text'') = [''id'']"
    "tkp_slots (users_key_plan ''text'' ''text'') = [KeyOrigin 0]" by code_simp+
  have slots: "no_parts = \<lparr>kp_key = bi_explode_key demo_inputs, kp_value = bi_explode_value demo_inputs\<rparr>"
    "KeyExplodeKey \<in> set (tkp_slots (users_key_plan ''text'' ''text'')) \<longrightarrow> kp_key no_parts \<noteq> None"
    "KeyExplodeValue \<in> set (tkp_slots (users_key_plan ''text'' ''text'')) \<longrightarrow> kp_value no_parts \<noteq> None"
    using sel(2) by (simp_all add: no_parts_def demo_inputs_def)
  show ?thesis
    using validate_key_is_written_key [OF text_users text_users_binder bound plans _ slots, of 0] sel(1) by simp
qed

text \<open>An \<open>int\<close> key migrated as a \<open>bigint\<close>: the row is written under eight bytes and looked up under four.\<close>

lemma widened_users:
  "resolve_mapping (users_table ''int'') (users_table ''bigint'') plain_options = Inr (users_mapping ''int'' ''bigint'')"
  "distinct (map cm_name (ts_columns (users_table ''bigint'')))"
  "target_select_by_pk (users_mapping ''int'' ''bigint'') = Inr (users_select ''int'' ''bigint'')"
  "resolve_target_key_plan (users_mapping ''int'' ''bigint'') (users_select ''int'' ''bigint'') demo_policy
     = Inr (users_key_plan ''int'' ''bigint'')"
  "new_upsert (users_mapping ''int'' ''bigint'') ttl_only = Inr (users_upsert ''int'' ''bigint'')"
  by code_simp+

lemma widened_users_binder:
  "new_binder (users_mapping ''int'' ''bigint'') (users_upsert ''int'' ''bigint'') widen_planner demo_policy False
     = Inr (users_binder ''int'' ''bigint'')"
  unfolding users_binder_def by (rule is_ok_case) code_simp

theorem converted_key_looked_up_unconverted_witness:
  "\<exists>k. bind_position (users_upsert ''int'' ''bigint'') 0 = Some k
     \<and> [Value [0, 0, 0, 0, 0, 0, 0, 7], Value [104], Unset] ! k = Value [0, 0, 0, 0, 0, 0, 0, 7]
     \<and> key_values (key_of (users_key_plan ''int'' ''bigint'') (substituted_row (users_key_plan ''int'' ''bigint'') demo_row) no_parts) ! 0
       = new_cell [0, 0, 0, 7]"
proof -
  have bound: "bind_row (users_binder ''int'' ''bigint'') (source_cell demo_row) demo_inputs
      = Inr (IdempotentWrite [Value [0, 0, 0, 0, 0, 0, 0, 7], Value [104], Unset])" by code_simp
  have sel: "0 < length (tsel_bound_key_columns (users_select ''int'' ''bigint''))"
    "position_of (named (tsel_bound_key_columns (users_select ''int'' ''bigint'') ! 0)) (cmap_target (users_mapping ''int'' ''bigint'')) = Some 0"
    "mapping_source (users_mapping ''int'' ''bigint'') 0 = Some (FromOrigin 0)" "row_get demo_row 0 = Some (new_cell [0, 0, 0, 7])"
    "convert_cell (bd_columns (users_binder ''int'' ''bigint'') ! 0) [0, 0, 0, 7] = Inr [0, 0, 0, 0, 0, 0, 0, 7]"
    by code_simp+
  show ?thesis
    using converted_key_looked_up_unconverted [OF widened_users widened_users_binder bound sel, of no_parts] by simp
qed

theorem scan_yields_every_row_witness:
  "drain_stream (pager_next (users_key_plan ''text'' ''text'') ''SELECT'') 5
     (open_pager, page_answers [[nameless_row], [], [demo_row, nameless_row]])
   = Some (Inr (map (record_of_row (users_key_plan ''text'' ''text'')) [nameless_row, demo_row, nameless_row]))"
  using scan_yields_every_row [of "[[nameless_row], [], [demo_row, nameless_row]]" 5] by simp

end
