(* ===== verification/Validate_Compare.thy ===== *)
theory Validate_Compare
  imports Feature_Json Cql_Rows
begin

text \<open>
  Comparing an origin record with the target row found for it:
  \<open>crates/cdm-engine/src/jobs/validate/compare.rs\<close>. Each target column has a rule that says what it is compared
  with and a conversion of the target's value into the origin's type; a comparison collects the columns
  that differ or cannot be compared.

  The lemmas show when a row is valid, that the rendered detail holds no value, and that a row which
  the migration has written validates.
\<close>

subsection \<open>The plan\<close>

definition REDACTED :: string where
  "REDACTED = ''<redacted>''"

datatype exploded_half = HalfKey | HalfValue

datatype compare_rule =
    RuleConstant
  | RuleMapped usize
  | RuleExtractJson
  | RuleUnsourced
  | RuleExploded exploded_half

fun half_cell :: "exploded_half \<Rightarrow> exploded_entry \<Rightarrow> raw_cell" where
  "half_cell HalfKey entry = entry_key entry"
| "half_cell HalfValue entry = entry_value entry"

fun half_unobtainable :: "exploded_half \<Rightarrow> string" where
  "half_unobtainable HalfKey = ''the explode-map key is not carried on the record''"
| "half_unobtainable HalfValue = ''the explode-map value is not carried on the record''"

record column_compare =
  cc_name :: string
  cc_target_index :: usize
  cc_rule :: compare_rule
  cc_plan :: conversion_plan

record comparison_plan =
  cp_columns :: "column_compare list"
  cp_extract_json :: "extract_json_plan option"
  cp_extract_json_overwrites :: bool
  cp_keys_only :: bool

definition compare_parse_type :: "column_meta \<Rightarrow> side \<Rightarrow> cql_type_info result" where
  "compare_parse_type column sd =
     map_err (\<lambda>e. with_context (\<lambda>c. with_column (cm_name column) (with_side sd c)) (new_error SchemaMismatch
         (''cannot parse the '' @ side_as_str sd @ '' type `'' @ cm_type column @ ''` of column `'' @ cm_name column
          @ ''` for comparison: '' @ show_error e)))
       (parse_cql_type (cm_type column))"

definition compare_rule_of :: "column_mapping \<Rightarrow> planner \<Rightarrow> cql_type_info \<Rightarrow> target_source \<Rightarrow> (compare_rule \<times> conversion_plan) result" where
  "compare_rule_of m pn target_type source =
     (case source of
        Constant _ \<Rightarrow> Inr (RuleConstant, PPassthrough)
      | FromOrigin origin_index \<Rightarrow>
          bindR (ok_or (list_get (cmap_origin m) origin_index) (new_error SchemaMismatch
              (''the column mapping refers to origin column '' @ show_nat origin_index
               @ '', but the origin projection has only '' @ show_nat (length (cmap_origin m)) @ '' columns''))) (\<lambda>origin_column.
          bindR (compare_parse_type origin_column Origin) (\<lambda>origin_type.
            Inr (RuleMapped origin_index, plan_types pn target_type origin_type)))
      | ExtractJson _ \<Rightarrow> Inr (RuleExtractJson, PPassthrough)
      | ExplodeKey \<Rightarrow> Inr (RuleExploded HalfKey, PPassthrough)
      | ExplodeValue \<Rightarrow> Inr (RuleExploded HalfValue, PPassthrough)
      | Absent \<Rightarrow> Inr (RuleUnsourced, PPassthrough))"

definition compare_column_of :: "column_mapping \<Rightarrow> planner \<Rightarrow> usize \<Rightarrow> column_compare result" where
  "compare_column_of m pn target_index =
     (let column = cmap_target m ! target_index;
          source = (case mapping_source m target_index of Some s \<Rightarrow> s | None \<Rightarrow> Absent) in
      bindR (compare_parse_type column Target) (\<lambda>target_type.
      bindR (compare_rule_of m pn target_type source) (\<lambda>(rule, pl).
        Inr \<lparr>cc_name = cm_name column, cc_target_index = target_index, cc_rule = rule, cc_plan = pl\<rparr>)))"

definition resolve_comparison ::
  "column_mapping \<Rightarrow> planner \<Rightarrow> extract_json_plan option \<Rightarrow> bool \<Rightarrow> comparison_plan result" where
  "resolve_comparison m pn extract overwrites =
     bindR (collectR (compare_column_of m pn) [0..<length (cmap_target m)]) (\<lambda>columns.
       Inr \<lparr>cp_columns = columns, cp_extract_json = extract, cp_extract_json_overwrites = overwrites, cp_keys_only = False\<rparr>)"

definition with_keys_only :: "bool \<Rightarrow> comparison_plan \<Rightarrow> comparison_plan" where
  "with_keys_only b p = p\<lparr>cp_keys_only := b\<rparr>"

subsection \<open>Differences\<close>

datatype difference_kind = DiffValue bool | DiffOriginNull | DiffError string usize i64

record column_difference =
  cd_column :: string
  cd_origin :: raw_cell
  cd_target :: raw_cell
  cd_kind :: difference_kind

datatype comparison = CompValid | CompMissing | CompMismatch "column_difference list"

definition is_discrepancy :: "comparison \<Rightarrow> bool" where
  "is_discrepancy c \<longleftrightarrow> c \<noteq> CompValid"

definition mismatch_columns :: "column_difference list \<Rightarrow> string list" where
  "mismatch_columns ds = map cd_column ds"

definition render_difference :: "column_difference \<Rightarrow> string" where
  "render_difference d =
     (case cd_kind d of
        DiffValue False \<Rightarrow> ''Target column:'' @ cd_column d @ ''-origin['' @ REDACTED @ '']-target['' @ REDACTED @ '']; ''
      | DiffValue True \<Rightarrow> ''Target column:'' @ cd_column d @ ''-origin['' @ REDACTED @ '']-target[null]; ''
      | DiffOriginNull \<Rightarrow> ''Target column:'' @ cd_column d @ '' origin is null, target is '' @ REDACTED @ ''; ''
      | DiffError message target_index origin_index \<Rightarrow>
          ''Target column:'' @ cd_column d @ '' Exception '' @ message @ '' targetIndex:'' @ show_nat target_index
          @ '' originIndex:'' @ show_int origin_index @ ''; '')"

definition mismatch_detail :: "column_difference list \<Rightarrow> string" where
  "mismatch_detail ds = concat (map render_difference ds)"

definition difference_error :: "column_difference \<Rightarrow> string option" where
  "difference_error d = (case cd_kind d of DiffError message _ _ \<Rightarrow> Some message | _ \<Rightarrow> None)"

definition cell_or_null :: "raw_cell option \<Rightarrow> raw_cell" where
  "cell_or_null v = (case v of Some c \<Rightarrow> c | None \<Rightarrow> NULL_cell)"

definition null_or_absent :: "raw_cell option \<Rightarrow> bool" where
  "null_or_absent v = (case v of None \<Rightarrow> True | Some c \<Rightarrow> cell_is_null c)"

definition difference :: "column_compare \<Rightarrow> raw_cell \<Rightarrow> raw_cell \<Rightarrow> difference_kind \<Rightarrow> column_difference" where
  "difference column o_cell t_cell kind = \<lparr>cd_column = cc_name column, cd_origin = o_cell, cd_target = t_cell, cd_kind = kind\<rparr>"

subsection \<open>Comparing\<close>

definition compare_values :: "column_compare \<Rightarrow> raw_cell option \<Rightarrow> raw_cell option \<Rightarrow> i64 \<Rightarrow> column_difference option" where
  "compare_values column o_cell t_cell origin_index =
     (if null_or_absent o_cell \<and> null_or_absent t_cell then None
      else if null_or_absent o_cell
      then Some (difference column NULL_cell (cell_or_null t_cell) DiffOriginNull)
      else case t_cell of
        None \<Rightarrow> Some (difference column (cell_or_null o_cell) NULL_cell (DiffValue True))
      | Some t \<Rightarrow>
          if cell_is_null t then Some (difference column (cell_or_null o_cell) NULL_cell (DiffValue True))
          else case (if is_identity (cc_plan column) then Inr t else apply_plan (cc_plan column) t) of
            Inl e \<Rightarrow> Some (difference column (cell_or_null o_cell) t (DiffError (show_error e) (cc_target_index column) origin_index))
          | Inr converted \<Rightarrow>
              if (case o_cell of Some c \<Rightarrow> cell_bytes c = cell_bytes converted | None \<Rightarrow> False) then None
              else Some (difference column (cell_or_null o_cell) t (DiffValue False)))"

text \<open>\<open>i64::try_from(index).unwrap_or(-1)\<close>.\<close>

definition index_i64 :: "usize \<Rightarrow> i64" where
  "index_i64 i = (if int i \<le> i64_max then int i else - 1)"

definition compare_extracted :: "json_lib \<Rightarrow> comparison_plan \<Rightarrow> column_compare \<Rightarrow> cdm_record \<Rightarrow> raw_cell option \<Rightarrow> column_difference option" where
  "compare_extracted J p column record t_cell =
     (if \<not> cp_extract_json_overwrites p \<and> \<not> null_or_absent t_cell then None
      else case cp_extract_json p of
        None \<Rightarrow> None
      | Some pl \<Rightarrow>
          (case extract_record J pl record of
             Inr extracted \<Rightarrow>
               compare_values column (Some (cell_or_null extracted)) t_cell (index_i64 (xp_origin_index pl))
           | Inl e \<Rightarrow> Some (difference column NULL_cell (cell_or_null t_cell)
               (DiffError (show_error e) (cc_target_index column) (index_i64 (xp_origin_index pl))))))"

definition compare_column :: "json_lib \<Rightarrow> comparison_plan \<Rightarrow> column_compare \<Rightarrow> cdm_record \<Rightarrow> row \<Rightarrow> column_difference option" where
  "compare_column J p column record target =
     (let t_cell = row_get target (cc_target_index column) in
      case cc_rule column of
        RuleConstant \<Rightarrow> None
      | RuleExploded half \<Rightarrow>
          (case rec_exploded record of
             Some entry \<Rightarrow> compare_values column (Some (half_cell half entry)) t_cell (- 1)
           | None \<Rightarrow> Some (difference column NULL_cell (cell_or_null t_cell)
               (DiffError (half_unobtainable half) (cc_target_index column) (- 1))))
      | RuleUnsourced \<Rightarrow> compare_values column None t_cell (- 1)
      | RuleMapped origin_index \<Rightarrow>
          (case row_get (rec_origin record) origin_index of
             None \<Rightarrow> Some (difference column NULL_cell (cell_or_null t_cell)
               (DiffError ''the origin row is narrower than the projection'' (cc_target_index column) (index_i64 origin_index)))
           | Some o_cell \<Rightarrow> compare_values column (Some o_cell) t_cell (index_i64 origin_index))
      | RuleExtractJson \<Rightarrow> compare_extracted J p column record t_cell)"

definition compare_row :: "json_lib \<Rightarrow> comparison_plan \<Rightarrow> cdm_record \<Rightarrow> row option \<Rightarrow> comparison" where
  "compare_row J p record target =
     (case target of
        None \<Rightarrow> CompMissing
      | Some t \<Rightarrow>
          if cp_keys_only p then CompValid
          else let ds = List.map_filter (\<lambda>column. compare_column J p column record t) (cp_columns p) in
            if ds = [] then CompValid else CompMismatch ds)"

subsection \<open>Columns of a plan\<close>

lemma resolve_comparisonD:
  assumes "resolve_comparison m pn extract overwrites = Inr cp"
  shows "length (cp_columns cp) = length (cmap_target m)" "cp_extract_json cp = extract"
    "cp_extract_json_overwrites cp = overwrites" "cp_keys_only cp = False"
    "i < length (cmap_target m) \<Longrightarrow> compare_column_of m pn i = Inr (cp_columns cp ! i)"
  using assms by (auto simp: resolve_comparison_def bindR_Inr_iff collectR_Inr_iff list_all2_conv_all_nth)

text \<open>The source a target column is compared with.\<close>

definition target_source_at :: "column_mapping \<Rightarrow> usize \<Rightarrow> target_source" where
  "target_source_at m i = (case mapping_source m i of Some s \<Rightarrow> s | None \<Rightarrow> Absent)"

lemma compare_column_ofD:
  assumes "compare_column_of m pn i = Inr c"
  shows "cc_name c = cm_name (cmap_target m ! i)" "cc_target_index c = i"
    "cc_rule c = (case target_source_at m i of Constant _ \<Rightarrow> RuleConstant | FromOrigin index \<Rightarrow> RuleMapped index
       | ExtractJson _ \<Rightarrow> RuleExtractJson | ExplodeKey \<Rightarrow> RuleExploded HalfKey | ExplodeValue \<Rightarrow> RuleExploded HalfValue
       | Absent \<Rightarrow> RuleUnsourced)"
    "(\<And>index. target_source_at m i \<noteq> FromOrigin index) \<Longrightarrow> is_identity (cc_plan c)"
  using assms unfolding compare_column_of_def Let_def target_source_at_def [symmetric]
  by (cases "target_source_at m i"; auto simp: compare_rule_of_def bindR_Inr_iff)+

text \<open>A row is valid when no column differs; a column that differs is in the mismatch.\<close>

lemma compare_row_valid:
  assumes "\<And>c. c \<in> set (cp_columns cp) \<Longrightarrow> compare_column J cp c record t = None"
  shows "compare_row J cp record (Some t) = CompValid"
  using assms by (simp add: compare_row_def map_filter_def filter_empty_conv Let_def)

lemma compare_row_differs:
  assumes "\<not> cp_keys_only cp" "c \<in> set (cp_columns cp)" "compare_column J cp c record t = Some d"
  obtains ds where "compare_row J cp record (Some t) = CompMismatch ds" "d \<in> set ds"
proof -
  define ds where "ds = List.map_filter (\<lambda>c. compare_column J cp c record t) (cp_columns cp)"
  have "d \<in> set ds" using assms(2,3) by (force simp: ds_def map_filter_def)
  moreover from this have "compare_row J cp record (Some t) = CompMismatch ds"
    using assms(1) by (auto simp: compare_row_def ds_def Let_def)
  ultimately show ?thesis using that by blast
qed

subsection \<open>A migrated row validates\<close>

text \<open>The target's value read back into the origin's type.\<close>

definition compare_back :: "column_compare \<Rightarrow> byte list \<Rightarrow> raw_cell result" where
  "compare_back c bs = (if is_identity (cc_plan c) then Inr (new_cell bs) else apply_plan (cc_plan c) (new_cell bs))"

lemma compare_values_written:
  assumes "\<And>bs. cell = RawCell (Some bs) \<Longrightarrow> \<exists>out. t = new_cell out \<and> compare_back c out = Inr (new_cell bs)"
    and "cell = RawCell None \<Longrightarrow> t = NULL_cell"
  shows "compare_values c (Some cell) (Some t) n = None"
proof (cases "cell_bytes cell")
  case None
  then show ?thesis using assms(2) by (cases cell) (simp add: compare_values_def null_or_absent_def cell_is_null_def NULL_cell_def)
next
  case (Some bs)
  then obtain out where "t = new_cell out" "compare_back c out = Inr (new_cell bs)" using assms(1) by (cases cell) auto
  then show ?thesis using Some
    by (auto simp: compare_values_def null_or_absent_def cell_is_null_def new_cell_def compare_back_def split: if_splits)
qed

text \<open>
  What binding makes of a column whose value is not a null key, not an empty collection and not stripped:
  null stays unset and bytes are bound as they are.
\<close>

lemma bound_cell:
  assumes "bind_column b c r inputs = Inr v" "raw_value c r inputs = Inr raw" "\<not> bd_map_remove_null_value b"
    and "raw = None \<Longrightarrow> \<not> cb_is_key c" "\<And>bs. raw = Some bs \<Longrightarrow> \<not> (cb_unset_when_empty c \<and> is_empty_collection bs)"
  shows "bound_bytes v = raw"
  using assms by (cases raw) (auto simp: bind_column_def bindR_Inr_iff absent_value_def)

lemma column_validates:
  assumes c: "bind_column_of pn m i = Inr c" and cc: "compare_column_of m pn i = Inr cc"
    and bound: "bind_column b c (source_cell (rec_origin record)) inputs = Inr v"
    and target: "row_get t i = Some (RawCell (bound_bytes v))" and strip: "\<not> bd_map_remove_null_value b"
    and key: "cb_is_key c \<Longrightarrow> raw_value c (source_cell (rec_origin record)) inputs \<noteq> Inr None"
    and empty: "\<And>bs. raw_value c (source_cell (rec_origin record)) inputs = Inr (Some bs)
      \<Longrightarrow> \<not> (cb_unset_when_empty c \<and> is_empty_collection bs)"
    and inverse: "\<And>index bs out. cb_source c = FromOrigin index \<Longrightarrow> row_get (rec_origin record) index = Some (new_cell bs)
      \<Longrightarrow> convert_cell c bs = Inr out \<Longrightarrow> compare_back cc out = Inr (new_cell bs)"
    and exploded: "cb_source c \<in> {ExplodeKey, ExplodeValue} \<Longrightarrow> \<exists>e. rec_exploded record = Some e
      \<and> bi_explode_key inputs = cell_bytes (entry_key e) \<and> bi_explode_value inputs = cell_bytes (entry_value e)"
    and extracted: "\<And>n pl. cb_source c = ExtractJson n \<Longrightarrow> cp_extract_json cp = Some pl \<Longrightarrow>
      \<exists>x. extract_record J pl record = Inr x \<and> bi_extracted_json inputs = cell_bytes (cell_or_null x)"
  shows "compare_column J cp cc record t = None"
proof -
  note cD = bind_column_ofD [OF c] and ccD = compare_column_ofD [OF cc]
  have src: "target_source_at m i = cb_source c" using cD(3) by (simp add: target_source_at_def)
  obtain raw where raw: "raw_value c (source_cell (rec_origin record)) inputs = Inr raw"
    using bound by (auto simp: bind_column_def bindR_Inr_iff)
  have v: "bound_bytes v = raw" using bound_cell [OF bound raw strip] key empty raw by blast
  have t: "row_get t (cc_target_index cc) = Some (RawCell raw)" using target v ccD(2) by simp
  have same: "compare_values cc (Some cell) (Some (RawCell raw)) n = None"
    if "cell_bytes cell = raw" "is_identity (cc_plan cc)" for cell n
    using that by (intro compare_values_written) (auto simp: compare_back_def new_cell_def NULL_cell_def)
  show ?thesis
  proof (cases "cb_source c")
    case (FromOrigin index)
    obtain cell where cell: "row_get (rec_origin record) index = Some cell"
      using raw FromOrigin by (auto simp: raw_value_def source_cell_def split: option.splits)
    have "compare_values cc (Some cell) (Some (RawCell raw)) n = None" for n
    proof (rule compare_values_written)
      fix bs assume bs: "cell = RawCell (Some bs)"
      then obtain out where out: "convert_cell c bs = Inr out" "raw = Some out"
        using raw FromOrigin cell by (auto simp: raw_value_def source_cell_def bindR_Inr_iff)
      then show "\<exists>out. RawCell raw = new_cell out \<and> compare_back cc out = Inr (new_cell bs)"
        using inverse [OF FromOrigin _ out(1)] cell bs by (simp add: new_cell_def)
    next
      assume "cell = RawCell None"
      then show "RawCell raw = NULL_cell" using raw FromOrigin cell by (auto simp: raw_value_def source_cell_def NULL_cell_def)
    qed
    then show ?thesis using ccD(3) src FromOrigin cell t by (simp add: compare_column_def)
  next
    case (ExtractJson n)
    show ?thesis
    proof (cases "cp_extract_json cp")
      case (Some pl)
      then obtain x where "extract_record J pl record = Inr x" "cell_bytes (cell_or_null x) = raw"
        using extracted [OF ExtractJson Some] raw ExtractJson by (auto simp: raw_value_def)
      then show ?thesis using ccD(3,4) src ExtractJson Some t same by (simp add: compare_column_def compare_extracted_def Let_def)
    qed (use ccD(3) src ExtractJson in \<open>simp add: compare_column_def compare_extracted_def Let_def\<close>)
  next
    case Absent
    then show ?thesis using ccD(3) src raw t
      by (simp add: compare_column_def raw_value_def compare_values_def null_or_absent_def cell_is_null_def)
  qed (use ccD(3,4) src t raw exploded same in \<open>auto simp: compare_column_def raw_value_def\<close>)
qed

text \<open>The inputs a row is bound with are the values its record is compared by.\<close>

definition inputs_match :: "json_lib \<Rightarrow> comparison_plan \<Rightarrow> cdm_record \<Rightarrow> bind_inputs \<Rightarrow> bool" where
  "inputs_match J cp record inputs \<longleftrightarrow>
     (\<forall>e. rec_exploded record = Some e \<longrightarrow>
        bi_explode_key inputs = cell_bytes (entry_key e) \<and> bi_explode_value inputs = cell_bytes (entry_value e))
   \<and> (\<forall>pl. cp_extract_json cp = Some pl \<longrightarrow>
        (\<exists>x. extract_record J pl record = Inr x \<and> bi_extracted_json inputs = cell_bytes (cell_or_null x)))"

text \<open>The target row a fresh insert of the bound values leaves: an unset column reads as null.\<close>

definition inserted_row :: "target_upsert \<Rightarrow> usize \<Rightarrow> bound_value list \<Rightarrow> row \<Rightarrow> bool" where
  "inserted_row up n values t \<longleftrightarrow> length (row_cells t) = n \<and> (\<forall>i < n. \<forall>k. bind_position up i = Some k \<longrightarrow>
     row_cells t ! i = RawCell (bound_bytes (values ! k)))"

text \<open>
  Claim C11. A migrated row validates: when a row is inserted as it was bound, and the conversions from target to origin
  undo those from origin to target, comparing the record with the inserted row finds no difference in any
  column, mapped, constant, exploded, extracted or unsourced. Left out are rows with a null key cell, an
  empty collection (bound as unset) and stripped map values.
\<close>

theorem migrated_row_validates:
  assumes "resolve_mapping o_table t_table options = Inr m" "distinct (map cm_name (ts_columns t_table))"
    and "new_upsert m u = Inr up" "new_binder m up pn mk False = Inr b"
    and "bind_row b (source_cell (rec_origin record)) inputs = Inr w"
    and "resolve_comparison m pn extract overwrites = Inr cp" "inputs_match J cp record inputs"
    and "\<And>c. c \<in> set (bd_columns b) \<Longrightarrow> cb_source c \<in> {ExplodeKey, ExplodeValue} \<Longrightarrow> rec_exploded record \<noteq> None"
    and "\<And>c. c \<in> set (bd_columns b) \<Longrightarrow> is_bound (cb_source c) \<Longrightarrow> cb_is_key c
      \<Longrightarrow> raw_value c (source_cell (rec_origin record)) inputs \<noteq> Inr None"
    and "\<And>c bs. c \<in> set (bd_columns b) \<Longrightarrow> cb_unset_when_empty c
      \<Longrightarrow> raw_value c (source_cell (rec_origin record)) inputs = Inr (Some bs) \<Longrightarrow> \<not> is_empty_collection bs"
    and "\<And>i bs out. i < length (cmap_target m) \<Longrightarrow> convert_cell (bd_columns b ! i) bs = Inr out
      \<Longrightarrow> compare_back (cp_columns cp ! i) out = Inr (new_cell bs)"
    and "inserted_row up (length (cmap_target m)) (bound_values w) t"
  shows "compare_row J cp record (Some t) = CompValid"
proof (rule compare_row_valid)
  fix cc assume "cc \<in> set (cp_columns cp)"
  note m = resolve_mappingD(1) [OF assms(1)] and b = new_binderD [OF assms(4)] and cp = resolve_comparisonD [OF assms(6)]
  obtain i where i: "i < length (cmap_target m)" "cc = cp_columns cp ! i"
    using \<open>cc \<in> set (cp_columns cp)\<close> cp(1) by (auto simp: in_set_conv_nth)
  define c where "c = bd_columns b ! i"
  have c: "bind_column_of pn m i = Inr c" "c \<in> set (bd_columns b)" using b(2,5) i(1) by (simp_all add: c_def)
  have cc: "compare_column_of m pn i = Inr cc" using cp(5) i by simp
  note cD = bind_column_ofD [OF c(1)] and ccD = compare_column_ofD [OF cc]
  show "compare_column J cp cc record t = None"
  proof (cases "is_bound (cb_source c)")
    case False
    moreover have "target_source_at m i = cb_source c" using cD(3) by (simp add: target_source_at_def)
    ultimately show ?thesis using ccD(3) by (cases "cb_source c") (simp_all add: compare_column_def)
  next
    case True
    then have "\<not> is_constant_at m i" using cD(3) by (auto simp: is_constant_at_def split: option.splits target_source.splits)
    then obtain k where k: "bind_position up i = Some k" using position_exists [OF assms(1-3), of i] i(1) m by auto
    have bound: "bind_column b c (source_cell (rec_origin record)) inputs = Inr (bound_values w ! k)"
      using bound_at_position(3) [OF assms(5), of i k] k b(1) by (simp add: c_def)
    have t: "row_get t i = Some (RawCell (bound_bytes (bound_values w ! k)))"
      using assms(12) i(1) k by (simp add: inserted_row_def row_get_def)
    have exploded: "\<exists>e. rec_exploded record = Some e \<and> bi_explode_key inputs = cell_bytes (entry_key e)
        \<and> bi_explode_value inputs = cell_bytes (entry_value e)" if "cb_source c \<in> {ExplodeKey, ExplodeValue}"
      using assms(7) assms(8) [OF c(2) that] by (auto simp: inputs_match_def)
    show ?thesis
    proof (rule column_validates [OF c(1) cc bound t])
      show "\<not> bd_map_remove_null_value b" using b(4) by simp
    qed (use assms(7,9-11) exploded c(2) i True cc in \<open>auto simp: inputs_match_def c_def\<close>)
  qed
qed

subsection \<open>What a correction leaves\<close>

text \<open>
  Claim C15. A target column that holds a value where the origin holds null is never corrected: the correcting write
  binds the column unset, which leaves the value in place, so whatever else the write changed, comparing
  the record with the corrected row reports the same column again.
\<close>

theorem null_mismatch_survives_correction:
  assumes "resolve_mapping o_table t_table options = Inr m" "distinct (map cm_name (ts_columns t_table))"
    and "new_upsert m u = Inr up" "new_binder m up pn mk strip = Inr b"
    and "resolve_comparison m pn extract overwrites = Inr cp"
    and "sk_binder s = b" "sk_counters s = []" "sink_bind s record = Inr w"
    and "i < length (cmap_target m)" "\<not> kind_is_key (cm_kind (cmap_target m ! i))"
    and "mapping_source m i = Some (FromOrigin index)" "row_get (rec_origin record) index = Some NULL_cell"
    and "row_get before i = Some (new_cell v)"
    and "\<And>j k. bind_position up j = Some k \<Longrightarrow> bound_values w ! k = Unset \<Longrightarrow> row_get corrected j = row_get before j"
  shows "\<exists>ds. compare_row J cp record (Some corrected) = CompMismatch ds
    \<and> \<lparr>cd_column = cm_name (cmap_target m ! i), cd_origin = NULL_cell, cd_target = new_cell v, cd_kind = DiffOriginNull\<rparr> \<in> set ds"
proof -
  note m = resolve_mappingD(1) [OF assms(1)] and b = new_binderD [OF assms(4)] and cp = resolve_comparisonD [OF assms(5)]
  define c where "c = bd_columns b ! i"
  note cD = bind_column_ofD [OF b(5) [OF assms(9)], folded c_def] and ccD = compare_column_ofD [OF cp(5) [OF assms(9)]]
  obtain inputs where bind: "bind_row b (source_cell (rec_origin record)) inputs = Inr w"
    using assms(6-8) unfolding sink_bind_def Let_def bindR_Inr_iff
    by (auto simp: sink_counter_deltas_def map_err_def split: option.splits sum.splits)
  have "\<not> is_constant_at m i" using assms(11) by (simp add: is_constant_at_def)
  then obtain k where k: "bind_position up i = Some k" using position_exists [OF assms(1-3), of i] assms(9) m by auto
  have bound: "bind_column b c (source_cell (rec_origin record)) inputs = Inr (bound_values w ! k)"
    using bound_at_position(3) [OF bind, of i k] k b(1) by (simp add: c_def)
  have src: "cb_source c = FromOrigin index" "target_source_at m i = FromOrigin index"
    using cD(3) assms(11) by (simp_all add: target_source_at_def)
  have "bound_values w ! k = Unset"
    using bound src(1) assms(10,12) cD(2)
    by (auto simp: bind_column_def raw_value_def source_cell_def NULL_cell_def absent_value_def bindR_Inr_iff)
  then have t: "row_get corrected i = Some (new_cell v)" using assms(13,14) k by simp
  have "compare_column J cp (cp_columns cp ! i) record corrected
      = Some \<lparr>cd_column = cm_name (cmap_target m ! i), cd_origin = NULL_cell, cd_target = new_cell v, cd_kind = DiffOriginNull\<rparr>"
    using ccD(1-3) src(2) t assms(12)
    by (simp add: compare_column_def compare_values_def null_or_absent_def cell_is_null_def NULL_cell_def new_cell_def
        difference_def cell_or_null_def)
  then show ?thesis using compare_row_differs [of cp "cp_columns cp ! i" J "record" corrected] cp(1,4) assms(9) nth_mem by metis
qed

subsection \<open>The detail of a mismatch\<close>

lemma hex_bytes_error: "hex_bytes f h = Inl e \<Longrightarrow> \<exists>d. e = f d"
  by (induction f h rule: hex_bytes.induct) (auto simp: bindR_def ok_or_def split: sum.splits option.splits)

lemma encode_error_names_literal:
  assumes "encode_scalar_bytes L v ty literal = Inl e"
  shows "\<exists>detail. e = invalid_literal literal ty detail"
proof (cases ty)
  case (TPrim p)
  show ?thesis
    using assms TPrim
    by (cases p)
      (auto simp: encode_scalar_bytes_def Let_def bindR_def map_err_def parse_number_def parse_blob_def parse_timestamp_def
        parse_date_def parse_time_def encode_decimal_def dest: hex_bytes_error split: sum.splits if_splits option.splits)
qed (use assms in \<open>auto simp: encode_scalar_bytes_def Let_def\<close>)

lemma render_shows: "msg = x @ s @ y \<Longrightarrow> \<exists>a z. p @ c @ q @ msg @ w = a @ s @ z"
  by (rule exI [of _ "p @ c @ q @ x"], rule exI [of _ "y @ w"]) simp

text \<open>
  Claim C22. The detail of a mismatch can hold a value of the row: when the extracted JSON property is a string that is
  not a literal of the target column's type, the conversion error quotes it and the detail repeats the
  error in full, although values are said never to be rendered (SEC-002, VAL-017).
\<close>

theorem mismatch_detail_shows_value:
  assumes "resolve_comparison m pn (Some pl) overwrites = Inr cp" "i < length (cmap_target m)"
    and "mapping_source m i = Some (ExtractJson n)" "null_or_absent (row_get t i) \<or> overwrites"
    and "row_get (rec_origin record) (xp_origin_index pl) = Some (new_cell bs)"
    and "utf8_error_at 0 (map unat bs) = None" "utf8_trim (map unat bs) \<noteq> []"
    and "jl_parse J (map unat bs) = Inr document" "resolve_json_path J (xp_path pl) document = Some (JString secret)"
    and "encode_scalar_bytes (jl_literals J) secret (xp_target_type pl) secret = Inl e"
  shows "\<exists>ds before after. compare_row J cp record (Some t) = CompMismatch ds
    \<and> mismatch_detail ds = before @ secret @ after"
proof -
  note cp = resolve_comparisonD [OF assms(1)]
  note cc = compare_column_ofD [OF cp(5) [OF assms(2)]]
  obtain detail where e: "e = invalid_literal secret (xp_target_type pl) detail"
    using encode_error_names_literal [OF assms(10)] by blast
  define e' where "e' = with_context (with_primary_key (rec_key record)) e"
  have run: "extract_record J pl record = Inl e'"
    using assms(5-10)
    by (simp add: extract_record_def origin_cell_def extract_cell_def new_cell_def encode_json_def encode_scalar_def bindR_def
        ok_or_def map_err_def e'_def)
  have "compare_column J cp (cp_columns cp ! i) record t
      = Some (difference (cp_columns cp ! i) NULL_cell (cell_or_null (row_get t i))
          (DiffError (show_error e') (cc_target_index (cp_columns cp ! i)) (index_i64 (xp_origin_index pl))))"
    using cc(2,3) assms(3,4) run cp(2,3)
    by (auto simp: compare_column_def compare_extracted_def target_source_at_def Let_def)
  then obtain ds d where ds: "compare_row J cp record (Some t) = CompMismatch ds" "d \<in> set ds"
    and d: "cd_kind d = DiffError (show_error e') (cc_target_index (cp_columns cp ! i)) (index_i64 (xp_origin_index pl))"
    using compare_row_differs [of cp "cp_columns cp ! i" J "record" t] cp(1,4) assms(2) nth_mem
    by (metis (no_types, lifting) column_difference.select_convs(4) difference_def)
  define rest_text where "rest_text = ''` is not a valid '' @ show_type (xp_target_type pl) @ '' literal: '' @ detail"
  have "error_message e' = ''`'' @ secret @ rest_text"
    unfolding e'_def with_context_message e invalid_literal_def new_error_def rest_text_def by (simp add: error_message_def)
  then have "show_error e' = (error_label (error_kind_of e') @ ''`'') @ secret @ (rest_text @ show_context (error_context_of e'))"
    unfolding show_error_def by simp
  then obtain x y where shown: "show_error e' = x @ secret @ y" by blast
  have "\<exists>a z. render_difference d = a @ secret @ z"
    unfolding render_difference_def d difference_kind.case by (rule render_shows [OF shown])
  then obtain a z where "render_difference d = a @ secret @ z" by blast
  moreover obtain ds1 ds2 where "ds = ds1 @ d # ds2" using split_list [OF ds(2)] by blast
  ultimately have "mismatch_detail ds = (mismatch_detail ds1 @ a) @ secret @ (z @ mismatch_detail ds2)"
    by (simp add: mismatch_detail_def)
  then show ?thesis using ds(1) by blast
qed

subsection \<open>Comparisons end to end\<close>

definition users_comparison :: comparison_plan where
  "users_comparison = (case resolve_comparison (users_mapping ''text'' ''text'') widen_planner None False of Inr cp \<Rightarrow> cp)"

lemma users_comparison_resolves:
  "resolve_comparison (users_mapping ''text'' ''text'') widen_planner None False = Inr users_comparison"
  unfolding users_comparison_def by (rule is_ok_case) code_simp

definition user_record :: cdm_record where
  "user_record = new_record (PrimaryKey [new_cell [97]]) (Row [new_cell [97], NULL_cell])"

definition users_sink :: row_sink where
  "users_sink = new_sink [] (users_binder ''text'' ''text'') (users_mapping ''text'' ''text'') None"

lemma user_bound:
  "bind_row (users_binder ''text'' ''text'') (source_cell (rec_origin user_record)) demo_inputs
     = Inr (IdempotentWrite [Value [97], Unset, Unset])"
  by code_simp

theorem migrated_row_validates_witness:
  "compare_row demo_json_lib users_comparison user_record (Some (Row [new_cell [97], NULL_cell])) = CompValid"
proof (rule migrated_row_validates [OF text_users(1,2,5) text_users_binder user_bound users_comparison_resolves])
  let ?b = "users_binder ''text'' ''text''"
  show "inputs_match demo_json_lib users_comparison user_record demo_inputs"
    using resolve_comparisonD(2) [OF users_comparison_resolves] by (simp add: inputs_match_def user_record_def new_record_def)
  have kinds: "list_all (\<lambda>c. cb_source c \<notin> {ExplodeKey, ExplodeValue} \<and> \<not> cb_unset_when_empty c
      \<and> (cb_is_key c \<longrightarrow> raw_value c (source_cell (rec_origin user_record)) demo_inputs = Inr (Some [97]))) (bd_columns ?b)"
    by code_simp
  then show "rec_exploded user_record \<noteq> None" if "c \<in> set (bd_columns ?b)" "cb_source c \<in> {ExplodeKey, ExplodeValue}" for c
    using that by (auto simp: list_all_iff)
  show "raw_value c (source_cell (rec_origin user_record)) demo_inputs \<noteq> Inr None"
    if "c \<in> set (bd_columns ?b)" "cb_is_key c" for c
    using that kinds by (auto simp: list_all_iff)
  show "\<not> is_empty_collection bs" if "c \<in> set (bd_columns ?b)" "cb_unset_when_empty c" for c bs
    using that kinds by (auto simp: list_all_iff)
  have plans: "list_all (\<lambda>i. is_identity (cb_plan (bd_columns ?b ! i)) \<and> is_identity (cc_plan (cp_columns users_comparison ! i)))
      [0..<length (cmap_target (users_mapping ''text'' ''text''))]" by code_simp
  then show "compare_back (cp_columns users_comparison ! i) out = Inr (new_cell bs)"
    if "i < length (cmap_target (users_mapping ''text'' ''text''))" "convert_cell (bd_columns ?b ! i) bs = Inr out" for i bs out
    using that by (auto simp: list_all_iff convert_cell_def compare_back_def)
  have "length (cmap_target (users_mapping ''text'' ''text'')) = 2" "bind_position (users_upsert ''text'' ''text'') 0 = Some 0"
    "bind_position (users_upsert ''text'' ''text'') 1 = Some 1" by code_simp+
  then show "inserted_row (users_upsert ''text'' ''text'') (length (cmap_target (users_mapping ''text'' ''text'')))
      (bound_values (IdempotentWrite [Value [97], Unset, Unset])) (Row [new_cell [97], NULL_cell])"
    by (auto simp: inserted_row_def new_cell_def NULL_cell_def less_2_cases_iff)
qed

theorem null_mismatch_survives_correction_witness:
  "\<exists>ds. compare_row demo_json_lib users_comparison user_record (Some (Row [new_cell [97], new_cell [104]])) = CompMismatch ds
    \<and> \<lparr>cd_column = ''name'', cd_origin = NULL_cell, cd_target = new_cell [104], cd_kind = DiffOriginNull\<rparr> \<in> set ds"
proof -
  have bind: "sink_bind users_sink user_record = Inr (IdempotentWrite [Value [97], Unset, Unset])"
    "sk_counters users_sink = []" by code_simp+
  have sink: "sk_binder users_sink = users_binder ''text'' ''text''" by (simp add: users_sink_def new_sink_def)
  have at: "1 < length (cmap_target (users_mapping ''text'' ''text''))"
    "\<not> kind_is_key (cm_kind (cmap_target (users_mapping ''text'' ''text'') ! 1))"
    "mapping_source (users_mapping ''text'' ''text'') 1 = Some (FromOrigin 1)"
    "row_get (rec_origin user_record) 1 = Some NULL_cell"
    "row_get (Row [new_cell [97], new_cell [104]]) 1 = Some (new_cell [104])"
    "cm_name (cmap_target (users_mapping ''text'' ''text'') ! 1) = ''name''" by code_simp+
  show ?thesis
    using null_mismatch_survives_correction [OF text_users(1,2,5) text_users_binder users_comparison_resolves sink bind(2,1)
        at(1-5) refl, of demo_json_lib] at(6) by simp
qed

definition tagged_mapping :: column_mapping where
  "tagged_mapping = \<lparr>cmap_origin = [demo_column ''doc'' ''text'' PartitionKey],
     cmap_target = [demo_column ''doc'' ''text'' PartitionKey, demo_column ''n'' ''int'' Regular],
     cmap_sources = [FromOrigin 0, ExtractJson 0], cmap_origin_table = users_table ''text'', cmap_target_table = users_table ''text''\<rparr>"

definition tagged_comparison :: comparison_plan where
  "tagged_comparison = (case resolve_comparison tagged_mapping widen_planner (Some demo_extract_plan) True of Inr cp \<Rightarrow> cp)"

definition tagged_lib :: json_lib where
  "tagged_lib = demo_json_lib\<lparr>jl_parse := \<lambda>_. Inr (JObject [(''n'', JString ''s3cret'')])\<rparr>"

theorem mismatch_detail_shows_value_witness:
  "\<exists>ds before after. compare_row tagged_lib tagged_comparison (new_record (PrimaryKey []) (Row [new_cell [123, 125]]))
       (Some (Row [new_cell [123, 125], NULL_cell])) = CompMismatch ds
     \<and> mismatch_detail ds = before @ ''s3cret'' @ after"
proof -
  have resolved: "resolve_comparison tagged_mapping widen_planner (Some demo_extract_plan) True = Inr tagged_comparison"
    unfolding tagged_comparison_def by (rule is_ok_case) code_simp
  have facts: "1 < length (cmap_target tagged_mapping)" "mapping_source tagged_mapping 1 = Some (ExtractJson 0)"
    "row_get (rec_origin (new_record (PrimaryKey []) (Row [new_cell [123, 125]]))) (xp_origin_index demo_extract_plan) = Some (new_cell [123, 125])"
    "utf8_error_at 0 (map unat [123 :: byte, 125]) = None" "utf8_trim (map unat [123 :: byte, 125]) \<noteq> []"
    "is_ok (encode_scalar_bytes (jl_literals tagged_lib) ''s3cret'' (xp_target_type demo_extract_plan) ''s3cret'') = False"
    by code_simp+
  obtain e where e: "encode_scalar_bytes (jl_literals tagged_lib) ''s3cret'' (xp_target_type demo_extract_plan) ''s3cret'' = Inl e"
    using facts(6) by (auto simp: is_ok_def split: sum.splits)
  have parse: "jl_parse tagged_lib (map unat [123 :: byte, 125]) = Inr (JObject [(''n'', JString ''s3cret'')])"
    "resolve_json_path tagged_lib (xp_path demo_extract_plan) (JObject [(''n'', JString ''s3cret'')]) = Some (JString ''s3cret'')"
    by (simp_all add: tagged_lib_def demo_extract_plan_def)
  show ?thesis using mismatch_detail_shows_value [OF resolved facts(1,2) disjI2 facts(3-5) parse e] by simp
qed

end
