(* ===== verification/Feature_Explode.thy ===== *)
theory Feature_Explode
  imports Feature_Base Codec_Sound
begin

text \<open>
  The explode map: \<open>crates/cdm-feature/src/explode.rs\<close>. The map column of an origin row becomes one entry per
  pair of the map, each half converted to its target column's type.

  The lemmas show that a resolved plan reads the configured column, that exploding a serialised map gives
  one converted entry per pair in wire order, and that the converted halves are well-framed values of
  the target columns' types.
\<close>

subsection \<open>Configuration\<close>

record explode_map =
  em_origin :: string
  em_key :: string
  em_value :: string

definition load_explode_map :: "effective_config \<Rightarrow> explode_map" where
  "load_explode_map config =
     \<lparr>em_origin = or_default [] (column_name_property config EXPLODE_MAP_ORIGIN_COLUMN),
      em_key = or_default [] (column_name_property config EXPLODE_MAP_TARGET_KEY_COLUMN),
      em_value = or_default [] (column_name_property config EXPLODE_MAP_TARGET_VALUE_COLUMN)\<rparr>"

definition explode_is_enabled :: "explode_map \<Rightarrow> bool" where
  "explode_is_enabled e \<longleftrightarrow> em_origin e \<noteq> [] \<and> em_key e \<noteq> [] \<and> em_value e \<noteq> []"

definition explode_completeness :: "explode_map \<Rightarrow> diagnostic list" where
  "explode_completeness e =
     (let configured = length (filter (\<lambda>name. name \<noteq> []) [em_origin e, em_key e, em_value e]) in
      if configured = 0 \<or> configured = 3 then []
      else [with_rule ''FEA-020'' (config_error ''explode map requires the origin column, the target key column and the target value column, or none of them'')])"

fun is_map_info :: "cql_type_info \<Rightarrow> bool" where
  "is_map_info (TMap k v f) = True"
| "is_map_info t = False"

definition validate_explode_map :: "explode_map \<Rightarrow> feature_schema \<Rightarrow> diagnostic list" where
  "validate_explode_map e schema =
     (let incomplete = explode_completeness e;
          target_finding = (\<lambda>role name.
            if facts_column (fs_target schema) name = None
            then [with_rule ''FEA-020'' (schema_error (''explode-map target '' @ role @ '' column `'' @ name
                    @ ''` is not on the target table '' @ show_table (tf_table (fs_target schema))))]
            else []) in
      if incomplete \<noteq> [] \<or> \<not> explode_is_enabled e then incomplete
      else
        (case facts_column (fs_origin schema) (em_origin e) of
           None \<Rightarrow> [with_rule ''FEA-020'' (schema_error (''explode-map origin column `'' @ em_origin e
                     @ ''` is not on the origin table '' @ show_table (tf_table (fs_origin schema))))]
         | Some column \<Rightarrow>
             if \<not> is_map_info (cf_type column)
             then [with_rule ''FEA-020'' (schema_error (''explode-map origin column `'' @ em_origin e @ ''` is ''
                     @ show_type (cf_type column) @ '', not a map''))]
             else [])
        @ target_finding ''key'' (em_key e) @ target_finding ''value'' (em_value e))"

subsection \<open>The plan\<close>

record explode_plan =
  ep_origin_index :: usize
  ep_key_plan :: conversion_plan
  ep_value_plan :: conversion_plan
  ep_key_column :: string
  ep_value_column :: string
  ep_key_is_key :: bool
  ep_value_is_key :: bool

definition explode_missing :: "string \<Rightarrow> table_facts \<Rightarrow> cdm_error" where
  "explode_missing column t = with_context (with_column column) (new_error SchemaMismatch
     (''explode-map column `'' @ column @ ''` is not on table '' @ show_table (tf_table t)))"

definition explode_target_column :: "table_facts \<Rightarrow> string \<Rightarrow> column_facts result" where
  "explode_target_column target name = ok_or (facts_column target name) (explode_missing name target)"

definition resolve_explode_map :: "explode_map \<Rightarrow> feature_schema \<Rightarrow> planner \<Rightarrow> explode_plan result" where
  "resolve_explode_map e schema pn =
     bindR (ok_or (facts_column (fs_origin schema) (em_origin e)) (explode_missing (em_origin e) (fs_origin schema))) (\<lambda>origin.
       case cf_type origin of
         TMap key v f \<Rightarrow>
           bindR (ok_or (facts_index_of (fs_origin schema) (em_origin e)) (explode_missing (em_origin e) (fs_origin schema))) (\<lambda>index.
           bindR (explode_target_column (fs_target schema) (em_key e)) (\<lambda>key_column.
           bindR (explode_target_column (fs_target schema) (em_value e)) (\<lambda>value_column.
             Inr \<lparr>ep_origin_index = index, ep_key_plan = plan_types pn key (cf_type key_column),
                  ep_value_plan = plan_types pn v (cf_type value_column), ep_key_column = em_key e,
                  ep_value_column = em_value e, ep_key_is_key = cf_key key_column, ep_value_is_key = cf_key value_column\<rparr>)))
       | ty \<Rightarrow> Inl (with_context (with_column (em_origin e)) (new_error SchemaMismatch
           (''explode-map origin column `'' @ em_origin e @ ''` is '' @ show_type ty @ '', not a map''))))"

definition explode_entry :: "explode_plan \<Rightarrow> raw_cell \<times> raw_cell \<Rightarrow> exploded_entry result" where
  "explode_entry p kv =
     bindR (apply_plan (ep_key_plan p) (fst kv)) (\<lambda>key.
     bindR (apply_plan (ep_value_plan p) (snd kv)) (\<lambda>v. Inr \<lparr>entry_key = key, entry_value = v\<rparr>))"

definition explode_cell :: "explode_plan \<Rightarrow> raw_cell \<Rightarrow> exploded_entry list result" where
  "explode_cell p cell =
     (case cell_bytes cell of
        None \<Rightarrow> Inr []
      | Some bs \<Rightarrow> bindR (map_entries bs) (collectR (explode_entry p)))"

definition explode_record :: "explode_plan \<Rightarrow> cdm_record \<Rightarrow> exploded_entry list result" where
  "explode_record p record = bindR (origin_cell record (ep_origin_index p)) (explode_cell p)"

text \<open>\<open>FeaturePlugin::transform\<close>, with the sink as the list of records emitted.\<close>

definition explode_transform :: "explode_plan \<Rightarrow> cdm_record \<Rightarrow> cdm_record list result" where
  "explode_transform p record =
     bindR (explode_record p record) (\<lambda>entries.
       Inr (map (\<lambda>entry. with_exploded entry
              (with_origin (Row (row_cells (rec_origin record) @ [entry_key entry, entry_value entry])) record)) entries))"

subsection \<open>One entry per pair\<close>

lemma explode_cell_framed:
  assumes "int (length kvs) \<le> i32_max" "length (framed_map kvs) \<le> u64_max" "\<forall>kv \<in> set kvs. short (fst kv) \<and> short (snd kv)"
  shows "explode_cell p (new_cell (framed_map kvs))
    = collectR (explode_entry p) (map (\<lambda>kv. (RawCell (fst kv), RawCell (snd kv))) kvs)"
  by (simp add: explode_cell_def new_cell_def map_entries_framed [OF assms])

lemma list_all2_conj_member: "list_all2 P xs ys \<Longrightarrow> list_all2 (\<lambda>x y. x \<in> set xs \<and> P x y) xs ys"
  by (auto simp: list_all2_conv_all_nth)

lemma conversion_conforms:
  assumes "codecs_sound (pn_registry pn)" "supported (plan_types pn ot tt)" "conforms ot bs"
    "apply_plan (plan_types pn ot tt) (RawCell (Some bs)) = Inr (RawCell (Some out))"
  shows "conforms tt out"
  using soundD [OF plan_types_sound [OF assms(1,2)] assms(3), of "RawCell (Some out)"] assms(4) by (auto simp: new_cell_def)

text \<open>
  Claim C20. Exploding a map writes every pair, once and in order, as values of the target columns: for a
  serialised map whose keys and values are values of the map's types, a successful explosion has one
  entry per pair, in wire order, each half the conversion of the pair's half, and each converted half
  that is not null is a well-framed value of the type of the target column it is written to, provided
  that both halves have a supported plan and that the codecs in use produce values of their target types.
\<close>

theorem explode_converts_every_pair:
  assumes "resolve_explode_map e schema pn = Inr p" "codecs_sound (pn_registry pn)"
    and "facts_column (fs_origin schema) (em_origin e) = Some oc" "cf_type oc = TMap kt vt f"
    and "facts_column (fs_target schema) (em_key e) = Some kc" "facts_column (fs_target schema) (em_value e) = Some vc"
    and "supported (ep_key_plan p)" "supported (ep_value_plan p)"
    and "int (length kvs) \<le> i32_max" "length (framed_map kvs) \<le> u64_max"
    and "\<forall>kv \<in> set kvs. short (fst kv) \<and> short (snd kv) \<and> (\<forall>bs. fst kv = Some bs \<longrightarrow> conforms kt bs) \<and> (\<forall>bs. snd kv = Some bs \<longrightarrow> conforms vt bs)"
    and "explode_cell p (new_cell (framed_map kvs)) = Inr es"
  shows "list_all2 (\<lambda>kv entry.
      apply_plan (ep_key_plan p) (RawCell (fst kv)) = Inr (entry_key entry)
      \<and> apply_plan (ep_value_plan p) (RawCell (snd kv)) = Inr (entry_value entry)
      \<and> (\<forall>bs out. fst kv = Some bs \<longrightarrow> cell_bytes (entry_key entry) = Some out \<longrightarrow> conforms (cf_type kc) out)
      \<and> (\<forall>bs out. snd kv = Some bs \<longrightarrow> cell_bytes (entry_value entry) = Some out \<longrightarrow> conforms (cf_type vc) out)) kvs es"
proof -
  have plans: "ep_key_plan p = plan_types pn kt (cf_type kc)" "ep_value_plan p = plan_types pn vt (cf_type vc)"
    using assms(1,3-6) by (auto simp: resolve_explode_map_def explode_target_column_def bindR_Inr_iff)
  have "collectR (explode_entry p) (map (\<lambda>kv. (RawCell (fst kv), RawCell (snd kv))) kvs) = Inr es"
    using explode_cell_framed [of kvs p] assms(9-12) by simp
  then have each: "list_all2 (\<lambda>kv entry. explode_entry p (RawCell (fst kv), RawCell (snd kv)) = Inr entry) kvs es"
    by (simp add: collectR_Inr_iff list_all2_map1)
  show ?thesis
  proof (rule list_all2_mono [OF list_all2_conj_member [OF each]])
    fix kv entry
    assume "kv \<in> set kvs \<and> explode_entry p (RawCell (fst kv), RawCell (snd kv)) = Inr entry"
    then have kv: "kv \<in> set kvs"
      and k: "apply_plan (ep_key_plan p) (RawCell (fst kv)) = Inr (entry_key entry)"
      and v: "apply_plan (ep_value_plan p) (RawCell (snd kv)) = Inr (entry_value entry)"
      by (auto simp: explode_entry_def bindR_Inr_iff)
    have "conforms (cf_type kc) out" if "fst kv = Some bs" "cell_bytes (entry_key entry) = Some out" for bs out
    proof -
      have "entry_key entry = RawCell (Some out)" using that(2) by (metis raw_cell.collapse)
      then show ?thesis using conversion_conforms [OF assms(2), of kt "cf_type kc" bs out] assms(7,11) kv that(1) k plans(1) by auto
    qed
    moreover have "conforms (cf_type vc) out" if "snd kv = Some bs" "cell_bytes (entry_value entry) = Some out" for bs out
    proof -
      have "entry_value entry = RawCell (Some out)" using that(2) by (metis raw_cell.collapse)
      then show ?thesis using conversion_conforms [OF assms(2), of vt "cf_type vc" bs out] assms(8,11) kv that(1) v plans(2) by auto
    qed
    ultimately show "apply_plan (ep_key_plan p) (RawCell (fst kv)) = Inr (entry_key entry)
      \<and> apply_plan (ep_value_plan p) (RawCell (snd kv)) = Inr (entry_value entry)
      \<and> (\<forall>bs out. fst kv = Some bs \<longrightarrow> cell_bytes (entry_key entry) = Some out \<longrightarrow> conforms (cf_type kc) out)
      \<and> (\<forall>bs out. snd kv = Some bs \<longrightarrow> cell_bytes (entry_value entry) = Some out \<longrightarrow> conforms (cf_type vc) out)"
      using k v by blast
  qed
qed

definition fruit_schema :: feature_schema where
  "fruit_schema = \<lparr>fs_origin = \<lparr>tf_table = TableRef ''ks'' ''o'', tf_columns = [\<lparr>cf_name = ''fruits'', cf_type = TMap (TPrim CqlInt) (TPrim Text) False, cf_key = False\<rparr>]\<rparr>,
     fs_target = \<lparr>tf_table = TableRef ''ks'' ''t'', tf_columns = [\<lparr>cf_name = ''k'', cf_type = TPrim BigInt, cf_key = True\<rparr>,
       \<lparr>cf_name = ''v'', cf_type = TPrim Text, cf_key = False\<rparr>]\<rparr>\<rparr>"

definition fruit_map :: explode_map where
  "fruit_map = \<lparr>em_origin = ''fruits'', em_key = ''k'', em_value = ''v''\<rparr>"

definition fruit_plan :: explode_plan where
  "fruit_plan = \<lparr>ep_origin_index = 0, ep_key_plan = PCodec (ce_converter widen_entry), ep_value_plan = PPassthrough,
     ep_key_column = ''k'', ep_value_column = ''v'', ep_key_is_key = True, ep_value_is_key = False\<rparr>"

lemma fruit_plan_resolved: "resolve_explode_map fruit_map fruit_schema widen_planner = Inr fruit_plan"
  by (simp add: resolve_explode_map_def fruit_map_def fruit_schema_def fruit_plan_def facts_column_def facts_index_of_def
      explode_target_column_def plan_types.simps assignable_def widen_planner_def registry_converter_def entry_for_def widen_entry_def)

theorem explode_converts_every_pair_witness:
  "explode_cell fruit_plan (new_cell (framed_map [(Some (be_bytes 4 7), Some [65]), (Some (be_bytes 4 9), None)]))
     = Inr [\<lparr>entry_key = new_cell (be_bytes 8 7), entry_value = new_cell [65]\<rparr>,
            \<lparr>entry_key = new_cell (be_bytes 8 9), entry_value = NULL_cell\<rparr>]
   \<and> conforms (TPrim BigInt) (be_bytes 8 7)"
proof -
  let ?kvs = "[(Some (be_bytes 4 7), Some [65]), (Some (be_bytes 4 9), None)] :: (byte list option \<times> byte list option) list"
  let ?es = "[\<lparr>entry_key = new_cell (be_bytes 8 7), entry_value = new_cell [65]\<rparr>,
            \<lparr>entry_key = new_cell (be_bytes 8 9), entry_value = NULL_cell\<rparr>]"
  have codecs: "codecs_sound (pn_registry widen_planner)"
    by (auto simp: codecs_sound_def widen_planner_def widen_entry_def sound_def new_cell_def bindR_Inr_iff write_i64_def
        intro!: conforms.prim)
  have len: "int (length ?kvs) \<le> i32_max" "length (framed_map ?kvs) \<le> u64_max" "\<forall>kv \<in> set ?kvs. short (fst kv) \<and> short (snd kv)"
    by (simp_all add: i32_max_def u64_max_def framed_map_def)
  have ex: "explode_cell fruit_plan (new_cell (framed_map ?kvs)) = Inr ?es"
    unfolding explode_cell_framed [OF len]
    by (simp add: explode_entry_def fruit_plan_def widen_entry_def read_i32_def fixed_bytes_def be_value_i32 in_i32_def
        i32_min_def i32_max_def write_i64_def new_cell_def NULL_cell_def)
  have cols: "facts_column (fs_origin fruit_schema) (em_origin fruit_map) = Some \<lparr>cf_name = ''fruits'', cf_type = TMap (TPrim CqlInt) (TPrim Text) False, cf_key = False\<rparr>"
    "facts_column (fs_target fruit_schema) (em_key fruit_map) = Some \<lparr>cf_name = ''k'', cf_type = TPrim BigInt, cf_key = True\<rparr>"
    "facts_column (fs_target fruit_schema) (em_value fruit_map) = Some \<lparr>cf_name = ''v'', cf_type = TPrim Text, cf_key = False\<rparr>"
    by (simp_all add: facts_column_def fruit_schema_def fruit_map_def)
  have sup: "supported (ep_key_plan fruit_plan)" "supported (ep_value_plan fruit_plan)" by (simp_all add: fruit_plan_def)
  have conf: "\<forall>kv \<in> set ?kvs. short (fst kv) \<and> short (snd kv) \<and> (\<forall>bs. fst kv = Some bs \<longrightarrow> conforms (TPrim CqlInt) bs)
      \<and> (\<forall>bs. snd kv = Some bs \<longrightarrow> conforms (TPrim Text) bs)"
    using len(3) by (auto intro!: conforms.prim)
  show ?thesis
    using explode_converts_every_pair [OF fruit_plan_resolved codecs cols(1) column_facts.select_convs(2) cols(2,3) sup len(1,2) conf ex] ex
    by (simp add: new_cell_def)
qed

lemma explode_null_or_empty: "explode_cell p NULL_cell = Inr []" "explode_cell p (new_cell (framed_map [])) = Inr []"
  using explode_cell_framed [of "[]" p] by (simp_all add: explode_cell_def NULL_cell_def framed_map_def i32_max_def u64_max_def)

lemma transform_emits_entries:
  assumes "explode_transform p record = Inr out"
  obtains es where "explode_record p record = Inr es" "length out = length es"
    "map rec_exploded out = map Some es" "\<forall>r \<in> set out. rec_key r = rec_key record"
proof -
  obtain es where es: "explode_record p record = Inr es" and
    out: "out = map (\<lambda>entry. with_exploded entry
              (with_origin (Row (row_cells (rec_origin record) @ [entry_key entry, entry_value entry])) record)) es"
    using assms by (auto simp: explode_transform_def bindR_Inr_iff)
  show ?thesis using that [OF es] unfolding out by (simp add: with_exploded_def with_origin_def)
qed

end
