(* ===== verification/Validate_Job.thy ===== *)
theory Validate_Job
  imports Validate_Compare Feature_Explode Migrate_Buffer
begin

text \<open>
  The validate job: \<open>crates/cdm-engine/src/jobs/validate/mod.rs\<close>, \<open>status.rs\<close> and the lines of \<open>difflog.rs\<close>. A range is a
  stream of origin records; each record that the filters accept is looked up on the target, the lookups
  of a page are compared in the order they were issued, and what differs is counted, logged, corrected if
  the settings ask for it, and reported.

  The answers of the target are the environment: a lookup runs as a task of its own, so its answer is a
  function of its position among the lookups of the range and of its key, and of nothing the model
  orders. The report and the event bus are fed the same findings and are one list here.

  The lemmas show that the counters of a range add up, what its verdict means, which rows it may write,
  and that a cancelled range settles the lookups it has issued.
\<close>

subsection \<open>Settings and counters\<close>

record autocorrect =
  ac_missing :: bool
  ac_mismatch :: bool
  ac_missing_counter :: bool

record validate_settings =
  vs_autocorrect :: autocorrect
  vs_target_is_counter :: bool

definition read_only_settings :: validate_settings where
  "read_only_settings = \<lparr>vs_autocorrect = \<lparr>ac_missing = False, ac_mismatch = False, ac_missing_counter = False\<rparr>,
     vs_target_is_counter = False\<rparr>"

definition writes_to_target :: "validate_settings \<Rightarrow> bool" where
  "writes_to_target s \<longleftrightarrow> ac_missing (vs_autocorrect s) \<or> ac_mismatch (vs_autocorrect s) \<or> ac_missing_counter (vs_autocorrect s)"

record validate_counters =
  vc_read :: counter_token
  vc_valid :: counter_token
  vc_missing :: counter_token
  vc_mismatch :: counter_token
  vc_corrected_missing :: counter_token
  vc_corrected_mismatch :: counter_token
  vc_skipped :: counter_token

definition resolve_validate_counters :: "job_counters \<Rightarrow> validate_counters result" where
  "resolve_validate_counters c =
     bindR (counter_of c CRead) (\<lambda>rd.
     bindR (counter_of c CValid) (\<lambda>valid.
     bindR (counter_of c CMissing) (\<lambda>missing.
     bindR (counter_of c CMismatch) (\<lambda>mismatch.
     bindR (counter_of c CCorrectedMissing) (\<lambda>corrected_missing.
     bindR (counter_of c CCorrectedMismatch) (\<lambda>corrected_mismatch.
     bindR (counter_of c CSkipped) (\<lambda>skipped.
       Inr \<lparr>vc_read = rd, vc_valid = valid, vc_missing = missing, vc_mismatch = mismatch,
            vc_corrected_missing = corrected_missing, vc_corrected_mismatch = corrected_mismatch, vc_skipped = skipped\<rparr>)))))))"

definition status_verdict :: "job_counters \<Rightarrow> bool \<Rightarrow> range_verdict" where
  "status_verdict c had_discrepancy =
     (if \<not> had_discrepancy then VPass
      else if count_of c CMissing Interim = count_of c CCorrectedMissing Interim
        \<and> count_of c CMismatch Interim = count_of c CCorrectedMismatch Interim then VDiffCorrected
      else VDiff)"

subsection \<open>Findings\<close>

datatype discrepancy_kind = KindMissing | KindCorrectedMissing | KindMismatch | KindCorrectedMismatch

definition missing_kind :: "bool \<Rightarrow> discrepancy_kind" where
  "missing_kind corrected = (if corrected then KindCorrectedMissing else KindMissing)"

definition mismatch_kind :: "bool \<Rightarrow> discrepancy_kind" where
  "mismatch_kind corrected = (if corrected then KindCorrectedMismatch else KindMismatch)"

record discrepancy =
  dc_kind :: discrepancy_kind
  dc_key :: primary_key
  dc_columns :: "string list"

definition log_missing :: "primary_key \<Rightarrow> string" where
  "log_missing key = ''Missing target row found for key: '' @ show_key key"

definition log_counter_skipped :: "primary_key \<Rightarrow> string" where
  "log_counter_skipped key =
     ''autocorrect.missing is true, but not Inserting as autocorrect.missing_counter is not enabled; key : '' @ show_key key"

definition log_inserted :: "primary_key \<Rightarrow> string" where
  "log_inserted key = ''Inserted missing row in target: '' @ show_key key"

definition log_mismatch :: "primary_key \<Rightarrow> string \<Rightarrow> string" where
  "log_mismatch key detail = ''Mismatch row found for key: '' @ show_key key @ '' Mismatch: '' @ detail"

definition log_corrected :: "primary_key \<Rightarrow> string" where
  "log_corrected key = ''Corrected mismatch row in target: '' @ show_key key"

text \<open>One line of the difference log, without the time it starts with.\<close>

definition log_line :: "string \<Rightarrow> string \<Rightarrow> string" where
  "log_line label message = '' ERROR ['' @ label @ ''] validate - '' @ message"

subsection \<open>The job and its environment\<close>

record validate_job =
  vj_plan :: comparison_plan
  vj_json :: json_lib
  vj_filters :: filter_chain
  vj_explode :: "(explode_plan \<times> target_key_plan) option"
  vj_settings :: validate_settings

datatype lookup_outcome = LookupOk "cdm_record option" | LookupFailed cdm_error | LookupPanicked string

record validate_env =
  ve_fetch :: "nat \<Rightarrow> primary_key \<Rightarrow> lookup_outcome"
  ve_write_slot :: "nat \<Rightarrow> unit result"
  ve_write :: "cdm_record list \<Rightarrow> cdm_record \<Rightarrow> unit result"
  ve_flush :: "cdm_record list \<Rightarrow> unit result"

record validate_state =
  vt_counters :: job_counters
  vt_log :: "string list"
  vt_findings :: "discrepancy list"
  vt_writes :: "cdm_record list"
  vt_lookups :: nat

record validate_batch =
  vb_records :: "cdm_record list"
  vb_inflight :: "lookup_outcome list"

definition empty_batch :: validate_batch where
  "empty_batch = \<lparr>vb_records = [], vb_inflight = []\<rparr>"

definition bump :: "counter_token \<Rightarrow> validate_state \<Rightarrow> validate_state" where
  "bump t st = st\<lparr>vt_counters := increment_one t (vt_counters st)\<rparr>"

definition log_to :: "string \<Rightarrow> string \<Rightarrow> validate_state \<Rightarrow> validate_state" where
  "log_to label message st = st\<lparr>vt_log := vt_log st @ [log_line label message]\<rparr>"

definition publish :: "discrepancy_kind \<Rightarrow> primary_key \<Rightarrow> string list \<Rightarrow> validate_state \<Rightarrow> validate_state" where
  "publish kind key columns st = st\<lparr>vt_findings := vt_findings st @ [\<lparr>dc_kind = kind, dc_key = key, dc_columns = columns\<rparr>]\<rparr>"

subsection \<open>Corrections\<close>

text \<open>\<open>write\<close> followed by \<open>flush\<close>; a write that fails is not among the writes made.\<close>

definition write_through :: "validate_env \<Rightarrow> cdm_record \<Rightarrow> validate_state \<Rightarrow> unit result \<times> validate_state" where
  "write_through env record st =
     (case ve_write env (vt_writes st) record of
        Inl e \<Rightarrow> (Inl e, st)
      | Inr _ \<Rightarrow> (ve_flush env (vt_writes st @ [record]), st\<lparr>vt_writes := vt_writes st @ [record]\<rparr>))"

definition autocorrect_missing ::
  "validate_env \<Rightarrow> validate_settings \<Rightarrow> string \<Rightarrow> validate_counters \<Rightarrow> cdm_record \<Rightarrow> validate_state \<Rightarrow> bool result \<times> validate_state" where
  "autocorrect_missing env s label vc record st =
     (if \<not> ac_missing (vs_autocorrect s) then (Inr False, st)
      else if vs_target_is_counter s \<and> \<not> ac_missing_counter (vs_autocorrect s)
      then (Inr False, log_to label (log_counter_skipped (rec_key record)) st)
      else case write_through env record st of
        (Inl e, st') \<Rightarrow> (Inl e, st')
      | (Inr _, st') \<Rightarrow>
          (Inr True, log_to label (log_inserted (rec_key record)) (bump (vc_corrected_missing vc) st')))"

definition autocorrect_mismatch ::
  "validate_env \<Rightarrow> validate_settings \<Rightarrow> string \<Rightarrow> validate_counters \<Rightarrow> cdm_record \<Rightarrow> cdm_record option
     \<Rightarrow> validate_state \<Rightarrow> bool result \<times> validate_state" where
  "autocorrect_mismatch env s label vc record target st =
     (if \<not> ac_mismatch (vs_autocorrect s) then (Inr False, st)
      else
        let record' = (case target of Some t \<Rightarrow> with_target (rec_origin t) record | None \<Rightarrow> record) in
        case write_through env record' st of
          (Inl e, st') \<Rightarrow> (Inl e, st')
        | (Inr _, st') \<Rightarrow>
            (Inr True, log_to label (log_corrected (rec_key record)) (bump (vc_corrected_mismatch vc) st')))"

subsection \<open>Comparing a batch\<close>

definition settle ::
  "validate_env \<Rightarrow> validate_job \<Rightarrow> string \<Rightarrow> validate_counters \<Rightarrow> cdm_record \<Rightarrow> cdm_record option \<Rightarrow> comparison
     \<Rightarrow> validate_state \<Rightarrow> unit result \<times> validate_state" where
  "settle env job label vc record target c st =
     (case c of
        CompValid \<Rightarrow> (Inr (), bump (vc_valid vc) st)
      | CompMissing \<Rightarrow>
          (case autocorrect_missing env (vj_settings job) label vc record
                  (log_to label (log_missing (rec_key record)) (bump (vc_missing vc) st)) of
             (Inl e, st') \<Rightarrow> (Inl e, st')
           | (Inr corrected, st') \<Rightarrow> (Inr (), publish (missing_kind corrected) (rec_key record) [] st'))
      | CompMismatch ds \<Rightarrow>
          (case autocorrect_mismatch env (vj_settings job) label vc record target
                  (log_to label (log_mismatch (rec_key record) (mismatch_detail ds)) (bump (vc_mismatch vc) st)) of
             (Inl e, st') \<Rightarrow> (Inl e, st')
           | (Inr corrected, st') \<Rightarrow>
               (Inr (), publish (mismatch_kind corrected) (rec_key record) (mismatch_columns ds) st')))"

definition lost_record :: cdm_error where
  "lost_record = new_error Internal
     ''the validate batch lost a record between issuing its target lookup and comparing the result''"

definition lookup_result :: "lookup_outcome \<Rightarrow> cdm_record option result" where
  "lookup_result outcome =
     (case outcome of
        LookupOk target \<Rightarrow> Inr target
      | LookupFailed e \<Rightarrow> Inl e
      | LookupPanicked msg \<Rightarrow> Inl (new_error Internal (''a target lookup task ended abnormally: '' @ msg)))"

text \<open>The two queues of a batch are popped together; an emptied batch is the empty batch.\<close>

fun compare_loop ::
  "validate_env \<Rightarrow> validate_job \<Rightarrow> string \<Rightarrow> validate_counters \<Rightarrow> lookup_outcome list \<Rightarrow> cdm_record list \<Rightarrow> bool
     \<Rightarrow> validate_state \<Rightarrow> bool result \<times> validate_state" where
  "compare_loop env job label vc [] records had st = (Inr had, st)"
| "compare_loop env job label vc (outcome # inflight) [] had st = (Inl lost_record, st)"
| "compare_loop env job label vc (outcome # inflight) (record # records) had st =
     (case lookup_result outcome of
        Inl e \<Rightarrow> (Inl e, st)
      | Inr target \<Rightarrow>
          let c = compare_row (vj_json job) (vj_plan job) record (map_option rec_origin target) in
          case settle env job label vc record target c st of
            (Inl e, st') \<Rightarrow> (Inl e, st')
          | (Inr _, st') \<Rightarrow> compare_loop env job label vc inflight records (had \<or> is_discrepancy c) st')"

definition compare_batch ::
  "validate_env \<Rightarrow> validate_job \<Rightarrow> string \<Rightarrow> validate_counters \<Rightarrow> validate_batch \<Rightarrow> validate_state \<Rightarrow> bool result \<times> validate_state" where
  "compare_batch env job label vc batch st = compare_loop env job label vc (vb_inflight batch) (vb_records batch) False st"

subsection \<open>Issuing lookups\<close>

text \<open>The rate limiter only delays; a slot is acquired or the in-flight limit is closed.\<close>

definition enqueue_lookup ::
  "validate_env \<Rightarrow> cdm_record \<Rightarrow> validate_batch \<times> validate_state \<Rightarrow> unit result \<times> validate_batch \<times> validate_state" where
  "enqueue_lookup env record bs =
     (case bs of (batch, st) \<Rightarrow>
        case ve_write_slot env (vt_lookups st) of
          Inl e \<Rightarrow> (Inl e, batch, st)
        | Inr _ \<Rightarrow>
            (Inr (), batch\<lparr>vb_records := vb_records batch @ [record],
                       vb_inflight := vb_inflight batch @ [ve_fetch env (vt_lookups st) (rec_key record)]\<rparr>,
             st\<lparr>vt_lookups := vt_lookups st + 1\<rparr>))"

fun enqueue_entries ::
  "validate_env \<Rightarrow> target_key_plan \<Rightarrow> cdm_record \<Rightarrow> exploded_entry list \<Rightarrow> validate_batch \<times> validate_state
     \<Rightarrow> unit result \<times> validate_batch \<times> validate_state" where
  "enqueue_entries env keys record [] bs = (Inr (), bs)"
| "enqueue_entries env keys record (entry # entries) bs =
     (let key = key_of keys (rec_origin record)
            \<lparr>kp_key = cell_bytes (entry_key entry), kp_value = cell_bytes (entry_value entry)\<rparr> in
      case enqueue_lookup env (with_exploded entry (with_key key record)) bs of
        (Inl e, bs') \<Rightarrow> (Inl e, bs')
      | (Inr _, bs') \<Rightarrow> enqueue_entries env keys record entries bs')"

definition enqueue_lookups ::
  "validate_env \<Rightarrow> validate_job \<Rightarrow> cdm_record \<Rightarrow> validate_batch \<times> validate_state
     \<Rightarrow> usize result \<times> validate_batch \<times> validate_state" where
  "enqueue_lookups env job record bs =
     (case vj_explode job of
        None \<Rightarrow> (case enqueue_lookup env record bs of (Inl e, bs') \<Rightarrow> (Inl e, bs') | (Inr _, bs') \<Rightarrow> (Inr 1, bs'))
      | Some (pl, keys) \<Rightarrow>
          (case explode_record pl record of
             Inl e \<Rightarrow> (Inl e, bs)
           | Inr entries \<Rightarrow>
               (case enqueue_entries env keys record entries bs of
                  (Inl e, bs') \<Rightarrow> (Inl e, bs')
                | (Inr _, bs') \<Rightarrow> (Inr (length entries), bs'))))"

subsection \<open>Validating a range\<close>

definition validate_cancelled :: cdm_error where
  "validate_cancelled = new_error Cancelled ''the validate range was cancelled while reading the origin''"

text \<open>What reading one record does, up to the comparison of a full batch.\<close>

definition validate_record ::
  "validate_env \<Rightarrow> validate_job \<Rightarrow> string \<Rightarrow> validate_counters \<Rightarrow> usize \<Rightarrow> cdm_record
     \<Rightarrow> bool \<times> validate_batch \<times> validate_state \<Rightarrow> bool result \<times> validate_batch \<times> validate_state" where
  "validate_record env job label vc fetch_size record s =
     (case s of (had, batch, st) \<Rightarrow>
      let st1 = bump (vc_read vc) st in
      case chain_accepts (vj_filters job) record of
        Inl e \<Rightarrow> (Inl e, batch, st1)
      | Inr False \<Rightarrow> (Inr had, batch, bump (vc_skipped vc) st1)
      | Inr True \<Rightarrow>
          (case enqueue_lookups env job record (batch, st1) of
             (Inl e, batch', st2) \<Rightarrow> (Inl e, batch', st2)
           | (Inr issued, batch', st2) \<Rightarrow>
               if issued = 0 then (Inr had, batch', bump (vc_skipped vc) st2)
               else if fetch_size \<le> length (vb_records batch') then
                 (case compare_batch env job label vc batch' st2 of
                    (Inl e, st3) \<Rightarrow> (Inl e, batch', st3)
                  | (Inr found, st3) \<Rightarrow> (Inr (had \<or> found), empty_batch, st3))
               else (Inr had, batch', st2)))"

text \<open>
  The loop: at each turn whether the run is being cancelled and what the stream returns. A range whose turns
  run out is still reading.
\<close>

type_synonym validate_turn = "bool \<times> cdm_record option result"

fun validate_loop ::
  "validate_env \<Rightarrow> validate_job \<Rightarrow> string \<Rightarrow> validate_counters \<Rightarrow> usize \<Rightarrow> validate_turn list
     \<Rightarrow> bool \<times> validate_batch \<times> validate_state \<Rightarrow> range_verdict result option \<times> validate_state" where
  "validate_loop env job label vc fetch_size [] s = (None, snd (snd s))"
| "validate_loop env job label vc fetch_size ((cancelled, nxt) # turns) s =
     (case s of (had, batch, st) \<Rightarrow>
      if cancelled then
        (case compare_batch env job label vc batch st of
           (Inl e, st') \<Rightarrow> (Some (Inl e), st')
         | (Inr _, st') \<Rightarrow> (Some (Inl validate_cancelled), st'))
      else case nxt of
        Inl e \<Rightarrow> (Some (Inl e), st)
      | Inr None \<Rightarrow>
          (case compare_batch env job label vc batch st of
             (Inl e, st') \<Rightarrow> (Some (Inl e), st')
           | (Inr found, st') \<Rightarrow> (Some (Inr (status_verdict (vt_counters st') (had \<or> found))), st'))
      | Inr (Some record) \<Rightarrow>
          (case validate_record env job label vc fetch_size record (had, batch, st) of
             (Inl e, _, st') \<Rightarrow> (Some (Inl e), st')
           | (Inr had', batch', st') \<Rightarrow> validate_loop env job label vc fetch_size turns (had', batch', st')))"

definition start_validate :: "job_counters \<Rightarrow> validate_state" where
  "start_validate c = \<lparr>vt_counters = c, vt_log = [], vt_findings = [], vt_writes = [], vt_lookups = 0\<rparr>"

definition process_validate_range ::
  "validate_env \<Rightarrow> validate_job \<Rightarrow> string \<Rightarrow> u32 \<Rightarrow> unit result \<Rightarrow> validate_turn list \<Rightarrow> job_counters
     \<Rightarrow> range_verdict result option \<times> validate_state" where
  "process_validate_range env job label fetch_size opened turns c =
     (case resolve_validate_counters c of
        Inl e \<Rightarrow> (Some (Inl e), start_validate c)
      | Inr vc \<Rightarrow>
          (case opened of
             Inl e \<Rightarrow> (Some (Inl e), start_validate c)
           | Inr _ \<Rightarrow> validate_loop env job label vc (max fetch_size 1) turns (False, empty_batch, start_validate c)))"

subsection \<open>Counter levels of a validate range\<close>

definition validate_range :: "job_counters \<Rightarrow> bool" where
  "validate_range c \<longleftrightarrow> wf_counters c \<and> jc_job c = Validate"

definition validate_tokens :: validate_counters where
  "validate_tokens = \<lparr>vc_read = Counter CRead Validate, vc_valid = Counter CValid Validate, vc_missing = Counter CMissing Validate,
     vc_mismatch = Counter CMismatch Validate, vc_corrected_missing = Counter CCorrectedMissing Validate,
     vc_corrected_mismatch = Counter CCorrectedMismatch Validate, vc_skipped = Counter CSkipped Validate\<rparr>"

lemma validate_tokens_simps [simp]:
  "vc_read validate_tokens = Counter CRead Validate" "vc_valid validate_tokens = Counter CValid Validate"
  "vc_missing validate_tokens = Counter CMissing Validate" "vc_mismatch validate_tokens = Counter CMismatch Validate"
  "vc_corrected_missing validate_tokens = Counter CCorrectedMissing Validate"
  "vc_corrected_mismatch validate_tokens = Counter CCorrectedMismatch Validate" "vc_skipped validate_tokens = Counter CSkipped Validate"
  by (simp_all add: validate_tokens_def)

definition validate_kinds :: "counter_kind set" where
  "validate_kinds = {CRead, CValid, CMissing, CMismatch, CCorrectedMissing, CCorrectedMismatch, CSkipped}"

lemma validate_token_of: "jc_job c = Validate \<Longrightarrow> k \<in> validate_kinds \<Longrightarrow> counter_of c k = Inr (Counter k Validate)"
  by (auto simp: counter_of_def is_registered_for_def validate_kinds_def)

lemma resolve_validate_tokens: "jc_job c = Validate \<Longrightarrow> resolve_validate_counters c = Inr validate_tokens"
  by (simp add: resolve_validate_counters_def validate_token_of validate_kinds_def validate_tokens_def)

abbreviation vlv :: "validate_state \<Rightarrow> counter_kind \<Rightarrow> u64" where
  "vlv st k \<equiv> count_of (vt_counters st) k Interim"

lemma bump_fields [simp]:
  "vt_writes (bump t st) = vt_writes st" "vt_findings (bump t st) = vt_findings st" "vt_lookups (bump t st) = vt_lookups st"
  "vt_writes (log_to l m st) = vt_writes st" "vt_findings (log_to l m st) = vt_findings st"
  "vt_lookups (log_to l m st) = vt_lookups st" "vt_counters (log_to l m st) = vt_counters st"
  "vt_writes (publish k key cs st) = vt_writes st" "vt_counters (publish k key cs st) = vt_counters st"
  "vt_lookups (publish k key cs st) = vt_lookups st"
  "vt_findings (publish k key cs st) = vt_findings st @ [\<lparr>dc_kind = k, dc_key = key, dc_columns = cs\<rparr>]"
  by (simp_all add: bump_def log_to_def publish_def)

lemma bump_validate:
  assumes "validate_range (vt_counters st)" "k \<in> validate_kinds"
  shows "validate_range (vt_counters (bump (Counter k Validate) st))"
    "vlv (bump (Counter k Validate) st) j = (if j = k then (vlv st k + 1) mod 2 ^ 64 else vlv st j)"
  using assms increment_level [of "vt_counters st" k "Counter k Validate" 1] validate_token_of [of "vt_counters st" k]
  by (auto simp: validate_range_def bump_def increment_one_def)

lemmas bump_kinds [simp] =
  bump_validate [of _ CRead, unfolded validate_kinds_def, simplified]
  bump_validate [of _ CValid, unfolded validate_kinds_def, simplified]
  bump_validate [of _ CMissing, unfolded validate_kinds_def, simplified]
  bump_validate [of _ CMismatch, unfolded validate_kinds_def, simplified]
  bump_validate [of _ CCorrectedMissing, unfolded validate_kinds_def, simplified]
  bump_validate [of _ CCorrectedMismatch, unfolded validate_kinds_def, simplified]
  bump_validate [of _ CSkipped, unfolded validate_kinds_def, simplified]

lemma validate_level: "validate_range c \<Longrightarrow> count_of c k Interim < 2 ^ 64"
  using wf_unit [of c k] by (auto simp: validate_range_def count_of_def unit_ok_def)

definition classified :: "validate_state \<Rightarrow> nat" where
  "classified st = vlv st CValid + vlv st CMissing + vlv st CMismatch + vlv st CSkipped"

text \<open>
  Between records: all but \<open>k\<close> of the rows read are classified, every discrepancy is reported once, the
  writes are the corrections counted, and \<open>had\<close> says whether there is a discrepancy.
\<close>

definition vsettled :: "nat \<Rightarrow> nat \<Rightarrow> bool \<Rightarrow> validate_state \<Rightarrow> bool" where
  "vsettled n k had st \<longleftrightarrow> validate_range (vt_counters st) \<and> vlv st CRead = n \<and> classified st + k = n
     \<and> vlv st CCorrectedMissing \<le> vlv st CMissing \<and> vlv st CCorrectedMismatch \<le> vlv st CMismatch
     \<and> length (vt_writes st) = vlv st CCorrectedMissing + vlv st CCorrectedMismatch
     \<and> length (vt_findings st) = vlv st CMissing + vlv st CMismatch
     \<and> (had \<longleftrightarrow> 0 < vlv st CMissing + vlv st CMismatch)"

text \<open>After a failure: no more rows are classified than were read.\<close>

definition failed_within :: "nat \<Rightarrow> validate_state \<Rightarrow> bool" where
  "failed_within n st \<longleftrightarrow> validate_range (vt_counters st) \<and> vlv st CRead = n \<and> classified st \<le> n"

lemma settled_bound: "vsettled n k had st \<Longrightarrow> n < 2 ^ 64"
  using validate_level [of "vt_counters st" CRead] by (simp add: vsettled_def)

lemma write_through_fields:
  assumes "write_through env w st = (r, st')"
  shows "vt_counters st' = vt_counters st" "vt_findings st' = vt_findings st" "vt_lookups st' = vt_lookups st"
    "r = Inr u \<Longrightarrow> vt_writes st' = vt_writes st @ [w]" "vt_writes st' \<in> {vt_writes st, vt_writes st @ [w]}"
  using assms by (auto simp: write_through_def split: sum.splits)

lemma settle_settled:
  assumes "vsettled n (Suc k) had st" "settle env job label validate_tokens record target c st = (r, st')"
  shows "case r of Inl e \<Rightarrow> failed_within n st' | Inr _ \<Rightarrow> vsettled n k (had \<or> is_discrepancy c) st'"
proof -
  have n: "n < 2 ^ 64" using settled_bound [OF assms(1)] .
  have st: "validate_range (vt_counters st)" "vlv st CRead = n" "classified st + Suc k = n"
    using assms(1) by (simp_all add: vsettled_def)
  have small: "vlv st CValid + 1 < 2 ^ 64" "vlv st CMissing + 1 < 2 ^ 64" "vlv st CMismatch + 1 < 2 ^ 64"
    "vlv st CCorrectedMissing + 1 < 2 ^ 64" "vlv st CCorrectedMismatch + 1 < 2 ^ 64"
    using assms(1) n by (simp_all add: vsettled_def classified_def)
  show ?thesis
  proof (cases c)
    case CompValid
    then show ?thesis using assms small by (auto simp: settle_def vsettled_def classified_def is_discrepancy_def)
  next
    case CompMissing
    define st1 where "st1 = log_to label (log_missing (rec_key record)) (bump (Counter CMissing Validate) st)"
    have st1: "failed_within n st1" using st small by (simp add: st1_def failed_within_def classified_def)
    show ?thesis
    proof (cases "ac_missing (vs_autocorrect (vj_settings job))
        \<and> \<not> (vs_target_is_counter (vj_settings job) \<and> \<not> ac_missing_counter (vs_autocorrect (vj_settings job)))")
      case False
      then show ?thesis using assms CompMissing st small
        by (auto simp: settle_def autocorrect_missing_def vsettled_def classified_def is_discrepancy_def split: if_splits)
    next
      case True
      obtain r2 st2 where w: "write_through env record st1 = (r2, st2)" by fastforce
      note fs = write_through_fields [OF w]
      show ?thesis
      proof (cases r2)
        case (Inl e)
        then show ?thesis using assms(2) CompMissing True w fs st1
          by (auto simp: settle_def autocorrect_missing_def st1_def failed_within_def classified_def)
      next
        case (Inr u)
        then show ?thesis using assms CompMissing True w fs st small
          by (auto simp: settle_def autocorrect_missing_def st1_def vsettled_def classified_def is_discrepancy_def)
      qed
    qed
  next
    case (CompMismatch ds)
    define st1 where "st1 = log_to label (log_mismatch (rec_key record) (mismatch_detail ds)) (bump (Counter CMismatch Validate) st)"
    have st1: "failed_within n st1" using st small by (simp add: st1_def failed_within_def classified_def)
    define record' where "record' = (case target of Some t \<Rightarrow> with_target (rec_origin t) record | None \<Rightarrow> record)"
    show ?thesis
    proof (cases "ac_mismatch (vs_autocorrect (vj_settings job))")
      case False
      then show ?thesis using assms CompMismatch st small
        by (auto simp: settle_def autocorrect_mismatch_def vsettled_def classified_def is_discrepancy_def)
    next
      case True
      obtain r2 st2 where w: "write_through env record' st1 = (r2, st2)" by fastforce
      note fs = write_through_fields [OF w]
      show ?thesis
      proof (cases r2)
        case (Inl e)
        then show ?thesis using assms(2) CompMismatch True w fs st1
          by (auto simp: settle_def autocorrect_mismatch_def st1_def record'_def failed_within_def classified_def)
      next
        case (Inr u)
        then show ?thesis using assms CompMismatch True w fs st small
          by (auto simp: settle_def autocorrect_mismatch_def st1_def record'_def vsettled_def classified_def
              is_discrepancy_def)
      qed
    qed
  qed
qed

subsection \<open>The counters of a range add up\<close>

lemma settled_failed: "vsettled n k had st \<Longrightarrow> failed_within n st"
  by (simp add: vsettled_def failed_within_def)

lemma compare_loop_settled:
  assumes "vsettled n (length inflight) had st" "length records = length inflight"
    and "compare_loop env job label validate_tokens inflight records had st = (r, st')"
  shows "case r of Inl e \<Rightarrow> failed_within n st' | Inr had' \<Rightarrow> vsettled n 0 had' st'"
  using assms
proof (induction inflight arbitrary: records had st)
  case (Cons outcome inflight)
  obtain first records' where rs: "records = first # records'" "length records' = length inflight"
    using Cons.prems(2) by (cases records) auto
  show ?case
  proof (cases "lookup_result outcome")
    case (Inl e)
    then show ?thesis using Cons.prems(3) rs settled_failed [OF Cons.prems(1)] by auto
  next
    case (Inr target)
    define c where "c = compare_row (vj_json job) (vj_plan job) first (map_option rec_origin target)"
    obtain r2 st2 where s: "settle env job label validate_tokens first target c st = (r2, st2)" by fastforce
    show ?thesis
    proof (cases r2)
      case (Inl e)
      then show ?thesis using Cons.prems(1,3) rs \<open>lookup_result outcome = Inr target\<close> s settle_settled [OF _ s]
        by (auto simp: c_def Let_def)
    next
      case (Inr u)
      then have "vsettled n (length inflight) (had \<or> is_discrepancy c) st2" using Cons.prems(1) settle_settled [OF _ s] by simp
      then show ?thesis using Cons.IH [OF _ rs(2)] Cons.prems(3) rs \<open>lookup_result outcome = Inr target\<close> s Inr
        by (simp add: c_def Let_def)
    qed
  qed
qed auto

lemma compare_loop_had:
  "compare_loop env job label vc inflight records (h \<or> had) st =
     (case compare_loop env job label vc inflight records had st of
        (Inl e, st') \<Rightarrow> (Inl e, st') | (Inr found, st') \<Rightarrow> (Inr (h \<or> found), st'))"
proof (induction env job label vc inflight records had st rule: compare_loop.induct)
  case (3 env job label vc outcome inflight first records had st)
  show ?case
  proof (cases "lookup_result outcome")
    case (Inr target)
    define c where "c = compare_row (vj_json job) (vj_plan job) first (map_option rec_origin target)"
    obtain r2 st2 where s: "settle env job label vc first target c st = (r2, st2)" by fastforce
    show ?thesis
      using 3 [OF Inr refl, folded c_def, OF s [symmetric]] Inr s
      by (cases r2) (simp_all add: c_def Let_def disj_assoc)
  qed simp
qed simp_all

lemma compare_batch_settled:
  assumes "vsettled n (length (vb_inflight batch)) had st" "length (vb_records batch) = length (vb_inflight batch)"
    and "compare_batch env job label validate_tokens batch st = (r, st')"
  shows "case r of Inl e \<Rightarrow> failed_within n st' | Inr found \<Rightarrow> vsettled n 0 (had \<or> found) st'"
  using compare_loop_settled [OF assms(1,2), of env job label] compare_loop_had [of env job label validate_tokens _ _ had False st] assms(3)
  by (auto simp: compare_batch_def split: prod.splits sum.splits)

definition range_settled :: "nat \<Rightarrow> bool \<times> validate_batch \<times> validate_state \<Rightarrow> bool" where
  "range_settled n s \<longleftrightarrow> (case s of (had, batch, st) \<Rightarrow>
     vsettled n (length (vb_inflight batch)) had st \<and> length (vb_records batch) = length (vb_inflight batch))"

lemma read_settled:
  assumes "vsettled n k had st" "n + 1 < 2 ^ 64"
  shows "vsettled (Suc n) (Suc k) had (bump (Counter CRead Validate) st)"
    "vsettled (Suc n) k had (bump (Counter CSkipped Validate) (bump (Counter CRead Validate) st))"
  using assms by (auto simp: vsettled_def classified_def)

lemma enqueue_lookup_settled:
  assumes "enqueue_lookup env record (batch, st) = (r, batch', st')" "vsettled n k had st"
  shows "vsettled n k had st'"
    "r = Inr u \<Longrightarrow> length (vb_inflight batch') = Suc (length (vb_inflight batch))
       \<and> length (vb_records batch') = Suc (length (vb_records batch))"
  using assms by (auto simp: enqueue_lookup_def vsettled_def classified_def split: sum.splits)

lemma validate_record_settled:
  assumes "range_settled n (had, batch, st)" "n + 1 < 2 ^ 64" "vj_explode job = None"
    and "validate_record env job label validate_tokens fetch_size record (had, batch, st) = (r, batch', st')"
  shows "case r of Inl e \<Rightarrow> failed_within (Suc n) st' | Inr had' \<Rightarrow> range_settled (Suc n) (had', batch', st')"
proof -
  have st: "vsettled n (length (vb_inflight batch)) had st" "length (vb_records batch) = length (vb_inflight batch)"
    using assms(1) by (simp_all add: range_settled_def)
  note rd = read_settled [OF st(1) assms(2)]
  define st1 where "st1 = bump (Counter CRead Validate) st"
  show ?thesis
  proof (cases "chain_accepts (vj_filters job) record")
    case (Inl e)
    then show ?thesis using assms(4) settled_failed [OF rd(1)] by (auto simp: validate_record_def Let_def split: sum.splits)
  next
    case (Inr accepted)
    show ?thesis
    proof (cases accepted)
      case False
      then show ?thesis using assms(4) Inr rd(2) st(2) by (auto simp: validate_record_def Let_def range_settled_def)
    next
      case True
      obtain r2 b2 st2 where e: "enqueue_lookup env record (batch, st1) = (r2, b2, st2)" by (cases "enqueue_lookup env record (batch, st1)") auto
      note q = enqueue_lookup_settled [OF e rd(1) [folded st1_def]]
      show ?thesis
      proof (cases r2)
        case (Inl e)
        then show ?thesis using assms(3,4) Inr True e settled_failed [OF q(1)]
          by (auto simp: validate_record_def enqueue_lookups_def st1_def Let_def split: sum.splits)
      next
        case (Inr u)
        then have lens: "length (vb_inflight b2) = Suc (length (vb_inflight batch))" "length (vb_records b2) = length (vb_inflight b2)"
          using q(2) st(2) by simp_all
        obtain r3 st3 where b: "compare_batch env job label validate_tokens b2 st2 = (r3, st3)" by fastforce
        have "case r3 of Inl e \<Rightarrow> failed_within (Suc n) st3 | Inr found \<Rightarrow> vsettled (Suc n) 0 (had \<or> found) st3"
          using compare_batch_settled [OF _ lens(2) b, of "Suc n" had] q(1) lens by simp
        then show ?thesis
          using assms(3,4) Inr True e b q(1) lens \<open>chain_accepts (vj_filters job) record = Inr accepted\<close>
          by (auto simp: validate_record_def enqueue_lookups_def st1_def Let_def range_settled_def empty_batch_def
              split: sum.splits if_splits)
      qed
    qed
  qed
qed

text \<open>How many records a range reads before it ends or is cancelled.\<close>

fun records_read :: "validate_turn list \<Rightarrow> nat" where
  "records_read ((False, Inr (Some record)) # turns) = Suc (records_read turns)"
| "records_read turns = 0"

lemma validate_loop_settled:
  assumes "range_settled n s" "n + length turns < 2 ^ 64" "vj_explode job = None"
    and "validate_loop env job label validate_tokens fetch_size turns s = (Some r, st')"
  shows "case r of
      Inl e \<Rightarrow> \<exists>n'. failed_within n' st'
    | Inr v \<Rightarrow> \<exists>had. vsettled (n + records_read turns) 0 had st' \<and> v = status_verdict (vt_counters st') had"
  using assms
proof (induction turns arbitrary: n s)
  case (Cons turn turns)
  obtain cancelled nxt where turn: "turn = (cancelled, nxt)" by fastforce
  obtain had batch st where s: "s = (had, batch, st)" by (cases s) auto
  have st: "vsettled n (length (vb_inflight batch)) had st" "length (vb_records batch) = length (vb_inflight batch)"
    using Cons.prems(1) s by (simp_all add: range_settled_def)
  obtain r2 st2 where b: "compare_batch env job label validate_tokens batch st = (r2, st2)" by fastforce
  note cb = compare_batch_settled [OF st b]
  consider (cancel) "cancelled" | (err) e where "\<not> cancelled" "nxt = Inl e" | (fin) "\<not> cancelled" "nxt = Inr None"
    | (next_rec) rec where "\<not> cancelled" "nxt = Inr (Some rec)"
    by (cases nxt) auto
  then show ?case
  proof cases
    case cancel
    then show ?thesis using Cons.prems(4) turn s b cb settled_failed by (fastforce split: sum.splits)
  next
    case err
    then show ?thesis using Cons.prems(4) turn s settled_failed [OF st(1)] by (auto split: sum.splits)
  next
    case fin
    then show ?thesis using Cons.prems(4) turn s b cb by (auto split: sum.splits)
  next
    case next_rec
    obtain r3 b3 st3 where v: "validate_record env job label validate_tokens fetch_size rec (had, batch, st) = (r3, b3, st3)"
      by (cases "validate_record env job label validate_tokens fetch_size rec (had, batch, st)") auto
    have n: "n + 1 < 2 ^ 64" using Cons.prems(2) by simp
    note step = validate_record_settled [OF Cons.prems(1) [unfolded s] n Cons.prems(3) v]
    show ?thesis
    proof (cases r3)
      case (Inl e)
      then show ?thesis using Cons.prems(4) turn s next_rec v step by auto
    next
      case (Inr had')
      have rr: "n + records_read (turn # turns) = Suc n + records_read turns" using turn next_rec by simp
      show ?thesis unfolding rr
        using Inr Cons.IH [of "Suc n" "(had', b3, st3)"] Cons.prems(2-4) turn s next_rec v step by simp
    qed
  qed
qed simp

lemma start_settled: "range_settled 0 (False, empty_batch, start_validate (new_counters Validate))"
  by (simp add: range_settled_def vsettled_def classified_def empty_batch_def start_validate_def validate_range_def count_of_def
      default_unit_def)

lemma process_from_start:
  assumes "process_validate_range env job label fetch_size opened turns (new_counters Validate) = (Some r, st)"
  obtains "\<exists>e. r = Inl e" "st = start_validate (new_counters Validate)"
    | "validate_loop env job label validate_tokens (max fetch_size 1) turns (False, empty_batch, start_validate (new_counters Validate)) = (Some r, st)"
  using assms resolve_validate_tokens [of "new_counters Validate"] by (auto simp: process_validate_range_def split: sum.splits)

text \<open>
  Claim C12. A validated range, of a job without an exploded map, accounts for every origin row: each row read is valid, missing, mismatched or skipped,
  every discrepancy is reported once and the rows written are the corrections counted. Its verdict says
  no more than that: PASS when nothing differed, DIFF_CORRECTED when something did and every differing
  row was written (VAL-002 to VAL-008, VAL-016).
\<close>

theorem validate_counts_add_up:
  assumes "process_validate_range env job label fetch_size opened turns (new_counters Validate) = (Some (Inr v), st)"
    and "vj_explode job = None" "length turns < 2 ^ 64"
  shows "vlv st CRead = records_read turns \<and> vlv st CRead = vlv st CValid + vlv st CMissing + vlv st CMismatch + vlv st CSkipped
    \<and> length (vt_findings st) = vlv st CMissing + vlv st CMismatch
    \<and> length (vt_writes st) = vlv st CCorrectedMissing + vlv st CCorrectedMismatch
    \<and> (v = VPass \<longleftrightarrow> length (vt_findings st) = 0)
    \<and> (v = VDiffCorrected \<longleftrightarrow> 0 < length (vt_findings st) \<and> length (vt_writes st) = length (vt_findings st))"
proof -
  have loop: "validate_loop env job label validate_tokens (max fetch_size 1) turns
      (False, empty_batch, start_validate (new_counters Validate)) = (Some (Inr v), st)"
    using process_from_start [OF assms(1)] by auto
  obtain had where "vsettled (records_read turns) 0 had st" "v = status_verdict (vt_counters st) had"
    using validate_loop_settled [OF start_settled _ assms(2) loop] assms(3) by auto
  then show ?thesis by (auto simp: vsettled_def classified_def status_verdict_def)
qed

text \<open>
  When a validate range fails, the rows the scheduler adds to ERROR are exactly the rows that were read and not
  classified: the classified rows never exceed the rows read, so the subtraction loses nothing (ENG-008).
\<close>

theorem failed_validate_range_counts_lost_rows:
  assumes "process_validate_range env job label fetch_size opened turns (new_counters Validate) = (Some (Inl e), st)"
    and "vj_explode job = None" "length turns < 2 ^ 64"
  shows "lost_rows (vt_counters st) + (vlv st CValid + vlv st CMissing + vlv st CMismatch + vlv st CSkipped) = vlv st CRead"
proof -
  have "\<exists>n. failed_within n st"
    using assms(1)
  proof (cases rule: process_from_start)
    case 1
    have "vsettled 0 0 False (start_validate (new_counters Validate))"
      using start_settled by (simp add: range_settled_def empty_batch_def)
    then show ?thesis using 1 settled_failed by blast
  next
    case 2
    then show ?thesis using validate_loop_settled [OF start_settled _ assms(2) 2] assms(3) by auto
  qed
  then obtain n where f: "failed_within n st" by blast
  then have "lost_rows (vt_counters st) = vlv st CRead - vlv st CValid - vlv st CMissing - vlv st CMismatch - vlv st CSkipped"
    by (simp add: failed_within_def validate_range_def lost_rows_def Let_def)
  then show ?thesis using f by (simp add: failed_within_def classified_def)
qed

subsection \<open>Which rows are written\<close>

text \<open>A row without a fetched target row is a re-insert; one with it is the correction of a mismatch.\<close>

definition permitted :: "validate_settings \<Rightarrow> cdm_record \<Rightarrow> bool" where
  "permitted s w \<longleftrightarrow> (if rec_target w = None
     then ac_missing (vs_autocorrect s) \<and> (vs_target_is_counter s \<longrightarrow> ac_missing_counter (vs_autocorrect s))
     else ac_mismatch (vs_autocorrect s))"

definition writes_permitted :: "validate_settings \<Rightarrow> validate_state \<Rightarrow> bool" where
  "writes_permitted s st \<longleftrightarrow> (\<forall>w \<in> set (vt_writes st). permitted s w)"

lemma write_through_permitted:
  "write_through env w st = (r, st') \<Longrightarrow> permitted s w \<Longrightarrow> writes_permitted s st \<Longrightarrow> writes_permitted s st'"
  using write_through_fields(5) [of env w st r st'] by (auto simp: writes_permitted_def)

lemma writes_permitted_simps [simp]:
  "writes_permitted s (bump t st) = writes_permitted s st" "writes_permitted s (log_to l m st) = writes_permitted s st"
  "writes_permitted s (publish k key cs st) = writes_permitted s st"
  "writes_permitted s (st\<lparr>vt_lookups := n\<rparr>) = writes_permitted s st"
  by (simp_all add: writes_permitted_def)

lemma settle_permitted:
  assumes "writes_permitted (vj_settings job) st" "rec_target record = None"
    and "c = compare_row J p record (map_option rec_origin target)"
    and "settle env job label vc record target c st = (r, st')"
  shows "writes_permitted (vj_settings job) st'"
proof (cases c)
  case CompValid
  then show ?thesis using assms by (auto simp: settle_def)
next
  case CompMissing
  have "permitted (vj_settings job) record"
    if "ac_missing (vs_autocorrect (vj_settings job))"
      "\<not> (vs_target_is_counter (vj_settings job) \<and> \<not> ac_missing_counter (vs_autocorrect (vj_settings job)))"
    using that assms(2) by (auto simp: permitted_def)
  then show ?thesis using assms(1,4) CompMissing
    by (auto simp: settle_def autocorrect_missing_def split: prod.splits sum.splits if_splits dest!: write_through_permitted)
next
  case (CompMismatch ds)
  then obtain t where t: "target = Some t" using assms(3) by (cases target) (auto simp: compare_row_def)
  have "permitted (vj_settings job) (with_target (rec_origin t) record)" if "ac_mismatch (vs_autocorrect (vj_settings job))"
    using that by (simp add: permitted_def with_target_def)
  then show ?thesis using assms(1,4) CompMismatch t
    by (auto simp: settle_def autocorrect_mismatch_def split: prod.splits sum.splits if_splits dest!: write_through_permitted)
qed

lemma compare_loop_permitted:
  assumes "writes_permitted (vj_settings job) st" "\<forall>r \<in> set records. rec_target r = None"
    and "compare_loop env job label vc inflight records had st = (r, st')"
  shows "writes_permitted (vj_settings job) st'"
  using assms
proof (induction env job label vc inflight records had st rule: compare_loop.induct)
  case (3 env job label vc outcome inflight first records had st)
  show ?case
  proof (cases "lookup_result outcome")
    case (Inr target)
    define c where "c = compare_row (vj_json job) (vj_plan job) first (map_option rec_origin target)"
    obtain r2 st2 where s: "settle env job label vc first target c st = (r2, st2)" by fastforce
    have "writes_permitted (vj_settings job) st2" using settle_permitted [OF 3(2) _ c_def s] 3(3) by simp
    then show ?thesis
      using 3(1) [OF Inr refl, folded c_def, OF s [symmetric]] 3(3,4) Inr s by (cases r2) (simp_all add: c_def Let_def)
  qed (use 3 in auto)
qed auto

lemma enqueue_lookup_permitted:
  assumes "enqueue_lookup env record (batch, st) = (r, batch', st')" "rec_target record = None"
    and "\<forall>x \<in> set (vb_records batch). rec_target x = None"
  shows "\<forall>x \<in> set (vb_records batch'). rec_target x = None" "vt_writes st' = vt_writes st"
  using assms by (auto simp: enqueue_lookup_def split: sum.splits)

lemma enqueue_entries_permitted:
  assumes "enqueue_entries env keys record entries (batch, st) = (r, batch', st')" "rec_target record = None"
    and "\<forall>x \<in> set (vb_records batch). rec_target x = None"
  shows "(\<forall>x \<in> set (vb_records batch'). rec_target x = None) \<and> vt_writes st' = vt_writes st"
  using assms
proof (induction entries arbitrary: batch st)
  case (Cons entry entries)
  define w where "w = with_exploded entry (with_key (key_of keys (rec_origin record)
      \<lparr>kp_key = cell_bytes (entry_key entry), kp_value = cell_bytes (entry_value entry)\<rparr>) record)"
  obtain r2 b2 st2 where e: "enqueue_lookup env w (batch, st) = (r2, b2, st2)" by (cases "enqueue_lookup env w (batch, st)") auto
  have w: "rec_target w = None" using Cons.prems(2) by (simp add: w_def with_exploded_def with_key_def)
  note q = enqueue_lookup_permitted [OF e w Cons.prems(3)]
  show ?case using Cons.prems(1) e q Cons.IH [of b2 st2] Cons.prems(2)
    by (cases r2) (auto simp: Let_def w_def)
qed auto

lemma enqueue_lookups_permitted:
  assumes "enqueue_lookups env job record (batch, st) = (r, batch', st')" "rec_target record = None"
    and "\<forall>x \<in> set (vb_records batch). rec_target x = None"
  shows "(\<forall>x \<in> set (vb_records batch'). rec_target x = None) \<and> vt_writes st' = vt_writes st"
proof (cases "vj_explode job")
  case None
  obtain r2 b2 st2 where e: "enqueue_lookup env record (batch, st) = (r2, b2, st2)"
    by (cases "enqueue_lookup env record (batch, st)") auto
  show ?thesis using assms(1) None e enqueue_lookup_permitted [OF e assms(2,3)]
    by (auto simp: enqueue_lookups_def split: sum.splits)
next
  case (Some x)
  obtain pl keys where x: "x = (pl, keys)" by fastforce
  show ?thesis
  proof (cases "explode_record pl record")
    case (Inl e)
    then show ?thesis using assms Some x by (auto simp: enqueue_lookups_def)
  next
    case (Inr entries)
    obtain r2 b2 st2 where e: "enqueue_entries env keys record entries (batch, st) = (r2, b2, st2)"
      by (cases "enqueue_entries env keys record entries (batch, st)") auto
    show ?thesis using assms(1) Some x Inr e enqueue_entries_permitted [OF e assms(2,3)]
      by (auto simp: enqueue_lookups_def split: sum.splits)
  qed
qed

definition range_permitted :: "validate_settings \<Rightarrow> bool \<times> validate_batch \<times> validate_state \<Rightarrow> bool" where
  "range_permitted s x \<longleftrightarrow> (case x of (had, batch, st) \<Rightarrow>
     writes_permitted s st \<and> (\<forall>r \<in> set (vb_records batch). rec_target r = None))"

lemma compare_batch_permitted:
  assumes "range_permitted (vj_settings job) (had, batch, st)" "compare_batch env job label vc batch st = (r, st')"
  shows "writes_permitted (vj_settings job) st'"
  using assms compare_loop_permitted [of job st "vb_records batch"] by (auto simp: range_permitted_def compare_batch_def)

lemma validate_record_permitted:
  assumes "range_permitted (vj_settings job) (had, batch, st)" "rec_target record = None"
    and "validate_record env job label vc fetch_size record (had, batch, st) = (r, batch', st')"
  shows "range_permitted (vj_settings job) (had', batch', st')"
proof -
  define st1 where "st1 = bump (vc_read vc) st"
  obtain r2 b2 st2 where e: "enqueue_lookups env job record (batch, st1) = (r2, b2, st2)"
    by (cases "enqueue_lookups env job record (batch, st1)") auto
  have q: "\<forall>x \<in> set (vb_records b2). rec_target x = None" "vt_writes st2 = vt_writes st"
    using enqueue_lookups_permitted [OF e assms(2)] assms(1) by (auto simp: range_permitted_def st1_def)
  then have p: "range_permitted (vj_settings job) (had, b2, st2)" "range_permitted (vj_settings job) (had, batch, st1)"
    using assms(1) by (auto simp: range_permitted_def writes_permitted_def st1_def)
  obtain r3 st3 where b: "compare_batch env job label vc b2 st2 = (r3, st3)" by fastforce
  note cb = compare_batch_permitted [OF p(1) b]
  show ?thesis
    using assms(3) e b p q(1) cb
    by (auto simp: validate_record_def st1_def [symmetric] Let_def range_permitted_def empty_batch_def
        split: sum.splits bool.splits if_splits)
qed

lemma validate_loop_permitted:
  assumes "range_permitted (vj_settings job) s" "\<forall>(c, x) \<in> set turns. \<forall>r. x = Inr (Some r) \<longrightarrow> rec_target r = None"
    and "validate_loop env job label vc fetch_size turns s = (out, st')"
  shows "writes_permitted (vj_settings job) st'"
  using assms
proof (induction turns arbitrary: s)
  case Nil
  then show ?case by (auto simp: range_permitted_def)
next
  case (Cons turn turns)
  obtain cancelled nxt where turn: "turn = (cancelled, nxt)" by fastforce
  obtain had batch st where s: "s = (had, batch, st)" by (cases s) auto
  obtain r2 st2 where b: "compare_batch env job label vc batch st = (r2, st2)" by fastforce
  have w: "writes_permitted (vj_settings job) st2" "writes_permitted (vj_settings job) st"
    using compare_batch_permitted [OF Cons.prems(1) [unfolded s] b] Cons.prems(1) s by (simp_all add: range_permitted_def)
  show ?case
  proof (cases "\<not> cancelled \<and> (\<exists>rec. nxt = Inr (Some rec))")
    case True
    then obtain rec where rec: "nxt = Inr (Some rec)" "rec_target rec = None" using Cons.prems(2) turn by auto
    obtain r3 b3 st3 where v: "validate_record env job label vc fetch_size rec (had, batch, st) = (r3, b3, st3)"
      by (cases "validate_record env job label vc fetch_size rec (had, batch, st)") auto
    note p = validate_record_permitted [OF Cons.prems(1) [unfolded s] rec(2) v]
    show ?thesis
    proof (cases r3)
      case (Inl e)
      then show ?thesis using Cons.prems(3) turn s True rec v p by (auto simp: range_permitted_def)
    next
      case (Inr had')
      then show ?thesis using Cons.IH [of "(had', b3, st3)"] Cons.prems(2,3) turn s True rec v p by auto
    qed
  next
    case False
    then show ?thesis using Cons.prems(3) turn s b w by (auto split: sum.splits option.splits if_splits)
  qed
qed

text \<open>
  Claim C16. Validate writes only what the settings ask for, whether the range ends, fails or is cut off: a row is
  re-inserted only when missing rows are to be corrected, and in a counter table only with the explicit
  opt-in, and an existing row is rewritten, with its fetched target row attached, only when mismatches
  are to be corrected (VAL-003, VAL-004, VAL-007). With neither, nothing is written.
\<close>

theorem validate_writes_permitted:
  assumes "process_validate_range env job label fetch_size opened turns c = (out, st)"
    and "\<forall>(b, x) \<in> set turns. \<forall>r. x = Inr (Some r) \<longrightarrow> rec_target r = None" "w \<in> set (vt_writes st)"
  shows "(rec_target w = None \<longrightarrow> ac_missing (vs_autocorrect (vj_settings job))
      \<and> (vs_target_is_counter (vj_settings job) \<longrightarrow> ac_missing_counter (vs_autocorrect (vj_settings job))))
    \<and> (rec_target w \<noteq> None \<longrightarrow> ac_mismatch (vs_autocorrect (vj_settings job)))"
proof -
  have start: "range_permitted (vj_settings job) (False, empty_batch, start_validate c)"
    by (simp add: range_permitted_def writes_permitted_def empty_batch_def start_validate_def)
  have "writes_permitted (vj_settings job) st"
    using assms(1) start validate_loop_permitted [OF start assms(2)]
    by (auto simp: process_validate_range_def range_permitted_def split: sum.splits)
  then show ?thesis using assms(3) by (auto simp: writes_permitted_def permitted_def split: if_splits)
qed

subsection \<open>Cancellation\<close>

text \<open>A read-only range on which nothing fails: lookups answer, slots are granted, filters decide.\<close>

definition undisturbed :: "validate_env \<Rightarrow> validate_job \<Rightarrow> bool" where
  "undisturbed env job \<longleftrightarrow> (\<forall>i key. \<exists>t. ve_fetch env i key = LookupOk t) \<and> (\<forall>i. ve_write_slot env i = Inr ())
     \<and> (\<forall>r. \<exists>b. chain_accepts (vj_filters job) r = Inr b) \<and> vj_explode job = None \<and> \<not> writes_to_target (vj_settings job)"

definition answered :: "validate_batch \<Rightarrow> bool" where
  "answered batch \<longleftrightarrow> (\<forall>x \<in> set (vb_inflight batch). \<exists>t. x = LookupOk t)"

lemma settle_undisturbed: "undisturbed env job \<Longrightarrow> \<exists>st'. settle env job label vc record target c st = (Inr (), st')"
  by (cases c) (simp_all add: undisturbed_def writes_to_target_def settle_def autocorrect_missing_def autocorrect_mismatch_def)

lemma compare_loop_undisturbed:
  assumes "undisturbed env job" "length records = length inflight" "\<forall>x \<in> set inflight. \<exists>t. x = LookupOk t"
  shows "\<exists>found st'. compare_loop env job label vc inflight records had st = (Inr found, st')"
  using assms(2,3)
proof (induction inflight arbitrary: records had st)
  case (Cons outcome inflight)
  obtain first records' where rs: "records = first # records'" "length records' = length inflight"
    using Cons.prems(1) by (cases records) auto
  obtain target where o: "outcome = LookupOk target" using Cons.prems(2) by auto
  define c where "c = compare_row (vj_json job) (vj_plan job) first (map_option rec_origin target)"
  obtain st' where s: "settle env job label vc first target c st = (Inr (), st')" using settle_undisturbed [OF assms(1)] by blast
  show ?case using Cons.IH [OF rs(2)] Cons.prems(2) rs(1) o s by (simp add: lookup_result_def c_def Let_def)
qed simp

lemma compare_batch_undisturbed:
  assumes "undisturbed env job" "length (vb_records batch) = length (vb_inflight batch)" "answered batch"
  obtains found st' where "compare_batch env job label vc batch st = (Inr found, st')"
  using compare_loop_undisturbed [OF assms(1,2)] assms(3) unfolding answered_def compare_batch_def by blast

lemma validate_record_undisturbed:
  assumes "undisturbed env job" "length (vb_records batch) = length (vb_inflight batch)" "answered batch"
  obtains had' batch' st' where "validate_record env job label vc fetch_size record (had, batch, st) = (Inr had', batch', st')"
    "answered batch'"
proof -
  obtain accepted where a: "chain_accepts (vj_filters job) record = Inr accepted" using assms(1) unfolding undisturbed_def by blast
  obtain t where fetched: "ve_fetch env (vt_lookups (bump (vc_read vc) st)) (rec_key record) = LookupOk t"
    using assms(1) unfolding undisturbed_def by blast
  define b2 where "b2 = batch\<lparr>vb_records := vb_records batch @ [record], vb_inflight := vb_inflight batch @ [LookupOk t]\<rparr>"
  define st2 where "st2 = (bump (vc_read vc) st)\<lparr>vt_lookups := vt_lookups (bump (vc_read vc) st) + 1\<rparr>"
  have b2: "length (vb_records b2) = length (vb_inflight b2)" "answered b2" using assms(2,3) by (auto simp: b2_def answered_def)
  obtain found st3 where b: "compare_batch env job label vc b2 st2 = (Inr found, st3)"
    using compare_batch_undisturbed [OF assms(1) b2] by blast
  have e: "enqueue_lookups env job record (batch, bump (vc_read vc) st) = (Inr 1, b2, st2)"
    using assms(1) fetched by (simp add: enqueue_lookups_def enqueue_lookup_def undisturbed_def b2_def st2_def)
  show ?thesis
  proof (cases accepted)
    case False
    then show ?thesis using that a assms(3) by (simp add: validate_record_def Let_def)
  next
    case True
    show ?thesis
    proof (cases "fetch_size \<le> length (vb_records b2)")
      case True
      then show ?thesis using that [of "had \<or> found" empty_batch st3] a \<open>accepted\<close> e b
        by (simp add: validate_record_def Let_def answered_def empty_batch_def)
    next
      case False
      then show ?thesis using that [of had b2 st2] a \<open>accepted\<close> e b2(2) by (simp add: validate_record_def Let_def)
    qed
  qed
qed

lemma validate_loop_cancelled:
  assumes "undisturbed env job" "range_settled n (had, batch, st)" "answered batch" "n + length turns < 2 ^ 64"
    and "records_read turns < length turns" "fst (turns ! records_read turns)"
  shows "\<exists>st' found. validate_loop env job label validate_tokens fetch_size turns (had, batch, st) = (Some (Inl validate_cancelled), st')
    \<and> vsettled (n + records_read turns) 0 found st'"
  using assms(2-)
proof (induction turns arbitrary: n had batch st)
  case (Cons turn turns)
  obtain cancelled nxt where turn: "turn = (cancelled, nxt)" by fastforce
  have st: "vsettled n (length (vb_inflight batch)) had st" "length (vb_records batch) = length (vb_inflight batch)"
    using Cons.prems(1) by (simp_all add: range_settled_def)
  show ?case
  proof (cases cancelled)
    case True
    obtain found st2 where b: "compare_batch env job label validate_tokens batch st = (Inr found, st2)"
      using compare_batch_undisturbed [OF assms(1) st(2) Cons.prems(2)] by blast
    then show ?thesis using True turn compare_batch_settled [OF st b] by auto
  next
    case False
    then obtain rec where rec: "nxt = Inr (Some rec)" using Cons.prems(5) turn by (cases nxt; cases "projr nxt") auto
    obtain had' b2 st2 where v: "validate_record env job label validate_tokens fetch_size rec (had, batch, st) = (Inr had', b2, st2)"
      "answered b2"
      using validate_record_undisturbed [OF assms(1) st(2) Cons.prems(2)] by blast
    have "n + 1 < 2 ^ 64" "vj_explode job = None" using Cons.prems(3) assms(1) by (simp_all add: undisturbed_def)
    then have "range_settled (Suc n) (had', b2, st2)" using validate_record_settled [OF Cons.prems(1) _ _ v(1)] by simp
    then show ?thesis using Cons.IH [OF _ v(2), of "Suc n" had' st2] Cons.prems(3-5) turn False rec v(1) by simp
  qed
qed simp

text \<open>
  Claim C17. A cancelled read-only range winds down, when the filters decide, lookups and slots are answered and
  there is no exploded map: it stops at the first turn at which the run is cancelled, compares the lookups it
  has issued, and ends with Cancelled after classifying every row it read, so that no row is counted
  lost (ENG-010).
\<close>

theorem cancelled_range_settles_lookups:
  assumes "undisturbed env job" "length turns < 2 ^ 64" "records_read turns < length turns" "fst (turns ! records_read turns)"
  shows "\<exists>st. process_validate_range env job label fetch_size (Inr ()) turns (new_counters Validate) = (Some (Inl validate_cancelled), st)
    \<and> vlv st CRead = records_read turns \<and> lost_rows (vt_counters st) = 0"
proof -
  have "answered empty_batch" by (simp add: answered_def empty_batch_def)
  then obtain st found where loop: "validate_loop env job label validate_tokens (max fetch_size 1) turns
      (False, empty_batch, start_validate (new_counters Validate)) = (Some (Inl validate_cancelled), st)"
    and s: "vsettled (records_read turns) 0 found st"
    using validate_loop_cancelled [OF assms(1) start_settled, of turns label "max fetch_size 1"] assms(2-4) by auto
  have "lost_rows (vt_counters st) = 0"
    using s by (simp add: vsettled_def classified_def validate_range_def lost_rows_def Let_def)
  then show ?thesis using loop s resolve_validate_tokens [of "new_counters Validate"]
    by (auto simp: process_validate_range_def vsettled_def)
qed

subsection \<open>Ranges end to end\<close>

definition demo_validate :: "bool \<Rightarrow> validate_job" where
  "demo_validate correct = \<lparr>vj_plan = users_comparison, vj_json = demo_json_lib, vj_filters = [], vj_explode = None,
     vj_settings = \<lparr>vs_autocorrect = \<lparr>ac_missing = correct, ac_mismatch = correct, ac_missing_counter = False\<rparr>,
       vs_target_is_counter = False\<rparr>\<rparr>"

text \<open>The second lookup finds no row; the others find the row of the record.\<close>

definition demo_target_env :: validate_env where
  "demo_target_env = \<lparr>ve_fetch = (\<lambda>i key. LookupOk (if i = 1 then None else Some user_record)),
     ve_write_slot = (\<lambda>_. Inr ()), ve_write = (\<lambda>_ _. Inr ()), ve_flush = (\<lambda>_. Inr ())\<rparr>"

definition demo_turns :: "bool \<Rightarrow> validate_turn list" where
  "demo_turns cancelled = [(False, Inr (Some user_record)), (False, Inr (Some user_record)), (cancelled, Inr None)]"

definition demo_validated :: "bool \<Rightarrow> bool \<Rightarrow> range_verdict result option \<times> validate_state" where
  "demo_validated correct cancelled =
     process_validate_range demo_target_env (demo_validate correct) ''0:1'' 1 (Inr ()) (demo_turns cancelled) (new_counters Validate)"

lemma demo_compared:
  "compare_row demo_json_lib users_comparison user_record (Some (rec_origin user_record)) = CompValid"
  "compare_row demo_json_lib users_comparison user_record None = CompMissing"
  by code_simp+

lemma demo_start: "validate_range (vt_counters (start_validate (new_counters Validate)))"
  "vlv (start_validate (new_counters Validate)) k = 0" "vt_lookups (start_validate c) = 0" "vt_writes (start_validate c) = []"
  by (simp_all add: start_validate_def validate_range_def count_of_def default_unit_def)

lemma demo_validated_runs:
  "fst (demo_validated True False) = Some (Inr VDiffCorrected)" "vt_writes (snd (demo_validated True False)) = [user_record]"
  "fst (demo_validated True True) = Some (Inl validate_cancelled)"
  using demo_start
  by (simp_all add: demo_validated_def process_validate_range_def resolve_validate_tokens demo_turns_def validate_record_def
      demo_validate_def demo_target_env_def enqueue_lookups_def enqueue_lookup_def empty_batch_def compare_batch_def lookup_result_def
      Let_def demo_compared settle_def autocorrect_missing_def write_through_def is_discrepancy_def status_verdict_def)

lemma demo_turns_simps: "records_read (demo_turns c) = 2" "length (demo_turns c) = 3" "fst (demo_turns True ! 2)"
  by (simp_all add: demo_turns_def)

lemma user_record_read: "rec_target user_record = None"
  by (simp add: user_record_def new_record_def)

theorem validate_counts_add_up_witness:
  "vlv (snd (demo_validated True False)) CRead = 2
   \<and> vlv (snd (demo_validated True False)) CValid + vlv (snd (demo_validated True False)) CMissing
     + vlv (snd (demo_validated True False)) CMismatch + vlv (snd (demo_validated True False)) CSkipped = 2
   \<and> length (vt_findings (snd (demo_validated True False))) = 1"
proof -
  have run: "process_validate_range demo_target_env (demo_validate True) ''0:1'' 1 (Inr ()) (demo_turns False) (new_counters Validate)
      = (Some (Inr VDiffCorrected), snd (demo_validated True False))"
    using demo_validated_runs(1) unfolding demo_validated_def by (metis prod.collapse)
  have "vj_explode (demo_validate True) = None" by (simp add: demo_validate_def)
  from validate_counts_add_up [OF run this] show ?thesis using demo_validated_runs(2) demo_turns_simps by simp
qed

theorem failed_validate_range_counts_lost_rows_witness:
  "lost_rows (vt_counters (snd (demo_validated True True)))
   + (vlv (snd (demo_validated True True)) CValid + vlv (snd (demo_validated True True)) CMissing
     + vlv (snd (demo_validated True True)) CMismatch + vlv (snd (demo_validated True True)) CSkipped)
   = vlv (snd (demo_validated True True)) CRead"
proof -
  have run: "process_validate_range demo_target_env (demo_validate True) ''0:1'' 1 (Inr ()) (demo_turns True) (new_counters Validate)
      = (Some (Inl validate_cancelled), snd (demo_validated True True))"
    using demo_validated_runs(3) unfolding demo_validated_def by (metis prod.collapse)
  have "vj_explode (demo_validate True) = None" by (simp add: demo_validate_def)
  from failed_validate_range_counts_lost_rows [OF run this] show ?thesis using demo_turns_simps by simp
qed

theorem validate_writes_permitted_witness:
  "vt_writes (snd (demo_validated True False)) = [user_record] \<and> rec_target user_record = None
   \<and> ac_missing (vs_autocorrect (vj_settings (demo_validate True)))"
proof -
  have run: "process_validate_range demo_target_env (demo_validate True) ''0:1'' 1 (Inr ()) (demo_turns False) (new_counters Validate)
      = (fst (demo_validated True False), snd (demo_validated True False))" by (simp add: demo_validated_def)
  have turns: "\<forall>(b, x) \<in> set (demo_turns False). \<forall>r. x = Inr (Some r) \<longrightarrow> rec_target r = None"
    by (auto simp: demo_turns_def user_record_read)
  have "user_record \<in> set (vt_writes (snd (demo_validated True False)))" using demo_validated_runs(2) by simp
  from validate_writes_permitted [OF run turns this] show ?thesis
    using demo_validated_runs(2) user_record_read by blast
qed

theorem cancelled_range_settles_lookups_witness:
  "\<exists>st. process_validate_range demo_target_env (demo_validate False) ''0:1'' 10 (Inr ()) (demo_turns True) (new_counters Validate)
     = (Some (Inl validate_cancelled), st) \<and> vlv st CRead = 2 \<and> lost_rows (vt_counters st) = 0"
proof -
  have "undisturbed demo_target_env (demo_validate False)"
    by (auto simp: undisturbed_def demo_target_env_def demo_validate_def writes_to_target_def)
  from cancelled_range_settles_lookups [OF this, of "demo_turns True" "''0:1''" 10] show ?thesis
    using demo_turns_simps by simp
qed

end
