(* ===== verification/Feature_Constant.thy ===== *)
theory Feature_Constant
  imports Feature_Literal
begin

text \<open>
  Constant columns: \<open>crates/cdm-feature/src/constant.rs\<close>. Names and values are read from two lists, the values
  split by a configured regular expression; the regular-expression engine is an argument of \<open>load\<close>.

  The lemmas show that a configuration that validates also resolves, one constant per name, each with a
  value of its column's type.
\<close>

definition CONSTANT_COLUMN_NAMES :: property_key where
  "CONSTANT_COLUMN_NAMES = property ''feature.constant_columns.names'' ''spark.cdm.feature.constantColumns.names''"

definition CONSTANT_COLUMN_VALUES :: property_key where
  "CONSTANT_COLUMN_VALUES = property ''feature.constant_columns.values'' ''spark.cdm.feature.constantColumns.values''"

definition CONSTANT_COLUMN_SPLIT_REGEX :: property_key where
  "CONSTANT_COLUMN_SPLIT_REGEX = property ''feature.constant_columns.split_regex'' ''spark.cdm.feature.constantColumns.splitRegex''"

datatype constant_origin = SourceConstant | SourceOrigin | SourceAbsent

record resolved_constant =
  rc_name :: string
  rc_literal :: string
  rc_value :: raw_cell
  rc_type :: cql_type_info
  rc_key :: bool

record constant_columns =
  ccs_names :: "string list"
  ccs_values :: "string list"

text \<open>Compiling a pattern gives its error or the function that splits a text at the matches.\<close>

type_synonym regex_engine = "string \<Rightarrow> string + (string \<Rightarrow> string list)"

definition load_constant_columns :: "regex_engine \<Rightarrow> effective_config \<Rightarrow> constant_columns result" where
  "load_constant_columns compile config =
     (let names = list_property config CONSTANT_COLUMN_NAMES in
      case raw_property config CONSTANT_COLUMN_VALUES of
        None \<Rightarrow> Inr \<lparr>ccs_names = names, ccs_values = []\<rparr>
      | Some values \<Rightarrow>
          let pattern = or_default '','' (raw_property config CONSTANT_COLUMN_SPLIT_REGEX) in
          if pattern = []
          then Inl (with_context (with_config_key (pk_canonical CONSTANT_COLUMN_SPLIT_REGEX)) (new_error Config
                 (''`'' @ pk_canonical CONSTANT_COLUMN_VALUES @ ''` is set but `'' @ pk_canonical CONSTANT_COLUMN_SPLIT_REGEX
                  @ ''` is empty; cdm-rs will not guess how to split the values'')))
          else case compile pattern of
            Inl cause \<Rightarrow> Inl (with_source cause (with_context (with_config_key (pk_canonical CONSTANT_COLUMN_SPLIT_REGEX))
                   (new_error Config (''`'' @ pattern @ ''` is not a valid regular expression''))))
          | Inr split_at \<Rightarrow> Inr \<lparr>ccs_names = names, ccs_values = map trim (split_at values)\<rparr>)"

definition constants_is_enabled :: "constant_columns \<Rightarrow> bool" where
  "constants_is_enabled c \<longleftrightarrow> ccs_names c \<noteq> []"

definition constant_literal :: "constant_columns \<Rightarrow> string \<Rightarrow> string option" where
  "constant_literal c column =
     (case List.find (\<lambda>i. ccs_names c ! i = column) [0..<length (ccs_names c)] of
        None \<Rightarrow> None
      | Some i \<Rightarrow> if i < length (ccs_values c) then Some (ccs_values c ! i) else None)"

definition is_constant :: "constant_columns \<Rightarrow> string \<Rightarrow> bool" where
  "is_constant c column \<longleftrightarrow> list_ex (\<lambda>n. n = column) (ccs_names c)"

definition validate_cardinality :: "constant_columns \<Rightarrow> diagnostic list" where
  "validate_cardinality c =
     (if ccs_names c = [] \<and> ccs_values c = [] then []
      else if length (ccs_names c) = length (ccs_values c) \<and> ccs_names c \<noteq> [] then []
      else [with_suggestion ''the values string is split by `feature.constant_columns.split_regex`; check that the separator does not appear inside a value''
             (with_rule ''FEA-010'' (config_error (''constant column names ('' @ show_nat (length (ccs_names c)) @ '') and values (''
               @ show_nat (length (ccs_values c)) @ '') are of different sizes'')))])"

definition validate_constant :: "literal_lib \<Rightarrow> table_facts \<Rightarrow> string \<times> string \<Rightarrow> diagnostic list" where
  "validate_constant L target nl =
     (case facts_column target (fst nl) of
        None \<Rightarrow> [with_suggestion ''add the column to the target, or drop it from the names list''
                  (with_rule ''FEA-010'' (schema_error (''constant column `'' @ fst nl @ ''` is not on the target table ''
                    @ show_table (tf_table target))))]
      | Some column \<Rightarrow>
          if snd nl = [] then [with_rule ''FEA-011'' (config_error (''constant column `'' @ fst nl @ ''` has no value''))]
          else case parse_literal L (snd nl) (cf_type column) of
            Inr _ \<Rightarrow> []
          | Inl e \<Rightarrow> [with_rule ''FEA-011'' (with_value (snd nl) (with_detail (error_message e)
                       (config_error (''constant column `'' @ fst nl @ ''` cannot be parsed as '' @ show_type (cf_type column)))))])"

definition validate_constants :: "literal_lib \<Rightarrow> constant_columns \<Rightarrow> table_facts \<Rightarrow> diagnostic list" where
  "validate_constants L c target =
     (let findings = validate_cardinality c in
      if findings \<noteq> [] \<or> \<not> constants_is_enabled c then findings
      else concat (map (validate_constant L target) (zip (ccs_names c) (ccs_values c))))"

definition resolve_constant :: "literal_lib \<Rightarrow> table_facts \<Rightarrow> string \<times> string \<Rightarrow> resolved_constant result" where
  "resolve_constant L target nl =
     bindR (ok_or (facts_column target (fst nl)) (with_context (with_column (fst nl)) (new_error Config
         (''constant column `'' @ fst nl @ ''` is not on the target table '' @ show_table (tf_table target))))) (\<lambda>column.
     bindR (map_err (\<lambda>e. with_context (with_column (fst nl)) (new_error Config (''constant column `'' @ fst nl @ ''`: '' @ error_message e)))
              (parse_literal L (snd nl) (cf_type column))) (\<lambda>v.
       Inr \<lparr>rc_name = fst nl, rc_literal = snd nl, rc_value = v, rc_type = cf_type column, rc_key = cf_key column\<rparr>))"

definition resolve_constants :: "literal_lib \<Rightarrow> constant_columns \<Rightarrow> table_facts \<Rightarrow> resolved_constant list result" where
  "resolve_constants L c target = collectR (resolve_constant L target) (zip (ccs_names c) (ccs_values c))"

definition where_clause_terms :: "literal_lib \<Rightarrow> constant_columns \<Rightarrow> table_facts \<Rightarrow> string list result" where
  "where_clause_terms L c target =
     bindR (resolve_constants L c target) (\<lambda>rs. Inr (map (\<lambda>r. rc_name r @ ''='' @ rc_literal r) (filter rc_key rs)))"

definition target_column_source :: "constant_columns \<Rightarrow> string \<Rightarrow> table_facts \<Rightarrow> constant_origin" where
  "target_column_source c column origin =
     (if is_constant c column then SourceConstant
      else if facts_column origin column \<noteq> None then SourceOrigin else SourceAbsent)"

definition dropped_origin_columns :: "feature_schema \<Rightarrow> string list" where
  "dropped_origin_columns schema =
     filter (\<lambda>name. facts_column (fs_target schema) name = None) (map cf_name (tf_columns (fs_origin schema)))"

subsection \<open>A configuration that validates resolves\<close>

lemma validated_constant_resolves:
  "validate_constant L target nl = [] \<Longrightarrow> \<exists>r. resolve_constant L target nl = Inr r"
  by (auto simp: validate_constant_def resolve_constant_def split: option.splits if_splits sum.splits)

text \<open>
  Claim C23. Constants that pass validation are written as they should be: without a finding against the target
  table, resolution succeeds with one constant per configured name, in order, and every constant that is
  not null is a well-framed value of its column's type.
\<close>

theorem validated_constants_resolve:
  assumes "validate_constants L c target = []" "lib_ok L"
  shows "\<exists>rs. resolve_constants L c target = Inr rs \<and> map rc_name rs = ccs_names c
    \<and> (\<forall>r \<in> set rs. \<forall>bs. cell_bytes (rc_value r) = Some bs \<longrightarrow> conforms (rc_type r) bs)"
proof -
  have len: "length (ccs_names c) = length (ccs_values c)"
    and each: "\<forall>nl \<in> set (zip (ccs_names c) (ccs_values c)). validate_constant L target nl = []"
    using assms(1) by (auto simp: validate_constants_def Let_def validate_cardinality_def constants_is_enabled_def split: if_splits)
  obtain rs where rs: "resolve_constants L c target = Inr rs"
    using collectR_total [of "zip (ccs_names c) (ccs_values c)" "resolve_constant L target"] each validated_constant_resolves
    unfolding resolve_constants_def by blast
  then have all: "list_all2 (\<lambda>nl r. resolve_constant L target nl = Inr r) (zip (ccs_names c) (ccs_values c)) rs"
    by (simp add: resolve_constants_def collectR_Inr_iff)
  have "list_all2 (\<lambda>nl r. rc_name r = fst nl \<and> (\<forall>bs. cell_bytes (rc_value r) = Some bs \<longrightarrow> conforms (rc_type r) bs))
      (zip (ccs_names c) (ccs_values c)) rs"
  proof (rule list_all2_mono [OF all])
    fix nl r
    assume "resolve_constant L target nl = Inr r"
    then have r: "parse_literal L (snd nl) (rc_type r) = Inr (rc_value r)" "rc_name r = fst nl"
      by (auto simp: resolve_constant_def bindR_Inr_iff)
    then show "rc_name r = fst nl \<and> (\<forall>bs. cell_bytes (rc_value r) = Some bs \<longrightarrow> conforms (rc_type r) bs)"
      using literal_conforms [OF assms(2), of "snd nl" "rc_type r"] by (metis raw_cell.collapse)
  qed
  then have "map rc_name rs = map fst (zip (ccs_names c) (ccs_values c))"
    and "\<forall>r \<in> set rs. \<forall>bs. cell_bytes (rc_value r) = Some bs \<longrightarrow> conforms (rc_type r) bs"
    by (induction rule: list_all2_induct) auto
  then show ?thesis using rs len by simp
qed

definition demo_constants :: constant_columns where
  "demo_constants = \<lparr>ccs_names = [''n'', ''xs''], ccs_values = [''7'', ''[7, -2]'']\<rparr>"

definition demo_constant_table :: table_facts where
  "demo_constant_table = \<lparr>tf_table = TableRef ''ks'' ''t'', tf_columns = [\<lparr>cf_name = ''n'', cf_type = TPrim BigInt, cf_key = True\<rparr>,
     \<lparr>cf_name = ''xs'', cf_type = TList (TPrim CqlInt) False, cf_key = False\<rparr>]\<rparr>"

theorem validated_constants_resolve_witness:
  "\<exists>rs. resolve_constants plain_lib demo_constants demo_constant_table = Inr rs \<and> map rc_name rs = [''n'', ''xs'']
    \<and> (\<forall>r \<in> set rs. \<forall>bs. cell_bytes (rc_value r) = Some bs \<longrightarrow> conforms (rc_type r) bs)"
proof -
  have "validate_constants plain_lib demo_constants demo_constant_table = []" by code_simp
  moreover have "lib_ok plain_lib" by (simp add: lib_ok_def plain_lib_def)
  ultimately show ?thesis
    using validated_constants_resolve [of plain_lib demo_constants demo_constant_table] by (simp add: demo_constants_def)
qed

end
