(* ===== verification/Feature_Guardrail.thy ===== *)
theory Feature_Guardrail
  imports Feature_Base Cql_Statement Sched_Run Row_Stream
begin

text \<open>
  The column-size guardrail: \<open>crates/cdm-feature/src/guardrail.rs\<close> and the standalone job
  \<open>crates/cdm-engine/src/jobs/guardrail.rs\<close> with its origin reader \<open>guardrail/origin.rs\<close>. The threshold is an
  \<open>f64\<close>: the model is over a type of floats with the operations the source uses, and the theorems ask of
  them only what they need.

  The lemmas show which rows a range counts as large, what a cancelled range reports, and that the sizes
  printed in a report are exact.
\<close>

subsection \<open>Floats\<close>

record 'f float_ops =
  fl_parse :: "string \<Rightarrow> string + 'f"
  fl_is_finite :: "'f \<Rightarrow> bool"
  fl_zero :: 'f
  fl_kb :: 'f
  fl_mul :: "'f \<Rightarrow> 'f \<Rightarrow> 'f"
  fl_less :: "'f \<Rightarrow> 'f \<Rightarrow> bool"
  fl_of_usize :: "usize \<Rightarrow> 'f"
  fl_show :: "'f \<Rightarrow> string"

definition float_property :: "'f float_ops \<Rightarrow> effective_config \<Rightarrow> property_key \<Rightarrow> 'f option result" where
  "float_property F config key =
     (case trimmed_property config key of
        None \<Rightarrow> Inr None
      | Some v \<Rightarrow>
          (case fl_parse F v of
             Inl cause \<Rightarrow> Inl (with_source cause (with_context (with_config_key (pk_canonical key))
               (new_error Config (''`'' @ pk_canonical key @ ''` must be a number, got `'' @ v @ ''`''))))
           | Inr x \<Rightarrow>
               if \<not> fl_is_finite F x
               then Inl (with_context (with_config_key (pk_canonical key))
                 (new_error Config (''`'' @ pk_canonical key @ ''` must be a finite number, got `'' @ v @ ''`'')))
               else Inr (Some x)))"

subsection \<open>Configuration\<close>

datatype guardrail_mode = ModeCheck | ModeWarn | ModeBlock

fun mode_as_str :: "guardrail_mode \<Rightarrow> string" where
  "mode_as_str ModeCheck = ''check''"
| "mode_as_str ModeWarn = ''warn''"
| "mode_as_str ModeBlock = ''block''"

definition parse_mode :: "string \<Rightarrow> guardrail_mode result" where
  "parse_mode v =
     (let trimmed = trim v in
      ok_or (List.find (\<lambda>m. eq_ignore_ascii_case trimmed (mode_as_str m)) [ModeCheck, ModeWarn, ModeBlock])
        (with_context (with_config_key (pk_canonical GUARDRAIL_MODE)) (new_error Config
          (''`'' @ pk_canonical GUARDRAIL_MODE @ ''` must be one of check, warn, block, got `'' @ trimmed @ ''`''))))"

definition mode_blocks :: "guardrail_mode \<Rightarrow> bool" where
  "mode_blocks m \<longleftrightarrow> m = ModeBlock"

record 'f guardrail =
  gr_column_size_kb :: 'f
  gr_mode :: guardrail_mode
  gr_compat_java :: bool

definition load_guardrail :: "'f float_ops \<Rightarrow> effective_config \<Rightarrow> 'f guardrail result" where
  "load_guardrail F config =
     bindR (float_property F config GUARDRAIL_COLUMN_SIZE_KB) (\<lambda>size.
     bindR (case trimmed_property config GUARDRAIL_MODE of Some v \<Rightarrow> parse_mode v | None \<Rightarrow> Inr ModeCheck) (\<lambda>mode.
       Inr \<lparr>gr_column_size_kb = or_default (fl_zero F) size, gr_mode = mode, gr_compat_java = False\<rparr>))"

definition guardrail_threshold :: "'f float_ops \<Rightarrow> 'f guardrail \<Rightarrow> 'f" where
  "guardrail_threshold F g = fl_mul F (gr_column_size_kb g) (fl_kb F)"

definition guardrail_is_enabled :: "'f float_ops \<Rightarrow> 'f guardrail \<Rightarrow> bool" where
  "guardrail_is_enabled F g = fl_less F (fl_zero F) (gr_column_size_kb g)"

definition validate_guardrail :: "'f float_ops \<Rightarrow> 'f guardrail \<Rightarrow> table_facts \<Rightarrow> diagnostic list" where
  "validate_guardrail F g origin =
     (if fl_less F (gr_column_size_kb g) (fl_zero F)
      then [with_suggestion ''use 0 to disable the guardrail'' (with_value (fl_show F (gr_column_size_kb g))
             (with_location (pk_canonical GUARDRAIL_COLUMN_SIZE_KB) (config_error ''the guardrail column size may not be negative'')))]
      else [])
   @ (if guardrail_is_enabled F g \<and> tf_columns origin = []
      then [with_location (pk_canonical GUARDRAIL_COLUMN_SIZE_KB)
             (schema_error (''the guardrail has no columns to measure on origin table '' @ show_table (tf_table origin)))]
      else [])"

record 'f column_size_guardrail =
  cg_table :: table_ref
  cg_columns :: "string list"
  cg_threshold_bytes :: 'f
  cg_enabled :: bool
  cg_mode :: guardrail_mode
  cg_compat_java :: bool

definition resolve_guardrail :: "'f float_ops \<Rightarrow> 'f guardrail \<Rightarrow> table_facts \<Rightarrow> 'f column_size_guardrail result" where
  "resolve_guardrail F g origin =
     (if fl_less F (gr_column_size_kb g) (fl_zero F)
      then Inl (with_context (with_config_key (pk_canonical GUARDRAIL_COLUMN_SIZE_KB)) (new_error Config
             (''`'' @ pk_canonical GUARDRAIL_COLUMN_SIZE_KB @ ''` must be greater than or equal to zero, but is ''
              @ fl_show F (gr_column_size_kb g))))
      else Inr \<lparr>cg_table = tf_table origin, cg_columns = map cf_name (tf_columns origin),
                cg_threshold_bytes = guardrail_threshold F g, cg_enabled = guardrail_is_enabled F g,
                cg_mode = gr_mode g, cg_compat_java = gr_compat_java g\<rparr>)"

subsection \<open>Checking a row\<close>

record row_sizes =
  rz_key :: primary_key
  rz_lengths :: "usize list"

definition sizes_of_row :: "primary_key \<Rightarrow> row \<Rightarrow> row_sizes" where
  "sizes_of_row key r = \<lparr>rz_key = key, rz_lengths = map cell_len (row_cells r)\<rparr>"

definition sizes_of_record :: "cdm_record \<Rightarrow> row_sizes" where
  "sizes_of_record record = sizes_of_row (rec_key record) (rec_origin record)"

record large_column =
  lc_name :: string
  lc_bytes :: usize

record guardrail_finding =
  gf_key :: primary_key
  gf_columns :: "large_column list"

text \<open>\<open>max_by_key\<close> keeps the last of several largest columns.\<close>

definition largest_column :: "guardrail_finding \<Rightarrow> large_column option" where
  "largest_column f =
     fold (\<lambda>c best. case best of None \<Rightarrow> Some c | Some b \<Rightarrow> if lc_bytes b \<le> lc_bytes c then Some c else best) (gf_columns f) None"

definition check_sizes :: "'f float_ops \<Rightarrow> 'f column_size_guardrail \<Rightarrow> row_sizes \<Rightarrow> guardrail_finding option" where
  "check_sizes F g r =
     (if \<not> cg_enabled g then None
      else
        let columns = [\<lparr>lc_name = name, lc_bytes = bytes\<rparr>. (name, bytes) \<leftarrow> zip (cg_columns g) (rz_lengths r),
                         fl_less F (cg_threshold_bytes g) (fl_of_usize F bytes)] in
        if columns = [] then None else Some \<lparr>gf_key = rz_key r, gf_columns = columns\<rparr>)"

text \<open>\<open>{fraction:03}\<close>: three digits, padded with zeros.\<close>

definition pad3 :: "nat \<Rightarrow> string" where
  "pad3 n = replicate (3 - length (show_nat n)) (CHR ''0'') @ show_nat n"

definition strip_zeros :: "string \<Rightarrow> string" where
  "strip_zeros s = rev (dropWhile (\<lambda>c. c = CHR ''0'') (rev s))"

definition format_kb :: "usize \<Rightarrow> bool \<Rightarrow> string" where
  "format_kb bytes compat_java =
     (let whole = bytes div 1000; fraction = bytes mod 1000 in
      if compat_java \<or> fraction = 0 then show_nat whole
      else strip_zeros (show_nat whole @ ''.'' @ pad3 fraction))"

definition guardrail_report :: "'f column_size_guardrail \<Rightarrow> guardrail_finding \<Rightarrow> string" where
  "guardrail_report g f = ''Large columns (KB): ''
     @ join_strings '','' (map (\<lambda>c. lc_name c @ ''('' @ format_kb (lc_bytes c) (cg_compat_java g) @ '')'') (gf_columns f))"

definition GUARDRAIL_DIAGNOSTIC_CODE :: string where
  "GUARDRAIL_DIAGNOSTIC_CODE = ''CDM-GUARDRAIL''"

definition guardrail_diagnostic :: "'f column_size_guardrail \<Rightarrow> guardrail_finding \<Rightarrow> diagnostic" where
  "guardrail_diagnostic g f =
     with_detail (''primary key '' @ show_key (gf_key f)) (with_rule ''GRD-003'' (with_location (show_table (cg_table g))
       (new_diagnostic GUARDRAIL_DIAGNOSTIC_CODE SevWarning (guardrail_report g f))))"

text \<open>The plugin's check of a record, and the inline guardrail: whether the row is withheld.\<close>

definition guardrail_check :: "'f float_ops \<Rightarrow> 'f column_size_guardrail \<Rightarrow> cdm_record \<Rightarrow> diagnostic option result" where
  "guardrail_check F g record = Inr (map_option (guardrail_diagnostic g) (check_sizes F g (sizes_of_record record)))"

definition guardrail_inspect :: "'f float_ops \<Rightarrow> 'f column_size_guardrail \<Rightarrow> cdm_record \<Rightarrow> bool" where
  "guardrail_inspect F g record =
     (case check_sizes F g (sizes_of_record record) of None \<Rightarrow> False | Some _ \<Rightarrow> mode_blocks (cg_mode g))"

definition record_blocked_row :: "job_counters \<Rightarrow> unit result \<times> job_counters" where
  "record_blocked_row c =
     (case counter_of c CSkipped of Inl e \<Rightarrow> (Inl e, c) | Inr t \<Rightarrow> (Inr (), increment_one t c))"

subsection \<open>The origin reader\<close>

definition key_indices_of :: "table_schema \<Rightarrow> origin_projection \<Rightarrow> usize list result" where
  "key_indices_of t p =
     collectR (\<lambda>column. ok_or (position_of (\<lambda>entry. entry = column_quoted_name column) (op_entries p))
         (with_context (\<lambda>c. with_column (cm_name column) (with_side Origin c)) (new_error SchemaMismatch
           (''the origin primary-key column `'' @ cm_name column
            @ ''` is not in the guardrail projection, so a finding could not name the row it found (GRD-003, SCH-004)''))))
       (primary_key_columns t)"

definition measured_key :: "usize list \<Rightarrow> (usize \<Rightarrow> byte list option) \<Rightarrow> primary_key" where
  "measured_key key_indices cell = PrimaryKey (map (\<lambda>i. RawCell (cell i)) key_indices)"

definition measure_row :: "usize list \<Rightarrow> row \<Rightarrow> row_sizes" where
  "measure_row key_indices r =
     \<lparr>rz_key = measured_key key_indices (\<lambda>i. case row_get r i of Some c \<Rightarrow> cell_bytes c | None \<Rightarrow> None),
      rz_lengths = map cell_len (row_cells r)\<rparr>"

text \<open>
  What \<open>next_page\<close> answers: an error, the end of the scan, or a page, whose rows may fail to decode as a whole
  or one by one. A page may be empty. \<open>None\<close> is a request not answered.
\<close>

type_synonym size_page = "(cdm_error + (cdm_error + row) list) option result"

fun buffer_sizes :: "usize list \<Rightarrow> (cdm_error + row) list \<Rightarrow> row_sizes list \<Rightarrow> cdm_error option \<times> row_sizes list" where
  "buffer_sizes ks [] buf = (None, buf)"
| "buffer_sizes ks (Inl e # rows) buf = (Some e, buf)"
| "buffer_sizes ks (Inr r # rows) buf = buffer_sizes ks rows (buf @ [measure_row ks r])"

fun next_row :: "usize list \<Rightarrow> row_sizes list \<Rightarrow> size_page list \<Rightarrow> (row_sizes option result \<times> row_sizes list \<times> size_page list) option" where
  "next_row ks (r # buf) pages = Some (Inr (Some r), buf, pages)"
| "next_row ks [] [] = None"
| "next_row ks [] (Inl e # pages) = Some (Inl e, [], pages)"
| "next_row ks [] (Inr None # pages) = Some (Inr None, [], pages)"
| "next_row ks [] (Inr (Some (Inl e)) # pages) = Some (Inl e, [], pages)"
| "next_row ks [] (Inr (Some (Inr rows)) # pages) =
     (case buffer_sizes ks rows [] of
        (Some e, buf) \<Rightarrow> Some (Inl e, buf, pages)
      | (None, buf) \<Rightarrow> next_row ks buf pages)"

subsection \<open>The job\<close>

definition new_guardrail_job :: "'f column_size_guardrail \<Rightarrow> 'f column_size_guardrail result" where
  "new_guardrail_job g =
     (if \<not> cg_enabled g
      then Inl (with_context (with_config_key ''feature.guardrail.column_size_kb'') (new_error Config
        ''the guardrail job needs `feature.guardrail.column_size_kb` to be greater than zero; at zero there is no column it could report''))
      else Inr g)"

text \<open>
  The loop: at each turn what the scan returns and whether the run is then being cancelled. The findings are
  the rows logged. A range whose turns run out is still reading.
\<close>

type_synonym guardrail_turn = "row_sizes option result \<times> bool"

fun guardrail_loop ::
  "'f float_ops \<Rightarrow> 'f column_size_guardrail \<Rightarrow> counter_token \<times> counter_token \<times> counter_token \<Rightarrow> guardrail_turn list
     \<Rightarrow> job_counters \<times> guardrail_finding list \<Rightarrow> range_verdict result option \<times> job_counters \<times> guardrail_finding list" where
  "guardrail_loop F g ts [] s = (None, s)"
| "guardrail_loop F g ts ((Inl e, _) # turns) s = (Some (Inl e), s)"
| "guardrail_loop F g ts ((Inr None, _) # turns) s = (Some (Inr VPass), s)"
| "guardrail_loop F g ts ((Inr (Some r), cancelled) # turns) s =
     (if cancelled then (Some (Inr VPass), s)
      else case (ts, s) of ((rd, valid, large), (c, findings)) \<Rightarrow>
        let c1 = increment_one rd c in
        case check_sizes F g r of
          Some f \<Rightarrow> guardrail_loop F g ts turns (increment_one large c1, findings @ [f])
        | None \<Rightarrow> guardrail_loop F g ts turns (increment_one valid c1, findings))"

definition process_guardrail_range ::
  "'f float_ops \<Rightarrow> 'f column_size_guardrail \<Rightarrow> unit result \<Rightarrow> guardrail_turn list \<Rightarrow> job_counters
     \<Rightarrow> range_verdict result option \<times> job_counters \<times> guardrail_finding list" where
  "process_guardrail_range F g opened turns c =
     (case bindR (counter_of c CRead) (\<lambda>rd. bindR (counter_of c CValid) (\<lambda>valid.
             bindR (counter_of c CLarge) (\<lambda>large. bindR opened (\<lambda>_. Inr (rd, valid, large))))) of
        Inl e \<Rightarrow> (Some (Inl e), c, [])
      | Inr ts \<Rightarrow> guardrail_loop F g ts turns (c, []))"

definition guardrail_run_status :: "run_report \<Rightarrow> run_status" where
  "guardrail_run_status report =
     (if rr_status report \<noteq> Ended then rr_status report
      else if 0 < count_of (rr_counters report) CLarge Committed then Diff else Ended)"

subsection \<open>The scan as a stream\<close>

definition size_answers :: "row list list \<Rightarrow> size_page list" where
  "size_answers pages = map (\<lambda>rows. Inr (Some (Inr (map Inr rows)))) pages @ [Inr None]"

definition sizes_next :: "usize list \<Rightarrow> row_sizes list \<times> size_page list
     \<Rightarrow> (row_sizes option result \<times> row_sizes list \<times> size_page list) option" where
  "sizes_next ks s = next_row ks (fst s) (snd s)"

definition sizes_pending :: "usize list \<Rightarrow> row_sizes list \<times> size_page list \<Rightarrow> row_sizes list \<Rightarrow> bool" where
  "sizes_pending ks s sizes \<longleftrightarrow> (\<exists>pages. snd s = size_answers pages \<and> sizes = fst s @ map (measure_row ks) (concat pages))"

lemma buffer_sizes_ok: "buffer_sizes ks (map Inr rows) buf = (None, buf @ map (measure_row ks) rows)"
  by (induction rows arbitrary: buf) simp_all

lemma next_row_pages:
  "case buf @ map (measure_row ks) (concat pages) of
     [] \<Rightarrow> \<exists>s'. next_row ks buf (size_answers pages) = Some (Inr None, s')
   | r # rs \<Rightarrow> \<exists>s'. next_row ks buf (size_answers pages) = Some (Inr (Some r), s') \<and> sizes_pending ks s' rs"
proof (induction pages arbitrary: buf)
  case Nil
  show ?case by (cases buf) (auto simp: size_answers_def sizes_pending_def intro!: exI [of _ "[]"])
next
  case (Cons rows pages)
  show ?case
  proof (cases buf)
    case Nil
    have step: "next_row ks [] (size_answers (rows # pages)) = next_row ks (map (measure_row ks) rows) (size_answers pages)"
      by (simp add: size_answers_def buffer_sizes_ok)
    show ?thesis unfolding Nil step append_Nil concat.simps map_append by (rule Cons.IH)
  next
    case (Cons r buf')
    have "sizes_pending ks (buf', size_answers (rows # pages)) (buf' @ map (measure_row ks) (concat (rows # pages)))"
      unfolding sizes_pending_def by (intro exI [of _ "rows # pages"]) simp
    then show ?thesis using Cons by simp
  qed
qed

interpretation size_scan: row_stream "sizes_next ks" "sizes_pending ks" for ks
proof
  show "\<exists>s'. sizes_next ks s = Some (Inr (Some r), s') \<and> sizes_pending ks s' rs" if pend: "sizes_pending ks s (r # rs)" for s r rs
  proof -
    obtain pages where p: "snd s = size_answers pages" "r # rs = fst s @ map (measure_row ks) (concat pages)"
      using pend by (auto simp: sizes_pending_def)
    show ?thesis using next_row_pages [where buf = "fst s" and ks = ks and pages = pages] unfolding p(2) [symmetric] sizes_next_def p(1) by simp
  qed
  show "\<exists>s'. sizes_next ks s = Some (Inr None, s')" if pend: "sizes_pending ks s []" for s
  proof -
    obtain pages where p: "snd s = size_answers pages" "[] = fst s @ map (measure_row ks) (concat pages)"
      using pend by (auto simp: sizes_pending_def)
    show ?thesis using next_row_pages [where buf = "fst s" and ks = ks and pages = pages] unfolding p(2) [symmetric] sizes_next_def p(1) by simp
  qed
qed

text \<open>
  The scan of a guardrail range measures every row of every page once and in order, empty pages included.
\<close>

theorem size_scan_measures_every_row:
  assumes "length (concat pages) < n"
  shows "drain_stream (sizes_next ks) n ([], size_answers pages) = Some (Inr (map (measure_row ks) (concat pages)))"
  using assms by (intro size_scan.drain_pending) (auto simp: sizes_pending_def)

subsection \<open>What a range counts\<close>

fun rows_measured :: "guardrail_turn list \<Rightarrow> row_sizes list" where
  "rows_measured ((Inr (Some r), False) # turns) = r # rows_measured turns"
| "rows_measured turns = []"

definition guardrail_range :: "job_counters \<Rightarrow> bool" where
  "guardrail_range c \<longleftrightarrow> wf_counters c \<and> jc_job c = Guardrail"

definition guardrail_tokens :: "counter_token \<times> counter_token \<times> counter_token" where
  "guardrail_tokens = (Counter CRead Guardrail, Counter CValid Guardrail, Counter CLarge Guardrail)"

lemma guardrail_bump:
  assumes "guardrail_range c" "k \<in> {CRead, CValid, CLarge}"
  shows "guardrail_range (increment_one (Counter k Guardrail) c)"
    "count_of (increment_one (Counter k Guardrail) c) j Interim
       = (if j = k then (count_of c k Interim + 1) mod 2 ^ 64 else count_of c j Interim)"
proof -
  have "counter_of c k = Inr (Counter k Guardrail)"
    using assms by (auto simp: counter_of_def is_registered_for_def guardrail_range_def)
  then show "guardrail_range (increment_one (Counter k Guardrail) c)"
    "count_of (increment_one (Counter k Guardrail) c) j Interim
       = (if j = k then (count_of c k Interim + 1) mod 2 ^ 64 else count_of c j Interim)"
    using increment_level [of c k "Counter k Guardrail" 1] assms(1) by (auto simp: guardrail_range_def increment_one_def)
qed

lemma guardrail_loop_counts:
  assumes "guardrail_loop F g guardrail_tokens turns (c, fs) = (out, c', fs')" "guardrail_range c"
    and "count_of c CRead Interim + length turns < 2 ^ 64"
    and "count_of c CRead Interim = count_of c CValid Interim + count_of c CLarge Interim" "count_of c CLarge Interim = length fs"
  shows "count_of c' CRead Interim = count_of c CRead Interim + length (rows_measured turns)
    \<and> fs' = fs @ List.map_filter (check_sizes F g) (rows_measured turns) \<and> count_of c' CLarge Interim = length fs'
    \<and> count_of c' CRead Interim = count_of c' CValid Interim + count_of c' CLarge Interim"
  using assms
proof (induction turns arbitrary: c fs)
  case (Cons turn turns)
  show ?case
  proof (cases "\<exists>r. turn = (Inr (Some r), False)")
    case True
    then obtain r where turn: "turn = (Inr (Some r), False)" by blast
    have step: "guardrail_range (increment_one (Counter k Guardrail) (increment_one (Counter CRead Guardrail) c))"
      "count_of (increment_one (Counter k Guardrail) (increment_one (Counter CRead Guardrail) c)) j Interim
         = count_of c j Interim + (if j \<in> {CRead, k} then 1 else 0)" if "k \<in> {CValid, CLarge}" for k j
      using that Cons.prems(2-4) by (auto simp: guardrail_bump)
    have rm: "rows_measured (turn # turns) = r # rows_measured turns" using turn by simp
    show ?thesis
    proof (cases "check_sizes F g r")
      case None
      define c2 where "c2 = increment_one (Counter CValid Guardrail) (increment_one (Counter CRead Guardrail) c)"
      have c2: "guardrail_range c2" "count_of c2 CRead Interim = count_of c CRead Interim + 1"
        "count_of c2 CValid Interim = count_of c CValid Interim + 1" "count_of c2 CLarge Interim = count_of c CLarge Interim"
        using step [of CValid] by (simp_all add: c2_def)
      have run: "guardrail_loop F g guardrail_tokens turns (c2, fs) = (out, c', fs')"
        using Cons.prems(1) turn None by (simp add: guardrail_tokens_def Let_def c2_def)
      have mf: "List.map_filter (check_sizes F g) (r # rows_measured turns) = List.map_filter (check_sizes F g) (rows_measured turns)"
        using None by (simp add: map_filter_def)
      have pre: "count_of c2 CRead Interim + length turns < 2 ^ 64"
        "count_of c2 CRead Interim = count_of c2 CValid Interim + count_of c2 CLarge Interim" "count_of c2 CLarge Interim = length (fs)"
        using c2(2-4) Cons.prems(3-5) by simp_all
      note ih = Cons.IH [OF run c2(1) pre, unfolded append_assoc append.simps]
      show ?thesis unfolding rm mf
      proof (intro conjI)
        show "count_of c' CRead Interim = count_of c CRead Interim + length (r # rows_measured turns)" 
          using conjunct1 [OF ih] c2(2) by simp
      qed (use ih in blast)+
    next
      case (Some f)
      define c2 where "c2 = increment_one (Counter CLarge Guardrail) (increment_one (Counter CRead Guardrail) c)"
      have c2: "guardrail_range c2" "count_of c2 CRead Interim = count_of c CRead Interim + 1"
        "count_of c2 CValid Interim = count_of c CValid Interim" "count_of c2 CLarge Interim = count_of c CLarge Interim + 1"
        using step [of CLarge] by (simp_all add: c2_def)
      have run: "guardrail_loop F g guardrail_tokens turns (c2, fs @ [f]) = (out, c', fs')"
        using Cons.prems(1) turn Some by (simp add: guardrail_tokens_def Let_def c2_def)
      have mf: "List.map_filter (check_sizes F g) (r # rows_measured turns) = f # List.map_filter (check_sizes F g) (rows_measured turns)"
        using Some by (simp add: map_filter_def)
      have pre: "count_of c2 CRead Interim + length turns < 2 ^ 64"
        "count_of c2 CRead Interim = count_of c2 CValid Interim + count_of c2 CLarge Interim" "count_of c2 CLarge Interim = length (fs @ [f])"
        using c2(2-4) Cons.prems(3-5) by simp_all
      note ih = Cons.IH [OF run c2(1) pre, unfolded append_assoc append.simps]
      show ?thesis unfolding rm mf
      proof (intro conjI)
        show "count_of c' CRead Interim = count_of c CRead Interim + length (r # rows_measured turns)" 
          using conjunct1 [OF ih] c2(2) by simp
      qed (use ih in blast)+
    qed
  next
    case False
    obtain x cancelled where turn: "turn = (x, cancelled)" by fastforce
    have stop: "rows_measured (turn # turns) = []" "c' = c" "fs' = fs"
    proof (atomize (full), cases x)
      case (Inr y)
      then show "rows_measured (turn # turns) = [] \<and> c' = c \<and> fs' = fs"
        using False Cons.prems(1) turn by (cases y; cases cancelled) simp_all
    qed (use Cons.prems(1) turn in simp_all)
    show ?thesis unfolding stop using Cons.prems(4,5) by (simp add: map_filter_def)
  qed
qed (simp add: map_filter_def)

lemma guardrail_start: "guardrail_range (new_counters Guardrail)" "count_of (new_counters Guardrail) k Interim = 0"
  by (simp_all add: guardrail_range_def count_of_def default_unit_def)

lemma process_guardrail_loop:
  "process_guardrail_range F g (Inr ()) turns (new_counters Guardrail)
     = guardrail_loop F g guardrail_tokens turns (new_counters Guardrail, [])"
  by (simp add: process_guardrail_range_def counter_of_def is_registered_for_def guardrail_tokens_def)

text \<open>The positions of the columns of a row that are larger than the threshold, and the finding they make.\<close>

definition oversized :: "'f float_ops \<Rightarrow> 'f column_size_guardrail \<Rightarrow> row_sizes \<Rightarrow> nat list" where
  "oversized F g r = filter (\<lambda>i. fl_less F (cg_threshold_bytes g) (fl_of_usize F (rz_lengths r ! i)))
     [0..<min (length (cg_columns g)) (length (rz_lengths r))]"

definition finding_of :: "'f column_size_guardrail \<Rightarrow> row_sizes \<Rightarrow> nat list \<Rightarrow> guardrail_finding" where
  "finding_of g r positions =
     \<lparr>gf_key = rz_key r, gf_columns = map (\<lambda>i. \<lparr>lc_name = cg_columns g ! i, lc_bytes = rz_lengths r ! i\<rparr>) positions\<rparr>"

lemma check_sizes_spec:
  "check_sizes F g r = (if cg_enabled g \<and> oversized F g r \<noteq> [] then Some (finding_of g r (oversized F g r)) else None)"
proof -
  let ?n = "min (length (cg_columns g)) (length (rz_lengths r))"
  have zip: "zip (cg_columns g) (rz_lengths r) = map (\<lambda>i. (cg_columns g ! i, rz_lengths r ! i)) [0..<?n]"
    by (rule nth_equalityI) simp_all
  have "concat (map (\<lambda>i. if P (rz_lengths r ! i) then [h i] else []) is) = map h (filter (\<lambda>i. P (rz_lengths r ! i)) is)" for P h "is"
    by (induction "is") simp_all
  then have "[\<lparr>lc_name = name, lc_bytes = bytes\<rparr>. (name, bytes) \<leftarrow> zip (cg_columns g) (rz_lengths r),
        fl_less F (cg_threshold_bytes g) (fl_of_usize F bytes)] = gf_columns (finding_of g r (oversized F g r))"
    unfolding zip by (simp add: oversized_def finding_of_def comp_def)
  then show ?thesis by (auto simp: check_sizes_def finding_of_def)
qed

text \<open>
  Claim C21. A guardrail range measures each row once: READ is the number of rows it measured, which are the
  rows it read up to its end, its failure or the row in hand when it was cancelled; a row is LARGE when
  one of its columns has strictly more bytes than the threshold, else VALID; and the findings are, in
  reading order, the large rows with their keys and exactly their oversized columns, whether the range
  ended, failed or was cut short (GRD-002, GRD-003). A guardrail that is not enabled finds nothing.
\<close>

theorem guardrail_counts_large_rows:
  assumes "process_guardrail_range F g (Inr ()) turns (new_counters Guardrail) = (out, c, findings)" "length turns < 2 ^ 64"
  shows "let large = filter (\<lambda>r. cg_enabled g \<and> oversized F g r \<noteq> []) (rows_measured turns) in
      count_of c CRead Interim = length (rows_measured turns)
    \<and> count_of c CLarge Interim = length large
    \<and> count_of c CValid Interim = length (rows_measured turns) - length large
    \<and> findings = map (\<lambda>r. finding_of g r (oversized F g r)) large"
proof -
  have "List.map_filter (check_sizes F g) rs
      = map (\<lambda>r. finding_of g r (oversized F g r)) (filter (\<lambda>r. cg_enabled g \<and> oversized F g r \<noteq> []) rs)" for rs
    by (induction rs) (simp_all add: map_filter_def check_sizes_spec)
  then show ?thesis
    using guardrail_loop_counts [OF assms(1) [unfolded process_guardrail_loop] guardrail_start(1)] assms(2) guardrail_start(2)
    by (auto simp: Let_def)
qed

lemma guardrail_loop_stops:
  "\<exists>c' fs'. guardrail_loop F g ts (map (\<lambda>r. (Inr (Some r), False)) rs @ (Inr (Some r), True) # turns) (c, fs) = (Some (Inr VPass), c', fs')"
proof (induction rs arbitrary: c fs)
  case (Cons x rs)
  then show ?case by (cases ts; cases "check_sizes F g x") (simp_all add: Let_def)
qed simp

lemma rows_measured_stops: "rows_measured (map (\<lambda>r. (Inr (Some r), False)) rs @ (Inr (Some r), True) # turns) = rs"
  by (induction rs) simp_all

text \<open>
  Claim C18. A guardrail range that is cancelled is recorded as passed: at the first row it reads after the run is
  cancelled it stops with the verdict PASS, whatever the rest of the range holds, so the scheduler
  records PASS for a range that was read in part and a resumed run does not read it again. The row in
  hand is not counted either.
\<close>

theorem cancelled_guardrail_range_passes:
  assumes "turns = map (\<lambda>r. (Inr (Some r), False)) rs @ (Inr (Some r), True) # later" "length turns < 2 ^ 64"
  shows "\<exists>c findings. process_guardrail_range F g (Inr ()) turns (new_counters Guardrail) = (Some (Inr VPass), c, findings)
    \<and> count_of c CRead Interim = length rs
    \<and> ro_status (snd (snd (conclude_range ctl rng c (Finished VPass)))) = Pass"
proof -
  obtain c findings where run: "guardrail_loop F g guardrail_tokens turns (new_counters Guardrail, []) = (Some (Inr VPass), c, findings)"
    using guardrail_loop_stops assms(1) by blast
  have "count_of c CRead Interim = length rs"
    using guardrail_loop_counts [OF run guardrail_start(1)] assms by (simp add: guardrail_start rows_measured_stops)
  then show ?thesis using run by (simp add: process_guardrail_loop conclude_range_def Let_def)
qed

subsection \<open>Sizes in the report\<close>

lemma zero_digit: "is_digit (CHR ''0'')" "of_char (CHR ''0'') = (48 :: nat)"
  by (simp_all add: is_digit_def)

lemma digits_value_append: "digits_value (s @ u) = digits_value s * 10 ^ length u + digits_value u"
proof (induction u rule: rev_induct)
  case (snoc c u)
  then show ?case by (simp add: digits_value_def algebra_simps flip: append_assoc)
qed (simp add: digits_value_def)

lemma digits_value_zeros: "digits_value (replicate k (CHR ''0'')) = 0"
  by (induction k) (simp_all add: digits_value_append zero_digit digits_value_def flip: replicate_append_same)

lemma show_nat_short: "n < 1000 \<Longrightarrow> length (show_nat n) \<le> 3"
  by (subst show_nat.simps, subst show_nat.simps, subst show_nat.simps) simp

lemma pad3_facts:
  assumes "n < 1000"
  shows "length (pad3 n) = 3" "list_all is_digit (pad3 n)" "digits_value (pad3 n) = n"
  using show_nat_short [OF assms] show_nat_digits [of n]
  by (auto simp: pad3_def digits_value_append digits_value_zeros zero_digit list_all_iff)

lemma strip_zeros_snoc: "strip_zeros [] = []" "strip_zeros (s @ [c]) = (if c = CHR ''0'' then strip_zeros s else s @ [c])"
  by (simp_all add: strip_zeros_def)

lemma strip_zeros_split: "\<exists>k. s = strip_zeros s @ replicate k (CHR ''0'')"
proof (induction s rule: rev_induct)
  case (snoc c s)
  then obtain k where "s = strip_zeros s @ replicate k (CHR ''0'')" by blast
  then have zero: "s @ [CHR ''0''] = strip_zeros s @ replicate (Suc k) (CHR ''0'')"
    by (metis append.assoc replicate_append_same replicate_Suc)
  show ?case
  proof (cases "c = CHR ''0''")
    case True
    show ?thesis unfolding strip_zeros_snoc True using zero by metis
  next
    case False
    then show ?thesis by (simp add: strip_zeros_snoc)
  qed
qed (simp add: strip_zeros_snoc)

lemma strip_zeros_last: "strip_zeros s \<noteq> [] \<Longrightarrow> last (strip_zeros s) \<noteq> CHR ''0''"
  by (induction s rule: rev_induct) (auto simp: strip_zeros_snoc split: if_splits)

lemma strip_zeros_append: "strip_zeros u \<noteq> [] \<Longrightarrow> strip_zeros (s @ u) = s @ strip_zeros u"
  by (auto simp: strip_zeros_def dropWhile_append)

text \<open>
  The sizes in a guardrail report are exact: a size is printed in kilobytes of a thousand bytes, without a
  fraction when it is a whole number of them, and otherwise with the digits of the remainder, of which
  only trailing zeros are dropped (GRD-003).
\<close>

theorem format_kb_exact:
  "if bytes mod 1000 = 0 then format_kb bytes False = show_nat (bytes div 1000)
   else \<exists>f. format_kb bytes False = show_nat (bytes div 1000) @ ''.'' @ f \<and> f \<noteq> [] \<and> list_all is_digit f
     \<and> last f \<noteq> CHR ''0'' \<and> length f \<le> 3 \<and> digits_value f * 10 ^ (3 - length f) = bytes mod 1000"
proof (cases "bytes mod 1000 = 0")
  case True
  then show ?thesis by (simp add: format_kb_def)
next
  case False
  define p where "p = pad3 (bytes mod 1000)"
  note facts = pad3_facts [of "bytes mod 1000", folded p_def, simplified]
  obtain k where k: "p = strip_zeros p @ replicate k (CHR ''0'')" using strip_zeros_split by blast
  have val: "digits_value (strip_zeros p) * 10 ^ k = bytes mod 1000" "length (strip_zeros p) + k = 3"
    using arg_cong [OF k, of digits_value] arg_cong [OF k, of length] facts
    by (simp_all add: digits_value_append digits_value_zeros)
  have ne: "strip_zeros p \<noteq> []" using val(1) False by (auto simp: digits_value_def)
  have digits: "list_all is_digit (strip_zeros p)" using facts(2) by (subst (asm) k) simp
  have "format_kb bytes False = show_nat (bytes div 1000) @ ''.'' @ strip_zeros p"
    using False strip_zeros_append [OF ne, of "show_nat (bytes div 1000) @ ''.''"] by (simp add: format_kb_def p_def Let_def)
  moreover have "k = 3 - length (strip_zeros p)" using val(2) by simp
  ultimately show ?thesis
    using False ne digits strip_zeros_last [OF ne] val by (auto intro!: exI [of _ "strip_zeros p"])
qed

subsection \<open>A range end to end\<close>

definition whole_bytes :: "nat float_ops" where
  "whole_bytes = \<lparr>fl_parse = \<lambda>_. Inr 1, fl_is_finite = \<lambda>_. True, fl_zero = 0, fl_kb = 1000, fl_mul = (*), fl_less = (<),
     fl_of_usize = id, fl_show = show_nat\<rparr>"

definition one_kb :: "nat column_size_guardrail" where
  "one_kb = \<lparr>cg_table = TableRef ''ks'' ''t'', cg_columns = [''id'', ''value''], cg_threshold_bytes = 1000, cg_enabled = True,
     cg_mode = ModeCheck, cg_compat_java = False\<rparr>"

definition sized :: "nat \<Rightarrow> row_sizes" where
  "sized n = \<lparr>rz_key = PrimaryKey [], rz_lengths = [4, n]\<rparr>"

definition sized_turns :: "guardrail_turn list" where
  "sized_turns = [(Inr (Some (sized 1000)), False), (Inr (Some (sized 1001)), False), (Inr None, False)]"

theorem guardrail_counts_large_rows_witness:
  "\<exists>out c findings. process_guardrail_range whole_bytes one_kb (Inr ()) sized_turns (new_counters Guardrail) = (out, c, findings)
     \<and> count_of c CRead Interim = 2 \<and> count_of c CLarge Interim = 1"
proof -
  obtain out c findings where run: "process_guardrail_range whole_bytes one_kb (Inr ()) sized_turns (new_counters Guardrail) = (out, c, findings)"
    by (cases "process_guardrail_range whole_bytes one_kb (Inr ()) sized_turns (new_counters Guardrail)") auto
  show ?thesis using guardrail_counts_large_rows [OF run] run
    by (auto simp: sized_turns_def oversized_def one_kb_def whole_bytes_def sized_def Let_def upt_conv_Cons)
qed

theorem cancelled_guardrail_range_passes_witness:
  "\<exists>c findings. process_guardrail_range whole_bytes one_kb (Inr ())
       [(Inr (Some (sized 4)), False), (Inr (Some (sized 5000)), True), (Inr (Some (sized 6000)), True)] (new_counters Guardrail)
     = (Some (Inr VPass), c, findings) \<and> count_of c CRead Interim = 1"
proof -
  let ?turns = "[(Inr (Some (sized 4)), False), (Inr (Some (sized 5000)), True), (Inr (Some (sized 6000)), True)]"
  have "?turns = map (\<lambda>r. (Inr (Some r), False)) [sized 4] @ (Inr (Some (sized 5000)), True) # [(Inr (Some (sized 6000)), True)]"
    "length ?turns < 2 ^ 64" by simp_all
  from cancelled_guardrail_range_passes [OF this, of whole_bytes one_kb undefined undefined] show ?thesis by auto
qed

end
