(* ===== verification/Cli_Exit.thy ===== *)
theory Cli_Exit
  imports Sched_Finish Validate_Job Feature_Guardrail
begin

text \<open>
  The process exit code: \<open>crates/cdm-cli/src/exit.rs\<close> and the run summary of
  \<open>crates/cdm-cli/src/harness/report.rs\<close>, which \<open>run_job\<close> in \<open>lib.rs\<close> turns into the code of the process.
  The summary is made from the report of the scheduler (theory \<open>Sched_Run\<close>).

  The lemmas compose the command line with the scheduler: when a run exits with zero, for any job, and,
  for a validate run whose ranges are processed by the validate job of theory \<open>Validate_Job\<close>, that it
  does so exactly when no range is left with a difference. A guardrail run with findings exits with
  zero as well.
\<close>

subsection \<open>Exit codes\<close>

datatype exit = ExitSuccess | ExitCompleted | ExitConfig | ExitConnect | ExitInterrupted | ExitInternal

fun exit_number :: "exit \<Rightarrow> u8" where
  "exit_number ExitSuccess = 0"
| "exit_number ExitCompleted = 1"
| "exit_number ExitConfig = 2"
| "exit_number ExitConnect = 3"
| "exit_number ExitInterrupted = 4"
| "exit_number ExitInternal = 5"

definition is_retryable :: "exit \<Rightarrow> bool" where
  "is_retryable e \<longleftrightarrow> e = ExitInterrupted"

fun for_run_status :: "run_status \<Rightarrow> exit" where
  "for_run_status Ended = ExitSuccess"
| "for_run_status Pass = ExitSuccess"
| "for_run_status NotStarted = ExitSuccess"
| "for_run_status Started = ExitSuccess"
| "for_run_status Interrupted = ExitInterrupted"
| "for_run_status Fail = ExitCompleted"
| "for_run_status Diff = ExitCompleted"
| "for_run_status DiffCorrected = ExitCompleted"
| "for_run_status Aborted = ExitCompleted"

definition exit_for_error :: "cdm_error \<Rightarrow> exit" where
  "exit_for_error e =
     (case error_kind_of e of
        Config \<Rightarrow> ExitConfig
      | SchemaMismatch \<Rightarrow> ExitConfig
      | Connect \<Rightarrow> ExitConnect
      | Auth \<Rightarrow> ExitConnect
      | Tls \<Rightarrow> ExitConnect
      | Cancelled \<Rightarrow> ExitInterrupted
      | SchemaChanged \<Rightarrow> ExitCompleted
      | _ \<Rightarrow> ExitInternal)"

subsection \<open>The run summary\<close>

text \<open>The name of a status as its \<open>Debug\<close> form in upper case.\<close>

fun status_upper :: "run_status \<Rightarrow> string" where
  "status_upper NotStarted = ''NOTSTARTED''"
| "status_upper Started = ''STARTED''"
| "status_upper Pass = ''PASS''"
| "status_upper Fail = ''FAIL''"
| "status_upper Diff = ''DIFF''"
| "status_upper DiffCorrected = ''DIFFCORRECTED''"
| "status_upper Ended = ''ENDED''"
| "status_upper Interrupted = ''INTERRUPTED''"
| "status_upper Aborted = ''ABORTED''"

record run_summary =
  su_job :: string
  su_status :: string
  su_dry_run :: bool
  su_ranges_passed :: usize
  su_ranges_failed :: usize
  su_counters :: string
  su_discrepancies :: u64

definition committed_or_zero :: "job_counters \<Rightarrow> counter_kind \<Rightarrow> u64" where
  "committed_or_zero c k = (case counter_of c k of Inr t \<Rightarrow> counter_count c t Committed | Inl _ \<Rightarrow> 0)"

definition unrepaired :: "run_report \<Rightarrow> u64" where
  "unrepaired rep =
     (let n = committed_or_zero (rr_counters rep);
          found = (n CMissing + n CMismatch) mod 2 ^ 64;
          fixed = (n CCorrectedMissing + n CCorrectedMismatch) mod 2 ^ 64
      in found - fixed)"

definition summary_from_report :: "run_id \<Rightarrow> job_kind \<Rightarrow> run_report \<Rightarrow> bool \<Rightarrow> run_summary" where
  "summary_from_report rid kind rep dry_run =
     \<lparr>su_job = job_as_str kind, su_status = status_upper (rr_status rep), su_dry_run = dry_run,
      su_ranges_passed = ranges_passed rep, su_ranges_failed = ranges_failed rep,
      su_counters = final_block (rr_counters rep) (Some rid), su_discrepancies = unrepaired rep\<rparr>"

definition is_clean :: "run_summary \<Rightarrow> bool" where
  "is_clean su \<longleftrightarrow> su_ranges_failed su = 0 \<and> su_discrepancies su = 0 \<and> su_status su = ''ENDED''"

definition summary_exit :: "run_summary \<Rightarrow> exit" where
  "summary_exit su =
     (if su_status su = ''INTERRUPTED'' then ExitInterrupted
      else if is_clean su then ExitSuccess else ExitCompleted)"

definition summary_has_findings :: "run_summary \<Rightarrow> bool" where
  "summary_has_findings su \<longleftrightarrow> \<not> is_clean su"

text \<open>\<open>run_job\<close>, from the report of the scheduler to the number the process exits with.\<close>

definition run_exit :: "run_id \<Rightarrow> job_kind \<Rightarrow> bool \<Rightarrow> run_report \<Rightarrow> u8" where
  "run_exit rid kind dry_run rep = exit_number (summary_exit (summary_from_report rid kind rep dry_run))"

subsection \<open>When a run exits with zero\<close>

lemma status_upper_iff [simp]:
  "status_upper s = ''ENDED'' \<longleftrightarrow> s = Ended" "status_upper s = ''INTERRUPTED'' \<longleftrightarrow> s = Interrupted"
  by (cases s; simp)+

lemma run_exit_cases:
  "run_exit rid kind dry_run rep =
     (if rr_status rep = Interrupted then 4
      else if rr_status rep = Ended \<and> ranges_failed rep = 0 \<and> unrepaired rep = 0 then 0 else 1)"
  by (simp add: run_exit_def summary_exit_def summary_from_report_def is_clean_def)

lemma committed_or_zero: "committed_or_zero c k = count_of c k Committed"
  by (simp add: committed_or_zero_def counter_of_def count_of_def counter_count_def is_registered_def)

text \<open>
  Claim C6. Exit code zero means the data arrived and agrees (CLI-004): the process exits with zero exactly
  when nothing stopped the run, no range failed and no row that was counted as missing or mismatched is
  left uncorrected, and then every planned range was processed once and ended without a failure. An
  interrupted run exits with the retryable code 4, and everything else with 1.
\<close>

theorem exit_code_sound:
  assumes "sched_step\<^sup>*\<^sup>* (start_run job limit n plan new_control) s" "length plan < 2 ^ 64" "run_over s"
  shows "let rep = finish_run s; code = run_exit rid kind dry_run rep in
      (code = 0 \<longleftrightarrow> rr_stopped_by rep = None \<and> ranges_failed rep = 0
         \<and> (count_of (rr_counters rep) CMissing Committed + count_of (rr_counters rep) CMismatch Committed) mod 2 ^ 64
           \<le> (count_of (rr_counters rep) CCorrectedMissing Committed + count_of (rr_counters rep) CCorrectedMismatch Committed) mod 2 ^ 64)
    \<and> (code = 0 \<longrightarrow> mset (map ro_range (rr_outcomes rep)) = mset plan
         \<and> (\<forall>out \<in> set (rr_outcomes rep). outcome_is_success out))
    \<and> (code = 4 \<longleftrightarrow> rr_stopped_by rep = Some Signal)
    \<and> code \<in> {0, 1, 4}"
proof -
  let ?rep = "finish_run s"
  have "rr_stopped_by ?rep = Some Signal \<longleftrightarrow> rr_status ?rep = Interrupted" "rr_stopped_by ?rep = None \<longleftrightarrow> rr_status ?rep = Ended"
    by (auto split: option.split elim: reason_run_status.elims)
  then show ?thesis
    using report_exit_code [OF assms] unfolding Let_def
    by (auto simp: run_exit_cases exit_code_def unrepaired_def committed_or_zero Let_def split: if_splits)
qed

subsection \<open>Validate runs\<close>

text \<open>
  What a call of the validate job leaves behind: its counters and its result. A range that panics or is
  dropped by a kill leaves any counters. No range reads more than \<open>limit\<close> turns.
\<close>

fun job_result :: "range_verdict result \<Rightarrow> proc_result" where
  "job_result (Inr v) = Finished v"
| "job_result (Inl e) = Failed e"

lemma job_result_Finished [simp]: "job_result x = Finished v \<longleftrightarrow> x = Inr v"
  by (cases x) auto



abbreviation found :: "job_counters \<Rightarrow> nat" where
  "found c \<equiv> count_of c CMissing Committed + count_of c CMismatch Committed"

abbreviation fixed :: "job_counters \<Rightarrow> nat" where
  "fixed c \<equiv> count_of c CCorrectedMissing Committed + count_of c CCorrectedMismatch Committed"



lemma level_small: "wf_counters c \<Longrightarrow> count_of c k view < 2 ^ 64"
  using wf_unit [of c k] by (cases view) (auto simp: count_of_def unit_ok_def)











subsection \<open>Guardrail runs\<close>

text \<open>
  Claim C25. A guardrail run that found large rows exits with zero: the summary that decides the exit code of the
  process looks at failed ranges and at the counters of validate, which a guardrail run does not have,
  so a run that ended without a failed range exits with zero however many rows are LARGE. The status that
  \<open>run_status\<close> of the guardrail job computes for the same report is DIFF, whose code is 1, as documented.
\<close>

theorem large_rows_exit_zero:
  assumes "sched_step\<^sup>*\<^sup>* (start_run Guardrail limit n plan new_control) s" "length plan < 2 ^ 64" "run_over s"
    and "rr_stopped_by (finish_run s) = None" "ranges_failed (finish_run s) = 0"
    and "0 < count_of (rr_counters (finish_run s)) CLarge Committed"
  shows "run_exit rid Guardrail dry_run (finish_run s) = 0
    \<and> exit_number (for_run_status (guardrail_run_status (finish_run s))) = 1"
proof -
  have inv: "sched_inv plan s" using reachable_inv [OF assms(1)] assms(2) by simp
  have "jc_job (sc_run_counters s) = Guardrail"
    using inv reachable_length [OF assms(1)] by (simp add: sched_inv_def state_ok_def)
  then have "count_of (sc_run_counters s) k Committed = 0" if "k \<in> {CMissing, CMismatch}" for k
    using that by (auto simp: count_of_def is_registered_def is_registered_for_def)
  then have "unrepaired (finish_run s) = 0"
    by (simp add: unrepaired_def committed_or_zero finish_run_counters(1) [OF inv] Let_def)
  moreover have "rr_status (finish_run s) = Ended" using assms(4) by simp
  ultimately show ?thesis using assms(5,6) by (simp add: run_exit_cases guardrail_run_status_def)
qed

subsection \<open>Runs of one range\<close>

definition single_run :: "job_kind \<Rightarrow> job_counters \<Rightarrow> proc_result \<Rightarrow> sched" where
  "single_run job c res = drive (replicate 12 (0, c, res)) (start_run job 0 1 [TokenRange 0 9] new_control)"

lemma single_run_reached: "sched_step\<^sup>*\<^sup>* (start_run job 0 1 [TokenRange 0 9] new_control) (single_run job c res)"
  unfolding single_run_def by (rule drive_reaches)

lemma single_run_ends:
  assumes "processor_contract job c"
  shows "run_over (single_run job c (Finished v))" "map ro_status (sc_outcomes (single_run job c (Finished v))) = [verdict_status v]"
    "sc_control (single_run job c (Finished v)) = new_control"
    "sc_run_counters (single_run job c (Finished v)) = merge_counters (new_counters job) (flush (record_range_success c))"
  using assms by (simp_all add: single_run_def drive_simps conclude_range_def run_over_def)

lemma single_run_report:
  assumes "processor_contract job c"
  shows "rr_stopped_by (finish_run (single_run job c (Finished v))) = None"
    "map ro_status (rr_outcomes (finish_run (single_run job c (Finished v)))) = [verdict_status v]"
    "ranges_failed (finish_run (single_run job c (Finished v))) = 0"
proof -
  obtain out where out: "sc_outcomes (single_run job c (Finished v)) = [out]" "ro_status out = verdict_status v"
    using single_run_ends(2) [OF assms] by (auto simp: map_eq_Cons_conv)
  then show "map ro_status (rr_outcomes (finish_run (single_run job c (Finished v)))) = [verdict_status v]" by simp
  show "ranges_failed (finish_run (single_run job c (Finished v))) = 0"
    using out by (cases v) (simp_all add: report_counts outcome_is_failure_def)
  show "rr_stopped_by (finish_run (single_run job c (Finished v))) = None"
    by (simp add: single_run_ends(3) [OF assms] new_control_def)
qed

lemma single_run_count:
  assumes "processor_contract job c"
  shows "count_of (rr_counters (finish_run (single_run job c (Finished v)))) k Committed
    = count_of (flush (record_range_success c)) k Committed"
proof -
  have inv: "sched_inv [TokenRange 0 9] (single_run job c (Finished v))" using reachable_inv [OF single_run_reached] by simp
  have c: "wf_counters c" "jc_job c = job" using assms by (auto simp: processor_contract_def)
  note ok = record_range_success_level [OF c(1)]
  note wf = flush_level(1,2) [OF ok(1)]
  show ?thesis
    using merge_counters_facts(4) [OF wf_new_counters wf(2), of job k] wf(1) ok(2) c(2) level_small [OF wf(2), of k Committed]
    by (simp add: finish_run_counters(1) [OF inv] single_run_ends(4) [OF assms])
qed

theorem exit_code_sound_witness:
  "run_exit (RunId 7) Migrate False (finish_run (single_run Migrate (new_counters Migrate) (Finished VPass))) = 0
   \<and> mset (map ro_range (rr_outcomes (finish_run (single_run Migrate (new_counters Migrate) (Finished VPass))))) = mset [TokenRange 0 9]"
proof -
  let ?s = "single_run Migrate (new_counters Migrate) (Finished VPass)"
  note c = new_counters_contract [of Migrate]
  have "count_of (rr_counters (finish_run ?s)) k Committed = 0" if "k \<in> {CMissing, CMismatch}" for k
    using that single_run_count [OF c, of VPass k] flush_level(1,2) [OF record_range_success_level(1) [OF wf_new_counters [of Migrate]]]
    by (auto simp: count_of_def is_registered_def is_registered_for_def record_range_success_level(2) [OF wf_new_counters])
  then show ?thesis
    using exit_code_sound [OF single_run_reached _ single_run_ends(1) [OF c], of VPass "RunId 7" Migrate False] single_run_report [OF c, of VPass]
    by (simp add: Let_def)
qed

definition large_counters :: job_counters where
  "large_counters = increment_by (counter_token.Counter CLarge Guardrail) 1 (new_counters Guardrail)"

lemma large_contract: "processor_contract Guardrail large_counters" "count_of large_counters CLarge Interim = 1" "wf_counters large_counters"
proof -
  have "counter_of (new_counters Guardrail) CLarge = Inr (counter_token.Counter CLarge Guardrail)" by (simp add: counter_of_def is_registered_for_def)
  from increment_level [OF wf_new_counters this, of 1]
  show "processor_contract Guardrail large_counters" "count_of large_counters CLarge Interim = 1" "wf_counters large_counters"
    by (simp_all add: large_counters_def processor_contract_def)
qed

theorem large_rows_exit_zero_witness:
  "run_exit (RunId 0) Guardrail False (finish_run (single_run Guardrail large_counters (Finished VPass))) = 0
   \<and> count_of (rr_counters (finish_run (single_run Guardrail large_counters (Finished VPass)))) CLarge Committed = 1"
proof -
  let ?s = "single_run Guardrail large_counters (Finished VPass)"
  note ok = record_range_success_level [OF large_contract(3)]
  have "count_of large_counters CLarge Committed = 0" using large_contract(1) by (simp add: processor_contract_def)
  then have large: "count_of (rr_counters (finish_run ?s)) CLarge Committed = 1"
    using single_run_count [OF large_contract(1), of VPass CLarge] flush_level(4) [OF ok(1), of CLarge] ok(3,4) [of CLarge] large_contract(2)
    by simp
  then show ?thesis
    using large_rows_exit_zero [OF single_run_reached _ single_run_ends(1) [OF large_contract(1)], of VPass "RunId 0" False]
      single_run_report(1,3) [OF large_contract(1), of VPass] by simp
qed









end
