(* ===== verification/Cli_Resume.thy ===== *)
theory Cli_Resume
  imports Cli_Exit Track_Resume
begin

text \<open>
  The report and the exit code of \<open>cdm runs resume\<close>: \<open>crates/cdm-cli/src/commands/runs.rs\<close> and the entries
  for withheld ranges of \<open>crates/cdm-cli/src/harness/resume.rs\<close>. The resume plan is that of theory
  \<open>Track_Resume\<close>, the summary of the resumed run that of theory \<open>Cli_Exit\<close>.

  The lemmas show that the exit code looks at the withheld ranges only when no run was started.
\<close>

fun quarantine_message :: "quarantine_reason \<Rightarrow> string" where
  "quarantine_message CounterPartiallyApplied =
     ''counter range may have partially applied; manual reconciliation required (re-running it would double-count)''"

fun run_type :: "job_kind \<Rightarrow> string" where
  "run_type Migrate = ''MIGRATE''"
| "run_type Validate = ''VALIDATE''"
| "run_type Guardrail = ''GUARDRAIL''"

record quarantine_entry =
  qe_range :: string
  qe_status :: "string option"
  qe_reason :: string

definition entry_from_range :: "quarantined_range \<Rightarrow> quarantine_entry" where
  "entry_from_range q =
     \<lparr>qe_range = show_range (qr_range q), qe_status = map_option status_as_str (qr_status q),
      qe_reason = quarantine_message (qr_reason q)\<rparr>"

text \<open>The report without the document for \<open>--summary-out\<close>, which does not take part in the exit code.\<close>

record resume_report =
  re_previous_run_id :: i64
  re_run_id :: "i64 option"
  re_job :: string
  re_ranges_considered :: usize
  re_ranges_replanned :: usize
  re_quarantined :: "quarantine_entry list"
  re_run :: "run_summary option"

text \<open>What \<open>resume\<close> returns: no run is started when nothing is outstanding.\<close>

definition resume_report_of :: "run_id \<Rightarrow> resume_plan \<Rightarrow> job_kind \<Rightarrow> run_id \<Rightarrow> run_summary \<Rightarrow> resume_report" where
  "resume_report_of previous pl job run summary =
     \<lparr>re_previous_run_id = as_i64 previous, re_run_id = (if rs_ranges pl = [] then None else Some (as_i64 run)),
      re_job = run_type job, re_ranges_considered = rs_considered pl, re_ranges_replanned = length (rs_ranges pl),
      re_quarantined = map entry_from_range (rs_quarantined pl),
      re_run = (if rs_ranges pl = [] then None else Some summary)\<rparr>"

definition resume_has_findings :: "resume_report \<Rightarrow> bool" where
  "resume_has_findings r \<longleftrightarrow> re_quarantined r \<noteq> [] \<or> (case re_run r of Some su \<Rightarrow> summary_has_findings su | None \<Rightarrow> False)"

definition resume_exit :: "resume_report \<Rightarrow> exit" where
  "resume_exit r =
     (case re_run r of
        Some su \<Rightarrow> summary_exit su
      | None \<Rightarrow> if resume_has_findings r then ExitCompleted else ExitSuccess)"

lemma withheld_quarantined:
  assumes "plan_resume pid previous records policy m run = Inr pl" "\<not> is_fallback pl"
  shows "mset (rs_quarantined pl) = mset (map quarantine (withheld_rows policy records))"
  using assms by (auto simp: plan_resume_def resume_fallback_def is_fallback_def sort_records_eq bindR_Inr_iff
      split: option.splits if_splits)

text \<open>
  A resume that withholds ranges of a counter table and starts no run exits with 1. When it also re-plans
  some other range and that run is clean, it exits with zero, although it has findings (TRK-039).
\<close>

theorem withheld_ranges_exit:
  assumes "plan_resume pid previous records policy m run = Inr pl" "\<not> is_fallback pl" "withheld_rows policy records \<noteq> []" "is_clean su"
  shows "resume_has_findings (resume_report_of pid pl job run su)
    \<and> exit_number (resume_exit (resume_report_of pid pl job run su)) = (if rs_ranges pl = [] then 1 else 0)"
proof -
  have "rs_quarantined pl \<noteq> []" using withheld_quarantined [OF assms(1,2)] assms(3) by auto
  moreover have "summary_exit su = ExitSuccess" using assms(4) by (auto simp: summary_exit_def is_clean_def)
  ultimately show ?thesis by (simp add: resume_exit_def resume_report_of_def resume_has_findings_def)
qed

end
