(* ===== verification/Spec2Isabelle.thy ===== *)
theory Spec2Isabelle
  imports Planner_Plan Sched_Pacing Sched_Finish Track_Writer Cluster_Lease Codec_Sound Cql_Bind
    Migrate_Job Migrate_Slots Validate_Job Feature_Constant Cli_Resume
begin

text \<open>
  A verification library for cdm-rs, the Rust port of the Cassandra Data Migrator.

  \<^bold>\<open>The program.\<close> A run copies (migrate), compares (validate) or inspects (guardrail) a table, one
  token range at a time. \<open>cdm-engine\<close>'s planner splits the token ring into ranges and shuffles them; its
  scheduler lets a number of workers claim ranges from a shared queue, paces them, counts what they do
  and decides the run's status, from which \<open>cdm-cli\<close> makes the exit code of the process; \<open>cdm-metrics\<close> keeps the counters and renders them;
  \<open>cdm-track\<close> records every range's status through an asynchronous writer and turns the records of an
  interrupted run into the work list of the next one; \<open>cdm-cluster\<close> lets several nodes share one run by
  leasing its ranges through the same store. Within a range, \<open>cdm-cql\<close> turns the two table schemas into a
  column mapping, the CQL statements and the bound values of a row, \<open>cdm-codec\<close> plans and applies the
  conversions between column types, \<open>cdm-feature\<close> holds what an operator can switch
  on per row (filters, TTL and writetime, exploded maps, constants, extracted JSON, size limits), the
  migrate job reads pages, filters and binds rows, and keeps a bounded number of writes in flight, the
  validate job looks every row up on the target, compares and corrects it, and the guardrail job measures
  it. \<open>cdm-core\<close> holds the data all of them exchange.

  \<^bold>\<open>Conventions.\<close> Theory \<open>Prelude\<close> fixes them: signed integers are \<^typ>\<open>int\<close> and unsigned ones
  \<^typ>\<open>nat\<close>, and every operation that can leave its width (checked, wrapping, saturating, \<open>as\<close>) is a
  definition with the width written out; bit-level code (run ids, SplitMix64) is on words. A \<open>Result\<close> is
  \<open>cdm_error + 'a\<close>, with the error's kind, message and context as the code builds them. A struct is a record,
  an enum a datatype, an object behind a mutex a record that each operation returns updated. Where the
  code interleaves (atomics, tasks, nodes) there is a step relation whose steps are the code's atomic
  actions, and a property is proved for every sequence of them; where a concrete run is needed, a
  function of an explicit list of actions computes it.

  \<^bold>\<open>Theories and sources\<close> (all under \<open>src/crates\<close>).

  \<^item> \<open>Core_Model\<close>: \<open>cdm-core/src/domain/record.rs\<close>, \<open>error/mod.rs\<close>. Cells, rows, keys, records; the error
    type with its classification into retryable and fatal kinds, exit codes and rendering.
  \<^item> \<open>Core_Token\<close>: \<open>domain/token.rs\<close>. Closed token ranges on \<open>i128\<close>, their size, split and clip. The
    locale \<open>range_splitter\<close> is the contract of a subdivision; \<open>TokenRange::split\<close> provides it.
  \<^item> \<open>Core_Run\<close>: \<open>domain/run.rs\<close>. Statuses and their spellings, run ids, and the lock-free generator as
    a step relation over the shared cell: ids strictly increase in every interleaving.
  \<^item> \<open>Rust_Strings\<close>, \<open>Ordered_Map\<close>: the part of the standard library (\<open>str\<close>, \<open>BTreeMap\<close>) the modelled code uses.
  \<^item> \<open>Planner_Split\<close>: \<open>cdm-engine/src/planner/partitioner.rs\<close>, \<open>split.rs\<close>. The ring splitter, its loop
    with a termination proof, exact cover at full coverage (it provides \<open>range_splitter\<close>), the leading
    share of each tile at partial coverage, and every error.
  \<^item> \<open>Planner_Shuffle\<close>: \<open>planner/shuffle.rs\<close>. SplitMix64, the unbiased draw (termination of its rejection
    loop included) and the Fisher-Yates shuffle, a permutation.
  \<^item> \<open>Planner_Plan\<close>: \<open>planner/mod.rs\<close>, \<open>topology.rs\<close>, \<open>cluster.rs\<close>. The three strategies, admission of a
    resumed list, subdivision for a re-run: each token of the segment lies in exactly one range.
  \<^item> \<open>Sched_Pacing\<close>: \<open>scheduler/settings.rs\<close>, \<open>ratelimit.rs\<close>, \<open>adaptive.rs\<close>, \<open>limits.rs\<close>. The GCRA limiter
    refines a token bucket, the AIMD controller stays within its bounds, the semaphores bound what is in flight.
  \<^item> \<open>Sched_Control\<close>: \<open>scheduler/control.rs\<close>, \<open>signal.rs\<close>. Pause, stop and kill, as functions and as
    programs of atomic actions of any number of callers.
  \<^item> \<open>Metrics_Counters\<close>, \<open>Metrics_Report\<close>: \<open>cdm-metrics/src/counter.rs\<close>, \<open>registry.rs\<close>, \<open>report.rs\<close>. The
    two-level counters and the Java-format report, which its parser reads back.
  \<^item> \<open>Sched_Run\<close>, \<open>Sched_Safety\<close>, \<open>Sched_Finish\<close>: \<open>scheduler/queue.rs\<close>, \<open>failure.rs\<close>, \<open>processor.rs\<close>,
    \<open>mod.rs\<close>. Queue and worker loop as a step relation; the invariants; the report and its code, the
    error limit, and that the workers end as far as their jobs return. The locale \<open>work_source\<close> is what the workers rely on; the queue provides it.
  \<^item> \<open>Track_Store\<close>: \<open>cdm-core/src/registry/context.rs\<close>, \<open>cdm-track/src/store/memory.rs\<close>. Rows and the
    in-process store with all its methods, each one atomic transition.
  \<^item> \<open>Track_Resume\<close>: \<open>cdm-track/src/resume.rs\<close>. Composes planner, store and resume: after any writes the
    next run covers exactly the unfinished tokens that may be re-run.
  \<^item> \<open>Track_Writer\<close>: \<open>cdm-track/src/tracker.rs\<close>. Channel, checkpoint and writer task; the locale
    \<open>tracking_backend\<close> is the store it relies on, provided by the in-process one.
  \<^item> \<open>Cluster_Lease\<close>: \<open>cdm-cluster/src\<close>. The coordinator over the locale \<open>lease_backend\<close>, again provided by
    the in-process store, and a fleet of nodes interleaving single store operations.
  \<^item> \<open>Codec_Types\<close>, \<open>Codec_Wire\<close>, \<open>Codec_Plan\<close>, \<open>Codec_Sound\<close>: \<open>cdm-codec/src/types.rs\<close>, \<open>wire.rs\<close>, \<open>codec.rs\<close>,
    \<open>plan.rs\<close>. The type grammar and its printer (a round trip), the element framing, the codec registry,
    the plan between two types; applying a plan to a well-framed value of the origin type gives one of the
    target type, when every registered codec keeps its types.
  \<^item> \<open>Cql_Schema\<close>: \<open>cdm-cql/src/schema/identifier.rs\<close>, \<open>table.rs\<close>. Quoting of names and table schemas.
  \<^item> \<open>Cql_Statement\<close>: \<open>cdm-cql/src/statement\<close> without \<open>bind.rs\<close>. The column mapping with all its refusals,
    projections, the SELECT, INSERT and UPDATE texts and their bind slots, token bounds.
  \<^item> \<open>Cql_Bind\<close>: \<open>statement/bind.rs\<close>. Binding a row to the slots of a statement, missing keys, null map
    values; the key of a lookup, marker by marker, is the key that is written.
  \<^item> \<open>Row_Stream\<close>, \<open>Cql_Rows\<close>: \<open>cdm-cql/src/rows.rs\<close>. The locale \<open>row_stream\<close> is what a job expects of a paged
    scan; the scans of validate and guardrail provide it. The key plan of a validate run, the null keys it
    substitutes, lookups and corrections; when the key of a lookup is the key that was written, and
    when it is not.
  \<^item> \<open>Migrate_Counter\<close>, \<open>Migrate_Buffer\<close>, \<open>Migrate_Slots\<close>, \<open>Migrate_Job\<close>: \<open>cdm-engine/src/jobs/migrate\<close>. Counter
    differences; the write buffer with its batches, threshold and flush; the write slots shared by all
    workers as a step relation, for batched and single writes and for writes that fail; rows, pages and
    ranges with their accounting; the lookup a counter difference is computed from.
  \<^item> \<open>Feature_Base\<close>: \<open>cdm-core/src/error/diagnostic.rs\<close>, \<open>cdm-feature/src/diagnostic.rs\<close>, \<open>properties.rs\<close>, \<open>schema.rs\<close>,
    \<open>wire.rs\<close>. Findings, property readers, table facts and the framing of maps and lists.
  \<^item> \<open>Feature_Writetime\<close>, \<open>Feature_Filter\<close>, \<open>Feature_Explode\<close>, \<open>Feature_Literal\<close>, \<open>Feature_Constant\<close>, \<open>Feature_Json\<close>:
    \<open>cdm-feature/src/writetime.rs\<close>, \<open>filter.rs\<close>, \<open>explode.rs\<close>, \<open>literal.rs\<close>, \<open>constant.rs\<close>, \<open>extract_json.rs\<close>. Each feature
    as the code has it: loading, validation against the tables, the resolved plan and its effect on a row.
    The newest timestamp is written, the filter chain is the conjunction of its filters, every pair of a
    map is converted, and literals, constants and extracted values conform to their column's type.
    Numbers, dates, addresses and JSON documents are parsed by functions of a library record, with what
    is needed of them as the hypothesis \<open>lib_ok\<close>.
  \<^item> \<open>Feature_Guardrail\<close>: \<open>cdm-feature/src/guardrail.rs\<close>, \<open>cdm-engine/src/jobs/guardrail.rs\<close>, \<open>guardrail/origin.rs\<close>. The
    size check and the job around it, over a record of float operations: what is counted, what a
    cancelled range reports, and the sizes printed.
  \<^item> \<open>Validate_Compare\<close>, \<open>Validate_Job\<close>: \<open>cdm-engine/src/jobs/validate\<close>. The comparison plan and the comparison of a
    row; a migrated row validates, a correction may leave a difference; batches of lookups, corrections,
    the verdict and cancellation of a range. A lookup is a task of its own, so its answer is a function
    of its position and key that the theorems quantify over.

  \<^item> \<open>Cli_Exit\<close>, \<open>Cli_Resume\<close>: \<open>cdm-cli/src/exit.rs\<close>, \<open>harness/report.rs\<close>, \<open>commands/runs.rs\<close> and the end of
    \<open>run_job\<close> in \<open>lib.rs\<close>. The exit code of the process, composed with the scheduler, the validate job, the
    guardrail job and the resume plan: a validate run exits with zero exactly when every range agrees
    or was corrected, a guardrail run with large rows exits with zero too.

  \<^bold>\<open>Bounds and fuel.\<close> No definition has a fuel argument that can cut a computation short. The splitter's
  loop ends by the distance left to its upper bound, the rejection loop by the number of generator
  steps left to the zero state. Waits that depend on the environment (\<open>await_started\<close>, \<open>keep_alive\<close>)
  take the list of readings or events they see. Runs of the step relations have no bound; that the
  workers get to the end is a measure (\<open>run_measure\<close>) which every step of theirs decreases; whether the
  call of a job returns is a parameter there (\<open>live_step\<close>).

  \<^bold>\<open>Not modelled.\<close> The built-in codecs (a converter is a parameter of a plan), the configuration model with
  its loaders, and the command line apart from its exit codes, which wires the parts together; in the migrate plan the row features
  are functions, and the theories of the features say what these are. The files that the difference log
  and the discrepancy report write are left out, their content is not. Never modelled: the driver, the
  Cassandra and SQLite stores (SQL text and sessions), TLS and Astra, exporters and logging, wall
  clocks and timers (a reading is an argument, an expiry a step that may happen), the test kit and
  the service crates, which are placeholders.
\<close>

end
